(* ===== verification/Prelude.thy ===== *)
theory Prelude
  imports Main "HOL-Library.Multiset" "HOL-Library.Code_Target_Numeral"
begin

text \<open>
  Shared ground of the development: the arithmetic of Rust's fixed-width integers, the
  result type of fallible pallet code, and Substrate's storage maps, with the lemmas about
  them that the component theories use.

  Unsigned machine integers are natural numbers whose width is written out at every operation
  that can leave it: \<open>checked_*\<close> answers \<open>None\<close>, \<open>saturating_*\<close> clamps, and the plain
  operators of the source, which wrap in a release build (the workspace's \<open>Cargo.toml\<close> has no
  profile that turns overflow checks on), are \<open>wrapping_*\<close> wherever they are not shown to stay
  in range. Signed integers are \<open>int\<close> values with the same treatment.
\<close>

named_theorems arith_ops \<open>characterisations of the fixed-width operations\<close>
named_theorems storage_simps \<open>reading a storage map after a write\<close>
named_theorems res_simps \<open>inversion of results\<close>

section \<open>Fixed-width unsigned arithmetic\<close>

type_synonym u8 = nat
type_synonym u32 = nat
type_synonym u64 = nat
type_synonym u128 = nat
type_synonym usize = nat
type_synonym i64 = int

text \<open>The runtime is compiled to 32-bit WebAssembly, where a \<open>usize\<close> has 32 bits.\<close>

abbreviation usize_bits :: nat where
  "usize_bits \<equiv> 32"

definition checked_add :: "nat \<Rightarrow> nat \<Rightarrow> nat \<Rightarrow> nat option" where
  "checked_add w a b = (if a + b < 2 ^ w then Some (a + b) else None)"

definition checked_sub :: "nat \<Rightarrow> nat \<Rightarrow> nat option" where
  "checked_sub a b = (if b \<le> a then Some (a - b) else None)"

definition checked_mul :: "nat \<Rightarrow> nat \<Rightarrow> nat \<Rightarrow> nat option" where
  "checked_mul w a b = (if a * b < 2 ^ w then Some (a * b) else None)"

definition checked_div :: "nat \<Rightarrow> nat \<Rightarrow> nat option" where
  "checked_div a b = (if b = 0 then None else Some (a div b))"

definition saturating_add :: "nat \<Rightarrow> nat \<Rightarrow> nat \<Rightarrow> nat" where
  "saturating_add w a b = min (a + b) (2 ^ w - 1)"

definition saturating_sub :: "nat \<Rightarrow> nat \<Rightarrow> nat" where
  "saturating_sub a b = a - b"

definition saturating_mul :: "nat \<Rightarrow> nat \<Rightarrow> nat \<Rightarrow> nat" where
  "saturating_mul w a b = min (a * b) (2 ^ w - 1)"

definition wrapping_add :: "nat \<Rightarrow> nat \<Rightarrow> nat \<Rightarrow> nat" where
  "wrapping_add w a b = (a + b) mod 2 ^ w"

definition wrapping_sub :: "nat \<Rightarrow> nat \<Rightarrow> nat \<Rightarrow> nat" where
  "wrapping_sub w a b = (if b \<le> a then a - b else a + 2 ^ w - b)"

definition wrapping_mul :: "nat \<Rightarrow> nat \<Rightarrow> nat \<Rightarrow> nat" where
  "wrapping_mul w a b = (a * b) mod 2 ^ w"

text \<open>The \<open>as\<close> casts the source uses.\<close>

definition as_unsigned :: "nat \<Rightarrow> nat \<Rightarrow> nat" where
  "as_unsigned w x = x mod 2 ^ w"

definition as_i64 :: "nat \<Rightarrow> int" where
  "as_i64 x = (if x < 2 ^ 63 then int x else int x - 2 ^ 64)"

definition as_i32 :: "nat \<Rightarrow> int" where
  "as_i32 x = (if x mod 2 ^ 32 < 2 ^ 31 then int (x mod 2 ^ 32) else int (x mod 2 ^ 32) - 2 ^ 32)"

definition i64_as_u64 :: "int \<Rightarrow> nat" where
  "i64_as_u64 x = nat (x mod 2 ^ 64)"

lemma checked_add_Some [arith_ops]:
  "checked_add w a b = Some c \<longleftrightarrow> c = a + b \<and> a + b < 2 ^ w"
  by (auto simp: checked_add_def)

lemma checked_mul_Some [arith_ops]:
  "checked_mul w a b = Some c \<longleftrightarrow> c = a * b \<and> a * b < 2 ^ w"
  by (auto simp: checked_mul_def)

lemma checked_sub_Some [arith_ops]:
  "checked_sub a b = Some c \<longleftrightarrow> b \<le> a \<and> c = a - b"
  by (auto simp: checked_sub_def)

lemma checked_div_Some [arith_ops]:
  "checked_div a b = Some c \<longleftrightarrow> b \<noteq> 0 \<and> c = a div b"
  by (auto simp: checked_div_def)

lemma saturating_add_le: "saturating_add w a b \<le> a + b"
  by (simp add: saturating_add_def)

lemma saturating_add_exact: "a + b < 2 ^ w \<Longrightarrow> saturating_add w a b = a + b"
  by (simp add: saturating_add_def)

lemma saturating_mul_exact: "a * b < 2 ^ w \<Longrightarrow> saturating_mul w a b = a * b"
  by (simp add: saturating_mul_def)

lemma wrapping_add_exact: "a + b < 2 ^ w \<Longrightarrow> wrapping_add w a b = a + b"
  by (simp add: wrapping_add_def)

lemma wrapping_sub_exact: "b \<le> a \<Longrightarrow> wrapping_sub w a b = a - b"
  by (simp add: wrapping_sub_def)

lemma as_i64_exact: "x < 2 ^ 63 \<Longrightarrow> as_i64 x = int x"
  by (simp add: as_i64_def)

lemma as_i32_exact: "x < 2 ^ 31 \<Longrightarrow> as_i32 x = int x"
  by (simp add: as_i32_def)

lemma i64_as_u64_exact: "0 \<le> x \<Longrightarrow> x < 2 ^ 63 \<Longrightarrow> i64_as_u64 x = nat x"
  by (simp add: i64_as_u64_def)

text \<open>Rounding a quotient up, as the source does it with a remainder test.\<close>

lemma less_ceil_div_iff:
  fixes n :: nat
  assumes "0 < n"
  shows "i < (if d mod n \<noteq> 0 then d div n + 1 else d div n) \<longleftrightarrow> n * i < d"
proof -
  have eq: "d = n * (d div n) + d mod n" by simp
  have r: "d mod n < n" using assms by simp
  consider "i < d div n" | "i = d div n" | "d div n < i" by linarith
  then show ?thesis
  proof cases
    case 1
    then have "n * (i + 1) \<le> n * (d div n)" by (intro mult_le_mono2) simp
    then have "n * i + n \<le> n * (d div n)" by simp
    then have "n * i < d" using eq assms by linarith
    with 1 show ?thesis by simp
  next
    case 2
    define q where "q = d div n"
    have "n * i < d \<longleftrightarrow> d mod n \<noteq> 0" using eq unfolding 2 q_def[symmetric] by linarith
    with 2 show ?thesis by simp
  next
    case 3
    then have "n * (d div n + 1) \<le> n * i" by (intro mult_le_mono2) simp
    then have "n * (d div n) + n \<le> n * i" by simp
    then have "\<not> n * i < d" using eq r by linarith
    with 3 show ?thesis by simp
  qed
qed

section \<open>Fixed-width signed arithmetic\<close>

definition in_signed :: "nat \<Rightarrow> int \<Rightarrow> bool" where
  "in_signed w x \<longleftrightarrow> - (2 ^ (w - 1)) \<le> x \<and> x < 2 ^ (w - 1)"

definition signed_checked :: "nat \<Rightarrow> int \<Rightarrow> int option" where
  "signed_checked w x = (if in_signed w x then Some x else None)"

text \<open>Rust's \<open>/\<close> and \<open>%\<close> on signed integers round towards zero.\<close>

definition trunc_div :: "int \<Rightarrow> int \<Rightarrow> int" where
  "trunc_div a b = sgn a * sgn b * (\<bar>a\<bar> div \<bar>b\<bar>)"

definition trunc_rem :: "int \<Rightarrow> int \<Rightarrow> int" where
  "trunc_rem a b = a - b * trunc_div a b"

definition signed_checked_div :: "nat \<Rightarrow> int \<Rightarrow> int \<Rightarrow> int option" where
  "signed_checked_div w a b = (if b = 0 then None else signed_checked w (trunc_div a b))"

definition rem_euclid :: "int \<Rightarrow> int \<Rightarrow> int" where
  "rem_euclid a b = a mod \<bar>b\<bar>"

definition signed_checked_rem_euclid :: "nat \<Rightarrow> int \<Rightarrow> int \<Rightarrow> int option" where
  "signed_checked_rem_euclid w a b =
     (if b = 0 \<or> a = - (2 ^ (w - 1)) \<and> b = -1 then None else Some (rem_euclid a b))"

lemma signed_checked_Some [arith_ops]:
  "signed_checked w x = Some y \<longleftrightarrow> y = x \<and> in_signed w x"
  by (auto simp: signed_checked_def)

lemma trunc_div_nonneg: "0 \<le> a \<Longrightarrow> 0 \<le> b \<Longrightarrow> trunc_div a b = a div b"
  by (auto simp: trunc_div_def sgn_if)

lemma trunc_rem_nonneg: "0 \<le> a \<Longrightarrow> 0 \<le> b \<Longrightarrow> trunc_rem a b = a mod b"
  by (simp add: trunc_rem_def trunc_div_nonneg minus_mult_div_eq_mod)

lemma abs_trunc_rem_less: "b \<noteq> 0 \<Longrightarrow> \<bar>trunc_rem a b\<bar> < \<bar>b\<bar>"
proof -
  assume b: "b \<noteq> 0"
  have split: "\<bar>a\<bar> = \<bar>b\<bar> * (\<bar>a\<bar> div \<bar>b\<bar>) + \<bar>a\<bar> mod \<bar>b\<bar>" by simp
  have "trunc_rem a b = sgn a * \<bar>a\<bar> - sgn a * (b * sgn b) * (\<bar>a\<bar> div \<bar>b\<bar>)"
    by (simp add: trunc_rem_def trunc_div_def algebra_simps abs_mult_sgn)
  also have "\<dots> = sgn a * (\<bar>a\<bar> - \<bar>b\<bar> * (\<bar>a\<bar> div \<bar>b\<bar>))"
    by (simp add: abs_sgn algebra_simps)
  also have "\<dots> = sgn a * (\<bar>a\<bar> mod \<bar>b\<bar>)"
    by (simp only: minus_mult_div_eq_mod)
  finally have eq: "trunc_rem a b = sgn a * (\<bar>a\<bar> mod \<bar>b\<bar>)" .
  have bound: "0 \<le> \<bar>a\<bar> mod \<bar>b\<bar>" "\<bar>a\<bar> mod \<bar>b\<bar> < \<bar>b\<bar>" using b by simp_all
  show ?thesis
    unfolding eq using bound b by (cases "a = 0") (auto simp: abs_mult sgn_if)
qed

lemma in_signed_64_iff: "in_signed 64 x \<longleftrightarrow> - 9223372036854775808 \<le> x \<and> x < 9223372036854775808"
  by (simp add: in_signed_def)

lemma signed_checked_abs:
  assumes "\<bar>x\<bar> \<le> m" and "m < 2 ^ 63"
  shows "signed_checked 64 x = Some x"
proof -
  have "- m \<le> x" "x \<le> m" using assms(1) by (simp_all add: abs_le_iff)
  then show ?thesis using assms(2) by (simp add: signed_checked_def in_signed_64_iff)
qed

section \<open>Results of fallible code\<close>

text \<open>
  A \<open>Result<T, E>\<close> is the sum \<open>'e + 'a\<close> with the error on the left. \<open>ensure\<close> is the macro
  of \<open>frame_support\<close>, \<open>bind_res\<close> the \<open>?\<close> operator.
\<close>

definition ensure :: "bool \<Rightarrow> 'e \<Rightarrow> 'e + 'a \<Rightarrow> 'e + 'a" where
  "ensure c e k = (if c then k else Inl e)"

definition bind_res :: "'e + 'a \<Rightarrow> ('a \<Rightarrow> 'e + 'b) \<Rightarrow> 'e + 'b" where
  "bind_res r f = (case r of Inl e \<Rightarrow> Inl e | Inr x \<Rightarrow> f x)"

definition ok_or :: "'a option \<Rightarrow> 'e \<Rightarrow> 'e + 'a" where
  "ok_or x e = (case x of None \<Rightarrow> Inl e | Some y \<Rightarrow> Inr y)"

definition map_err :: "('e \<Rightarrow> 'f) \<Rightarrow> 'e + 'a \<Rightarrow> 'f + 'a" where
  "map_err f r = (case r of Inl e \<Rightarrow> Inl (f e) | Inr x \<Rightarrow> Inr x)"

definition is_ok :: "'e + 'a \<Rightarrow> bool" where
  "is_ok r = (case r of Inl _ \<Rightarrow> False | Inr _ \<Rightarrow> True)"

lemma ensure_Inr [res_simps]: "ensure c e k = Inr x \<longleftrightarrow> c \<and> k = Inr x"
  by (simp add: ensure_def)

lemma ensure_Inl [res_simps]: "ensure c e k = Inl f \<longleftrightarrow> (\<not> c \<and> f = e) \<or> (c \<and> k = Inl f)"
  by (auto simp: ensure_def)

lemma bind_res_Inr [res_simps]:
  "bind_res r f = Inr y \<longleftrightarrow> (\<exists>x. r = Inr x \<and> f x = Inr y)"
  by (auto simp: bind_res_def split: sum.splits)

lemma bind_res_Inl [res_simps]:
  "bind_res r f = Inl e \<longleftrightarrow> r = Inl e \<or> (\<exists>x. r = Inr x \<and> f x = Inl e)"
  by (auto simp: bind_res_def split: sum.splits)

lemma ok_or_Inr [res_simps]: "ok_or x e = Inr y \<longleftrightarrow> x = Some y"
  by (auto simp: ok_or_def split: option.splits)

lemma ok_or_Inl [res_simps]: "ok_or x e = Inl f \<longleftrightarrow> x = None \<and> f = e"
  by (auto simp: ok_or_def split: option.splits)

lemma map_err_Inr [res_simps]: "map_err f r = Inr x \<longleftrightarrow> r = Inr x"
  by (auto simp: map_err_def split: sum.splits)

lemma bind_res_simps [simp]:
  "bind_res (Inl e) f = Inl e" "bind_res (Inr x) f = f x"
  by (simp_all add: bind_res_def)

lemma is_ok_simps [simp]: "\<not> is_ok (Inl e)" "is_ok (Inr x)"
  by (simp_all add: is_ok_def)

section \<open>Storage maps\<close>

text \<open>
  A \<open>StorageMap\<close> is a partial function from keys to values and a \<open>StorageDoubleMap\<close> a function
  from the first key to such a map, so that \<open>remove_prefix\<close> is one update. \<open>value_query\<close> is the
  read of a map declared \<open>ValueQuery\<close>, with the type's default for a missing key.
\<close>

type_synonym ('k, 'v) storage_map = "'k \<Rightarrow> 'v option"
type_synonym ('k, 'l, 'v) storage_double_map = "'k \<Rightarrow> 'l \<Rightarrow> 'v option"

definition value_query :: "'v \<Rightarrow> 'v option \<Rightarrow> 'v" where
  "value_query d x = (case x of None \<Rightarrow> d | Some v \<Rightarrow> v)"

definition contains :: "'v option \<Rightarrow> bool" where
  "contains x = (case x of None \<Rightarrow> False | Some _ \<Rightarrow> True)"

definition dm_insert ::
  "'k \<Rightarrow> 'l \<Rightarrow> 'v \<Rightarrow> ('k, 'l, 'v) storage_double_map \<Rightarrow> ('k, 'l, 'v) storage_double_map" where
  "dm_insert k l v m = m(k := (m k)(l := Some v))"

definition dm_remove ::
  "'k \<Rightarrow> 'l \<Rightarrow> ('k, 'l, 'v) storage_double_map \<Rightarrow> ('k, 'l, 'v) storage_double_map" where
  "dm_remove k l m = m(k := (m k)(l := None))"

definition dm_remove_prefix ::
  "'k \<Rightarrow> ('k, 'l, 'v) storage_double_map \<Rightarrow> ('k, 'l, 'v) storage_double_map" where
  "dm_remove_prefix k m = m(k := (\<lambda>_. None))"

lemma value_query_simps [simp]: "value_query d None = d" "value_query d (Some v) = v"
  by (simp_all add: value_query_def)

lemma contains_iff [simp]: "contains x \<longleftrightarrow> x \<noteq> None"
  by (simp add: contains_def split: option.splits)

lemma dm_insert_apply [storage_simps]:
  "dm_insert k l v m k' l' = (if k' = k \<and> l' = l then Some v else m k' l')"
  by (simp add: dm_insert_def)

lemma dm_remove_apply [storage_simps]:
  "dm_remove k l m k' l' = (if k' = k \<and> l' = l then None else m k' l')"
  by (simp add: dm_remove_def)

lemma dm_remove_prefix_apply [storage_simps]:
  "dm_remove_prefix k m k' l' = (if k' = k then None else m k' l')"
  by (simp add: dm_remove_prefix_def)

section \<open>Lists\<close>

text \<open>\<open>iter().position(p)\<close>: the index of the first element with the property.\<close>

fun position :: "('a \<Rightarrow> bool) \<Rightarrow> 'a list \<Rightarrow> nat option" where
  "position p [] = None"
| "position p (x # xs) = (if p x then Some 0 else map_option Suc (position p xs))"

lemma position_Some:
  "position p xs = Some i \<Longrightarrow> i < length xs \<and> p (xs ! i) \<and> (\<forall>j<i. \<not> p (xs ! j))"
proof (induction xs arbitrary: i)
  case Nil
  then show ?case by simp
next
  case (Cons x xs)
  then show ?case
    by (auto simp: less_Suc_eq_0_disj split: if_splits)
qed

lemma position_None: "position p xs = None \<longleftrightarrow> (\<forall>x\<in>set xs. \<not> p x)"
  by (induction xs) auto

text \<open>What a loop over a list preserves.\<close>

lemma foldl_invariant:
  assumes "\<And>s x. P s \<Longrightarrow> P (f s x)" and "P s"
  shows "P (foldl f s xs)"
  using assms(2) by (induction xs arbitrary: s) (simp_all add: assms(1))

text \<open>\<open>Vec::get\<close>: a checked read.\<close>

definition vec_get :: "'a list \<Rightarrow> nat \<Rightarrow> 'a option" where
  "vec_get xs i = (if i < length xs then Some (xs ! i) else None)"

lemma vec_get_Some [res_simps]: "vec_get xs i = Some x \<longleftrightarrow> i < length xs \<and> x = xs ! i"
  by (auto simp: vec_get_def)

end
