(* ===== verification/Assignment_Math.thy ===== *)
theory Assignment_Math
  imports Prelude
begin

text \<open>
  The number theory of the ceremonies pallet, \<open>ceremonies/assignment/src/math.rs\<close>: primality
  by trial division, the largest prime below a bound, the subtractive greatest common divisor
  and the modular inverse by the extended Euclidean algorithm on \<open>i64\<close>.

  An \<open>expect\<close> of the source that could fire is a \<open>None\<close> of the model, so that a theorem of the
  form \<open>f x = Some y\<close> also says that no panic is reached.
\<close>

section \<open>Definitions\<close>

definition checked_modulo :: "nat \<Rightarrow> nat \<Rightarrow> nat option" where
  "checked_modulo dividend divisor = (if divisor = 0 then None else Some (dividend mod divisor))"

definition checked_modulo_i64 :: "int \<Rightarrow> int \<Rightarrow> int option" where
  "checked_modulo_i64 dividend divisor =
     (if divisor = 0 then None else Some (trunc_rem dividend divisor))"

definition checked_ceil_division :: "nat \<Rightarrow> nat \<Rightarrow> nat option" where
  "checked_ceil_division dividend divisor =
     Option.bind (checked_add 64 dividend divisor) (\<lambda>s.
     Option.bind (checked_sub s 1) (\<lambda>dd. checked_div dd divisor))"

function is_prime_loop :: "nat \<Rightarrow> nat \<Rightarrow> nat \<Rightarrow> bool option" where
  "is_prime_loop n i j =
     (if j \<le> n then
        (case checked_add 64 i 2 of
           None \<Rightarrow> None
         | Some i_plus_two \<Rightarrow>
             if n mod i = 0 \<or> n mod i_plus_two = 0 then Some False
             else
               (case checked_add 64 i 6 of
                  None \<Rightarrow> None
                | Some i' \<Rightarrow>
                    (case checked_mul 64 i' i' of
                       Some i_squared \<Rightarrow> is_prime_loop n i' i_squared
                     | None \<Rightarrow> Some True)))
      else Some True)"
  by pat_completeness auto
termination
  by (relation "measure (\<lambda>(n, i, j). 2 ^ 64 - i)") (auto simp: arith_ops)

definition is_prime :: "nat \<Rightarrow> bool option" where
  "is_prime n =
     (if n \<le> 3 then Some (n > 1)
      else if n mod 2 = 0 \<or> n mod 3 = 0 then Some False
      else if n < 25 then Some True
      else is_prime_loop n 5 25)"

function get_greatest_common_denominator :: "nat \<Rightarrow> nat \<Rightarrow> nat option" where
  "get_greatest_common_denominator a b =
     (if a = 0 \<or> b = 0 then Some 0
      else if a = b then Some a
      else if a > b then
        (case checked_sub a b of
           None \<Rightarrow> None
         | Some d \<Rightarrow> get_greatest_common_denominator d b)
      else
        (case checked_sub b a of
           None \<Rightarrow> None
         | Some d \<Rightarrow> get_greatest_common_denominator a d))"
  by pat_completeness auto
termination
  by (relation "measure (\<lambda>(a, b). a + b)") (auto simp: arith_ops)

definition is_coprime :: "nat \<Rightarrow> nat \<Rightarrow> bool option" where
  "is_coprime a b = map_option (\<lambda>g. g = 1) (get_greatest_common_denominator a b)"

function find_prime_loop :: "nat \<Rightarrow> nat option" where
  "find_prime_loop n =
     (if n > 0 then
        (case is_prime n of
           None \<Rightarrow> None
         | Some True \<Rightarrow> Some n
         | Some False \<Rightarrow>
             (case checked_sub n 2 of
                Some n_minus_two \<Rightarrow> find_prime_loop n_minus_two
              | None \<Rightarrow> Some 2))
      else Some 2)"
  by pat_completeness auto
termination
  by (relation "measure id") (auto simp: arith_ops)

definition find_prime_below :: "nat \<Rightarrow> nat option" where
  "find_prime_below n =
     (if n \<le> 2 then Some 2
      else if n mod 2 = 0 then
        (case checked_sub n 1 of None \<Rightarrow> None | Some n' \<Rightarrow> find_prime_loop n')
      else find_prime_loop n)"

text \<open>
  The extended Euclidean loop carries the remainders \<open>mn\<close> and the coefficients \<open>xy\<close>. The loop
  that lifts a negative coefficient back into range is a \<^theory_text>\<open>partial_function\<close>, since for a zero
  module it would not end; \<open>None\<close> covers an overflow and a loop that does not return.
\<close>

function mod_inv_loop :: "int \<Rightarrow> int \<Rightarrow> int \<Rightarrow> int \<Rightarrow> int option" where
  "mod_inv_loop mn0 mn1 xy0 xy1 =
     (if mn1 = 0 then Some xy0
      else
        (case signed_checked_div 64 mn0 mn1 of
           None \<Rightarrow> None
         | Some q \<Rightarrow>
             (case signed_checked 64 (q * xy1) of
                None \<Rightarrow> None
              | Some p \<Rightarrow>
                  (case signed_checked 64 (xy0 - p) of
                     None \<Rightarrow> None
                   | Some xy1' \<Rightarrow>
                       (case checked_modulo_i64 mn0 mn1 of
                          None \<Rightarrow> None
                        | Some mn1' \<Rightarrow> mod_inv_loop mn1 mn1' xy1 xy1')))))"
  by pat_completeness auto

termination mod_inv_loop
  by (relation "measure (\<lambda>(mn0, mn1, xy0, xy1). nat \<bar>mn1\<bar>)")
    (auto simp: checked_modulo_i64_def abs_trunc_rem_less split: if_splits)

partial_function (option) mod_inv_lift :: "int \<Rightarrow> int \<Rightarrow> int option" where
  "mod_inv_lift module x =
     (if x < 0 then
        (case signed_checked 64 (x + module) of
           None \<Rightarrow> None
         | Some x' \<Rightarrow> mod_inv_lift module x')
      else Some x)"

definition checked_mod_inv :: "int \<Rightarrow> int \<Rightarrow> int option" where
  "checked_mod_inv a module =
     (case mod_inv_loop module a 0 1 of
        None \<Rightarrow> None
      | Some x \<Rightarrow> mod_inv_lift module x)"

declare mod_inv_lift.simps [code]

declare is_prime_loop.simps [simp del] get_greatest_common_denominator.simps [simp del]
  find_prime_loop.simps [simp del] mod_inv_loop.simps [simp del]

section \<open>Primality\<close>

definition prime_nat :: "nat \<Rightarrow> bool" where
  "prime_nat p \<longleftrightarrow> 2 \<le> p \<and> (\<forall>d. d dvd p \<longrightarrow> d = 1 \<or> d = p)"

definition no_divisor_below :: "nat \<Rightarrow> nat \<Rightarrow> bool" where
  "no_divisor_below i n \<longleftrightarrow> (\<forall>d. 2 \<le> d \<and> d < i \<longrightarrow> \<not> d dvd n)"

lemma prime_nat_sqrt:
  assumes "2 \<le> n" and "n < i * i" and none: "no_divisor_below i n"
  shows "prime_nat n"
proof -
  have "d = 1 \<or> d = n" if d: "d dvd n" for d
  proof (rule ccontr)
    assume neq: "\<not> (d = 1 \<or> d = n)"
    from d obtain e where n: "n = d * e" by blast
    with neq assms(1) have "2 \<le> d" "2 \<le> e"
      by (metis One_nat_def Suc_leI le_antisym mult_0_right mult_is_0 nat_neq_iff
          less_2_cases_iff linorder_not_less mult.right_neutral not_numeral_le_zero zero_less_iff_neq_zero)+
    moreover have "d < i \<or> e < i"
      using n assms(2) mult_le_mono[of i d i e] by (meson leD linorder_not_less)
    moreover have "e dvd n" using n by simp
    ultimately show False using none d by (auto simp: no_divisor_below_def)
  qed
  with assms(1) show ?thesis by (auto simp: prime_nat_def)
qed

lemma no_divisor_below_2 [simp]: "no_divisor_below 2 n"
  by (auto simp: no_divisor_below_def)

lemma prime_nat_2: "prime_nat 2"
  using prime_nat_sqrt[of 2 2] by simp

lemma prime_nat_3: "prime_nat 3"
  using prime_nat_sqrt[of 3 2] by simp

lemma no_divisor_below_step:
  assumes i: "i mod 6 = 5" and n2: "\<not> 2 dvd n" and n3: "\<not> 3 dvd n"
    and ni: "\<not> i dvd n" and ni2: "\<not> (i + 2) dvd n" and below: "no_divisor_below i n"
  shows "no_divisor_below (i + 6) n"
  unfolding no_divisor_below_def
proof (intro allI impI notI)
  fix d assume d: "2 \<le> d \<and> d < i + 6" and dvd: "d dvd n"
  from below d dvd have "i \<le> d" by (auto simp: no_divisor_below_def not_le)
  with d i have "d = i \<or> d = i + 2 \<or> 2 dvd d \<or> 3 dvd d" by presburger
  then consider "d = i" | "d = i + 2" | "2 dvd d" | "3 dvd d" by blast
  then show False
    by cases (use dvd ni ni2 n2 n3 in \<open>auto dest: dvd_trans\<close>)
qed

lemma is_prime_loop_correct:
  assumes "i mod 6 = 5" and "j = i * i" and "j < 2 ^ 64" and "n < 2 ^ 64" and "2 \<le> n"
    and "\<not> 2 dvd n" and "\<not> 3 dvd n" and "no_divisor_below i n"
  shows "is_prime_loop n i j = Some (prime_nat n)"
  using assms
proof (induction n i j rule: is_prime_loop.induct)
  case (1 n i j)
  have i5: "5 \<le> i" using "1.prems"(1) by presburger
  then have j5: "5 * i \<le> j" using "1.prems"(2) by simp
  then have i64: "i + 6 < 2 ^ 64" using "1.prems"(3) i5 by simp
  show ?case
  proof (cases "j \<le> n")
    case False
    then show ?thesis
      using prime_nat_sqrt[of n i] "1.prems" by (simp add: is_prime_loop.simps)
  next
    case True
    have in_range: "i < n" "i + 2 < n"
      using True j5 i5 by linarith+
    show ?thesis
    proof (cases "i dvd n \<or> (i + 2) dvd n")
      case dvd: True
      then have "\<not> prime_nat n" using in_range i5 by (auto simp: prime_nat_def)
      then show ?thesis using dvd True i64
        by (auto simp: is_prime_loop.simps[of n i j] checked_add_def dvd_eq_mod_eq_0)
    next
      case nodvd: False
      have below: "no_divisor_below (i + 6) n"
        using "1.prems" nodvd no_divisor_below_step by blast
      have mods: "n mod i \<noteq> 0" "n mod (i + 2) \<noteq> 0" using nodvd by (auto simp: dvd_eq_mod_eq_0)
      have c2: "checked_add 64 i 2 = Some (i + 2)" and c6: "checked_add 64 i 6 = Some (i + 6)"
        using i64 by (simp_all add: checked_add_def)
      have unfolded: "is_prime_loop n i j =
          (case checked_mul 64 (i + 6) (i + 6) of
             Some i_squared \<Rightarrow> is_prime_loop n (i + 6) i_squared | None \<Rightarrow> Some True)"
        using True mods c2 c6 by (simp add: is_prime_loop.simps[of n i j])
      show ?thesis
      proof (cases "(i + 6) * (i + 6) < 2 ^ 64")
        case sq: True
        have "is_prime_loop n (i + 6) ((i + 6) * (i + 6)) = Some (prime_nat n)"
          by (rule "1.IH"[OF True c2 _ c6])
            (use sq below "1.prems" mods in \<open>auto simp: checked_mul_def\<close>)
        then show ?thesis using sq unfolded by (simp add: checked_mul_def)
      next
        case sq: False
        then have "n < (i + 6) * (i + 6)" using "1.prems"(4) by linarith
        then show ?thesis
          using sq unfolded prime_nat_sqrt[OF "1.prems"(5) _ below] by (simp add: checked_mul_def)
      qed
    qed
  qed
qed

lemma prime_nat_dvd: "prime_nat n \<Longrightarrow> d dvd n \<Longrightarrow> 2 \<le> d \<Longrightarrow> d = n"
  by (auto simp: prime_nat_def)

lemma is_prime_correct:
  assumes "n < 2 ^ 64"
  shows "is_prime n = Some (prime_nat n)"
proof (cases "n \<le> 3")
  case True
  then consider "n = 0" | "n = 1" | "n = 2" | "n = 3" by linarith
  then have "prime_nat n \<longleftrightarrow> 1 < n"
    by cases (simp_all add: prime_nat_2 prime_nat_3, simp_all add: prime_nat_def)
  then show ?thesis using True by (simp add: is_prime_def)
next
  case False
  show ?thesis
  proof (cases "2 dvd n \<or> 3 dvd n")
    case True
    then have "\<not> prime_nat n" using False prime_nat_dvd[of n 2] prime_nat_dvd[of n 3] by auto
    then show ?thesis using True False by (auto simp: is_prime_def dvd_eq_mod_eq_0)
  next
    case nd: False
    have below: "no_divisor_below 5 n"
      unfolding no_divisor_below_def
    proof (intro allI impI notI)
      fix d assume d: "2 \<le> d \<and> d < 5" "d dvd n"
      from d(1) have "2 dvd d \<or> 3 dvd d" by presburger
      with d nd show False by (auto dest: dvd_trans)
    qed
    have unfolded: "is_prime n = (if n < 25 then Some True else is_prime_loop n 5 25)"
      using nd False by (auto simp: is_prime_def dvd_eq_mod_eq_0)
    show ?thesis
    proof (cases "n < 25")
      case True
      then show ?thesis using unfolded False prime_nat_sqrt[of n 5] below by simp
    next
      case False
      then show ?thesis
        using unfolded is_prime_loop_correct[of 5 25 n] assms nd below by simp
    qed
  qed
qed

lemma prime_nat_odd: "prime_nat p \<Longrightarrow> 2 < p \<Longrightarrow> odd p"
  using prime_nat_dvd[of p 2] by auto

text \<open>The search of \<open>find_prime_below\<close>: from an odd start it meets every prime candidate.\<close>

lemma find_prime_loop_correct:
  assumes "3 \<le> n" and "odd n" and "n < 2 ^ 64"
  shows "\<exists>p. find_prime_loop n = Some p \<and> prime_nat p \<and> p \<le> n \<and> (\<forall>q. prime_nat q \<and> q \<le> n \<longrightarrow> q \<le> p)"
  using assms
proof (induction n rule: find_prime_loop.induct)
  case (1 n)
  show ?case
  proof (cases "prime_nat n")
    case True
    then show ?thesis using "1.prems" by (simp add: find_prime_loop.simps is_prime_correct)
  next
    case False
    then have "n \<noteq> 3" using prime_nat_3 by auto
    with "1.prems" have n5: "5 \<le> n" by presburger
    have sub: "checked_sub n 2 = Some (n - 2)" using n5 by (simp add: checked_sub_def)
    have prime: "is_prime n = Some False" using False "1.prems" by (simp add: is_prime_correct)
    obtain p where p: "find_prime_loop (n - 2) = Some p" "prime_nat p" "p \<le> n - 2"
      "\<forall>q. prime_nat q \<and> q \<le> n - 2 \<longrightarrow> q \<le> p"
    proof -
      have pre: "3 \<le> n - 2" "odd (n - 2)" "n - 2 < 2 ^ 64" using "1.prems" n5 by simp_all
      show ?thesis using "1.IH"[OF _ prime _ sub pre] n5 that by auto
    qed
    have "q \<le> p" if q: "prime_nat q" "q \<le> n" for q
    proof (cases "q \<le> 2")
      case True
      then show ?thesis using p(2) by (simp add: prime_nat_def)
    next
      case False
      with q have "odd q" "q \<noteq> n" using prime_nat_odd \<open>\<not> prime_nat n\<close> by auto
      with q(2) "1.prems"(2) n5 have "q \<le> n - 2" by presburger
      with p(4) q(1) show ?thesis by blast
    qed
    moreover have "find_prime_loop n = Some p"
      using n5 sub prime p(1) by (simp add: find_prime_loop.simps[of n])
    ultimately show ?thesis using p n5 by (intro exI[of _ p]) auto
  qed
qed

lemma find_prime_below_largest:
  assumes "n < 2 ^ 64"
  shows "\<exists>p. find_prime_below n = Some p \<and> prime_nat p \<and> p \<le> max n 2 \<and>
             (\<forall>q. prime_nat q \<and> q \<le> n \<longrightarrow> q \<le> p)"
proof (cases "n \<le> 2")
  case True
  then show ?thesis using prime_nat_2 by (auto simp: find_prime_below_def prime_nat_def)
next
  case False
  define m where "m = (if even n then n - 1 else n)"
  have m: "3 \<le> m" "odd m" "m < 2 ^ 64" "m \<le> n" using False assms unfolding m_def by presburger+
  have eq: "find_prime_below n = find_prime_loop m"
    using False by (auto simp: find_prime_below_def m_def checked_sub_def even_iff_mod_2_eq_zero)
  have "q \<le> m" if "prime_nat q" "q \<le> n" for q
    using that prime_nat_odd[of q] False unfolding m_def by (cases "q \<le> 2") (auto, presburger?)
  then show ?thesis using find_prime_loop_correct[OF m(1-3)] m(4) False unfolding eq by fastforce
qed

section \<open>Greatest common divisor\<close>

lemma gcd_correct:
  "get_greatest_common_denominator a b = Some (if a = 0 \<or> b = 0 then 0 else gcd a b)"
proof (induction a b rule: get_greatest_common_denominator.induct)
  case (1 a b)
  consider "a = 0 \<or> b = 0" | "a = b" "a \<noteq> 0" | "a > b" "b \<noteq> 0" | "a < b" "a \<noteq> 0" by linarith
  then show ?case
  proof cases
    case 3
    then have "gcd (a - b) b = gcd a b" by (simp add: gcd_diff1_nat)
    then show ?thesis using 3 "1.IH"(1)
      by (simp add: get_greatest_common_denominator.simps[of a b] checked_sub_def)
  next
    case 4
    then have "gcd a (b - a) = gcd a b" by (metis gcd.commute gcd_diff1_nat less_imp_le)
    then show ?thesis using 4 "1.IH"(2)
      by (simp add: get_greatest_common_denominator.simps[of a b] checked_sub_def)
  qed (auto simp: get_greatest_common_denominator.simps)
qed

section \<open>Modular inverse\<close>

text \<open>
  What the extended Euclidean loop keeps: the coefficients satisfy Bezout's congruences, have
  opposite signs and satisfy \<open>\<bar>xy1\<bar> * mn0 + \<bar>xy0\<bar> * mn1 = m\<close>, which bounds every intermediate
  value by the module and so excludes every overflow.
\<close>

definition mod_inv_inv :: "int \<Rightarrow> int \<Rightarrow> int \<Rightarrow> int \<Rightarrow> int \<Rightarrow> int \<Rightarrow> bool" where
  "mod_inv_inv a m r0 r1 x0 x1 \<longleftrightarrow>
     0 < r0 \<and> 0 \<le> r1 \<and> r1 \<le> r0 \<and> x0 * x1 \<le> 0 \<and> x1 \<noteq> 0 \<and> \<bar>x0\<bar> \<le> m \<and>
     \<bar>x1\<bar> * r0 + \<bar>x0\<bar> * r1 = m \<and> (a * x0) mod m = r0 mod m \<and> (a * x1) mod m = r1 mod m \<and>
     coprime r0 r1"

lemma abs_opposite_signs:
  fixes x0 x1 q :: int
  assumes "x0 * x1 \<le> 0" and "0 \<le> q" and "x1 \<noteq> 0"
  shows "\<bar>x0 - q * x1\<bar> = \<bar>x0\<bar> + q * \<bar>x1\<bar>" and "x1 * (x0 - q * x1) \<le> 0"
proof -
  have cases: "0 < x1 \<and> x0 \<le> 0 \<or> x1 < 0 \<and> 0 \<le> x0"
    using assms(1,3) by (auto simp: mult_le_0_iff)
  then show "\<bar>x0 - q * x1\<bar> = \<bar>x0\<bar> + q * \<bar>x1\<bar>"
  proof
    assume x: "0 < x1 \<and> x0 \<le> 0"
    then have "0 \<le> q * x1" using assms(2) by simp
    with x show ?thesis by simp
  next
    assume x: "x1 < 0 \<and> 0 \<le> x0"
    then have "q * x1 \<le> 0" using assms(2) by (simp add: mult_nonneg_nonpos)
    with x show ?thesis by simp
  qed
  have "x1 * (x0 - q * x1) = x0 * x1 - q * (x1 * x1)" by (simp add: algebra_simps)
  moreover have "0 \<le> q * (x1 * x1)" using assms(2) by simp
  ultimately show "x1 * (x0 - q * x1) \<le> 0" using assms(1) by linarith
qed

lemma mod_inv_inv_step:
  assumes inv: "mod_inv_inv a m r0 r1 x0 x1" and r1: "r1 \<noteq> 0"
  defines "q \<equiv> r0 div r1"
  shows "mod_inv_inv a m r1 (r0 mod r1) x1 (x0 - q * x1)" and "\<bar>q * x1\<bar> \<le> m"
    and "\<bar>x0 - q * x1\<bar> \<le> m" and "0 \<le> q" and "q \<le> m"
proof -
  note i = inv[unfolded mod_inv_inv_def]
  have pos: "0 < r1" "0 < r0" using i r1 by auto
  have q1: "1 \<le> q" using i pos unfolding q_def by (simp add: pos_imp_zdiv_pos_iff zdiv_mono1 int_one_le_iff_zero_less)
  have ab: "\<bar>x0 - q * x1\<bar> = \<bar>x0\<bar> + q * \<bar>x1\<bar>" and sg: "x1 * (x0 - q * x1) \<le> 0"
    using abs_opposite_signs[of x0 x1 q] i q1 by auto
  have r2: "r0 mod r1 = r0 - q * r1"
    unfolding q_def by (simp add: minus_div_mult_eq_mod)
  have sum: "\<bar>x0 - q * x1\<bar> * r1 + \<bar>x1\<bar> * (r0 mod r1) = m"
    using i unfolding ab r2 by (simp add: algebra_simps)
  have "0 \<le> \<bar>x1\<bar> * (r0 mod r1)" using pos by simp
  then have le: "\<bar>x0 - q * x1\<bar> * r1 \<le> m" using sum by linarith
  have "\<bar>x0 - q * x1\<bar> * 1 \<le> \<bar>x0 - q * x1\<bar> * r1"
    using pos by (intro mult_left_mono) auto
  then show bound: "\<bar>x0 - q * x1\<bar> \<le> m" using order_trans[OF _ le] by simp
  show "0 \<le> q" using q1 by simp
  have qx: "\<bar>q * x1\<bar> = q * \<bar>x1\<bar>" using q1 by (simp add: abs_mult)
  show qb: "\<bar>q * x1\<bar> \<le> m" using bound unfolding ab qx by linarith
  have "1 \<le> \<bar>x1\<bar>" using i by linarith
  then have "q * 1 \<le> q * \<bar>x1\<bar>" using q1 by (intro mult_left_mono) auto
  then show "q \<le> m" using qb qx by linarith
  have "\<bar>x1\<bar> * 1 \<le> \<bar>x1\<bar> * r0" using pos by (intro mult_left_mono) auto
  moreover have "0 \<le> \<bar>x0\<bar> * r1" using pos by simp
  ultimately have x1m: "\<bar>x1\<bar> \<le> m" using i by linarith
  have "(a * (x0 - q * x1)) mod m = (a * x0 - q * (a * x1)) mod m"
    by (simp add: algebra_simps)
  also have "\<dots> = (r0 - q * r1) mod m"
    using i by (metis mod_diff_cong mod_mult_cong)
  finally have c: "(a * (x0 - q * x1)) mod m = (r0 mod r1) mod m" unfolding r2 .
  have "x0 - q * x1 \<noteq> 0"
  proof -
    have "0 < q * \<bar>x1\<bar>" using q1 i by simp
    then show ?thesis using ab by linarith
  qed
  moreover have "coprime r1 (r0 mod r1)"
    using i by (simp add: coprime_iff_gcd_eq_1 gcd_red_int[symmetric])
  ultimately show "mod_inv_inv a m r1 (r0 mod r1) x1 (x0 - q * x1)"
    using sum sg x1m c i pos pos_mod_bound[of r1 r0] unfolding mod_inv_inv_def
    by (simp add: less_imp_le)
qed

lemma mod_inv_loop_correct:
  assumes "mod_inv_inv a m r0 r1 x0 x1" and "m < 2 ^ 63"
  shows "\<exists>x. mod_inv_loop r0 r1 x0 x1 = Some x \<and> \<bar>x\<bar> \<le> m \<and> (a * x) mod m = 1 mod m"
  using assms
proof (induction r0 r1 x0 x1 rule: mod_inv_loop.induct)
  case (1 r0 r1 x0 x1)
  show ?case
  proof (cases "r1 = 0")
    case True
    with "1.prems"(1) show ?thesis
      by (auto simp: mod_inv_inv_def mod_inv_loop.simps)
  next
    case False
    note step = mod_inv_inv_step[OF "1.prems"(1) False]
    have nn: "0 \<le> r0" "0 \<le> r1" using "1.prems"(1) by (auto simp: mod_inv_inv_def)
    have d: "signed_checked_div 64 r0 r1 = Some (r0 div r1)"
      using False step(4,5) "1.prems"(2) nn
      by (simp add: signed_checked_div_def trunc_div_nonneg signed_checked_def in_signed_64_iff)
    have p: "signed_checked 64 (r0 div r1 * x1) = Some (r0 div r1 * x1)"
      by (rule signed_checked_abs[OF step(2) "1.prems"(2)])
    have x: "signed_checked 64 (x0 - r0 div r1 * x1) = Some (x0 - r0 div r1 * x1)"
      by (rule signed_checked_abs[OF step(3) "1.prems"(2)])
    have r: "checked_modulo_i64 r0 r1 = Some (r0 mod r1)"
      using False nn by (simp add: checked_modulo_i64_def trunc_rem_nonneg)
    show ?thesis
      using "1.IH"[OF False d p x r step(1) "1.prems"(2)] False d p x r
      by (simp add: mod_inv_loop.simps[of r0 r1])
  qed
qed

lemma mod_inv_lift_correct:
  assumes "\<bar>x\<bar> \<le> m" and "0 < m" and "m < 2 ^ 63"
  shows "mod_inv_lift m x = Some (if x < 0 then x + m else x)"
proof (cases "x < 0")
  case True
  then have "signed_checked 64 (x + m) = Some (x + m)" and "0 \<le> x + m"
    using assms by (auto simp: signed_checked_def in_signed_64_iff)
  with True show ?thesis
    by (simp add: mod_inv_lift.simps[of m x] mod_inv_lift.simps[of m "x + m"])
next
  case False
  then show ?thesis by (simp add: mod_inv_lift.simps[of m x])
qed

lemma checked_mod_inv_correct:
  assumes "0 < a" and "a < m" and "m < 2 ^ 63" and "coprime a m"
  shows "\<exists>x. checked_mod_inv a m = Some x \<and> 0 \<le> x \<and> x \<le> m \<and> (a * x) mod m = 1"
proof -
  have "mod_inv_inv a m m a 0 1"
    using assms by (auto simp: mod_inv_inv_def coprime_commute)
  then obtain x where x: "mod_inv_loop m a 0 1 = Some x" "\<bar>x\<bar> \<le> m" "(a * x) mod m = 1 mod m"
    using mod_inv_loop_correct assms(3) by blast
  moreover have "(a * (x + m)) mod m = (a * x) mod m" by (simp add: distrib_left)
  ultimately show ?thesis
    using assms mod_inv_lift_correct[OF x(2)]
    by (intro exI[of _ "if x < 0 then x + m else x"]) (auto simp: checked_mod_inv_def)
qed

section \<open>The loops return\<close>

text \<open>The searches of the assignment mathematics end with a result: for every \<open>u64\<close> the search downwards
  finds the largest prime that is not above it (two below three), with no overflow in the trial divisions.\<close>

theorem prime_search_returns:
  assumes "n < 2 ^ 64"
  shows "\<exists>p. find_prime_below n = Some p \<and> prime_nat p \<and> p \<le> max n 2 \<and> (\<forall>q. prime_nat q \<and> q \<le> n \<longrightarrow> q \<le> p)"
  by (rule find_prime_below_largest[OF assms])

theorem prime_search_returns_witness: "\<exists>p. find_prime_below 90 = Some p \<and> prime_nat p \<and> p \<le> 90"
  using prime_search_returns[of 90] by auto

text \<open>The modular inverse of a coefficient that is coprime to its module is found: neither the Euclidean loop
  nor the loop that lifts its result overflows or runs on, and the result is an inverse in range.\<close>

theorem modular_inverse_returns:
  assumes "0 < a" and "a < m" and "m < 2 ^ 63" and "coprime a m"
  shows "\<exists>x. checked_mod_inv a m = Some x \<and> 0 \<le> x \<and> x \<le> m \<and> (a * x) mod m = 1"
  by (rule checked_mod_inv_correct[OF assms])

theorem modular_inverse_returns_witness: "\<exists>x. checked_mod_inv 113 300 = Some x \<and> (113 * x) mod 300 = 1"
proof -
  have "coprime (113 :: int) 300" by code_simp
  from modular_inverse_returns[OF _ _ _ this] show ?thesis by auto
qed

end
