(* ===== verification/Prime_Chain.thy ===== *)
theory Prime_Chain
  imports Assignment_Math
begin

text \<open>
  How far \<open>find_prime_below\<close> goes down: never below half of its argument.

  The inverse of the assignment function looks at each residue of the module at most twice, so it is exhaustive only for
  participant counts up to twice the module. Bertrand's postulate gives that for the prime below a
  count; here it is checked on a chain of primes, which covers every ceremony of up to \<open>2 ^ 18\<close>
  participants.
\<close>

lemma prime_nat_trial:
  assumes "odd n" and "3 \<le> n" and "n < (2 * i - 1) * (2 * i - 1)"
    and trial: "list_all (\<lambda>k. n mod (2 * k - 1) \<noteq> 0) [2..<i]"
  shows "prime_nat n"
proof (rule prime_nat_sqrt[OF _ assms(3)])
  show "no_divisor_below (2 * i - 1) n"
    unfolding no_divisor_below_def
  proof (intro allI impI notI)
    fix d assume d: "2 \<le> d \<and> d < 2 * i - 1" and dvd: "d dvd n"
    then have "odd d" using assms(1) by (meson dvd_trans)
    then obtain k where k: "d = 2 * k + 1" by (rule oddE)
    then have "k + 1 \<in> set [2..<i]" "d = 2 * (k + 1) - 1" using d by auto
    moreover have "\<forall>k\<in>set [2..<i]. n mod (2 * k - 1) \<noteq> 0" using trial by (simp only: list_all_iff)
    ultimately have "n mod d \<noteq> 0" by metis
    then show False using dvd by auto
  qed
qed (use assms(2) in simp)

definition prime_chain :: "nat list" where
  "prime_chain = [2, 3, 5, 7, 13, 23, 43, 83, 163, 317, 631, 1259, 2503, 5003, 9973, 19937, 39869, 79699,
     159389]"

lemma prime_159389: "prime_nat 159389" by (rule prime_nat_trial[where i = 201]) simp_all
lemma prime_79699: "prime_nat 79699" by (rule prime_nat_trial[where i = 143]) simp_all
lemma prime_39869: "prime_nat 39869" by (rule prime_nat_trial[where i = 101]) simp_all
lemma prime_19937: "prime_nat 19937" by (rule prime_nat_trial[where i = 72]) simp_all
lemma prime_9973: "prime_nat 9973" by (rule prime_nat_trial[where i = 51]) simp_all
lemma prime_5003: "prime_nat 5003" by (rule prime_nat_trial[where i = 37]) simp_all
lemma prime_2503: "prime_nat 2503" by (rule prime_nat_trial[where i = 27]) simp_all
lemma prime_1259: "prime_nat 1259" by (rule prime_nat_trial[where i = 19]) simp_all
lemma prime_631: "prime_nat 631" by (rule prime_nat_trial[where i = 14]) simp_all
lemma prime_317: "prime_nat 317" by (rule prime_nat_trial[where i = 10]) simp_all
lemma prime_163: "prime_nat 163" by (rule prime_nat_trial[where i = 8]) simp_all
lemma prime_83: "prime_nat 83" by (rule prime_nat_trial[where i = 6]) simp_all
lemma prime_43: "prime_nat 43" by (rule prime_nat_trial[where i = 5]) simp_all
lemma prime_23: "prime_nat 23" by (rule prime_nat_trial[where i = 4]) simp_all
lemma prime_13: "prime_nat 13" by (rule prime_nat_trial[where i = 3]) simp_all
lemma prime_7: "prime_nat 7" by (rule prime_nat_trial[where i = 2]) simp_all
lemma prime_5: "prime_nat 5" by (rule prime_nat_trial[where i = 2]) simp_all

lemmas chain_primes = prime_nat_2 prime_nat_3 prime_5 prime_7 prime_13 prime_23 prime_43 prime_83 prime_163
  prime_317 prime_631 prime_1259 prime_2503 prime_5003 prime_9973 prime_19937 prime_39869 prime_79699
  prime_159389

lemma prime_chain_prime: "\<forall>q\<in>set prime_chain. prime_nat q"
  by (simp add: prime_chain_def chain_primes)

lemma doubling_chain_covers:
  "successively (\<lambda>a b. b \<le> 2 * a) (a # xs) \<Longrightarrow> a \<le> n \<Longrightarrow> n < 2 * last (a # xs) \<Longrightarrow>
   \<exists>q\<in>set (a # xs). q \<le> n \<and> n < 2 * q" for n :: nat
proof (induction xs arbitrary: a)
  case Nil
  then show ?case by simp
next
  case (Cons b xs)
  show ?case
  proof (cases "b \<le> n")
    case True
    then show ?thesis using Cons.IH[of b] Cons.prems by auto
  next
    case False
    then show ?thesis using Cons.prems by auto
  qed
qed

lemma find_prime_below_half:
  assumes "np < 2 ^ 18" and "find_prime_below np = Some m"
  shows "np \<le> 2 * m"
proof (cases "np < 2")
  case True
  then show ?thesis using assms(2) by (auto simp: find_prime_below_def)
next
  case False
  have chain: "prime_chain = 2 # tl prime_chain" by (simp add: prime_chain_def)
  have "successively (\<lambda>a b. b \<le> 2 * a) prime_chain" "last prime_chain = 159389"
    by (simp_all add: prime_chain_def)
  then have "\<exists>q\<in>set prime_chain. q \<le> np \<and> np < 2 * q"
    using doubling_chain_covers[of 2 "tl prime_chain" np] False assms(1) unfolding chain[symmetric] by simp
  then obtain q where q: "q \<in> set prime_chain" "q \<le> np" "np < 2 * q" by blast
  have "np < 2 ^ 64" using assms(1) by simp
  have "prime_nat q" using prime_chain_prime q(1) by blast
  then have "q \<le> m" using find_prime_below_largest[OF \<open>np < 2 ^ 64\<close>] q(2) assms(2) by auto
  then show ?thesis using q(3) by simp
qed

end
