(* ===== verification/Rng.thy ===== *)
theory Rng
  imports Prelude
begin

text \<open>
  The pseudo-random number streamer and the random permutation of the primitives crate,
  \<open>primitives/core/src/random_number_generator.rs\<close> and \<open>random_permutation.rs\<close>.

  The hash function is a parameter: a function from byte strings to byte strings. Rejection
  sampling in \<open>pick_u32\<close> is a loop that the source cannot bound, so it is a
  \<^theory_text>\<open>partial_function\<close> whose \<open>None\<close> means that no value is returned.
\<close>

section \<open>The generator\<close>

record rng =
  rng_current :: "nat list"
  rng_offset :: nat

type_synonym hash_fn = "nat list \<Rightarrow> nat list"

definition rng_new :: "nat list \<Rightarrow> rng" where
  "rng_new seed = \<lparr>rng_current = seed, rng_offset = 0\<rparr>"

definition leading_zeros_u32 :: "nat \<Rightarrow> nat" where
  "leading_zeros_u32 x = length (takeWhile (\<lambda>i. x < 2 ^ (31 - i)) [0..<32])"

text \<open>Little-endian decoding of the bytes at hand, the missing ones read as zero.\<close>

fun decode_le :: "nat list \<Rightarrow> nat" where
  "decode_le [] = 0"
| "decode_le (b # bs) = b + 256 * decode_le bs"

definition pick_needed :: "nat \<Rightarrow> nat" where
  "pick_needed mx = 4 - leading_zeros_u32 mx div 8"

definition pick_top :: "nat \<Rightarrow> nat" where
  "pick_top mx =
     as_unsigned 32 (2 ^ (pick_needed mx * 8) div (mx + 1) * (mx + 1) - 1)"

definition rng_refill :: "hash_fn \<Rightarrow> nat \<Rightarrow> rng \<Rightarrow> rng" where
  "rng_refill hash needed r =
     (if rng_offset r + needed > length (rng_current r)
      then r\<lparr>rng_current := hash (rng_current r), rng_offset := 0\<rparr>
      else r)"

partial_function (option) pick_u32_loop ::
  "hash_fn \<Rightarrow> nat \<Rightarrow> nat \<Rightarrow> nat \<Rightarrow> rng \<Rightarrow> (nat \<times> rng) option" where
  "pick_u32_loop hash needed tp mx r0 =
     (let r = rng_refill hash needed r0 in
      if rng_offset r + needed > length (rng_current r) then None
      else
        let data = take needed (drop (rng_offset r) (rng_current r));
            r' = r\<lparr>rng_offset := rng_offset r + needed\<rparr>;
            raw = decode_le data
        in if raw \<le> tp
           then Some ((if mx < 2 ^ 32 - 1 then raw mod (mx + 1) else raw), r')
           else pick_u32_loop hash needed tp mx r')"

declare pick_u32_loop.simps [code]

definition pick_u32 :: "hash_fn \<Rightarrow> nat \<Rightarrow> rng \<Rightarrow> (nat \<times> rng) option" where
  "pick_u32 hash mx r = pick_u32_loop hash (pick_needed mx) (pick_top mx) mx r"

definition pick_non_zero_u32 :: "hash_fn \<Rightarrow> nat \<Rightarrow> rng \<Rightarrow> (nat \<times> rng) option" where
  "pick_non_zero_u32 hash mx r =
     map_option (\<lambda>(v, r'). (wrapping_add 32 v 1, r')) (pick_u32 hash (wrapping_sub 32 mx 1) r)"

definition pick_usize :: "hash_fn \<Rightarrow> nat \<Rightarrow> rng \<Rightarrow> (nat \<times> rng) option" where
  "pick_usize hash mx r = pick_u32 hash (as_unsigned 32 mx) r"

definition pick_item :: "hash_fn \<Rightarrow> 'a list \<Rightarrow> rng \<Rightarrow> ('a option \<times> rng) option" where
  "pick_item hash items r =
     (if items = [] then Some (None, r)
      else
        (case pick_usize hash (length items - 1) r of
           None \<Rightarrow> None
         | Some (i, r') \<Rightarrow>
             (case vec_get items i of None \<Rightarrow> None | Some x \<Rightarrow> Some (Some x, r'))))"

section \<open>Permutations\<close>

text \<open>\<open>Vec::swap_remove\<close>: take one element out and move the last one into its place.\<close>

definition swap_remove :: "'a list \<Rightarrow> nat \<Rightarrow> ('a \<times> 'a list) option" where
  "swap_remove xs i =
     (if i < length xs then Some (xs ! i, butlast (xs[i := last xs])) else None)"

fun permute_loop ::
  "(nat \<Rightarrow> 'r \<Rightarrow> (nat \<times> 'r) option) \<Rightarrow> nat \<Rightarrow> 'a list \<Rightarrow> 'r \<Rightarrow> ('a list \<times> 'r) option" where
  "permute_loop pick 0 input r = Some ([], r)"
| "permute_loop pick (Suc k) input r =
     (case pick k r of
        None \<Rightarrow> None
      | Some (j, r') \<Rightarrow>
          (case swap_remove input j of
             None \<Rightarrow> None
           | Some (x, input') \<Rightarrow>
               (case permute_loop pick k input' r' of
                  None \<Rightarrow> None
                | Some (xs, r'') \<Rightarrow> Some (x # xs, r''))))"

definition random_permutation ::
  "hash_fn \<Rightarrow> 'a list \<Rightarrow> rng \<Rightarrow> ('a list option \<times> rng) option" where
  "random_permutation hash input r =
     (if input = [] then Some (None, r)
      else map_option (\<lambda>(xs, r'). (Some xs, r'))
             (permute_loop (pick_usize hash) (length input) input r))"

section \<open>What the generator promises\<close>

text \<open>
  The contract its clients rely on: a draw up to \<open>mx\<close> never exceeds \<open>mx\<close>. The permutation is
  proved correct against this contract alone.
\<close>

locale random_source =
  fixes pick :: "nat \<Rightarrow> 'r \<Rightarrow> (nat \<times> 'r) option"
  assumes pick_le: "pick mx r = Some (v, r') \<Longrightarrow> v \<le> mx"
begin

lemma permute_loop_mset:
  "permute_loop pick (length input) input r = Some (ys, r') \<Longrightarrow> mset ys = mset input"
proof (induction "length input" arbitrary: input r ys r')
  case 0
  then show ?case by simp
next
  case (Suc k)
  from Suc.hyps(2) have ne: "input \<noteq> []" by auto
  from Suc.prems Suc.hyps(2)[symmetric] obtain j r1 x rest xs r2 where
    pk: "pick k r = Some (j, r1)" and sw: "swap_remove input j = Some (x, rest)"
    and rec: "permute_loop pick k rest r1 = Some (xs, r2)" and ys: "ys = x # xs"
    by (auto split: option.splits)
  from sw have j: "j < length input" and x: "x = input ! j"
    and rest: "rest = butlast (input[j := last input])"
    by (auto simp: swap_remove_def split: if_splits)
  have len: "length rest = k" using rest Suc.hyps(2) by simp
  have "mset (input[j := last input]) = add_mset (last input) (mset input - {#input ! j#})"
    by (simp add: mset_update j)
  moreover have "mset (input[j := last input]) = add_mset (last input) (mset rest)"
  proof -
    have "last (input[j := last input]) = last input"
      using ne by (cases "j = length input - 1") (auto simp: last_list_update last_conv_nth)
    then show ?thesis
      using ne append_butlast_last_id[of "input[j := last input]"] unfolding rest
      by (metis add.commute list_update_nonempty mset_append mset_single_iff_right union_mset_add_mset_right add_mset_add_single mset.simps)
  qed
  ultimately have "mset rest = mset input - {#input ! j#}" by simp
  then have "mset (x # rest) = mset input" using x j by simp
  moreover have "mset xs = mset rest"
    by (rule Suc.hyps(1)) (use rec len in auto)
  ultimately show ?case using ys by simp
qed

lemma permute_loop_total:
  assumes "\<And>mx r. pick mx r \<noteq> None"
  shows "permute_loop pick (length input) input r \<noteq> None"
proof (induction "length input" arbitrary: input r)
  case 0
  then show ?case by simp
next
  case (Suc k)
  obtain j r1 where pk: "pick k r = Some (j, r1)" using assms[of k r] by auto
  then have "j < length input" using pick_le[OF pk] Suc.hyps(2) by simp
  then obtain x rest where sw: "swap_remove input j = Some (x, rest)" "length rest = k"
    using Suc.hyps(2) by (auto simp: swap_remove_def)
  then show ?case
    using Suc.hyps(1)[of rest r1] pk Suc.hyps(2)[symmetric] by (auto split: option.splits)
qed

end

lemma pick_u32_loop_le:
  assumes "pick_u32_loop hash needed tp mx r = Some (v, r')" and "tp < 2 ^ 32"
  shows "v \<le> mx"
proof -
  have "tp < 2 ^ 32 \<longrightarrow> fst vr \<le> mx" if ret: "pick_u32_loop hash needed tp mx r = Some vr" for vr
  proof (rule pick_u32_loop.raw_induct
      [where P = "\<lambda>hash needed tp mx r vr. tp < 2 ^ 32 \<longrightarrow> fst vr \<le> mx", OF _ ret])
    fix f hash needed tp mx r0 vr
    assume IH: "\<And>hash needed tp mx r vr. f hash needed tp mx r = Some vr \<Longrightarrow> tp < 2 ^ 32 \<longrightarrow> fst vr \<le> mx"
      and eq: "(let r = rng_refill hash needed r0 in
        if rng_offset r + needed > length (rng_current r) then None
        else
          let data = take needed (drop (rng_offset r) (rng_current r));
              r' = r\<lparr>rng_offset := rng_offset r + needed\<rparr>;
              raw = decode_le data
          in if raw \<le> tp
             then Some ((if mx < 2 ^ 32 - 1 then raw mod (mx + 1) else raw), r')
             else f hash needed tp mx r') = Some vr"
    show "tp < 2 ^ 32 \<longrightarrow> fst vr \<le> mx"
      using eq IH by (auto simp: Let_def mod_Suc_le_divisor split: if_splits)
  qed
  then show ?thesis using assms by fastforce
qed

lemma pick_u32_le: "pick_u32 hash mx r = Some (v, r') \<Longrightarrow> v \<le> mx"
  unfolding pick_u32_def by (erule pick_u32_loop_le) (simp add: pick_top_def as_unsigned_def)

interpretation rng_source: random_source "pick_usize hash" for hash
  by unfold_locales
    (auto simp: pick_usize_def as_unsigned_def dest!: pick_u32_le intro: order_trans mod_less_eq_dividend)

lemma pick_non_zero_u32_range:
  assumes "pick_non_zero_u32 hash mx r = Some (v, r')" and "0 < mx" and "mx < 2 ^ 32"
  shows "1 \<le> v \<and> v \<le> mx"
proof -
  obtain u where u: "pick_u32 hash (mx - 1) r = Some (u, r')" "v = wrapping_add 32 u 1"
    using assms by (auto simp: pick_non_zero_u32_def wrapping_sub_def)
  have "u \<le> mx - 1" by (rule pick_u32_le[OF u(1)])
  then show ?thesis using u(2) assms(2,3) by (simp add: wrapping_add_exact)
qed

lemma random_permutation_mset:
  assumes "random_permutation hash input r = Some (res, r')"
  shows "(input = [] \<longrightarrow> res = None) \<and> (input \<noteq> [] \<longrightarrow> (\<exists>ys. res = Some ys \<and> mset ys = mset input))"
  using assms rng_source.permute_loop_mset
  by (auto simp: random_permutation_def split: if_splits)

section \<open>When the generator returns\<close>

lemma decode_le_bound: "list_all (\<lambda>b. b < 256) bs \<Longrightarrow> decode_le bs < 256 ^ length bs"
proof (induction bs)
  case Nil
  then show ?case by simp
next
  case (Cons b bs)
  then have "decode_le bs + 1 \<le> 256 ^ length bs" by simp
  then have "256 * (decode_le bs + 1) \<le> 256 * 256 ^ length bs" by (rule mult_le_mono2)
  with Cons.prems show ?case by simp
qed

lemma leading_zeros_pow2:
  "b \<le> 32 \<Longrightarrow> leading_zeros_u32 (2 ^ b - 1) = length (takeWhile (\<lambda>i. b \<le> 31 - i) [0..<32])"
proof -
  have "2 ^ b - 1 < (2::nat) ^ k \<longleftrightarrow> b \<le> k" for k
  proof -
    have "2 ^ b - 1 < (2::nat) ^ k \<longleftrightarrow> (2::nat) ^ b \<le> 2 ^ k"
      using zero_less_power[of "2::nat" b] by linarith
    then show ?thesis by simp
  qed
  then show ?thesis unfolding leading_zeros_u32_def by simp
qed

lemma pick_needed_pow2:
  assumes "b \<le> 32"
  shows "b \<le> 8 * pick_needed (2 ^ b - 1) \<and> pick_needed (2 ^ b - 1) \<le> 4"
proof -
  have "\<forall>b\<in>set [0..<33]. b \<le> 8 * (4 - length (takeWhile (\<lambda>i. b \<le> 31 - i) [0..<32]) div 8)"
    by code_simp
  then show ?thesis using assms leading_zeros_pow2[OF assms] by (simp add: pick_needed_def)
qed

text \<open>
  With a hash of at least four bytes per output, a draw from a range whose size is a power of
  two is never rejected, so it always returns.
\<close>

lemma pick_u32_pow2_returns:
  assumes b: "b \<le> 32" and len: "\<And>x. 4 \<le> length (hash x)" and bytes: "\<And>x. list_all (\<lambda>b. b < 256) (hash x)"
    and cur: "list_all (\<lambda>b. b < 256) (rng_current r)"
  shows "pick_u32 hash (2 ^ b - 1) r \<noteq> None"
proof -
  define needed where "needed = pick_needed (2 ^ b - 1)"
  define r1 where "r1 = rng_refill hash needed r"
  have nd: "b \<le> 8 * needed" "needed \<le> 4"
    using pick_needed_pow2[OF b] unfolding needed_def by auto
  have range: "rng_offset r1 + needed \<le> length (rng_current r1)"
    using len[of "rng_current r"] nd(2) unfolding r1_def rng_refill_def by auto
  have byt: "list_all (\<lambda>b. b < 256) (rng_current r1)"
    using bytes cur unfolding r1_def rng_refill_def by auto
  have "(2::nat) ^ b dvd 2 ^ (needed * 8)" using nd(1) by (simp add: le_imp_power_dvd mult.commute)
  then have tp: "pick_top (2 ^ b - 1) = 2 ^ (needed * 8) - 1"
    using nd(2) power_increasing[of "needed * 8" 32 "2::nat"]
    unfolding pick_top_def needed_def[symmetric] as_unsigned_def by (auto simp: less_eq_nat.simps)
  let ?data = "take needed (drop (rng_offset r1) (rng_current r1))"
  have "length ?data = needed" using range by simp
  moreover have "list_all (\<lambda>b. b < 256) ?data"
    using byt by (auto simp: list_all_iff dest!: in_set_takeD in_set_dropD)
  ultimately have "decode_le ?data < 256 ^ needed" using decode_le_bound[of ?data] by metis
  also have "(256::nat) ^ needed = 2 ^ (needed * 8)"
    using power_mult[of "2::nat" 8 needed] by (simp add: mult.commute)
  finally have "decode_le ?data \<le> pick_top (2 ^ b - 1)" unfolding tp by simp
  then show ?thesis using range
    unfolding pick_u32_def needed_def[symmetric]
    by (subst pick_u32_loop.simps) (simp add: Let_def r1_def)
qed

end
