(* ===== verification/Assignment.thy ===== *)
theory Assignment
  imports Prime_Chain Rng
begin

text \<open>
  Meetup assignment, \<open>ceremonies/assignment/src/lib.rs\<close>: the affine map that sends a participant
  index to a meetup, the generation of its random parameters, its inverse, and the location and
  time of a meetup. \<open>find_random_coprime_below\<close> of \<open>math.rs\<close> is here, since it draws from the
  random source.
\<close>

section \<open>Definitions\<close>

record AssignmentParams =
  ap_m :: nat
  ap_s1 :: nat
  ap_s2 :: nat

definition assignment_fn :: "nat \<Rightarrow> AssignmentParams \<Rightarrow> nat \<Rightarrow> nat option" where
  "assignment_fn participant_index params assignment_count =
     Option.bind (checked_mul 64 participant_index (ap_s1 params)) (\<lambda>x.
     Option.bind (checked_add 64 x (ap_s2 params)) (\<lambda>y.
     Option.bind (checked_modulo y (ap_m params)) (\<lambda>z.
     checked_modulo z assignment_count)))"

text \<open>The counters are a vector indexed by \<open>usize\<close>: the number of meetups and every meetup index are cast to it.\<close>

fun validate_loop ::
  "AssignmentParams \<Rightarrow> nat \<Rightarrow> nat \<Rightarrow> nat list \<Rightarrow> nat list \<Rightarrow> bool option" where
  "validate_loop params meetup_count mx counts [] = Some True"
| "validate_loop params meetup_count mx counts (i # is) =
     (case assignment_fn i params meetup_count of
        None \<Rightarrow> Some False
      | Some k \<Rightarrow>
          (case vec_get counts (as_unsigned usize_bits k) of
             None \<Rightarrow> None
           | Some c \<Rightarrow>
               if c + 1 > mx then Some False
               else validate_loop params meetup_count mx (counts[as_unsigned usize_bits k := c + 1]) is))"

definition validate_equal_mapping :: "nat \<Rightarrow> AssignmentParams \<Rightarrow> nat \<Rightarrow> bool option" where
  "validate_equal_mapping num_participants params meetup_count =
     (if num_participants < 2 then Some True
      else
        validate_loop params meetup_count
          (value_query 0
            (checked_ceil_division (wrapping_sub 64 num_participants (ap_m params)) meetup_count))
          (replicate (as_unsigned usize_bits meetup_count) 0)
          [ap_m params..<num_participants])"

text \<open>
  At most 201 pairs are tried (\<open>max_skips = 200\<close>); the last pair is kept even when it does not
  validate. The outer \<open>None\<close> is a draw that does not return or an arithmetic panic.
\<close>

fun generate_params_loop ::
  "hash_fn \<Rightarrow> nat \<Rightarrow> nat \<Rightarrow> nat \<Rightarrow> nat \<Rightarrow> nat \<times> nat \<Rightarrow> rng \<Rightarrow> ((nat \<times> nat) \<times> rng) option" where
  "generate_params_loop hash num_participants num_meetups mm 0 s r = Some (s, r)"
| "generate_params_loop hash num_participants num_meetups mm (Suc tries) s r =
     Option.bind (pick_non_zero_u32 hash (wrapping_sub 32 mm 1) r) (\<lambda>(s1, r1).
     Option.bind (pick_non_zero_u32 hash (wrapping_sub 32 mm 1) r1) (\<lambda>(s2, r2).
     Option.bind
       (validate_equal_mapping num_participants \<lparr>ap_m = mm, ap_s1 = s1, ap_s2 = s2\<rparr> num_meetups)
       (\<lambda>valid.
         if valid then Some ((s1, s2), r2)
         else generate_params_loop hash num_participants num_meetups mm tries (s1, s2) r2)))"

definition generate_assignment_function_params ::
  "hash_fn \<Rightarrow> nat \<Rightarrow> nat \<Rightarrow> rng \<Rightarrow> (AssignmentParams \<times> rng) option" where
  "generate_assignment_function_params hash num_participants num_meetups r =
     Option.bind (find_prime_below num_participants) (\<lambda>p.
     let mm = as_unsigned 32 p in
     Option.bind (pick_non_zero_u32 hash (wrapping_sub 32 mm 1) r) (\<lambda>(s1, r1).
     Option.bind (pick_non_zero_u32 hash (wrapping_sub 32 mm 1) r1) (\<lambda>(s2, r2).
     Option.bind (generate_params_loop hash num_participants num_meetups mm 201 (s1, s2) r2)
       (\<lambda>((s1', s2'), r3). Some (\<lparr>ap_m = mm, ap_s1 = s1', ap_s2 = s2'\<rparr>, r3)))))"

definition find_random_coprime_below :: "hash_fn \<Rightarrow> nat \<Rightarrow> rng \<Rightarrow> (nat \<times> rng) option" where
  "find_random_coprime_below hash upper_bound r =
     (if upper_bound \<le> 1 then Some (0, r)
      else if upper_bound = 2 then Some (1, r)
      else
        (case random_permutation hash [1..<upper_bound] r of
           None \<Rightarrow> None
         | Some (None, r') \<Rightarrow> None
         | Some (Some xs, r') \<Rightarrow>
             Some (value_query 1 (List.find (\<lambda>i. is_coprime upper_bound i = Some True) xs), r')))"

text \<open>The inverse. Every intermediate value is a checked \<open>i64\<close>.\<close>

definition t3 :: "nat \<Rightarrow> nat \<Rightarrow> nat \<Rightarrow> AssignmentParams \<Rightarrow> int \<Rightarrow> nat option" where
  "t3 n current_index meetup_index params t2 =
     Option.bind (signed_checked 64 (as_i64 n * as_i64 current_index)) (\<lambda>x0.
     Option.bind (signed_checked 64 (x0 + as_i64 meetup_index)) (\<lambda>x1.
     Option.bind (signed_checked 64 (x1 - as_i64 (ap_s2 params))) (\<lambda>x2.
     Option.bind (signed_checked_rem_euclid 64 x2 (as_i64 (ap_m params))) (\<lambda>x3.
     Option.bind (signed_checked 64 (x3 * t2)) (\<lambda>x4.
     Option.bind (signed_checked_rem_euclid 64 x4 (as_i64 (ap_m params))) (\<lambda>x5.
     Some (i64_as_u64 x5)))))))"

fun assignment_fn_inverse_loop ::
  "nat \<Rightarrow> AssignmentParams \<Rightarrow> nat \<Rightarrow> nat \<Rightarrow> nat list \<Rightarrow> nat list option" where
  "assignment_fn_inverse_loop meetup_index params n participant_count [] = Some []"
| "assignment_fn_inverse_loop meetup_index params n participant_count (i # is) =
     (case checked_mod_inv (as_i64 (ap_s1 params)) (as_i64 (ap_m params)) of
        None \<Rightarrow> None
      | Some t2 \<Rightarrow>
          (case t3 n i meetup_index params t2 of
             None \<Rightarrow> assignment_fn_inverse_loop meetup_index params n participant_count is
           | Some t \<Rightarrow>
               if t \<ge> participant_count
               then assignment_fn_inverse_loop meetup_index params n participant_count is
               else
                 map_option
                   (\<lambda>rest. t # (case checked_add 64 t (ap_m params) of
                                 Some tm \<Rightarrow> if tm < participant_count then [tm] else []
                               | None \<Rightarrow> []) @ rest)
                   (assignment_fn_inverse_loop meetup_index params n participant_count is)))"

definition inverse_max_index :: "nat \<Rightarrow> AssignmentParams \<Rightarrow> nat \<Rightarrow> nat option" where
  "inverse_max_index meetup_index params n =
     (let d = saturating_sub (ap_m params) meetup_index in
      map_option (\<lambda>rem. if rem \<noteq> 0 then d div n + 1 else d div n)
        (signed_checked_rem_euclid 64 (as_i64 d) (as_i64 n)))"

definition assignment_fn_inverse ::
  "nat \<Rightarrow> AssignmentParams \<Rightarrow> nat \<Rightarrow> nat \<Rightarrow> nat list option" where
  "assignment_fn_inverse meetup_index params assignment_count participant_count =
     (if assignment_count = 0 then Some []
      else
        Option.bind (inverse_max_index meetup_index params assignment_count) (\<lambda>max_index.
        assignment_fn_inverse_loop meetup_index params assignment_count participant_count
          [0..<max_index]))"

definition meetup_index :: "nat \<Rightarrow> AssignmentParams \<Rightarrow> nat \<Rightarrow> nat option" where
  "meetup_index participant_index params meetup_count =
     map_option (\<lambda>k. wrapping_add 64 k 1) (assignment_fn participant_index params meetup_count)"

definition get_meetup_location_index :: "nat \<Rightarrow> 'loc list \<Rightarrow> AssignmentParams \<Rightarrow> nat option" where
  "get_meetup_location_index idx locations params = assignment_fn idx params (length locations)"

definition meetup_location :: "nat \<Rightarrow> 'loc list \<Rightarrow> AssignmentParams \<Rightarrow> 'loc option" where
  "meetup_location idx locations params =
     Option.bind (get_meetup_location_index idx locations params) (\<lambda>location_idx.
     if location_idx < length locations then Some (locations ! location_idx) else None)"

text \<open>
  \<open>meetup_time\<close> takes the longitude as its \<open>I64F64\<close> bits; \<open>round_to_zero\<close> followed by the lossy
  conversion to \<open>i64\<close> drops the 64 fractional bits towards zero. The sum is an \<open>i64\<close> that wraps.
\<close>

definition lon_degrees :: "int \<Rightarrow> int" where
  "lon_degrees bits = trunc_div bits (2 ^ 64)"

definition wrap_i64 :: "int \<Rightarrow> int" where
  "wrap_i64 x = (x + 2 ^ 63) mod 2 ^ 64 - 2 ^ 63"

definition meetup_time :: "int \<Rightarrow> nat \<Rightarrow> nat \<Rightarrow> int \<Rightarrow> nat" where
  "meetup_time lon_bits attesting_start one_day offset =
     (let per_degree = trunc_div (as_i64 one_day) 360;
          lon = \<bar>lon_degrees lon_bits - 180\<bar>;
          lon_time = wrap_i64 (lon * per_degree)
      in i64_as_u64 (wrap_i64 (wrap_i64 (as_i64 attesting_start + lon_time) + offset)))"

text \<open>The parameters for locations come from the ceremonies pallet.\<close>

definition generate_location_assignment_params ::
  "hash_fn \<Rightarrow> nat \<Rightarrow> rng \<Rightarrow> (AssignmentParams \<times> rng) option" where
  "generate_location_assignment_params hash num_locations r =
     Option.bind (find_random_coprime_below hash num_locations r) (\<lambda>(s1, r').
     Option.bind (find_prime_below num_locations) (\<lambda>s2.
     Some (\<lparr>ap_m = num_locations, ap_s1 = s1, ap_s2 = s2\<rparr>, r')))"

section \<open>The inverse of the assignment function\<close>

text \<open>
  Parameters as the pallet generates them: a module below \<open>2 ^ 31\<close>, a multiplier that is coprime to
  it, and both group elements in the open interval up to the module.
\<close>

definition valid_params :: "AssignmentParams \<Rightarrow> bool" where
  "valid_params p \<longleftrightarrow>
     1 < ap_m p \<and> ap_m p < 2 ^ 31 \<and> 0 < ap_s1 p \<and> ap_s1 p < ap_m p \<and> coprime (ap_s1 p) (ap_m p) \<and>
     ap_s2 p < ap_m p"

abbreviation slot :: "AssignmentParams \<Rightarrow> nat \<Rightarrow> nat" where
  "slot p x \<equiv> (x * ap_s1 p + ap_s2 p) mod ap_m p"

lemma assignment_fn_eq:
  assumes v: "valid_params p" and "x < 2 * ap_m p" and "0 < n"
  shows "assignment_fn x p n = Some (slot p x mod n)"
proof -
  have "x * ap_s1 p \<le> 2 ^ 32 * 2 ^ 31"
    using v assms(2) by (intro mult_le_mono) (auto simp: valid_params_def)
  then have "x * ap_s1 p + ap_s2 p < 2 ^ 64" using v by (simp add: valid_params_def)
  then show ?thesis
    using v assms(3)
    by (simp add: assignment_fn_def checked_mul_def checked_add_def checked_modulo_def valid_params_def)
qed

lemma slot_add_m: "slot p (x + ap_m p) = slot p x"
proof -
  have "(x + ap_m p) * ap_s1 p + ap_s2 p = (x * ap_s1 p + ap_s2 p) + ap_s1 p * ap_m p"
    by (simp add: algebra_simps)
  then show ?thesis by (simp only: mod_mult_self1)
qed

lemma slot_inj:
  assumes v: "valid_params p" and "x < ap_m p" and "y < ap_m p" and "slot p x = slot p y"
  shows "x = y"
proof -
  let ?m = "int (ap_m p)" and ?s = "int (ap_s1 p)"
  have "(int x * ?s + int (ap_s2 p)) mod ?m = (int y * ?s + int (ap_s2 p)) mod ?m"
    using arg_cong[OF assms(4), of int] by (simp add: zmod_int)
  then have "?m dvd (int x * ?s + int (ap_s2 p)) - (int y * ?s + int (ap_s2 p))"
    by (rule mod_eq_dvd_iff[THEN iffD1])
  then have "?m dvd ?s * (int x - int y)" by (simp add: algebra_simps)
  moreover have "coprime ?m ?s" using v by (simp add: valid_params_def coprime_commute)
  ultimately have "?m dvd int x - int y" by (simp add: coprime_dvd_mult_right_iff)
  moreover have "\<bar>int x - int y\<bar> < ?m" using assms(2,3) by linarith
  ultimately have "int x - int y = 0" using dvd_imp_le_int[of "int x - int y" ?m] by auto
  then show ?thesis by simp
qed

lemma affine_inverse:
  fixes x t s u m :: int
  assumes "(s * t) mod m = 1"
  shows "(((x * t) mod m) * s + u) mod m = (x + u) mod m"
proof -
  have "(((x * t) mod m) * s + u) mod m = (x * t * s + u) mod m"
    by (metis mod_add_left_eq mod_mult_left_eq)
  also have "x * t * s = x * (s * t)" by (simp add: ac_simps)
  also have "(x * (s * t) + u) mod m = (x * ((s * t) mod m) + u) mod m"
    by (metis mod_add_left_eq mod_mult_right_eq)
  finally show ?thesis using assms by simp
qed

lemma inverse_point:
  assumes v: "valid_params p" and n: "0 < n" "n < 2 ^ 63" and val: "n * i + k < ap_m p"
    and t2: "0 \<le> t2" "t2 \<le> int (ap_m p)" "(int (ap_s1 p) * t2) mod int (ap_m p) = 1"
  shows "\<exists>t. t3 n i k p t2 = Some t \<and> t < ap_m p \<and> slot p t = n * i + k"
proof -
  let ?m = "int (ap_m p)" and ?s = "int (ap_s1 p)" and ?u = "int (ap_s2 p)"
  let ?x = "int (n * i + k) - ?u"
  define t where "t = (?x * t2) mod ?m"
  have mb: "0 < ?m" "?m < 2 ^ 31" and ub: "?u < ?m" and mn: "ap_m p < 2 ^ 31"
    using v by (auto simp: valid_params_def)
  have "i \<le> n * i" using n(1) by simp
  then have ib: "i < 2 ^ 31" "k < 2 ^ 31" "n * i < 2 ^ 31" using val mn by linarith+
  have in64: "signed_checked 64 y = Some y" if "\<bar>y\<bar> \<le> 2 ^ 62" for y
    using signed_checked_abs[OF that] by simp
  have xm: "0 \<le> ?x mod ?m" "?x mod ?m < ?m" using mb by simp_all
  have "?x mod ?m \<le> 2 ^ 31" "t2 \<le> 2 ^ 31" using xm t2 mb by linarith+
  then have "(?x mod ?m) * t2 \<le> 2 ^ 31 * 2 ^ 31"
    using xm t2 by (intro mult_mono) auto
  then have prod: "\<bar>(?x mod ?m) * t2\<bar> \<le> 2 ^ 62" using xm t2 by simp
  have e0: "as_i64 n * as_i64 i = int (n * i)"
    using n ib by (simp add: as_i64_exact)
  have conv: "as_i64 k = int k" "as_i64 (ap_s2 p) = ?u" "as_i64 (ap_m p) = ?m"
    using ib mb ub by (simp_all add: as_i64_exact)
  have c1: "signed_checked 64 (int (n * i)) = Some (int (n * i))"
    and c2: "signed_checked 64 (int (n * i) + int k) = Some (int (n * i) + int k)"
    and c3: "signed_checked 64 (int (n * i) + int k - ?u) = Some ?x"
    using ib ub mb by (auto simp: signed_checked_def in_signed_64_iff simp del: of_nat_mult)
  have c4: "signed_checked_rem_euclid 64 y ?m = Some (y mod ?m)" for y
    using mb by (simp add: signed_checked_rem_euclid_def rem_euclid_def)
  have "t3 n i k p t2 = Some (i64_as_u64 (((?x mod ?m) * t2) mod ?m))"
    unfolding t3_def e0 conv by (simp add: c1 c2 c3 c4 in64[OF prod] del: of_nat_mult of_nat_add)
  also have "((?x mod ?m) * t2) mod ?m = t" by (simp add: t_def mod_mult_left_eq)
  finally have t3: "t3 n i k p t2 = Some (i64_as_u64 t)" .
  have tb: "0 \<le> t" "t < ?m" using mb by (simp_all add: t_def)
  have "(t * ?s + ?u) mod ?m = (?x + ?u) mod ?m"
    unfolding t_def by (rule affine_inverse[OF t2(3)])
  also have "\<dots> = int (n * i + k) mod ?m" by simp
  also have "\<dots> = int (n * i + k)" using val by (intro mod_pos_pos_trivial) linarith+
  finally have "(t * ?s + ?u) mod ?m = int (n * i + k)" .
  then have "int (slot p (nat t)) = int (n * i + k)"
    using tb(1) by (simp only: zmod_int of_nat_add of_nat_mult int_nat_eq if_True)
  then have "slot p (nat t) = n * i + k" by (simp only: of_nat_eq_iff)
  moreover have "i64_as_u64 t = nat t" using tb mb by (intro i64_as_u64_exact) auto
  ultimately show ?thesis using t3 tb by auto
qed

lemma inverse_max_index_eq:
  assumes "0 < n" "n < 2 ^ 63" and "ap_m p < 2 ^ 31"
  shows "\<exists>mx. inverse_max_index k p n = Some mx \<and> (\<forall>i. i < mx \<longleftrightarrow> n * i + k < ap_m p)"
proof -
  let ?d = "ap_m p - k"
  have rem: "signed_checked_rem_euclid 64 (as_i64 ?d) (as_i64 n) = Some (int (?d mod n))"
    using assms by (simp add: as_i64_exact signed_checked_rem_euclid_def rem_euclid_def zmod_int)
  have "i < (if ?d mod n \<noteq> 0 then ?d div n + 1 else ?d div n) \<longleftrightarrow> n * i + k < ap_m p" for i
    using less_ceil_div_iff[OF assms(1), of i ?d] by linarith
  then show ?thesis using rem
    by (auto simp: inverse_max_index_def saturating_sub_def Let_def simp del: of_nat_mod)
qed

lemma inverse_loop_spec:
  assumes v: "valid_params p" and n: "0 < n" "n < 2 ^ 63" and pc: "pc \<le> 2 * ap_m p"
    and "distinct is" and "\<forall>i\<in>set is. n * i + k < ap_m p"
  shows "\<exists>xs. assignment_fn_inverse_loop k p n pc is = Some xs \<and> distinct xs \<and>
    set xs = {x. x < pc \<and> (\<exists>i\<in>set is. slot p x = n * i + k)}"
  using assms(5,6)
proof (induction "is")
  case Nil
  then show ?case by simp
next
  case (Cons i "is")
  let ?m = "ap_m p"
  have mb: "?m < 2 ^ 31" "0 < ?m" using v by (auto simp: valid_params_def)
  have conv: "as_i64 (ap_s1 p) = int (ap_s1 p)" "as_i64 ?m = int ?m"
    using v by (simp_all add: as_i64_exact valid_params_def)
  obtain t2 where t2: "checked_mod_inv (int (ap_s1 p)) (int ?m) = Some t2" "0 \<le> t2" "t2 \<le> int ?m"
    "(int (ap_s1 p) * t2) mod int ?m = 1"
    using checked_mod_inv_correct[of "int (ap_s1 p)" "int ?m"] v by (auto simp: valid_params_def)
  obtain t where t: "t3 n i k p t2 = Some t" "t < ?m" "slot p t = n * i + k"
    using inverse_point[OF v n _ t2(2-4), of i k] Cons.prems(2) by auto
  obtain xs where xs: "assignment_fn_inverse_loop k p n pc is = Some xs" "distinct xs"
    "set xs = {x. x < pc \<and> (\<exists>i\<in>set is. slot p x = n * i + k)}"
    using Cons by auto
  have hit: "x = t \<or> x = t + ?m" if "slot p x = n * i + k" "x < pc" for x
  proof (cases "x < ?m")
    case True
    then show ?thesis using slot_inj[OF v True t(2)] that t(3) by simp
  next
    case False
    then have "slot p (x - ?m) = slot p t" using slot_add_m[of "x - ?m" p] that t(3) by simp
    moreover have "x - ?m < ?m" using that(2) pc by simp
    ultimately show ?thesis using slot_inj[OF v _ t(2)] False by fastforce
  qed
  define new where "new = (if t \<ge> pc then [] else if t + ?m < pc then [t, t + ?m] else [t])"
  have add: "checked_add 64 t ?m = Some (t + ?m)" using t(2) mb by (simp add: checked_add_def)
  have loop: "assignment_fn_inverse_loop k p n pc (i # is) = Some (new @ xs)"
    using t2(1) t(1) xs(1) add unfolding new_def by (auto simp: conv)
  have set_new: "set new = {x. x < pc \<and> slot p x = n * i + k}"
    using hit t(3) slot_add_m[of t p] unfolding new_def by (auto simp: not_le)
  have "i \<notin> set is" using Cons.prems(1) by simp
  then have "set new \<inter> set xs = {}" unfolding set_new xs(3) using n(1) by auto
  moreover have "distinct new" using mb unfolding new_def by auto
  ultimately have "distinct (new @ xs)" using xs(2) by auto
  moreover have "set (new @ xs) = {x. x < pc \<and> (\<exists>j\<in>set (i # is). slot p x = n * j + k)}"
    unfolding set_append set_new xs(3) by auto
  ultimately show ?case using loop by blast
qed

lemma assignment_fn_inverse_spec:
  assumes v: "valid_params p" and n: "0 < n" "n < 2 ^ 63" and pc: "pc \<le> 2 * ap_m p" and k: "k < n"
  shows "\<exists>xs. assignment_fn_inverse k p n pc = Some xs \<and> distinct xs \<and>
    set xs = {x. x < pc \<and> assignment_fn x p n = Some k}"
proof -
  obtain mx where mx: "inverse_max_index k p n = Some mx" "\<forall>i. i < mx \<longleftrightarrow> n * i + k < ap_m p"
    using inverse_max_index_eq[OF n, of p k] v by (auto simp: valid_params_def)
  obtain xs where xs: "assignment_fn_inverse_loop k p n pc [0..<mx] = Some xs" "distinct xs"
    "set xs = {x. x < pc \<and> (\<exists>i\<in>set [0..<mx]. slot p x = n * i + k)}"
    using inverse_loop_spec[OF v n pc, of "[0..<mx]" k] mx(2) by auto
  have "(\<exists>i\<in>set [0..<mx]. slot p x = n * i + k) \<longleftrightarrow> slot p x mod n = k" for x
  proof
    assume "\<exists>i\<in>set [0..<mx]. slot p x = n * i + k"
    then show "slot p x mod n = k" using k by auto
  next
    assume eq: "slot p x mod n = k"
    then have "slot p x = n * (slot p x div n) + k" by (metis mult_div_mod_eq)
    moreover have "slot p x < ap_m p" using v by (simp add: valid_params_def)
    ultimately show "\<exists>i\<in>set [0..<mx]. slot p x = n * i + k"
      using mx(2) by (intro bexI[of _ "slot p x div n"]) auto
  qed
  then have "set xs = {x. x < pc \<and> assignment_fn x p n = Some k}"
    unfolding xs(3) using assignment_fn_eq[OF v _ n(1)] pc by auto
  then show ?thesis using xs mx(1) n(1) by (auto simp: assignment_fn_inverse_def)
qed

section \<open>Generated parameters\<close>

lemma coprime_below_prime:
  assumes "prime_nat p" and "0 < s" and "s < p"
  shows "coprime s p"
proof -
  have "gcd s p dvd p" by simp
  then have "gcd s p = 1 \<or> gcd s p = p" using assms(1) by (auto simp: prime_nat_def)
  moreover have "gcd s p \<noteq> p" using assms by (metis gcd_dvd1 nat_dvd_not_less)
  ultimately show ?thesis by (simp add: coprime_iff_gcd_eq_1)
qed

lemma generate_params_loop_range:
  assumes "generate_params_loop hash np nm mm tries s r = Some (s', r')"
    and "1 < mm" and "mm < 2 ^ 32"
    and "1 \<le> fst s \<and> fst s < mm \<and> 1 \<le> snd s \<and> snd s < mm"
  shows "1 \<le> fst s' \<and> fst s' < mm \<and> 1 \<le> snd s' \<and> snd s' < mm"
  using assms
proof (induction tries arbitrary: s r)
  case 0
  then show ?case by simp
next
  case (Suc tries)
  have ws: "wrapping_sub 32 mm (Suc 0) = mm - 1" using Suc.prems(2) by (simp add: wrapping_sub_def)
  from Suc.prems(1) obtain s1 r1 s2 r2 valid where
    p1: "pick_non_zero_u32 hash (mm - 1) r = Some (s1, r1)" and
    p2: "pick_non_zero_u32 hash (mm - 1) r1 = Some (s2, r2)" and
    res: "(if valid then Some ((s1, s2), r2)
           else generate_params_loop hash np nm mm tries (s1, s2) r2) = Some (s', r')"
    by (auto simp: ws bind_eq_Some_conv)
  have "1 \<le> s1 \<and> s1 \<le> mm - 1" "1 \<le> s2 \<and> s2 \<le> mm - 1"
    using pick_non_zero_u32_range[OF p1] pick_non_zero_u32_range[OF p2] Suc.prems(2,3) by auto
  then have ok: "1 \<le> fst (s1, s2) \<and> fst (s1, s2) < mm \<and> 1 \<le> snd (s1, s2) \<and> snd (s1, s2) < mm"
    using Suc.prems(2) by auto
  show ?case
  proof (cases valid)
    case True
    then show ?thesis using res ok by auto
  next
    case False
    then show ?thesis using Suc.IH[OF _ Suc.prems(2,3) ok] res by simp
  qed
qed

lemma generate_params_valid:
  assumes gen: "generate_assignment_function_params hash np nm r = Some (p, r')" and np: "np < 2 ^ 31"
  shows "valid_params p" and "find_prime_below np = Some (ap_m p)" and "prime_nat (ap_m p)"
proof -
  obtain q where q: "find_prime_below np = Some q" "prime_nat q" "q \<le> max np 2"
    using find_prime_below_largest[of np] np by auto
  have q31: "2 \<le> q" "q < 2 ^ 31" using q(2,3) np by (auto simp: prime_nat_def)
  have mm: "as_unsigned 32 q = q" using q31 by (simp add: as_unsigned_def)
  have ws: "wrapping_sub 32 q (Suc 0) = q - 1" using q31 by (simp add: wrapping_sub_def)
  from gen q(1) obtain s1 r1 s2 r2 s1' s2' where
    p1: "pick_non_zero_u32 hash (q - 1) r = Some (s1, r1)" and
    p2: "pick_non_zero_u32 hash (q - 1) r1 = Some (s2, r2)" and
    loop: "generate_params_loop hash np nm q 201 (s1, s2) r2 = Some ((s1', s2'), r')" and
    p: "p = \<lparr>ap_m = q, ap_s1 = s1', ap_s2 = s2'\<rparr>"
    by (auto simp: generate_assignment_function_params_def mm ws Let_def bind_eq_Some_conv
        simp del: generate_params_loop.simps)
  have "1 \<le> s1 \<and> s1 \<le> q - 1" "1 \<le> s2 \<and> s2 \<le> q - 1"
    using pick_non_zero_u32_range[OF p1] pick_non_zero_u32_range[OF p2] q31 by auto
  then have "1 \<le> s1 \<and> s1 < q \<and> 1 \<le> s2 \<and> s2 < q" using q31 by linarith
  then have "1 \<le> s1' \<and> s1' < q \<and> 1 \<le> s2' \<and> s2' < q"
    using generate_params_loop_range[OF loop] q31 by auto
  then show "valid_params p" "find_prime_below np = Some (ap_m p)" "prime_nat (ap_m p)"
    using coprime_below_prime[OF q(2)] q q31 p by (auto simp: valid_params_def)
qed

lemma is_coprime_iff: "0 < a \<Longrightarrow> 0 < b \<Longrightarrow> is_coprime a b = Some (coprime a b)"
  by (simp add: is_coprime_def gcd_correct coprime_iff_gcd_eq_1)

lemma find_random_coprime:
  assumes "find_random_coprime_below hash n r = Some (s, r')" and "2 \<le> n"
  shows "coprime n s" and "0 < s" and "s < n"
proof -
  have "coprime n s \<and> 0 < s \<and> s < n"
  proof (cases "n = 2")
    case True
    then show ?thesis using assms(1) by (auto simp: find_random_coprime_below_def)
  next
    case False
    then obtain xs where perm: "random_permutation hash [1..<n] r = Some (Some xs, r')"
      and s: "s = value_query 1 (List.find (\<lambda>i. is_coprime n i = Some True) xs)"
      using assms by (auto simp: find_random_coprime_below_def split: option.splits)
    have "mset xs = mset [1..<n]"
      using random_permutation_mset[OF perm] False assms(2) by auto
    then have set: "set xs = {1..<n}" using mset_eq_setD by fastforce
    show ?thesis
    proof (cases "List.find (\<lambda>i. is_coprime n i = Some True) xs")
      case None
      then show ?thesis using s assms(2) by simp
    next
      case (Some x)
      then have "x \<in> set xs" "is_coprime n x = Some True"
        by (auto simp: find_Some_iff)
      then show ?thesis using s Some set is_coprime_iff[of n x] assms(2) by auto
    qed
  qed
  then show "coprime n s" "0 < s" "s < n" by auto
qed

section \<open>Balance of the generated mapping\<close>

lemma validate_loop_spec:
  assumes "length counts = n" and "n < 2 ^ 32"
    and "\<forall>k<n. counts ! k = length (filter (\<lambda>i. assignment_fn i p n = Some k) done) \<and> counts ! k \<le> mx"
  shows "validate_loop p n mx counts is \<noteq> None \<and>
    (validate_loop p n mx counts is = Some True \<longrightarrow>
       (\<forall>k<n. length (filter (\<lambda>i. assignment_fn i p n = Some k) (done @ is)) \<le> mx))"
  using assms
proof (induction "is" arbitrary: counts "done")
  case Nil
  then show ?case by auto
next
  case (Cons i "is")
  show ?case
  proof (cases "assignment_fn i p n")
    case None
    then show ?thesis by simp
  next
    case (Some k)
    then have k: "k < n"
      by (auto simp: assignment_fn_def checked_modulo_def bind_eq_Some_conv split: if_splits)
    then have usize: "as_unsigned usize_bits k = k" using Cons.prems(2) by (simp add: as_unsigned_def)
    have get: "vec_get counts k = Some (counts ! k)" using Cons.prems(1) k by (simp add: vec_get_def)
    show ?thesis
    proof (cases "counts ! k + 1 > mx")
      case True
      then show ?thesis using Some get usize by simp
    next
      case False
      have "\<forall>j<n. counts[k := counts ! k + 1] ! j =
              length (filter (\<lambda>i. assignment_fn i p n = Some j) (done @ [i])) \<and>
            counts[k := counts ! k + 1] ! j \<le> mx"
        using Cons.prems Some False k by (auto simp: nth_list_update)
      with Cons.IH[of "counts[k := counts ! k + 1]" "done @ [i]"] Cons.prems(1,2)
      have "validate_loop p n mx (counts[k := counts ! k + 1]) is \<noteq> None \<and>
        (validate_loop p n mx (counts[k := counts ! k + 1]) is = Some True \<longrightarrow>
         (\<forall>k<n. length (filter (\<lambda>i. assignment_fn i p n = Some k) (done @ i # is)) \<le> mx))"
        by (metis append.assoc append_Cons append_Nil length_list_update)
      then show ?thesis using Some get usize False by (simp del: filter_append)
    qed
  qed
qed

lemma validate_equal_mapping_balanced:
  assumes "2 \<le> np" and "validate_equal_mapping np p n = Some True" and "ap_m p \<le> np" and "k < n" and "n < 2 ^ 32"
  shows "length (filter (\<lambda>i. assignment_fn i p n = Some k) [ap_m p..<np])
           \<le> value_query 0 (checked_ceil_division (np - ap_m p) n)"
  using validate_loop_spec[of "replicate n 0" n p "[]"
      "value_query 0 (checked_ceil_division (np - ap_m p) n)" "[ap_m p..<np]"] assms
  by (simp add: validate_equal_mapping_def wrapping_sub_def as_unsigned_def)

section \<open>Properties\<close>

text \<open>C1: The pallet can look up the participants of a meetup without storing them: with the
  parameters it generates for up to \<open>2 ^ 18\<close> participants, every participant index belongs to
  exactly one meetup, namely the one \<open>assignment_fn\<close> gives, and \<open>assignment_fn_inverse\<close> returns for each
  meetup exactly the indices assigned to it, each of them once.\<close>

theorem generated_assignment_partition:
  assumes "generate_assignment_function_params hash np nm r = Some (p, r')"
    and "np < 2 ^ 18" and "0 < nm" and "nm < 2 ^ 63"
  shows "(\<forall>k<nm. \<exists>xs. assignment_fn_inverse k p nm np = Some xs \<and> distinct xs \<and>
           set xs = {x. x < np \<and> assignment_fn x p nm = Some k}) \<and>
         (\<forall>x<np. \<exists>!k. k < nm \<and> x \<in> set (value_query [] (assignment_fn_inverse k p nm np)))"
proof -
  have np: "np < 2 ^ 31" using assms(2) by simp
  note v = generate_params_valid[OF assms(1) np]
  have half: "np \<le> 2 * ap_m p" using find_prime_below_half[OF assms(2) v(2)] .
  have inv: "\<exists>xs. assignment_fn_inverse k p nm np = Some xs \<and> distinct xs \<and>
      set xs = {x. x < np \<and> assignment_fn x p nm = Some k}" if "k < nm" for k
    using assignment_fn_inverse_spec[OF v(1) assms(3,4) half that] .
  moreover have "\<exists>!k. k < nm \<and> x \<in> set (value_query [] (assignment_fn_inverse k p nm np))" if x: "x < np" for x
  proof -
    have fx: "assignment_fn x p nm = Some (slot p x mod nm)"
      using assignment_fn_eq[OF v(1) _ assms(3)] x half by simp
    have "slot p x mod nm < nm" using assms(3) by simp
    moreover have "x \<in> set (value_query [] (assignment_fn_inverse k p nm np)) \<longleftrightarrow> k = slot p x mod nm"
      if k: "k < nm" for k
    proof -
      obtain xs where xs: "assignment_fn_inverse k p nm np = Some xs"
        "set xs = {x. x < np \<and> assignment_fn x p nm = Some k}" using inv[OF k] by blast
      have "x \<in> set xs \<longleftrightarrow> assignment_fn x p nm = Some k" using xs(2) x by blast
      then show ?thesis by (simp only: xs(1) value_query_simps fx option.inject) (rule eq_commute)
    qed
    ultimately show ?thesis by blast
  qed
  ultimately show ?thesis by blast
qed

lemma small_params_example:
  "generate_assignment_function_params (\<lambda>_. replicate 8 1) 10 3 (rng_new [1, 2, 3, 4, 5, 6, 7, 8]) =
     Some (\<lparr>ap_m = 7, ap_s1 = 2, ap_s2 = 2\<rparr>, \<lparr>rng_current = replicate 8 1, rng_offset = 2\<rparr>)"
  by code_simp

theorem generated_assignment_partition_witness:
  "\<exists>!k. k < 3 \<and> 9 \<in> set (value_query [] (assignment_fn_inverse k \<lparr>ap_m = 7, ap_s1 = 2, ap_s2 = 2\<rparr> 3 10))"
  using generated_assignment_partition[OF small_params_example] by simp

lemma location_index_eq:
  assumes "generate_location_assignment_params hash (length locs) r = Some (p, r')"
    and "0 < length locs" and "length locs < 2 ^ 31" and "i < length locs"
  shows "get_meetup_location_index i locs p = Some ((i * ap_s1 p + ap_s2 p) mod length locs)"
proof -
  let ?n = "length locs"
  obtain q where q: "find_prime_below ?n = Some q" "q \<le> max ?n 2"
    using find_prime_below_largest[of ?n] assms(3) by auto
  obtain s1 where s1: "find_random_coprime_below hash ?n r = Some (s1, r')"
    and p: "p = \<lparr>ap_m = ?n, ap_s1 = s1, ap_s2 = q\<rparr>"
    using assms(1) q(1) by (auto simp: generate_location_assignment_params_def bind_eq_Some_conv)
  have "s1 < 2 ^ 31"
  proof (cases "2 \<le> ?n")
    case True
    then show ?thesis using find_random_coprime(3)[OF s1] assms(3) by simp
  next
    case False
    then show ?thesis using s1 by (simp add: find_random_coprime_below_def)
  qed
  then have "i * s1 \<le> 2 ^ 31 * 2 ^ 31" using assms(3,4) by (intro mult_le_mono) auto
  then have "i * s1 + q < 2 ^ 64" using q(2) assms(3) by (auto simp: max_def split: if_splits)
  then show ?thesis using p assms(2)
    by (simp add: get_meetup_location_index_def assignment_fn_def checked_mul_def checked_add_def
        checked_modulo_def)
qed

lemma affine_mod_inj:
  fixes x y s u n :: nat
  assumes "coprime n s" and "x < n" and "y < n" and "(x * s + u) mod n = (y * s + u) mod n"
  shows "x = y"
proof -
  have "int n dvd int (x * s + u) - int (y * s + u)"
    using arg_cong[OF assms(4), of int] by (intro mod_eq_dvd_iff[THEN iffD1]) (simp add: zmod_int)
  then have "int n dvd int s * (int x - int y)" by (simp add: algebra_simps)
  then have "int n dvd int x - int y" using assms(1) by (simp add: coprime_dvd_mult_right_iff)
  moreover have "\<bar>int x - int y\<bar> < int n" using assms(2,3) by linarith
  ultimately have "int x - int y = 0" using dvd_imp_le_int[of "int x - int y" "int n"] by auto
  then show ?thesis by simp
qed

text \<open>Distinct meetups are sent to distinct locations: with the location parameters the pallet
  generates, every meetup index below the number of locations has a location, and no two of them
  share it.\<close>

theorem meetup_locations_distinct:
  assumes "generate_location_assignment_params hash (length locs) r = Some (p, r')"
    and "length locs < 2 ^ 31" and "distinct locs" and "i < length locs" and "j < length locs"
  shows "\<exists>l\<in>set locs. meetup_location i locs p = Some l \<and> (meetup_location j locs p = Some l \<longleftrightarrow> i = j)"
proof -
  let ?n = "length locs" and ?f = "\<lambda>x. (x * ap_s1 p + ap_s2 p) mod length locs"
  have n: "0 < ?n" using assms(4) by linarith
  have idx: "get_meetup_location_index x locs p = Some (?f x)" if "x < ?n" for x
    using location_index_eq[OF assms(1) n assms(2) that] .
  have loc: "meetup_location x locs p = Some (locs ! ?f x)" if "x < ?n" for x
    using idx[OF that] n by (simp add: meetup_location_def)
  have inj: "?f i = ?f j \<Longrightarrow> i = j"
  proof (cases "2 \<le> ?n")
    case True
    obtain r'' where "find_random_coprime_below hash ?n r = Some (ap_s1 p, r'')"
      using assms(1) by (auto simp: generate_location_assignment_params_def bind_eq_Some_conv)
    from find_random_coprime(1)[OF this True] show "?f i = ?f j \<Longrightarrow> i = j"
      using assms(4,5) by (rule affine_mod_inj)
  next
    case False
    then show "?f i = ?f j \<Longrightarrow> i = j" using assms(4,5) by simp
  qed
  have "locs ! ?f i \<in> set locs" using n by simp
  moreover have "meetup_location j locs p = Some (locs ! ?f i) \<longleftrightarrow> i = j"
    unfolding loc[OF assms(5)] option.inject
    using nth_eq_iff_index_eq[OF assms(3) mod_less_divisor[OF n] mod_less_divisor[OF n]] inj by metis
  ultimately show ?thesis using loc[OF assms(4)] by blast
qed

lemma location_params_example:
  "generate_location_assignment_params (\<lambda>_. replicate 8 1) (length ''abcdef'') (rng_new [1, 2, 3, 4, 5, 6, 7, 8]) =
     Some (\<lparr>ap_m = 6, ap_s1 = 1, ap_s2 = 5\<rparr>, \<lparr>rng_current = [1, 2, 3, 4, 5, 6, 7, 8], rng_offset = 4\<rparr>)"
  by code_simp

theorem meetup_locations_distinct_witness:
  "\<exists>l\<in>set ''abcdef''. meetup_location 2 ''abcdef'' \<lparr>ap_m = 6, ap_s1 = 1, ap_s2 = 5\<rparr> = Some l \<and>
     meetup_location 4 ''abcdef'' \<lparr>ap_m = 6, ap_s1 = 1, ap_s2 = 5\<rparr> \<noteq> Some l"
  using meetup_locations_distinct[OF location_params_example, of 2 4] by simp

lemma residue_class_card: "0 < n \<Longrightarrow> k < n \<Longrightarrow> card {y. y < m \<and> y mod n = k} \<le> (m + n - 1) div n"
  for n m k :: nat
proof -
  assume n: "0 < n" "k < n"
  have "{y. y < m \<and> y mod n = k} \<subseteq> (\<lambda>i. n * i + k) ` {..<(m + n - 1) div n}"
  proof
    fix y assume "y \<in> {y. y < m \<and> y mod n = k}"
    then have y: "y < m" "y = n * (y div n) + k" using mult_div_mod_eq[of n y] by auto
    then have "n * (y div n) + n \<le> m + n - 1" using n by linarith
    then have "(n * (y div n) + n) div n \<le> (m + n - 1) div n" by (rule div_le_mono)
    then have "y div n < (m + n - 1) div n" using n by simp
    then show "y \<in> (\<lambda>i. n * i + k) ` {..<(m + n - 1) div n}" using y(2) by blast
  qed
  then have "card {y. y < m \<and> y mod n = k} \<le> card ((\<lambda>i. n * i + k) ` {..<(m + n - 1) div n})"
    by (intro card_mono) auto
  also have "\<dots> \<le> (m + n - 1) div n"
    using card_image_le[of "{..<(m + n - 1) div n}" "\<lambda>i. n * i + k"] by simp
  finally show ?thesis .
qed

lemma first_round_card:
  assumes v: "valid_params p" and n: "0 < n" "k < n"
  shows "length (filter (\<lambda>i. assignment_fn i p n = Some k) [0..<ap_m p]) \<le> (ap_m p + n - 1) div n"
proof -
  let ?A = "{x. x < ap_m p \<and> slot p x mod n = k}"
  have "length (filter (\<lambda>i. assignment_fn i p n = Some k) [0..<ap_m p]) =
      card {x. x < ap_m p \<and> assignment_fn x p n = Some k}"
    using distinct_card[of "filter (\<lambda>i. assignment_fn i p n = Some k) [0..<ap_m p]"]
    by (simp only: distinct_filter distinct_upt set_filter set_upt atLeastLessThan_iff le0 simp_thms)
  also have "{x. x < ap_m p \<and> assignment_fn x p n = Some k} = ?A"
    using assignment_fn_eq[OF v _ n(1)] by (intro Collect_cong conj_cong refl) simp
  also have "card ?A = card (slot p ` ?A)"
    by (rule card_image[symmetric]) (auto simp: inj_on_def intro: slot_inj[OF v])
  also have "\<dots> \<le> card {y. y < ap_m p \<and> y mod n = k}"
    using v by (intro card_mono) (auto simp: valid_params_def)
  also have "\<dots> \<le> (ap_m p + n - 1) div n" by (rule residue_class_card[OF n])
  finally show ?thesis .
qed

text \<open>Meetups are of balanced size: when the generated parameters passed the pallet's check of
  the wrapped-around indices, no meetup has more than the two rounded-up shares of the indices
  below and above the module.\<close>

theorem meetup_size_bound:
  assumes "valid_params p" and "2 \<le> np" and "ap_m p \<le> np" and "np < 2 ^ 63" and "k < n" and "n < 2 ^ 32"
    and "validate_equal_mapping np p n = Some True"
  shows "length (filter (\<lambda>i. assignment_fn i p n = Some k) [0..<np])
           \<le> (ap_m p + n - 1) div n + (np - ap_m p + n - 1) div n"
proof -
  have "[0..<np] = [0..<ap_m p] @ [ap_m p..<np]"
    using assms(3) upt_add_eq_append[of 0 "ap_m p" "np - ap_m p"] by simp
  moreover have "checked_ceil_division (np - ap_m p) n = Some ((np - ap_m p + n - 1) div n)"
    using assms(4-6) by (simp add: checked_ceil_division_def checked_add_def checked_sub_def checked_div_def)
  ultimately show ?thesis
    using first_round_card[OF assms(1) _ assms(5)] assms(5)
      validate_equal_mapping_balanced[OF assms(2,7,3,5,6)] by (simp add: add_mono)
qed

theorem meetup_size_bound_witness:
  "length (filter (\<lambda>i. assignment_fn i \<lparr>ap_m = 7, ap_s1 = 2, ap_s2 = 2\<rparr> 3 = Some 1) [0..<10]) \<le> 4"
proof -
  have "validate_equal_mapping 10 \<lparr>ap_m = 7, ap_s1 = 2, ap_s2 = 2\<rparr> 3 = Some True" by code_simp
  then show ?thesis
    using meetup_size_bound[of "\<lparr>ap_m = 7, ap_s1 = 2, ap_s2 = 2\<rparr>" 10 1 3]
    by (simp add: valid_params_def del: upt_rec_numeral)
qed

end
