(* ===== verification/Scheduler.thy ===== *)
theory Scheduler
  imports Prelude
begin

text \<open>
  The ceremony scheduler, \<open>scheduler/src/lib.rs\<close> and \<open>primitives/src/scheduler.rs\<close>: a clock with
  three phases and a ceremony index, driven by the block timestamp. A \<open>Moment\<close> is a \<open>u64\<close> of
  milliseconds. \<open>ts_now\<close> is the stored time of the timestamp pallet. The handler that is informed
  about a phase change, \<open>T::OnCeremonyPhaseChange\<close>, is an argument: it reads the scheduler and
  changes the state \<open>'w\<close> of the other pallets.
\<close>

section \<open>Definitions\<close>

datatype CeremonyPhaseType = Registering | Assigning | Attesting

definition is_registering_or_attesting :: "CeremonyPhaseType \<Rightarrow> bool" where
  "is_registering_or_attesting phase = (phase \<noteq> Assigning)"

datatype scheduler_event = PhaseChangedTo CeremonyPhaseType | CeremonySchedulePushedByOneDay

datatype scheduler_error = DivisionByZero | SchedulerBadOrigin

record scheduler =
  sc_ceremony_index :: nat
  sc_phase :: CeremonyPhaseType
  sc_next_phase_timestamp :: nat
  sc_phase_durations :: "CeremonyPhaseType \<Rightarrow> nat option"
  sc_events :: "scheduler_event list"
  ts_now :: nat

type_synonym 'w phase_handler = "scheduler \<Rightarrow> CeremonyPhaseType \<Rightarrow> 'w \<Rightarrow> 'w"

definition phase_duration :: "scheduler \<Rightarrow> CeremonyPhaseType \<Rightarrow> nat" where
  "phase_duration s phase = value_query 0 (sc_phase_durations s phase)"

definition scheduler_genesis ::
  "nat \<Rightarrow> CeremonyPhaseType \<Rightarrow> (CeremonyPhaseType \<times> nat) list \<Rightarrow> scheduler" where
  "scheduler_genesis index phase durations =
     \<lparr>sc_ceremony_index = index, sc_phase = phase, sc_next_phase_timestamp = 0,
      sc_phase_durations = foldl (\<lambda>m (k, v). m(k \<mapsto> v)) Map.empty durations,
      sc_events = [], ts_now = 0\<rparr>"

definition get_cycle_duration :: "scheduler \<Rightarrow> nat" where
  "get_cycle_duration s =
     wrapping_add 64 (wrapping_add 64 (phase_duration s Registering) (phase_duration s Assigning))
       (phase_duration s Attesting)"

definition resync_and_set_next_phase_timestamp :: "nat \<Rightarrow> scheduler \<Rightarrow> scheduler_error + scheduler" where
  "resync_and_set_next_phase_timestamp tnext s =
     (let cycle_duration = get_cycle_duration s; now = ts_now s in
      bind_res
        (if tnext < now then
           (case checked_div (now - tnext) cycle_duration of
              Some n \<Rightarrow>
                Inr (saturating_add 64 tnext (saturating_mul 64 cycle_duration (wrapping_add 64 n 1)))
            | None \<Rightarrow> Inl DivisionByZero)
         else
           (case checked_div (tnext - now) cycle_duration of
              Some n \<Rightarrow> Inr (saturating_sub tnext (saturating_mul 64 cycle_duration n))
            | None \<Rightarrow> Inl DivisionByZero))
        (\<lambda>tnext'. Inr (s\<lparr>sc_next_phase_timestamp := tnext'\<rparr>)))"

fun next_phase_of :: "CeremonyPhaseType \<Rightarrow> CeremonyPhaseType" where
  "next_phase_of Registering = Assigning"
| "next_phase_of Assigning = Attesting"
| "next_phase_of Attesting = Registering"

text \<open>
  \<open>progress_phase\<close> writes the ceremony index before the resynchronisation that may fail, so it
  returns the state it leaves behind in both cases.
\<close>

definition progress_phase ::
  "'w phase_handler \<Rightarrow> scheduler \<Rightarrow> 'w \<Rightarrow> (scheduler_error + unit) \<times> scheduler \<times> 'w" where
  "progress_phase on_change s w =
     (let next_phase = next_phase_of (sc_phase s);
          s1 = (if sc_phase s = Attesting
                then s\<lparr>sc_ceremony_index := saturating_add 32 (sc_ceremony_index s) 1\<rparr>
                else s);
          next = saturating_add 64 (sc_next_phase_timestamp s) (phase_duration s1 next_phase)
      in case resync_and_set_next_phase_timestamp next s1 of
           Inl e \<Rightarrow> (Inl e, s1, w)
         | Inr s2 \<Rightarrow>
             (let s3 = s2\<lparr>sc_phase := next_phase\<rparr>;
                  w' = on_change s3 next_phase w
              in (Inr (), s3\<lparr>sc_events := sc_events s3 @ [PhaseChangedTo next_phase]\<rparr>, w')))"

definition scheduler_on_timestamp_set ::
  "'w phase_handler \<Rightarrow> nat \<Rightarrow> nat \<Rightarrow> scheduler \<Rightarrow> 'w \<Rightarrow> scheduler \<times> 'w" where
  "scheduler_on_timestamp_set on_change moments_per_day now s w =
     (if sc_next_phase_timestamp s = 0 then
        (let s1 = (if sc_ceremony_index s = 0 then s\<lparr>sc_ceremony_index := 1\<rparr> else s);
             next = saturating_add 64 (now - now mod moments_per_day) (phase_duration s1 Registering)
         in case resync_and_set_next_phase_timestamp next s1 of
              Inl e \<Rightarrow> (s1, w)
            | Inr s2 \<Rightarrow> (s2, w))
      else if sc_next_phase_timestamp s < now then
        (case progress_phase on_change s w of (r, s', w') \<Rightarrow> (s', w'))
      else (s, w))"

text \<open>The timestamp pallet stores the time of the block before it informs the scheduler.\<close>

definition set_timestamp ::
  "'w phase_handler \<Rightarrow> nat \<Rightarrow> nat \<Rightarrow> scheduler \<Rightarrow> 'w \<Rightarrow> scheduler \<times> 'w" where
  "set_timestamp on_change moments_per_day now s w =
     scheduler_on_timestamp_set on_change moments_per_day now (s\<lparr>ts_now := now\<rparr>) w"

text \<open>The calls. \<open>is_master\<close> is the outcome of \<open>T::CeremonyMaster::ensure_origin\<close>.\<close>

definition next_phase ::
  "'w phase_handler \<Rightarrow> bool \<Rightarrow> scheduler \<Rightarrow> 'w \<Rightarrow> scheduler_error + (scheduler \<times> 'w)" where
  "next_phase on_change is_master s w =
     ensure is_master SchedulerBadOrigin (
     case progress_phase on_change s w of
       (Inl e, _) \<Rightarrow> Inl e
     | (Inr _, s', w') \<Rightarrow> Inr (s', w'))"

definition push_by_one_day :: "nat \<Rightarrow> bool \<Rightarrow> scheduler \<Rightarrow> scheduler_error + scheduler" where
  "push_by_one_day moments_per_day is_master s =
     ensure is_master SchedulerBadOrigin (
     Inr (s\<lparr>sc_next_phase_timestamp := saturating_add 64 (sc_next_phase_timestamp s) moments_per_day,
            sc_events := sc_events s @ [CeremonySchedulePushedByOneDay]\<rparr>))"

definition set_phase_duration ::
  "bool \<Rightarrow> CeremonyPhaseType \<Rightarrow> nat \<Rightarrow> scheduler \<Rightarrow> scheduler_error + scheduler" where
  "set_phase_duration is_master ceremony_phase duration s =
     ensure is_master SchedulerBadOrigin (
     Inr (s\<lparr>sc_phase_durations := (sc_phase_durations s)(ceremony_phase \<mapsto> duration)\<rparr>))"

definition set_next_phase_timestamp :: "bool \<Rightarrow> nat \<Rightarrow> scheduler \<Rightarrow> scheduler_error + scheduler" where
  "set_next_phase_timestamp is_master timestamp s =
     ensure is_master SchedulerBadOrigin (
     Inr (s\<lparr>sc_next_phase_timestamp := timestamp\<rparr>))"

text \<open>One step of the scheduler: a block's timestamp or one of the calls.\<close>

inductive scheduler_step :: "'w phase_handler \<Rightarrow> nat \<Rightarrow> scheduler \<times> 'w \<Rightarrow> scheduler \<times> 'w \<Rightarrow> bool"
  for on_change :: "'w phase_handler" and day :: nat where
  timestamp: "ts_now s \<le> now \<Longrightarrow> scheduler_step on_change day (s, w) (set_timestamp on_change day now s w)"
| manual: "next_phase on_change is_master s w = Inr sw \<Longrightarrow> scheduler_step on_change day (s, w) sw"
| push: "push_by_one_day day is_master s = Inr s' \<Longrightarrow> scheduler_step on_change day (s, w) (s', w)"
| set_duration: "set_phase_duration is_master ph d s = Inr s' \<Longrightarrow> scheduler_step on_change day (s, w) (s', w)"
| set_next: "set_next_phase_timestamp is_master t s = Inr s' \<Longrightarrow> scheduler_step on_change day (s, w) (s', w)"

inductive_cases scheduler_stepE: "scheduler_step on_change day sw sw'"

section \<open>Resynchronisation\<close>

text \<open>The three durations together fit into a \<open>u64\<close>, and the cycle is not empty.\<close>

definition durations_ok :: "scheduler \<Rightarrow> bool" where
  "durations_ok s \<longleftrightarrow>
     (let c = phase_duration s Registering + phase_duration s Assigning + phase_duration s Attesting
      in 0 < c \<and> c < 2 ^ 64)"

lemma get_cycle_duration_eq:
  "durations_ok s \<Longrightarrow> get_cycle_duration s =
     phase_duration s Registering + phase_duration s Assigning + phase_duration s Attesting"
  by (simp add: durations_ok_def get_cycle_duration_def wrapping_add_def Let_def)

lemma resync_error_iff:
  "resync_and_set_next_phase_timestamp t s = Inl e \<longleftrightarrow> get_cycle_duration s = 0 \<and> e = DivisionByZero"
  by (auto simp: resync_and_set_next_phase_timestamp_def checked_div_def Let_def)

lemma resync_spec:
  assumes "0 < get_cycle_duration s" and "ts_now s + get_cycle_duration s < 2 ^ 64" and "t < 2 ^ 64"
  shows "\<exists>t'. resync_and_set_next_phase_timestamp t s = Inr (s\<lparr>sc_next_phase_timestamp := t'\<rparr>) \<and>
    ts_now s \<le> t' \<and> t' \<le> ts_now s + get_cycle_duration s \<and>
    t' mod get_cycle_duration s = t mod get_cycle_duration s"
proof -
  let ?c = "get_cycle_duration s" and ?now = "ts_now s"
  show ?thesis
  proof (cases "t < ?now")
    case True
    define n where "n = (?now - t) div ?c"
    have nc: "n * ?c \<le> ?now - t" "?now - t < n * ?c + ?c"
      using assms(1) dividend_less_div_times[of ?c "?now - t"] by (auto simp: n_def)
    have "n \<le> n * ?c" using assms(1) by simp
    then have "n < 2 ^ 64 - 1" using nc(1) assms(1,2) by linarith
    then have n1: "wrapping_add 64 n 1 = n + 1" by (simp add: wrapping_add_exact)
    have "?c * (n + 1) = n * ?c + ?c" by (simp add: algebra_simps)
    then have "?c * (n + 1) < 2 ^ 64" "t + ?c * (n + 1) < 2 ^ 64" using nc(1) True assms(2) by linarith+
    then have "resync_and_set_next_phase_timestamp t s = Inr (s\<lparr>sc_next_phase_timestamp := t + ?c * (n + 1)\<rparr>)"
      using True assms(1) n1
      by (simp add: resync_and_set_next_phase_timestamp_def checked_div_def Let_def n_def[symmetric]
          saturating_mul_exact saturating_add_exact del: mult_Suc_right)
    moreover have "(t + ?c * (n + 1)) mod ?c = t mod ?c" by (simp only: mod_mult_self2)
    ultimately show ?thesis using nc True \<open>?c * (n + 1) = n * ?c + ?c\<close>
      by (intro exI[of _ "t + ?c * (n + 1)"]) (simp only: simp_thms, linarith)
  next
    case False
    define n where "n = (t - ?now) div ?c"
    have nc: "n * ?c \<le> t - ?now" "t - ?now < n * ?c + ?c"
      using assms(1) dividend_less_div_times[of ?c "t - ?now"] by (auto simp: n_def)
    then have le: "?c * n \<le> t" "?c * n < 2 ^ 64" using assms(3) by (simp_all add: mult.commute)
    then have "resync_and_set_next_phase_timestamp t s = Inr (s\<lparr>sc_next_phase_timestamp := t - ?c * n\<rparr>)"
      using False assms(1)
      by (simp add: resync_and_set_next_phase_timestamp_def checked_div_def Let_def n_def[symmetric]
          saturating_mul_exact saturating_sub_def)
    moreover have "(t - ?c * n) mod ?c = t mod ?c"
      using le(1) by (metis le_add_diff_inverse2 mod_mult_self2)
    ultimately show ?thesis using nc False
      by (intro exI[of _ "t - ?c * n"]) (auto simp: mult.commute)
  qed
qed

section \<open>The abstract clock\<close>

text \<open>
  Abstractly the scheduler counts phases: three per ceremony. \<open>phase_count\<close> is the abstraction
  function, and a successful \<open>progress_phase\<close> is one tick of the counter.
\<close>

fun phase_ord :: "CeremonyPhaseType \<Rightarrow> nat" where
  "phase_ord Registering = 0"
| "phase_ord Assigning = 1"
| "phase_ord Attesting = 2"

definition phase_count :: "scheduler \<Rightarrow> nat" where
  "phase_count s = 3 * sc_ceremony_index s + phase_ord (sc_phase s)"

lemma resync_frame:
  assumes "resync_and_set_next_phase_timestamp t s = Inr s'"
  shows "sc_ceremony_index s' = sc_ceremony_index s" "sc_phase s' = sc_phase s"
    "sc_phase_durations s' = sc_phase_durations s" "ts_now s' = ts_now s" "sc_events s' = sc_events s"
  using assms by (auto simp: resync_and_set_next_phase_timestamp_def Let_def bind_res_def
      split: if_splits option.splits)

lemma cycle_duration_cong:
  "sc_phase_durations s' = sc_phase_durations s \<Longrightarrow> get_cycle_duration s' = get_cycle_duration s"
  by (simp add: get_cycle_duration_def phase_duration_def)

lemma progress_phase_cases:
  obtains (failed) "get_cycle_duration s = 0" "fst (progress_phase f s w) = Inl DivisionByZero"
      "snd (progress_phase f s w) =
        (if sc_phase s = Attesting then s\<lparr>sc_ceremony_index := saturating_add 32 (sc_ceremony_index s) 1\<rparr> else s, w)"
    | (changed) s' where "0 < get_cycle_duration s"
      "progress_phase f s w = (Inr (), s', f (s'\<lparr>sc_events := sc_events s\<rparr>) (next_phase_of (sc_phase s)) w)"
      "sc_phase s' = next_phase_of (sc_phase s)"
      "sc_ceremony_index s' =
        (if sc_phase s = Attesting then saturating_add 32 (sc_ceremony_index s) 1 else sc_ceremony_index s)"
      "sc_phase_durations s' = sc_phase_durations s" "ts_now s' = ts_now s"
      "sc_events s' = sc_events s @ [PhaseChangedTo (next_phase_of (sc_phase s))]"
proof -
  define s1 where "s1 = (if sc_phase s = Attesting
      then s\<lparr>sc_ceremony_index := saturating_add 32 (sc_ceremony_index s) 1\<rparr> else s)"
  define t where "t = saturating_add 64 (sc_next_phase_timestamp s) (phase_duration s1 (next_phase_of (sc_phase s)))"
  have s1: "sc_phase_durations s1 = sc_phase_durations s" "ts_now s1 = ts_now s" "sc_events s1 = sc_events s"
    by (simp_all add: s1_def)
  note cyc = cycle_duration_cong[OF s1(1)]
  show thesis
  proof (cases "resync_and_set_next_phase_timestamp t s1")
    case (Inl e)
    then have "get_cycle_duration s = 0" "e = DivisionByZero" by (auto simp: resync_error_iff cyc)
    then show thesis using failed Inl by (simp add: progress_phase_def Let_def s1_def t_def)
  next
    case (Inr s2)
    note fr = resync_frame[OF Inr]
    define s' where "s' = s2\<lparr>sc_phase := next_phase_of (sc_phase s),
        sc_events := sc_events s2 @ [PhaseChangedTo (next_phase_of (sc_phase s))]\<rparr>"
    show thesis
    proof (rule changed[of s'])
      show "0 < get_cycle_duration s" using Inr resync_error_iff[of t s1 DivisionByZero] cyc by auto
      have "s2\<lparr>sc_phase := next_phase_of (sc_phase s)\<rparr> = s'\<lparr>sc_events := sc_events s\<rparr>"
        using fr s1 by (simp add: s'_def)
      then show "progress_phase f s w =
          (Inr (), s', f (s'\<lparr>sc_events := sc_events s\<rparr>) (next_phase_of (sc_phase s)) w)"
        using Inr unfolding progress_phase_def Let_def s1_def[symmetric] t_def[symmetric]
        by (simp add: s'_def)
    qed (use fr s1 in \<open>simp_all add: s'_def s1_def\<close>)
  qed
qed

section \<open>Properties\<close>

definition demo_scheduler :: scheduler where
  "demo_scheduler = (scheduler_genesis 4 Attesting [(Registering, 70), (Assigning, 10), (Attesting, 20)])
     \<lparr>sc_next_phase_timestamp := 500, ts_now := 523\<rparr>"

lemmas demo_simps = demo_scheduler_def scheduler_genesis_def get_cycle_duration_def phase_duration_def
  wrapping_add_def

text \<open>C19: The scheduler refines a phase counter: unless the cycle is empty or the ceremony index is
  exhausted, progressing the phase succeeds, informs the handler of the new phase exactly once,
  and advances the count of phases by exactly one.\<close>

theorem progress_phase_ticks:
  assumes "get_cycle_duration s \<noteq> 0" and "sc_ceremony_index s + 1 < 2 ^ 32"
  shows "\<exists>s' s''. progress_phase f s w = (Inr (), s', f s'' (sc_phase s') w) \<and>
    phase_count s' = phase_count s + 1 \<and> phase_count s'' = phase_count s' \<and>
    sc_events s' = sc_events s @ [PhaseChangedTo (sc_phase s')]"
proof (cases rule: progress_phase_cases[of s f w])
  case failed
  then show ?thesis using assms(1) by simp
next
  case (changed s')
  have "phase_count s' = phase_count s + 1"
    using changed(3,4) assms(2) by (cases "sc_phase s") (simp_all add: phase_count_def saturating_add_exact)
  then show ?thesis
    using changed by (intro exI[of _ s'] exI[of _ "s'\<lparr>sc_events := sc_events s\<rparr>"]) (simp add: phase_count_def)
qed

theorem progress_phase_ticks_witness:
  "\<exists>s'. progress_phase (\<lambda>_. (#)) demo_scheduler [] = (Inr (), s', [sc_phase s']) \<and>
     phase_count s' = phase_count demo_scheduler + 1"
  using progress_phase_ticks[of demo_scheduler "\<lambda>_. (#)" "[]"] by (auto simp: demo_simps)

text \<open>The rhythm of the ceremonies is kept: after a phase change the next change lies between now
  and one cycle from now, and at the planned time up to whole cycles.\<close>

theorem progress_phase_timing:
  assumes "durations_ok s" and "ts_now s + get_cycle_duration s < 2 ^ 64"
    and "sc_next_phase_timestamp s + phase_duration s (next_phase_of (sc_phase s)) < 2 ^ 64"
    and "progress_phase f s w = (Inr (), s', w')"
  shows "ts_now s \<le> sc_next_phase_timestamp s' \<and>
    sc_next_phase_timestamp s' \<le> ts_now s + get_cycle_duration s \<and>
    sc_next_phase_timestamp s' mod get_cycle_duration s =
      (sc_next_phase_timestamp s + phase_duration s (next_phase_of (sc_phase s))) mod get_cycle_duration s"
proof -
  define s1 where "s1 = (if sc_phase s = Attesting
      then s\<lparr>sc_ceremony_index := saturating_add 32 (sc_ceremony_index s) 1\<rparr> else s)"
  let ?t = "sc_next_phase_timestamp s + phase_duration s (next_phase_of (sc_phase s))"
  have s1: "sc_phase_durations s1 = sc_phase_durations s" "ts_now s1 = ts_now s" by (simp_all add: s1_def)
  note cyc = cycle_duration_cong[OF s1(1)]
  have pd: "phase_duration s1 = phase_duration s" using s1(1) by (simp add: phase_duration_def fun_eq_iff)
  have "0 < get_cycle_duration s" using assms(1) get_cycle_duration_eq[OF assms(1)]
    by (simp add: durations_ok_def Let_def)
  then obtain t' where t': "resync_and_set_next_phase_timestamp ?t s1 = Inr (s1\<lparr>sc_next_phase_timestamp := t'\<rparr>)"
    "ts_now s \<le> t'" "t' \<le> ts_now s + get_cycle_duration s"
    "t' mod get_cycle_duration s = ?t mod get_cycle_duration s"
    using resync_spec[of s1 ?t] assms(2,3) cyc s1(2) by auto
  have "sc_next_phase_timestamp s' = t'"
    using assms(4) t'(1) saturating_add_exact[OF assms(3)]
    unfolding progress_phase_def Let_def s1_def[symmetric] pd by auto
  then show ?thesis using t' by blast
qed

theorem progress_phase_timing_witness:
  "\<exists>s' w'. progress_phase (\<lambda>_ _ w. w) demo_scheduler () = (Inr (), s', w') \<and>
     523 \<le> sc_next_phase_timestamp s' \<and> sc_next_phase_timestamp s' mod 100 = 70"
proof -
  have ok: "durations_ok demo_scheduler" "get_cycle_duration demo_scheduler = 100"
    "ts_now demo_scheduler = 523" "phase_duration demo_scheduler Registering = 70"
    "sc_phase demo_scheduler = Attesting" "sc_next_phase_timestamp demo_scheduler = 500"
    by (simp_all add: durations_ok_def demo_simps)
  obtain s' where res: "progress_phase (\<lambda>_ _ w. w) demo_scheduler () = (Inr (), s', ())"
    by (cases rule: progress_phase_cases[of demo_scheduler "\<lambda>_ _ w. w" "()"]) (use ok in auto)
  show ?thesis using progress_phase_timing[OF ok(1) _ _ res] res ok by auto
qed

lemma set_timestamp_index:
  assumes "sc_ceremony_index s < 2 ^ 32"
  shows "sc_ceremony_index s \<le> sc_ceremony_index (fst (set_timestamp f day now s w)) \<and>
    sc_ceremony_index (fst (set_timestamp f day now s w)) < 2 ^ 32"
proof -
  let ?s = "s\<lparr>ts_now := now\<rparr>"
  have "sc_ceremony_index s \<le> sc_ceremony_index (fst (snd (progress_phase f ?s w))) \<and>
      sc_ceremony_index (fst (snd (progress_phase f ?s w))) < 2 ^ 32"
    by (cases rule: progress_phase_cases[of ?s f w]) (use assms in \<open>auto simp: saturating_add_def min_def\<close>)
  moreover have "sc_ceremony_index s2 = sc_ceremony_index s1"
    if "resync_and_set_next_phase_timestamp t s1 = Inr s2" for t s1 s2
    using resync_frame[OF that] by simp
  ultimately show ?thesis
    using assms by (auto simp: set_timestamp_def scheduler_on_timestamp_set_def Let_def
        split: sum.splits prod.splits)
qed

lemma next_phase_index:
  assumes "next_phase f m s w = Inr sw" and "sc_ceremony_index s < 2 ^ 32"
  shows "sc_ceremony_index s \<le> sc_ceremony_index (fst sw) \<and> sc_ceremony_index (fst sw) < 2 ^ 32"
proof (cases rule: progress_phase_cases[of s f w])
  case failed
  then show ?thesis using assms(1)
    by (cases "progress_phase f s w") (auto simp: next_phase_def ensure_def split: if_splits)
next
  case (changed s')
  have "m" using assms(1) by (cases m) (simp_all add: next_phase_def ensure_def)
  then have "sw = (s', f (s'\<lparr>sc_events := sc_events s\<rparr>) (next_phase_of (sc_phase s)) w)"
    using assms(1) changed(2) by (simp add: next_phase_def ensure_def)
  then show ?thesis using changed(4) assms(2)
    by (simp only: fst_conv) (simp add: saturating_add_def min_def)
qed

lemma scheduler_step_index:
  assumes "scheduler_step f day sw sw'" and "sc_ceremony_index (fst sw) < 2 ^ 32"
  shows "sc_ceremony_index (fst sw) \<le> sc_ceremony_index (fst sw') \<and> sc_ceremony_index (fst sw') < 2 ^ 32"
  using assms
proof cases
  case (timestamp s now w)
  then show ?thesis using set_timestamp_index[of s] assms(2) by simp
next
  case (manual m s w)
  then show ?thesis using next_phase_index[of f m s w] assms(2) by simp
qed (auto simp: push_by_one_day_def set_phase_duration_def set_next_phase_timestamp_def ensure_def
    split: if_splits)

text \<open>The ceremony index never decreases, whatever blocks and calls the scheduler sees.\<close>

theorem ceremony_index_monotone:
  assumes "(scheduler_step f day)\<^sup>*\<^sup>* sw sw'" and "sc_ceremony_index (fst sw) < 2 ^ 32"
  shows "sc_ceremony_index (fst sw) \<le> sc_ceremony_index (fst sw') \<and> sc_ceremony_index (fst sw') < 2 ^ 32"
  using assms
proof induction
  case base
  then show ?case by simp
next
  case (step sw1 sw2)
  then show ?case using scheduler_step_index[OF step(2)] by auto
qed

theorem ceremony_index_monotone_witness:
  "\<exists>sw'. (scheduler_step (\<lambda>_ _ w. w) 86400000)\<^sup>*\<^sup>* (demo_scheduler, ()) sw' \<and> sc_phase (fst sw') = Registering \<and>
     4 \<le> sc_ceremony_index (fst sw')"
proof -
  let ?sw = "set_timestamp (\<lambda>_ _ w. w) 86400000 600 demo_scheduler ()"
  have "scheduler_step (\<lambda>_ _ w. w) 86400000 (demo_scheduler, ()) ?sw"
    by (rule scheduler_step.timestamp) (simp add: demo_simps)
  then have steps: "(scheduler_step (\<lambda>_ _ w. w) 86400000)\<^sup>*\<^sup>* (demo_scheduler, ()) ?sw" by blast
  have "sc_phase (fst ?sw) = Registering"
    by (simp add: demo_simps set_timestamp_def scheduler_on_timestamp_set_def progress_phase_def Let_def
        resync_and_set_next_phase_timestamp_def checked_div_def saturating_add_def saturating_sub_def
        saturating_mul_def)
  moreover have "sc_ceremony_index demo_scheduler = 4" by (simp add: demo_simps)
  ultimately have "sc_phase (fst ?sw) = Registering \<and> 4 \<le> sc_ceremony_index (fst ?sw)"
    using ceremony_index_monotone[OF steps] by simp
  with steps show ?thesis by blast
qed

text \<open>The first block after genesis starts the rhythm: the ceremony index becomes at least one,
  and the first phase change is planned between now and one cycle from now, in step with the start of the
  day of genesis plus the registering phase. No phase change happens and no handler is called.\<close>

theorem first_block_starts_rhythm:
  assumes "sc_next_phase_timestamp s = 0" and "durations_ok s" and "0 < day"
    and "now + phase_duration s Registering + get_cycle_duration s < 2 ^ 64"
  shows "\<exists>t. set_timestamp f day now s w =
      (s\<lparr>ts_now := now, sc_ceremony_index := max 1 (sc_ceremony_index s), sc_next_phase_timestamp := t\<rparr>, w) \<and>
    now \<le> t \<and> t \<le> now + get_cycle_duration s \<and>
    t mod get_cycle_duration s = (now div day * day + phase_duration s Registering) mod get_cycle_duration s"
proof -
  let ?s = "s\<lparr>ts_now := now, sc_ceremony_index := max 1 (sc_ceremony_index s)\<rparr>"
  let ?t = "now div day * day + phase_duration s Registering"
  have same: "get_cycle_duration ?s = get_cycle_duration s" by (rule cycle_duration_cong) simp
  have c: "0 < get_cycle_duration s" using assms(2) get_cycle_duration_eq[OF assms(2)]
    by (simp add: durations_ok_def Let_def)
  have "now div day * day \<le> now" by simp
  then have t64: "?t < 2 ^ 64" using assms(4) by linarith
  then obtain t where t: "resync_and_set_next_phase_timestamp ?t ?s = Inr (?s\<lparr>sc_next_phase_timestamp := t\<rparr>)"
    "now \<le> t" "t \<le> now + get_cycle_duration s" "t mod get_cycle_duration s = ?t mod get_cycle_duration s"
    using resync_spec[of ?s ?t] c assms(4) same by auto
  have s1: "(if sc_ceremony_index (s\<lparr>ts_now := now\<rparr>) = 0 then (s\<lparr>ts_now := now\<rparr>)\<lparr>sc_ceremony_index := 1\<rparr>
      else s\<lparr>ts_now := now\<rparr>) = ?s"
    by (auto simp: max_def)
  have "saturating_add 64 (now - now mod day) (phase_duration ?s Registering) = ?t"
    using t64 by (simp add: saturating_add_exact minus_mod_eq_div_mult phase_duration_def)
  then have "set_timestamp f day now s w = (?s\<lparr>sc_next_phase_timestamp := t\<rparr>, w)"
    unfolding set_timestamp_def scheduler_on_timestamp_set_def Let_def s1 using assms(1) t(1) by simp
  then show ?thesis using t by auto
qed

theorem first_block_starts_rhythm_witness:
  "\<exists>t. set_timestamp (\<lambda>_ _ w. w) 1000 5123
       (scheduler_genesis 0 Registering [(Registering, 70), (Assigning, 10), (Attesting, 20)]) () =
      ((scheduler_genesis 0 Registering [(Registering, 70), (Assigning, 10), (Attesting, 20)])
         \<lparr>ts_now := 5123, sc_ceremony_index := 1, sc_next_phase_timestamp := t\<rparr>, ()) \<and>
    5123 \<le> t \<and> t \<le> 5223 \<and> t mod 100 = 70"
proof -
  let ?s = "scheduler_genesis 0 Registering [(Registering, 70), (Assigning, 10), (Attesting, 20)]"
  have "get_cycle_duration ?s = 100" "durations_ok ?s" "phase_duration ?s Registering = 70"
    "sc_next_phase_timestamp ?s = 0" "sc_ceremony_index ?s = 0"
    by (simp_all add: demo_simps durations_ok_def)
  then show ?thesis using first_block_starts_rhythm[of ?s 1000 5123 "\<lambda>_ _ w. w" "()"] by auto
qed

text \<open>A failing phase change is not free of effects. With an empty cycle, every block in the
  attesting phase that finds the phase over increments the ceremony index again, while the phase stays,
  no handler is called and no event is deposited: the index is written before the resynchronisation
  that fails, and the error is only logged.\<close>

theorem failed_phase_change_leaks_index:
  assumes "get_cycle_duration s = 0" and "sc_phase s = Attesting" and "sc_ceremony_index s + 1 < 2 ^ 32"
    and "0 < sc_next_phase_timestamp s" and "sc_next_phase_timestamp s < now"
  shows "set_timestamp f day now s w =
    (s\<lparr>ts_now := now, sc_ceremony_index := sc_ceremony_index s + 1\<rparr>, w)"
proof -
  let ?s = "s\<lparr>ts_now := now\<rparr>"
  have "get_cycle_duration ?s = 0" using assms(1) cycle_duration_cong[of ?s s] by simp
  then show ?thesis
    using assms(2-5)
    by (cases rule: progress_phase_cases[of ?s f w]; cases "progress_phase f ?s w")
       (simp_all add: set_timestamp_def scheduler_on_timestamp_set_def saturating_add_exact)
qed

theorem failed_phase_change_leaks_index_witness:
  "set_timestamp (\<lambda>_ _ w. w) 1000 20 ((scheduler_genesis 4 Attesting [])\<lparr>sc_next_phase_timestamp := 10\<rparr>) () =
    ((scheduler_genesis 4 Attesting [])\<lparr>sc_next_phase_timestamp := 10, ts_now := 20, sc_ceremony_index := 5\<rparr>, ())"
proof -
  let ?s = "(scheduler_genesis 4 Attesting [])\<lparr>sc_next_phase_timestamp := 10\<rparr>"
  have "get_cycle_duration ?s = 0" "sc_phase ?s = Attesting" "sc_ceremony_index ?s = 4"
    "sc_next_phase_timestamp ?s = 10" by (simp_all add: demo_simps)
  then show ?thesis using failed_phase_change_leaks_index[of ?s 20 "\<lambda>_ _ w. w" 1000 "()"] by simp
qed

end
