(* ===== verification/Community_Types.thy ===== *)
theory Community_Types
  imports Prelude "HOL-Library.List_Lexorder" "HOL-Library.Product_Lexorder"
begin

text \<open>
  The community types of the primitives crate: \<open>primitives/src/communities.rs\<close>, \<open>common.rs\<close> and
  \<open>primitives/core/src/bs58_verify.rs\<close>. Bytes are natural numbers, a \<open>PalletString\<close> and a \<open>&str\<close> are
  lists of bytes, and a fixed-point number is the integer of its bits. The geohash, CRC and base58
  crates are parameters of the definitions that call them.
\<close>

section \<open>Strings\<close>

type_synonym bytes = "nat list"
type_synonym AccountId = nat
type_synonym BalanceType = nat
type_synonym Demurrage = int
type_synonym Degree = int

definition pallet_string :: "string \<Rightarrow> bytes" where
  "pallet_string s = map of_char s"

fun validate_ascii_from :: "nat \<Rightarrow> bytes \<Rightarrow> nat + unit" where
  "validate_ascii_from i [] = Inr ()"
| "validate_ascii_from i (c # cs) =
     (if c > 127 then Inl (as_unsigned 8 i) else validate_ascii_from (i + 1) cs)"

definition validate_ascii :: "bytes \<Rightarrow> nat + unit" where
  "validate_ascii bs = validate_ascii_from 0 bs"

datatype Bs58Error = NonAsciiCharacter nat | NonBs58Character nat

definition BITCOIN_DECODE_MAP :: "nat list" where
  "BITCOIN_DECODE_MAP =
     replicate 49 0xFF @
     [0x00, 0x01, 0x02, 0x03, 0x04, 0x05, 0x06, 0x07, 0x08, 0xFF, 0xFF,
      0xFF, 0xFF, 0xFF, 0xFF, 0xFF, 0x09, 0x0A, 0x0B, 0x0C, 0x0D, 0x0E, 0x0F, 0x10, 0xFF, 0x11,
      0x12, 0x13, 0x14, 0x15, 0xFF, 0x16, 0x17, 0x18, 0x19, 0x1A, 0x1B, 0x1C, 0x1D, 0x1E, 0x1F,
      0x20, 0xFF, 0xFF, 0xFF, 0xFF, 0xFF, 0xFF, 0x21, 0x22, 0x23, 0x24, 0x25, 0x26, 0x27, 0x28,
      0x29, 0x2A, 0x2B, 0xFF, 0x2C, 0x2D, 0x2E, 0x2F, 0x30, 0x31, 0x32, 0x33, 0x34, 0x35, 0x36,
      0x37, 0x38, 0x39, 0xFF, 0xFF, 0xFF, 0xFF, 0xFF]"

fun bs58_verify_from :: "nat \<Rightarrow> bytes \<Rightarrow> Bs58Error + unit" where
  "bs58_verify_from i [] = Inr ()"
| "bs58_verify_from i (c # cs) =
     (if c > 127 then Inl (NonAsciiCharacter (as_unsigned 8 i))
      else if BITCOIN_DECODE_MAP ! c = 0xFF then Inl (NonBs58Character (as_unsigned 8 i))
      else bs58_verify_from (i + 1) cs)"

definition bs58_verify :: "bytes \<Rightarrow> Bs58Error + unit" where
  "bs58_verify bs = bs58_verify_from 0 bs"

datatype IpfsValidationError = InvalidLength nat | InvalidBase58 Bs58Error

definition MAX_HASH_SIZE :: nat where
  "MAX_HASH_SIZE = 46"

definition validate_ipfs_cid :: "bytes \<Rightarrow> IpfsValidationError + unit" where
  "validate_ipfs_cid cid =
     (if length cid \<noteq> MAX_HASH_SIZE then Inl (InvalidLength (as_unsigned 8 (length cid)))
      else map_err InvalidBase58 (bs58_verify cid))"

section \<open>Ranges\<close>

datatype RangeError = LessThanZero | LessThanOrEqualZero | TooHigh nat

text \<open>The bits of the \<open>I64F64\<close> one.\<close>

definition fixed_one :: int where
  "fixed_one = 2 ^ 64"

definition validate_demurrage :: "Demurrage \<Rightarrow> RangeError + unit" where
  "validate_demurrage demurrage =
     (if demurrage < 0 then Inl LessThanZero
      else if demurrage > fixed_one then Inl (TooHigh 1)
      else Inr ())"

section \<open>Community identifiers and locations\<close>

datatype CommunityIdentifier = CommunityIdentifier (cid_geohash: bytes) (cid_digest: bytes)

datatype Location = Location (lat: Degree) (lon: Degree)

text \<open>The derived orders are lexicographic in the fields.\<close>

definition cid_key :: "CommunityIdentifier \<Rightarrow> bytes \<times> bytes" where
  "cid_key c = (cid_geohash c, cid_digest c)"

definition location_key :: "Location \<Rightarrow> Degree \<times> Degree" where
  "location_key l = (lat l, lon l)"

lemma cid_key_inj: "cid_key a = cid_key b \<Longrightarrow> a = b"
  by (simp add: cid_key_def CommunityIdentifier.expand)

lemma location_key_inj: "location_key a = location_key b \<Longrightarrow> a = b"
  by (simp add: location_key_def Location.expand)

instantiation CommunityIdentifier :: linorder
begin

definition less_eq_CommunityIdentifier :: "CommunityIdentifier \<Rightarrow> CommunityIdentifier \<Rightarrow> bool" where
  "less_eq_CommunityIdentifier a b \<longleftrightarrow> cid_key a \<le> cid_key b"

definition less_CommunityIdentifier :: "CommunityIdentifier \<Rightarrow> CommunityIdentifier \<Rightarrow> bool" where
  "less_CommunityIdentifier a b \<longleftrightarrow> cid_key a < cid_key b"

instance
  by standard
    (auto simp: less_eq_CommunityIdentifier_def less_CommunityIdentifier_def intro: cid_key_inj)

end

instantiation Location :: linorder
begin

definition less_eq_Location :: "Location \<Rightarrow> Location \<Rightarrow> bool" where
  "less_eq_Location a b \<longleftrightarrow> location_key a \<le> location_key b"

definition less_Location :: "Location \<Rightarrow> Location \<Rightarrow> bool" where
  "less_Location a b \<longleftrightarrow> location_key a < location_key b"

instance
  by standard
    (auto simp: less_eq_Location_def less_Location_def intro: location_key_inj)

end

datatype CommunityIdentifierError = InvalidCoordinateRange

text \<open>
  \<open>try_from_params\<close> is the geohash crate, with \<open>None\<close> for coordinates out of range; \<open>crc32\<close> is the
  big-endian digest of the CRC engine and \<open>encode\<close> the SCALE encoding of the bootstrappers.
\<close>

definition cid_new ::
  "(Degree \<Rightarrow> Degree \<Rightarrow> bytes option) \<Rightarrow> (bytes \<Rightarrow> bytes) \<Rightarrow> (AccountId list \<Rightarrow> bytes) \<Rightarrow>
   Location \<Rightarrow> AccountId list \<Rightarrow> CommunityIdentifierError + CommunityIdentifier" where
  "cid_new try_from_params crc32 encode location bootstrappers =
     (case try_from_params (lat location) (lon location) of
        Some v \<Rightarrow> Inr (CommunityIdentifier (take 5 v) (crc32 (encode bootstrappers)))
      | None \<Rightarrow> Inl InvalidCoordinateRange)"

definition as_array :: "CommunityIdentifier \<Rightarrow> bytes" where
  "as_array cid = cid_geohash cid @ cid_digest cid"

text \<open>UTF-8 validity as \<open>str::from_utf8\<close> checks it.\<close>

definition utf8_cont :: "nat \<Rightarrow> bool" where
  "utf8_cont b \<longleftrightarrow> 0x80 \<le> b \<and> b \<le> 0xBF"

fun utf8_valid :: "bytes \<Rightarrow> bool" where
  "utf8_valid [] = True"
| "utf8_valid (a # bs) =
     (if a < 0x80 then utf8_valid bs
      else if 0xC2 \<le> a \<and> a \<le> 0xDF then
        (case bs of b # rest \<Rightarrow> utf8_cont b \<and> utf8_valid rest | _ \<Rightarrow> False)
      else if 0xE0 \<le> a \<and> a \<le> 0xEF then
        (case bs of
           b # c # rest \<Rightarrow>
             utf8_cont b \<and> (a = 0xE0 \<longrightarrow> 0xA0 \<le> b) \<and> (a = 0xED \<longrightarrow> b \<le> 0x9F) \<and>
             utf8_cont c \<and> utf8_valid rest
         | _ \<Rightarrow> False)
      else if 0xF0 \<le> a \<and> a \<le> 0xF4 then
        (case bs of
           b # c # d # rest \<Rightarrow>
             utf8_cont b \<and> (a = 0xF0 \<longrightarrow> 0x90 \<le> b) \<and> (a = 0xF4 \<longrightarrow> b \<le> 0x8F) \<and>
             utf8_cont c \<and> utf8_cont d \<and> utf8_valid rest
         | _ \<Rightarrow> False)
      else False)"

definition cid_fmt :: "(bytes \<Rightarrow> bytes) \<Rightarrow> CommunityIdentifier \<Rightarrow> bytes option" where
  "cid_fmt bs58_encode cid =
     (if utf8_valid (cid_geohash cid) then Some (cid_geohash cid @ bs58_encode (cid_digest cid)) else None)"

datatype bs58_decode_error = InvalidCharacter nat nat | OtherDecodeError nat

definition decorate_bs58_err :: "bs58_decode_error \<Rightarrow> bs58_decode_error" where
  "decorate_bs58_err err =
     (case err of
        InvalidCharacter character index \<Rightarrow> InvalidCharacter character (index + 5)
      | err \<Rightarrow> err)"

text \<open>
  \<open>None\<close> is a panic: a string that is too short or has no character boundary after five bytes, or
  a digest that is not four bytes long.
\<close>

definition cid_from_str ::
  "(bytes \<Rightarrow> bs58_decode_error + bytes) \<Rightarrow> bytes \<Rightarrow> (bs58_decode_error + CommunityIdentifier) option" where
  "cid_from_str bs58_decode cid =
     (if length cid < 5 then None
      else if length cid > 5 \<and> utf8_cont (cid ! 5) then None
      else
        (case bs58_decode (drop 5 cid) of
           Inl e \<Rightarrow> Some (Inl (decorate_bs58_err e))
         | Inr digest \<Rightarrow>
             if length digest \<noteq> 4 then None
             else Some (Inr (CommunityIdentifier (take 5 cid) digest))))"

section \<open>Metadata\<close>

datatype AnnouncementSigner = Bip340 bytes

datatype CommunityRules = LoCo | LoCoFlex | BeeDance

record CommunityMetadata =
  md_name :: bytes
  md_symbol :: bytes
  md_assets :: bytes
  md_theme :: "bytes option"
  md_url :: "bytes option"
  md_announcement_signer :: "AnnouncementSigner option"
  md_rules :: CommunityRules

record CidName =
  cn_cid :: CommunityIdentifier
  cn_name :: bytes

datatype CommunityMetadataError =
    InvalidAscii nat
  | InvalidIpfsCid IpfsValidationError
  | TooManyCharactersInName nat
  | InvalidAmountCharactersInSymbol nat
  | TooManyCharactersInUrl nat

definition validate_url :: "bytes \<Rightarrow> CommunityMetadataError + unit" where
  "validate_url u =
     bind_res (map_err InvalidAscii (validate_ascii u)) (\<lambda>_.
     if length u \<ge> 20 then Inl (TooManyCharactersInUrl (as_unsigned 8 (length u))) else Inr ())"

definition metadata_validate :: "CommunityMetadata \<Rightarrow> CommunityMetadataError + unit" where
  "metadata_validate m =
     bind_res (map_err InvalidAscii (validate_ascii (md_name m))) (\<lambda>_.
     bind_res (map_err InvalidAscii (validate_ascii (md_symbol m))) (\<lambda>_.
     bind_res (map_err InvalidIpfsCid (validate_ipfs_cid (md_assets m))) (\<lambda>_.
     if length (md_name m) > 20 then Inl (TooManyCharactersInName (as_unsigned 8 (length (md_name m))))
     else if length (md_symbol m) \<noteq> 3
     then Inl (InvalidAmountCharactersInSymbol (as_unsigned 8 (length (md_symbol m))))
     else
       bind_res (case md_url m of Some u \<Rightarrow> validate_url u | None \<Rightarrow> Inr ()) (\<lambda>_.
       bind_res (case md_theme m of
                   Some t \<Rightarrow> map_err InvalidIpfsCid (validate_ipfs_cid t)
                 | None \<Rightarrow> Inr ()) (\<lambda>_. Inr ())))))"

definition metadata_new ::
  "bytes \<Rightarrow> bytes \<Rightarrow> bytes \<Rightarrow> bytes option \<Rightarrow> bytes option \<Rightarrow> AnnouncementSigner option \<Rightarrow> CommunityRules \<Rightarrow>
   CommunityMetadataError + CommunityMetadata" where
  "metadata_new name symbol assets theme url announcement_signer rules =
     (let meta = \<lparr>md_name = name, md_symbol = symbol, md_assets = assets, md_theme = theme,
                  md_url = url, md_announcement_signer = announcement_signer, md_rules = rules\<rparr>
      in case metadata_validate meta of Inr _ \<Rightarrow> Inr meta | Inl e \<Rightarrow> Inl e)"

definition default_metadata :: CommunityMetadata where
  "default_metadata =
     \<lparr>md_name = pallet_string ''Default'', md_symbol = pallet_string ''DEF'',
      md_assets = pallet_string ''Defau1tCidThat1s46Characters1nLength1111111111'',
      md_theme = None, md_url = Some (pallet_string ''DefaultUrl''),
      md_announcement_signer = None, md_rules = LoCo\<rparr>"

section \<open>Geographic constants\<close>

definition MAX_ABS_LATITUDE :: Degree where "MAX_ABS_LATITUDE = 78 * 2 ^ 64"
definition DATELINE_DISTANCE_M :: nat where "DATELINE_DISTANCE_M = 1000000"
definition NORTH_POLE :: Location where "NORTH_POLE = Location (90 * 2 ^ 64) 0"
definition SOUTH_POLE :: Location where "SOUTH_POLE = Location (- 90 * 2 ^ 64) 0"
definition DATELINE_LON :: Degree where "DATELINE_LON = 180 * 2 ^ 64"

section \<open>Lemmas\<close>

definition is_ascii :: "bytes \<Rightarrow> bool" where
  "is_ascii bs \<longleftrightarrow> (\<forall>b\<in>set bs. b \<le> 127)"

lemma validate_ascii_from_ok: "validate_ascii_from i bs = Inr () \<longleftrightarrow> is_ascii bs"
  by (induction i bs rule: validate_ascii_from.induct) (auto simp: is_ascii_def)

lemma validate_ascii_ok: "validate_ascii bs = Inr () \<longleftrightarrow> is_ascii bs"
  by (simp add: validate_ascii_def validate_ascii_from_ok)

definition BITCOIN_ALPHABET :: bytes where
  "BITCOIN_ALPHABET = pallet_string ''123456789ABCDEFGHJKLMNPQRSTUVWXYZabcdefghijkmnopqrstuvwxyz''"

lemma decode_map_alphabet_list:
  "map fst (filter (\<lambda>(c, v). v \<noteq> 0xFF) (enumerate 0 BITCOIN_DECODE_MAP)) = BITCOIN_ALPHABET"
  by code_simp

lemma decode_map_length: "length BITCOIN_DECODE_MAP = 128"
  by (simp add: BITCOIN_DECODE_MAP_def)

lemma alphabet_iff: "c \<in> set BITCOIN_ALPHABET \<longleftrightarrow> c < 128 \<and> BITCOIN_DECODE_MAP ! c \<noteq> 0xFF"
  unfolding decode_map_alphabet_list[symmetric] decode_map_length[symmetric]
  by (force simp: in_set_enumerate_eq)

definition bs58_prefix :: "bytes \<Rightarrow> nat" where
  "bs58_prefix bs = length (takeWhile (\<lambda>c. c \<in> set BITCOIN_ALPHABET) bs)"

lemma bs58_verify_from_first:
  "bs58_verify_from i bs =
     (if bs58_prefix bs = length bs then Inr ()
      else Inl ((if bs ! bs58_prefix bs > 127 then NonAsciiCharacter else NonBs58Character)
                  (as_unsigned 8 (i + bs58_prefix bs))))"
  by (induction i bs rule: bs58_verify_from.induct) (auto simp: bs58_prefix_def alphabet_iff)

lemma bs58_verify_ok: "bs58_verify bs = Inr () \<longleftrightarrow> set bs \<subseteq> set BITCOIN_ALPHABET"
proof -
  have "bs58_prefix bs = length bs \<longleftrightarrow> set bs \<subseteq> set BITCOIN_ALPHABET"
    unfolding bs58_prefix_def by (induction bs) auto
  then show ?thesis by (simp add: bs58_verify_def bs58_verify_from_first)
qed

lemma validate_ipfs_cid_ok:
  "validate_ipfs_cid cid = Inr () \<longleftrightarrow> length cid = 46 \<and> set cid \<subseteq> set BITCOIN_ALPHABET"
  by (auto simp: validate_ipfs_cid_def MAX_HASH_SIZE_def map_err_Inr bs58_verify_ok)

lemma unit_bind: "bind_res r (\<lambda>_. k) = Inr x \<longleftrightarrow> r = Inr () \<and> k = Inr x" for r :: "'e + unit"
  by (auto simp: bind_res_def split: sum.splits)

lemma unit_bind_Inr: "bind_res r Inr = r"
  by (simp add: bind_res_def split: sum.splits)

section \<open>Properties\<close>

text \<open>The base58 check is right: the decode table accepts exactly the bytes of the Bitcoin
  alphabet, so verification succeeds exactly on strings over that alphabet, and otherwise the
  error names the position of the first byte outside of it and tells non-ASCII bytes apart.\<close>

theorem bs58_verify_correct:
  "bs58_verify bs =
     (let k = length (takeWhile (\<lambda>c. c \<in> set BITCOIN_ALPHABET) bs) in
      if k = length bs then Inr ()
      else Inl ((if bs ! k > 127 then NonAsciiCharacter else NonBs58Character) (as_unsigned 8 k)))"
  by (simp add: bs58_verify_def bs58_verify_from_first bs58_prefix_def Let_def)

text \<open>What community metadata is accepted: ASCII name of at most 20 characters, ASCII symbol of
  exactly three, an asset hash and an optional theme hash of 46 base58 characters, and an optional
  ASCII link of fewer than 20 characters.\<close>

theorem metadata_valid_iff:
  "metadata_validate m = Inr () \<longleftrightarrow>
     is_ascii (md_name m) \<and> length (md_name m) \<le> 20 \<and>
     is_ascii (md_symbol m) \<and> length (md_symbol m) = 3 \<and>
     length (md_assets m) = 46 \<and> set (md_assets m) \<subseteq> set BITCOIN_ALPHABET \<and>
     pred_option (\<lambda>u. is_ascii u \<and> length u < 20) (md_url m) \<and>
     pred_option (\<lambda>t. length t = 46 \<and> set t \<subseteq> set BITCOIN_ALPHABET) (md_theme m)"
  unfolding metadata_validate_def validate_url_def
  by (cases "md_url m"; cases "md_theme m")
     (auto simp: unit_bind unit_bind_Inr map_err_Inr validate_ascii_ok validate_ipfs_cid_ok split: if_splits)

text \<open>C39: A community identifier survives printing and parsing, for every base58 codec that prints
  ASCII and decodes what it encoded.\<close>

theorem cid_roundtrip:
  assumes "\<And>d. bs58_decode (bs58_encode d) = Inr d" and "\<And>d. is_ascii (bs58_encode d)"
    and "length (cid_geohash cid) = 5" and "length (cid_digest cid) = 4" and "utf8_valid (cid_geohash cid)"
  shows "\<exists>s. cid_fmt bs58_encode cid = Some s \<and> cid_from_str bs58_decode s = Some (Inr cid)"
proof -
  let ?e = "bs58_encode (cid_digest cid)"
  have "\<not> utf8_cont ((cid_geohash cid @ ?e) ! 5)" if "?e \<noteq> []"
  proof -
    have "(cid_geohash cid @ ?e) ! 5 = ?e ! 0" using assms(3) by (simp add: nth_append)
    moreover have "?e ! 0 \<in> set ?e" using that by simp
    moreover have "\<forall>b\<in>set ?e. b \<le> 127" using assms(2)[of "cid_digest cid"] by (simp add: is_ascii_def)
    ultimately show ?thesis by (fastforce simp: utf8_cont_def)
  qed
  then have "cid_from_str bs58_decode (cid_geohash cid @ ?e) = Some (Inr cid)"
    using assms by (auto simp: cid_from_str_def)
  then show ?thesis using assms(5) by (simp add: cid_fmt_def)
qed

text \<open>A codec in unary digits, to show that the hypotheses can hold.\<close>

definition unary_encode :: "bytes \<Rightarrow> bytes" where
  "unary_encode d = concat (map (\<lambda>b. replicate b 49 @ [50]) d)"

fun unary_decode :: "nat \<Rightarrow> bytes \<Rightarrow> bytes" where
  "unary_decode n [] = []"
| "unary_decode n (c # cs) = (if c = 49 then unary_decode (n + 1) cs else n # unary_decode 0 cs)"

lemma unary_decode_ones: "unary_decode n (replicate b 49 @ 50 # cs) = (n + b) # unary_decode 0 cs"
  by (induction b arbitrary: n) auto

lemma unary_roundtrip: "unary_decode 0 (unary_encode d) = d"
  by (induction d) (auto simp: unary_encode_def unary_decode_ones)

theorem cid_roundtrip_witness:
  "\<exists>s. cid_fmt unary_encode (CommunityIdentifier (pallet_string ''gbsuv'') [255, 255, 255, 255]) = Some s \<and>
     cid_from_str (\<lambda>s. Inr (unary_decode 0 s)) s =
       Some (Inr (CommunityIdentifier (pallet_string ''gbsuv'') [255, 255, 255, 255]))"
proof (rule cid_roundtrip)
  show "is_ascii (unary_encode d)" for d by (auto simp: is_ascii_def unary_encode_def)
qed (simp_all add: unary_roundtrip pallet_string_def)

end
