(* ===== verification/Ceremony_Types.thy ===== *)
theory Ceremony_Types
  imports Assignment Scheduler Community_Types
begin

text \<open>
  The data of the ceremonies, \<open>primitives/src/ceremonies.rs\<close>: reputations, participant types, the
  signed proofs and claims of attendance, the result of an assignment and the answers of the runtime
  API. The SCALE encoding and the signature scheme are parameters: \<open>encode\<close> gives the bytes of a
  tuple, \<open>verify\<close> checks a signature of bytes against an account, \<open>sign\<close> signs with a key pair.
\<close>

section \<open>Definitions\<close>

type_synonym CommunityCeremony = "CommunityIdentifier \<times> nat"

datatype Reputation = Unverified | UnverifiedReputable | VerifiedUnlinked | VerifiedLinked nat

fun is_verified :: "Reputation \<Rightarrow> bool" where
  "is_verified (VerifiedLinked _) = True"
| "is_verified VerifiedUnlinked = True"
| "is_verified _ = False"

fun is_verified_and_unlinked_for_cindex :: "Reputation \<Rightarrow> nat \<Rightarrow> bool" where
  "is_verified_and_unlinked_for_cindex VerifiedUnlinked cindex = True"
| "is_verified_and_unlinked_for_cindex (VerifiedLinked c) cindex = (c \<noteq> cindex)"
| "is_verified_and_unlinked_for_cindex _ cindex = False"

datatype ParticipantType = Bootstrapper | Reputable | Endorsee | Newbie

subsection \<open>Claims and proofs\<close>

type_synonym ('m, 'sig) verifier = "'sig \<Rightarrow> bytes \<Rightarrow> 'm \<Rightarrow> bool"

record 'sig ClaimOfAttendance =
  claimant_public :: AccountId
  claim_ceremony_index :: nat
  claim_community_identifier :: CommunityIdentifier
  claim_meetup_index :: nat
  claim_location :: Location
  claim_timestamp :: nat
  number_of_participants_confirmed :: nat
  claimant_signature :: "'sig option"

definition new_unsigned ::
  "AccountId \<Rightarrow> nat \<Rightarrow> CommunityIdentifier \<Rightarrow> nat \<Rightarrow> Location \<Rightarrow> nat \<Rightarrow> nat \<Rightarrow> 'sig ClaimOfAttendance" where
  "new_unsigned claimant cindex cid meetup_idx location timestamp n =
     \<lparr>claimant_public = claimant, claim_ceremony_index = cindex, claim_community_identifier = cid,
      claim_meetup_index = meetup_idx, claim_location = location, claim_timestamp = timestamp,
      number_of_participants_confirmed = n, claimant_signature = None\<rparr>"

definition new_signed ::
  "AccountId \<Rightarrow> nat \<Rightarrow> CommunityIdentifier \<Rightarrow> nat \<Rightarrow> Location \<Rightarrow> nat \<Rightarrow> nat \<Rightarrow> 'sig \<Rightarrow> 'sig ClaimOfAttendance" where
  "new_signed claimant cindex cid meetup_idx location timestamp n signature =
     \<lparr>claimant_public = claimant, claim_ceremony_index = cindex, claim_community_identifier = cid,
      claim_meetup_index = meetup_idx, claim_location = location, claim_timestamp = timestamp,
      number_of_participants_confirmed = n, claimant_signature = Some signature\<rparr>"

definition set_claimant :: "AccountId \<Rightarrow> 'sig ClaimOfAttendance \<Rightarrow> 'sig ClaimOfAttendance" where
  "set_claimant claimant claim = claim\<lparr>claimant_public := claimant\<rparr>"

definition set_participant_count :: "nat \<Rightarrow> 'sig ClaimOfAttendance \<Rightarrow> 'sig ClaimOfAttendance" where
  "set_participant_count n claim = claim\<lparr>number_of_participants_confirmed := n\<rparr>"

type_synonym claim_payload = "AccountId \<times> nat \<times> CommunityIdentifier \<times> nat \<times> Location \<times> nat \<times> nat"

definition payload_encoded :: "(claim_payload \<Rightarrow> bytes) \<Rightarrow> 'sig ClaimOfAttendance \<Rightarrow> bytes" where
  "payload_encoded encode claim =
     encode (claimant_public claim, claim_ceremony_index claim, claim_community_identifier claim,
       claim_meetup_index claim, claim_location claim, claim_timestamp claim,
       number_of_participants_confirmed claim)"

definition claim_sign ::
  "(claim_payload \<Rightarrow> bytes) \<Rightarrow> ('k \<Rightarrow> bytes \<Rightarrow> 'sig) \<Rightarrow> 'k \<Rightarrow> 'sig ClaimOfAttendance \<Rightarrow> 'sig ClaimOfAttendance" where
  "claim_sign encode sign pair claim = claim\<lparr>claimant_signature := Some (sign pair (payload_encoded encode claim))\<rparr>"

definition claim_verify_signature ::
  "(claim_payload \<Rightarrow> bytes) \<Rightarrow> (AccountId, 'sig) verifier \<Rightarrow> 'sig ClaimOfAttendance \<Rightarrow> bool" where
  "claim_verify_signature encode verify claim =
     (case claimant_signature claim of
        Some sig \<Rightarrow> verify sig (payload_encoded encode claim) (claimant_public claim)
      | None \<Rightarrow> False)"

record CommunityReputation =
  cr_community_identifier :: CommunityIdentifier
  cr_reputation :: Reputation

record 'sig ProofOfAttendance =
  prover_public :: AccountId
  pa_ceremony_index :: nat
  pa_community_identifier :: CommunityIdentifier
  attendee_public :: AccountId
  attendee_signature :: 'sig

definition proof_verify_signature ::
  "(AccountId \<times> nat \<Rightarrow> bytes) \<Rightarrow> (AccountId, 'sig) verifier \<Rightarrow> 'sig ProofOfAttendance \<Rightarrow> bool" where
  "proof_verify_signature encode verify p =
     verify (attendee_signature p) (encode (prover_public p, pa_ceremony_index p)) (attendee_public p)"

definition proof_signed ::
  "(AccountId \<times> nat \<Rightarrow> bytes) \<Rightarrow> ('k \<Rightarrow> bytes \<Rightarrow> 'sig) \<Rightarrow> ('k \<Rightarrow> AccountId) \<Rightarrow>
   AccountId \<Rightarrow> CommunityIdentifier \<Rightarrow> nat \<Rightarrow> 'k \<Rightarrow> 'sig ProofOfAttendance" where
  "proof_signed encode sign public prover cid cindex attendee =
     \<lparr>prover_public = prover, pa_ceremony_index = cindex, pa_community_identifier = cid,
      attendee_public = public attendee, attendee_signature = sign attendee (encode (prover, cindex))\<rparr>"

subsection \<open>Assignments\<close>

record AssignmentCount =
  ac_bootstrappers :: nat
  ac_reputables :: nat
  ac_endorsees :: nat
  ac_newbies :: nat

definition get_number_of_participants :: "AssignmentCount \<Rightarrow> nat" where
  "get_number_of_participants c =
     wrapping_add 64 (wrapping_add 64 (wrapping_add 64 (ac_bootstrappers c) (ac_reputables c)) (ac_endorsees c))
       (ac_newbies c)"

record Assignment =
  as_bootstrappers_reputables :: AssignmentParams
  as_endorsees :: AssignmentParams
  as_newbies :: AssignmentParams
  as_locations :: AssignmentParams

definition default_params :: AssignmentParams where
  "default_params = \<lparr>ap_m = 0, ap_s1 = 0, ap_s2 = 0\<rparr>"

definition default_count :: AssignmentCount where
  "default_count = \<lparr>ac_bootstrappers = 0, ac_reputables = 0, ac_endorsees = 0, ac_newbies = 0\<rparr>"

definition default_assignment :: Assignment where
  "default_assignment =
     \<lparr>as_bootstrappers_reputables = default_params, as_endorsees = default_params,
      as_newbies = default_params, as_locations = default_params\<rparr>"

datatype MeetupResult = Ok | MeetupVotesNotDependable | MeetupIndexOutOfBounds

subsection \<open>Answers of the runtime API\<close>

record AggregatedAccountDataPersonal =
  ad_participant_type :: ParticipantType
  ad_meetup_index :: "nat option"
  ad_meetup_location_index :: "nat option"
  ad_meetup_time :: "nat option"
  ad_meetup_registry :: "AccountId list option"

record CeremonyInfo =
  ci_ceremony_phase :: CeremonyPhaseType
  ci_ceremony_index :: nat

record AggregatedAccountData =
  ad_global :: CeremonyInfo
  ad_personal :: "AggregatedAccountDataPersonal option"

section \<open>Signatures\<close>

text \<open>
  What the signature scheme promises: a signature made with a key pair verifies against the account of
  that pair.
\<close>

definition honest_scheme :: "('k \<Rightarrow> bytes \<Rightarrow> 'sig) \<Rightarrow> ('k \<Rightarrow> AccountId) \<Rightarrow> (AccountId, 'sig) verifier \<Rightarrow> bool" where
  "honest_scheme sign public verify \<longleftrightarrow> (\<forall>k m. verify (sign k m) m (public k))"

lemma claim_round:
  "honest_scheme sign public verify \<Longrightarrow>
   claim_verify_signature encode verify (claim_sign encode sign k (set_claimant (public k) claim))"
  by (simp add: honest_scheme_def claim_verify_signature_def claim_sign_def set_claimant_def payload_encoded_def)

lemma proof_round:
  "honest_scheme sign public verify \<Longrightarrow>
   proof_verify_signature encode verify (proof_signed encode sign public prover cid cindex k)"
  by (simp add: honest_scheme_def proof_verify_signature_def proof_signed_def)

lemma is_verified_iff: "is_verified r \<longleftrightarrow> r = VerifiedUnlinked \<or> (\<exists>c. r = VerifiedLinked c)"
  by (cases r) simp_all

lemma verified_and_unlinked_iff:
  "is_verified_and_unlinked_for_cindex r cindex \<longleftrightarrow> is_verified r \<and> r \<noteq> VerifiedLinked cindex"
  by (cases r) auto

lemma number_of_participants_exact:
  assumes "ac_bootstrappers c + ac_reputables c + ac_endorsees c + ac_newbies c < 2 ^ 64"
  shows "get_number_of_participants c = ac_bootstrappers c + ac_reputables c + ac_endorsees c + ac_newbies c"
  using assms by (simp add: get_number_of_participants_def wrapping_add_exact)

end
