(* ===== verification/Registry.thy ===== *)
theory Registry
  imports Ceremony_Types
begin

text \<open>
  The participant registries of the ceremonies pallet. For each type of participant the pallet keeps
  three storage items, \<open>...Registry\<close>, \<open>...Index\<close> and \<open>...Count\<close>, which together number the registered
  accounts of a community's ceremony from one without gaps; they are one record here. Adding is the
  block that \<open>register\<close> in \<open>ceremonies/src/lib.rs\<close> repeats per type, removing is
  \<open>ceremonies/src/storage_helper.rs\<close>. The locale \<open>indexed_registry\<close> says what the pallet relies on.
\<close>

section \<open>Definitions\<close>

record registry =
  rg_registry :: "CommunityCeremony \<Rightarrow> nat \<Rightarrow> AccountId option"
  rg_index :: "CommunityCeremony \<Rightarrow> AccountId \<Rightarrow> nat option"
  rg_count :: "CommunityCeremony \<Rightarrow> nat option"

definition empty_registry :: registry where
  "empty_registry = \<lparr>rg_registry = (\<lambda>_. Map.empty), rg_index = (\<lambda>_. Map.empty), rg_count = Map.empty\<rparr>"

definition registry_count :: "registry \<Rightarrow> CommunityCeremony \<Rightarrow> nat" where
  "registry_count r cc = value_query 0 (rg_count r cc)"

definition registry_has :: "registry \<Rightarrow> CommunityCeremony \<Rightarrow> AccountId \<Rightarrow> bool" where
  "registry_has r cc a = contains (rg_index r cc a)"

definition registry_add :: "CommunityCeremony \<Rightarrow> AccountId \<Rightarrow> registry \<Rightarrow> registry option" where
  "registry_add cc sender r =
     Option.bind (checked_add 64 (registry_count r cc) 1) (\<lambda>participant_index.
     Some (r\<lparr>rg_registry := dm_insert cc participant_index sender (rg_registry r),
             rg_index := dm_insert cc sender participant_index (rg_index r),
             rg_count := (rg_count r)(cc \<mapsto> participant_index)\<rparr>))"

definition registry_remove :: "CommunityCeremony \<Rightarrow> AccountId \<Rightarrow> registry \<Rightarrow> registry" where
  "registry_remove cc participant r =
     (let participant_count = registry_count r cc;
          participant_index = value_query 0 (rg_index r cc participant)
      in case rg_registry r cc participant_count of
           None \<Rightarrow> r
         | Some last_participant \<Rightarrow>
             r\<lparr>rg_registry := dm_remove cc participant_count
                  (dm_insert cc participant_index last_participant (rg_registry r)),
               rg_index := dm_remove cc participant
                  (dm_insert cc last_participant participant_index (rg_index r)),
               rg_count := (rg_count r)(cc \<mapsto> saturating_sub participant_count 1)\<rparr>)"

text \<open>The three \<open>remove\<close>s of a registry when a ceremony is purged.\<close>

definition registry_purge :: "CommunityCeremony \<Rightarrow> registry \<Rightarrow> registry" where
  "registry_purge cc r =
     r\<lparr>rg_registry := dm_remove_prefix cc (rg_registry r),
       rg_index := dm_remove_prefix cc (rg_index r),
       rg_count := (rg_count r)(cc := None)\<rparr>"

section \<open>The interface\<close>

text \<open>
  The accounts registered for a ceremony, \<open>members\<close>, are a list without repetition that grows at its
  end; removing an account keeps the others, though not their order; ceremonies do not affect each
  other.
\<close>

locale indexed_registry =
  fixes empty :: 'r
    and add :: "'cc \<Rightarrow> 'a \<Rightarrow> 'r \<Rightarrow> 'r option"
    and remove :: "'cc \<Rightarrow> 'a \<Rightarrow> 'r \<Rightarrow> 'r"
    and purge :: "'cc \<Rightarrow> 'r \<Rightarrow> 'r"
    and has :: "'r \<Rightarrow> 'cc \<Rightarrow> 'a \<Rightarrow> bool"
    and members :: "'r \<Rightarrow> 'cc \<Rightarrow> 'a list"
    and invar :: "'r \<Rightarrow> bool"
  assumes empty_invar: "invar empty"
    and empty_members: "members empty cc = []"
    and distinct_members: "invar r \<Longrightarrow> distinct (members r cc)"
    and has_members: "invar r \<Longrightarrow> has r cc a \<longleftrightarrow> a \<in> set (members r cc)"
    and add_invar: "invar r \<Longrightarrow> \<not> has r cc a \<Longrightarrow> add cc a r = Some r' \<Longrightarrow> invar r'"
    and add_members: "invar r \<Longrightarrow> add cc a r = Some r' \<Longrightarrow>
      members r' cc' = (if cc' = cc then members r cc @ [a] else members r cc')"
    and remove_invar: "invar r \<Longrightarrow> has r cc a \<Longrightarrow> invar (remove cc a r)"
    and remove_members: "invar r \<Longrightarrow> has r cc a \<Longrightarrow> mset (members (remove cc a r) cc) = mset (members r cc) - {#a#}"
    and remove_other: "invar r \<Longrightarrow> has r cc a \<Longrightarrow> cc' \<noteq> cc \<Longrightarrow> members (remove cc a r) cc' = members r cc'"
    and purge_invar: "invar r \<Longrightarrow> invar (purge cc r)"
    and purge_members: "members (purge cc r) cc' = (if cc' = cc then [] else members r cc')"
begin

lemma has_add:
  assumes "invar r" and "\<not> has r cc a" and "add cc a r = Some r'"
  shows "has r' cc' b \<longleftrightarrow> (cc' = cc \<and> b = a) \<or> has r cc' b"
  using has_members[OF add_invar[OF assms]] has_members[OF assms(1)] add_members[OF assms(1,3)] by auto

lemma set_remove:
  assumes "invar r" and "has r cc a"
  shows "set (members (remove cc a r) cc) = set (members r cc) - {a}"
proof -
  have "mset (members (remove cc a r) cc) = mset (remove1 a (members r cc))"
    by (simp add: remove_members[OF assms] mset_remove1)
  then have "set (members (remove cc a r) cc) = set (remove1 a (members r cc))" by (rule mset_eq_setD)
  then show ?thesis using distinct_members[OF assms(1), of cc] by (simp add: set_remove1_eq)
qed

lemma has_remove:
  assumes "invar r" and "has r cc a"
  shows "has (remove cc a r) cc' b \<longleftrightarrow> (cc' \<noteq> cc \<or> b \<noteq> a) \<and> has r cc' b"
  using has_members[OF remove_invar[OF assms]] has_members[OF assms(1)] set_remove[OF assms] remove_other[OF assms]
  by (cases "cc' = cc") auto

lemma has_purge:
  assumes "invar r"
  shows "has (purge cc r) cc' b \<longleftrightarrow> cc' \<noteq> cc \<and> has r cc' b"
  using has_members[OF purge_invar[OF assms]] has_members[OF assms] purge_members by auto

lemma add_then_remove:
  assumes "invar r" and "\<not> has r cc a" and "add cc a r = Some r'"
  shows "mset (members (remove cc a r') cc) = mset (members r cc)"
  using remove_members[OF add_invar[OF assms]] has_add[OF assms] add_members[OF assms(1,3)] by simp

lemma size_remove:
  assumes "invar r" and "has r cc a"
  shows "length (members (remove cc a r) cc) = length (members r cc) - 1"
proof -
  have "size (mset (members (remove cc a r) cc)) = size (mset (members r cc) - {#a#})"
    by (simp add: remove_members[OF assms])
  then show ?thesis using has_members[OF assms(1)] assms(2) by (simp add: size_Diff_singleton)
qed

end

section \<open>The registries of the pallet\<close>

text \<open>
  The positions in use are exactly those from one to the count, and the two maps are inverse to each
  other.
\<close>

definition registry_ok_at :: "registry \<Rightarrow> CommunityCeremony \<Rightarrow> bool" where
  "registry_ok_at r cc \<longleftrightarrow>
     registry_count r cc < 2 ^ 64 \<and>
     (\<forall>i. rg_registry r cc i \<noteq> None \<longleftrightarrow> 1 \<le> i \<and> i \<le> registry_count r cc) \<and>
     (\<forall>a i. rg_index r cc a = Some i \<longleftrightarrow> rg_registry r cc i = Some a)"

definition registry_ok :: "registry \<Rightarrow> bool" where
  "registry_ok r \<longleftrightarrow> All (registry_ok_at r)"

lemma registry_okD:
  assumes "registry_ok r"
  shows "registry_count r cc < 2 ^ 64" and "rg_registry r cc i \<noteq> None \<longleftrightarrow> 1 \<le> i \<and> i \<le> registry_count r cc"
    and "rg_index r cc a = Some i \<longleftrightarrow> rg_registry r cc i = Some a"
  using spec[OF assms[unfolded registry_ok_def], of cc] unfolding registry_ok_at_def by blast+

lemma registry_okI: "(\<And>cc. registry_ok_at r cc) \<Longrightarrow> registry_ok r"
  unfolding registry_ok_def by blast

lemma registry_ok_at_cong:
  assumes "registry_ok r" and "rg_registry r' cc = rg_registry r cc" and "rg_index r' cc = rg_index r cc"
    and "rg_count r' cc = rg_count r cc"
  shows "registry_ok_at r' cc"
proof -
  have "registry_ok_at r cc" using assms(1) unfolding registry_ok_def by blast
  then show ?thesis using assms(2-) unfolding registry_ok_at_def registry_count_def by simp
qed

definition registered :: "registry \<Rightarrow> CommunityCeremony \<Rightarrow> AccountId list" where
  "registered r cc = map (\<lambda>i. the (rg_registry r cc (i + 1))) [0..<registry_count r cc]"

lemma length_registered [simp]: "length (registered r cc) = registry_count r cc"
  by (simp add: registered_def)

lemma registry_lookup:
  assumes "registry_ok r"
  shows "rg_registry r cc i = Some a \<longleftrightarrow> 1 \<le> i \<and> i \<le> registry_count r cc \<and> a = registered r cc ! (i - 1)"
proof -
  have "rg_registry r cc i \<noteq> None \<longleftrightarrow> 1 \<le> i \<and> i \<le> registry_count r cc"
    by (rule registry_okD(2)[OF assms])
  then show ?thesis by (cases "rg_registry r cc i") (auto simp: registered_def)
qed

lemma index_lookup:
  assumes "registry_ok r"
  shows "rg_index r cc a = Some i \<longleftrightarrow> 1 \<le> i \<and> i \<le> registry_count r cc \<and> a = registered r cc ! (i - 1)"
  using registry_lookup[OF assms] registry_okD(3)[OF assms] by simp

lemma registered_distinct:
  assumes "registry_ok r"
  shows "distinct (registered r cc)"
proof -
  have "i = j" if "i < registry_count r cc" "j < registry_count r cc" "registered r cc ! i = registered r cc ! j" for i j
    using index_lookup[OF assms, of cc "registered r cc ! i" "Suc i"]
      index_lookup[OF assms, of cc "registered r cc ! i" "Suc j"] that by simp
  then show ?thesis by (auto simp: distinct_conv_nth)
qed

lemma registry_has_iff:
  assumes "registry_ok r"
  shows "registry_has r cc a \<longleftrightarrow> a \<in> set (registered r cc)"
proof
  assume "registry_has r cc a"
  then obtain i where "rg_index r cc a = Some i" by (auto simp: registry_has_def)
  then show "a \<in> set (registered r cc)" by (auto simp: index_lookup[OF assms])
next
  assume "a \<in> set (registered r cc)"
  then obtain i where "i < registry_count r cc" "registered r cc ! i = a" by (auto simp: in_set_conv_nth)
  then have "rg_index r cc a = Some (Suc i)" by (simp add: index_lookup[OF assms])
  then show "registry_has r cc a" by (simp add: registry_has_def)
qed

lemma registry_add_ok:
  assumes ok: "registry_ok r" and fresh: "\<not> registry_has r cc a" and add: "registry_add cc a r = Some r'"
  shows "registry_ok r'"
proof (rule registry_okI)
  fix cc'
  let ?n = "registry_count r cc"
  have r': "rg_registry r' = dm_insert cc (?n + 1) a (rg_registry r)"
    "rg_index r' = dm_insert cc a (?n + 1) (rg_index r)"
    "rg_count r' = (rg_count r)(cc \<mapsto> ?n + 1)" and small: "?n + 1 < 2 ^ 64"
    using add by (auto simp: registry_add_def checked_add_def split: if_splits)
  show "registry_ok_at r' cc'"
  proof (cases "cc' = cc")
    case True
    have n': "registry_count r' cc = ?n + 1" by (simp add: r' registry_count_def)
    have unused: "rg_index r cc a = None" using fresh by (simp add: registry_has_def)
    have reg: "rg_registry r' cc i = (if i = ?n + 1 then Some a else rg_registry r cc i)" for i
      by (simp add: r' storage_simps)
    have idx: "rg_index r' cc x = (if x = a then Some (?n + 1) else rg_index r cc x)" for x
      by (simp add: r' storage_simps)
    have "rg_registry r cc i = Some a \<Longrightarrow> False" for i using unused registry_okD(3)[OF ok, of cc a i] by simp
    moreover have "rg_registry r cc (?n + 1) = None" using registry_okD(2)[OF ok, of cc "?n + 1"] by auto
    ultimately show ?thesis
      unfolding True registry_ok_at_def n' reg idx
      using small registry_okD(2,3)[OF ok, of cc] by (auto simp: le_Suc_eq)
  next
    case False
    then show ?thesis by (intro registry_ok_at_cong[OF ok]) (simp_all add: r' dm_insert_def)
  qed
qed

lemma registry_add_registered:
  assumes "registry_add cc a r = Some r'"
  shows "registered r' cc' = (if cc' = cc then registered r cc @ [a] else registered r cc')"
proof (cases "cc' = cc")
  case True
  then show ?thesis using assms
    by (auto simp: registry_add_def checked_add_def registered_def registry_count_def storage_simps split: if_splits)
next
  case False
  then show ?thesis using assms
    by (auto simp: registry_add_def checked_add_def registered_def registry_count_def storage_simps split: if_splits)
qed

text \<open>Removal moves the last account to the freed position.\<close>

lemma registry_remove_eq:
  assumes ok: "registry_ok r" and i: "rg_index r cc a = Some i"
  shows "registry_remove cc a r =
    r\<lparr>rg_registry := dm_remove cc (registry_count r cc)
         (dm_insert cc i (last (registered r cc)) (rg_registry r)),
      rg_index := dm_remove cc a (dm_insert cc (last (registered r cc)) i (rg_index r)),
      rg_count := (rg_count r)(cc \<mapsto> registry_count r cc - 1)\<rparr>"
proof -
  have "1 \<le> registry_count r cc" using i by (simp add: index_lookup[OF ok])
  then have "rg_registry r cc (registry_count r cc) = Some (last (registered r cc))"
    by (subst registry_lookup[OF ok], subst last_conv_nth) (auto simp flip: length_0_conv)
  then show ?thesis using i by (simp add: registry_remove_def saturating_sub_def Let_def)
qed

lemma mset_move_last:
  assumes "j < length xs"
  shows "mset (butlast (xs[j := last xs])) = mset xs - {#xs ! j#}"
proof -
  let ?ys = "xs[j := last xs]"
  have ne: "?ys \<noteq> []" using assms by auto
  moreover have "xs \<noteq> []" using assms by auto
  ultimately have "last ?ys = last xs" by (simp add: last_conv_nth nth_list_update assms)
  with ne have "mset ?ys = mset (butlast ?ys) + {#last xs#}"
    by (metis append_butlast_last_id mset.simps mset_append)
  then show ?thesis using assms by (simp add: mset_update)
qed

lemma registry_remove_registered:
  assumes ok: "registry_ok r" and i: "rg_index r cc a = Some i"
  shows "registered (registry_remove cc a r) cc = butlast ((registered r cc)[i - 1 := last (registered r cc)])"
    and "cc' \<noteq> cc \<Longrightarrow> registered (registry_remove cc a r) cc' = registered r cc'"
proof -
  let ?r = "registry_remove cc a r"
  have n: "registry_count ?r cc = registry_count r cc - 1"
    by (simp add: registry_remove_eq[OF assms] registry_count_def)
  have "1 \<le> i" "i \<le> registry_count r cc" using i by (simp_all add: index_lookup[OF ok])
  then have "registered ?r cc ! k = butlast ((registered r cc)[i - 1 := last (registered r cc)]) ! k"
    if "k < registry_count r cc - 1" for k
    using that n by (auto simp: registered_def nth_butlast nth_list_update registry_remove_eq[OF assms] storage_simps)
  then show "registered ?r cc = butlast ((registered r cc)[i - 1 := last (registered r cc)])"
    using n by (intro nth_equalityI) simp_all
  show "registered ?r cc' = registered r cc'" if "cc' \<noteq> cc"
    using that by (simp add: registered_def registry_count_def registry_remove_eq[OF assms] storage_simps)
qed

lemma move_last_inverse:
  assumes inv: "\<And>x k. idx x = Some k \<longleftrightarrow> reg k = Some x" and a: "reg i = Some a" and l: "reg n = Some l"
  shows "(if x = a then None else if x = l then Some i else idx x) = Some k \<longleftrightarrow>
    (if k = n then None else if k = i then Some l else reg k) = Some x"
proof -
  have "idx a = Some i" "idx l = Some n" using inv a l by simp_all
  then show ?thesis using inv[of x k] a l by (cases "x = a"; cases "x = l"; cases "k = n"; cases "k = i") auto
qed

lemma registry_remove_ok:
  assumes ok: "registry_ok r" and i: "rg_index r cc a = Some i"
  shows "registry_ok (registry_remove cc a r)"
proof (rule registry_okI)
  fix cc'
  let ?r = "registry_remove cc a r" and ?n = "registry_count r cc" and ?l = "last (registered r cc)"
  note eq = registry_remove_eq[OF assms]
  show "registry_ok_at ?r cc'"
  proof (cases "cc' = cc")
    case True
    have ia: "1 \<le> i" "i \<le> ?n" "rg_registry r cc i = Some a"
      using i index_lookup[OF ok, of cc a i] registry_okD(3)[OF ok, of cc a i] by blast+
    have l: "rg_registry r cc ?n = Some ?l"
      using ia by (subst registry_lookup[OF ok], subst last_conv_nth) (auto simp flip: length_0_conv)
    have n': "registry_count ?r cc = ?n - 1" by (simp add: eq registry_count_def)
    have reg: "rg_registry ?r cc k = (if k = ?n then None else if k = i then Some ?l else rg_registry r cc k)" for k
      by (simp add: eq storage_simps)
    have idx: "rg_index ?r cc x = (if x = a then None else if x = ?l then Some i else rg_index r cc x)" for x
      by (simp add: eq storage_simps)
    have same: "rg_index r cc x = Some k \<longleftrightarrow> rg_registry r cc k = Some x" for x k
      by (rule registry_okD(3)[OF ok])
    have "(if x = a then None else if x = ?l then Some i else rg_index r cc x) = Some k \<longleftrightarrow>
        (if k = ?n then None else if k = i then Some ?l else rg_registry r cc k) = Some x" for x k
      using same ia(3) l by (rule move_last_inverse)
    moreover have "(if k = ?n then None else if k = i then Some ?l else rg_registry r cc k) \<noteq> None \<longleftrightarrow>
        1 \<le> k \<and> k \<le> ?n - 1" for k
      using ia registry_okD(2)[OF ok, of cc k] by auto
    ultimately show ?thesis
      unfolding True registry_ok_at_def n' reg idx using registry_okD(1)[OF ok, of cc] by auto
  next
    case False
    then show ?thesis by (intro registry_ok_at_cong[OF ok]) (simp_all add: eq dm_insert_def dm_remove_def)
  qed
qed

lemma registry_purge_ok:
  assumes "registry_ok r"
  shows "registry_ok (registry_purge cc r)"
proof (rule registry_okI)
  show "registry_ok_at (registry_purge cc r) cc'" for cc'
  proof (cases "cc' = cc")
    case True
    then show ?thesis
      by (simp add: registry_ok_at_def registry_purge_def registry_count_def dm_remove_prefix_def)
  qed (intro registry_ok_at_cong[OF assms], simp_all add: registry_purge_def dm_remove_prefix_def)
qed

lemma registry_index_of: "registry_has r cc a \<Longrightarrow> (\<And>i. rg_index r cc a = Some i \<Longrightarrow> P) \<Longrightarrow> P"
  by (auto simp: registry_has_def)

interpretation rg: indexed_registry empty_registry registry_add registry_remove registry_purge registry_has
  registered registry_ok
proof
  show "registry_ok empty_registry"
    by (rule registry_okI) (simp add: registry_ok_at_def empty_registry_def registry_count_def)
  show "registered empty_registry cc = []" for cc
    by (simp add: registered_def empty_registry_def registry_count_def)
  show "registry_ok r \<Longrightarrow> registry_has r cc a \<Longrightarrow>
      mset (registered (registry_remove cc a r) cc) = mset (registered r cc) - {#a#}" for r cc a
  proof (erule registry_index_of)
    fix i assume "registry_ok r" and i: "rg_index r cc a = Some i"
    then have "i - 1 < registry_count r cc" "a = registered r cc ! (i - 1)" by (auto simp: index_lookup)
    then show "mset (registered (registry_remove cc a r) cc) = mset (registered r cc) - {#a#}"
      unfolding registry_remove_registered(1)[OF \<open>registry_ok r\<close> i]
      using mset_move_last[of "i - 1" "registered r cc"] by simp
  qed
  show "registered (registry_purge cc r) cc' = (if cc' = cc then [] else registered r cc')" for cc r cc'
    by (simp add: registered_def registry_purge_def registry_count_def storage_simps)
  show "registry_ok r \<Longrightarrow> registry_has r cc a \<Longrightarrow> registry_ok (registry_remove cc a r)" for r cc a
    by (rule registry_index_of[of r cc a], assumption, rule registry_remove_ok)
  show "registry_ok r \<Longrightarrow> registry_has r cc a \<Longrightarrow> cc' \<noteq> cc \<Longrightarrow>
      registered (registry_remove cc a r) cc' = registered r cc'" for r cc a cc'
    by (rule registry_index_of[of r cc a], assumption, rule registry_remove_registered(2))
qed (fact registry_add_ok registry_purge_ok registered_distinct registry_has_iff | erule registry_add_registered
  | erule registry_purge_ok)+

end
