(* ===== verification/Meetup_Validation.thy ===== *)
theory Meetup_Validation
  imports Prelude
begin

text \<open>
  Judging a meetup, \<open>ceremonies/meetup-validation/src/lib.rs\<close>: which participants voted, which
  vote wins, and the iterative exclusion of participants with too few outgoing or incoming
  attestations. Participants are indices into the vectors of votes and attestations.
\<close>

section \<open>Definitions\<close>

datatype MeetupValidationError = BallotEmpty | NoDependableVote | IndexOutOfBounds

datatype ExclusionReason =
    NoVote | WrongVote | TooFewIncomingAttestations | TooFewOutgoingAttestations

record ExcludedParticipant =
  ep_index :: nat
  ep_reason :: ExclusionReason

record ParticipantJudgements =
  pj_legit :: "nat list"
  pj_excluded :: "ExcludedParticipant list"
  pj_early_rewards_possible :: bool

type_synonym Attestations = "nat list list"

definition get_or_err :: "'a list \<Rightarrow> nat \<Rightarrow> MeetupValidationError + 'a" where
  "get_or_err xs i = ok_or (vec_get xs i) IndexOutOfBounds"

definition exclude_participants ::
  "(nat \<times> ExclusionReason) list \<Rightarrow> ParticipantJudgements \<Rightarrow> ParticipantJudgements" where
  "exclude_participants ex pj =
     pj\<lparr>pj_legit := filter (\<lambda>i. \<not> (\<exists>p\<in>set ex. fst p = i)) (pj_legit pj),
        pj_excluded := pj_excluded pj @ map (\<lambda>p. \<lparr>ep_index = fst p, ep_reason = snd p\<rparr>) ex\<rparr>"

fun get_excluded_participants_no_vote ::
  "nat list \<Rightarrow> nat list \<Rightarrow> MeetupValidationError + (nat \<times> ExclusionReason) list" where
  "get_excluded_participants_no_vote [] votes = Inr []"
| "get_excluded_participants_no_vote (i # is) votes =
     bind_res (get_or_err votes i) (\<lambda>v.
     bind_res (get_excluded_participants_no_vote is votes) (\<lambda>ex.
     Inr (if v > 0 then ex else (i, NoVote) # ex)))"

fun get_excluded_participants_wrong_vote ::
  "nat list \<Rightarrow> nat list \<Rightarrow> nat \<Rightarrow> MeetupValidationError + (nat \<times> ExclusionReason) list" where
  "get_excluded_participants_wrong_vote [] votes n_confirmed = Inr []"
| "get_excluded_participants_wrong_vote (i # is) votes n_confirmed =
     bind_res (get_or_err votes i) (\<lambda>v.
     bind_res (get_excluded_participants_wrong_vote is votes n_confirmed) (\<lambda>ex.
     Inr (if v \<noteq> n_confirmed then (i, WrongVote) # ex else ex)))"

text \<open>The ballot: pairs of a vote and its \<open>u32\<close> count, new candidates in front.\<close>

definition count_vote :: "nat \<Rightarrow> (nat \<times> nat) list \<Rightarrow> (nat \<times> nat) list" where
  "count_vote v cands =
     (case position (\<lambda>(n, c). n = v) cands of
        Some idx \<Rightarrow> cands[idx := (fst (cands ! idx), wrapping_add 32 (snd (cands ! idx)) 1)]
      | None \<Rightarrow> (v, 1) # cands)"

fun count_votes ::
  "nat list \<Rightarrow> nat list \<Rightarrow> (nat \<times> nat) list \<Rightarrow> MeetupValidationError + (nat \<times> nat) list" where
  "count_votes [] votes cands = Inr cands"
| "count_votes (i # is) votes cands =
     bind_res (get_or_err votes i) (\<lambda>v. count_votes is votes (count_vote v cands))"

definition find_majority_vote ::
  "nat list \<Rightarrow> nat list \<Rightarrow> MeetupValidationError + (nat \<times> nat \<times> bool)" where
  "find_majority_vote participants votes =
     bind_res (count_votes participants votes []) (\<lambda>cands.
     if cands = [] then Inl BallotEmpty
     else
       let sorted = sort_key (\<lambda>c. - int (snd c)) cands in
       bind_res (get_or_err sorted 0) (\<lambda>best.
       if snd best < 3 then Inl NoDependableVote
       else Inr (fst best, snd best, length sorted = 1)))"

definition vote_yields_majority :: "nat \<Rightarrow> nat \<Rightarrow> bool" where
  "vote_yields_majority num_participants n_confirmed =
     (saturating_mul usize_bits n_confirmed 2 > num_participants)"

definition num_attestations_matches_vote :: "nat list \<Rightarrow> Attestations \<Rightarrow> nat \<Rightarrow> bool" where
  "num_attestations_matches_vote legit attestations n_confirmed =
     (\<forall>(i, v)\<in>set (enumerate 0 attestations).
        i \<notin> set legit \<or> length v = wrapping_sub 32 n_confirmed 1)"

definition attestation_graph_is_fully_connected :: "nat list \<Rightarrow> Attestations \<Rightarrow> bool" where
  "attestation_graph_is_fully_connected legit attestations =
     (\<forall>(i, a)\<in>set (enumerate 0 attestations).
        i \<in> set legit \<longrightarrow> sort a = sort (filter (\<lambda>p. p \<noteq> i) legit))"

definition early_rewards_possible ::
  "nat list \<Rightarrow> Attestations \<Rightarrow> nat \<Rightarrow> nat \<Rightarrow> bool \<Rightarrow> bool" where
  "early_rewards_possible legit attestations num_total_participants n_confirmed vote_is_unanimous =
     (vote_is_unanimous \<and>
      vote_yields_majority num_total_participants n_confirmed \<and>
      num_attestations_matches_vote legit attestations n_confirmed \<and>
      attestation_graph_is_fully_connected legit attestations)"

definition filter_attestations :: "nat list \<Rightarrow> Attestations \<Rightarrow> Attestations" where
  "filter_attestations participants attestations =
     map (filter (\<lambda>j. j \<in> set participants)) attestations"

fun group_sorted ::
  "nat list \<Rightarrow> nat list \<Rightarrow> (nat \<times> nat list) list \<Rightarrow> MeetupValidationError + (nat \<times> nat list) list" where
  "group_sorted vals [] grouped = Inr grouped"
| "group_sorted vals (p # ps) grouped =
     bind_res (get_or_err vals p) (\<lambda>value.
     group_sorted vals ps
       (if grouped \<noteq> [] \<and> fst (last grouped) = value
        then butlast grouped @ [(fst (last grouped), snd (last grouped) @ [p])]
        else grouped @ [(value, [p])]))"

definition group_indices_by_value ::
  "nat list \<Rightarrow> nat list \<Rightarrow> MeetupValidationError + (nat \<times> nat list) list" where
  "group_indices_by_value indices vals =
     (if indices \<noteq> [] \<and> Max (set indices) \<ge> length vals then Inl IndexOutOfBounds
      else group_sorted vals (sort_key (\<lambda>a. as_i32 (vals ! a)) indices) [])"

definition num_incoming_attestations :: "Attestations \<Rightarrow> nat list" where
  "num_incoming_attestations attestations =
     map (\<lambda>p. length (filter (\<lambda>(idx, a). p \<noteq> idx \<and> p \<in> set a) (enumerate 0 attestations)))
       [0..<length attestations]"

definition group_participants_by_num_incoming_attestations ::
  "nat list \<Rightarrow> Attestations \<Rightarrow> MeetupValidationError + (nat \<times> nat list) list" where
  "group_participants_by_num_incoming_attestations participants attestations =
     group_indices_by_value participants (num_incoming_attestations attestations)"

definition group_participants_by_num_outgoing_attestations ::
  "nat list \<Rightarrow> Attestations \<Rightarrow> MeetupValidationError + (nat \<times> nat list) list" where
  "group_participants_by_num_outgoing_attestations participants attestations =
     group_indices_by_value participants (map length attestations)"

definition participants_to_exclude ::
  "(nat \<Rightarrow> nat) \<Rightarrow> nat \<Rightarrow> nat \<times> nat list \<Rightarrow> nat \<times> nat list \<Rightarrow> (nat list \<times> ExclusionReason) option" where
  "participants_to_exclude threshold_fn num outgoing incoming =
     (if fst incoming < fst outgoing then
        (if fst incoming < threshold_fn num
         then Some (snd incoming, TooFewIncomingAttestations) else None)
      else if fst outgoing < threshold_fn num
      then Some (snd outgoing, TooFewOutgoingAttestations)
      else None)"

fun num_attestations_loop ::
  "(nat \<Rightarrow> nat) \<Rightarrow> nat \<Rightarrow> nat list \<Rightarrow> Attestations \<Rightarrow> (nat \<times> ExclusionReason) list \<Rightarrow>
   MeetupValidationError + (nat \<times> ExclusionReason) list" where
  "num_attestations_loop threshold_fn 0 ps attestations ex = Inr ex"
| "num_attestations_loop threshold_fn (Suc iterations) ps attestations ex =
     (if ps = [] then Inr ex
      else
        bind_res (group_participants_by_num_outgoing_attestations ps attestations) (\<lambda>out.
        bind_res (group_participants_by_num_incoming_attestations ps attestations) (\<lambda>inc.
        bind_res (get_or_err out 0) (\<lambda>out0.
        bind_res (get_or_err inc 0) (\<lambda>inc0.
        (case participants_to_exclude threshold_fn (length ps) out0 inc0 of
           Some (excl, reason) \<Rightarrow>
             (let ps' = filter (\<lambda>k. k \<notin> set excl) ps in
              num_attestations_loop threshold_fn iterations ps' (filter_attestations ps' attestations)
                (ex @ map (\<lambda>p. (p, reason)) excl))
         | None \<Rightarrow> Inr ex))))))"

definition get_excluded_participants_num_attestations ::
  "nat list \<Rightarrow> Attestations \<Rightarrow> (nat \<Rightarrow> nat) \<Rightarrow>
   MeetupValidationError + (nat \<times> ExclusionReason) list" where
  "get_excluded_participants_num_attestations participants attestations threshold_fn =
     num_attestations_loop threshold_fn (length participants) participants
       (filter_attestations participants attestations) []"

definition get_participant_judgements ::
  "nat list \<Rightarrow> nat list \<Rightarrow> Attestations \<Rightarrow> (nat \<Rightarrow> nat) \<Rightarrow>
   MeetupValidationError + ParticipantJudgements" where
  "get_participant_judgements participants votes attestations threshold_fn =
     (let pj = \<lparr>pj_legit = participants, pj_excluded = [], pj_early_rewards_possible = False\<rparr> in
      bind_res (get_excluded_participants_no_vote (pj_legit pj) votes) (\<lambda>ex1.
      let pj1 = exclude_participants ex1 pj in
      bind_res (find_majority_vote (pj_legit pj1) votes) (\<lambda>(n_confirmed, _, vote_is_unanimous).
      bind_res (get_excluded_participants_wrong_vote (pj_legit pj1) votes n_confirmed) (\<lambda>ex2.
      let pj2 = exclude_participants ex2 pj1;
          early = early_rewards_possible (pj_legit pj2) attestations (length participants)
                    n_confirmed vote_is_unanimous in
      bind_res (get_excluded_participants_num_attestations (pj_legit pj2) attestations threshold_fn)
        (\<lambda>ex3. Inr ((exclude_participants ex3 pj2)\<lparr>pj_early_rewards_possible := early\<rparr>))))))"

text \<open>The threshold the ceremonies pallet passes in (\<open>claim_rewards\<close>).\<close>

definition attestation_threshold_fn :: "nat \<Rightarrow> nat" where
  "attestation_threshold_fn i =
     max (if i > 5 then saturating_sub i 2 else saturating_sub i 1) 1"

section \<open>Votes\<close>

lemma get_or_err_in: "i < length xs \<Longrightarrow> get_or_err xs i = Inr (xs ! i)"
  by (simp add: get_or_err_def vec_get_def ok_or_def)

lemma no_vote_spec:
  "\<forall>i\<in>set ps. i < length votes \<Longrightarrow>
   get_excluded_participants_no_vote ps votes =
     Inr (map (\<lambda>i. (i, NoVote)) (filter (\<lambda>i. votes ! i = 0) ps))"
  by (induction ps) (auto simp: get_or_err_in)

lemma wrong_vote_spec:
  "\<forall>i\<in>set ps. i < length votes \<Longrightarrow>
   get_excluded_participants_wrong_vote ps votes n =
     Inr (map (\<lambda>i. (i, WrongVote)) (filter (\<lambda>i. votes ! i \<noteq> n) ps))"
  by (induction ps) (auto simp: get_or_err_in)

text \<open>What the ballot knows after counting the votes \<open>vs\<close>.\<close>

definition ballot_inv :: "(nat \<times> nat) list \<Rightarrow> nat list \<Rightarrow> bool" where
  "ballot_inv cands vs \<longleftrightarrow>
     distinct (map fst cands) \<and> fst ` set cands = set vs \<and> (\<forall>(n, c)\<in>set cands. c = count_list vs n)"

lemma distinct_map_fst_update:
  "distinct (map fst xs) \<Longrightarrow> i < length xs \<Longrightarrow> fst y = fst (xs ! i) \<Longrightarrow> map fst (xs[i := y]) = map fst xs"
  by (simp add: map_update list_update_same_conv)

lemma count_vote_inv:
  assumes inv: "ballot_inv cands vs" and len: "length vs + 1 < 2 ^ 32"
  shows "ballot_inv (count_vote v cands) (v # vs)"
proof (cases "position (\<lambda>(n, c). n = v) cands")
  case None
  then have "v \<notin> set vs"
    using inv unfolding ballot_inv_def position_None by fastforce
  then have zero: "count_list vs v = 0" by (simp add: count_list_0_iff)
  have "v \<noteq> n" if "(n, c) \<in> set cands" for n c
    using inv that \<open>v \<notin> set vs\<close> by (force simp: ballot_inv_def)
  then show ?thesis
    using inv None \<open>v \<notin> set vs\<close> zero by (fastforce simp: count_vote_def ballot_inv_def)
next
  case (Some idx)
  then have i: "idx < length cands" and v: "fst (cands ! idx) = v"
    using position_Some by fastforce+
  let ?y = "(fst (cands ! idx), wrapping_add 32 (snd (cands ! idx)) 1)"
  have mem: "cands ! idx \<in> set cands" using i by simp
  then have c: "snd (cands ! idx) = count_list vs v"
    using inv v by (auto simp: ballot_inv_def split: prod.splits)
  have "count_list vs v \<le> length vs" by (rule count_le_length)
  then have new: "?y = (v, count_list (v # vs) v)"
    using c v len by (simp add: wrapping_add_exact)
  have fsts: "map fst (cands[idx := ?y]) = map fst cands"
    using inv i by (intro distinct_map_fst_update) (auto simp: ballot_inv_def)
  have "v \<in> set vs" using inv v mem by (force simp: ballot_inv_def)
  have counts: "c = count_list (v # vs) n" if nc: "(n, c) \<in> set (cands[idx := ?y])" for n c
  proof -
    obtain j where j: "j < length cands" "(n, c) = cands[idx := ?y] ! j"
      using nc by (metis in_set_conv_nth length_list_update)
    show ?thesis
    proof (cases "j = idx")
      case True
      then show ?thesis using j i new by (metis (no_types, lifting) nth_list_update_eq prod.inject)
    next
      case False
      then have eq: "(n, c) = cands ! j" using j by simp
      have "distinct (map fst cands)" using inv by (simp add: ballot_inv_def)
      then have "map fst cands ! j \<noteq> map fst cands ! idx"
        using False j(1) i by (metis length_map nth_eq_iff_index_eq)
      then have "n \<noteq> v" using eq j(1) i v by (metis fst_conv nth_map)
      moreover have "(n, c) \<in> set cands" using eq j(1) by simp
      then have "c = count_list vs n" using inv by (auto simp: ballot_inv_def)
      ultimately show ?thesis by simp
    qed
  qed
  have "count_vote v cands = cands[idx := ?y]" using Some by (simp add: count_vote_def)
  moreover have "fst ` set (cands[idx := ?y]) = set (v # vs)"
    using fsts inv \<open>v \<in> set vs\<close> by (metis ballot_inv_def insert_absorb list.set_map list.simps(15))
  ultimately show ?thesis
    using fsts inv counts unfolding ballot_inv_def by auto
qed

lemma count_votes_spec:
  assumes "ballot_inv cands vs" and "\<forall>i\<in>set ps. i < length votes" and "length vs + length ps < 2 ^ 32"
  shows "\<exists>cands'. count_votes ps votes cands = Inr cands' \<and> ballot_inv cands' (rev (map ((!) votes) ps) @ vs)"
  using assms
proof (induction ps arbitrary: cands vs)
  case Nil
  then show ?case by simp
next
  case (Cons i ps)
  have "ballot_inv (count_vote (votes ! i) cands) (votes ! i # vs)"
    using Cons.prems by (intro count_vote_inv) auto
  then show ?case
    using Cons.IH[of "count_vote (votes ! i) cands" "votes ! i # vs"] Cons.prems
    by (simp add: get_or_err_in)
qed

lemma sort_key_hd_min:
  assumes "xs \<noteq> []"
  shows "sort_key f xs ! 0 \<in> set xs" and "\<forall>x\<in>set xs. f (sort_key f xs ! 0) \<le> f x"
proof -
  have ne: "sort_key f xs \<noteq> []" using assms by (metis length_0_conv length_sort)
  then show "sort_key f xs ! 0 \<in> set xs" by (metis length_greater_0_conv nth_mem set_sort)
  show "\<forall>x\<in>set xs. f (sort_key f xs ! 0) \<le> f x"
  proof
    fix x assume "x \<in> set xs"
    then obtain i where i: "i < length (sort_key f xs)" "sort_key f xs ! i = x"
      by (metis in_set_conv_nth set_sort)
    have "sorted (map f (sort_key f xs))" by simp
    then have "map f (sort_key f xs) ! 0 \<le> map f (sort_key f xs) ! i"
      using i(1) by (intro sorted_nth_mono) auto
    then show "f (sort_key f xs ! 0) \<le> f x" using i ne by (metis length_greater_0_conv nth_map)
  qed
qed

lemma majority_vote_spec:
  assumes len: "length ps < 2 ^ 32" and rng: "\<forall>i\<in>set ps. i < length votes"
  defines "vs \<equiv> map ((!) votes) ps"
  shows "if ps = [] then find_majority_vote ps votes = Inl BallotEmpty
    else \<exists>n\<in>set vs. (\<forall>v. count_list vs v \<le> count_list vs n) \<and>
      find_majority_vote ps votes =
        (if count_list vs n < 3 then Inl NoDependableVote
         else Inr (n, count_list vs n, \<forall>v\<in>set vs. v = n))"
proof -
  obtain cands where c: "count_votes ps votes [] = Inr cands" "ballot_inv cands (rev vs)"
    using count_votes_spec[of "[]" "[]" ps votes] len rng by (auto simp: ballot_inv_def vs_def)
  then have dist: "distinct (map fst cands)" and fsts: "fst ` set cands = set vs"
    and cnt: "\<And>n m. (n, m) \<in> set cands \<Longrightarrow> m = count_list vs n"
    by (auto simp: ballot_inv_def)
  show ?thesis
  proof (cases "ps = []")
    case True
    then show ?thesis using c(1) by (simp add: find_majority_vote_def)
  next
    case False
    then have "set vs \<noteq> {}" by (simp add: vs_def)
    then have ne: "cands \<noteq> []" using fsts by auto
    let ?sorted = "sort_key (\<lambda>c. - int (snd c)) cands"
    obtain n m where nm: "?sorted ! 0 = (n, m)" by fastforce
    have mem: "(n, m) \<in> set cands" using sort_key_hd_min(1)[OF ne] nm by metis
    then have m: "m = count_list vs n" and n: "n \<in> set vs" using cnt fsts by force+
    have best: "count_list vs v \<le> count_list vs n" for v
    proof (cases "v \<in> set vs")
      case True
      then obtain k where "(v, k) \<in> set cands" using fsts by fastforce
      then have "- int m \<le> - int k"
        using sort_key_hd_min(2)[OF ne, of "\<lambda>c. - int (snd c)"] nm by force
      then show ?thesis using cnt \<open>(v, k) \<in> set cands\<close> m by fastforce
    qed (simp add: count_list_0_iff)
    have "length cands = card (set vs)"
      using dist fsts by (metis distinct_card length_map list.set_map)
    then have "length ?sorted = 1 \<longleftrightarrow> (\<forall>v\<in>set vs. v = n)"
      using n by (auto simp: card_1_singleton_iff)
    moreover have "0 < length ?sorted" using ne by simp
    ultimately have "find_majority_vote ps votes =
        (if count_list vs n < 3 then Inl NoDependableVote
         else Inr (n, count_list vs n, \<forall>v\<in>set vs. v = n))"
      using c(1) ne nm m by (simp add: find_majority_vote_def get_or_err_in Let_def del: length_sort)
    then show ?thesis using False n best by auto
  qed
qed

section \<open>Grouping\<close>

lemma group_sorted_keeps_head:
  "\<forall>p\<in>set ps. p < length vals \<Longrightarrow>
   \<exists>rest. group_sorted vals ps ((v, g) # a # as) = Inr ((v, g) # rest)"
proof (induction ps arbitrary: a as)
  case Nil
  then show ?case by simp
next
  case (Cons p ps)
  show ?case
  proof (cases "fst (last (a # as)) = vals ! p")
    case True
    define as' where "as' = butlast (a # as) @ [(fst (last (a # as)), snd (last (a # as)) @ [p])]"
    then have "as' \<noteq> []" by simp
    then obtain b bs where "as' = b # bs" by (meson neq_Nil_conv)
    moreover have "butlast ((v, g) # a # as) = (v, g) # butlast (a # as)" by simp
    ultimately show ?thesis
      using Cons.IH[of b bs] Cons.prems True by (simp add: get_or_err_in as'_def)
  next
    case False
    then show ?thesis using Cons.IH[of a "as @ [(vals ! p, [p])]"] Cons.prems by (simp add: get_or_err_in)
  qed
qed

lemma group_sorted_first:
  assumes "\<forall>p\<in>set ps. p < length vals" and "sorted (map (\<lambda>p. vals ! p) ps)"
    and "\<forall>p\<in>set ps. v \<le> vals ! p"
  shows "\<exists>rest. group_sorted vals ps [(v, g)] = Inr ((v, g @ filter (\<lambda>p. vals ! p = v) ps) # rest)"
  using assms
proof (induction ps arbitrary: g)
  case Nil
  then show ?case by simp
next
  case (Cons p ps)
  show ?case
  proof (cases "vals ! p = v")
    case True
    then show ?thesis using Cons.IH[of "g @ [p]"] Cons.prems by (simp add: get_or_err_in)
  next
    case False
    then have "v < vals ! p" using Cons.prems(3) by (simp add: le_neq_implies_less)
    then have "filter (\<lambda>p. vals ! p = v) ps = []"
      using Cons.prems(2) by (auto simp: filter_empty_conv)
    then show ?thesis
      using group_sorted_keeps_head[of ps vals v g "(vals ! p, [p])" "[]"] False Cons.prems(1)
      by (simp add: get_or_err_in)
  qed
qed

lemma group_by_value_first:
  assumes ne: "indices \<noteq> []" and rng: "\<forall>p\<in>set indices. p < length vals"
    and small: "\<forall>v\<in>set vals. v < 2 ^ 31"
  shows "\<exists>v g rest. group_indices_by_value indices vals = Inr ((v, g) # rest) \<and>
    (\<forall>p\<in>set indices. v \<le> vals ! p) \<and> set g = {p \<in> set indices. vals ! p = v} \<and> g \<noteq> [] \<and>
    (distinct indices \<longrightarrow> distinct g)"
proof -
  have key: "as_i32 (vals ! p) = int (vals ! p)" if "p \<in> set indices" for p
    using that rng small by (simp add: as_i32_exact)
  define ps where "ps = sort_key (\<lambda>a. as_i32 (vals ! a)) indices"
  have set_ps: "set ps = set indices" by (simp add: ps_def)
  have "map (\<lambda>a. as_i32 (vals ! a)) ps = map int (map (\<lambda>a. vals ! a) ps)"
    using key set_ps by simp
  moreover have "sorted (map (\<lambda>a. as_i32 (vals ! a)) ps)" by (simp add: ps_def)
  ultimately have srt: "sorted (map (\<lambda>a. vals ! a) ps)"
    by (metis (mono_tags, lifting) of_nat_le_iff sorted_map sorted_wrt_map sorted_wrt_mono_rel)
  obtain q qs where ps: "ps = q # qs" using ne set_ps by (cases ps) auto
  have in_rng: "\<forall>p\<in>set ps. p < length vals" using rng set_ps by simp
  have low: "\<forall>p\<in>set ps. vals ! q \<le> vals ! p" using srt ps by auto
  obtain rest where grp: "group_sorted vals qs [(vals ! q, [q])] =
      Inr ((vals ! q, [q] @ filter (\<lambda>p. vals ! p = vals ! q) qs) # rest)"
    using group_sorted_first[of qs vals "vals ! q" "[q]"] srt in_rng low ps by auto
  have "\<not> (indices \<noteq> [] \<and> Max (set indices) \<ge> length vals)"
    using rng ne by (metis List.finite_set Max_in not_le set_empty)
  then have "group_indices_by_value indices vals =
      Inr ((vals ! q, filter (\<lambda>p. vals ! p = vals ! q) ps) # rest)"
    using grp in_rng ps unfolding group_indices_by_value_def ps_def[symmetric]
    by (auto simp: get_or_err_in)
  moreover have "distinct indices \<longrightarrow> distinct (filter (\<lambda>p. vals ! p = vals ! q) ps)"
    by (simp add: ps_def)
  moreover have "filter (\<lambda>p. vals ! p = vals ! q) ps \<noteq> []" by (simp add: ps)
  ultimately show ?thesis using low set_ps by auto
qed

section \<open>Attestations\<close>

definition incoming :: "Attestations \<Rightarrow> nat \<Rightarrow> nat" where
  "incoming attestations p =
     length (filter (\<lambda>(idx, a). p \<noteq> idx \<and> p \<in> set a) (enumerate 0 attestations))"

definition outgoing :: "nat list \<Rightarrow> Attestations \<Rightarrow> nat \<Rightarrow> nat" where
  "outgoing ps attestations p = length (filter (\<lambda>j. j \<in> set ps) (attestations ! p))"

lemma filter_attestations_twice:
  "set ps' \<subseteq> set ps \<Longrightarrow> filter_attestations ps' (filter_attestations ps att) = filter_attestations ps' att"
  by (auto simp: filter_attestations_def intro: filter_cong)

lemma incoming_filter:
  assumes "p \<in> set ps"
  shows "incoming (filter_attestations ps att) p = incoming att p"
proof -
  have "enumerate 0 (filter_attestations ps att) =
      map (\<lambda>(i, a). (i, filter (\<lambda>j. j \<in> set ps) a)) (enumerate 0 att)"
    by (simp add: filter_attestations_def enumerate_eq_zip zip_map2)
  then show ?thesis using assms
    by (simp add: incoming_def filter_map o_def split_def)
qed

lemma group_incoming_first_strong:
  assumes "ps \<noteq> []" and "\<forall>p\<in>set ps. p < length att" and "length att < 2 ^ 31"
  shows "\<exists>v g rest. group_participants_by_num_incoming_attestations ps (filter_attestations ps att) =
      Inr ((v, g) # rest) \<and> (\<forall>p\<in>set ps. v \<le> incoming att p) \<and> set g \<subseteq> set ps \<and> g \<noteq> [] \<and>
      (distinct ps \<longrightarrow> distinct g) \<and> (\<exists>p\<in>set ps. v = incoming att p)"
proof -
  let ?att = "filter_attestations ps att"
  have len: "length ?att = length att" by (simp add: filter_attestations_def)
  have "\<forall>v\<in>set (num_incoming_attestations ?att). v \<le> length ?att"
    by (auto simp: num_incoming_attestations_def intro: order_trans[OF length_filter_le])
  then have "\<forall>v\<in>set (num_incoming_attestations ?att). v < 2 ^ 31" using assms(3) len by fastforce
  then obtain v g rest where g: "group_indices_by_value ps (num_incoming_attestations ?att) = Inr ((v, g) # rest)"
    "\<forall>p\<in>set ps. v \<le> num_incoming_attestations ?att ! p"
    "set g = {p \<in> set ps. num_incoming_attestations ?att ! p = v}" "g \<noteq> []" "distinct ps \<longrightarrow> distinct g"
    using group_by_value_first[OF assms(1), of "num_incoming_attestations ?att"] assms(2) len
    by (auto simp: num_incoming_attestations_def)
  have val: "num_incoming_attestations ?att ! p = incoming att p" if "p \<in> set ps" for p
    using that assms(2) len incoming_filter[OF that, of att]
    by (simp add: num_incoming_attestations_def incoming_def)
  obtain p where "p \<in> set g" using g(4) by (cases g) auto
  then have "\<exists>p\<in>set ps. v = incoming att p" using g(3) val by auto
  then show ?thesis using g val
    unfolding group_participants_by_num_incoming_attestations_def by (intro exI[of _ v] exI[of _ g] exI[of _ rest]) auto
qed

lemma group_outgoing_first_strong:
  assumes "ps \<noteq> []" and "\<forall>p\<in>set ps. p < length att" and "\<forall>a\<in>set att. length a < 2 ^ 31"
  shows "\<exists>v g rest. group_participants_by_num_outgoing_attestations ps (filter_attestations ps att) =
      Inr ((v, g) # rest) \<and> (\<forall>p\<in>set ps. v \<le> outgoing ps att p) \<and> set g \<subseteq> set ps \<and> g \<noteq> [] \<and>
      (distinct ps \<longrightarrow> distinct g) \<and> (\<exists>p\<in>set ps. v = outgoing ps att p)"
proof -
  let ?vals = "map length (filter_attestations ps att)"
  have "v < 2 ^ 31" if "v \<in> set ?vals" for v
    using that assms(3) by (auto simp: filter_attestations_def intro: le_less_trans[OF length_filter_le])
  then obtain v g rest where g: "group_indices_by_value ps ?vals = Inr ((v, g) # rest)"
    "\<forall>p\<in>set ps. v \<le> ?vals ! p" "set g = {p \<in> set ps. ?vals ! p = v}" "g \<noteq> []" "distinct ps \<longrightarrow> distinct g"
    using group_by_value_first[OF assms(1), of ?vals] assms(2) by (auto simp: filter_attestations_def)
  have val: "?vals ! p = outgoing ps att p" if "p \<in> set ps" for p
    using that assms(2) by (simp add: filter_attestations_def outgoing_def)
  obtain p where "p \<in> set g" using g(4) by (cases g) auto
  then have "\<exists>p\<in>set ps. v = outgoing ps att p" using g(3) val by auto
  then show ?thesis using g val
    unfolding group_participants_by_num_outgoing_attestations_def by (intro exI[of _ v] exI[of _ g] exI[of _ rest]) auto
qed

section \<open>The exclusion loop\<close>

text \<open>
  When the loop stops, the participants it leaves over all meet the threshold for their number,
  counting the outgoing attestations to each other and the incoming ones from anybody.
\<close>

definition attested_enough :: "(nat \<Rightarrow> nat) \<Rightarrow> Attestations \<Rightarrow> nat list \<Rightarrow> bool" where
  "attested_enough threshold_fn att ps \<longleftrightarrow>
     (\<forall>p\<in>set ps. threshold_fn (length ps) \<le> outgoing ps att p \<and>
                 threshold_fn (length ps) \<le> incoming att p)"

definition small_attestations :: "nat list \<Rightarrow> Attestations \<Rightarrow> bool" where
  "small_attestations ps att \<longleftrightarrow>
     (\<forall>p\<in>set ps. p < length att) \<and> length att < 2 ^ 31 \<and> (\<forall>a\<in>set att. length a < 2 ^ 31)"

lemma loop_step:
  assumes ne: "ps \<noteq> []" and sm: "small_attestations ps att" and dist: "distinct ps"
  obtains (stop) "num_attestations_loop thr (Suc k) ps (filter_attestations ps att) ex = Inr ex"
      and "attested_enough thr att ps"
  | (exclude) g reason where "g \<noteq> []" and "set g \<subseteq> set ps" and "distinct g"
      and "\<not> attested_enough thr att ps"
      and "num_attestations_loop thr (Suc k) ps (filter_attestations ps att) ex =
        num_attestations_loop thr k (filter (\<lambda>j. j \<notin> set g) ps)
          (filter_attestations (filter (\<lambda>j. j \<notin> set g) ps) att) (ex @ map (\<lambda>p. (p, reason)) g)"
proof -
  let ?att = "filter_attestations ps att"
  obtain vi gi ri where inc: "group_participants_by_num_incoming_attestations ps ?att = Inr ((vi, gi) # ri)"
    "\<forall>p\<in>set ps. vi \<le> incoming att p" "set gi \<subseteq> set ps" "gi \<noteq> []" "distinct gi"
    "\<exists>p\<in>set ps. vi = incoming att p"
    using group_incoming_first_strong[OF ne] sm dist unfolding small_attestations_def by metis
  obtain vo go ro where out: "group_participants_by_num_outgoing_attestations ps ?att = Inr ((vo, go) # ro)"
    "\<forall>p\<in>set ps. vo \<le> outgoing ps att p" "set go \<subseteq> set ps" "go \<noteq> []" "distinct go"
    "\<exists>p\<in>set ps. vo = outgoing ps att p"
    using group_outgoing_first_strong[OF ne] sm dist unfolding small_attestations_def by metis
  have loop: "num_attestations_loop thr (Suc k) ps ?att ex =
     (case participants_to_exclude thr (length ps) (vo, go) (vi, gi) of
        Some (excl, reason) \<Rightarrow>
          (let ps' = filter (\<lambda>k. k \<notin> set excl) ps in
           num_attestations_loop thr k ps' (filter_attestations ps' ?att) (ex @ map (\<lambda>p. (p, reason)) excl))
      | None \<Rightarrow> Inr ex)"
    using ne inc(1) out(1) by (simp add: get_or_err_in)
  have enough: "attested_enough thr att ps \<longleftrightarrow> thr (length ps) \<le> vo \<and> thr (length ps) \<le> vi"
    using inc(2,6) out(2,6) by (fastforce simp: attested_enough_def)
  have twice: "filter_attestations (filter P ps) ?att = filter_attestations (filter P ps) att" for P
    by (rule filter_attestations_twice) auto
  show thesis
  proof (cases "attested_enough thr att ps")
    case True
    then show ?thesis
      using stop loop enough by (auto simp: participants_to_exclude_def)
  next
    case False
    then show ?thesis
      using exclude[of gi TooFewIncomingAttestations] exclude[of go TooFewOutgoingAttestations]
        inc(3-5) out(3-5) loop enough
      by (auto simp: participants_to_exclude_def twice Let_def split: if_splits)
  qed
qed

lemma loop_spec:
  assumes "distinct ps" and "small_attestations ps att" and "length ps \<le> k"
  shows "\<exists>ex'. num_attestations_loop thr k ps (filter_attestations ps att) ex = Inr (ex @ ex') \<and>
    distinct (map fst ex') \<and> fst ` set ex' \<subseteq> set ps \<and>
    attested_enough thr att (filter (\<lambda>i. i \<notin> fst ` set ex') ps)"
  using assms
proof (induction k arbitrary: ps ex)
  case 0
  then show ?case by (auto simp: attested_enough_def intro!: exI[of _ "[]"])
next
  case (Suc k)
  show ?case
  proof (cases "ps = []")
    case True
    then show ?thesis by (auto simp: attested_enough_def intro!: exI[of _ "[]"])
  next
    case False
    show ?thesis
    proof (cases rule: loop_step[OF False Suc.prems(2,1), of thr k ex, case_names stop exclude])
      case stop
      then show ?thesis by (intro exI[of _ "[]"]) auto
    next
      case (exclude g reason)
      let ?ps = "filter (\<lambda>j. j \<notin> set g) ps"
      obtain p where "p \<in> set g" using exclude(1) by (cases g) auto
      then have "length ?ps < length ps" using exclude(2) by (intro length_filter_less) auto
      moreover have "small_attestations ?ps att" using Suc.prems(2) by (auto simp: small_attestations_def)
      ultimately obtain ex' where ex':
        "num_attestations_loop thr k ?ps (filter_attestations ?ps att) (ex @ map (\<lambda>p. (p, reason)) g) =
           Inr ((ex @ map (\<lambda>p. (p, reason)) g) @ ex')"
        "distinct (map fst ex')" "fst ` set ex' \<subseteq> set ?ps"
        "attested_enough thr att (filter (\<lambda>i. i \<notin> fst ` set ex') ?ps)"
        using Suc.IH[of ?ps "ex @ map (\<lambda>p. (p, reason)) g"] Suc.prems by auto
      let ?all = "map (\<lambda>p. (p, reason)) g @ ex'"
      have fsts: "fst ` set ?all = set g \<union> fst ` set ex'" by force
      have "filter (\<lambda>i. i \<notin> fst ` set ?all) ps = filter (\<lambda>i. i \<notin> fst ` set ex') ?ps"
        unfolding fsts by simp
      moreover have "distinct (map fst ?all)"
        using exclude(3) ex'(2,3) by (auto simp: o_def)
      ultimately show ?thesis
        using exclude(2,5) ex' fsts by (intro exI[of _ ?all]) auto
    qed
  qed
qed

section \<open>Judgements\<close>

lemma pj_legit_exclude:
  "pj_legit (exclude_participants ex pj) = filter (\<lambda>i. i \<notin> fst ` set ex) (pj_legit pj)"
  by (auto simp: exclude_participants_def intro!: filter_cong)

lemma pj_excluded_exclude:
  "map ep_index (pj_excluded (exclude_participants ex pj)) = map ep_index (pj_excluded pj) @ map fst ex"
  by (simp add: exclude_participants_def o_def)

text \<open>
  The shape of every judgement: the voters, the winning vote among them, the voters for it, and
  those of them that survive the exclusion loop.
\<close>

lemma judgements_spec:
  assumes dist: "distinct ps" and rng: "\<forall>i\<in>set ps. i < length votes"
    and sm: "small_attestations ps att" and len: "length ps < 2 ^ 32"
  defines "voters \<equiv> filter (\<lambda>i. votes ! i \<noteq> 0) ps"
  shows "(\<exists>e. find_majority_vote voters votes = Inl e \<and>
            get_participant_judgements ps votes att thr = Inl e) \<or>
    (\<exists>n c u ex3 pj. find_majority_vote voters votes = Inr (n, c, u) \<and>
       get_participant_judgements ps votes att thr = Inr pj \<and>
       (let right = filter (\<lambda>i. votes ! i = n) voters in
        get_excluded_participants_num_attestations right att thr = Inr ex3 \<and>
        distinct (map fst ex3) \<and> fst ` set ex3 \<subseteq> set right \<and>
        pj_legit pj = filter (\<lambda>i. i \<notin> fst ` set ex3) right \<and>
        map ep_index (pj_excluded pj) =
          filter (\<lambda>i. votes ! i = 0) ps @ filter (\<lambda>i. votes ! i \<noteq> n) voters @ map fst ex3 \<and>
        attested_enough thr att (pj_legit pj) \<and>
        pj_early_rewards_possible pj = early_rewards_possible right att (length ps) n u))"
proof -
  define pj0 where "pj0 = \<lparr>pj_legit = ps, pj_excluded = [], pj_early_rewards_possible = False\<rparr>"
  define pj1 where "pj1 = exclude_participants (map (\<lambda>i. (i, NoVote)) (filter (\<lambda>i. votes ! i = 0) ps)) pj0"
  have legit1: "pj_legit pj1 = voters"
    by (auto simp: pj1_def pj_legit_exclude pj0_def voters_def image_image intro!: filter_cong)
  have rng1: "\<forall>i\<in>set voters. i < length votes" using rng by (simp add: voters_def)
  show ?thesis
  proof (cases "find_majority_vote voters votes")
    case (Inl e)
    then have "get_participant_judgements ps votes att thr = Inl e"
      using legit1 unfolding get_participant_judgements_def pj0_def[symmetric] Let_def
      by (simp add: no_vote_spec[OF rng] pj0_def pj1_def)
    with Inl show ?thesis by blast
  next
    case (Inr ncu)
    obtain n c u where ncu: "ncu = (n, c, u)" by (cases ncu)
    define right where "right = filter (\<lambda>i. votes ! i = n) voters"
    define pj2 where "pj2 = exclude_participants (map (\<lambda>i. (i, WrongVote)) (filter (\<lambda>i. votes ! i \<noteq> n) voters)) pj1"
    have legit2: "pj_legit pj2 = right"
      by (auto simp: pj2_def pj_legit_exclude legit1 right_def image_image intro!: filter_cong)
    have "distinct right" "small_attestations right att" "length right \<le> length right"
      using dist sm by (auto simp: right_def voters_def small_attestations_def)
    from loop_spec[OF this, of thr "[]"] obtain ex3 where ex3:
      "get_excluded_participants_num_attestations right att thr = Inr ex3"
      "distinct (map fst ex3)" "fst ` set ex3 \<subseteq> set right"
      "attested_enough thr att (filter (\<lambda>i. i \<notin> fst ` set ex3) right)"
      by (auto simp: get_excluded_participants_num_attestations_def)
    define pj where "pj = (exclude_participants ex3 pj2)
      \<lparr>pj_early_rewards_possible := early_rewards_possible right att (length ps) n u\<rparr>"
    have "get_participant_judgements ps votes att thr = Inr pj"
      using Inr ncu legit1 legit2 ex3(1) rng1
      unfolding get_participant_judgements_def Let_def pj_def pj2_def
      by (simp add: no_vote_spec[OF rng] wrong_vote_spec[OF rng1] pj0_def pj1_def)
    moreover have "map ep_index (pj_excluded pj) =
        filter (\<lambda>i. votes ! i = 0) ps @ filter (\<lambda>i. votes ! i \<noteq> n) voters @ map fst ex3"
      by (simp add: pj_def pj_excluded_exclude pj2_def pj1_def pj0_def o_def)
    moreover have "pj_legit pj = filter (\<lambda>i. i \<notin> fst ` set ex3) right"
      by (simp add: pj_def pj_legit_exclude legit2)
    ultimately show ?thesis
      using Inr ncu ex3 unfolding right_def[symmetric] Let_def
      by (intro disjI2 exI[of _ n] exI[of _ c] exI[of _ u] exI[of _ ex3] exI[of _ pj])
         (auto simp: pj_def right_def[symmetric])
  qed
qed

section \<open>Properties\<close>

text \<open>
  What \<open>claim_rewards\<close> passes in: distinct participants with a vote and an attestation vector each,
  in numbers that a \<open>u32\<close> counter and an \<open>i32\<close> cast can hold.
\<close>

definition ballot_ok :: "nat list \<Rightarrow> nat list \<Rightarrow> Attestations \<Rightarrow> bool" where
  "ballot_ok ps votes att \<longleftrightarrow>
     distinct ps \<and> (\<forall>i\<in>set ps. i < length votes) \<and> small_attestations ps att \<and> length ps < 2 ^ 32"

definition voters_for :: "nat list \<Rightarrow> nat list \<Rightarrow> nat \<Rightarrow> nat list" where
  "voters_for ps votes n = filter (\<lambda>i. votes ! i = n) ps"

lemma count_voters: "n \<noteq> 0 \<Longrightarrow>
  count_list (map ((!) votes) (filter (\<lambda>i. votes ! i \<noteq> 0) ps)) n = length (voters_for ps votes n)"
  by (induction ps) (auto simp: voters_for_def)

lemma majority_of_voters:
  assumes ok: "ballot_ok ps votes att"
  defines "voters \<equiv> filter (\<lambda>i. votes ! i \<noteq> 0) ps"
  shows "(find_majority_vote voters votes = Inl e \<longrightarrow>
      e = (if voters = [] then BallotEmpty else NoDependableVote) \<and> (\<forall>n\<noteq>0. length (voters_for ps votes n) < 3)) \<and>
    (find_majority_vote voters votes = Inr (n, c, u) \<longrightarrow>
      n \<noteq> 0 \<and> 3 \<le> length (voters_for ps votes n) \<and>
      (\<forall>m\<noteq>0. length (voters_for ps votes m) \<le> length (voters_for ps votes n)) \<and>
      u = (\<forall>i\<in>set voters. votes ! i = n))"
proof -
  let ?vs = "map ((!) votes) voters"
  have len: "length voters < 2 ^ 32" "\<forall>i\<in>set voters. i < length votes"
    using ok by (auto simp: ballot_ok_def voters_def intro: le_less_trans[OF length_filter_le])
  have cnt: "m \<noteq> 0 \<Longrightarrow> count_list ?vs m = length (voters_for ps votes m)" for m
    unfolding voters_def by (rule count_voters)
  show ?thesis
  proof (cases "voters = []")
    case True
    then have "voters_for ps votes m = []" if "m \<noteq> 0" for m
      using that by (auto simp: voters_def voters_for_def filter_empty_conv)
    then show ?thesis using majority_vote_spec[OF len] True by simp
  next
    case False
    then obtain k where k: "k \<in> set ?vs" "\<forall>v. count_list ?vs v \<le> count_list ?vs k"
      "find_majority_vote voters votes =
        (if count_list ?vs k < 3 then Inl NoDependableVote
         else Inr (k, count_list ?vs k, \<forall>v\<in>set ?vs. v = k))"
      using majority_vote_spec[OF len] by auto
    have k0: "k \<noteq> 0" using k(1) by (auto simp: voters_def)
    have best: "\<forall>m\<noteq>0. length (voters_for ps votes m) \<le> length (voters_for ps votes k)"
      using k(2) cnt k0 by metis
    show ?thesis
    proof (cases "length (voters_for ps votes k) < 3")
      case True
      then have "\<forall>m\<noteq>0. length (voters_for ps votes m) < 3" using best by (meson le_less_trans)
      then show ?thesis using k(3) cnt[OF k0] True False by simp
    next
      case low: False
      then show ?thesis using k(3) cnt[OF k0] best k0 by auto
    qed
  qed
qed

lemma judgements_Inr:
  assumes "ballot_ok ps votes att" and "get_participant_judgements ps votes att thr = Inr pj"
  obtains n c u ex3 where
    "find_majority_vote (filter (\<lambda>i. votes ! i \<noteq> 0) ps) votes = Inr (n, c, u)" and "n \<noteq> 0"
    "get_excluded_participants_num_attestations (voters_for ps votes n) att thr = Inr ex3"
    "distinct (map fst ex3)" "fst ` set ex3 \<subseteq> set (voters_for ps votes n)"
    "pj_legit pj = filter (\<lambda>i. i \<notin> fst ` set ex3) (voters_for ps votes n)"
    "map ep_index (pj_excluded pj) = filter (\<lambda>i. votes ! i = 0) ps @
       filter (\<lambda>i. votes ! i \<noteq> n) (filter (\<lambda>i. votes ! i \<noteq> 0) ps) @ map fst ex3"
    "attested_enough thr att (pj_legit pj)"
    "pj_early_rewards_possible pj = early_rewards_possible (voters_for ps votes n) att (length ps) n u"
proof -
  have pre: "distinct ps" "\<forall>i\<in>set ps. i < length votes" "small_attestations ps att" "length ps < 2 ^ 32"
    using assms(1) by (auto simp: ballot_ok_def)
  have right: "n \<noteq> 0 \<Longrightarrow> filter (\<lambda>i. votes ! i = n) (filter (\<lambda>i. votes ! i \<noteq> 0) ps) = voters_for ps votes n" for n
    by (auto simp: voters_for_def intro: filter_cong)
  have not0: "find_majority_vote (filter (\<lambda>i. votes ! i \<noteq> 0) ps) votes = Inr (n, c, u) \<Longrightarrow> n \<noteq> 0" for n c u
    using majority_of_voters[OF assms(1)] by blast
  from judgements_spec[OF pre, of thr] show thesis
  proof (elim disjE exE conjE)
    fix e assume "get_participant_judgements ps votes att thr = Inl e"
    then show thesis using assms(2) by simp
  next
    fix n c u ex3 pj'
    assume maj: "find_majority_vote (filter (\<lambda>i. votes ! i \<noteq> 0) ps) votes = Inr (n, c, u)"
      and res: "get_participant_judgements ps votes att thr = Inr pj'"
      and rest: "let right = filter (\<lambda>i. votes ! i = n) (filter (\<lambda>i. votes ! i \<noteq> 0) ps) in
        get_excluded_participants_num_attestations right att thr = Inr ex3 \<and>
        distinct (map fst ex3) \<and> fst ` set ex3 \<subseteq> set right \<and>
        pj_legit pj' = filter (\<lambda>i. i \<notin> fst ` set ex3) right \<and>
        map ep_index (pj_excluded pj') =
          filter (\<lambda>i. votes ! i = 0) ps @
          filter (\<lambda>i. votes ! i \<noteq> n) (filter (\<lambda>i. votes ! i \<noteq> 0) ps) @ map fst ex3 \<and>
        attested_enough thr att (pj_legit pj') \<and>
        pj_early_rewards_possible pj' = early_rewards_possible right att (length ps) n u"
    have "pj' = pj" using res assms(2) by simp
    then show thesis
      using that[OF maj not0[OF maj]] rest unfolding Let_def right[OF not0[OF maj]] by blast
  qed
qed

text \<open>Three participants who all voted and attested each other, used in the instances below.\<close>

lemma triangle_ok: "ballot_ok [0, 1, 2] [3, 3, 3] [[1, 2], [0, 2], [0, 1]]"
  by (simp add: ballot_ok_def small_attestations_def)

lemma triangle_judgements:
  "get_participant_judgements [0, 1, 2] [3, 3, 3] [[1, 2], [0, 2], [0, 1]] attestation_threshold_fn =
     Inr \<lparr>pj_legit = [0, 1, 2], pj_excluded = [], pj_early_rewards_possible = True\<rparr>"
proof -
  have "get_excluded_participants_no_vote [0, 1, 2] [3, 3, 3] = Inr []" by code_simp
  moreover have "find_majority_vote [0, 1, 2] [3, 3, 3] = Inr (3, 3, True)" by code_simp
  moreover have "get_excluded_participants_wrong_vote [0, 1, 2] [3, 3, 3] 3 = Inr []" by code_simp
  moreover have "early_rewards_possible [0, 1, 2] [[1, 2], [0, 2], [0, 1]] (length [0, 1, 2 :: nat]) 3 True"
    by code_simp
  moreover have "get_excluded_participants_num_attestations [0, 1, 2] [[1, 2], [0, 2], [0, 1]]
      attestation_threshold_fn = Inr []" by code_simp
  ultimately show ?thesis
    by (simp add: get_participant_judgements_def exclude_participants_def numeral_3_eq_3
        del: get_excluded_participants_no_vote.simps get_excluded_participants_wrong_vote.simps)
qed

text \<open>C2: Safety of the judgement. Whoever is declared legitimate voted for the winning, non-zero
  participant count, which at least three participants voted for and no other count got more
  votes; and the legitimate participants each have at least the threshold of attestations, given to
  other legitimate participants and received from participants of the meetup.\<close>

theorem legit_participants_attested:
  assumes "ballot_ok ps votes att" and "get_participant_judgements ps votes att thr = Inr pj"
  shows "\<exists>n. n \<noteq> 0 \<and> (\<forall>p\<in>set (pj_legit pj). votes ! p = n) \<and> 3 \<le> length (voters_for ps votes n) \<and>
    (\<forall>m. m \<noteq> 0 \<longrightarrow> length (voters_for ps votes m) \<le> length (voters_for ps votes n)) \<and>
    (\<forall>p\<in>set (pj_legit pj).
       thr (length (pj_legit pj)) \<le> outgoing (pj_legit pj) att p \<and>
       thr (length (pj_legit pj)) \<le> incoming att p)"
proof -
  show ?thesis
  proof (cases rule: judgements_Inr[OF assms])
    case (1 n c u ex3)
    have "\<forall>p\<in>set (pj_legit pj). votes ! p = n" using 1(6) by (simp add: voters_for_def)
    with majority_of_voters[OF assms(1)] 1(1) 1(8) show ?thesis
      unfolding attested_enough_def by (intro exI[of _ n]) blast
  qed
qed

theorem legit_participants_attested_witness:
  "ballot_ok [0, 1, 2] [3, 3, 3] [[1, 2], [0, 2], [0, 1]] \<and>
   get_participant_judgements [0, 1, 2] [3, 3, 3] [[1, 2], [0, 2], [0, 1]] attestation_threshold_fn =
     Inr \<lparr>pj_legit = [0, 1, 2], pj_excluded = [], pj_early_rewards_possible = True\<rparr> \<and>
   list_all (\<lambda>p. 2 \<le> incoming [[1, 2], [0, 2], [0, 1]] p) [0, 1, 2]"
proof -
  have "attestation_threshold_fn (length [0, 1, 2 :: nat]) = 2" by code_simp
  then have "\<forall>p\<in>set [0, 1, 2]. 2 \<le> incoming [[1, 2], [0, 2], [0, 1]] p"
    using legit_participants_attested[OF triangle_ok triangle_judgements]
    unfolding ParticipantJudgements.simps by metis
  then show ?thesis using triangle_ok triangle_judgements by (simp add: list_all_iff)
qed

text \<open>The judgement partitions the participants: each one is either legitimate or excluded, and
  excluded exactly once.\<close>

theorem judgements_partition:
  assumes "ballot_ok ps votes att" and "get_participant_judgements ps votes att thr = Inr pj"
  shows "mset (pj_legit pj) + mset (map ep_index (pj_excluded pj)) = mset ps"
proof -
  have dist: "distinct ps" using assms(1) by (simp add: ballot_ok_def)
  have "mset (pj_legit pj @ map ep_index (pj_excluded pj)) = mset ps"
  proof (cases rule: judgements_Inr[OF assms])
    case (1 n c u ex3)
    have "set (pj_legit pj @ map ep_index (pj_excluded pj)) = set ps"
      using 1(5) unfolding 1(6) 1(7) by (auto simp: voters_for_def)
    moreover have "distinct (pj_legit pj @ map ep_index (pj_excluded pj))"
      using 1(2,4,5) dist unfolding 1(6) 1(7) by (auto simp: voters_for_def)
    ultimately show ?thesis using dist set_eq_iff_mset_eq_distinct by blast
  qed
  then show ?thesis by simp
qed

theorem judgements_partition_witness:
  "mset [0, 1, 2] + mset (map ep_index []) = mset [0, 1, 2 :: nat]"
  using judgements_partition[OF triangle_ok triangle_judgements] by simp

lemma judgements_errors:
  assumes "ballot_ok ps votes att"
  shows "get_participant_judgements ps votes att thr \<noteq> Inl IndexOutOfBounds \<and>
    (get_participant_judgements ps votes att thr = Inl BallotEmpty \<longleftrightarrow> (\<forall>i\<in>set ps. votes ! i = 0)) \<and>
    (get_participant_judgements ps votes att thr = Inl NoDependableVote \<longleftrightarrow>
       (\<exists>i\<in>set ps. votes ! i \<noteq> 0) \<and> (\<forall>n. n \<noteq> 0 \<longrightarrow> length (voters_for ps votes n) < 3))"
proof -
  let ?voters = "filter (\<lambda>i. votes ! i \<noteq> 0) ps"
  have pre: "distinct ps" "\<forall>i\<in>set ps. i < length votes" "small_attestations ps att" "length ps < 2 ^ 32"
    using assms by (auto simp: ballot_ok_def)
  have empty: "?voters = [] \<longleftrightarrow> (\<forall>i\<in>set ps. votes ! i = 0)" by (simp add: filter_empty_conv)
  show ?thesis
  proof (cases "find_majority_vote ?voters votes")
    case (Inl e)
    with judgements_spec[OF pre, of thr] have "get_participant_judgements ps votes att thr = Inl e" by auto
    moreover have "e = (if ?voters = [] then BallotEmpty else NoDependableVote)"
      "\<forall>n. n \<noteq> 0 \<longrightarrow> length (voters_for ps votes n) < 3"
      using majority_of_voters[OF assms] Inl by blast+
    ultimately show ?thesis using empty by auto
  next
    case (Inr r)
    obtain n c u where r: "r = (n, c, u)" by (cases r)
    have n: "n \<noteq> 0" "3 \<le> length (voters_for ps votes n)"
      using majority_of_voters[OF assms] Inr r by blast+
    then have some: "\<exists>i\<in>set ps. votes ! i \<noteq> 0"
      by (cases "voters_for ps votes n") (auto simp: voters_for_def filter_eq_Cons_iff)
    have noerr: "\<forall>e. get_participant_judgements ps votes att thr \<noteq> Inl e"
      using judgements_spec[OF pre, of thr] Inr by auto
    have many: "\<not> (\<forall>n. n \<noteq> 0 \<longrightarrow> length (voters_for ps votes n) < 3)"
      using n not_less by blast
    show ?thesis using some noerr many by metis
  qed
qed

text \<open>C29: When a meetup cannot be judged: with one vote and one attestation vector per participant
  no index is ever out of bounds, the ballot is empty exactly if nobody voted, and the vote is
  undependable exactly if somebody voted and no count reached three votes; in every other case
  there is a judgement.\<close>

theorem judgements_error_iff:
  assumes "ballot_ok ps votes att"
  shows "get_participant_judgements ps votes att thr \<noteq> Inl IndexOutOfBounds \<and>
    (get_participant_judgements ps votes att thr = Inl BallotEmpty \<longleftrightarrow> (\<forall>i\<in>set ps. votes ! i = 0)) \<and>
    (get_participant_judgements ps votes att thr = Inl NoDependableVote \<longleftrightarrow>
       (\<exists>i\<in>set ps. votes ! i \<noteq> 0) \<and> (\<forall>n. n \<noteq> 0 \<longrightarrow> length (voters_for ps votes n) < 3))"
  by (rule judgements_errors[OF assms])

theorem judgements_error_iff_witness:
  "get_participant_judgements [0, 1, 2] [3, 2, 3] [[1, 2], [0, 2], [0, 1]] attestation_threshold_fn =
     Inl NoDependableVote"
proof -
  have ok: "ballot_ok [0, 1, 2] [3, 2, 3] [[1, 2], [0, 2], [0, 1]]"
    by (simp add: ballot_ok_def small_attestations_def)
  have "length (voters_for [0, 1, 2] [3, 2, 3] n) < 3" for n
    by (cases "n = 2") (simp_all add: voters_for_def)
  moreover have "\<exists>i\<in>set [0, 1, 2]. [3, 2, 3 :: nat] ! i \<noteq> 0" by simp
  ultimately show ?thesis using judgements_error_iff[OF ok] by blast
qed

text \<open>
  Everybody voted for the number of participants and attested everybody else: the meetup the
  protocol is made for.
\<close>

definition mutually_attested :: "nat list \<Rightarrow> nat list \<Rightarrow> Attestations \<Rightarrow> bool" where
  "mutually_attested ps votes att \<longleftrightarrow>
     (\<forall>p\<in>set ps. votes ! p = length ps \<and> set ps - {p} \<subseteq> set (att ! p))"

lemma outgoing_mutual:
  assumes "distinct ps" and "p \<in> set ps" and "set ps - {p} \<subseteq> set (att ! p)"
  shows "length ps - 1 \<le> outgoing ps att p"
proof -
  have "set ps - {p} \<subseteq> set (filter (\<lambda>j. j \<in> set ps) (att ! p))" using assms(3) by auto
  then have "card (set ps - {p}) \<le> length (filter (\<lambda>j. j \<in> set ps) (att ! p))"
    by (meson List.finite_set card_length card_mono order_trans)
  then show ?thesis using assms(1,2) by (simp add: outgoing_def distinct_card)
qed

lemma incoming_mutual:
  assumes "distinct ps" and "p \<in> set ps" and "\<forall>q\<in>set ps. q < length att"
    and "\<forall>q\<in>set ps - {p}. p \<in> set (att ! q)"
  shows "length ps - 1 \<le> incoming att p"
proof -
  let ?F = "filter (\<lambda>(idx, a). p \<noteq> idx \<and> p \<in> set a) (enumerate 0 att)"
  have "(\<lambda>q. (q, att ! q)) ` (set ps - {p}) \<subseteq> set ?F"
    using assms(3,4) by (auto simp: in_set_enumerate_eq)
  then have "card ((\<lambda>q. (q, att ! q)) ` (set ps - {p})) \<le> length ?F"
    by (meson List.finite_set card_length card_mono order_trans)
  moreover have "card ((\<lambda>q. (q, att ! q)) ` (set ps - {p})) = length ps - 1"
    using assms(1,2) by (subst card_image) (auto simp: inj_on_def distinct_card)
  ultimately show ?thesis by (simp add: incoming_def)
qed

lemma attestation_threshold_le: "2 \<le> n \<Longrightarrow> attestation_threshold_fn n \<le> n - 1"
  by (auto simp: attestation_threshold_fn_def saturating_sub_def)

lemma enough_loop_stops:
  assumes "attested_enough thr att ps" and "distinct ps" and "small_attestations ps att"
  shows "get_excluded_participants_num_attestations ps att thr = Inr []"
proof (cases "ps = []")
  case True
  then show ?thesis by (simp add: get_excluded_participants_num_attestations_def)
next
  case False
  then obtain k where k: "length ps = Suc k" by (cases ps) auto
  show ?thesis
    unfolding get_excluded_participants_num_attestations_def k
    by (cases rule: loop_step[OF False assms(3,2), of thr k "[]", case_names stop exclude])
       (use assms(1) in auto)
qed

text \<open>C28: Liveness of the judgement. When at least three participants met, all voted for their
  number and all attested each other, the pallet's own threshold excludes nobody.\<close>

theorem complete_meetup_all_legit:
  assumes "ballot_ok ps votes att" and "3 \<le> length ps" and "mutually_attested ps votes att"
  shows "\<exists>early. get_participant_judgements ps votes att attestation_threshold_fn =
    Inr \<lparr>pj_legit = ps, pj_excluded = [], pj_early_rewards_possible = early\<rparr>"
proof -
  have pre: "distinct ps" "small_attestations ps att" "\<forall>q\<in>set ps. q < length att"
    using assms(1) by (auto simp: ballot_ok_def small_attestations_def)
  have votes: "\<forall>p\<in>set ps. votes ! p = length ps"
    and att: "\<And>p. p \<in> set ps \<Longrightarrow> set ps - {p} \<subseteq> set (att ! p)"
    using assms(3) by (auto simp: mutually_attested_def)
  have enough: "attested_enough attestation_threshold_fn att ps"
    unfolding attested_enough_def
  proof (intro ballI conjI)
    fix p assume p: "p \<in> set ps"
    have thr: "attestation_threshold_fn (length ps) \<le> length ps - 1"
      using attestation_threshold_le assms(2) by simp
    show "attestation_threshold_fn (length ps) \<le> outgoing ps att p"
      using thr outgoing_mutual[OF pre(1) p att[OF p]] by simp
    show "attestation_threshold_fn (length ps) \<le> incoming att p"
      using thr incoming_mutual[OF pre(1) p pre(3)] att p by fastforce
  qed
  have all: "voters_for ps votes (length ps) = ps"
    using votes by (simp add: voters_for_def filter_id_conv)
  have "get_participant_judgements ps votes att attestation_threshold_fn \<noteq> Inl e" for e
  proof -
    have "length (voters_for ps votes (length ps)) \<ge> 3" "length ps \<noteq> 0" using all assms(2) by auto
    moreover have "\<exists>i\<in>set ps. votes ! i \<noteq> 0" using votes assms(2) by (cases ps) auto
    moreover have "e = IndexOutOfBounds \<or> e = BallotEmpty \<or> e = NoDependableVote" by (cases e) auto
    ultimately show ?thesis using judgements_errors[OF assms(1)] not_less by metis
  qed
  then obtain pj where pj: "get_participant_judgements ps votes att attestation_threshold_fn = Inr pj"
    by (cases "get_participant_judgements ps votes att attestation_threshold_fn") auto
  show ?thesis
  proof (cases rule: judgements_Inr[OF assms(1) pj])
    case (1 n c u ex3)
    have "3 \<le> length (voters_for ps votes n)" using majority_of_voters[OF assms(1)] 1(1) by blast
    then obtain p where "p \<in> set (voters_for ps votes n)" by (cases "voters_for ps votes n") auto
    then have "n = length ps" using votes by (auto simp: voters_for_def)
    then have "ex3 = []" using 1(3) all enough_loop_stops[OF enough pre(1,2)] by simp
    moreover have "filter (\<lambda>i. votes ! i = 0) ps = []" "filter (\<lambda>i. votes ! i \<noteq> n) ps = []"
      using votes assms(2) \<open>n = length ps\<close> by (auto simp: filter_empty_conv)
    ultimately have "pj_legit pj = ps" "pj_excluded pj = []"
      using 1(6,7) all \<open>n = length ps\<close> by (simp_all add: filter_empty_conv)
    then show ?thesis using pj by (metis ParticipantJudgements.surjective old.unit.exhaust)
  qed
qed

theorem complete_meetup_all_legit_witness:
  "\<exists>early. get_participant_judgements [0, 1, 2] [3, 3, 3] [[1, 2], [0, 2], [0, 1]] attestation_threshold_fn =
    Inr \<lparr>pj_legit = [0, 1, 2], pj_excluded = [], pj_early_rewards_possible = early\<rparr>"
proof (rule complete_meetup_all_legit)
  show "ballot_ok [0, 1, 2] [3, 3, 3] [[1, 2], [0, 2], [0, 1]]" by (rule triangle_ok)
  show "mutually_attested [0, 1, 2] [3, 3, 3] [[1, 2], [0, 2], [0, 1]]"
    by (auto simp: mutually_attested_def)
qed simp

text \<open>Early rewards are safe: when the judgement allows paying out before the attesting phase
  ends, everybody who voted voted for the same number, which is a strict majority of all
  participants, and each of them attested exactly the others.\<close>

theorem early_rewards_unanimous:
  assumes "ballot_ok ps votes att" and "get_participant_judgements ps votes att thr = Inr pj"
    and "pj_early_rewards_possible pj" and "\<forall>v\<in>set votes. v < 2 ^ 31"
  shows "\<exists>n. n \<noteq> 0 \<and> (\<forall>p\<in>set ps. votes ! p = 0 \<or> votes ! p = n) \<and> length ps < 2 * n \<and>
    (\<forall>p\<in>set (voters_for ps votes n).
       mset (att ! p) = mset (filter (\<lambda>q. q \<noteq> p) (voters_for ps votes n)) \<and>
       length (att ! p) + 1 = n)"
proof (cases rule: judgements_Inr[OF assms(1,2)])
  case (1 n c u ex3)
  let ?r = "voters_for ps votes n"
  have early: "u" "vote_yields_majority (length ps) n" "num_attestations_matches_vote ?r att n"
    "attestation_graph_is_fully_connected ?r att"
    using assms(3) 1(9) by (auto simp: early_rewards_possible_def)
  have maj: "3 \<le> length ?r" "u = (\<forall>i\<in>set (filter (\<lambda>i. votes ! i \<noteq> 0) ps). votes ! i = n)"
    using majority_of_voters[OF assms(1)] 1(1) by blast+
  obtain q where "q \<in> set ?r" using maj(1) by (cases ?r) auto
  then have "n \<in> set votes" using assms(1) by (auto simp: voters_for_def ballot_ok_def)
  then have n: "n < 2 ^ 31" using assms(4) by blast
  have "(p, att ! p) \<in> set (enumerate 0 att)" if "p \<in> set ?r" for p
    using that assms(1) by (auto simp: in_set_enumerate_eq voters_for_def ballot_ok_def small_attestations_def)
  then have "\<forall>p\<in>set ?r. sort (att ! p) = sort (filter (\<lambda>q. q \<noteq> p) ?r) \<and> length (att ! p) = wrapping_sub 32 n 1"
    using early(3,4) unfolding num_attestations_matches_vote_def attestation_graph_is_fully_connected_def
    by fastforce
  then have "\<forall>p\<in>set ?r. mset (att ! p) = mset (filter (\<lambda>q. q \<noteq> p) ?r) \<and> length (att ! p) + 1 = n"
    using 1(2) by (metis One_nat_def Suc_eq_plus1 Suc_pred mset_sort neq0_conv wrapping_sub_exact Suc_leI)
  moreover have "length ps < 2 * n"
    using early(2) n by (simp add: vote_yields_majority_def saturating_mul_exact)
  ultimately show ?thesis using 1(2) early(1) maj(2) by (intro exI[of _ n]) auto
qed

theorem early_rewards_unanimous_witness:
  "\<exists>n. n \<noteq> 0 \<and> length [0, 1, 2 :: nat] < 2 * n \<and>
     (\<forall>p\<in>set [0, 1, 2 :: nat]. [3, 3, 3 :: nat] ! p = 0 \<or> [3, 3, 3] ! p = n)"
proof -
  have "pj_early_rewards_possible
      \<lparr>pj_legit = [0, 1, 2], pj_excluded = [], pj_early_rewards_possible = True\<rparr>"
    "\<forall>v\<in>set [3, 3, 3 :: nat]. v < 2 ^ 31" by simp_all
  from early_rewards_unanimous[OF triangle_ok triangle_judgements this] show ?thesis by blast
qed

text \<open>
  Ten participants: 0 to 4 voted and attested each other, 5 voted and attested the first four, and
  6 to 9 did not vote and attested only 5.
\<close>

definition crowd_votes :: "nat list" where
  "crowd_votes = [6, 6, 6, 6, 6, 6, 0, 0, 0, 0]"

definition crowd_attestations :: Attestations where
  "crowd_attestations = [[1, 2, 3, 4], [0, 2, 3, 4], [0, 1, 3, 4], [0, 1, 2, 4], [0, 1, 2, 3], [0, 1, 2, 3],
     [5], [5], [5], [5]]"

lemma crowd_judgements:
  "map_sum id pj_legit (get_participant_judgements [0..<10] crowd_votes crowd_attestations attestation_threshold_fn) =
     Inr [0..<6]"
proof -
  have "get_excluded_participants_no_vote [0..<10] crowd_votes =
      Inr [(6, NoVote), (7, NoVote), (8, NoVote), (9, NoVote)]" by code_simp
  moreover have "filter (\<lambda>i. \<not> (\<exists>p\<in>set [(6, NoVote), (7, NoVote), (8, NoVote), (9, NoVote)]. fst p = i)) [0..<10]
      = [0..<6]" by code_simp
  moreover have "find_majority_vote [0..<6] crowd_votes = Inr (6, 6, True)" by code_simp
  moreover have "get_excluded_participants_wrong_vote [0..<6] crowd_votes 6 = Inr []" by code_simp
  moreover have "get_excluded_participants_num_attestations [0..<6] crowd_attestations
      attestation_threshold_fn = Inr []" by code_simp
  ultimately show ?thesis
    unfolding get_participant_judgements_def exclude_participants_def Let_def
    by (simp del: upt_rec_numeral get_excluded_participants_no_vote.simps
        get_excluded_participants_wrong_vote.simps)
qed

text \<open>Attestations by excluded participants count. A participant can be judged legitimate on the
  attestations of participants who did not even vote, without a single attestation by a
  legitimate one: only the targets of attestations are restricted to the remaining participants,
  never the attesters.\<close>

theorem excluded_attesters_count:
  "\<exists>pj. get_participant_judgements [0..<10] crowd_votes crowd_attestations attestation_threshold_fn = Inr pj \<and>
     5 \<in> set (pj_legit pj) \<and> filter (\<lambda>q. 5 \<in> set (crowd_attestations ! q)) (pj_legit pj) = []"
proof -
  obtain pj where pj: "get_participant_judgements [0..<10] crowd_votes crowd_attestations attestation_threshold_fn = Inr pj"
    "pj_legit pj = [0..<6]"
    using crowd_judgements
    by (cases "get_participant_judgements [0..<10] crowd_votes crowd_attestations attestation_threshold_fn") auto
  moreover have "filter (\<lambda>q. 5 \<in> set (crowd_attestations ! q)) [0..<6] = []" by code_simp
  ultimately show ?thesis by auto
qed

end
