(* ===== verification/Balances.thy ===== *)
theory Balances
  imports Community_Types
begin

text \<open>
  Community balances with demurrage: \<open>primitives/src/balances.rs\<close>, \<open>balances/src/lib.rs\<close> and
  \<open>balances/src/impl_fungibles.rs\<close>. A balance is the \<open>u128\<close> of its \<open>U64F64\<close> bits. The exponential
  function of the fixed-point crate is a parameter; so are the constants of the runtime
  configuration. \<open>bl_block\<close> is the block number of the system pallet, and \<open>bl_sufficients\<close> counts the
  \<open>inc_sufficients\<close> less the \<open>dec_sufficients\<close> calls made for an account.
\<close>

section \<open>Balance entries\<close>

record BalanceEntry =
  principal :: BalanceType
  last_update :: nat

definition entry_default :: BalanceEntry where
  "entry_default = \<lparr>principal = 0, last_update = 0\<rparr>"

text \<open>\<open>exp\<close> takes and returns \<open>I64F64\<close> bits and fails with \<open>None\<close>.\<close>

type_synonym exp_fn = "int \<Rightarrow> int option"

definition to_U64F64 :: "int \<Rightarrow> BalanceType option" where
  "to_U64F64 source = (if source < 0 then None else Some (nat source))"

definition demurrage_factor :: "exp_fn \<Rightarrow> Demurrage \<Rightarrow> nat \<Rightarrow> BalanceType" where
  "demurrage_factor exp demurrage_per_block elapsed_blocks =
     (case signed_checked 128 (- \<bar>demurrage_per_block\<bar> * int elapsed_blocks) of
        None \<Rightarrow> 0
      | Some exponent \<Rightarrow>
          (let f = value_query 0 (exp exponent) in value_query (2 ^ 64) (to_U64F64 f)))"

text \<open>\<open>None\<close> is the panic of the \<open>expect\<close> on the product.\<close>

definition apply_demurrage :: "exp_fn \<Rightarrow> BalanceEntry \<Rightarrow> Demurrage \<Rightarrow> nat \<Rightarrow> BalanceEntry option" where
  "apply_demurrage exp entry demurrage_per_block current_block_number =
     (if last_update entry = current_block_number then Some entry
      else if principal entry = 0
      then Some \<lparr>principal = principal entry, last_update = current_block_number\<rparr>
      else
        (let elapsed_blocks = value_query 0 (checked_sub current_block_number (last_update entry));
             elapsed_u32 = (if elapsed_blocks < 2 ^ 32 then elapsed_blocks else 2 ^ 32 - 1);
             product = principal entry * demurrage_factor exp demurrage_per_block elapsed_u32 div 2 ^ 64
         in if product < 2 ^ 128
            then Some \<lparr>principal = product, last_update = current_block_number\<rparr>
            else None))"

section \<open>Conversion to and from fungibles\<close>

definition ONE_ENCOINTER_BALANCE_UNIT :: nat where
  "ONE_ENCOINTER_BALANCE_UNIT = 1000000000000000000"

text \<open>
  \<open>saturating_mul_int\<close> of the fractional part scales its bits; \<open>to_num\<close> drops the 64 fractional bits.
\<close>

definition fungible :: "BalanceType \<Rightarrow> nat" where
  "fungible bits =
     wrapping_add 128
       (wrapping_mul 128 (bits div 2 ^ 64) ONE_ENCOINTER_BALANCE_UNIT)
       (saturating_mul 128 (as_unsigned 64 bits) ONE_ENCOINTER_BALANCE_UNIT div 2 ^ 64)"

text \<open>
  \<open>U66F62::from_num(2^64)\<close> has the bits \<open>2 ^ 126\<close>, and \<open>to_fixed\<close> shifts by two to \<open>U64F64\<close>; the product
  of two fixed-point numbers drops 64 bits and saturates.
\<close>

definition conversion_factor :: nat where
  "conversion_factor = 2 ^ 126 div ONE_ENCOINTER_BALANCE_UNIT * 4"

definition balance_type :: "nat \<Rightarrow> BalanceType" where
  "balance_type fungible_balance =
     (let f64_part = as_unsigned 64 fungible_balance * 2 ^ 64 div ONE_ENCOINTER_BALANCE_UNIT;
          i64_part = min (fungible_balance div 2 ^ 64 * 2 ^ 64 * conversion_factor div 2 ^ 64) (2 ^ 128 - 1)
      in wrapping_add 128 (wrapping_add 128 0 f64_part) i64_part)"

section \<open>The pallet\<close>

datatype balances_event =
    Endowed CommunityIdentifier AccountId BalanceType
  | Transferred CommunityIdentifier AccountId AccountId BalanceType
  | Issued CommunityIdentifier AccountId BalanceType
  | Burned CommunityIdentifier AccountId BalanceType
  | FeeConversionFactorUpdated nat

datatype balances_error =
    BalanceTooLow | TotalIssuanceOverflow | NoAccount | ExistentialDeposit
  | BalancesBadOrigin | BalancesPanic

record balances_config =
  bc_exp :: exp_fn
  bc_default_demurrage :: Demurrage
  bc_existential_deposit :: BalanceType

record balances =
  bl_total_issuance :: "CommunityIdentifier \<Rightarrow> BalanceEntry option"
  bl_balance :: "CommunityIdentifier \<Rightarrow> AccountId \<Rightarrow> BalanceEntry option"
  bl_demurrage_per_block :: "CommunityIdentifier \<Rightarrow> Demurrage option"
  bl_fee_conversion_factor :: nat
  bl_events :: "balances_event list"
  bl_sufficients :: "AccountId \<Rightarrow> int"
  bl_block :: nat

definition balances_genesis :: "nat \<Rightarrow> balances" where
  "balances_genesis fee_conversion_factor =
     \<lparr>bl_total_issuance = Map.empty, bl_balance = (\<lambda>_. Map.empty), bl_demurrage_per_block = Map.empty,
      bl_fee_conversion_factor = fee_conversion_factor, bl_events = [], bl_sufficients = (\<lambda>_. 0), bl_block = 0\<rparr>"

definition bl_deposit_event :: "balances_event \<Rightarrow> balances \<Rightarrow> balances" where
  "bl_deposit_event e s = s\<lparr>bl_events := bl_events s @ [e]\<rparr>"

definition demurrage :: "balances_config \<Rightarrow> balances \<Rightarrow> CommunityIdentifier \<Rightarrow> Demurrage" where
  "demurrage c s cid = value_query (bc_default_demurrage c) (bl_demurrage_per_block s cid)"

definition pallet_apply_demurrage ::
  "balances_config \<Rightarrow> balances \<Rightarrow> BalanceEntry \<Rightarrow> Demurrage \<Rightarrow> balances_error + BalanceEntry" where
  "pallet_apply_demurrage c s entry d =
     ok_or (apply_demurrage (bc_exp c) entry d (bl_block s)) BalancesPanic"

definition balance_entry_updated ::
  "balances_config \<Rightarrow> balances \<Rightarrow> CommunityIdentifier \<Rightarrow> AccountId \<Rightarrow> balances_error + BalanceEntry" where
  "balance_entry_updated c s cid who =
     pallet_apply_demurrage c s (value_query entry_default (bl_balance s cid who)) (demurrage c s cid)"

definition balance ::
  "balances_config \<Rightarrow> balances \<Rightarrow> CommunityIdentifier \<Rightarrow> AccountId \<Rightarrow> balances_error + BalanceType" where
  "balance c s cid who = bind_res (balance_entry_updated c s cid who) (\<lambda>e. Inr (principal e))"

definition total_issuance_entry_updated ::
  "balances_config \<Rightarrow> balances \<Rightarrow> CommunityIdentifier \<Rightarrow> balances_error + BalanceEntry" where
  "total_issuance_entry_updated c s cid =
     pallet_apply_demurrage c s (value_query entry_default (bl_total_issuance s cid)) (demurrage c s cid)"

definition total_issuance ::
  "balances_config \<Rightarrow> balances \<Rightarrow> CommunityIdentifier \<Rightarrow> balances_error + BalanceType" where
  "total_issuance c s cid = bind_res (total_issuance_entry_updated c s cid) (\<lambda>e. Inr (principal e))"

definition new_account :: "AccountId \<Rightarrow> balances \<Rightarrow> balances" where
  "new_account who s = s\<lparr>bl_sufficients := (bl_sufficients s)(who := bl_sufficients s who + 1)\<rparr>"

definition insert_balance :: "CommunityIdentifier \<Rightarrow> AccountId \<Rightarrow> BalanceEntry \<Rightarrow> balances \<Rightarrow> balances" where
  "insert_balance cid who e s = s\<lparr>bl_balance := dm_insert cid who e (bl_balance s)\<rparr>"

definition remove_account ::
  "balances_config \<Rightarrow> CommunityIdentifier \<Rightarrow> AccountId \<Rightarrow> balances \<Rightarrow> balances_error + balances" where
  "remove_account c cid who s =
     ensure (contains (bl_balance s cid who)) NoAccount (
     bind_res (balance c s cid who) (\<lambda>b.
     ensure (b < bc_existential_deposit c) ExistentialDeposit (
     Inr (s\<lparr>bl_balance := dm_remove cid who (bl_balance s),
            bl_sufficients := (bl_sufficients s)(who := bl_sufficients s who - 1)\<rparr>))))"

definition do_transfer ::
  "balances_config \<Rightarrow> CommunityIdentifier \<Rightarrow> AccountId \<Rightarrow> AccountId \<Rightarrow> BalanceType \<Rightarrow> balances \<Rightarrow>
   balances_error + balances" where
  "do_transfer c cid source dest amount s =
     (if amount = 0 then Inr (bl_deposit_event (Transferred cid source dest amount) s)
      else
        ensure (contains (bl_balance s cid source)) NoAccount (
        bind_res (balance_entry_updated c s cid source) (\<lambda>entry_from.
        ensure (principal entry_from \<ge> amount) BalanceTooLow (
        if source = dest then Inr (insert_balance cid source entry_from s)
        else
          bind_res
            (if \<not> contains (bl_balance s cid dest)
             then ensure (amount > bc_existential_deposit c) ExistentialDeposit
                    (Inr (bl_deposit_event (Endowed cid dest amount) (new_account dest s)))
             else Inr s) (\<lambda>s1.
          bind_res (balance_entry_updated c s1 cid dest) (\<lambda>entry_to.
          let entry_from' = entry_from\<lparr>principal := saturating_sub (principal entry_from) amount\<rparr>;
              entry_to' = entry_to\<lparr>principal := saturating_add 128 (principal entry_to) amount\<rparr>;
              s2 = insert_balance cid dest entry_to' (insert_balance cid source entry_from' s1);
              s3 = bl_deposit_event (Transferred cid source dest amount) s2
          in bind_res (balance_entry_updated c s3 cid source) (\<lambda>entry_from''.
             if principal entry_from'' < bc_existential_deposit c
             then remove_account c cid source s3
             else Inr s3)))))))"

text \<open>\<open>issue\<close> counts the new account before it may fail, so it returns the state in both cases.\<close>

definition issue ::
  "balances_config \<Rightarrow> CommunityIdentifier \<Rightarrow> AccountId \<Rightarrow> BalanceType \<Rightarrow> balances \<Rightarrow>
   (balances_error + unit) \<times> balances" where
  "issue c cid who amount s =
     (let s1 = (if \<not> contains (bl_balance s cid who) then new_account who s else s) in
      case bind_res (balance_entry_updated c s1 cid who) (\<lambda>entry_who.
           bind_res (total_issuance_entry_updated c s1 cid) (\<lambda>entry_tot.
           ensure (checked_add 128 (principal entry_tot) amount \<noteq> None) TotalIssuanceOverflow (
           Inr (entry_who, entry_tot)))) of
        Inl e \<Rightarrow> (Inl e, s1)
      | Inr (entry_who, entry_tot) \<Rightarrow>
          (let s2 = s1\<lparr>bl_total_issuance := (bl_total_issuance s1)
                 (cid \<mapsto> entry_tot\<lparr>principal := wrapping_add 128 (principal entry_tot) amount\<rparr>)\<rparr>;
               s3 = insert_balance cid who
                      (entry_who\<lparr>principal := wrapping_add 128 (principal entry_who) amount\<rparr>) s2
           in (Inr (), bl_deposit_event (Issued cid who amount) s3)))"

definition burn ::
  "balances_config \<Rightarrow> CommunityIdentifier \<Rightarrow> AccountId \<Rightarrow> BalanceType \<Rightarrow> balances \<Rightarrow>
   balances_error + balances" where
  "burn c cid who amount s =
     bind_res (balance_entry_updated c s cid who) (\<lambda>entry_who.
     bind_res (total_issuance_entry_updated c s cid) (\<lambda>entry_tot.
     bind_res (ok_or (checked_sub (principal entry_who) amount) BalanceTooLow) (\<lambda>res.
     let s1 = s\<lparr>bl_total_issuance := (bl_total_issuance s)
                (cid \<mapsto> entry_tot\<lparr>principal := saturating_sub (principal entry_tot) amount\<rparr>)\<rparr>;
         s2 = insert_balance cid who (entry_who\<lparr>principal := res\<rparr>) s1
     in Inr (bl_deposit_event (Burned cid who amount) s2))))"

definition set_demurrage :: "CommunityIdentifier \<Rightarrow> Demurrage \<Rightarrow> balances \<Rightarrow> RangeError + balances" where
  "set_demurrage cid d s =
     bind_res (validate_demurrage d) (\<lambda>_.
     Inr (s\<lparr>bl_demurrage_per_block := (bl_demurrage_per_block s)(cid \<mapsto> d)\<rparr>))"

definition purge_balances :: "CommunityIdentifier \<Rightarrow> balances \<Rightarrow> balances" where
  "purge_balances cid s =
     s\<lparr>bl_balance := dm_remove_prefix cid (bl_balance s),
       bl_total_issuance := (bl_total_issuance s)(cid := None),
       bl_demurrage_per_block := (bl_demurrage_per_block s)(cid := None)\<rparr>"

subsection \<open>Calls\<close>

text \<open>The origin of a signed call is the account; \<open>is_master\<close> is the outcome of the origin check.\<close>

definition transfer ::
  "balances_config \<Rightarrow> AccountId \<Rightarrow> AccountId \<Rightarrow> CommunityIdentifier \<Rightarrow> BalanceType \<Rightarrow> balances \<Rightarrow>
   balances_error + balances" where
  "transfer c from dest cid amount s = do_transfer c cid from dest amount s"

definition set_fee_conversion_factor :: "bool \<Rightarrow> nat \<Rightarrow> balances \<Rightarrow> balances_error + balances" where
  "set_fee_conversion_factor is_master factor s =
     ensure is_master BalancesBadOrigin (
     Inr (bl_deposit_event (FeeConversionFactorUpdated factor) (s\<lparr>bl_fee_conversion_factor := factor\<rparr>)))"

definition transfer_all ::
  "balances_config \<Rightarrow> AccountId \<Rightarrow> AccountId \<Rightarrow> CommunityIdentifier \<Rightarrow> balances \<Rightarrow> balances_error + balances" where
  "transfer_all c from dest cid s =
     bind_res (balance c s cid from) (\<lambda>amount. do_transfer c cid from dest amount s)"

subsection \<open>The fungibles interface\<close>

datatype DepositConsequence = DepositUnknownAsset | DepositOverflow | DepositSuccess

datatype WithdrawConsequence = WithdrawUnknownAsset | Underflow | BalanceLow | WithdrawSuccess

definition fungibles_total_issuance ::
  "balances_config \<Rightarrow> balances \<Rightarrow> CommunityIdentifier \<Rightarrow> balances_error + nat" where
  "fungibles_total_issuance c s asset = bind_res (total_issuance c s asset) (\<lambda>t. Inr (fungible t))"

definition asset_exists ::
  "balances_config \<Rightarrow> balances \<Rightarrow> CommunityIdentifier \<Rightarrow> balances_error + bool" where
  "asset_exists c s asset = bind_res (total_issuance c s asset) (\<lambda>t. Inr (t > 0))"

definition fungibles_balance ::
  "balances_config \<Rightarrow> balances \<Rightarrow> CommunityIdentifier \<Rightarrow> AccountId \<Rightarrow> balances_error + nat" where
  "fungibles_balance c s asset who = bind_res (balance c s asset who) (\<lambda>b. Inr (fungible b))"

definition reducible_balance ::
  "balances_config \<Rightarrow> balances \<Rightarrow> CommunityIdentifier \<Rightarrow> AccountId \<Rightarrow> balances_error + nat" where
  "reducible_balance c s asset who = bind_res (balance c s asset who) (\<lambda>b. Inr (fungible b))"

definition can_deposit ::
  "balances_config \<Rightarrow> balances \<Rightarrow> CommunityIdentifier \<Rightarrow> AccountId \<Rightarrow> nat \<Rightarrow> balances_error + DepositConsequence" where
  "can_deposit c s asset who amount =
     (case bl_total_issuance s asset of
        None \<Rightarrow> Inr DepositUnknownAsset
      | Some entry \<Rightarrow>
          (let balance_amount = balance_type amount in
           if checked_add 128 (principal entry) balance_amount = None then Inr DepositOverflow
           else
             bind_res (balance c s asset who) (\<lambda>b.
             if checked_add 128 b balance_amount = None then Inr DepositOverflow else Inr DepositSuccess)))"

definition can_withdraw ::
  "balances_config \<Rightarrow> balances \<Rightarrow> CommunityIdentifier \<Rightarrow> AccountId \<Rightarrow> nat \<Rightarrow> balances_error + WithdrawConsequence" where
  "can_withdraw c s asset who amount =
     (case bl_total_issuance s asset of
        None \<Rightarrow> Inr WithdrawUnknownAsset
      | Some entry \<Rightarrow>
          if checked_sub (fungible (principal entry)) amount = None then Inr Underflow
          else if amount = 0 then Inr WithdrawSuccess
          else
            bind_res (balance c s asset who) (\<lambda>b.
            if checked_sub (fungible b) amount = None then Inr BalanceLow else Inr WithdrawSuccess))"

definition write_balance :: "CommunityIdentifier \<Rightarrow> AccountId \<Rightarrow> nat \<Rightarrow> balances \<Rightarrow> balances" where
  "write_balance asset who amount s =
     insert_balance asset who \<lparr>principal = balance_type amount, last_update = bl_block s\<rparr> s"

definition set_total_issuance :: "CommunityIdentifier \<Rightarrow> nat \<Rightarrow> balances \<Rightarrow> balances" where
  "set_total_issuance asset amount s =
     s\<lparr>bl_total_issuance := (bl_total_issuance s)
         (asset \<mapsto> \<lparr>principal = balance_type amount, last_update = bl_block s\<rparr>)\<rparr>"

section \<open>Demurrage\<close>

text \<open>What the pallet relies on: the exponential of a number that is not positive is at most one.\<close>

definition exp_decays :: "exp_fn \<Rightarrow> bool" where
  "exp_decays exp \<longleftrightarrow> (\<forall>x y. x \<le> 0 \<longrightarrow> exp x = Some y \<longrightarrow> y \<le> 2 ^ 64)"

lemma demurrage_factor_le_one:
  assumes "exp_decays exp"
  shows "demurrage_factor exp d n \<le> 2 ^ 64"
proof (cases "signed_checked 128 (- \<bar>d\<bar> * int n)")
  case None
  then show ?thesis by (simp add: demurrage_factor_def)
next
  case (Some x)
  then have "x \<le> 0" by (auto simp: signed_checked_def split: if_splits)
  then have "value_query 0 (exp x) \<le> 2 ^ 64"
    using assms by (cases "exp x") (auto simp: exp_decays_def)
  then show ?thesis using Some by (simp add: demurrage_factor_def to_U64F64_def Let_def nat_le_iff)
qed

lemma apply_demurrage_decays:
  assumes "exp_decays exp" and "principal e < 2 ^ 128"
  shows "\<exists>e'. apply_demurrage exp e d now = Some e' \<and> principal e' \<le> principal e \<and> last_update e' = now"
proof -
  have "principal e * demurrage_factor exp d n div 2 ^ 64 \<le> principal e * 2 ^ 64 div 2 ^ 64" for n
    using demurrage_factor_le_one[OF assms(1)] by (intro div_le_mono mult_le_mono2)
  then have "principal e * demurrage_factor exp d n div 2 ^ 64 \<le> principal e" for n by simp
  then show ?thesis using assms(2) le_less_trans by (auto simp: apply_demurrage_def Let_def)
qed

lemma apply_demurrage_now [simp]: "last_update e = now \<Longrightarrow> apply_demurrage exp e d now = Some e"
  by (simp add: apply_demurrage_def)

lemma apply_no_demurrage:
  assumes "exp 0 = Some (2 ^ 64)" and "principal e < 2 ^ 128"
  shows "apply_demurrage exp e 0 now = Some (e\<lparr>last_update := now\<rparr>)"
  using assms by (auto simp: apply_demurrage_def demurrage_factor_def signed_checked_def in_signed_def
      to_U64F64_def Let_def)

section \<open>Entries of the pallet\<close>

definition entries_ok :: "balances \<Rightarrow> bool" where
  "entries_ok s \<longleftrightarrow>
     (\<forall>cid who e. bl_balance s cid who = Some e \<longrightarrow> principal e < 2 ^ 128) \<and>
     (\<forall>cid e. bl_total_issuance s cid = Some e \<longrightarrow> principal e < 2 ^ 128)"

text \<open>The balance of an account at the current block, as a plain number.\<close>

definition bal :: "balances_config \<Rightarrow> balances \<Rightarrow> CommunityIdentifier \<Rightarrow> AccountId \<Rightarrow> nat" where
  "bal c s cid who = (case balance c s cid who of Inr b \<Rightarrow> b | Inl _ \<Rightarrow> 0)"

definition issued :: "balances_config \<Rightarrow> balances \<Rightarrow> CommunityIdentifier \<Rightarrow> nat" where
  "issued c s cid = (case total_issuance c s cid of Inr t \<Rightarrow> t | Inl _ \<Rightarrow> 0)"

lemma value_query_entry:
  "(\<And>e. x = Some e \<Longrightarrow> principal e < 2 ^ 128) \<Longrightarrow> principal (value_query entry_default x) < 2 ^ 128"
  by (cases x) (simp_all add: entry_default_def)

lemma balance_entry_bal:
  assumes "exp_decays (bc_exp c)" and "entries_ok s"
  shows "balance_entry_updated c s cid who = Inr \<lparr>principal = bal c s cid who, last_update = bl_block s\<rparr>"
    and "bal c s cid who < 2 ^ 128"
    and "balance c s cid who = Inr (bal c s cid who)"
proof -
  let ?e = "value_query entry_default (bl_balance s cid who)"
  have e: "principal ?e < 2 ^ 128"
    using assms(2) by (intro value_query_entry) (auto simp: entries_ok_def)
  obtain e' where e': "apply_demurrage (bc_exp c) ?e (demurrage c s cid) (bl_block s) = Some e'"
    "principal e' \<le> principal ?e" "last_update e' = bl_block s"
    using apply_demurrage_decays[OF assms(1) e] by blast
  then have up: "balance_entry_updated c s cid who = Inr e'"
    by (simp add: balance_entry_updated_def pallet_apply_demurrage_def ok_or_def)
  then have "bal c s cid who = principal e'" by (simp add: bal_def balance_def)
  then show "balance_entry_updated c s cid who = Inr \<lparr>principal = bal c s cid who, last_update = bl_block s\<rparr>"
    "bal c s cid who < 2 ^ 128" "balance c s cid who = Inr (bal c s cid who)"
    using up e' e by (auto simp: balance_def)
qed

lemma total_entry_issued:
  assumes "exp_decays (bc_exp c)" and "entries_ok s"
  shows "total_issuance_entry_updated c s cid = Inr \<lparr>principal = issued c s cid, last_update = bl_block s\<rparr>"
    and "issued c s cid < 2 ^ 128"
proof -
  let ?e = "value_query entry_default (bl_total_issuance s cid)"
  have e: "principal ?e < 2 ^ 128"
    using assms(2) by (intro value_query_entry) (auto simp: entries_ok_def)
  obtain e' where e': "apply_demurrage (bc_exp c) ?e (demurrage c s cid) (bl_block s) = Some e'"
    "principal e' \<le> principal ?e" "last_update e' = bl_block s"
    using apply_demurrage_decays[OF assms(1) e] by blast
  then have up: "total_issuance_entry_updated c s cid = Inr e'"
    by (simp add: total_issuance_entry_updated_def pallet_apply_demurrage_def ok_or_def)
  then have "issued c s cid = principal e'" by (simp add: issued_def total_issuance_def)
  then show "total_issuance_entry_updated c s cid = Inr \<lparr>principal = issued c s cid, last_update = bl_block s\<rparr>"
    "issued c s cid < 2 ^ 128"
    using up e' e by auto
qed

text \<open>An entry written at the current block is read back as it is.\<close>

lemma balance_entry_fresh:
  assumes "bl_balance s cid who = Some \<lparr>principal = p, last_update = bl_block s\<rparr>"
  shows "balance_entry_updated c s cid who = Inr \<lparr>principal = p, last_update = bl_block s\<rparr>"
    and "bal c s cid who = p" and "balance c s cid who = Inr p"
  using assms
  by (simp_all add: bal_def balance_def balance_entry_updated_def pallet_apply_demurrage_def ok_or_def)

lemma bal_none:
  "bl_balance s cid who = None \<Longrightarrow> bal c s cid who = 0"
  by (simp add: bal_def balance_def balance_entry_updated_def pallet_apply_demurrage_def ok_or_def
      entry_default_def apply_demurrage_def)

lemma balance_entry_cong:
  assumes "bl_balance s' cid who = bl_balance s cid who"
    and "bl_demurrage_per_block s' = bl_demurrage_per_block s" and "bl_block s' = bl_block s"
  shows "balance_entry_updated c s' cid who = balance_entry_updated c s cid who"
    and "bal c s' cid who = bal c s cid who"
  using assms
  by (simp_all add: bal_def balance_def balance_entry_updated_def pallet_apply_demurrage_def demurrage_def)

section \<open>Transfers\<close>

text \<open>
  The state after a transfer between two accounts: both entries are brought up to the current
  block, and the source is removed when it is left with less than the existential deposit.
\<close>

definition transferred ::
  "balances_config \<Rightarrow> CommunityIdentifier \<Rightarrow> AccountId \<Rightarrow> AccountId \<Rightarrow> nat \<Rightarrow> balances \<Rightarrow> balances" where
  "transferred c cid source dest amount s =
     (let opened = bl_balance s cid dest = None;
          rest = bal c s cid source - amount;
          closed = rest < bc_existential_deposit c;
          to = \<lparr>principal = saturating_add 128 (bal c s cid dest) amount, last_update = bl_block s\<rparr>;
          from = \<lparr>principal = rest, last_update = bl_block s\<rparr>
      in s\<lparr>bl_balance := (bl_balance s)(cid := (bl_balance s cid)
                           (source := (if closed then None else Some from), dest \<mapsto> to)),
           bl_sufficients := (bl_sufficients s)
             (dest := bl_sufficients s dest + (if opened then 1 else 0),
              source := bl_sufficients s source - (if closed then 1 else 0)),
           bl_events := bl_events s @ (if opened then [Endowed cid dest amount] else []) @
             [Transferred cid source dest amount]\<rparr>)"

lemma do_transfer_eq:
  assumes "exp_decays (bc_exp c)" and "entries_ok s" and "source \<noteq> dest" and "0 < amount"
  shows "do_transfer c cid source dest amount s =
    (if bl_balance s cid source = None then Inl NoAccount
     else if bal c s cid source < amount then Inl BalanceTooLow
     else if bl_balance s cid dest = None \<and> amount \<le> bc_existential_deposit c then Inl ExistentialDeposit
     else Inr (transferred c cid source dest amount s))"
proof (cases "bl_balance s cid source = None \<or> bal c s cid source < amount \<or>
    (bl_balance s cid dest = None \<and> amount \<le> bc_existential_deposit c)")
  case True
  note src = balance_entry_bal[OF assms(1,2), of cid source]
  show ?thesis using True assms(3,4) by (auto simp: do_transfer_def ensure_def src)
next
  case False
  define s1 where "s1 = (if bl_balance s cid dest = None
      then bl_deposit_event (Endowed cid dest amount) (new_account dest s) else s)"
  note src = balance_entry_bal[OF assms(1,2), of cid source]
  have s1: "bl_balance s1 = bl_balance s" "bl_demurrage_per_block s1 = bl_demurrage_per_block s"
    "bl_block s1 = bl_block s"
    by (simp_all add: s1_def bl_deposit_event_def new_account_def)
  have to: "balance_entry_updated c s1 cid dest = Inr \<lparr>principal = bal c s cid dest, last_update = bl_block s\<rparr>"
    using balance_entry_cong(1)[of s1 cid dest s c] s1 balance_entry_bal(1)[OF assms(1,2)] by simp
  define s3 where "s3 = bl_deposit_event (Transferred cid source dest amount)
    (insert_balance cid dest \<lparr>principal = saturating_add 128 (bal c s cid dest) amount, last_update = bl_block s\<rparr>
      (insert_balance cid source \<lparr>principal = bal c s cid source - amount, last_update = bl_block s\<rparr> s1))"
  have s3: "bl_balance s3 cid source = Some \<lparr>principal = bal c s cid source - amount, last_update = bl_block s3\<rparr>"
    using assms(3) s1 by (simp add: s3_def bl_deposit_event_def insert_balance_def dm_insert_apply)
  note reread = balance_entry_fresh[OF s3]
  have "do_transfer c cid source dest amount s =
      (if bal c s cid source - amount < bc_existential_deposit c then remove_account c cid source s3 else Inr s3)"
  proof -
    have open_dest: "(if \<not> contains (bl_balance s cid dest)
        then ensure (amount > bc_existential_deposit c) ExistentialDeposit
              (Inr (bl_deposit_event (Endowed cid dest amount) (new_account dest s)))
        else Inr s) = Inr s1"
      using False by (auto simp: s1_def ensure_def)
    have "do_transfer c cid source dest amount s =
        bind_res (balance_entry_updated c s3 cid source) (\<lambda>entry_from''.
          if principal entry_from'' < bc_existential_deposit c then remove_account c cid source s3 else Inr s3)"
      unfolding do_transfer_def open_dest using False assms(3,4)
      by (simp add: ensure_def src to Let_def s3_def saturating_sub_def cong: if_cong)
    then show ?thesis using reread(1) by simp
  qed
  also have "\<dots> = Inr (transferred c cid source dest amount s)"
  proof -
    have gone: "remove_account c cid source s3 =
        Inr (s3\<lparr>bl_balance := dm_remove cid source (bl_balance s3),
                bl_sufficients := (bl_sufficients s3)(source := bl_sufficients s3 source - 1)\<rparr>)"
      if "bal c s cid source - amount < bc_existential_deposit c"
      using that reread(3) s3 by (simp add: remove_account_def ensure_def)
    note defs = transferred_def Let_def s3_def s1_def bl_deposit_event_def new_account_def insert_balance_def
      dm_insert_def dm_remove_def
    show ?thesis
    proof (cases "bal c s cid source - amount < bc_existential_deposit c")
      case True
      then show ?thesis unfolding gone[OF True] using assms(3)
        by (cases "bl_balance s cid dest") (simp_all add: defs fun_upd_twist)
    next
      case False
      then show ?thesis using assms(3)
        by (cases "bl_balance s cid dest") (simp_all add: defs fun_upd_twist)
    qed
  qed
  finally show ?thesis using False by auto
qed

lemma transferred_balances:
  assumes "source \<noteq> dest" and "s' = transferred c cid source dest amount s"
  shows "bal c s' cid dest = saturating_add 128 (bal c s cid dest) amount"
    and "bal c s' cid source =
      (if bal c s cid source - amount < bc_existential_deposit c then 0 else bal c s cid source - amount)"
    and "cid' \<noteq> cid \<or> (who \<noteq> source \<and> who \<noteq> dest) \<Longrightarrow> bl_balance s' cid' who = bl_balance s cid' who"
    and "bl_total_issuance s' = bl_total_issuance s"
proof -
  have blk: "bl_block s' = bl_block s" using assms(2) by (simp add: transferred_def Let_def)
  have "bl_balance s' cid dest =
      Some \<lparr>principal = saturating_add 128 (bal c s cid dest) amount, last_update = bl_block s'\<rparr>"
    using assms blk by (simp add: transferred_def Let_def)
  from balance_entry_fresh(2)[OF this]
  show "bal c s' cid dest = saturating_add 128 (bal c s cid dest) amount" .
  show "bal c s' cid source =
      (if bal c s cid source - amount < bc_existential_deposit c then 0 else bal c s cid source - amount)"
  proof (cases "bal c s cid source - amount < bc_existential_deposit c")
    case True
    then have "bl_balance s' cid source = None" using assms by (simp add: transferred_def Let_def)
    then show ?thesis using True by (simp add: bal_none)
  next
    case False
    then have "bl_balance s' cid source =
        Some \<lparr>principal = bal c s cid source - amount, last_update = bl_block s'\<rparr>"
      using assms blk by (simp add: transferred_def Let_def)
    then show ?thesis using False balance_entry_fresh(2) by auto
  qed
  show "cid' \<noteq> cid \<or> (who \<noteq> source \<and> who \<noteq> dest) \<Longrightarrow> bl_balance s' cid' who = bl_balance s cid' who"
    "bl_total_issuance s' = bl_total_issuance s"
    using assms(2) by (auto simp: transferred_def Let_def)
qed

section \<open>The ledger of a community\<close>

text \<open>
  The calls of the pallet and the passing of blocks, as steps. Without demurrage the books of a
  community balance exactly; with demurrage every read rounds, so the sum of the balances is only
  approximately the issuance.
\<close>

inductive ledger_step :: "balances_config \<Rightarrow> balances \<Rightarrow> balances \<Rightarrow> bool" for c :: balances_config where
  ledger_transfer: "transfer c from dest cid amount s = Inr s' \<Longrightarrow> ledger_step c s s'"
| ledger_transfer_all: "transfer_all c from dest cid s = Inr s' \<Longrightarrow> ledger_step c s s'"
| ledger_issue: "issue c cid who amount s = (r, s') \<Longrightarrow> ledger_step c s s'"
| ledger_burn: "burn c cid who amount s = Inr s' \<Longrightarrow> ledger_step c s s'"
| ledger_block: "bl_block s \<le> n \<Longrightarrow> ledger_step c s (s\<lparr>bl_block := n\<rparr>)"

definition prin :: "balances \<Rightarrow> CommunityIdentifier \<Rightarrow> AccountId \<Rightarrow> nat" where
  "prin s cid who = principal (value_query entry_default (bl_balance s cid who))"

definition minted :: "balances \<Rightarrow> CommunityIdentifier \<Rightarrow> nat" where
  "minted s cid = principal (value_query entry_default (bl_total_issuance s cid))"

definition held :: "balances \<Rightarrow> CommunityIdentifier \<Rightarrow> nat" where
  "held s cid = (\<Sum>who\<in>dom (bl_balance s cid). prin s cid who)"

definition no_demurrage :: "balances_config \<Rightarrow> bool" where
  "no_demurrage c \<longleftrightarrow> bc_exp c 0 = Some (2 ^ 64) \<and> bc_default_demurrage c = 0"

definition ledger_ok :: "balances \<Rightarrow> bool" where
  "ledger_ok s \<longleftrightarrow>
     entries_ok s \<and> bl_demurrage_per_block s = Map.empty \<and>
     (\<forall>cid. finite (dom (bl_balance s cid)) \<and> held s cid \<le> minted s cid)"

lemma held_superset:
  assumes "finite D" and "dom (bl_balance s cid) \<subseteq> D"
  shows "held s cid = (\<Sum>who\<in>D. prin s cid who)"
  unfolding held_def using assms
  by (intro sum.mono_neutral_left) (auto simp: prin_def dom_def entry_default_def)

lemma prin_le_held: "finite (dom (bl_balance s cid)) \<Longrightarrow> prin s cid who \<le> held s cid"
proof -
  assume fin: "finite (dom (bl_balance s cid))"
  then have "held s cid = (\<Sum>x\<in>insert who (dom (bl_balance s cid)). prin s cid x)"
    by (intro held_superset) auto
  then show ?thesis using fin by (simp add: member_le_sum)
qed

lemma no_demurrage_bal:
  assumes "no_demurrage c" and "ledger_ok s"
  shows "bal c s cid who = prin s cid who" and "issued c s cid = minted s cid"
proof -
  have zero: "demurrage c s cid = 0" "bc_exp c 0 = Some (2 ^ 64)"
    using assms by (auto simp: demurrage_def no_demurrage_def ledger_ok_def)
  have "principal (value_query entry_default (bl_balance s cid who)) < 2 ^ 128"
    "principal (value_query entry_default (bl_total_issuance s cid)) < 2 ^ 128"
    by (intro value_query_entry; use assms(2) in \<open>simp add: ledger_ok_def entries_ok_def\<close>)+
  then show "bal c s cid who = prin s cid who" "issued c s cid = minted s cid"
    by (simp_all add: bal_def balance_def balance_entry_updated_def pallet_apply_demurrage_def ok_or_def
        zero apply_no_demurrage prin_def issued_def total_issuance_def total_issuance_entry_updated_def minted_def)
qed

text \<open>Changing the entries of two accounts changes the sum by their differences.\<close>

lemma held_two_changed:
  assumes fin: "finite (dom (bl_balance s cid))" and ab: "a \<noteq> b"
    and same: "\<And>x. x \<noteq> a \<Longrightarrow> x \<noteq> b \<Longrightarrow> bl_balance s' cid x = bl_balance s cid x"
  shows "finite (dom (bl_balance s' cid))"
    and "held s' cid + prin s cid a + prin s cid b = held s cid + prin s' cid a + prin s' cid b"
proof -
  let ?D = "insert a (insert b (dom (bl_balance s cid)))"
  have sub: "dom (bl_balance s' cid) \<subseteq> ?D" using same by (auto simp: dom_def)
  have finD: "finite ?D" using fin by simp
  show "finite (dom (bl_balance s' cid))" using sub finD by (rule finite_subset)
  have split: "(\<Sum>x\<in>?D. f x) = f a + f b + (\<Sum>x\<in>?D - {a, b}. f x)" for f :: "nat \<Rightarrow> nat"
    using finD ab by (subst sum.subset_diff[of "{a, b}"]) (auto simp: add.commute)
  have "(\<Sum>x\<in>?D - {a, b}. prin s' cid x) = (\<Sum>x\<in>?D - {a, b}. prin s cid x)"
    using same by (intro sum.cong) (auto simp: prin_def)
  moreover have "held s' cid = (\<Sum>x\<in>?D. prin s' cid x)" using held_superset[OF finD sub] .
  moreover have "held s cid = (\<Sum>x\<in>?D. prin s cid x)" using finD by (intro held_superset) auto
  ultimately show "held s' cid + prin s cid a + prin s cid b = held s cid + prin s' cid a + prin s' cid b"
    using split[of "prin s' cid"] split[of "prin s cid"] by linarith
qed

lemma held_one_changed:
  assumes "finite (dom (bl_balance s cid))"
    and "\<And>x. x \<noteq> a \<Longrightarrow> bl_balance s' cid x = bl_balance s cid x"
  shows "finite (dom (bl_balance s' cid))" and "held s' cid + prin s cid a = held s cid + prin s' cid a"
proof -
  have "a \<noteq> Suc a" "bl_balance s' cid (Suc a) = bl_balance s cid (Suc a)" using assms(2) by auto
  then show "finite (dom (bl_balance s' cid))" "held s' cid + prin s cid a = held s cid + prin s' cid a"
    using held_two_changed[OF assms(1), of a "Suc a" s'] assms(2) by (auto simp: prin_def)
qed

lemma held_cong: "bl_balance s' cid = bl_balance s cid \<Longrightarrow> held s' cid = held s cid"
  by (simp add: held_def prin_def)

lemma entries_ok_transferred:
  assumes "exp_decays (bc_exp c)" and "entries_ok s"
  shows "entries_ok (transferred c cid source dest amount s)"
proof -
  have "bal c s cid source - amount < 2 ^ 128" using balance_entry_bal(2)[OF assms, of cid source] by linarith
  moreover have "saturating_add 128 x y < 2 ^ 128" for x y by (simp add: saturating_add_def min_def)
  ultimately show ?thesis
    using assms(2) by (auto simp: entries_ok_def transferred_def Let_def split: if_splits)
qed

lemma do_transfer_ledger:
  assumes c: "exp_decays (bc_exp c)" "no_demurrage c" and ok: "ledger_ok s"
    and res: "do_transfer c cid source dest amount s = Inr s'"
  shows "ledger_ok s'"
proof -
  have e: "entries_ok s" and fin: "\<And>cid. finite (dom (bl_balance s cid))"
    and dem: "bl_demurrage_per_block s = Map.empty" and sums: "\<And>cid. held s cid \<le> minted s cid"
    using ok by (auto simp: ledger_ok_def)
  consider "amount = 0" | "0 < amount" "source = dest" | "0 < amount" "source \<noteq> dest" by linarith
  then show ?thesis
  proof cases
    case 1
    then have "s' = bl_deposit_event (Transferred cid source dest amount) s" using res by (simp add: do_transfer_def)
    then show ?thesis using ok
      by (simp add: ledger_ok_def entries_ok_def bl_deposit_event_def minted_def held_def prin_def)
  next
    case 2
    let ?e = "\<lparr>principal = bal c s cid source, last_update = bl_block s\<rparr>"
    have s': "s' = insert_balance cid source ?e s"
      using res 2 by (auto simp: do_transfer_def ensure_def balance_entry_bal[OF c(1) e] split: if_splits)
    have "entries_ok s'" using e balance_entry_bal(2)[OF c(1) e, of cid source]
      by (auto simp: s' entries_ok_def insert_balance_def dm_insert_apply split: if_splits)
    moreover have "finite (dom (bl_balance s' x)) \<and> held s' x \<le> minted s' x" for x
    proof -
      have "bl_balance s' x y = bl_balance s x y" if "x \<noteq> cid \<or> y \<noteq> source" for y
        using that by (auto simp: s' insert_balance_def dm_insert_apply)
      moreover have "prin s' x source = prin s x source"
        using no_demurrage_bal(1)[OF c(2) ok, of cid source]
        by (simp add: s' insert_balance_def dm_insert_apply prin_def)
      moreover have "minted s' x = minted s x" by (simp add: s' insert_balance_def minted_def)
      ultimately show ?thesis using held_one_changed[OF fin[of x], where a = source and s' = s'] sums[of x] by auto
    qed
    ultimately show ?thesis using dem by (simp add: ledger_ok_def s' insert_balance_def)
  next
    case 3
    then have s': "s' = transferred c cid source dest amount s" and enough: "amount \<le> bal c s cid source"
      using res by (auto simp: do_transfer_eq[OF c(1) e] split: if_splits)
    note bals = no_demurrage_bal[OF c(2) ok]
    have "finite (dom (bl_balance s' x)) \<and> held s' x \<le> minted s' x" for x
    proof (cases "x = cid")
      case True
      have "prin s' cid dest \<le> prin s cid dest + amount"
        using 3 by (simp add: s' transferred_def Let_def prin_def saturating_add_def
            bals(1)[of cid dest, unfolded prin_def])
      moreover have "prin s' cid source + amount \<le> prin s cid source"
        using 3 enough bals(1)[of cid source]
        by (auto simp: s' transferred_def Let_def prin_def entry_default_def)
      moreover have "minted s' cid = minted s cid" by (simp add: s' transferred_def Let_def minted_def)
      moreover have "bl_balance s' cid y = bl_balance s cid y" if "y \<noteq> source" "y \<noteq> dest" for y
        using that by (simp add: s' transferred_def Let_def)
      ultimately show ?thesis
        using held_two_changed[OF fin[of cid] 3(2), where s' = s'] sums[of cid] True by auto
    next
      case False
      then have same: "bl_balance s' x = bl_balance s x" by (simp add: s' transferred_def Let_def)
      moreover have "minted s' x = minted s x" by (simp add: s' transferred_def Let_def minted_def)
      ultimately show ?thesis using fin sums held_cong[OF same] by simp
    qed
    moreover have "bl_demurrage_per_block s' = Map.empty" using dem by (simp add: s' transferred_def Let_def)
    ultimately show ?thesis using entries_ok_transferred[OF c(1) e] s' by (simp add: ledger_ok_def)
  qed
qed

lemma issue_cases:
  assumes "exp_decays (bc_exp c)" and "entries_ok s"
  shows "issue c cid who amount s =
    (let s1 = (if bl_balance s cid who = None then new_account who s else s) in
     if 2 ^ 128 \<le> issued c s cid + amount then (Inl TotalIssuanceOverflow, s1)
     else (Inr (), bl_deposit_event (Issued cid who amount)
       (insert_balance cid who \<lparr>principal = wrapping_add 128 (bal c s cid who) amount, last_update = bl_block s\<rparr>
         (s1\<lparr>bl_total_issuance := (bl_total_issuance s)
              (cid \<mapsto> \<lparr>principal = issued c s cid + amount, last_update = bl_block s\<rparr>)\<rparr>))))"
proof -
  define s1 where "s1 = (if bl_balance s cid who = None then new_account who s else s)"
  have s1: "bl_balance s1 = bl_balance s" "bl_demurrage_per_block s1 = bl_demurrage_per_block s"
    "bl_block s1 = bl_block s" "bl_total_issuance s1 = bl_total_issuance s"
    by (simp_all add: s1_def new_account_def)
  have who: "balance_entry_updated c s1 cid who = Inr \<lparr>principal = bal c s cid who, last_update = bl_block s\<rparr>"
    using balance_entry_cong(1)[of s1 cid who s c] s1 balance_entry_bal(1)[OF assms] by simp
  have tot: "total_issuance_entry_updated c s1 cid = Inr \<lparr>principal = issued c s cid, last_update = bl_block s\<rparr>"
    using total_entry_issued(1)[OF assms] s1
    by (simp add: total_issuance_entry_updated_def pallet_apply_demurrage_def demurrage_def)
  have "(if \<not> contains (bl_balance s cid who) then new_account who s else s) = s1" by (simp add: s1_def)
  then show ?thesis
    unfolding issue_def s1_def[symmetric]
    by (simp add: who tot ensure_def checked_add_def Let_def s1 wrapping_add_def)
qed

text \<open>A state that differs from a sound one in one account and in the issuance of one community.\<close>

lemma ledger_ok_update:
  assumes ok: "ledger_ok s" and "bl_demurrage_per_block s' = Map.empty"
    and bl: "bl_balance s' = dm_insert cid who e (bl_balance s)"
    and tot: "bl_total_issuance s' = (bl_total_issuance s)(cid \<mapsto> t)"
    and small: "principal e < 2 ^ 128" "principal t < 2 ^ 128"
    and sums: "held s cid + principal e \<le> principal t + prin s cid who"
  shows "ledger_ok s'"
proof -
  have "entries_ok s'"
    using ok small by (auto simp: ledger_ok_def entries_ok_def bl tot dm_insert_apply split: if_splits)
  moreover have "finite (dom (bl_balance s' x)) \<and> held s' x \<le> minted s' x" for x
  proof (cases "x = cid")
    case True
    have fin: "finite (dom (bl_balance s cid))" using ok by (simp add: ledger_ok_def)
    have "bl_balance s' cid y = bl_balance s cid y" if "y \<noteq> who" for y
      using that by (simp add: bl dm_insert_apply)
    from held_one_changed[OF fin this] have "finite (dom (bl_balance s' cid))"
      "held s' cid + prin s cid who = held s cid + prin s' cid who" by auto
    moreover have "prin s' cid who = principal e" "minted s' cid = principal t"
      by (simp_all add: prin_def minted_def bl tot dm_insert_apply)
    ultimately show ?thesis using sums True by auto
  next
    case False
    then have same: "bl_balance s' x = bl_balance s x" by (simp add: bl dm_insert_def)
    have "minted s' x = minted s x" using False by (simp add: minted_def tot)
    then show ?thesis using ok held_cong[OF same] same by (simp add: ledger_ok_def)
  qed
  ultimately show ?thesis using assms(2) by (simp add: ledger_ok_def)
qed

lemma issue_ledger:
  assumes c: "exp_decays (bc_exp c)" "no_demurrage c" and ok: "ledger_ok s"
    and res: "issue c cid who amount s = (r, s')"
  shows "ledger_ok s'"
proof -
  have e: "entries_ok s" and dem: "bl_demurrage_per_block s = Map.empty"
    and le: "prin s cid who \<le> held s cid" "held s cid \<le> minted s cid"
    using ok prin_le_held by (auto simp: ledger_ok_def)
  note bals = no_demurrage_bal[OF c(2) ok]
  show ?thesis
  proof (cases "2 ^ 128 \<le> issued c s cid + amount")
    case True
    then have "s' = (if bl_balance s cid who = None then new_account who s else s)"
      using res by (simp add: issue_cases[OF c(1) e] Let_def)
    then show ?thesis using ok
      by (simp add: ledger_ok_def entries_ok_def new_account_def held_def minted_def prin_def)
  next
    case False
    then have w: "wrapping_add 128 (bal c s cid who) amount = prin s cid who + amount"
      using le bals by (simp add: wrapping_add_def)
    have "bl_balance s' = dm_insert cid who \<lparr>principal = prin s cid who + amount, last_update = bl_block s\<rparr> (bl_balance s)"
      "bl_total_issuance s' = (bl_total_issuance s)(cid \<mapsto> \<lparr>principal = minted s cid + amount, last_update = bl_block s\<rparr>)"
      "bl_demurrage_per_block s' = Map.empty"
      using res False dem by (auto simp: issue_cases[OF c(1) e] Let_def new_account_def bl_deposit_event_def
          insert_balance_def w bals(2))
    then show ?thesis
      using ledger_ok_update[OF ok] False le bals(2)[of cid] by simp
  qed
qed

lemma burn_cases:
  assumes "exp_decays (bc_exp c)" and "entries_ok s"
  shows "burn c cid who amount s =
    (if bal c s cid who < amount then Inl BalanceTooLow
     else Inr (bl_deposit_event (Burned cid who amount)
       (insert_balance cid who \<lparr>principal = bal c s cid who - amount, last_update = bl_block s\<rparr>
         (s\<lparr>bl_total_issuance := (bl_total_issuance s)
             (cid \<mapsto> \<lparr>principal = issued c s cid - amount, last_update = bl_block s\<rparr>)\<rparr>))))"
  by (auto simp: burn_def balance_entry_bal[OF assms] total_entry_issued[OF assms] checked_sub_def ok_or_def
      saturating_sub_def Let_def)

lemma burn_ledger:
  assumes c: "exp_decays (bc_exp c)" "no_demurrage c" and ok: "ledger_ok s"
    and res: "burn c cid who amount s = Inr s'"
  shows "ledger_ok s'"
proof -
  have e: "entries_ok s" and dem: "bl_demurrage_per_block s = Map.empty"
    and le: "prin s cid who \<le> held s cid" "held s cid \<le> minted s cid"
    using ok prin_le_held by (auto simp: ledger_ok_def)
  note bals = no_demurrage_bal[OF c(2) ok]
  have enough: "amount \<le> prin s cid who" using res bals by (auto simp: burn_cases[OF c(1) e] split: if_splits)
  have "bl_balance s' = dm_insert cid who \<lparr>principal = prin s cid who - amount, last_update = bl_block s\<rparr> (bl_balance s)"
    "bl_total_issuance s' = (bl_total_issuance s)(cid \<mapsto> \<lparr>principal = minted s cid - amount, last_update = bl_block s\<rparr>)"
    "bl_demurrage_per_block s' = Map.empty"
    using res dem by (auto simp: burn_cases[OF c(1) e] bl_deposit_event_def insert_balance_def bals split: if_splits)
  moreover have "minted s cid < 2 ^ 128" "prin s cid who < 2 ^ 128"
    using total_entry_issued(2)[OF c(1) e, of cid] le bals(2)[of cid] by auto
  ultimately show ?thesis using ledger_ok_update[OF ok] le enough by simp
qed

lemma ledger_step_ok:
  assumes "ledger_step c s s'" and c: "exp_decays (bc_exp c)" "no_demurrage c" and ok: "ledger_ok s"
  shows "ledger_ok s'"
  using assms(1)
proof cases
  case (ledger_transfer source dest cid amount)
  then show ?thesis using do_transfer_ledger[OF c ok] by (simp add: transfer_def)
next
  case (ledger_transfer_all source dest cid)
  have "entries_ok s" using ok by (simp add: ledger_ok_def)
  then show ?thesis
    using do_transfer_ledger[OF c ok] ledger_transfer_all
    by (simp add: transfer_all_def balance_entry_bal[OF c(1)])
next
  case (ledger_issue cid who amount r)
  then show ?thesis using issue_ledger[OF c ok] by blast
next
  case (ledger_burn cid who amount)
  then show ?thesis using burn_ledger[OF c ok] by blast
next
  case (ledger_block n)
  then show ?thesis using ok by (simp add: ledger_ok_def entries_ok_def held_def prin_def minted_def)
qed

section \<open>Issuing as an interface\<close>

text \<open>
  What the ceremonies pallet relies on when it pays rewards: below the cap an issuance succeeds,
  credits one account with the amount and raises the supply by it.
\<close>

locale issuer =
  fixes issue_to :: "'a \<Rightarrow> nat \<Rightarrow> 's \<Rightarrow> ('e + unit) \<times> 's"
    and holds :: "'s \<Rightarrow> 'a \<Rightarrow> nat"
    and in_supply :: "'s \<Rightarrow> nat"
    and sound :: "'s \<Rightarrow> bool"
    and cap :: nat
  assumes issue_pays: "sound s \<Longrightarrow> in_supply s + n < cap \<Longrightarrow>
      \<exists>s'. issue_to a n s = (Inr (), s') \<and> sound s' \<and> in_supply s' = in_supply s + n \<and>
        (\<forall>x. holds s' x = holds s x + (if x = a then n else 0))"
begin

lemma issue_success:
  assumes "sound s" and "in_supply s + n < cap"
  shows "is_ok (fst (issue_to a n s))" and "sound (snd (issue_to a n s))"
    and "in_supply (snd (issue_to a n s)) = in_supply s + n"
    and "holds (snd (issue_to a n s)) x = holds s x + (if x = a then n else 0)"
  using issue_pays[OF assms, of a] by auto

text \<open>Paying the same amount to each of a list of accounts.\<close>

lemma issue_each:
  assumes "sound s" and "in_supply s + n * length xs < cap"
  shows "sound (foldl (\<lambda>s a. snd (issue_to a n s)) s xs) \<and>
    in_supply (foldl (\<lambda>s a. snd (issue_to a n s)) s xs) = in_supply s + n * length xs \<and>
    holds (foldl (\<lambda>s a. snd (issue_to a n s)) s xs) x = holds s x + n * count_list xs x"
  using assms
proof (induction xs arbitrary: s)
  case (Cons a xs)
  have small: "in_supply s + n < cap" using Cons.prems(2) by simp
  note step = issue_success[OF Cons.prems(1) small]
  have "in_supply (snd (issue_to a n s)) + n * length xs < cap" using Cons.prems(2) step(3) by simp
  from Cons.IH[OF step(2) this] show ?case using step(3,4)[of a] by (auto simp: algebra_simps)
qed simp

lemma issue_each_succeeds:
  assumes "sound s" and "in_supply s + n * length (xs @ [a]) < cap"
  shows "is_ok (fst (issue_to a n (foldl (\<lambda>s a. snd (issue_to a n s)) s xs)))"
proof (rule issue_success(1))
  have "in_supply s + n * length xs < cap" using assms(2) by simp
  note all = issue_each[OF assms(1) this]
  then show "sound (foldl (\<lambda>s a. snd (issue_to a n s)) s xs)" by blast
  show "in_supply (foldl (\<lambda>s a. snd (issue_to a n s)) s xs) + n < cap" using all assms(2) by (simp add: algebra_simps)
qed

end

definition solvent :: "balances_config \<Rightarrow> CommunityIdentifier \<Rightarrow> balances \<Rightarrow> bool" where
  "solvent c cid s \<longleftrightarrow> exp_decays (bc_exp c) \<and> entries_ok s \<and> (\<forall>x. bal c s cid x \<le> issued c s cid)"

interpretation iss: issuer "issue c cid" "\<lambda>s. bal c s cid" "\<lambda>s. issued c s cid" "solvent c cid" "2 ^ 128" for c cid
proof
  fix s n who assume sol: "solvent c cid s" and small: "issued c s cid + n < 2 ^ 128"
  have ok: "exp_decays (bc_exp c)" "entries_ok s" and le: "bal c s cid x \<le> issued c s cid" for x
    using sol by (auto simp: solvent_def)
  have exact: "wrapping_add 128 (bal c s cid who) n = bal c s cid who + n"
    using le[of who] small by (intro wrapping_add_exact) simp
  obtain s' where s': "issue c cid who n s = (Inr (), s')"
    and fields: "bl_balance s' = dm_insert cid who \<lparr>principal = bal c s cid who + n, last_update = bl_block s\<rparr> (bl_balance s)"
      "bl_total_issuance s' = (bl_total_issuance s)(cid \<mapsto> \<lparr>principal = issued c s cid + n, last_update = bl_block s\<rparr>)"
      "bl_block s' = bl_block s" "bl_demurrage_per_block s' = bl_demurrage_per_block s"
    using small by (simp add: issue_cases[OF ok] exact Let_def new_account_def insert_balance_def bl_deposit_event_def)
  have "bal c s' cid who = bal c s cid who + n"
    by (rule balance_entry_fresh) (simp add: fields dm_insert_apply)
  moreover have "bal c s' cid x = bal c s cid x" if "x \<noteq> who" for x
    using that fields by (intro balance_entry_cong) (simp_all add: dm_insert_apply)
  ultimately have bals: "bal c s' cid x = bal c s cid x + (if x = who then n else 0)" for x by simp
  have tot: "issued c s' cid = issued c s cid + n"
    by (simp add: issued_def total_issuance_def total_issuance_entry_updated_def pallet_apply_demurrage_def ok_or_def fields)
  have "entries_ok s'"
    using ok(2) small le[of who] by (auto simp: entries_ok_def fields dm_insert_apply)
  then have "solvent c cid s'" using ok(1) le tot bals by (auto simp: solvent_def intro: le_SucI trans_le_add1)
  then show "\<exists>s'. issue c cid who n s = (Inr (), s') \<and> solvent c cid s' \<and> issued c s' cid = issued c s cid + n \<and>
      (\<forall>x. bal c s' cid x = bal c s cid x + (if x = who then n else 0))" using s' tot bals by blast
qed

section \<open>Properties\<close>

definition demo_config :: balances_config where
  "demo_config = \<lparr>bc_exp = (\<lambda>x. if x = 0 then Some (2 ^ 64) else None), bc_default_demurrage = 0,
     bc_existential_deposit = 10\<rparr>"

abbreviation demo_cid :: CommunityIdentifier where
  "demo_cid \<equiv> CommunityIdentifier [1, 2, 3, 4, 5] [6, 7, 8, 9]"

definition demo_balances :: balances where
  "demo_balances = snd (issue demo_config demo_cid 1 1000 (balances_genesis 1))"

lemma demo_config_decays: "exp_decays (bc_exp demo_config)"
  by (simp add: exp_decays_def demo_config_def)

lemma genesis_entries_ok: "entries_ok (balances_genesis f)"
  by (simp add: entries_ok_def balances_genesis_def)

text \<open>The conversion of a balance to an integer number of fungible units is exact up to the
  final rounding: splitting into integer and fractional parts loses nothing and never overflows.\<close>

theorem fungible_exact:
  assumes "b < 2 ^ 128"
  shows "fungible b = b * 10 ^ 18 div 2 ^ 64"
proof -
  let ?hi = "b div 2 ^ 64" and ?lo = "b mod 2 ^ 64" and ?u = "10 ^ 18 :: nat"
  have hi: "?hi < 2 ^ 64" using assms by (simp add: less_mult_imp_div_less)
  have lo: "?lo < 2 ^ 64" by simp
  have "?hi * ?u \<le> (2 ^ 64 - 1) * ?u" using hi by (intro mult_le_mono1) simp
  then have hiu: "?hi * ?u < 2 ^ 127" by simp
  have "?lo * ?u \<le> (2 ^ 64 - 1) * ?u" using lo by (intro mult_le_mono1) simp
  then have lou: "?lo * ?u < 2 ^ 127" by simp
  have "?lo * ?u div 2 ^ 64 \<le> ?lo * ?u" by (rule div_le_dividend)
  then have "?hi * ?u + ?lo * ?u div 2 ^ 64 < 2 ^ 128" using hiu lou by simp
  then have "fungible b = ?hi * ?u + ?lo * ?u div 2 ^ 64"
    using hiu lou
    by (simp add: fungible_def ONE_ENCOINTER_BALANCE_UNIT_def as_unsigned_def wrapping_mul_def
        wrapping_add_def saturating_mul_exact)
  also have "\<dots> = (?lo * ?u + ?hi * ?u * 2 ^ 64) div 2 ^ 64" by (subst div_mult_self1) simp_all
  also have "?lo * ?u + ?hi * ?u * 2 ^ 64 = (?hi * 2 ^ 64 + ?lo) * ?u" by (simp only: algebra_simps)
  also have "?hi * 2 ^ 64 + ?lo = b" by (rule div_mult_mod_eq)
  finally show ?thesis .
qed

theorem fungible_exact_witness: "fungible (5 * 2 ^ 63) = 2500000000000000000"
  using fungible_exact[of "5 * 2 ^ 63"] by simp

lemma conversion_factor_bounds:
  "conversion_factor * 10 ^ 18 \<le> 2 ^ 128" "2 ^ 128 < conversion_factor * 10 ^ 18 + 4 * 10 ^ 18"
  by (simp_all add: conversion_factor_def ONE_ENCOINTER_BALANCE_UNIT_def)

lemma balance_type_eq:
  assumes "n < 10 ^ 18 * 2 ^ 63"
  shows "balance_type n = n mod 2 ^ 64 * 2 ^ 64 div 10 ^ 18 + n div 2 ^ 64 * conversion_factor"
proof -
  have "n div 2 ^ 64 < 5 * 10 ^ 17" using assms by (simp add: less_mult_imp_div_less)
  then have hi: "n div 2 ^ 64 * conversion_factor < 5 * 10 ^ 17 * conversion_factor"
    by (simp add: conversion_factor_def ONE_ENCOINTER_BALANCE_UNIT_def)
  have "n mod 2 ^ 64 < 2 ^ 64" by simp
  then have "n mod 2 ^ 64 \<le> 2 ^ 64 - 1" by linarith
  then have "n mod 2 ^ 64 * 2 ^ 64 div 10 ^ 18 \<le> (2 ^ 64 - 1) * 2 ^ 64 div 10 ^ 18"
    by (intro div_le_mono mult_le_mono1)
  then show ?thesis using hi
    by (simp add: balance_type_def ONE_ENCOINTER_BALANCE_UNIT_def as_unsigned_def Let_def wrapping_add_def
        conversion_factor_def)
qed

text \<open>Converting fungible units to a balance and back never yields more units, and loses less
  than two units plus one for every \<open>2 ^ 64\<close> units.\<close>

theorem fungible_roundtrip:
  assumes "n < 10 ^ 18 * 2 ^ 63"
  shows "fungible (balance_type n) \<le> n \<and> n \<le> fungible (balance_type n) + 2 + n div 2 ^ 64"
proof -
  define hi lo q where "hi = n div 2 ^ 64" and "lo = n mod 2 ^ 64" and "q = lo * 2 ^ 64 div 10 ^ 18"
  have n: "n = hi * 2 ^ 64 + lo" by (simp add: hi_def lo_def)
  have q: "q * 10 ^ 18 \<le> lo * 2 ^ 64" "lo * 2 ^ 64 < q * 10 ^ 18 + 10 ^ 18"
    using div_times_less_eq_dividend[of "lo * 2 ^ 64" "10 ^ 18"] dividend_less_div_times[of "10 ^ 18" "lo * 2 ^ 64"]
    unfolding q_def by simp_all
  have b: "balance_type n = q + hi * conversion_factor"
    using balance_type_eq[OF assms] by (simp add: hi_def lo_def q_def)
  let ?x = "balance_type n * 10 ^ 18"
  have cf: "hi * (conversion_factor * 10 ^ 18) \<le> hi * 2 ^ 128"
    "hi * 2 ^ 128 \<le> hi * (conversion_factor * 10 ^ 18 + 4 * 10 ^ 18)"
    using conversion_factor_bounds by (auto intro!: mult_le_mono2 less_imp_le)
  have x: "?x = q * 10 ^ 18 + hi * (conversion_factor * 10 ^ 18)" unfolding b by (simp add: algebra_simps)
  have n64: "n * 2 ^ 64 = hi * 2 ^ 128 + lo * 2 ^ 64" using n by simp
  have upper: "?x \<le> n * 2 ^ 64" using x n64 q(1) cf(1) by linarith
  have "hi * (conversion_factor * 10 ^ 18 + 4 * 10 ^ 18) = hi * (conversion_factor * 10 ^ 18) + hi * (4 * 10 ^ 18)"
    by (rule add_mult_distrib2)
  then have lower: "n * 2 ^ 64 \<le> ?x + 10 ^ 18 + hi * (4 * 10 ^ 18)" using x n64 q(2) cf(2) by linarith
  have "?x < 10 ^ 18 * 2 ^ 127" using upper assms by simp
  then have "balance_type n < 2 ^ 128" by simp
  then have f: "fungible (balance_type n) = ?x div 2 ^ 64" by (rule fungible_exact)
  have "?x < ?x div 2 ^ 64 * 2 ^ 64 + 2 ^ 64" using dividend_less_div_times[of "2 ^ 64" ?x] by simp
  then have "n * 2 ^ 64 < (?x div 2 ^ 64 + 2 + hi) * 2 ^ 64" using lower by (simp add: algebra_simps)
  then have "n \<le> ?x div 2 ^ 64 + 2 + hi" by simp
  moreover have "?x div 2 ^ 64 \<le> n * 2 ^ 64 div 2 ^ 64" using upper by (rule div_le_mono)
  ultimately show ?thesis unfolding f by (simp add: hi_def)
qed

theorem fungible_roundtrip_witness:
  "fungible (balance_type 123456789) \<le> 123456789 \<and> 123456789 \<le> fungible (balance_type 123456789) + 2"
  using fungible_roundtrip[of 123456789] by simp

text \<open>Demurrage is safe: for every rate, sane or not, and every block number, applying it neither
  panics nor increases a balance, and the entry is brought up to the current block; it relies only
  on the exponential of a non-positive number being at most one.\<close>

theorem demurrage_never_increases:
  assumes "\<And>x y. x \<le> 0 \<Longrightarrow> exp x = Some y \<Longrightarrow> y \<le> 2 ^ 64" and "principal entry < 2 ^ 128"
  shows "\<exists>e. apply_demurrage exp entry d now = Some e \<and> principal e \<le> principal entry \<and> last_update e = now"
  using apply_demurrage_decays[of exp entry d now] assms by (auto simp: exp_decays_def)

theorem demurrage_never_increases_witness:
  "\<exists>e. apply_demurrage (\<lambda>x. if x = 0 then Some (2 ^ 64) else Some (2 ^ 63)) \<lparr>principal = 1000, last_update = 3\<rparr> 5 9 =
     Some e \<and> principal e \<le> 1000 \<and> last_update e = 9"
proof -
  have "y \<le> 2 ^ 64" if "(if x = 0 then Some (2 ^ 64) else Some (2 ^ 63)) = Some y" for x y :: int
    using that by (auto split: if_splits)
  then show ?thesis
    using demurrage_never_increases[of "\<lambda>x. if x = 0 then Some (2 ^ 64) else Some (2 ^ 63)"
        "\<lparr>principal = 1000, last_update = 3\<rparr>" 5 9] by simp
qed

lemma demo_balances_eq:
  "demo_balances = (balances_genesis 1)
     \<lparr>bl_total_issuance := Map.empty(demo_cid \<mapsto> \<lparr>principal = 1000, last_update = 0\<rparr>),
      bl_balance := (\<lambda>_. Map.empty)(demo_cid := Map.empty(1 \<mapsto> \<lparr>principal = 1000, last_update = 0\<rparr>)),
      bl_sufficients := (\<lambda>_. 0)(1 := 1),
      bl_events := [Issued demo_cid 1 1000]\<rparr>"
  by (simp add: demo_balances_def issue_def balances_genesis_def new_account_def balance_entry_updated_def
      total_issuance_entry_updated_def pallet_apply_demurrage_def entry_default_def ok_or_def ensure_def
      checked_add_def wrapping_add_def insert_balance_def dm_insert_def bl_deposit_event_def Let_def
      apply_demurrage_def)

lemma demo_entries_ok: "entries_ok demo_balances"
  by (auto simp: demo_balances_eq entries_ok_def balances_genesis_def split: if_splits)

lemma demo_bal: "bal demo_config demo_balances demo_cid 1 = 1000"
  by (rule balance_entry_fresh) (simp add: demo_balances_eq balances_genesis_def)

text \<open>C21: A transfer between two accounts fails exactly for the three documented reasons, and
  otherwise moves the amount: the source loses it (and is closed when less than the existential
  deposit remains), the destination gains it, and no other account, no other community and no
  issuance changes.\<close>

theorem transfer_outcome:
  assumes "exp_decays (bc_exp c)" and "entries_ok s" and "from \<noteq> dest" and "0 < amount"
    and "bal c s cid dest + amount < 2 ^ 128"
  shows "if bl_balance s cid from = None then transfer c from dest cid amount s = Inl NoAccount
    else if bal c s cid from < amount then transfer c from dest cid amount s = Inl BalanceTooLow
    else if bl_balance s cid dest = None \<and> amount \<le> bc_existential_deposit c
    then transfer c from dest cid amount s = Inl ExistentialDeposit
    else \<exists>s'. transfer c from dest cid amount s = Inr s' \<and>
      bal c s' cid dest = bal c s cid dest + amount \<and>
      bal c s' cid from =
        (if bal c s cid from - amount < bc_existential_deposit c then 0 else bal c s cid from - amount) \<and>
      (\<forall>cid' who. cid' \<noteq> cid \<or> (who \<noteq> from \<and> who \<noteq> dest) \<longrightarrow> bl_balance s' cid' who = bl_balance s cid' who) \<and>
      bl_total_issuance s' = bl_total_issuance s"
  using transferred_balances[OF assms(3) refl, where c = c and cid = cid and amount = amount and s = s] assms(5)
  unfolding transfer_def do_transfer_eq[OF assms(1-4)] by (simp add: saturating_add_exact)

theorem transfer_outcome_witness:
  "\<exists>s'. transfer demo_config 1 2 demo_cid 300 demo_balances = Inr s' \<and>
     bal demo_config s' demo_cid 2 = 300 \<and> bal demo_config s' demo_cid 1 = 700"
proof -
  have "bal demo_config demo_balances demo_cid 2 = 0"
    by (rule bal_none) (simp add: demo_balances_eq balances_genesis_def)
  moreover have "bl_balance demo_balances demo_cid 1 \<noteq> None" by (simp add: demo_balances_eq)
  moreover have "bc_existential_deposit demo_config = 10" by (simp add: demo_config_def)
  ultimately show ?thesis
    using transfer_outcome[OF demo_config_decays demo_entries_ok, of 1 2 300 demo_cid] demo_bal by auto
qed

text \<open>Issuing fails exactly when the total issuance would overflow; otherwise the account and the
  total issuance grow by the amount, and no other account changes. Nobody can hold more
  than can be issued, so the account's balance does not overflow either.\<close>

theorem issue_outcome:
  assumes "exp_decays (bc_exp c)" and "entries_ok s" and "bal c s cid who \<le> issued c s cid"
  shows "if 2 ^ 128 \<le> issued c s cid + amount
    then fst (issue c cid who amount s) = Inl TotalIssuanceOverflow \<and>
      bl_balance (snd (issue c cid who amount s)) = bl_balance s \<and>
      bl_total_issuance (snd (issue c cid who amount s)) = bl_total_issuance s
    else \<exists>s'. issue c cid who amount s = (Inr (), s') \<and>
      bal c s' cid who = bal c s cid who + amount \<and> issued c s' cid = issued c s cid + amount \<and>
      (\<forall>cid' x. cid' \<noteq> cid \<or> x \<noteq> who \<longrightarrow> bl_balance s' cid' x = bl_balance s cid' x)"
proof (cases "2 ^ 128 \<le> issued c s cid + amount")
  case True
  then show ?thesis by (simp add: issue_cases[OF assms(1,2)] Let_def new_account_def)
next
  case False
  then have small: "wrapping_add 128 (bal c s cid who) amount = bal c s cid who + amount"
    using assms(3) by (simp add: wrapping_add_def)
  obtain s' where s': "issue c cid who amount s = (Inr (), s')"
    and bl: "bl_balance s' = dm_insert cid who \<lparr>principal = bal c s cid who + amount, last_update = bl_block s'\<rparr> (bl_balance s)"
    and tot: "bl_total_issuance s' cid = Some \<lparr>principal = issued c s cid + amount, last_update = bl_block s'\<rparr>"
    using False by (auto simp: issue_cases[OF assms(1,2)] small Let_def new_account_def insert_balance_def
        bl_deposit_event_def)
  have "bal c s' cid who = bal c s cid who + amount"
    by (rule balance_entry_fresh) (simp add: bl dm_insert_apply)
  moreover have "issued c s' cid = issued c s cid + amount"
    using tot by (simp add: issued_def total_issuance_def total_issuance_entry_updated_def
        pallet_apply_demurrage_def ok_or_def)
  ultimately show ?thesis using False s' by (auto simp: bl dm_insert_apply)
qed

theorem issue_outcome_witness:
  "\<exists>s'. issue demo_config demo_cid 1 50 demo_balances = (Inr (), s') \<and>
     bal demo_config s' demo_cid 1 = 1050 \<and> issued demo_config s' demo_cid = 1050"
proof -
  have "issued demo_config demo_balances demo_cid = 1000"
    by (simp add: demo_balances_eq balances_genesis_def issued_def total_issuance_def ok_or_def
        total_issuance_entry_updated_def pallet_apply_demurrage_def)
  then show ?thesis
    using issue_outcome[OF demo_config_decays demo_entries_ok, of demo_cid 1 50] demo_bal by auto
qed

text \<open>Burning fails exactly when the balance is too low; otherwise the account and the total
  issuance shrink by the amount.\<close>

theorem burn_outcome:
  assumes "exp_decays (bc_exp c)" and "entries_ok s"
  shows "if bal c s cid who < amount then burn c cid who amount s = Inl BalanceTooLow
    else \<exists>s'. burn c cid who amount s = Inr s' \<and>
      bal c s' cid who = bal c s cid who - amount \<and> issued c s' cid = issued c s cid - amount \<and>
      (\<forall>cid' x. cid' \<noteq> cid \<or> x \<noteq> who \<longrightarrow> bl_balance s' cid' x = bl_balance s cid' x)"
proof (cases "bal c s cid who < amount")
  case True
  then show ?thesis by (simp add: burn_cases[OF assms])
next
  case False
  then obtain s' where s': "burn c cid who amount s = Inr s'"
    and bl: "bl_balance s' = dm_insert cid who \<lparr>principal = bal c s cid who - amount, last_update = bl_block s'\<rparr> (bl_balance s)"
    and tot: "bl_total_issuance s' cid = Some \<lparr>principal = issued c s cid - amount, last_update = bl_block s'\<rparr>"
    by (auto simp: burn_cases[OF assms] bl_deposit_event_def insert_balance_def)
  have "bal c s' cid who = bal c s cid who - amount"
    by (rule balance_entry_fresh) (simp add: bl dm_insert_apply)
  moreover have "issued c s' cid = issued c s cid - amount"
    using tot by (simp add: issued_def total_issuance_def total_issuance_entry_updated_def
        pallet_apply_demurrage_def ok_or_def)
  ultimately show ?thesis using False s' by (auto simp: bl dm_insert_apply)
qed

theorem burn_outcome_witness:
  "\<exists>s'. burn demo_config demo_cid 1 400 demo_balances = Inr s' \<and> bal demo_config s' demo_cid 1 = 600"
  using burn_outcome[OF demo_config_decays demo_entries_ok, of demo_cid 1 400] demo_bal by auto

text \<open>C9: No money from nothing: in a currency without demurrage, whatever transfers, issuances, burns
  and blocks happen, no community's members together hold more than was issued.\<close>

theorem ledger_backed:
  assumes "(ledger_step c)\<^sup>*\<^sup>* s s'" and "exp_decays (bc_exp c)" and "no_demurrage c" and "ledger_ok s"
  shows "held s' cid \<le> minted s' cid"
proof -
  have "ledger_ok s'" using assms(1)
  proof induction
    case base
    then show ?case using assms(4) .
  next
    case (step s1 s2)
    then show ?case using ledger_step_ok[OF step(2) assms(2,3)] by simp
  qed
  then show ?thesis by (simp add: ledger_ok_def)
qed

theorem ledger_backed_witness:
  "\<exists>s'. (ledger_step demo_config)\<^sup>*\<^sup>* (balances_genesis 1) s' \<and> minted s' demo_cid = 1000 \<and> held s' demo_cid \<le> 1000"
proof -
  have "issue demo_config demo_cid 1 1000 (balances_genesis 1) =
      (fst (issue demo_config demo_cid 1 1000 (balances_genesis 1)), demo_balances)"
    by (simp add: demo_balances_def)
  then have steps: "(ledger_step demo_config)\<^sup>*\<^sup>* (balances_genesis 1) demo_balances"
    by (blast intro: ledger_issue)
  have "ledger_ok (balances_genesis 1)"
    by (simp add: ledger_ok_def genesis_entries_ok) (simp add: balances_genesis_def held_def)
  moreover have "no_demurrage demo_config" by (simp add: no_demurrage_def demo_config_def)
  ultimately have "held demo_balances demo_cid \<le> minted demo_balances demo_cid"
    using ledger_backed[OF steps demo_config_decays] by blast
  moreover have "minted demo_balances demo_cid = 1000" by (simp add: minted_def demo_balances_eq)
  ultimately show ?thesis using steps by auto
qed

end
