(* ===== verification/Communities.thy ===== *)
theory Communities
  imports Balances Scheduler
begin

text \<open>
  The communities pallet, \<open>communities/src/lib.rs\<close>: registration of communities, their meetup
  locations with the geohash index that the minimum distance check uses, and their parameters.

  The geohash, CRC and fixed-point crates are parameters, collected with the constants of the
  runtime in \<open>communities_config\<close>. The \<open>Locations\<close> map is hashed with \<open>Identity\<close>, so that iteration
  visits a community's buckets in the order of their geohashes: they are a list sorted by geohash.
  Writes to the offchain index are output that no call reads; Rpc_Cache adds them.
\<close>

section \<open>Sorted vectors\<close>

text \<open>\<open>binary_search\<close> on a sorted vector: \<open>Inr\<close> the position, or \<open>Inl\<close> where to insert.\<close>

definition binary_search :: "'a::linorder \<Rightarrow> 'a list \<Rightarrow> nat + nat" where
  "binary_search x xs =
     (case position (\<lambda>y. y = x) xs of
        Some i \<Rightarrow> Inr i
      | None \<Rightarrow> Inl (length (takeWhile (\<lambda>y. y < x) xs)))"

definition vec_insert :: "nat \<Rightarrow> 'a \<Rightarrow> 'a list \<Rightarrow> 'a list" where
  "vec_insert i x xs = take i xs @ x # drop i xs"

definition vec_remove :: "nat \<Rightarrow> 'a list \<Rightarrow> 'a list" where
  "vec_remove i xs = take i xs @ drop (Suc i) xs"

definition try_insert :: "nat \<Rightarrow> nat \<Rightarrow> 'a \<Rightarrow> 'a list \<Rightarrow> 'a list option" where
  "try_insert bound i x xs = (if length xs < bound then Some (vec_insert i x xs) else None)"

text \<open>A community's locations by bucket.\<close>

type_synonym GeoHash = bytes
type_synonym buckets = "(GeoHash \<times> Location list) list"

definition bucket_get :: "GeoHash \<Rightarrow> buckets \<Rightarrow> Location list" where
  "bucket_get g bs = value_query [] (map_of bs g)"

fun bucket_insert :: "GeoHash \<Rightarrow> Location list \<Rightarrow> buckets \<Rightarrow> buckets" where
  "bucket_insert g ls [] = [(g, ls)]"
| "bucket_insert g ls ((h, ms) # bs) =
     (if g < h then (g, ls) # (h, ms) # bs
      else if g = h then (g, ls) # bs
      else (h, ms) # bucket_insert g ls bs)"

section \<open>Definitions\<close>

datatype communities_event =
    CommunityRegistered CommunityIdentifier
  | MetadataUpdated CommunityIdentifier
  | NominalIncomeUpdated CommunityIdentifier BalanceType
  | DemurrageUpdated CommunityIdentifier Demurrage
  | LocationAdded CommunityIdentifier Location
  | LocationRemoved CommunityIdentifier Location
  | MinSolarTripTimeSUpdated nat
  | MaxSpeedMpsUpdated nat
  | CommunityPurged CommunityIdentifier

datatype communities_error =
    InvalidLocation | InvalidAmountBootstrappers | MinimumDistanceViolationToOtherLocation
  | MinimumDistanceViolationToDateLine | CommunityAlreadyRegistered | CommunityInexistent
  | InvalidCommunityMetadata | InvalidDemurrage | InvalidNominalIncome | InvalidLocationForGeohash
  | InvalidGeohash | CommunitiesBadOrigin | RegistrationPhaseRequired | TooManyCommunityIdentifiers
  | TooManyCommunityIdentifiersPerGeohash | TooManyLocationsPerGeohash | TooManyBootstrappers
  | CommunitiesPanic

record neighbors =
  nb_n :: GeoHash
  nb_ne :: GeoHash
  nb_e :: GeoHash
  nb_se :: GeoHash
  nb_s :: GeoHash
  nb_sw :: GeoHash
  nb_w :: GeoHash
  nb_nw :: GeoHash

record communities_config =
  cc_max_community_identifiers :: nat
  cc_max_community_identifiers_per_geohash :: nat
  cc_max_locations_per_geohash :: nat
  cc_max_bootstrappers :: nat
  cc_try_from_params :: "Degree \<Rightarrow> Degree \<Rightarrow> GeoHash option"
  cc_neighbors :: "GeoHash \<Rightarrow> neighbors option"
  cc_try_as_coordinates :: "GeoHash \<Rightarrow> (Degree \<times> Degree \<times> Degree \<times> Degree) option"
  cc_crc32 :: "bytes \<Rightarrow> bytes"
  cc_encode :: "AccountId list \<Rightarrow> bytes"
  cc_mul :: "int \<Rightarrow> int \<Rightarrow> int"
  cc_div :: "int \<Rightarrow> int \<Rightarrow> int"
  cc_sin :: "int \<Rightarrow> int"
  cc_cos :: "int \<Rightarrow> int"
  cc_asin :: "int \<Rightarrow> int"
  cc_sqrt :: "int \<Rightarrow> int option"
  cc_powi :: "int \<Rightarrow> nat \<Rightarrow> int option"

record communities =
  cm_cids_by_geohash :: "GeoHash \<Rightarrow> CommunityIdentifier list option"
  cm_locations :: "CommunityIdentifier \<Rightarrow> buckets"
  cm_bootstrappers :: "CommunityIdentifier \<Rightarrow> AccountId list option"
  cm_community_identifiers :: "CommunityIdentifier list"
  cm_community_metadata :: "CommunityIdentifier \<Rightarrow> CommunityMetadata option"
  cm_nominal_income :: "CommunityIdentifier \<Rightarrow> BalanceType option"
  cm_min_solar_trip_time_s :: nat
  cm_max_speed_mps :: nat
  cm_events :: "communities_event list"

definition communities_genesis :: "nat \<Rightarrow> nat \<Rightarrow> communities" where
  "communities_genesis min_solar_trip_time_s max_speed_mps =
     \<lparr>cm_cids_by_geohash = Map.empty, cm_locations = (\<lambda>_. []), cm_bootstrappers = Map.empty,
      cm_community_identifiers = [], cm_community_metadata = Map.empty, cm_nominal_income = Map.empty,
      cm_min_solar_trip_time_s = min_solar_trip_time_s, cm_max_speed_mps = max_speed_mps, cm_events = []\<rparr>"

definition cm_deposit_event :: "communities_event \<Rightarrow> communities \<Rightarrow> communities" where
  "cm_deposit_event e s = s\<lparr>cm_events := cm_events s @ [e]\<rparr>"

definition cids_by_geohash :: "communities \<Rightarrow> GeoHash \<Rightarrow> CommunityIdentifier list" where
  "cids_by_geohash s g = value_query [] (cm_cids_by_geohash s g)"

definition locations :: "communities \<Rightarrow> CommunityIdentifier \<Rightarrow> GeoHash \<Rightarrow> Location list" where
  "locations s cid g = bucket_get g (cm_locations s cid)"

definition insert_locations ::
  "CommunityIdentifier \<Rightarrow> GeoHash \<Rightarrow> Location list \<Rightarrow> communities \<Rightarrow> communities" where
  "insert_locations cid g ls s =
     s\<lparr>cm_locations := (cm_locations s)(cid := bucket_insert g ls (cm_locations s cid))\<rparr>"

definition insert_cids_by_geohash :: "GeoHash \<Rightarrow> CommunityIdentifier list \<Rightarrow> communities \<Rightarrow> communities" where
  "insert_cids_by_geohash g cids s = s\<lparr>cm_cids_by_geohash := (cm_cids_by_geohash s)(g \<mapsto> cids)\<rparr>"

subsection \<open>Distances\<close>

definition wrap_i128 :: "int \<Rightarrow> int" where
  "wrap_i128 x = (x + 2 ^ 127) mod 2 ^ 128 - 2 ^ 127"

definition saturated_into_u32 :: "int \<Rightarrow> nat" where
  "saturated_into_u32 x = nat (max 0 (min x (2 ^ 32 - 1)))"

definition RADIANS_PER_DEGREE :: int where "RADIANS_PER_DEGREE = 0x0477D1A894A74E40"
definition MEAN_EARTH_RADIUS :: int where "MEAN_EARTH_RADIUS = 0x006136B8"

definition haversine_distance :: "communities_config \<Rightarrow> Location \<Rightarrow> Location \<Rightarrow> nat" where
  "haversine_distance c a b =
     (let two = 2 * fixed_one;
          theta1 = cc_mul c (lat a) RADIANS_PER_DEGREE;
          theta2 = cc_mul c (lat b) RADIANS_PER_DEGREE;
          delta_theta = wrap_i128 (theta1 - theta2);
          delta_lambda = cc_mul c (wrap_i128 (lon a - lon b)) RADIANS_PER_DEGREE;
          tmp0 = cc_sin c (cc_div c delta_theta two);
          tmp1 = value_query 0 (cc_powi c tmp0 2);
          tmp2 = cc_mul c (cc_cos c theta1) (cc_cos c theta2);
          tmp3 = cc_sin c (cc_div c delta_lambda two);
          tmp4 = value_query 0 (cc_powi c tmp3 2);
          aa = wrap_i128 (tmp1 + cc_mul c tmp2 tmp4);
          c' = cc_mul c two (cc_asin c (value_query 0 (cc_sqrt c aa)));
          d = cc_mul c (MEAN_EARTH_RADIUS * fixed_one) c'
      in saturated_into_u32 (d div 2 ^ 64))"

text \<open>\<open>None\<close> is the division by a maximum speed of zero.\<close>

definition solar_trip_time :: "communities_config \<Rightarrow> communities \<Rightarrow> Location \<Rightarrow> Location \<Rightarrow> nat option" where
  "solar_trip_time c s from to =
     (let d = haversine_distance c from to;
          dt = wrap_i128 (wrap_i128 (lon from - lon to) * 240);
          dt' = saturated_into_u32 (\<bar>dt\<bar> div 2 ^ 64)
      in map_option (\<lambda>tflight. saturating_sub tflight dt') (checked_div d (cm_max_speed_mps s)))"

definition is_valid_location :: "Location \<Rightarrow> bool" where
  "is_valid_location loc \<longleftrightarrow>
     lat loc < MAX_ABS_LATITUDE \<and> lat loc > - MAX_ABS_LATITUDE \<and> lon loc < DATELINE_LON \<and> lon loc > - DATELINE_LON"

definition push_if_near ::
  "communities_config \<Rightarrow> communities \<Rightarrow> Location \<Rightarrow> Location \<times> GeoHash \<Rightarrow> GeoHash list \<Rightarrow>
   communities_error + GeoHash list" where
  "push_if_near c s location p acc =
     bind_res (ok_or (solar_trip_time c s (fst p) location) CommunitiesPanic) (\<lambda>t.
     Inr (if t < cm_min_solar_trip_time_s s then acc @ [snd p] else acc))"

fun push_all_near ::
  "communities_config \<Rightarrow> communities \<Rightarrow> Location \<Rightarrow> (Location \<times> GeoHash) list \<Rightarrow> GeoHash list \<Rightarrow>
   communities_error + GeoHash list" where
  "push_all_near c s location [] acc = Inr acc"
| "push_all_near c s location (p # ps) acc =
     bind_res (push_if_near c s location p acc) (push_all_near c s location ps)"

definition get_relevant_neighbor_buckets ::
  "communities_config \<Rightarrow> communities \<Rightarrow> GeoHash \<Rightarrow> Location \<Rightarrow> communities_error + GeoHash list" where
  "get_relevant_neighbor_buckets c s geo_hash location =
     bind_res (ok_or (cc_neighbors c geo_hash) InvalidGeohash) (\<lambda>neighbors.
     bind_res (ok_or (cc_try_as_coordinates c geo_hash) InvalidGeohash)
       (\<lambda>(bucket_center_lon, bucket_center_lat, bucket_lon_error, bucket_lat_error).
     let min_lat = wrap_i128 (bucket_center_lat - bucket_lat_error);
         max_lat = wrap_i128 (bucket_center_lat + bucket_lat_error);
         min_lon = wrap_i128 (bucket_center_lon - bucket_lon_error);
         max_lon = wrap_i128 (bucket_center_lon + bucket_lon_error)
     in push_all_near c s location
          [(Location max_lat (lon location), nb_n neighbors),
           (Location min_lat (lon location), nb_s neighbors),
           (Location max_lat max_lon, nb_ne neighbors),
           (Location (lat location) max_lon, nb_e neighbors),
           (Location min_lat max_lon, nb_se neighbors),
           (Location max_lat min_lon, nb_nw neighbors),
           (Location (lat location) min_lon, nb_w neighbors),
           (Location min_lat min_lon, nb_sw neighbors)] []))"

definition get_nearby_locations ::
  "communities_config \<Rightarrow> communities \<Rightarrow> Location \<Rightarrow> communities_error + Location list" where
  "get_nearby_locations c s location =
     bind_res (ok_or (cc_try_from_params c (lat location) (lon location)) InvalidLocationForGeohash) (\<lambda>geo_hash.
     bind_res (get_relevant_neighbor_buckets c s geo_hash location) (\<lambda>relevant_buckets.
     Inr (concat (map (\<lambda>bucket. concat (map (\<lambda>cid. locations s cid bucket) (cids_by_geohash s bucket)))
            (relevant_buckets @ [geo_hash])))))"

fun ensure_all_far ::
  "communities_config \<Rightarrow> communities \<Rightarrow> Location \<Rightarrow> Location list \<Rightarrow> communities_error + unit" where
  "ensure_all_far c s location [] = Inr ()"
| "ensure_all_far c s location (l # ls) =
     bind_res (ok_or (solar_trip_time c s location l) CommunitiesPanic) (\<lambda>t.
     ensure (t \<ge> cm_min_solar_trip_time_s s) MinimumDistanceViolationToOtherLocation (
     ensure_all_far c s location ls))"

definition validate_location ::
  "communities_config \<Rightarrow> communities \<Rightarrow> Location \<Rightarrow> communities_error + unit" where
  "validate_location c s location =
     ensure (is_valid_location location) InvalidLocation (
     let dateline_proxy = Location (lat location) DATELINE_LON in
     if haversine_distance c location dateline_proxy < DATELINE_DISTANCE_M
     then Inl MinimumDistanceViolationToDateLine
     else
       bind_res (get_nearby_locations c s location) (\<lambda>nearby_locations.
       ensure_all_far c s location nearby_locations))"

subsection \<open>Locations\<close>

definition ensure_cid_exists :: "communities \<Rightarrow> CommunityIdentifier \<Rightarrow> communities_error + unit" where
  "ensure_cid_exists s cid = (if cid \<in> set (cm_community_identifiers s) then Inr () else Inl CommunityInexistent)"

definition validate_bootstrappers :: "communities_config \<Rightarrow> AccountId list \<Rightarrow> communities_error + unit" where
  "validate_bootstrappers c bootstrappers =
     ensure (length bootstrappers \<le> cc_max_bootstrappers c) InvalidAmountBootstrappers (
     ensure (length bootstrappers \<ge> 3) InvalidAmountBootstrappers (Inr ()))"

text \<open>Adding the community to the index of a bucket.\<close>

definition index_cid ::
  "communities_config \<Rightarrow> GeoHash \<Rightarrow> CommunityIdentifier \<Rightarrow> communities \<Rightarrow> communities_error + communities" where
  "index_cid c geo_hash cid s =
     (case binary_search cid (cids_by_geohash s geo_hash) of
        Inr _ \<Rightarrow> Inr s
      | Inl index \<Rightarrow>
          bind_res (ok_or (try_insert (cc_max_community_identifiers_per_geohash c) index cid
                             (cids_by_geohash s geo_hash)) TooManyCommunityIdentifiersPerGeohash)
            (\<lambda>cids. Inr (insert_cids_by_geohash geo_hash cids s)))"

definition do_add_location ::
  "communities_config \<Rightarrow> CommunityIdentifier \<Rightarrow> Location \<Rightarrow> communities \<Rightarrow> communities_error + communities" where
  "do_add_location c cid location s =
     bind_res (ensure_cid_exists s cid) (\<lambda>_.
     bind_res (validate_location c s location) (\<lambda>_.
     bind_res (ok_or (cc_try_from_params c (lat location) (lon location)) InvalidLocationForGeohash) (\<lambda>geo_hash.
     bind_res
       (case binary_search location (locations s cid geo_hash) of
          Inr _ \<Rightarrow> Inr s
        | Inl index \<Rightarrow>
            bind_res (ok_or (try_insert (cc_max_locations_per_geohash c) index location
                               (locations s cid geo_hash)) TooManyLocationsPerGeohash)
              (\<lambda>ls. Inr (insert_locations cid geo_hash ls s)))
       (\<lambda>s1.
     bind_res (index_cid c geo_hash cid s1) (\<lambda>s2.
     Inr (cm_deposit_event (LocationAdded cid location) s2))))))"

definition remove_location_intern ::
  "CommunityIdentifier \<Rightarrow> Location \<Rightarrow> GeoHash \<Rightarrow> communities \<Rightarrow> communities" where
  "remove_location_intern cid location geo_hash s =
     (let (s1, locations_len) =
            (case binary_search location (locations s cid geo_hash) of
               Inr index \<Rightarrow>
                 (let ls = vec_remove index (locations s cid geo_hash)
                  in (insert_locations cid geo_hash ls s, length ls))
             | Inl _ \<Rightarrow> (s, 0))
      in if locations_len = 0 then
           (case binary_search cid (cids_by_geohash s1 geo_hash) of
              Inr index \<Rightarrow>
                (let cids = vec_remove index (cids_by_geohash s1 geo_hash)
                 in if cids = [] then s1\<lparr>cm_cids_by_geohash := (cm_cids_by_geohash s1)(geo_hash := None)\<rparr>
                    else insert_cids_by_geohash geo_hash cids s1)
            | Inl _ \<Rightarrow> s1)
         else s1)"

definition do_remove_location ::
  "communities_config \<Rightarrow> CommunityIdentifier \<Rightarrow> Location \<Rightarrow> communities \<Rightarrow> communities_error + communities" where
  "do_remove_location c cid location s =
     bind_res (ensure_cid_exists s cid) (\<lambda>_.
     bind_res (ok_or (cc_try_from_params c (lat location) (lon location)) InvalidLocationForGeohash) (\<lambda>geo_hash.
     Inr (cm_deposit_event (LocationRemoved cid location) (remove_location_intern cid location geo_hash s))))"

definition get_locations :: "communities \<Rightarrow> CommunityIdentifier \<Rightarrow> Location list" where
  "get_locations s cid = concat (map snd (cm_locations s cid))"

subsection \<open>Communities\<close>

definition new_community ::
  "communities_config \<Rightarrow> bool \<Rightarrow> Location \<Rightarrow> AccountId list \<Rightarrow> CommunityMetadata \<Rightarrow> Demurrage option \<Rightarrow>
   BalanceType option \<Rightarrow> communities \<Rightarrow> balances \<Rightarrow> communities_error + (communities \<times> balances)" where
  "new_community c is_trustable location bootstrappers community_metadata dem nominal_income s b =
     ensure is_trustable CommunitiesBadOrigin (
     bind_res (validate_bootstrappers c bootstrappers) (\<lambda>_.
     bind_res (map_err (\<lambda>_. InvalidCommunityMetadata) (metadata_validate community_metadata)) (\<lambda>_.
     bind_res (map_err (\<lambda>_. InvalidLocation)
                (cid_new (cc_try_from_params c) (cc_crc32 c) (cc_encode c) location bootstrappers)) (\<lambda>cid.
     ensure (cid \<notin> set (cm_community_identifiers s)) CommunityAlreadyRegistered (
     bind_res (validate_location c s location) (\<lambda>_.
     bind_res (ok_or (cc_try_from_params c (lat location) (lon location)) InvalidLocationForGeohash) (\<lambda>geo_hash.
     ensure (1 \<le> cc_max_locations_per_geohash c) TooManyLocationsPerGeohash (
     bind_res (index_cid c geo_hash cid s) (\<lambda>s1.
     let s2 = insert_locations cid geo_hash [location] s1 in
     ensure (length (cm_community_identifiers s2) < cc_max_community_identifiers c) TooManyCommunityIdentifiers (
     let s3 = s2\<lparr>cm_community_identifiers := cm_community_identifiers s2 @ [cid]\<rparr> in
     ensure (length bootstrappers \<le> cc_max_bootstrappers c) TooManyBootstrappers (
     let s4 = s3\<lparr>cm_bootstrappers := (cm_bootstrappers s3)(cid \<mapsto> bootstrappers),
                 cm_community_metadata := (cm_community_metadata s3)(cid \<mapsto> community_metadata)\<rparr> in
     bind_res (case dem of
                 Some d \<Rightarrow> map_err (\<lambda>_. InvalidDemurrage) (set_demurrage cid d b)
               | None \<Rightarrow> Inr b) (\<lambda>b1.
     let s5 = (case nominal_income of
                 Some i \<Rightarrow> s4\<lparr>cm_nominal_income := (cm_nominal_income s4)(cid \<mapsto> i)\<rparr>
               | None \<Rightarrow> s4)
     in Inr (cm_deposit_event (CommunityRegistered cid) s5, b1)))))))))))))"

definition add_location ::
  "communities_config \<Rightarrow> CeremonyPhaseType \<Rightarrow> bool \<Rightarrow> CommunityIdentifier \<Rightarrow> Location \<Rightarrow> communities \<Rightarrow>
   communities_error + communities" where
  "add_location c current_phase is_trustable cid location s =
     ensure is_trustable CommunitiesBadOrigin (
     ensure (current_phase = Registering) RegistrationPhaseRequired (do_add_location c cid location s))"

definition remove_location ::
  "communities_config \<Rightarrow> CeremonyPhaseType \<Rightarrow> bool \<Rightarrow> CommunityIdentifier \<Rightarrow> Location \<Rightarrow> communities \<Rightarrow>
   communities_error + communities" where
  "remove_location c current_phase is_master cid location s =
     ensure is_master CommunitiesBadOrigin (
     ensure (current_phase = Registering) RegistrationPhaseRequired (do_remove_location c cid location s))"

definition do_update_community_metadata ::
  "CommunityIdentifier \<Rightarrow> CommunityMetadata \<Rightarrow> communities \<Rightarrow> communities_error + communities" where
  "do_update_community_metadata cid community_metadata s =
     bind_res (ensure_cid_exists s cid) (\<lambda>_.
     bind_res (map_err (\<lambda>_. InvalidCommunityMetadata) (metadata_validate community_metadata)) (\<lambda>_.
     Inr (cm_deposit_event (MetadataUpdated cid)
            (s\<lparr>cm_community_metadata := (cm_community_metadata s)(cid \<mapsto> community_metadata)\<rparr>))))"

definition update_community_metadata ::
  "bool \<Rightarrow> CommunityIdentifier \<Rightarrow> CommunityMetadata \<Rightarrow> communities \<Rightarrow> communities_error + communities" where
  "update_community_metadata is_master cid community_metadata s =
     ensure is_master CommunitiesBadOrigin (do_update_community_metadata cid community_metadata s)"

definition do_update_demurrage ::
  "CommunityIdentifier \<Rightarrow> Demurrage \<Rightarrow> communities \<Rightarrow> balances \<Rightarrow> communities_error + (communities \<times> balances)" where
  "do_update_demurrage cid dem s b =
     bind_res (ensure_cid_exists s cid) (\<lambda>_.
     bind_res (map_err (\<lambda>_. InvalidDemurrage) (set_demurrage cid dem b)) (\<lambda>b1.
     Inr (cm_deposit_event (DemurrageUpdated cid dem) s, b1)))"

definition update_demurrage ::
  "bool \<Rightarrow> CommunityIdentifier \<Rightarrow> Demurrage \<Rightarrow> communities \<Rightarrow> balances \<Rightarrow> communities_error + (communities \<times> balances)" where
  "update_demurrage is_master cid dem s b =
     ensure is_master CommunitiesBadOrigin (do_update_demurrage cid dem s b)"

definition do_update_nominal_income ::
  "CommunityIdentifier \<Rightarrow> BalanceType \<Rightarrow> communities \<Rightarrow> communities_error + communities" where
  "do_update_nominal_income cid nominal_income s =
     bind_res (ensure_cid_exists s cid) (\<lambda>_.
     Inr (cm_deposit_event (NominalIncomeUpdated cid nominal_income)
            (s\<lparr>cm_nominal_income := (cm_nominal_income s)(cid \<mapsto> nominal_income)\<rparr>)))"

definition update_nominal_income ::
  "bool \<Rightarrow> CommunityIdentifier \<Rightarrow> BalanceType \<Rightarrow> communities \<Rightarrow> communities_error + communities" where
  "update_nominal_income is_master cid nominal_income s =
     ensure is_master CommunitiesBadOrigin (do_update_nominal_income cid nominal_income s)"

definition set_min_solar_trip_time_s :: "bool \<Rightarrow> nat \<Rightarrow> communities \<Rightarrow> communities_error + communities" where
  "set_min_solar_trip_time_s is_master t s =
     ensure is_master CommunitiesBadOrigin (
     Inr (cm_deposit_event (MinSolarTripTimeSUpdated t) (s\<lparr>cm_min_solar_trip_time_s := t\<rparr>)))"

definition set_max_speed_mps :: "bool \<Rightarrow> nat \<Rightarrow> communities \<Rightarrow> communities_error + communities" where
  "set_max_speed_mps is_master v s =
     ensure is_master CommunitiesBadOrigin (
     Inr (cm_deposit_event (MaxSpeedMpsUpdated v) (s\<lparr>cm_max_speed_mps := v\<rparr>)))"

text \<open>
  The loops of \<open>remove_community\<close> run over the buckets as they are read; removing a location
  rewrites only the bucket that is being visited.
\<close>

definition remove_all_locations :: "CommunityIdentifier \<Rightarrow> communities \<Rightarrow> communities" where
  "remove_all_locations cid s =
     fold (\<lambda>(geo_hash, ls). fold (\<lambda>location. remove_location_intern cid location geo_hash) ls)
       (cm_locations s cid) s"

definition remove_community ::
  "CommunityIdentifier \<Rightarrow> communities \<Rightarrow> balances \<Rightarrow> communities \<times> balances" where
  "remove_community cid s b =
     (let s1 = remove_all_locations cid s;
          s2 = s1\<lparr>cm_locations := (cm_locations s1)(cid := []),
                  cm_bootstrappers := (cm_bootstrappers s1)(cid := None),
                  cm_community_identifiers := filter (\<lambda>x. x \<noteq> cid) (cm_community_identifiers s1),
                  cm_community_metadata := (cm_community_metadata s1)(cid := None),
                  cm_nominal_income := (cm_nominal_income s1)(cid := None)\<rparr>
      in (cm_deposit_event (CommunityPurged cid) s2, purge_balances cid b))"

definition purge_community ::
  "bool \<Rightarrow> CommunityIdentifier \<Rightarrow> communities \<Rightarrow> balances \<Rightarrow> communities_error + (communities \<times> balances)" where
  "purge_community is_master cid s b = ensure is_master CommunitiesBadOrigin (Inr (remove_community cid s b))"

definition insert_bootstrappers :: "CommunityIdentifier \<Rightarrow> AccountId list \<Rightarrow> communities \<Rightarrow> communities" where
  "insert_bootstrappers cid bootstrappers s = s\<lparr>cm_bootstrappers := (cm_bootstrappers s)(cid \<mapsto> bootstrappers)\<rparr>"

definition get_name :: "communities \<Rightarrow> CommunityIdentifier \<Rightarrow> bytes option" where
  "get_name s cid =
     (case ensure_cid_exists s cid of
        Inl _ \<Rightarrow> None
      | Inr _ \<Rightarrow> Some (md_name (value_query default_metadata (cm_community_metadata s cid))))"

definition get_all_balances :: "communities \<Rightarrow> balances \<Rightarrow> AccountId \<Rightarrow> (CommunityIdentifier \<times> BalanceEntry) list" where
  "get_all_balances s b account =
     concat (map (\<lambda>cid. case bl_balance b cid account of Some e \<Rightarrow> [(cid, e)] | None \<Rightarrow> [])
       (cm_community_identifiers s))"

section \<open>Lemmas on vectors and buckets\<close>

lemma position_eq: "x \<in> set xs \<Longrightarrow> \<exists>i. position (\<lambda>y. y = x) xs = Some i"
  using position_None[of "\<lambda>y. y = x" xs] by auto

lemma vec_remove_filter:
  "distinct xs \<Longrightarrow> position (\<lambda>y. y = x) xs = Some i \<Longrightarrow> vec_remove i xs = filter (\<lambda>y. y \<noteq> x) xs"
proof (induction xs arbitrary: i)
  case Nil
  then show ?case by simp
next
  case (Cons y ys)
  show ?case
  proof (cases "y = x")
    case True
    then have "filter (\<lambda>z. z \<noteq> x) ys = ys" using Cons.prems(1) by (simp add: filter_id_conv) blast
    then show ?thesis using True Cons.prems by (simp add: vec_remove_def)
  next
    case False
    then obtain j where "position (\<lambda>y. y = x) ys = Some j" "i = Suc j" using Cons.prems(2) by auto
    then show ?thesis using Cons.IH[of j] Cons.prems(1) False by (simp add: vec_remove_def)
  qed
qed

lemma vec_insert_insort:
  "x \<notin> set xs \<Longrightarrow> vec_insert (length (takeWhile (\<lambda>y. y < x) xs)) x xs = insort x xs"
  for x :: "'a::linorder"
  by (induction xs) (auto simp: vec_insert_def not_less)

text \<open>The two uses of the binary search: insert what is missing, remove what is there.\<close>

lemma binary_search_present:
  assumes "x \<in> set xs"
  obtains i where "binary_search x xs = Inr i" "distinct xs \<Longrightarrow> vec_remove i xs = filter (\<lambda>y. y \<noteq> x) xs"
  using position_eq[OF assms] vec_remove_filter[of xs x] that by (auto simp: binary_search_def)

lemma binary_search_absent:
  assumes "x \<notin> set xs"
  obtains i where "binary_search x xs = Inl i" "vec_insert i x xs = insort x xs"
proof -
  have "position (\<lambda>y. y = x) xs = None" using assms by (auto simp: position_None)
  then show thesis using that vec_insert_insort[OF assms] by (simp add: binary_search_def)
qed

lemma only_left: "distinct xs \<Longrightarrow> l \<in> set xs \<Longrightarrow> filter (\<lambda>x. x \<noteq> l) xs = [] \<longleftrightarrow> xs = [l]"
  by (cases xs; cases "tl xs") (auto simp: filter_empty_conv)

lemma map_of_bucket_insert: "map_of (bucket_insert g ls bs) = (map_of bs)(g \<mapsto> ls)"
  by (induction g ls bs rule: bucket_insert.induct) (auto simp: fun_eq_iff)

lemma set_bucket_insert: "fst ` set (bucket_insert g ls bs) = insert g (fst ` set bs)"
  by (induction g ls bs rule: bucket_insert.induct) auto

lemma sorted_bucket_insert:
  "sorted_wrt (<) (map fst bs) \<Longrightarrow> sorted_wrt (<) (map fst (bucket_insert g ls bs))"
proof (induction g ls bs rule: bucket_insert.induct)
  case (1 g ls)
  then show ?case by simp
next
  case (2 g ls h ms bs)
  have "set (map fst (bucket_insert g ls bs)) = insert g (fst ` set bs)" by (simp add: set_bucket_insert)
  then show ?case using 2 by auto
qed

lemma locations_insert:
  "locations (insert_locations cid g ls s) cid' g' = (if cid' = cid \<and> g' = g then ls else locations s cid' g')"
  by (simp add: locations_def insert_locations_def bucket_get_def map_of_bucket_insert)

lemma cids_by_geohash_insert:
  "cids_by_geohash (insert_cids_by_geohash g cids s) g' = (if g' = g then cids else cids_by_geohash s g')"
  by (simp add: cids_by_geohash_def insert_cids_by_geohash_def)

lemma insert_frames [simp]:
  "cids_by_geohash (insert_locations cid g ls s) = cids_by_geohash s"
  "locations (insert_cids_by_geohash g cids s) = locations s"
  "cm_locations (insert_cids_by_geohash g cids s) = cm_locations s"
  "cm_community_identifiers (insert_locations cid g ls s) = cm_community_identifiers s"
  "cm_community_identifiers (insert_cids_by_geohash g cids s) = cm_community_identifiers s"
  by (simp_all add: fun_eq_iff cids_by_geohash_def insert_locations_def locations_def insert_cids_by_geohash_def)

lemma deposit_frames [simp]:
  "cids_by_geohash (cm_deposit_event e s) = cids_by_geohash s"
  "locations (cm_deposit_event e s) = locations s"
  "cm_locations (cm_deposit_event e s) = cm_locations s"
  "cm_community_identifiers (cm_deposit_event e s) = cm_community_identifiers s"
  by (simp_all add: fun_eq_iff cids_by_geohash_def locations_def cm_deposit_event_def)

section \<open>The invariant\<close>

text \<open>
  The vectors are sorted, every location is in the bucket of its geohash, only registered
  communities have locations, and the index lists only communities with a location in the bucket.
\<close>

definition communities_ok :: "communities_config \<Rightarrow> communities \<Rightarrow> bool" where
  "communities_ok c s \<longleftrightarrow>
     (\<forall>cid. sorted_wrt (<) (map fst (cm_locations s cid))) \<and>
     (\<forall>cid g. sorted_wrt (<) (locations s cid g)) \<and>
     (\<forall>cid g. \<forall>l\<in>set (locations s cid g). cc_try_from_params c (lat l) (lon l) = Some g) \<and>
     (\<forall>g. sorted_wrt (<) (cids_by_geohash s g)) \<and>
     distinct (cm_community_identifiers s) \<and>
     (\<forall>cid g. cid \<in> set (cids_by_geohash s g) \<longrightarrow> locations s cid g \<noteq> []) \<and>
     (\<forall>cid g. locations s cid g \<noteq> [] \<longrightarrow> cid \<in> set (cm_community_identifiers s))"

text \<open>The converse of the last but one conjunct: the index is complete.\<close>

definition index_complete :: "communities \<Rightarrow> bool" where
  "index_complete s \<longleftrightarrow> (\<forall>cid g. locations s cid g \<noteq> [] \<longrightarrow> cid \<in> set (cids_by_geohash s g))"

text \<open>Everything but the locations and their index.\<close>

definition core :: "communities \<Rightarrow> communities" where
  "core s = s\<lparr>cm_locations := (\<lambda>_. []), cm_cids_by_geohash := Map.empty\<rparr>"

lemma core_fields:
  assumes "core s' = core s"
  shows "cm_bootstrappers s' = cm_bootstrappers s" "cm_community_identifiers s' = cm_community_identifiers s"
    "cm_community_metadata s' = cm_community_metadata s" "cm_nominal_income s' = cm_nominal_income s"
    "cm_min_solar_trip_time_s s' = cm_min_solar_trip_time_s s" "cm_max_speed_mps s' = cm_max_speed_mps s"
    "cm_events s' = cm_events s"
  using assms by (auto simp: core_def dest: arg_cong[where f = cm_bootstrappers]
      arg_cong[where f = cm_community_identifiers] arg_cong[where f = cm_community_metadata]
      arg_cong[where f = cm_nominal_income] arg_cong[where f = cm_min_solar_trip_time_s]
      arg_cong[where f = cm_max_speed_mps] arg_cong[where f = cm_events])

lemma index_cid_spec:
  assumes "index_cid c g cid s = Inr s'"
  shows "cids_by_geohash s' g' =
      (if g' = g \<and> cid \<notin> set (cids_by_geohash s g) then insort cid (cids_by_geohash s g) else cids_by_geohash s g')"
    and "cm_locations s' = cm_locations s" and "locations s' = locations s"
    and "cm_community_identifiers s' = cm_community_identifiers s"
proof -
  have "s' = s \<and> cid \<in> set (cids_by_geohash s g) \<or>
      s' = insert_cids_by_geohash g (insort cid (cids_by_geohash s g)) s \<and> cid \<notin> set (cids_by_geohash s g)"
  proof (cases "cid \<in> set (cids_by_geohash s g)")
    case True
    then obtain i where "binary_search cid (cids_by_geohash s g) = Inr i" by (rule binary_search_present)
    then show ?thesis using assms True by (simp add: index_cid_def)
  next
    case False
    then obtain i where "binary_search cid (cids_by_geohash s g) = Inl i"
      "vec_insert i cid (cids_by_geohash s g) = insort cid (cids_by_geohash s g)"
      by (rule binary_search_absent)
    then show ?thesis using assms False
      by (auto simp: index_cid_def try_insert_def ok_or_def split: if_splits)
  qed
  then show "cids_by_geohash s' g' =
      (if g' = g \<and> cid \<notin> set (cids_by_geohash s g) then insort cid (cids_by_geohash s g) else cids_by_geohash s g')"
    "cm_locations s' = cm_locations s" "locations s' = locations s"
    "cm_community_identifiers s' = cm_community_identifiers s"
    by (auto simp: cids_by_geohash_insert)
qed

lemma remove_location_intern_spec:
  fixes l :: Location
  assumes "distinct (locations s cid g)" and "distinct (cids_by_geohash s g)"
  defines "s' \<equiv> remove_location_intern cid l g s"
  shows "locations s' cid' g' =
      (if cid' = cid \<and> g' = g then filter (\<lambda>x. x \<noteq> l) (locations s cid g) else locations s cid' g')"
    and "cids_by_geohash s' g' =
      (if g' = g \<and> (l \<notin> set (locations s cid g) \<or> locations s cid g = [l])
       then filter (\<lambda>x. x \<noteq> cid) (cids_by_geohash s g) else cids_by_geohash s g')"
    and "cm_community_identifiers s' = cm_community_identifiers s"
    and "sorted_wrt (<) (map fst (cm_locations s cid')) \<Longrightarrow> sorted_wrt (<) (map fst (cm_locations s' cid'))"
    and "fst ` set (cm_locations s' cid') \<subseteq> insert g (fst ` set (cm_locations s cid'))"
    and "cid' \<noteq> cid \<Longrightarrow> cm_locations s' cid' = cm_locations s cid'"
    and "core s' = core s"
proof -
  let ?ls = "filter (\<lambda>x. x \<noteq> l) (locations s cid g)"
  define s1 where "s1 = (if l \<in> set (locations s cid g) then insert_locations cid g ?ls s else s)"
  define drop_cid where "drop_cid \<longleftrightarrow> l \<notin> set (locations s cid g) \<or> locations s cid g = [l]"
  have cids1: "cids_by_geohash s1 = cids_by_geohash s" by (simp add: s1_def)
  have first: "(case binary_search l (locations s cid g) of
       Inr index \<Rightarrow> (let ls = vec_remove index (locations s cid g) in (insert_locations cid g ls s, length ls))
     | Inl _ \<Rightarrow> (s, 0)) = (s1, if l \<in> set (locations s cid g) then length ?ls else 0)"
  proof (cases "l \<in> set (locations s cid g)")
    case True
    then show ?thesis using assms(1) by (auto simp: s1_def Let_def elim!: binary_search_present)
  next
    case False
    then show ?thesis by (auto simp: s1_def elim: binary_search_absent)
  qed
  have nil: "l \<in> set (locations s cid g) \<Longrightarrow> ?ls = [] \<longleftrightarrow> locations s cid g = [l]"
    using only_left[OF assms(1)] .
  have len: "(if l \<in> set (locations s cid g) then length ?ls else 0) = 0 \<longleftrightarrow> drop_cid"
    using nil by (auto simp: drop_cid_def)
  let ?cids = "filter (\<lambda>x. x \<noteq> cid) (cids_by_geohash s g)"
  have step: "s' = (if drop_cid then
      (case binary_search cid (cids_by_geohash s g) of
         Inr index \<Rightarrow>
           (if vec_remove index (cids_by_geohash s g) = []
            then s1\<lparr>cm_cids_by_geohash := (cm_cids_by_geohash s1)(g := None)\<rparr>
            else insert_cids_by_geohash g (vec_remove index (cids_by_geohash s g)) s1)
       | Inl _ \<Rightarrow> s1) else s1)"
    unfolding s'_def remove_location_intern_def first unfolding Let_def prod.case len cids1 ..
  have s': "s' = (if drop_cid \<and> cid \<in> set (cids_by_geohash s g) then
      (if ?cids = [] then s1\<lparr>cm_cids_by_geohash := (cm_cids_by_geohash s1)(g := None)\<rparr>
       else insert_cids_by_geohash g ?cids s1) else s1)"
  proof (cases "cid \<in> set (cids_by_geohash s g)")
    case True
    then obtain i where "binary_search cid (cids_by_geohash s g) = Inr i"
      "vec_remove i (cids_by_geohash s g) = ?cids" using assms(2) by (auto elim!: binary_search_present)
    then show ?thesis using True step by simp
  next
    case False
    then obtain i where "binary_search cid (cids_by_geohash s g) = Inl i" by (rule binary_search_absent)
    then show ?thesis using False step by simp
  qed
  have same: "cid \<notin> set (cids_by_geohash s g) \<Longrightarrow> ?cids = cids_by_geohash s g"
    by (auto simp: filter_id_conv)
  have unindexed: "cids_by_geohash (s1\<lparr>cm_cids_by_geohash := (cm_cids_by_geohash s1)(g := None)\<rparr>) g' =
      (if g' = g then [] else cids_by_geohash s1 g')" for g'
    by (simp add: cids_by_geohash_def)
  have idl: "l \<notin> set (locations s cid g) \<Longrightarrow> ?ls = locations s cid g"
    by (auto simp: filter_id_conv)
  show "locations s' cid' g' = (if cid' = cid \<and> g' = g then ?ls else locations s cid' g')"
    by (auto simp: s' s1_def locations_insert locations_def[of "_\<lparr>cm_cids_by_geohash := _\<rparr>"]
        locations_def[symmetric] idl)
  show "cids_by_geohash s' g' =
      (if g' = g \<and> (l \<notin> set (locations s cid g) \<or> locations s cid g = [l]) then ?cids else cids_by_geohash s g')"
    unfolding drop_cid_def[symmetric] s' using same
    by (auto simp: cids_by_geohash_insert unindexed cids1)
  show "cm_community_identifiers s' = cm_community_identifiers s" by (simp add: s' s1_def)
  show "sorted_wrt (<) (map fst (cm_locations s cid')) \<Longrightarrow> sorted_wrt (<) (map fst (cm_locations s' cid'))"
    "fst ` set (cm_locations s' cid') \<subseteq> insert g (fst ` set (cm_locations s cid'))"
    "cid' \<noteq> cid \<Longrightarrow> cm_locations s' cid' = cm_locations s cid'"
    by (auto simp: s' s1_def insert_locations_def sorted_bucket_insert set_bucket_insert split: if_splits)
  show "core s' = core s"
    by (simp add: s' s1_def insert_locations_def insert_cids_by_geohash_def core_def)
qed

lemma strict_sorted_filter: "sorted_wrt (<) xs \<Longrightarrow> sorted_wrt (<) (filter P xs)" for xs :: "'a::linorder list"
  by (simp add: sorted_wrt_filter)

lemma strict_sorted_insort:
  "sorted_wrt (<) xs \<Longrightarrow> x \<notin> set xs \<Longrightarrow> sorted_wrt (<) (insort x xs)" for x :: "'a::linorder"
  by (simp add: strict_sorted_iff distinct_insort sorted_insort)

lemma ok_distinct:
  assumes "communities_ok c s"
  shows "distinct (locations s cid g)" and "distinct (cids_by_geohash s g)"
  using assms by (auto simp: communities_ok_def strict_sorted_iff)

lemma remove_location_intern_ok:
  assumes "communities_ok c s"
  shows "communities_ok c (remove_location_intern cid l g s)"
proof -
  note spec = remove_location_intern_spec[OF ok_distinct[OF assms], where cid = cid and g = g and l = l]
  show ?thesis
    unfolding communities_ok_def
  proof (intro conjI allI impI ballI)
    fix cid' g' assume "cid' \<in> set (cids_by_geohash (remove_location_intern cid l g s) g')"
    then have "cid' \<in> set (cids_by_geohash s g')"
      "\<not> (cid' = cid \<and> g' = g \<and> (l \<notin> set (locations s cid g) \<or> locations s cid g = [l]))"
      by (auto simp: spec(2) split: if_splits)
    moreover from this(1) have "locations s cid' g' \<noteq> []" using assms by (auto simp: communities_ok_def)
    ultimately show "locations (remove_location_intern cid l g s) cid' g' \<noteq> []"
      using only_left[OF ok_distinct(1)[OF assms], of l cid g] by (auto simp: spec(1))
  next
    fix cid' g' assume "locations (remove_location_intern cid l g s) cid' g' \<noteq> []"
    then have "locations s cid' g' \<noteq> []" by (auto simp: spec(1) split: if_splits)
    then show "cid' \<in> set (cm_community_identifiers (remove_location_intern cid l g s))"
      using assms by (auto simp: communities_ok_def spec(3))
  qed (use assms in \<open>auto simp: communities_ok_def spec strict_sorted_filter split: if_splits\<close>)
qed

lemma remove_location_intern_complete:
  assumes "communities_ok c s" and "index_complete s" and "l \<in> set (locations s cid g)"
  shows "index_complete (remove_location_intern cid l g s)"
proof -
  note spec = remove_location_intern_spec[OF ok_distinct[OF assms(1)], where cid = cid and g = g and l = l]
  show ?thesis
    unfolding index_complete_def
  proof (intro allI impI)
    fix cid' g' assume ne: "locations (remove_location_intern cid l g s) cid' g' \<noteq> []"
    then have old: "locations s cid' g' \<noteq> []" by (auto simp: spec(1) split: if_splits)
    have "cid' \<noteq> cid" if "g' = g" "locations s cid g = [l]" using ne that by (auto simp: spec(1))
    then show "cid' \<in> set (cids_by_geohash (remove_location_intern cid l g s) g')"
      using old assms(2,3) by (auto simp: spec(2) index_complete_def)
  qed
qed

text \<open>Removing the locations of one bucket one after the other.\<close>

lemma remove_bucket:
  fixes cid :: CommunityIdentifier and g :: GeoHash and ls :: "Location list"
  assumes "communities_ok c s"
  defines "s' \<equiv> fold (\<lambda>l. remove_location_intern cid l g) ls s"
  shows "communities_ok c s'"
    and "locations s' cid' g' =
      (if cid' = cid \<and> g' = g then filter (\<lambda>x. x \<notin> set ls) (locations s cid g) else locations s cid' g')"
    and "cid' \<noteq> cid \<or> g' \<noteq> g \<Longrightarrow> cid' \<in> set (cids_by_geohash s' g') \<longleftrightarrow> cid' \<in> set (cids_by_geohash s g')"
    and "set (locations s cid g) \<subseteq> set ls \<Longrightarrow> cid \<notin> set (cids_by_geohash s' g)"
    and "core s' = core s"
proof -
  have "communities_ok c s' \<and>
    (\<forall>cid' g'. locations s' cid' g' =
      (if cid' = cid \<and> g' = g then filter (\<lambda>x. x \<notin> set ls) (locations s cid g) else locations s cid' g')) \<and>
    (\<forall>cid' g'. cid' \<noteq> cid \<or> g' \<noteq> g \<longrightarrow> cid' \<in> set (cids_by_geohash s' g') \<longleftrightarrow> cid' \<in> set (cids_by_geohash s g')) \<and>
    core s' = core s"
    unfolding s'_def using assms(1)
  proof (induction ls arbitrary: s)
    case Nil
    then show ?case by simp
  next
    case (Cons l ls)
    let ?s = "remove_location_intern cid l g s"
    note spec = remove_location_intern_spec[OF ok_distinct[OF Cons.prems], where cid = cid and g = g and l = l]
    note IH = Cons.IH[OF remove_location_intern_ok[OF Cons.prems]]
    have "cid' \<in> set (cids_by_geohash ?s g') \<longleftrightarrow> cid' \<in> set (cids_by_geohash s g')" if "cid' \<noteq> cid \<or> g' \<noteq> g" for cid' g'
      using that by (auto simp: spec(2))
    then show ?case using IH by (auto simp: spec(1,7) intro: filter_cong)
  qed
  then show ok: "communities_ok c s'" and loc: "locations s' cid' g' =
      (if cid' = cid \<and> g' = g then filter (\<lambda>x. x \<notin> set ls) (locations s cid g) else locations s cid' g')"
    and "cid' \<noteq> cid \<or> g' \<noteq> g \<Longrightarrow> cid' \<in> set (cids_by_geohash s' g') \<longleftrightarrow> cid' \<in> set (cids_by_geohash s g')"
    and "core s' = core s"
    for cid' g' by blast+
  show "cid \<notin> set (cids_by_geohash s' g)" if "set (locations s cid g) \<subseteq> set ls"
  proof -
    have "locations s' cid g = []" using that loc[of cid g] by (auto simp: filter_empty_conv)
    then show ?thesis using ok by (auto simp: communities_ok_def)
  qed
qed

lemma remove_buckets:
  fixes cid :: CommunityIdentifier and bs :: buckets
  assumes "communities_ok c s"
  defines "s' \<equiv> fold (\<lambda>(g, ls). fold (\<lambda>l. remove_location_intern cid l g) ls) bs s"
  shows "communities_ok c s'"
    and "locations s' cid' g = (if cid' = cid
      then filter (\<lambda>x. \<forall>(h, ls)\<in>set bs. h = g \<longrightarrow> x \<notin> set ls) (locations s cid g) else locations s cid' g)"
    and "cid' \<noteq> cid \<Longrightarrow> cid' \<in> set (cids_by_geohash s' g) \<longleftrightarrow> cid' \<in> set (cids_by_geohash s g)"
    and "core s' = core s"
proof -
  have "communities_ok c s' \<and>
    (\<forall>cid' g. locations s' cid' g = (if cid' = cid
      then filter (\<lambda>x. \<forall>(h, ls)\<in>set bs. h = g \<longrightarrow> x \<notin> set ls) (locations s cid g) else locations s cid' g)) \<and>
    (\<forall>cid' g. cid' \<noteq> cid \<longrightarrow> cid' \<in> set (cids_by_geohash s' g) \<longleftrightarrow> cid' \<in> set (cids_by_geohash s g)) \<and>
    core s' = core s"
    unfolding s'_def using assms(1)
  proof (induction bs arbitrary: s)
    case Nil
    then show ?case by simp
  next
    case (Cons b bs)
    obtain g ls where b: "b = (g, ls)" by (cases b)
    note spec = remove_bucket[OF Cons.prems, where cid = cid and g = g and ls = ls]
    show ?case using Cons.IH[OF spec(1)] by (auto simp: b spec(2,3,5) intro!: filter_cong)
  qed
  then show "communities_ok c s'"
    and "locations s' cid' g = (if cid' = cid
      then filter (\<lambda>x. \<forall>(h, ls)\<in>set bs. h = g \<longrightarrow> x \<notin> set ls) (locations s cid g) else locations s cid' g)"
    and "cid' \<noteq> cid \<Longrightarrow> cid' \<in> set (cids_by_geohash s' g) \<longleftrightarrow> cid' \<in> set (cids_by_geohash s g)"
    and "core s' = core s"
    by blast+
qed

lemma remove_all_locations_spec:
  assumes "communities_ok c s"
  shows "communities_ok c (remove_all_locations cid s)"
    and "locations (remove_all_locations cid s) cid' g = (if cid' = cid then [] else locations s cid' g)"
    and "cid \<notin> set (cids_by_geohash (remove_all_locations cid s) g)"
    and "cid' \<noteq> cid \<Longrightarrow>
      cid' \<in> set (cids_by_geohash (remove_all_locations cid s) g) \<longleftrightarrow> cid' \<in> set (cids_by_geohash s g)"
    and "core (remove_all_locations cid s) = core s"
proof -
  note spec = remove_buckets[OF assms, where cid = cid and bs = "cm_locations s cid", folded remove_all_locations_def]
  show ok: "communities_ok c (remove_all_locations cid s)" by (rule spec)
  have "\<exists>b\<in>set (cm_locations s cid). fst b = g \<and> x \<in> set (snd b)" if "x \<in> set (locations s cid g)" for x
  proof -
    from that obtain ls where "map_of (cm_locations s cid) g = Some ls" "x \<in> set ls"
      by (cases "map_of (cm_locations s cid) g") (auto simp: locations_def bucket_get_def)
    then show ?thesis by (intro bexI[of _ "(g, ls)"]) (auto dest: map_of_SomeD)
  qed
  then have nil: "locations (remove_all_locations cid s) cid g = []"
    unfolding spec(2) by (fastforce simp: filter_empty_conv)
  then show "locations (remove_all_locations cid s) cid' g = (if cid' = cid then [] else locations s cid' g)"
    using spec(2)[of cid' g] by auto
  show "cid \<notin> set (cids_by_geohash (remove_all_locations cid s) g)"
    using ok nil by (auto simp: communities_ok_def)
  show "cid' \<noteq> cid \<Longrightarrow>
      cid' \<in> set (cids_by_geohash (remove_all_locations cid s) g) \<longleftrightarrow> cid' \<in> set (cids_by_geohash s g)"
    "core (remove_all_locations cid s) = core s"
    by (rule spec, assumption) (rule spec)
qed

lemma remove_community_spec:
  assumes ok: "communities_ok c s" and res: "remove_community cid s b = (s', b')"
  shows "communities_ok c s'"
    and "locations s' cid' g = (if cid' = cid then [] else locations s cid' g)"
    and "cid' \<in> set (cids_by_geohash s' g) \<longleftrightarrow> cid' \<noteq> cid \<and> cid' \<in> set (cids_by_geohash s g)"
    and "cm_community_identifiers s' = filter (\<lambda>x. x \<noteq> cid) (cm_community_identifiers s)"
    and "cm_bootstrappers s' = (cm_bootstrappers s)(cid := None)"
    and "cm_community_metadata s' = (cm_community_metadata s)(cid := None)"
    and "cm_nominal_income s' = (cm_nominal_income s)(cid := None)"
    and "b' = purge_balances cid b"
    and "cm_locations s' cid = []"
proof -
  define s1 where "s1 = remove_all_locations cid s"
  note spec = remove_all_locations_spec[OF ok, where cid = cid, folded s1_def]
  note fields = core_fields[OF spec(5)]
  have locs: "locations s' x h = locations s1 x h" for x h
    using res spec(2)[of cid h]
    by (auto simp: remove_community_def Let_def s1_def[symmetric] locations_def bucket_get_def cm_deposit_event_def)
  have cids: "cids_by_geohash s' = cids_by_geohash s1"
    using res by (auto simp: remove_community_def Let_def s1_def[symmetric] cids_by_geohash_def fun_eq_iff
        cm_deposit_event_def)
  have keys: "sorted_wrt (<) (map fst (cm_locations s' x))" for x
    using res spec(1) by (auto simp: remove_community_def Let_def s1_def[symmetric] communities_ok_def
        cm_deposit_event_def)
  show ids: "cm_community_identifiers s' = filter (\<lambda>x. x \<noteq> cid) (cm_community_identifiers s)"
    and "cm_bootstrappers s' = (cm_bootstrappers s)(cid := None)"
    and "cm_community_metadata s' = (cm_community_metadata s)(cid := None)"
    and "cm_nominal_income s' = (cm_nominal_income s)(cid := None)"
    and "b' = purge_balances cid b" and "cm_locations s' cid = []"
    using res fields by (auto simp: remove_community_def Let_def s1_def[symmetric] cm_deposit_event_def)
  show "locations s' cid' g = (if cid' = cid then [] else locations s cid' g)" using locs spec(2) by simp
  show "cid' \<in> set (cids_by_geohash s' g) \<longleftrightarrow> cid' \<noteq> cid \<and> cid' \<in> set (cids_by_geohash s g)"
    using cids spec(3)[of g] spec(4)[of cid' g] by (cases "cid' = cid") auto
  show "communities_ok c s'"
    unfolding communities_ok_def locs cids ids
    using spec(1) keys spec(2)[of cid] fields(2)
    by (auto simp: communities_ok_def)
qed

lemma index_cid_ok:
  assumes ok: "communities_ok c s" and res: "index_cid c g cid s = Inr s'" and ne: "locations s cid g \<noteq> []"
  shows "communities_ok c s'"
  using ok ne index_cid_spec[OF res] unfolding communities_ok_def
  by (auto simp: strict_sorted_insort set_insort_key split: if_splits)

text \<open>Storing one more location of a registered community in its bucket.\<close>

lemma insert_locations_ok:
  assumes ok: "communities_ok c s" and "cid \<in> set (cm_community_identifiers s)"
    and "sorted_wrt (<) ls" and "ls \<noteq> []" and "\<forall>l\<in>set ls. cc_try_from_params c (lat l) (lon l) = Some g"
  shows "communities_ok c (insert_locations cid g ls s)"
proof -
  have "sorted_wrt (<) (map fst (cm_locations (insert_locations cid g ls s) x))" for x
    using ok by (auto simp: insert_locations_def communities_ok_def sorted_bucket_insert)
  then show ?thesis using assms unfolding communities_ok_def by (auto simp: locations_insert)
qed

lemma do_add_location_cases:
  assumes ok: "communities_ok c s" and res: "do_add_location c cid location s = Inr s'"
  obtains g s1 where "cc_try_from_params c (lat location) (lon location) = Some g"
    "validate_location c s location = Inr ()" "cid \<in> set (cm_community_identifiers s)"
    "s1 = (if location \<in> set (locations s cid g) then s
      else insert_locations cid g (insort location (locations s cid g)) s)"
    "\<exists>s2. index_cid c g cid s1 = Inr s2 \<and> s' = cm_deposit_event (LocationAdded cid location) s2"
proof -
  from res obtain g s1 s2 where g: "cc_try_from_params c (lat location) (lon location) = Some g"
    and v: "validate_location c s location = Inr ()" and cid: "cid \<in> set (cm_community_identifiers s)"
    and s1: "(case binary_search location (locations s cid g) of
          Inr _ \<Rightarrow> Inr s
        | Inl index \<Rightarrow>
            bind_res (ok_or (try_insert (cc_max_locations_per_geohash c) index location
                               (locations s cid g)) TooManyLocationsPerGeohash)
              (\<lambda>ls. Inr (insert_locations cid g ls s))) = Inr s1"
    and s2: "index_cid c g cid s1 = Inr s2" and s': "s' = cm_deposit_event (LocationAdded cid location) s2"
    unfolding do_add_location_def ensure_cid_exists_def
    by (auto simp: bind_res_def ok_or_def split: sum.splits option.splits if_splits)
  have "s1 = (if location \<in> set (locations s cid g) then s
      else insert_locations cid g (insort location (locations s cid g)) s)"
  proof (cases "location \<in> set (locations s cid g)")
    case True
    then obtain i where "binary_search location (locations s cid g) = Inr i" by (rule binary_search_present)
    then show ?thesis using s1 True by simp
  next
    case False
    then obtain i where "binary_search location (locations s cid g) = Inl i"
      "vec_insert i location (locations s cid g) = insort location (locations s cid g)"
      by (rule binary_search_absent)
    then show ?thesis using s1 False by (auto simp: try_insert_def ok_or_def split: if_splits)
  qed
  then show thesis using that g v cid s2 s' by blast
qed

lemma do_add_location_ok:
  assumes ok: "communities_ok c s" and res: "do_add_location c cid location s = Inr s'"
  shows "communities_ok c s'" and "index_complete s \<Longrightarrow> index_complete s'"
    and "cc_try_from_params c (lat location) (lon location) = Some g \<Longrightarrow> location \<in> set (locations s' cid g)"
proof -
  obtain g s1 s2 where g: "cc_try_from_params c (lat location) (lon location) = Some g"
    and cid: "cid \<in> set (cm_community_identifiers s)"
    and s1: "s1 = (if location \<in> set (locations s cid g) then s
      else insert_locations cid g (insort location (locations s cid g)) s)"
    and s2: "index_cid c g cid s1 = Inr s2" and s': "s' = cm_deposit_event (LocationAdded cid location) s2"
    by (rule do_add_location_cases[OF ok res]) blast
  have old: "sorted_wrt (<) (locations s cid g)"
    "\<forall>l\<in>set (locations s cid g). cc_try_from_params c (lat l) (lon l) = Some g"
    using ok by (auto simp: communities_ok_def)
  then have ok1: "communities_ok c s1"
    using ok cid g insert_locations_ok[OF ok cid strict_sorted_insort[OF old(1)]]
    by (auto simp: s1 set_insort_key insort_is_Cons)
  have here: "location \<in> set (locations s1 cid g)" by (simp add: s1 locations_insert set_insort_key)
  then have "locations s1 cid g \<noteq> []" by auto
  note spec = index_cid_spec[OF s2]
  have "communities_ok c s2" by (rule index_cid_ok[OF ok1 s2]) fact
  then show "communities_ok c s'" by (simp add: s' communities_ok_def)
  have "locations s1 x h = locations s x h" if "x \<noteq> cid \<or> h \<noteq> g" for x h
    using that by (auto simp: s1 locations_insert)
  moreover have "cids_by_geohash s1 = cids_by_geohash s" by (simp add: s1)
  ultimately have "x \<in> set (cids_by_geohash s' h)" if "index_complete s" "locations s' x h \<noteq> []" for x h
    using that unfolding index_complete_def
    by (cases "x = cid \<and> h = g") (auto simp: s' spec set_insort_key)
  then show "index_complete s \<Longrightarrow> index_complete s'" by (simp add: index_complete_def)
  show "cc_try_from_params c (lat location) (lon location) = Some h \<Longrightarrow> location \<in> set (locations s' cid h)" for h
    using here g by (simp add: s' spec(3))
qed

lemma new_community_cases:
  assumes ok: "communities_ok c s" and res: "new_community c t location bs md dem inc s b = Inr (s', b')"
  obtains cid g s1 s2 where "cid \<notin> set (cm_community_identifiers s)"
    "cid_new (cc_try_from_params c) (cc_crc32 c) (cc_encode c) location bs = Inr cid"
    "cc_try_from_params c (lat location) (lon location) = Some g"
    "validate_location c s location = Inr ()" "index_cid c g cid s = Inr s1"
    "s2 = (insert_locations cid g [location] s1)
       \<lparr>cm_community_identifiers := cm_community_identifiers s @ [cid]\<rparr>"
    "cm_locations s' = cm_locations s2" "cm_cids_by_geohash s' = cm_cids_by_geohash s2"
    "cm_community_identifiers s' = cm_community_identifiers s2"
proof -
  from res obtain cid g s1 where cid: "cid \<notin> set (cm_community_identifiers s)"
    "cid_new (cc_try_from_params c) (cc_crc32 c) (cc_encode c) location bs = Inr cid"
    and g: "cc_try_from_params c (lat location) (lon location) = Some g"
    and v: "validate_location c s location = Inr ()" and s1: "index_cid c g cid s = Inr s1"
    and s': "cm_locations s' = cm_locations (insert_locations cid g [location] s1)"
      "cm_cids_by_geohash s' = cm_cids_by_geohash (insert_locations cid g [location] s1)"
      "cm_community_identifiers s' = cm_community_identifiers s1 @ [cid]"
    unfolding new_community_def
    by (auto simp: bind_res_def ensure_def ok_or_def map_err_def Let_def cm_deposit_event_def
        split: sum.splits option.splits if_splits)
  show thesis
    using that[OF cid g v s1 refl] s' index_cid_spec(4)[OF s1] by (simp add: insert_locations_def)
qed

lemma new_community_ok:
  assumes ok: "communities_ok c s" and res: "new_community c t location bs md dem inc s b = Inr (s', b')"
  shows "communities_ok c s'" and "index_complete s \<Longrightarrow> index_complete s'"
proof -
  obtain cid g s1 s2 where cid: "cid \<notin> set (cm_community_identifiers s)"
    and g: "cc_try_from_params c (lat location) (lon location) = Some g"
    and s1: "index_cid c g cid s = Inr s1"
    and s2: "s2 = (insert_locations cid g [location] s1)
       \<lparr>cm_community_identifiers := cm_community_identifiers s @ [cid]\<rparr>"
    and s': "cm_locations s' = cm_locations s2" "cm_cids_by_geohash s' = cm_cids_by_geohash s2"
      "cm_community_identifiers s' = cm_community_identifiers s2"
    by (rule new_community_cases[OF ok res]) blast
  note spec = index_cid_spec[OF s1]
  have none: "locations s cid h = []" for h using ok cid by (auto simp: communities_ok_def)
  have locs: "locations s' x h = (if x = cid \<and> h = g then [location] else locations s x h)" for x h
    using s'(1) spec(2) by (simp add: locations_def s2 insert_locations_def bucket_get_def map_of_bucket_insert)
  have cids: "cids_by_geohash s' = cids_by_geohash s1"
    using s'(2) by (simp add: cids_by_geohash_def s2 insert_locations_def fun_eq_iff)
  have ids: "cm_community_identifiers s' = cm_community_identifiers s @ [cid]" using s'(3) by (simp add: s2)
  have keys: "sorted_wrt (<) (map fst (cm_locations s' x))" for x
    using s'(1) ok spec(2) by (auto simp: s2 insert_locations_def communities_ok_def sorted_bucket_insert)
  have new: "cid \<notin> set (cids_by_geohash s h)" for h using ok none[of h] by (auto simp: communities_ok_def)
  have set_cids: "set (cids_by_geohash s' h) = (if h = g then {cid} else {}) \<union> set (cids_by_geohash s h)" for h
    using new by (auto simp: cids spec(1) set_insort_key)
  have sorted: "sorted_wrt (<) (cids_by_geohash s' h)" for h
    using ok new by (auto simp: cids spec(1) communities_ok_def strict_sorted_insort)
  show "communities_ok c s'"
    unfolding communities_ok_def ids using ok keys sorted g cid none
    by (auto simp: locs set_cids communities_ok_def split: if_splits)
  show "index_complete s \<Longrightarrow> index_complete s'"
    by (auto simp: index_complete_def locs set_cids)
qed

text \<open>The calls as steps on the states of the two pallets.\<close>

inductive communities_step ::
  "communities_config \<Rightarrow> communities \<times> balances \<Rightarrow> communities \<times> balances \<Rightarrow> bool"
  for c :: communities_config where
  step_new: "new_community c t location bs md dem inc s b = Inr sb \<Longrightarrow> communities_step c (s, b) sb"
| step_add: "add_location c ph t cid location s = Inr s' \<Longrightarrow> communities_step c (s, b) (s', b)"
| step_remove: "remove_location c ph m cid location s = Inr s' \<Longrightarrow> communities_step c (s, b) (s', b)"
| step_metadata: "update_community_metadata m cid md s = Inr s' \<Longrightarrow> communities_step c (s, b) (s', b)"
| step_demurrage: "update_demurrage m cid d s b = Inr sb \<Longrightarrow> communities_step c (s, b) sb"
| step_income: "update_nominal_income m cid i s = Inr s' \<Longrightarrow> communities_step c (s, b) (s', b)"
| step_solar: "set_min_solar_trip_time_s m t s = Inr s' \<Longrightarrow> communities_step c (s, b) (s', b)"
| step_speed: "set_max_speed_mps m v s = Inr s' \<Longrightarrow> communities_step c (s, b) (s', b)"
| step_purge: "purge_community m cid s b = Inr sb \<Longrightarrow> communities_step c (s, b) sb"

inductive_cases communities_stepE: "communities_step c sb sb'"

definition same_places :: "communities \<Rightarrow> communities \<Rightarrow> bool" where
  "same_places s' s \<longleftrightarrow> cm_locations s' = cm_locations s \<and> cm_cids_by_geohash s' = cm_cids_by_geohash s \<and>
     cm_community_identifiers s' = cm_community_identifiers s"

lemma same_places_ok: "same_places s' s \<Longrightarrow> communities_ok c s' = communities_ok c s"
  by (simp add: same_places_def communities_ok_def locations_def cids_by_geohash_def)

lemma deposit_ok: "communities_ok c (cm_deposit_event e s) = communities_ok c s"
  by (rule same_places_ok) (simp add: same_places_def cm_deposit_event_def)

lemma updates_same_places:
  "update_community_metadata m cid md s = Inr s' \<Longrightarrow> same_places s' s"
  "update_demurrage m cid d s b = Inr (s', b') \<Longrightarrow> same_places s' s"
  "update_nominal_income m cid i s = Inr s' \<Longrightarrow> same_places s' s"
  "set_min_solar_trip_time_s m t s = Inr s' \<Longrightarrow> same_places s' s"
  "set_max_speed_mps m v s = Inr s' \<Longrightarrow> same_places s' s"
  by (auto simp: update_community_metadata_def do_update_community_metadata_def update_demurrage_def
      do_update_demurrage_def update_nominal_income_def do_update_nominal_income_def same_places_def
      set_min_solar_trip_time_s_def set_max_speed_mps_def ensure_def bind_res_def cm_deposit_event_def
      split: if_splits sum.splits)

lemma communities_step_ok:
  assumes "communities_step c sb sb'" and "communities_ok c (fst sb)"
  shows "communities_ok c (fst sb')"
  using assms
proof cases
  case (step_new t location bs md dem inc s b)
  moreover obtain s' b' where "sb' = (s', b')" by (cases sb')
  ultimately show ?thesis using new_community_ok(1) assms(2) by (metis fst_conv)
next
  case (step_add ph t cid location s s' b)
  then have "do_add_location c cid location s = Inr s'"
    by (simp add: add_location_def ensure_def split: if_splits)
  then show ?thesis using do_add_location_ok(1) assms(2) step_add by simp
next
  case (step_remove ph m cid location s s' b)
  then obtain g where "s' = cm_deposit_event (LocationRemoved cid location) (remove_location_intern cid location g s)"
    by (auto simp: remove_location_def do_remove_location_def ensure_def ensure_cid_exists_def ok_or_def
        split: if_splits option.splits)
  moreover have "communities_ok c s" using assms(2) step_remove by simp
  ultimately show ?thesis using step_remove remove_location_intern_ok by (simp add: deposit_ok)
next
  case (step_purge m cid s b)
  then show ?thesis using remove_community_spec(1)[of c s cid b] assms(2)
    by (cases sb') (auto simp: purge_community_def ensure_def split: if_splits)
next
  case (step_demurrage m cid d s b)
  moreover obtain s' b' where "sb' = (s', b')" by (cases sb')
  ultimately show ?thesis using updates_same_places(2) same_places_ok assms(2) by (metis fst_conv)
qed (use assms(2) in \<open>simp_all add: updates_same_places[THEN same_places_ok]\<close>)

lemma ensure_all_far_Inr:
  "ensure_all_far c s location ls = Inr () \<longleftrightarrow>
     (\<forall>l\<in>set ls. \<exists>t. solar_trip_time c s location l = Some t \<and> cm_min_solar_trip_time_s s \<le> t)"
  by (induction ls) (auto simp: bind_res_def ok_or_def ensure_def split: option.splits)

lemma validate_location_far:
  assumes "validate_location c s location = Inr ()"
    and "cc_try_from_params c (lat location) (lon location) = Some g"
    and "cid \<in> set (cids_by_geohash s g)" and "l \<in> set (locations s cid g)"
  shows "\<exists>t. solar_trip_time c s location l = Some t \<and> cm_min_solar_trip_time_s s \<le> t"
proof -
  obtain ls where ls: "get_nearby_locations c s location = Inr ls" "ensure_all_far c s location ls = Inr ()"
    using assms(1) by (auto simp: validate_location_def ensure_def bind_res_def Let_def split: if_splits sum.splits)
  have "l \<in> set ls" using ls(1) assms(2-4)
    by (auto simp: get_nearby_locations_def bind_res_def ok_or_def split: sum.splits)
  then show ?thesis using ls(2) by (simp add: ensure_all_far_Inr)
qed

end
