(* ===== verification/Ceremonies.thy ===== *)
theory Ceremonies
  imports Registry Meetup_Validation Communities "HOL-Library.AList"
begin

text \<open>
  The ceremonies pallet, \<open>ceremonies/src/lib.rs\<close>: registration for the next ceremony with its
  reputations and endorsements, the assignment of meetups, attestations, the payment of rewards, and
  the clean-up at a change of phase. A call of the pallet that fails leaves no trace, since the
  runtime rolls its storage changes back, so a call returns an error or the new state. The scheduler,
  communities and balances pallets it reads are arguments; the balances that \<open>claim_rewards\<close> changes
  and the communities that a phase change may purge are results as well. Writes to the offchain index
  are output that no call reads; Reputation_Cache adds them.
\<close>

section \<open>Types and storage\<close>

datatype ceremonies_event =
    ParticipantRegistered CommunityIdentifier ParticipantType AccountId
  | EndorsedParticipant CommunityIdentifier AccountId AccountId
  | AttestationsRegistered CommunityIdentifier nat nat AccountId
  | RewardsIssued CommunityIdentifier nat nat
  | InactivityTimeoutUpdated nat
  | EndorsementTicketsPerBootstrapperUpdated nat
  | EndorsementTicketsPerReputableUpdated nat
  | ReputationLifetimeUpdated nat
  | MeetupTimeOffsetUpdated int
  | TimeToleranceUpdated nat
  | LocationToleranceUpdated nat
  | CommunityCeremonyHistoryPurged CommunityIdentifier nat
  | NoReward CommunityIdentifier nat nat AccountId ExclusionReason
  | InactivityCounterUpdated CommunityIdentifier nat
  | MeetupEvaluated CommunityIdentifier nat MeetupResult

text \<open>
  The errors of the pallet, with one for a failed origin check and one for a panic of the balances
  pallet below.
\<close>

datatype ceremonies_error =
    ParticipantAlreadyRegistered | BadProofOfAttendanceSignature | BadAttendeeSignature
  | BootstrapperReputationIsUntransferrable | MeetupLocationNotFound | MeetupTimeCalculationError
  | NoValidAttestations | AttestationPhaseRequired | RegisteringOrAttestationPhaseRequired
  | InexistentCommunity | ProofOutdated | ProofAcausal | WrongProofSubject
  | AttendanceUnverifiedOrAlreadyUsed | TooManyAttestations | NoMoreNewbieTickets | AlreadyEndorsed
  | ParticipantIsNotRegistered | NoLocationsAvailable | WrongPhaseForClaimingRewards
  | RewardsAlreadyIssued | VotesNotDependable | RegistryOverflow | CheckedMath | OnlyBootstrappers
  | WrongPhaseForChangingMeetupTimeOffset | InvalidMeetupTimeOffset | CeremonyHistoryPurged
  | WrongPhaseForUnregistering | GetMeetupParticipantsError | MeetupValidationIndexOutOfBounds
  | EarlyRewardsNotPossible | MustBeNewbieToUpgradeRegistration | ReputationCommunityCeremonyRequired
  | ReputationMustBeLinked | InvalidMeetupIndex | TooManyAttestationsInBoundedVec
  | CeremoniesBadOrigin | CeremoniesPanic

record 'sig ceremonies_config =
  cec_balances :: balances_config
  cec_hash :: hash_fn
  cec_encode :: "AccountId \<times> nat \<Rightarrow> bytes"
  cec_verify :: "(AccountId, 'sig) verifier"
  cec_meetup_size_target :: nat
  cec_meetup_min_size :: nat
  cec_newbie_limit_divider :: nat
  cec_max_attestations :: nat
  cec_moments_per_day :: nat

text \<open>
  \<open>IssuedRewards\<close> is iterated over, so its inner map is an association list; the other double maps are
  functions.
\<close>

record ceremonies =
  ce_burned_bootstrapper_tickets :: "CommunityIdentifier \<Rightarrow> AccountId \<Rightarrow> nat option"
  ce_burned_reputable_tickets :: "CommunityCeremony \<Rightarrow> AccountId \<Rightarrow> nat option"
  ce_bootstrapper :: registry
  ce_reputable :: registry
  ce_endorsee :: registry
  ce_newbie :: registry
  ce_assignment_counts :: "CommunityCeremony \<Rightarrow> AssignmentCount option"
  ce_assignments :: "CommunityCeremony \<Rightarrow> Assignment option"
  ce_reputation :: "CommunityCeremony \<Rightarrow> AccountId \<Rightarrow> Reputation option"
  ce_reputation_count :: "CommunityCeremony \<Rightarrow> nat option"
  ce_global_reputation_count :: "nat \<Rightarrow> nat option"
  ce_endorsees :: "CommunityCeremony \<Rightarrow> AccountId \<Rightarrow> unit option"
  ce_endorsees_count :: "CommunityCeremony \<Rightarrow> nat option"
  ce_meetup_count :: "CommunityCeremony \<Rightarrow> nat option"
  ce_attestation_registry :: "CommunityCeremony \<Rightarrow> nat \<Rightarrow> AccountId list option"
  ce_attestation_index :: "CommunityCeremony \<Rightarrow> AccountId \<Rightarrow> nat option"
  ce_attestation_count :: "CommunityCeremony \<Rightarrow> nat option"
  ce_participant_count_vote :: "CommunityCeremony \<Rightarrow> AccountId \<Rightarrow> nat option"
  ce_ceremony_reward :: BalanceType
  ce_location_tolerance :: nat
  ce_time_tolerance :: nat
  ce_issued_rewards :: "CommunityCeremony \<Rightarrow> (nat \<times> MeetupResult) list"
  ce_inactivity_counters :: "CommunityIdentifier \<Rightarrow> nat option"
  ce_inactivity_timeout :: nat
  ce_tickets_per_bootstrapper :: nat
  ce_tickets_per_reputable :: nat
  ce_reputation_lifetime :: nat
  ce_meetup_time_offset :: int
  ce_events :: "ceremonies_event list"

definition ceremonies_genesis ::
  "BalanceType \<Rightarrow> nat \<Rightarrow> nat \<Rightarrow> nat \<Rightarrow> nat \<Rightarrow> nat \<Rightarrow> nat \<Rightarrow> int \<Rightarrow> ceremonies" where
  "ceremonies_genesis reward location_tolerance time_tolerance inactivity_timeout per_bootstrapper
     per_reputable lifetime offset =
     \<lparr>ce_burned_bootstrapper_tickets = (\<lambda>_. Map.empty), ce_burned_reputable_tickets = (\<lambda>_. Map.empty),
      ce_bootstrapper = empty_registry, ce_reputable = empty_registry, ce_endorsee = empty_registry,
      ce_newbie = empty_registry, ce_assignment_counts = Map.empty, ce_assignments = Map.empty,
      ce_reputation = (\<lambda>_. Map.empty), ce_reputation_count = Map.empty,
      ce_global_reputation_count = Map.empty, ce_endorsees = (\<lambda>_. Map.empty),
      ce_endorsees_count = Map.empty, ce_meetup_count = Map.empty,
      ce_attestation_registry = (\<lambda>_. Map.empty), ce_attestation_index = (\<lambda>_. Map.empty),
      ce_attestation_count = Map.empty, ce_participant_count_vote = (\<lambda>_. Map.empty),
      ce_ceremony_reward = reward, ce_location_tolerance = location_tolerance,
      ce_time_tolerance = time_tolerance, ce_issued_rewards = (\<lambda>_. []),
      ce_inactivity_counters = Map.empty, ce_inactivity_timeout = inactivity_timeout,
      ce_tickets_per_bootstrapper = per_bootstrapper, ce_tickets_per_reputable = per_reputable,
      ce_reputation_lifetime = lifetime, ce_meetup_time_offset = offset, ce_events = []\<rparr>"

definition ce_deposit_event :: "ceremonies_event \<Rightarrow> ceremonies \<Rightarrow> ceremonies" where
  "ce_deposit_event e s = s\<lparr>ce_events := ce_events s @ [e]\<rparr>"

definition participant_reputation :: "ceremonies \<Rightarrow> CommunityCeremony \<Rightarrow> AccountId \<Rightarrow> Reputation" where
  "participant_reputation s cc account = value_query Unverified (ce_reputation s cc account)"

definition put_reputation :: "CommunityCeremony \<Rightarrow> AccountId \<Rightarrow> Reputation \<Rightarrow> ceremonies \<Rightarrow> ceremonies" where
  "put_reputation cc account rep s = s\<lparr>ce_reputation := dm_insert cc account rep (ce_reputation s)\<rparr>"

definition meetup_count :: "ceremonies \<Rightarrow> CommunityCeremony \<Rightarrow> nat" where
  "meetup_count s cc = value_query 0 (ce_meetup_count s cc)"

definition assignments :: "ceremonies \<Rightarrow> CommunityCeremony \<Rightarrow> Assignment" where
  "assignments s cc = value_query default_assignment (ce_assignments s cc)"

definition assignment_counts :: "ceremonies \<Rightarrow> CommunityCeremony \<Rightarrow> AssignmentCount" where
  "assignment_counts s cc = value_query default_count (ce_assignment_counts s cc)"

definition issued_rewards :: "ceremonies \<Rightarrow> CommunityCeremony \<Rightarrow> nat \<Rightarrow> MeetupResult option" where
  "issued_rewards s cc meetup = map_of (ce_issued_rewards s cc) meetup"

definition put_issued_rewards :: "CommunityCeremony \<Rightarrow> nat \<Rightarrow> MeetupResult \<Rightarrow> ceremonies \<Rightarrow> ceremonies" where
  "put_issued_rewards cc meetup result s =
     s\<lparr>ce_issued_rewards := (ce_issued_rewards s)(cc := AList.update meetup result (ce_issued_rewards s cc))\<rparr>"

definition bootstrappers :: "communities \<Rightarrow> CommunityIdentifier \<Rightarrow> AccountId list" where
  "bootstrappers cm cid = value_query [] (cm_bootstrappers cm cid)"

text \<open>The registry of a participant type.\<close>

fun registry_of :: "ParticipantType \<Rightarrow> ceremonies \<Rightarrow> registry" where
  "registry_of Bootstrapper s = ce_bootstrapper s"
| "registry_of Reputable s = ce_reputable s"
| "registry_of Endorsee s = ce_endorsee s"
| "registry_of Newbie s = ce_newbie s"

fun put_registry :: "ParticipantType \<Rightarrow> registry \<Rightarrow> ceremonies \<Rightarrow> ceremonies" where
  "put_registry Bootstrapper r s = s\<lparr>ce_bootstrapper := r\<rparr>"
| "put_registry Reputable r s = s\<lparr>ce_reputable := r\<rparr>"
| "put_registry Endorsee r s = s\<lparr>ce_endorsee := r\<rparr>"
| "put_registry Newbie r s = s\<lparr>ce_newbie := r\<rparr>"

definition add_to_registry ::
  "ParticipantType \<Rightarrow> CommunityCeremony \<Rightarrow> AccountId \<Rightarrow> ceremonies \<Rightarrow> ceremonies_error + ceremonies" where
  "add_to_registry t cc sender s =
     bind_res (ok_or (registry_add cc sender (registry_of t s)) RegistryOverflow) (\<lambda>r.
     Inr (put_registry t r s))"

section \<open>Registration\<close>

definition has_reputation :: "scheduler \<Rightarrow> AccountId \<Rightarrow> CommunityIdentifier \<Rightarrow> ceremonies \<Rightarrow> bool" where
  "has_reputation sch participant cid s =
     list_ex (\<lambda>i. is_verified (participant_reputation s (cid, saturating_sub (sc_ceremony_index sch) i) participant))
       [0..<ce_reputation_lifetime s + 1]"

definition is_endorsed :: "AccountId \<Rightarrow> CommunityCeremony \<Rightarrow> ceremonies \<Rightarrow> nat option" where
  "is_endorsed participant cc s =
     map_option (\<lambda>i. saturating_sub (snd cc) i)
       (List.find (\<lambda>i. contains (ce_endorsees s (fst cc, saturating_sub (snd cc) i) participant))
         [0..<ce_reputation_lifetime s + 1])"

definition validate_reputation :: "scheduler \<Rightarrow> AccountId \<Rightarrow> CommunityIdentifier \<Rightarrow> nat \<Rightarrow> ceremonies \<Rightarrow> bool" where
  "validate_reputation sch account cid cindex s =
     (if cindex < saturating_sub (sc_ceremony_index sch) (ce_reputation_lifetime s) then False
      else is_verified (participant_reputation s (cid, cindex) account))"

definition is_registered :: "CommunityCeremony \<Rightarrow> AccountId \<Rightarrow> ceremonies \<Rightarrow> bool" where
  "is_registered cc sender s =
     (registry_has (ce_bootstrapper s) cc sender \<or> registry_has (ce_reputable s) cc sender \<or>
      registry_has (ce_endorsee s) cc sender \<or> registry_has (ce_newbie s) cc sender)"

definition get_participant_type :: "CommunityCeremony \<Rightarrow> AccountId \<Rightarrow> ceremonies \<Rightarrow> ParticipantType option" where
  "get_participant_type cc participant s =
     (if registry_has (ce_bootstrapper s) cc participant then Some Bootstrapper
      else if registry_has (ce_reputable s) cc participant then Some Reputable
      else if registry_has (ce_endorsee s) cc participant then Some Endorsee
      else if registry_has (ce_newbie s) cc participant then Some Newbie
      else None)"

definition register ::
  "'sig ceremonies_config \<Rightarrow> communities \<Rightarrow> balances \<Rightarrow> CommunityCeremony \<Rightarrow> AccountId \<Rightarrow> bool \<Rightarrow> ceremonies \<Rightarrow>
   ceremonies_error + (ParticipantType \<times> ceremonies)" where
  "register c cm b cc sender is_reputable s =
     (if sender \<in> set (bootstrappers cm (fst cc)) then
        bind_res (add_to_registry Bootstrapper cc sender s) (\<lambda>s'. Inr (Bootstrapper, s'))
      else
        bind_res (map_err (\<lambda>_. CeremoniesPanic) (total_issuance (cec_balances c) b (fst cc))) (\<lambda>total.
        if total \<le> 0 then Inl OnlyBootstrappers
        else if is_reputable then
          bind_res (add_to_registry Reputable cc sender s) (\<lambda>s'. Inr (Reputable, s'))
        else
          (case is_endorsed sender cc s of
             Some endorsed_cindex \<Rightarrow>
               bind_res (add_to_registry Endorsee cc sender
                 (s\<lparr>ce_endorsees := dm_remove (fst cc, endorsed_cindex) sender (ce_endorsees s)\<rparr>)) (\<lambda>s'.
               Inr (Endorsee, s'))
           | None \<Rightarrow> bind_res (add_to_registry Newbie cc sender s) (\<lambda>s'. Inr (Newbie, s')))))"

definition remove_participant_from_registry ::
  "scheduler \<Rightarrow> CommunityCeremony \<Rightarrow> AccountId \<Rightarrow> ceremonies \<Rightarrow> ceremonies_error + ceremonies" where
  "remove_participant_from_registry sch cc participant s =
     (if sc_phase sch \<noteq> Registering then Inl WrongPhaseForUnregistering
      else
        bind_res (ok_or (get_participant_type cc participant s) ParticipantIsNotRegistered) (\<lambda>t.
        Inr (put_registry t (registry_remove cc participant (registry_of t s)) s)))"

text \<open>The ceremony a registration in the current phase is for: the next one from attesting on.\<close>

definition registration_cindex :: "scheduler \<Rightarrow> nat" where
  "registration_cindex sch =
     (if sc_phase sch = Attesting then wrapping_add 32 (sc_ceremony_index sch) 1 else sc_ceremony_index sch)"

definition link_reputation ::
  "'sig ceremonies_config \<Rightarrow> communities \<Rightarrow> CommunityCeremony \<Rightarrow> AccountId \<Rightarrow> 'sig ProofOfAttendance \<Rightarrow> ceremonies \<Rightarrow>
   ceremonies_error + ceremonies" where
  "link_reputation c cm cc sender p s =
     ensure (sender = prover_public p) WrongProofSubject (
     ensure (pa_ceremony_index p < snd cc) ProofAcausal (
     ensure (pa_ceremony_index p \<ge> saturating_sub (snd cc) (ce_reputation_lifetime s)) ProofOutdated (
     ensure (is_verified_and_unlinked_for_cindex
         (participant_reputation s (pa_community_identifier p, pa_ceremony_index p) (attendee_public p)) (snd cc))
       AttendanceUnverifiedOrAlreadyUsed (
     ensure (attendee_public p \<in> set (bootstrappers cm (fst cc)) \<longrightarrow> attendee_public p = sender)
       BootstrapperReputationIsUntransferrable (
     ensure (proof_verify_signature (cec_encode c) (cec_verify c) p) BadProofOfAttendanceSignature (
     Inr (put_reputation cc sender UnverifiedReputable
       (put_reputation (pa_community_identifier p, pa_ceremony_index p) (attendee_public p)
         (VerifiedLinked (snd cc)) s))))))))"

definition register_participant ::
  "'sig ceremonies_config \<Rightarrow> scheduler \<Rightarrow> communities \<Rightarrow> balances \<Rightarrow> AccountId \<Rightarrow> CommunityIdentifier \<Rightarrow>
   'sig ProofOfAttendance option \<Rightarrow> ceremonies \<Rightarrow> ceremonies_error + ceremonies" where
  "register_participant c sch cm b sender cid proof s =
     ensure (is_registering_or_attesting (sc_phase sch)) RegisteringOrAttestationPhaseRequired (
     ensure (cid \<in> set (cm_community_identifiers cm)) InexistentCommunity (
     let cc = (cid, registration_cindex sch) in
     if is_registered cc sender s then Inl ParticipantAlreadyRegistered
     else
       bind_res (case proof of Some p \<Rightarrow> link_reputation c cm cc sender p s | None \<Rightarrow> Inr s) (\<lambda>s1.
       bind_res (register c cm b cc sender (proof \<noteq> None) s1) (\<lambda>(t, s2).
       Inr (ce_deposit_event (ParticipantRegistered cid t sender) s2)))))"

definition upgrade_registration ::
  "'sig ceremonies_config \<Rightarrow> scheduler \<Rightarrow> communities \<Rightarrow> balances \<Rightarrow> AccountId \<Rightarrow> CommunityIdentifier \<Rightarrow>
   'sig ProofOfAttendance \<Rightarrow> ceremonies \<Rightarrow> ceremonies_error + ceremonies" where
  "upgrade_registration c sch cm b sender cid proof s =
     ensure (cid \<in> set (cm_community_identifiers cm)) InexistentCommunity (
     ensure (is_registering_or_attesting (sc_phase sch)) RegisteringOrAttestationPhaseRequired (
     let cc = (cid, registration_cindex sch) in
     bind_res (ok_or (get_participant_type cc sender s) ParticipantIsNotRegistered) (\<lambda>t.
     if t = Newbie then
       bind_res (remove_participant_from_registry sch cc sender s) (\<lambda>s1.
       register_participant c sch cm b sender cid (Some proof) s1)
     else Inl MustBeNewbieToUpgradeRegistration)))"

definition unlink_reputation ::
  "CommunityCeremony \<Rightarrow> AccountId \<Rightarrow> ParticipantType \<Rightarrow> CommunityCeremony option \<Rightarrow> ceremonies \<Rightarrow>
   ceremonies_error + ceremonies" where
  "unlink_reputation registration sender t maybe_cc s =
     (case maybe_cc of
        None \<Rightarrow> if t = Bootstrapper then Inr s else Inl ReputationCommunityCeremonyRequired
      | Some cc \<Rightarrow>
          ensure (snd cc \<ge> saturating_sub (snd registration) (ce_reputation_lifetime s)) ProofOutdated (
          ensure (participant_reputation s cc sender = VerifiedLinked (snd registration)) ReputationMustBeLinked (
          let s1 = put_reputation cc sender VerifiedUnlinked s
          in Inr (s1\<lparr>ce_reputation := dm_remove registration sender (ce_reputation s1)\<rparr>))))"

definition unregister_participant ::
  "scheduler \<Rightarrow> communities \<Rightarrow> AccountId \<Rightarrow> CommunityIdentifier \<Rightarrow> CommunityCeremony option \<Rightarrow> ceremonies \<Rightarrow>
   ceremonies_error + ceremonies" where
  "unregister_participant sch cm sender cid maybe_cc s =
     ensure (is_registering_or_attesting (sc_phase sch)) RegisteringOrAttestationPhaseRequired (
     ensure (cid \<in> set (cm_community_identifiers cm)) InexistentCommunity (
     let cc = (cid, registration_cindex sch) in
     bind_res (ok_or (get_participant_type cc sender s) ParticipantIsNotRegistered) (\<lambda>t.
     bind_res (if t = Reputable \<or> t = Bootstrapper then unlink_reputation cc sender t maybe_cc s else Inr s) (\<lambda>s1.
     remove_participant_from_registry sch cc sender s1))))"

section \<open>Endorsement\<close>

definition burn_newbie_tickets ::
  "scheduler \<Rightarrow> communities \<Rightarrow> CommunityCeremony \<Rightarrow> AccountId \<Rightarrow> ceremonies \<Rightarrow> ceremonies_error + ceremonies" where
  "burn_newbie_tickets sch cm cc sender s =
     (let reputable = value_query 0 (ce_burned_reputable_tickets s cc sender);
          bootstrapper = value_query 0 (ce_burned_bootstrapper_tickets s (fst cc) sender)
      in if has_reputation sch sender (fst cc) s \<and> reputable < ce_tickets_per_reputable s then
           Inr (s\<lparr>ce_burned_reputable_tickets :=
             dm_insert cc sender (wrapping_add 8 reputable 1) (ce_burned_reputable_tickets s)\<rparr>)
         else if sender \<in> set (bootstrappers cm (fst cc)) \<and> bootstrapper < ce_tickets_per_bootstrapper s then
           Inr (s\<lparr>ce_burned_bootstrapper_tickets :=
             dm_insert (fst cc) sender (wrapping_add 8 bootstrapper 1) (ce_burned_bootstrapper_tickets s)\<rparr>)
         else Inl NoMoreNewbieTickets)"

text \<open>The new value of \<open>EndorseesCount\<close> is computed from \<open>EndorseeCount\<close>, as in the source.\<close>

definition endorse_newcomer ::
  "'sig ceremonies_config \<Rightarrow> scheduler \<Rightarrow> communities \<Rightarrow> balances \<Rightarrow> AccountId \<Rightarrow> CommunityIdentifier \<Rightarrow> AccountId \<Rightarrow>
   ceremonies \<Rightarrow> ceremonies_error + ceremonies" where
  "endorse_newcomer c sch cm b sender cid newbie s =
     ensure (cid \<in> set (cm_community_identifiers cm)) InexistentCommunity (
     let cindex = (if sc_phase sch \<noteq> Registering then wrapping_add 32 (sc_ceremony_index sch) 1
                   else sc_ceremony_index sch);
         cc = (cid, cindex) in
     ensure (is_endorsed newbie cc s = None) AlreadyEndorsed (
     bind_res (burn_newbie_tickets sch cm cc sender s) (\<lambda>s1.
     let s2 = s1\<lparr>ce_endorsees := dm_insert cc newbie () (ce_endorsees s1)\<rparr> in
     bind_res (ok_or (checked_add 64 (registry_count (ce_endorsee s2) cc) 1) RegistryOverflow) (\<lambda>n.
     let s3 = s2\<lparr>ce_endorsees_count := (ce_endorsees_count s2)(cc \<mapsto> n)\<rparr> in
     bind_res
       (if registry_has (ce_newbie s3) cc newbie then
          bind_res (remove_participant_from_registry sch cc newbie s3) (\<lambda>s4.
          bind_res (register c cm b cc newbie False s4) (\<lambda>(t, s5). Inr s5))
        else Inr s3) (\<lambda>s6.
     Inr (ce_deposit_event (EndorsedParticipant cid sender newbie) s6))))))"

end
