(* ===== verification/Meetups.thy ===== *)
theory Meetups
  imports Ceremonies
begin

text \<open>
  The second half of the ceremonies pallet, \<open>ceremonies/src/lib.rs\<close>: the assignment of the registered
  participants to meetups, attestations, the payment of rewards, the parameters, and the work at a
  change of phase. A computation that draws random numbers is an \<open>option\<close>, whose \<open>None\<close> is a panic or a
  draw that never returns.
\<close>

section \<open>Assignment\<close>

definition compute_assignment_allowance ::
  "'sig ceremonies_config \<Rightarrow> communities \<Rightarrow> CommunityCeremony \<Rightarrow> nat \<Rightarrow> ceremonies \<Rightarrow>
   (ceremonies_error + AssignmentCount) option" where
  "compute_assignment_allowance c cm cc meetup_multiplier s =
     (let num_locations = length (get_locations cm (fst cc));
          bootstrappers = registry_count (ce_bootstrapper s) cc;
          reputables = registry_count (ce_reputable s) cc;
          endorsees = registry_count (ce_endorsee s) cc;
          newbies = registry_count (ce_newbie s) cc
      in if num_locations = 0 then Some (Inl NoLocationsAvailable)
         else
           Option.bind (find_prime_below (wrapping_add 64 bootstrappers reputables)) (\<lambda>prime.
           case checked_mul 64 (min num_locations prime) meetup_multiplier of
             None \<Rightarrow> Some (Inl CheckedMath)
           | Some seats \<Rightarrow>
               (let seats0 = wrapping_sub 64 seats bootstrappers;
                    assigned_reputables = min reputables seats0;
                    seats1 = seats0 - assigned_reputables;
                    assigned_endorsees = min endorsees seats1;
                    seats2 = seats1 - assigned_endorsees
                in Option.bind
                     (checked_div
                       (wrapping_add 64 (wrapping_add 64 bootstrappers assigned_reputables) assigned_endorsees)
                       (cec_newbie_limit_divider c)) (\<lambda>newbie_limit.
                   Some (Inr \<lparr>ac_bootstrappers = bootstrappers, ac_reputables = assigned_reputables,
                     ac_endorsees = assigned_endorsees,
                     ac_newbies = min (min newbies seats2) newbie_limit\<rparr>)))))"

definition generate_assignment ::
  "'sig ceremonies_config \<Rightarrow> communities \<Rightarrow> CommunityCeremony \<Rightarrow> AssignmentCount \<Rightarrow> nat \<Rightarrow> rng \<Rightarrow>
   (Assignment \<times> rng) option" where
  "generate_assignment c cm cc allowance num_meetups r =
     Option.bind (generate_assignment_function_params (cec_hash c)
       (wrapping_add 64 (ac_bootstrappers allowance) (ac_reputables allowance)) num_meetups r) (\<lambda>(p1, r1).
     Option.bind (generate_assignment_function_params (cec_hash c) (ac_endorsees allowance) num_meetups r1)
       (\<lambda>(p2, r2).
     Option.bind (generate_assignment_function_params (cec_hash c) (ac_newbies allowance) num_meetups r2)
       (\<lambda>(p3, r3).
     Option.bind (generate_location_assignment_params (cec_hash c) (length (get_locations cm (fst cc))) r3)
       (\<lambda>(p4, r4).
     Some (\<lparr>as_bootstrappers_reputables = p1, as_endorsees = p2, as_newbies = p3, as_locations = p4\<rparr>, r4)))))"

definition generate_meetup_assignment_params ::
  "'sig ceremonies_config \<Rightarrow> communities \<Rightarrow> CommunityCeremony \<Rightarrow> rng \<Rightarrow> ceremonies \<Rightarrow>
   ((ceremonies_error + ceremonies) \<times> rng) option" where
  "generate_meetup_assignment_params c cm cc r s =
     Option.bind (compute_assignment_allowance c cm cc (cec_meetup_size_target c) s) (\<lambda>res.
     case res of
       Inl e \<Rightarrow> Some (Inl e, r)
     | Inr allowance \<Rightarrow>
         (let n = get_number_of_participants allowance in
          case checked_ceil_division n (cec_meetup_size_target c) of
            None \<Rightarrow> Some (Inl CheckedMath, r)
          | Some num_meetups \<Rightarrow>
              if n < cec_meetup_min_size c then Some (Inr s, r)
              else
                Option.bind (generate_assignment c cm cc allowance num_meetups r) (\<lambda>(assignment, r').
                Some (Inr (s\<lparr>ce_assignments := (ce_assignments s)(cc \<mapsto> assignment),
                             ce_assignment_counts := (ce_assignment_counts s)(cc \<mapsto> allowance),
                             ce_meetup_count := (ce_meetup_count s)(cc \<mapsto> num_meetups)\<rparr>), r'))))"

text \<open>A community whose assignment fails is logged and skipped.\<close>

fun generate_all_loop ::
  "'sig ceremonies_config \<Rightarrow> communities \<Rightarrow> nat \<Rightarrow> CommunityIdentifier list \<Rightarrow> rng \<Rightarrow> ceremonies \<Rightarrow>
   ceremonies option" where
  "generate_all_loop c cm cindex [] r s = Some s"
| "generate_all_loop c cm cindex (cid # cids) r s =
     Option.bind (generate_meetup_assignment_params c cm (cid, cindex) r s) (\<lambda>(res, r').
     generate_all_loop c cm cindex cids r' (case res of Inl e \<Rightarrow> s | Inr s' \<Rightarrow> s'))"

definition generate_all_meetup_assignment_params ::
  "'sig ceremonies_config \<Rightarrow> bytes \<Rightarrow> scheduler \<Rightarrow> communities \<Rightarrow> ceremonies \<Rightarrow> ceremonies option" where
  "generate_all_meetup_assignment_params c seed sch cm s =
     generate_all_loop c cm (sc_ceremony_index sch) (cm_community_identifiers cm) (rng_new seed) s"

section \<open>Meetups\<close>

definition type_slot :: "CommunityCeremony \<Rightarrow> AccountId \<Rightarrow> ParticipantType \<Rightarrow> ceremonies \<Rightarrow> (nat \<times> AssignmentParams) option" where
  "type_slot cc participant t s =
     (let counts = assignment_counts s cc;
          assignment = assignments s cc;
          participant_index = wrapping_sub 64 (value_query 0 (rg_index (registry_of t s) cc participant)) 1
      in case t of
           Bootstrapper \<Rightarrow>
             if participant_index < ac_bootstrappers counts
             then Some (participant_index, as_bootstrappers_reputables assignment) else None
         | Reputable \<Rightarrow>
             if participant_index < ac_reputables counts
             then Some (wrapping_add 64 participant_index (ac_bootstrappers counts), as_bootstrappers_reputables assignment)
             else None
         | Endorsee \<Rightarrow>
             if participant_index < ac_endorsees counts
             then Some (participant_index, as_endorsees assignment) else None
         | Newbie \<Rightarrow>
             if participant_index < ac_newbies counts
             then Some (participant_index, as_newbies assignment) else None)"

definition get_meetup_index :: "CommunityCeremony \<Rightarrow> AccountId \<Rightarrow> ceremonies \<Rightarrow> nat option" where
  "get_meetup_index cc participant s =
     Option.bind (get_participant_type cc participant s) (\<lambda>t.
     Option.bind (type_slot cc participant t s) (\<lambda>(participant_index, params).
     meetup_index participant_index params (meetup_count s cc)))"

text \<open>The participants of one registry at the given positions; a position without an entry is logged and skipped.\<close>

definition lookup_participants :: "registry \<Rightarrow> CommunityCeremony \<Rightarrow> nat \<Rightarrow> nat list \<Rightarrow> AccountId list" where
  "lookup_participants r cc assigned ps =
     concat (map (\<lambda>p. if p < assigned then
         (case rg_registry r cc (wrapping_add 64 p 1) of Some a \<Rightarrow> [a] | None \<Rightarrow> []) else []) ps)"

definition lookup_bootstrappers_reputables ::
  "ceremonies \<Rightarrow> CommunityCeremony \<Rightarrow> AssignmentCount \<Rightarrow> nat list \<Rightarrow> AccountId list" where
  "lookup_bootstrappers_reputables s cc assigned ps =
     concat (map (\<lambda>p.
       if p < ac_bootstrappers assigned then
         (case rg_registry (ce_bootstrapper s) cc (wrapping_add 64 p 1) of Some a \<Rightarrow> [a] | None \<Rightarrow> [])
       else if p < wrapping_add 64 (ac_bootstrappers assigned) (ac_reputables assigned) then
         (case rg_registry (ce_reputable s) cc (wrapping_add 64 (wrapping_sub 64 p (ac_bootstrappers assigned)) 1) of
            Some a \<Rightarrow> [a] | None \<Rightarrow> [])
       else []) ps)"

definition get_meetup_participants ::
  "CommunityCeremony \<Rightarrow> nat \<Rightarrow> ceremonies \<Rightarrow> ceremonies_error + AccountId list" where
  "get_meetup_participants cc meetup_idx s =
     (let n = meetup_count s cc; params = assignments s cc; assigned = assignment_counts s cc; k = meetup_idx - 1
      in if meetup_idx > n \<or> meetup_idx < 1 then Inl InvalidMeetupIndex
         else
           bind_res (ok_or (assignment_fn_inverse k (as_bootstrappers_reputables params) n
             (wrapping_add 64 (ac_bootstrappers assigned) (ac_reputables assigned))) GetMeetupParticipantsError) (\<lambda>ps1.
           bind_res (ok_or (assignment_fn_inverse k (as_endorsees params) n (ac_endorsees assigned))
             GetMeetupParticipantsError) (\<lambda>ps2.
           bind_res (ok_or (assignment_fn_inverse k (as_newbies params) n (ac_newbies assigned))
             GetMeetupParticipantsError) (\<lambda>ps3.
           Inr (lookup_bootstrappers_reputables s cc assigned ps1 @
                lookup_participants (ce_endorsee s) cc (ac_endorsees assigned) ps2 @
                lookup_participants (ce_newbie s) cc (ac_newbies assigned) ps3)))))"

definition get_meetup_location :: "communities \<Rightarrow> CommunityCeremony \<Rightarrow> nat \<Rightarrow> ceremonies \<Rightarrow> Location option" where
  "get_meetup_location cm cc meetup_idx s =
     meetup_location meetup_idx (get_locations cm (fst cc)) (as_locations (assignments s cc))"

definition get_meetup_time :: "'sig ceremonies_config \<Rightarrow> scheduler \<Rightarrow> Location \<Rightarrow> ceremonies \<Rightarrow> nat option" where
  "get_meetup_time c sch location s =
     (if sc_phase sch \<noteq> Attesting then None
      else
        let start = wrapping_sub 64 (sc_next_phase_timestamp sch) (phase_duration sch Attesting)
        in Some (meetup_time (lon location) start (cec_moments_per_day c) (ce_meetup_time_offset s)))"

definition get_ceremony_info :: "scheduler \<Rightarrow> CeremonyInfo" where
  "get_ceremony_info sch = \<lparr>ci_ceremony_phase = sc_phase sch, ci_ceremony_index = sc_ceremony_index sch\<rparr>"

definition get_aggregated_account_data ::
  "'sig ceremonies_config \<Rightarrow> scheduler \<Rightarrow> communities \<Rightarrow> CommunityIdentifier \<Rightarrow> AccountId \<Rightarrow> ceremonies \<Rightarrow>
   AggregatedAccountData" where
  "get_aggregated_account_data c sch cm cid account s =
     (let cc = (cid, sc_ceremony_index sch)
      in \<lparr>ad_global = \<lparr>ci_ceremony_phase = sc_phase sch, ci_ceremony_index = sc_ceremony_index sch\<rparr>,
          ad_personal = map_option (\<lambda>t.
            case get_meetup_index cc account s of
              None \<Rightarrow> \<lparr>ad_participant_type = t, ad_meetup_index = None, ad_meetup_location_index = None,
                       ad_meetup_time = None, ad_meetup_registry = None\<rparr>
            | Some k \<Rightarrow>
                \<lparr>ad_participant_type = t, ad_meetup_index = Some k,
                 ad_meetup_location_index =
                   get_meetup_location_index k (get_locations cm cid) (as_locations (assignments s cc)),
                 ad_meetup_time =
                   Option.bind (get_meetup_location cm cc k s) (\<lambda>location. get_meetup_time c sch location s),
                 ad_meetup_registry =
                   (case get_meetup_participants cc k s of Inl _ \<Rightarrow> None | Inr ps \<Rightarrow> Some ps)\<rparr>)
            (get_participant_type cc account s)\<rparr>)"

section \<open>Attestations\<close>

definition gather_meetup_data ::
  "'sig ceremonies_config \<Rightarrow> scheduler \<Rightarrow> communities \<Rightarrow> CommunityIdentifier \<Rightarrow> AccountId \<Rightarrow> ceremonies \<Rightarrow>
   ceremonies_error + (nat \<times> nat \<times> AccountId list \<times> Location \<times> nat)" where
  "gather_meetup_data c sch cm cid participant s =
     (let cindex = sc_ceremony_index sch; cc = (cid, cindex) in
      bind_res (ok_or (get_meetup_index cc participant s) ParticipantIsNotRegistered) (\<lambda>meetup_idx.
      bind_res (get_meetup_participants cc meetup_idx s) (\<lambda>participants.
      bind_res (ok_or (get_meetup_location cm cc meetup_idx s) MeetupLocationNotFound) (\<lambda>location.
      bind_res (ok_or (get_meetup_time c sch location s) MeetupTimeCalculationError) (\<lambda>time.
      Inr (cindex, meetup_idx, participants, location, time))))))"

definition add_attestations_to_registry ::
  "'sig ceremonies_config \<Rightarrow> AccountId \<Rightarrow> CommunityCeremony \<Rightarrow> nat \<Rightarrow> AccountId list \<Rightarrow> AccountId list \<Rightarrow> ceremonies \<Rightarrow>
   ceremonies_error + ceremonies" where
  "add_attestations_to_registry c participant cc meetup_idx meetup_participants attestations s =
     (let verified = rev (filter (\<lambda>a. a \<noteq> participant \<and> a \<in> set meetup_participants) attestations) in
      if verified = [] then Inl NoValidAttestations
      else
        bind_res (ok_or (checked_add 64 (value_query 0 (ce_attestation_count s cc)) 1) CheckedMath) (\<lambda>fresh.
        let (idx, s1) =
          (case ce_attestation_index s cc participant of
             Some i \<Rightarrow> (i, s)
           | None \<Rightarrow> (fresh, s\<lparr>ce_attestation_count := (ce_attestation_count s)(cc \<mapsto> fresh)\<rparr>)) in
        ensure (length verified \<le> cec_max_attestations c) TooManyAttestationsInBoundedVec (
        Inr (ce_deposit_event
          (AttestationsRegistered (fst cc) meetup_idx (as_unsigned 32 (length verified)) participant)
          (s1\<lparr>ce_attestation_registry := dm_insert cc idx verified (ce_attestation_registry s1),
              ce_attestation_index := dm_insert cc participant idx (ce_attestation_index s1)\<rparr>)))))"

definition attest_attendees ::
  "'sig ceremonies_config \<Rightarrow> scheduler \<Rightarrow> communities \<Rightarrow> AccountId \<Rightarrow> CommunityIdentifier \<Rightarrow> nat \<Rightarrow> AccountId list \<Rightarrow>
   ceremonies \<Rightarrow> ceremonies_error + ceremonies" where
  "attest_attendees c sch cm sender cid number_of_participants_vote attestations s =
     ensure (sc_phase sch = Attesting) AttestationPhaseRequired (
     ensure (cid \<in> set (cm_community_identifiers cm)) InexistentCommunity (
     bind_res (gather_meetup_data c sch cm cid sender s) (\<lambda>(cindex, meetup_idx, meetup_participants, _, _).
     ensure (length attestations < length meetup_participants) TooManyAttestations (
     let s1 = s\<lparr>ce_participant_count_vote :=
           dm_insert (cid, cindex) sender number_of_participants_vote (ce_participant_count_vote s)\<rparr> in
     add_attestations_to_registry c sender (cid, cindex) meetup_idx meetup_participants attestations s1))))"

section \<open>Rewards\<close>

definition gather_meetup_validation_data ::
  "CommunityCeremony \<Rightarrow> AccountId list \<Rightarrow> ceremonies \<Rightarrow> nat list \<times> nat list list" where
  "gather_meetup_validation_data cc meetup_participants s =
     (map (\<lambda>p. value_query 0 (ce_participant_count_vote s cc p)) meetup_participants,
      map (\<lambda>p. List.map_filter (\<lambda>a. position (\<lambda>x. x = a) meetup_participants)
          (value_query [] (ce_attestation_registry s cc (value_query 0 (ce_attestation_index s cc p)))))
        meetup_participants)"

definition nominal_income :: "communities \<Rightarrow> CommunityIdentifier \<Rightarrow> ceremonies \<Rightarrow> BalanceType" where
  "nominal_income cm cid s = value_query (ce_ceremony_reward s) (cm_nominal_income cm cid)"

fun issue_loop ::
  "balances_config \<Rightarrow> CommunityCeremony \<Rightarrow> BalanceType \<Rightarrow> AccountId list \<Rightarrow> nat list \<Rightarrow> ceremonies \<times> balances \<times> nat \<Rightarrow>
   ceremonies_error + (ceremonies \<times> balances \<times> nat)" where
  "issue_loop bc cc reward participants [] st = Inr st"
| "issue_loop bc cc reward participants (i # is) (s, b, n) =
     bind_res (ok_or (vec_get participants i) MeetupValidationIndexOutOfBounds) (\<lambda>participant.
     let (res, b') = issue bc (fst cc) participant reward b in
     if is_ok res
     then issue_loop bc cc reward participants is
            (put_reputation cc participant VerifiedUnlinked s, b', wrapping_add 128 n 1)
     else issue_loop bc cc reward participants is (s, b', n))"

definition issue_rewards ::
  "'sig ceremonies_config \<Rightarrow> communities \<Rightarrow> CommunityCeremony \<Rightarrow> nat \<Rightarrow> AccountId list \<Rightarrow> nat list \<Rightarrow>
   ceremonies \<Rightarrow> balances \<Rightarrow> ceremonies_error + (ceremonies \<times> balances)" where
  "issue_rewards c cm cc meetup_idx meetup_participants participants_indices s b =
     bind_res (issue_loop (cec_balances c) cc (nominal_income cm (fst cc) s) meetup_participants
       participants_indices (s, b, 0)) (\<lambda>(s1, b1, n).
     let s2 = s1\<lparr>ce_reputation_count := (ce_reputation_count s1)
             (cc \<mapsto> wrapping_add 128 (value_query 0 (ce_reputation_count s1 cc)) n),
           ce_global_reputation_count := (ce_global_reputation_count s1)
             (snd cc \<mapsto> wrapping_add 128 (value_query 0 (ce_global_reputation_count s1 (snd cc))) n)\<rparr>;
         s3 = put_issued_rewards cc meetup_idx Ok s2
     in Inr (ce_deposit_event
          (RewardsIssued (fst cc) meetup_idx (as_unsigned 8 (length participants_indices))) s3, b1))"

fun emit_no_rewards ::
  "CommunityCeremony \<Rightarrow> nat \<Rightarrow> AccountId list \<Rightarrow> ExcludedParticipant list \<Rightarrow> ceremonies \<Rightarrow>
   ceremonies_error + ceremonies" where
  "emit_no_rewards cc meetup_idx meetup_participants [] s = Inr s"
| "emit_no_rewards cc meetup_idx meetup_participants (p # ps) s =
     bind_res (ok_or (vec_get meetup_participants (ep_index p)) MeetupValidationIndexOutOfBounds) (\<lambda>participant.
     emit_no_rewards cc meetup_idx meetup_participants ps
       (ce_deposit_event (NoReward (fst cc) (snd cc) meetup_idx participant (ep_reason p)) s))"

fun validation_failure :: "MeetupValidationError \<Rightarrow> ceremonies_error \<times> MeetupResult" where
  "validation_failure BallotEmpty = (VotesNotDependable, MeetupVotesNotDependable)"
| "validation_failure NoDependableVote = (VotesNotDependable, MeetupVotesNotDependable)"
| "validation_failure IndexOutOfBounds = (MeetupValidationIndexOutOfBounds, MeetupIndexOutOfBounds)"

text \<open>The ceremony whose rewards can be claimed: the last one, or the current one while attesting.\<close>

definition claim_cindex :: "scheduler \<Rightarrow> ceremonies_error + nat" where
  "claim_cindex sch =
     (case sc_phase sch of
        Registering \<Rightarrow> Inr (saturating_sub (sc_ceremony_index sch) 1)
      | Attesting \<Rightarrow> Inr (sc_ceremony_index sch)
      | Assigning \<Rightarrow> Inl WrongPhaseForClaimingRewards)"

definition claim_rewards ::
  "'sig ceremonies_config \<Rightarrow> scheduler \<Rightarrow> communities \<Rightarrow> AccountId \<Rightarrow> CommunityIdentifier \<Rightarrow> nat option \<Rightarrow>
   ceremonies \<Rightarrow> balances \<Rightarrow> ceremonies_error + (ceremonies \<times> balances)" where
  "claim_rewards c sch cm participant cid maybe_meetup_index s b =
     bind_res (claim_cindex sch) (\<lambda>cindex.
     let cc = (cid, cindex) in
     bind_res (case maybe_meetup_index of
         Some index \<Rightarrow> Inr index
       | None \<Rightarrow> ok_or (get_meetup_index cc participant s) ParticipantIsNotRegistered) (\<lambda>meetup_idx.
     if contains (issued_rewards s cc meetup_idx) then Inl RewardsAlreadyIssued
     else
       bind_res (get_meetup_participants cc meetup_idx s) (\<lambda>meetup_participants.
       let (votes, attestations) = gather_meetup_validation_data cc meetup_participants s in
       case get_participant_judgements [0..<length meetup_participants] votes attestations attestation_threshold_fn of
         Inl err \<Rightarrow>
           (if sc_phase sch = Registering then
              Inr (ce_deposit_event (MeetupEvaluated cid meetup_idx (snd (validation_failure err)))
                (put_issued_rewards cc meetup_idx (snd (validation_failure err)) s), b)
            else Inl (fst (validation_failure err)))
       | Inr judgements \<Rightarrow>
           if sc_phase sch = Attesting \<and> \<not> pj_early_rewards_possible judgements
           then Inl EarlyRewardsNotPossible
           else
             bind_res (emit_no_rewards cc meetup_idx meetup_participants (pj_excluded judgements) s) (\<lambda>s1.
             issue_rewards c cm cc meetup_idx meetup_participants (pj_legit judgements) s1 b))))"

section \<open>Parameters\<close>

definition do_set_inactivity_timeout :: "nat \<Rightarrow> ceremonies \<Rightarrow> ceremonies" where
  "do_set_inactivity_timeout timeout s =
     ce_deposit_event (InactivityTimeoutUpdated timeout) (s\<lparr>ce_inactivity_timeout := timeout\<rparr>)"

definition set_inactivity_timeout :: "bool \<Rightarrow> nat \<Rightarrow> ceremonies \<Rightarrow> ceremonies_error + ceremonies" where
  "set_inactivity_timeout is_master timeout s =
     ensure is_master CeremoniesBadOrigin (Inr (do_set_inactivity_timeout timeout s))"

definition set_endorsement_tickets_per_bootstrapper :: "bool \<Rightarrow> nat \<Rightarrow> ceremonies \<Rightarrow> ceremonies_error + ceremonies" where
  "set_endorsement_tickets_per_bootstrapper is_master n s =
     ensure is_master CeremoniesBadOrigin
       (Inr (ce_deposit_event (EndorsementTicketsPerBootstrapperUpdated n) (s\<lparr>ce_tickets_per_bootstrapper := n\<rparr>)))"

definition set_endorsement_tickets_per_reputable :: "bool \<Rightarrow> nat \<Rightarrow> ceremonies \<Rightarrow> ceremonies_error + ceremonies" where
  "set_endorsement_tickets_per_reputable is_master n s =
     ensure is_master CeremoniesBadOrigin
       (Inr (ce_deposit_event (EndorsementTicketsPerReputableUpdated n) (s\<lparr>ce_tickets_per_reputable := n\<rparr>)))"

definition set_reputation_lifetime :: "bool \<Rightarrow> nat \<Rightarrow> ceremonies \<Rightarrow> ceremonies_error + ceremonies" where
  "set_reputation_lifetime is_master lifetime s =
     ensure is_master CeremoniesBadOrigin
       (Inr (ce_deposit_event (ReputationLifetimeUpdated lifetime) (s\<lparr>ce_reputation_lifetime := lifetime\<rparr>)))"

text \<open>\<open>i32::abs\<close> wraps at the least \<open>i32\<close>, which is its own negation.\<close>

definition i32_abs :: "int \<Rightarrow> int" where
  "i32_abs x = (if x = - (2 ^ 31) then x else \<bar>x\<bar>)"

definition set_meetup_time_offset :: "bool \<Rightarrow> scheduler \<Rightarrow> int \<Rightarrow> ceremonies \<Rightarrow> ceremonies_error + ceremonies" where
  "set_meetup_time_offset is_master sch offset s =
     ensure is_master CeremoniesBadOrigin (
     if sc_phase sch \<noteq> Registering then Inl WrongPhaseForChangingMeetupTimeOffset
     else if i32_abs offset > 8 * 3600 * 1000 then Inl InvalidMeetupTimeOffset
     else Inr (ce_deposit_event (MeetupTimeOffsetUpdated offset) (s\<lparr>ce_meetup_time_offset := offset\<rparr>)))"

definition set_time_tolerance :: "bool \<Rightarrow> nat \<Rightarrow> ceremonies \<Rightarrow> ceremonies_error + ceremonies" where
  "set_time_tolerance is_master tolerance s =
     ensure is_master CeremoniesBadOrigin
       (Inr (ce_deposit_event (TimeToleranceUpdated tolerance) (s\<lparr>ce_time_tolerance := tolerance\<rparr>)))"

definition set_location_tolerance :: "bool \<Rightarrow> nat \<Rightarrow> ceremonies \<Rightarrow> ceremonies_error + ceremonies" where
  "set_location_tolerance is_master tolerance s =
     ensure is_master CeremoniesBadOrigin
       (Inr (ce_deposit_event (LocationToleranceUpdated tolerance) (s\<lparr>ce_location_tolerance := tolerance\<rparr>)))"

section \<open>Clean-up and the change of phase\<close>

definition purge_community_ceremony_internal :: "CommunityCeremony \<Rightarrow> ceremonies \<Rightarrow> ceremonies" where
  "purge_community_ceremony_internal cc s =
     ce_deposit_event (CommunityCeremonyHistoryPurged (fst cc) (snd cc))
       (s\<lparr>ce_bootstrapper := registry_purge cc (ce_bootstrapper s),
          ce_reputable := registry_purge cc (ce_reputable s),
          ce_endorsee := registry_purge cc (ce_endorsee s),
          ce_newbie := registry_purge cc (ce_newbie s),
          ce_assignment_counts := (ce_assignment_counts s)(cc := None),
          ce_assignments := (ce_assignments s)(cc := None),
          ce_reputation := dm_remove_prefix cc (ce_reputation s),
          ce_reputation_count := (ce_reputation_count s)(cc := None),
          ce_global_reputation_count := (ce_global_reputation_count s)(snd cc := None),
          ce_endorsees := dm_remove_prefix cc (ce_endorsees s),
          ce_endorsees_count := (ce_endorsees_count s)(cc := None),
          ce_meetup_count := (ce_meetup_count s)(cc := None),
          ce_attestation_registry := dm_remove_prefix cc (ce_attestation_registry s),
          ce_attestation_index := dm_remove_prefix cc (ce_attestation_index s),
          ce_attestation_count := (ce_attestation_count s)(cc := None),
          ce_participant_count_vote := dm_remove_prefix cc (ce_participant_count_vote s),
          ce_issued_rewards := (ce_issued_rewards s)(cc := []),
          ce_burned_reputable_tickets := dm_remove_prefix cc (ce_burned_reputable_tickets s)\<rparr>)"

definition purge_community_ceremony :: "bool \<Rightarrow> CommunityCeremony \<Rightarrow> ceremonies \<Rightarrow> ceremonies_error + ceremonies" where
  "purge_community_ceremony is_master cc s =
     ensure is_master CeremoniesBadOrigin (Inr (purge_community_ceremony_internal cc s))"

definition purge_registry :: "communities \<Rightarrow> nat \<Rightarrow> ceremonies \<Rightarrow> ceremonies" where
  "purge_registry cm cindex s =
     foldl (\<lambda>s cid. purge_community_ceremony_internal (cid, cindex) s) s (cm_community_identifiers cm)"

fun update_inactivity_counters ::
  "nat \<Rightarrow> nat \<Rightarrow> CommunityIdentifier list \<Rightarrow> ceremonies \<Rightarrow> CommunityIdentifier list \<times> ceremonies" where
  "update_inactivity_counters cindex inactivity_timeout [] s = ([], s)"
| "update_inactivity_counters cindex inactivity_timeout (cid # cids) s =
     (if ce_issued_rewards s (cid, cindex) \<noteq> [] then
        update_inactivity_counters cindex inactivity_timeout cids
          (ce_deposit_event (InactivityCounterUpdated cid 0)
            (s\<lparr>ce_inactivity_counters := (ce_inactivity_counters s)(cid \<mapsto> 0)\<rparr>))
      else
        let current = value_query 0 (ce_inactivity_counters s cid) in
        if current \<ge> inactivity_timeout then
          (let (inactives, s') = update_inactivity_counters cindex inactivity_timeout cids s
           in (cid # inactives, s'))
        else
          update_inactivity_counters cindex inactivity_timeout cids
            (ce_deposit_event (InactivityCounterUpdated cid (current + 1))
              (s\<lparr>ce_inactivity_counters := (ce_inactivity_counters s)(cid \<mapsto> current + 1)\<rparr>)))"

type_synonym pallets = "ceremonies \<times> communities \<times> balances"

definition ceremonies_purge_community :: "scheduler \<Rightarrow> CommunityIdentifier \<Rightarrow> pallets \<Rightarrow> pallets" where
  "ceremonies_purge_community sch cid w =
     (let (s, cm, b) = w;
          current = sc_ceremony_index sch;
          s1 = foldl (\<lambda>s cindex. purge_community_ceremony_internal (cid, cindex) s) s
            [saturating_sub current (ce_reputation_lifetime s)..<current + 1];
          s2 = s1\<lparr>ce_inactivity_counters := (ce_inactivity_counters s1)(cid := None),
                  ce_burned_bootstrapper_tickets := dm_remove_prefix cid (ce_burned_bootstrapper_tickets s1)\<rparr>
      in (s2, remove_community cid cm b))"

definition on_ceremony_phase_change ::
  "'sig ceremonies_config \<Rightarrow> bytes \<Rightarrow> scheduler \<Rightarrow> CeremonyPhaseType \<Rightarrow> pallets \<Rightarrow> pallets option" where
  "on_ceremony_phase_change c seed sch new_phase w =
     (case w of (s, cm, b) \<Rightarrow>
       (case new_phase of
          Assigning \<Rightarrow>
            (let (inactives, s1) =
               update_inactivity_counters (saturating_sub (sc_ceremony_index sch) 1) (ce_inactivity_timeout s)
                 (cm_community_identifiers cm) s;
               (s2, cm2, b2) = foldl (\<lambda>w cid. ceremonies_purge_community sch cid w) (s1, cm, b) inactives
             in map_option (\<lambda>s3. (s3, cm2, b2)) (generate_all_meetup_assignment_params c seed sch cm2 s2))
        | Attesting \<Rightarrow> Some w
        | Registering \<Rightarrow>
            (let cindex = sc_ceremony_index sch in
             if cindex > ce_reputation_lifetime s then
               Some (purge_registry cm
                 (saturating_sub (saturating_sub cindex (ce_reputation_lifetime s)) 1) s, cm, b)
             else Some w)))"

text \<open>
  The handler of the scheduler: the pallets after the change of phase, or \<open>None\<close> once a handler has
  not returned, in which case no block is produced.
\<close>

definition ceremony_phase_handler :: "'sig ceremonies_config \<Rightarrow> bytes \<Rightarrow> pallets option phase_handler" where
  "ceremony_phase_handler c seed sch new_phase w =
     Option.bind w (on_ceremony_phase_change c seed sch new_phase)"

end
