(* ===== verification/Ceremony_Invariants.thy ===== *)
theory Ceremony_Invariants
  imports Meetups
begin

text \<open>
  What the calls of the ceremonies pallet preserve: the four participant registries are sound and
  disjoint, and the calls of one phase touch the registries of one ceremony only, so that the meetups
  of a ceremony stay what they are once they are assigned. Each operation has a lemma that describes
  the states it can lead to; \<open>Ceremony_Runs\<close> lifts the invariants to sequences of calls.
\<close>

section \<open>The registries of a state\<close>

lemma registry_of_put [simp]: "registry_of t (put_registry t' r s) = (if t = t' then r else registry_of t s)"
  by (cases t; cases t') auto

lemma put_registry_frame [simp]:
  "ce_assignments (put_registry t r s) = ce_assignments s"
  "ce_assignment_counts (put_registry t r s) = ce_assignment_counts s"
  "ce_meetup_count (put_registry t r s) = ce_meetup_count s"
  "ce_issued_rewards (put_registry t r s) = ce_issued_rewards s"
  "ce_reputation (put_registry t r s) = ce_reputation s"
  "ce_reputation_lifetime (put_registry t r s) = ce_reputation_lifetime s"
  "ce_endorsees (put_registry t r s) = ce_endorsees s"
  by (cases t; simp)+

text \<open>Updates of the other storage items leave the registries alone.\<close>

lemma registry_of_frame [simp]:
  "registry_of t (ce_deposit_event e s) = registry_of t s"
  "registry_of t (put_reputation cc a rep s) = registry_of t s"
  "registry_of t (put_issued_rewards cc k res s) = registry_of t s"
  "registry_of t (s\<lparr>ce_reputation := x1\<rparr>) = registry_of t s"
  "registry_of t (s\<lparr>ce_endorsees := x2\<rparr>) = registry_of t s"
  "registry_of t (s\<lparr>ce_endorsees_count := x3\<rparr>) = registry_of t s"
  "registry_of t (s\<lparr>ce_burned_reputable_tickets := x4\<rparr>) = registry_of t s"
  "registry_of t (s\<lparr>ce_burned_bootstrapper_tickets := x5\<rparr>) = registry_of t s"
  "registry_of t (s\<lparr>ce_participant_count_vote := x6\<rparr>) = registry_of t s"
  by (cases t; simp add: ce_deposit_event_def put_reputation_def put_issued_rewards_def)+

lemma deposit_event_frame [simp]:
  "ce_assignments (ce_deposit_event e s) = ce_assignments s"
  "ce_assignment_counts (ce_deposit_event e s) = ce_assignment_counts s"
  "ce_meetup_count (ce_deposit_event e s) = ce_meetup_count s"
  "ce_issued_rewards (ce_deposit_event e s) = ce_issued_rewards s"
  "ce_reputation (ce_deposit_event e s) = ce_reputation s"
  "ce_reputation_lifetime (ce_deposit_event e s) = ce_reputation_lifetime s"
  "ce_participant_count_vote (ce_deposit_event e s) = ce_participant_count_vote s"
  "ce_ceremony_reward (ce_deposit_event e s) = ce_ceremony_reward s"
  by (simp_all add: ce_deposit_event_def)

lemma put_reputation_frame [simp]:
  "ce_assignments (put_reputation cc a rep s) = ce_assignments s"
  "ce_assignment_counts (put_reputation cc a rep s) = ce_assignment_counts s"
  "ce_meetup_count (put_reputation cc a rep s) = ce_meetup_count s"
  "ce_issued_rewards (put_reputation cc a rep s) = ce_issued_rewards s"
  "ce_reputation_lifetime (put_reputation cc a rep s) = ce_reputation_lifetime s"
  "ce_reputation (put_reputation cc a rep s) = dm_insert cc a rep (ce_reputation s)"
  by (simp_all add: put_reputation_def)

lemma put_issued_rewards_frame [simp]:
  "ce_assignments (put_issued_rewards cc k res s) = ce_assignments s"
  "ce_assignment_counts (put_issued_rewards cc k res s) = ce_assignment_counts s"
  "ce_meetup_count (put_issued_rewards cc k res s) = ce_meetup_count s"
  "ce_reputation (put_issued_rewards cc k res s) = ce_reputation s"
  by (simp_all add: put_issued_rewards_def)

lemma issued_rewards_put:
  "issued_rewards (put_issued_rewards cc k res s) cc' k' =
     (if cc' = cc \<and> k' = k then Some res else issued_rewards s cc' k')"
  by (simp add: issued_rewards_def put_issued_rewards_def update_conv)

section \<open>The invariant\<close>

text \<open>Every registry is sound, and nobody is registered twice for a ceremony.\<close>

definition ceremonies_ok :: "ceremonies \<Rightarrow> bool" where
  "ceremonies_ok s \<longleftrightarrow>
     (\<forall>t. registry_ok (registry_of t s)) \<and>
     (\<forall>t t' cc a. registry_has (registry_of t s) cc a \<longrightarrow> registry_has (registry_of t' s) cc a \<longrightarrow> t = t')"

lemma ceremonies_okD:
  assumes "ceremonies_ok s"
  shows "registry_ok (registry_of t s)"
    and "registry_has (registry_of t s) cc a \<Longrightarrow> registry_has (registry_of t' s) cc a \<Longrightarrow> t = t'"
  using assms unfolding ceremonies_ok_def by blast+

lemma ceremonies_ok_cong:
  assumes "ceremonies_ok s" and "\<And>t. registry_of t s' = registry_of t s"
  shows "ceremonies_ok s'"
  using assms unfolding ceremonies_ok_def by simp

lemma registered_types: "is_registered cc a s \<longleftrightarrow> (\<exists>t. registry_has (registry_of t s) cc a)"
proof
  assume "\<exists>t. registry_has (registry_of t s) cc a"
  then obtain t where "registry_has (registry_of t s) cc a" ..
  then show "is_registered cc a s" by (cases t) (simp_all add: is_registered_def)
next
  assume "is_registered cc a s"
  then consider "registry_has (registry_of Bootstrapper s) cc a" | "registry_has (registry_of Reputable s) cc a"
    | "registry_has (registry_of Endorsee s) cc a" | "registry_has (registry_of Newbie s) cc a"
    by (auto simp: is_registered_def)
  then show "\<exists>t. registry_has (registry_of t s) cc a" by cases blast+
qed

lemma participant_type_registered:
  "get_participant_type cc a s = Some t \<Longrightarrow> registry_has (registry_of t s) cc a"
  by (auto simp: get_participant_type_def split: if_splits)

lemma participant_type_None: "get_participant_type cc a s = None \<longleftrightarrow> \<not> is_registered cc a s"
  by (simp add: get_participant_type_def is_registered_def)

lemma participant_type_iff:
  assumes "ceremonies_ok s"
  shows "get_participant_type cc a s = Some t \<longleftrightarrow> registry_has (registry_of t s) cc a"
proof
  assume has: "registry_has (registry_of t s) cc a"
  then obtain t' where t': "get_participant_type cc a s = Some t'"
    using participant_type_None[of cc a s] registered_types[of cc a s] by auto
  then show "get_participant_type cc a s = Some t"
    using ceremonies_okD(2)[OF assms participant_type_registered[OF t'] has] by simp
qed (rule participant_type_registered)

text \<open>Adding a new participant and removing a registered one keep the invariant.\<close>

lemma add_registry_ok:
  assumes ok: "ceremonies_ok s" and fresh: "\<not> is_registered cc a s"
    and add: "registry_add cc a (registry_of t s) = Some r"
  shows "ceremonies_ok (put_registry t r s)"
proof -
  have none: "\<not> registry_has (registry_of t' s) cc a" for t' using fresh by (auto simp: registered_types)
  note r = rg.add_invar[OF ceremonies_okD(1)[OF ok] none add] rg.has_add[OF ceremonies_okD(1)[OF ok] none add]
  have has: "registry_has (registry_of t' (put_registry t r s)) cc' b \<longleftrightarrow>
      (t' = t \<and> cc' = cc \<and> b = a) \<or> registry_has (registry_of t' s) cc' b" for t' cc' b
    by (simp add: r(2))
  have "t1 = t2" if "registry_has (registry_of t1 (put_registry t r s)) cc' b"
    "registry_has (registry_of t2 (put_registry t r s)) cc' b" for t1 t2 cc' b
    using that none ceremonies_okD(2)[OF ok, of t1 cc' b t2] unfolding has by blast
  moreover have "registry_ok (registry_of t' (put_registry t r s))" for t'
    using r(1) ceremonies_okD(1)[OF ok] by simp
  ultimately show ?thesis unfolding ceremonies_ok_def by blast
qed

lemma remove_registry_ok:
  assumes ok: "ceremonies_ok s" and has: "registry_has (registry_of t s) cc a"
  shows "ceremonies_ok (put_registry t (registry_remove cc a (registry_of t s)) s)"
    and "\<not> is_registered cc a (put_registry t (registry_remove cc a (registry_of t s)) s)"
proof -
  let ?s = "put_registry t (registry_remove cc a (registry_of t s)) s"
  note r = rg.remove_invar[OF ceremonies_okD(1)[OF ok] has] rg.has_remove[OF ceremonies_okD(1)[OF ok] has]
  have has': "registry_has (registry_of t' ?s) cc' b \<longleftrightarrow>
      registry_has (registry_of t' s) cc' b \<and> \<not> (t' = t \<and> cc' = cc \<and> b = a)" for t' cc' b
    by (auto simp: r(2))
  have "t1 = t2" if "registry_has (registry_of t1 ?s) cc' b" "registry_has (registry_of t2 ?s) cc' b" for t1 t2 cc' b
    using that ceremonies_okD(2)[OF ok, of t1 cc' b t2] unfolding has' by blast
  moreover have "registry_ok (registry_of t' ?s)" for t' using r(1) ceremonies_okD(1)[OF ok] by simp
  ultimately show "ceremonies_ok ?s" unfolding ceremonies_ok_def by blast
  show "\<not> is_registered cc a ?s"
    using ceremonies_okD(2)[OF ok has] unfolding registered_types has' by blast
qed

lemma genesis_ceremonies_ok:
  "ceremonies_ok (ceremonies_genesis reward lt tt it tb tr lifetime offset)"
proof -
  have "registry_of t (ceremonies_genesis reward lt tt it tb tr lifetime offset) = empty_registry" for t
    by (cases t) (simp_all add: ceremonies_genesis_def)
  then show ?thesis
    using rg.empty_invar rg.has_members[OF rg.empty_invar] rg.empty_members unfolding ceremonies_ok_def by simp
qed

section \<open>What an operation leaves alone\<close>

text \<open>
  An operation on the registration for one ceremony leaves the registries of all other ceremonies,
  all assignments and all issued rewards as they are.
\<close>

definition registry_at ::
  "registry \<Rightarrow> CommunityCeremony \<Rightarrow> (nat \<Rightarrow> AccountId option) \<times> (AccountId \<Rightarrow> nat option) \<times> nat option" where
  "registry_at r cc = (rg_registry r cc, rg_index r cc, rg_count r cc)"

definition registration_frame :: "CommunityCeremony \<Rightarrow> ceremonies \<Rightarrow> ceremonies \<Rightarrow> bool" where
  "registration_frame cc s s' \<longleftrightarrow>
     (\<forall>t cc'. cc' \<noteq> cc \<longrightarrow> registry_at (registry_of t s') cc' = registry_at (registry_of t s) cc') \<and>
     ce_assignments s' = ce_assignments s \<and> ce_assignment_counts s' = ce_assignment_counts s \<and>
     ce_meetup_count s' = ce_meetup_count s \<and> ce_issued_rewards s' = ce_issued_rewards s"

lemma frame_refl: "registration_frame cc s s"
  by (simp add: registration_frame_def)

lemma frame_trans:
  assumes "registration_frame cc s s'" and "registration_frame cc s' s''"
  shows "registration_frame cc s s''"
  using assms unfolding registration_frame_def by metis

lemma frame_cong:
  assumes "\<And>t. registry_of t s' = registry_of t s" and "ce_assignments s' = ce_assignments s"
    and "ce_assignment_counts s' = ce_assignment_counts s" and "ce_meetup_count s' = ce_meetup_count s"
    and "ce_issued_rewards s' = ce_issued_rewards s"
  shows "registration_frame cc s s'"
  using assms by (simp add: registration_frame_def)

lemma frame_put_registry:
  assumes "\<And>cc'. cc' \<noteq> cc \<Longrightarrow> registry_at r cc' = registry_at (registry_of t s) cc'"
  shows "registration_frame cc s (put_registry t r s)"
  using assms unfolding registration_frame_def by simp

lemma registry_add_at:
  "registry_add cc a r = Some r' \<Longrightarrow> cc' \<noteq> cc \<Longrightarrow> registry_at r' cc' = registry_at r cc'"
  by (auto simp: registry_add_def registry_at_def dm_insert_def bind_eq_Some_conv)

lemma registry_remove_at: "cc' \<noteq> cc \<Longrightarrow> registry_at (registry_remove cc a r) cc' = registry_at r cc'"
  by (simp add: registry_remove_def registry_at_def dm_insert_def dm_remove_def Let_def split: option.splits)

section \<open>Registration\<close>

lemma add_to_registry_cases:
  assumes "add_to_registry t cc a s = Inr s'"
  obtains r where "registry_add cc a (registry_of t s) = Some r" "s' = put_registry t r s"
  using assms by (auto simp: add_to_registry_def res_simps)

lemma register_cases:
  assumes "register c cm b cc a is_reputable s = Inr (t, s')"
  obtains r s0 where "registry_add cc a (registry_of t s) = Some r" "s' = put_registry t r s0"
    "s0 = s \<or> (\<exists>x. s0 = s\<lparr>ce_endorsees := x\<rparr>)"
proof -
  have "\<exists>s0. add_to_registry t cc a s0 = Inr s' \<and> (s0 = s \<or> (\<exists>x. s0 = s\<lparr>ce_endorsees := x\<rparr>))"
    using assms unfolding register_def by (auto simp: res_simps split: if_splits option.splits)
  then obtain s0 where s0: "add_to_registry t cc a s0 = Inr s'" "s0 = s \<or> (\<exists>x. s0 = s\<lparr>ce_endorsees := x\<rparr>)" by blast
  then have same: "registry_of t s0 = registry_of t s" by auto
  obtain r where "registry_add cc a (registry_of t s0) = Some r" "s' = put_registry t r s0"
    using s0(1) by (rule add_to_registry_cases)
  then show ?thesis using that same s0(2) by simp
qed

lemma register_ok:
  assumes "register c cm b cc a is_reputable s = Inr (t, s')"
  shows "registration_frame cc s s'"
    and "ceremonies_ok s \<Longrightarrow> \<not> is_registered cc a s \<Longrightarrow> ceremonies_ok s'"
    and "ce_reputation s' = ce_reputation s" and "ce_reputation_lifetime s' = ce_reputation_lifetime s"
proof -
  obtain r s0 where r: "registry_add cc a (registry_of t s) = Some r" and s': "s' = put_registry t r s0"
    and s0: "s0 = s \<or> (\<exists>x. s0 = s\<lparr>ce_endorsees := x\<rparr>)"
    using assms by (rule register_cases)
  have same: "registry_of t' s0 = registry_of t' s" for t' using s0 by auto
  have frame0: "registration_frame cc s s0" using s0 same by (intro frame_cong) auto
  have "registration_frame cc s0 s'"
    unfolding s' by (rule frame_put_registry) (simp add: same registry_add_at[OF r])
  with frame0 show "registration_frame cc s s'" by (rule frame_trans)
  show "ce_reputation s' = ce_reputation s" "ce_reputation_lifetime s' = ce_reputation_lifetime s"
    using s0 by (auto simp: s')
  assume ok: "ceremonies_ok s" and fresh: "\<not> is_registered cc a s"
  have "ceremonies_ok s0" using ok same by (rule ceremonies_ok_cong)
  moreover have "\<not> is_registered cc a s0" using fresh by (simp add: registered_types same)
  ultimately show "ceremonies_ok s'" unfolding s' using r by (intro add_registry_ok) (simp_all add: same)
qed

lemma remove_participant_cases:
  assumes "remove_participant_from_registry sch cc a s = Inr s'"
  obtains t where "sc_phase sch = Registering" "get_participant_type cc a s = Some t"
    "s' = put_registry t (registry_remove cc a (registry_of t s)) s"
  using assms by (auto simp: remove_participant_from_registry_def res_simps split: if_splits)

lemma remove_participant_ok:
  assumes "remove_participant_from_registry sch cc a s = Inr s'"
  shows "registration_frame cc s s'"
    and "ceremonies_ok s \<Longrightarrow> ceremonies_ok s' \<and> \<not> is_registered cc a s'"
    and "ce_reputation s' = ce_reputation s" and "ce_reputation_lifetime s' = ce_reputation_lifetime s"
    and "sc_phase sch = Registering"
proof -
  obtain t where t: "get_participant_type cc a s = Some t" and phase: "sc_phase sch = Registering"
    and s': "s' = put_registry t (registry_remove cc a (registry_of t s)) s"
    using assms by (rule remove_participant_cases)
  show "registration_frame cc s s'"
    unfolding s' by (rule frame_put_registry) (rule registry_remove_at)
  show "ceremonies_ok s \<Longrightarrow> ceremonies_ok s' \<and> \<not> is_registered cc a s'"
    using remove_registry_ok[OF _ participant_type_registered[OF t]] unfolding s' by blast
  show "ce_reputation s' = ce_reputation s" "ce_reputation_lifetime s' = ce_reputation_lifetime s"
    by (simp_all add: s')
  show "sc_phase sch = Registering" by (fact phase)
qed

lemma link_reputation_cases:
  assumes "link_reputation c cm cc sender p s = Inr s'"
  shows "sender = prover_public p" "pa_ceremony_index p < snd cc"
    "saturating_sub (snd cc) (ce_reputation_lifetime s) \<le> pa_ceremony_index p"
    "is_verified_and_unlinked_for_cindex
       (participant_reputation s (pa_community_identifier p, pa_ceremony_index p) (attendee_public p)) (snd cc)"
    "s' = put_reputation cc sender UnverifiedReputable
       (put_reputation (pa_community_identifier p, pa_ceremony_index p) (attendee_public p) (VerifiedLinked (snd cc)) s)"
  using assms unfolding link_reputation_def res_simps sum.inject by blast+

lemma maybe_link_frame:
  assumes "(case proof of Some p \<Rightarrow> link_reputation c cm cc sender p s | None \<Rightarrow> Inr s) = Inr s1"
  shows "registry_of t s1 = registry_of t s" and "registration_frame cc s s1"
proof -
  have "registry_of t s1 = registry_of t s \<and> registration_frame cc s s1"
  proof (cases "proof")
    case (Some p)
    then show ?thesis using link_reputation_cases(5)[of c cm cc sender p s s1] assms
      by (auto intro: frame_cong)
  qed (use assms frame_refl in auto)
  then show "registry_of t s1 = registry_of t s" "registration_frame cc s s1" by blast+
qed

lemma register_participant_cases:
  assumes "register_participant c sch cm b sender cid proof s = Inr s'"
  obtains s1 t s2 where "\<not> is_registered (cid, registration_cindex sch) sender s"
    "(case proof of Some p \<Rightarrow> link_reputation c cm (cid, registration_cindex sch) sender p s | None \<Rightarrow> Inr s) = Inr s1"
    "register c cm b (cid, registration_cindex sch) sender (proof \<noteq> None) s1 = Inr (t, s2)"
    "s' = ce_deposit_event (ParticipantRegistered cid t sender) s2"
    "is_registering_or_attesting (sc_phase sch)" "cid \<in> set (cm_community_identifiers cm)"
  using assms unfolding register_participant_def Let_def
  by (auto simp: res_simps split: if_splits)

lemma register_participant_ok:
  assumes "register_participant c sch cm b sender cid proof s = Inr s'"
  shows "registration_frame (cid, registration_cindex sch) s s'"
    and "ceremonies_ok s \<Longrightarrow> ceremonies_ok s'"
proof -
  let ?cc = "(cid, registration_cindex sch)"
  obtain s1 t s2 where fresh: "\<not> is_registered ?cc sender s"
    and link: "(case proof of Some p \<Rightarrow> link_reputation c cm ?cc sender p s | None \<Rightarrow> Inr s) = Inr s1"
    and reg: "register c cm b ?cc sender (proof \<noteq> None) s1 = Inr (t, s2)"
    and s': "s' = ce_deposit_event (ParticipantRegistered cid t sender) s2"
    using assms by (rule register_participant_cases) blast
  note same = maybe_link_frame(1)[OF link]
  have "registration_frame ?cc s s1" by (rule maybe_link_frame(2)[OF link])
  moreover have "registration_frame ?cc s2 s'" unfolding s' by (rule frame_cong) simp_all
  ultimately show "registration_frame ?cc s s'" using register_ok(1)[OF reg] frame_trans by blast
  assume ok: "ceremonies_ok s"
  have "ceremonies_ok s1" using ok same by (rule ceremonies_ok_cong)
  moreover have "\<not> is_registered ?cc sender s1" using fresh by (simp add: registered_types same)
  ultimately have "ceremonies_ok s2" by (rule register_ok(2)[OF reg])
  then show "ceremonies_ok s'" unfolding s' by (rule ceremonies_ok_cong) simp
qed

lemma upgrade_registration_ok:
  assumes "upgrade_registration c sch cm b sender cid proof s = Inr s'"
  shows "registration_frame (cid, registration_cindex sch) s s'"
    and "ceremonies_ok s \<Longrightarrow> ceremonies_ok s'"
    and "sc_phase sch = Registering"
proof -
  obtain s1 where s1: "remove_participant_from_registry sch (cid, registration_cindex sch) sender s = Inr s1"
    "register_participant c sch cm b sender cid (Some proof) s1 = Inr s'"
    using assms by (auto simp: upgrade_registration_def Let_def res_simps split: if_splits)
  show "registration_frame (cid, registration_cindex sch) s s'"
    using remove_participant_ok(1)[OF s1(1)] register_participant_ok(1)[OF s1(2)] by (rule frame_trans)
  show "ceremonies_ok s \<Longrightarrow> ceremonies_ok s'"
    using remove_participant_ok(2)[OF s1(1)] register_participant_ok(2)[OF s1(2)] by blast
  show "sc_phase sch = Registering" by (rule remove_participant_ok(5)[OF s1(1)])
qed

lemma unlink_reputation_cases:
  assumes "unlink_reputation reg sender t maybe_cc s = Inr s'"
  shows "s' = s \<or> (\<exists>cc. maybe_cc = Some cc \<and> participant_reputation s cc sender = VerifiedLinked (snd reg) \<and>
    s' = s\<lparr>ce_reputation := dm_remove reg sender (dm_insert cc sender VerifiedUnlinked (ce_reputation s))\<rparr>)"
  using assms
  by (auto simp: unlink_reputation_def res_simps Let_def put_reputation_def split: option.splits if_splits)

lemma unregister_participant_ok:
  assumes "unregister_participant sch cm sender cid maybe_cc s = Inr s'"
  shows "registration_frame (cid, registration_cindex sch) s s'"
    and "ceremonies_ok s \<Longrightarrow> ceremonies_ok s'"
    and "sc_phase sch = Registering"
proof -
  let ?cc = "(cid, registration_cindex sch)"
  obtain s1 t where s1: "(if t = Reputable \<or> t = Bootstrapper then unlink_reputation ?cc sender t maybe_cc s else Inr s) = Inr s1"
    and rem: "remove_participant_from_registry sch ?cc sender s1 = Inr s'"
    using assms unfolding unregister_participant_def Let_def by (auto simp only: res_simps)
  have s1': "s1 = s \<or> (\<exists>x. s1 = s\<lparr>ce_reputation := x\<rparr>)"
    using s1 unlink_reputation_cases[of ?cc sender t maybe_cc s s1] by (auto split: if_splits)
  then have same: "registry_of t' s1 = registry_of t' s" for t' by auto
  have "registration_frame ?cc s s1" using s1' same by (intro frame_cong) auto
  then show "registration_frame ?cc s s'" using remove_participant_ok(1)[OF rem] by (rule frame_trans)
  show "ceremonies_ok s \<Longrightarrow> ceremonies_ok s'"
    using remove_participant_ok(2)[OF rem] ceremonies_ok_cong[OF _ same] by blast
  show "sc_phase sch = Registering" by (rule remove_participant_ok(5)[OF rem])
qed

section \<open>Endorsement\<close>

text \<open>The ceremony an endorsement is for.\<close>

definition endorsement_cindex :: "scheduler \<Rightarrow> nat" where
  "endorsement_cindex sch =
     (if sc_phase sch \<noteq> Registering then wrapping_add 32 (sc_ceremony_index sch) 1 else sc_ceremony_index sch)"

lemma burn_newbie_tickets_cases:
  assumes "burn_newbie_tickets sch cm cc sender s = Inr s'"
  shows "(has_reputation sch sender (fst cc) s \<and>
      value_query 0 (ce_burned_reputable_tickets s cc sender) < ce_tickets_per_reputable s \<and>
      s' = s\<lparr>ce_burned_reputable_tickets := dm_insert cc sender
        (wrapping_add 8 (value_query 0 (ce_burned_reputable_tickets s cc sender)) 1) (ce_burned_reputable_tickets s)\<rparr>) \<or>
    (sender \<in> set (bootstrappers cm (fst cc)) \<and>
      value_query 0 (ce_burned_bootstrapper_tickets s (fst cc) sender) < ce_tickets_per_bootstrapper s \<and>
      s' = s\<lparr>ce_burned_bootstrapper_tickets := dm_insert (fst cc) sender
        (wrapping_add 8 (value_query 0 (ce_burned_bootstrapper_tickets s (fst cc) sender)) 1)
        (ce_burned_bootstrapper_tickets s)\<rparr>)"
  using assms by (simp add: burn_newbie_tickets_def Let_def split: if_splits)

text \<open>The state after the ticket is burned and the endorsement noted.\<close>

definition endorsed_state :: "CommunityCeremony \<Rightarrow> AccountId \<Rightarrow> ceremonies \<Rightarrow> ceremonies" where
  "endorsed_state cc newbie s =
     s\<lparr>ce_endorsees := dm_insert cc newbie () (ce_endorsees s),
       ce_endorsees_count := (ce_endorsees_count s)(cc \<mapsto> registry_count (ce_endorsee s) cc + 1)\<rparr>"

lemma endorse_newcomer_cases:
  assumes "endorse_newcomer c sch cm b sender cid newbie s = Inr s'"
  obtains s1 s2 where "is_endorsed newbie (cid, endorsement_cindex sch) s = None"
    "burn_newbie_tickets sch cm (cid, endorsement_cindex sch) sender s = Inr s1"
    "if registry_has (ce_newbie s1) (cid, endorsement_cindex sch) newbie
     then \<exists>s4 t. remove_participant_from_registry sch (cid, endorsement_cindex sch) newbie
            (endorsed_state (cid, endorsement_cindex sch) newbie s1) = Inr s4 \<and>
          register c cm b (cid, endorsement_cindex sch) newbie False s4 = Inr (t, s2)
     else s2 = endorsed_state (cid, endorsement_cindex sch) newbie s1"
    "s' = ce_deposit_event (EndorsedParticipant cid sender newbie) s2"
    "cid \<in> set (cm_community_identifiers cm)"
proof -
  let ?cc = "(cid, endorsement_cindex sch)"
  obtain s1 n s2 where s: "cid \<in> set (cm_community_identifiers cm)" "is_endorsed newbie ?cc s = None"
    "burn_newbie_tickets sch cm ?cc sender s = Inr s1"
    and n: "checked_add 64 (registry_count (ce_endorsee s1) ?cc) 1 = Some n"
    and s2: "(if registry_has (ce_newbie s1) ?cc newbie then
          bind_res (remove_participant_from_registry sch ?cc newbie
            (s1\<lparr>ce_endorsees := dm_insert ?cc newbie () (ce_endorsees s1),
                ce_endorsees_count := (ce_endorsees_count s1)(?cc \<mapsto> n)\<rparr>)) (\<lambda>s4.
          bind_res (register c cm b ?cc newbie False s4) (\<lambda>(t, s5). Inr s5))
        else Inr (s1\<lparr>ce_endorsees := dm_insert ?cc newbie () (ce_endorsees s1),
                ce_endorsees_count := (ce_endorsees_count s1)(?cc \<mapsto> n)\<rparr>)) = Inr s2"
    and s': "s' = ce_deposit_event (EndorsedParticipant cid sender newbie) s2"
    using assms unfolding endorse_newcomer_def endorsement_cindex_def[symmetric] Let_def
    by (auto simp: res_simps simp del: if_split cong: if_cong)
  have "n = registry_count (ce_endorsee s1) ?cc + 1" using n by (simp add: arith_ops)
  then show ?thesis
    using s2 by (intro that[OF s(2,3) _ s' s(1)]) (auto simp: endorsed_state_def res_simps split: if_splits)
qed

lemma endorse_newcomer_ok:
  assumes "endorse_newcomer c sch cm b sender cid newbie s = Inr s'"
  shows "registration_frame (cid, endorsement_cindex sch) s s'"
    and "ceremonies_ok s \<Longrightarrow> ceremonies_ok s'"
proof -
  let ?cc = "(cid, endorsement_cindex sch)"
  obtain s1 s2 where burn: "burn_newbie_tickets sch cm ?cc sender s = Inr s1"
    and s2: "if registry_has (ce_newbie s1) ?cc newbie
     then \<exists>s4 t. remove_participant_from_registry sch ?cc newbie (endorsed_state ?cc newbie s1) = Inr s4 \<and>
          register c cm b ?cc newbie False s4 = Inr (t, s2)
     else s2 = endorsed_state ?cc newbie s1"
    and s': "s' = ce_deposit_event (EndorsedParticipant cid sender newbie) s2"
    using assms by (rule endorse_newcomer_cases)
  let ?e = "endorsed_state ?cc newbie s1"
  have same1: "registry_of t s1 = registry_of t s" for t using burn_newbie_tickets_cases[OF burn] by auto
  have same: "registry_of t ?e = registry_of t s" for t by (cases t) (simp_all add: endorsed_state_def flip: same1)
  have "registration_frame ?cc s ?e"
    using same burn_newbie_tickets_cases[OF burn] by (intro frame_cong) (auto simp: endorsed_state_def)
  moreover have "registration_frame ?cc ?e s2"
    using s2 remove_participant_ok(1) register_ok(1) frame_trans frame_refl by (metis (full_types))
  moreover have "registration_frame ?cc s2 s'" unfolding s' by (rule frame_cong) simp_all
  ultimately show "registration_frame ?cc s s'" using frame_trans by blast
  assume "ceremonies_ok s"
  then have "ceremonies_ok ?e" using same by (rule ceremonies_ok_cong)
  then have "ceremonies_ok s2" using s2 remove_participant_ok(2) register_ok(2) by (metis (full_types))
  then show "ceremonies_ok s'" unfolding s' by (rule ceremonies_ok_cong) simp
qed

section \<open>Attestations and rewards\<close>

text \<open>The part of the state that says who meets whom.\<close>

definition meetup_core ::
  "ceremonies \<Rightarrow> (ParticipantType \<Rightarrow> registry) \<times> (CommunityCeremony \<Rightarrow> Assignment option) \<times>
     (CommunityCeremony \<Rightarrow> AssignmentCount option) \<times> (CommunityCeremony \<Rightarrow> nat option)" where
  "meetup_core s = (\<lambda>t. registry_of t s, ce_assignments s, ce_assignment_counts s, ce_meetup_count s)"

lemma meetup_coreD:
  assumes "meetup_core s' = meetup_core s"
  shows "registry_of t s' = registry_of t s" and "ce_assignments s' = ce_assignments s"
    and "ce_assignment_counts s' = ce_assignment_counts s" and "ce_meetup_count s' = ce_meetup_count s"
  using assms by (auto simp: meetup_core_def fun_eq_iff)

lemma meetup_coreI:
  assumes "\<And>t. registry_of t s' = registry_of t s" and "ce_assignments s' = ce_assignments s"
    and "ce_assignment_counts s' = ce_assignment_counts s" and "ce_meetup_count s' = ce_meetup_count s"
  shows "meetup_core s' = meetup_core s"
  using assms by (simp add: meetup_core_def)

lemma meetup_core_frame [simp]:
  "meetup_core (ce_deposit_event e s) = meetup_core s"
  "meetup_core (put_reputation cc a rep s) = meetup_core s"
  "meetup_core (put_issued_rewards cc k res s) = meetup_core s"
  by (rule meetup_coreI; simp)+

lemma add_attestations_frame:
  assumes "add_attestations_to_registry c participant cc k ps atts s = Inr s'"
  shows "meetup_core s' = meetup_core s" and "ce_issued_rewards s' = ce_issued_rewards s"
    and "ce_reputation s' = ce_reputation s"
proof -
  have "registry_of t s' = registry_of t s" for t
    using assms by (cases t) (auto simp: add_attestations_to_registry_def Let_def res_simps split: if_splits option.splits
        simp: ce_deposit_event_def)
  then show "meetup_core s' = meetup_core s"
    using assms by (intro meetup_coreI) (auto simp: add_attestations_to_registry_def Let_def res_simps split: if_splits option.splits)
  show "ce_issued_rewards s' = ce_issued_rewards s" "ce_reputation s' = ce_reputation s"
    using assms by (auto simp: add_attestations_to_registry_def Let_def res_simps split: if_splits option.splits)
qed

lemma attest_attendees_frame:
  assumes "attest_attendees c sch cm sender cid vote atts s = Inr s'"
  shows "meetup_core s' = meetup_core s" and "ce_issued_rewards s' = ce_issued_rewards s"
    and "ce_reputation s' = ce_reputation s"
proof -
  let ?s1 = "s\<lparr>ce_participant_count_vote :=
    dm_insert (cid, sc_ceremony_index sch) sender vote (ce_participant_count_vote s)\<rparr>"
  obtain k ps where add: "add_attestations_to_registry c sender (cid, sc_ceremony_index sch) k ps atts ?s1 = Inr s'"
    using assms by (auto simp: attest_attendees_def gather_meetup_data_def Let_def res_simps)
  have "meetup_core ?s1 = meetup_core s" by (rule meetup_coreI) simp_all
  then show "meetup_core s' = meetup_core s" "ce_issued_rewards s' = ce_issued_rewards s"
    "ce_reputation s' = ce_reputation s" using add_attestations_frame[OF add] by simp_all
qed

lemma emit_no_rewards_frame:
  "emit_no_rewards cc k ps ex s = Inr s' \<Longrightarrow> meetup_core s' = meetup_core s \<and>
     ce_issued_rewards s' = ce_issued_rewards s \<and> ce_reputation s' = ce_reputation s \<and>
     ce_ceremony_reward s' = ce_ceremony_reward s"
  by (induction ex arbitrary: s) (auto simp: res_simps)

lemma issue_loop_frame:
  "issue_loop bc cc reward ps is (s, b, n) = Inr (s', b', n') \<Longrightarrow>
     meetup_core s' = meetup_core s \<and> ce_issued_rewards s' = ce_issued_rewards s"
  by (induction "is" arbitrary: s b n) (auto simp: res_simps split: prod.splits if_splits)

lemma issue_rewards_cases:
  assumes "issue_rewards c cm cc k ps legit s b = Inr (s', b')"
  obtains s1 n where "issue_loop (cec_balances c) cc (nominal_income cm (fst cc) s) ps legit (s, b, 0) = Inr (s1, b', n)"
    "meetup_core s' = meetup_core s" "ce_reputation s' = ce_reputation s1"
    "\<And>cc' k'. issued_rewards s' cc' k' = (if cc' = cc \<and> k' = k then Some Ok else issued_rewards s cc' k')"
proof -
  obtain s1 n where loop: "issue_loop (cec_balances c) cc (nominal_income cm (fst cc) s) ps legit (s, b, 0) = Inr (s1, b', n)"
    and s': "s' = ce_deposit_event (RewardsIssued (fst cc) k (as_unsigned 8 (length legit)))
      (put_issued_rewards cc k Ok (s1\<lparr>ce_reputation_count := (ce_reputation_count s1)
             (cc \<mapsto> wrapping_add 128 (value_query 0 (ce_reputation_count s1 cc)) n),
           ce_global_reputation_count := (ce_global_reputation_count s1)
             (snd cc \<mapsto> wrapping_add 128 (value_query 0 (ce_global_reputation_count s1 (snd cc))) n)\<rparr>))"
    using assms by (auto simp: issue_rewards_def res_simps Let_def)
  have "registry_of t (s1\<lparr>ce_reputation_count := x, ce_global_reputation_count := y\<rparr>) = registry_of t s1" for t x y
    by (cases t) simp_all
  then have "meetup_core s' = meetup_core s1" unfolding s' by (intro meetup_coreI) simp_all
  moreover have "issued_rewards s' cc' k' = (if cc' = cc \<and> k' = k then Some Ok else issued_rewards s1 cc' k')" for cc' k'
    unfolding s' using issued_rewards_put[of cc k Ok _ cc' k'] by (simp add: issued_rewards_def)
  moreover have "ce_reputation s' = ce_reputation s1" by (simp add: s')
  ultimately show ?thesis using issue_loop_frame[OF loop] loop
    by (intro that[of s1 n]) (simp_all add: issued_rewards_def)
qed

text \<open>
  A claim that succeeds concerns a meetup that exists and is not marked yet; either the ballot failed
  and the meetup is only marked, or the legitimate participants are paid.
\<close>

definition meetup_judgements ::
  "CommunityCeremony \<Rightarrow> AccountId list \<Rightarrow> ceremonies \<Rightarrow> MeetupValidationError + ParticipantJudgements" where
  "meetup_judgements cc ps s =
     get_participant_judgements [0..<length ps] (fst (gather_meetup_validation_data cc ps s))
       (snd (gather_meetup_validation_data cc ps s)) attestation_threshold_fn"

definition claimed_meetup ::
  "scheduler \<Rightarrow> AccountId \<Rightarrow> CommunityIdentifier \<Rightarrow> nat option \<Rightarrow> ceremonies \<Rightarrow> ceremonies_error + (nat \<times> nat)" where
  "claimed_meetup sch a cid maybe s =
     bind_res (claim_cindex sch) (\<lambda>cindex.
     bind_res (case maybe of Some index \<Rightarrow> Inr index
       | None \<Rightarrow> ok_or (get_meetup_index (cid, cindex) a s) ParticipantIsNotRegistered) (\<lambda>k.
     Inr (cindex, k)))"

lemma claim_rewards_eq:
  "claim_rewards c sch cm a cid maybe s b =
     bind_res (claimed_meetup sch a cid maybe s) (\<lambda>(cindex, k).
     if issued_rewards s (cid, cindex) k \<noteq> None then Inl RewardsAlreadyIssued
     else
       bind_res (get_meetup_participants (cid, cindex) k s) (\<lambda>ps.
       case meetup_judgements (cid, cindex) ps s of
         Inl err \<Rightarrow>
           (if sc_phase sch = Registering then
              Inr (ce_deposit_event (MeetupEvaluated cid k (snd (validation_failure err)))
                (put_issued_rewards (cid, cindex) k (snd (validation_failure err)) s), b)
            else Inl (fst (validation_failure err)))
       | Inr pj \<Rightarrow>
           if sc_phase sch = Attesting \<and> \<not> pj_early_rewards_possible pj then Inl EarlyRewardsNotPossible
           else
             bind_res (emit_no_rewards (cid, cindex) k ps (pj_excluded pj) s) (\<lambda>s1.
             issue_rewards c cm (cid, cindex) k ps (pj_legit pj) s1 b)))"
proof (cases "claimed_meetup sch a cid maybe s")
  case (Inl e)
  then show ?thesis
    by (auto simp: claim_rewards_def claimed_meetup_def Let_def res_simps simp del: if_split)
next
  case (Inr r)
  obtain cindex k where r: "r = (cindex, k)" by (cases r)
  then have "claim_cindex sch = Inr cindex"
    "(case maybe of Some index \<Rightarrow> Inr index
       | None \<Rightarrow> ok_or (get_meetup_index (cid, cindex) a s) ParticipantIsNotRegistered) = Inr k"
    using Inr by (auto simp: claimed_meetup_def res_simps)
  then show ?thesis
    using Inr r by (simp add: claim_rewards_def Let_def case_prod_beta meetup_judgements_def cong: if_cong sum.case_cong)
qed

lemma claim_rewards_cases:
  assumes "claim_rewards c sch cm a cid maybe s b = Inr (s', b')"
  obtains
    (ballot_failed) cindex k ps err where "claimed_meetup sch a cid maybe s = Inr (cindex, k)"
      "issued_rewards s (cid, cindex) k = None" "get_meetup_participants (cid, cindex) k s = Inr ps"
      "meetup_judgements (cid, cindex) ps s = Inl err" "sc_phase sch = Registering" "b' = b"
      "s' = ce_deposit_event (MeetupEvaluated cid k (snd (validation_failure err)))
         (put_issued_rewards (cid, cindex) k (snd (validation_failure err)) s)"
  | (paid) cindex k ps pj s1 where "claimed_meetup sch a cid maybe s = Inr (cindex, k)"
      "issued_rewards s (cid, cindex) k = None" "get_meetup_participants (cid, cindex) k s = Inr ps"
      "meetup_judgements (cid, cindex) ps s = Inr pj"
      "emit_no_rewards (cid, cindex) k ps (pj_excluded pj) s = Inr s1"
      "issue_rewards c cm (cid, cindex) k ps (pj_legit pj) s1 b = Inr (s', b')"
proof -
  obtain cindex k ps where ck: "claimed_meetup sch a cid maybe s = Inr (cindex, k)"
      "issued_rewards s (cid, cindex) k = None" "get_meetup_participants (cid, cindex) k s = Inr ps"
    using assms unfolding claim_rewards_eq by (auto simp: res_simps split: if_splits)
  then show ?thesis
  proof (cases "meetup_judgements (cid, cindex) ps s")
    case (Inl err)
    then show ?thesis using assms ck unfolding claim_rewards_eq
      by (intro ballot_failed[OF ck Inl]) (auto split: if_splits)
  next
    case (Inr pj)
    then show ?thesis using assms ck paid[OF ck Inr] unfolding claim_rewards_eq
      by (auto simp: res_simps split: if_splits)
  qed
qed

lemma claim_rewards_frame:
  assumes "claim_rewards c sch cm a cid maybe s b = Inr (s', b')"
  shows "meetup_core s' = meetup_core s"
    and "\<exists>cindex k res. claimed_meetup sch a cid maybe s = Inr (cindex, k) \<and> issued_rewards s (cid, cindex) k = None \<and>
      (\<forall>cc' k'. issued_rewards s' cc' k' = (if cc' = (cid, cindex) \<and> k' = k then Some res else issued_rewards s cc' k'))"
proof -
  have "meetup_core s' = meetup_core s \<and>
    (\<exists>cindex k res. claimed_meetup sch a cid maybe s = Inr (cindex, k) \<and> issued_rewards s (cid, cindex) k = None \<and>
      (\<forall>cc' k'. issued_rewards s' cc' k' = (if cc' = (cid, cindex) \<and> k' = k then Some res else issued_rewards s cc' k')))"
    using assms
  proof (cases rule: claim_rewards_cases)
    case (ballot_failed cindex k ps err)
    have "issued_rewards s' cc' k' =
        (if cc' = (cid, cindex) \<and> k' = k then Some (snd (validation_failure err)) else issued_rewards s cc' k')" for cc' k'
      using issued_rewards_put[of "(cid, cindex)" k _ s cc' k'] unfolding ballot_failed(7) by (simp add: issued_rewards_def)
    moreover have "meetup_core s' = meetup_core s" by (simp add: ballot_failed(7))
    ultimately show ?thesis using ballot_failed(1,2) by blast
  next
    case (paid cindex k ps pj s1)
    from paid(6) show ?thesis
    proof (rule issue_rewards_cases)
      assume "meetup_core s' = meetup_core s1"
        "\<And>cc' k'. issued_rewards s' cc' k' = (if cc' = (cid, cindex) \<and> k' = k then Some Ok else issued_rewards s1 cc' k')"
      moreover have "issued_rewards s1 = issued_rewards s" "meetup_core s1 = meetup_core s"
        using emit_no_rewards_frame[OF paid(5)] by (auto simp: issued_rewards_def fun_eq_iff)
      ultimately show ?thesis using paid(1,2) by auto
    qed
  qed
  then show "meetup_core s' = meetup_core s"
    "\<exists>cindex k res. claimed_meetup sch a cid maybe s = Inr (cindex, k) \<and> issued_rewards s (cid, cindex) k = None \<and>
      (\<forall>cc' k'. issued_rewards s' cc' k' = (if cc' = (cid, cindex) \<and> k' = k then Some res else issued_rewards s cc' k'))"
    by blast+
qed

section \<open>Parameters\<close>

text \<open>A setter changes neither meetups nor rewards nor reputations.\<close>

definition parameter_frame :: "ceremonies \<Rightarrow> ceremonies \<Rightarrow> bool" where
  "parameter_frame s s' \<longleftrightarrow>
     meetup_core s' = meetup_core s \<and> ce_issued_rewards s' = ce_issued_rewards s \<and> ce_reputation s' = ce_reputation s"

lemma setter_frames:
  "set_inactivity_timeout m n s = Inr s' \<Longrightarrow> parameter_frame s s'"
  "set_endorsement_tickets_per_bootstrapper m n s = Inr s' \<Longrightarrow> parameter_frame s s'"
  "set_endorsement_tickets_per_reputable m n s = Inr s' \<Longrightarrow> parameter_frame s s'"
  "set_reputation_lifetime m n s = Inr s' \<Longrightarrow> parameter_frame s s'"
  "set_meetup_time_offset m sch z s = Inr s' \<Longrightarrow> parameter_frame s s'"
  "set_time_tolerance m n s = Inr s' \<Longrightarrow> parameter_frame s s'"
  "set_location_tolerance m n s = Inr s' \<Longrightarrow> parameter_frame s s'"
proof -
  have core: "meetup_core (s\<lparr>ce_inactivity_timeout := n\<rparr>) = meetup_core s"
    "meetup_core (s\<lparr>ce_tickets_per_bootstrapper := n\<rparr>) = meetup_core s"
    "meetup_core (s\<lparr>ce_tickets_per_reputable := n\<rparr>) = meetup_core s"
    "meetup_core (s\<lparr>ce_reputation_lifetime := n\<rparr>) = meetup_core s"
    "meetup_core (s\<lparr>ce_meetup_time_offset := z\<rparr>) = meetup_core s"
    "meetup_core (s\<lparr>ce_time_tolerance := n\<rparr>) = meetup_core s"
    "meetup_core (s\<lparr>ce_location_tolerance := n\<rparr>) = meetup_core s"
    for n z by (rule meetup_coreI, case_tac t, simp_all)+
  show "set_inactivity_timeout m n s = Inr s' \<Longrightarrow> parameter_frame s s'"
    "set_endorsement_tickets_per_bootstrapper m n s = Inr s' \<Longrightarrow> parameter_frame s s'"
    "set_endorsement_tickets_per_reputable m n s = Inr s' \<Longrightarrow> parameter_frame s s'"
    "set_reputation_lifetime m n s = Inr s' \<Longrightarrow> parameter_frame s s'"
    "set_meetup_time_offset m sch z s = Inr s' \<Longrightarrow> parameter_frame s s'"
    "set_time_tolerance m n s = Inr s' \<Longrightarrow> parameter_frame s s'"
    "set_location_tolerance m n s = Inr s' \<Longrightarrow> parameter_frame s s'"
    by (auto simp: parameter_frame_def core res_simps set_inactivity_timeout_def do_set_inactivity_timeout_def
        set_endorsement_tickets_per_bootstrapper_def set_endorsement_tickets_per_reputable_def
        set_reputation_lifetime_def set_meetup_time_offset_def set_time_tolerance_def set_location_tolerance_def
        split: if_splits)
qed

lemma core_ok: "meetup_core s' = meetup_core s \<Longrightarrow> ceremonies_ok s \<Longrightarrow> ceremonies_ok s'"
  using meetup_coreD(1) ceremonies_ok_cong by blast

section \<open>Frozen meetups\<close>

text \<open>What the meetups of a ceremony are computed from.\<close>

definition frozen :: "CommunityCeremony \<Rightarrow> ceremonies \<Rightarrow> ceremonies \<Rightarrow> bool" where
  "frozen cc s s' \<longleftrightarrow>
     (\<forall>t. registry_at (registry_of t s') cc = registry_at (registry_of t s) cc) \<and>
     ce_assignments s' cc = ce_assignments s cc \<and> ce_assignment_counts s' cc = ce_assignment_counts s cc \<and>
     ce_meetup_count s' cc = ce_meetup_count s cc"

lemma frozen_trans: "frozen cc s s' \<Longrightarrow> frozen cc s' s'' \<Longrightarrow> frozen cc s s''"
  by (simp add: frozen_def)

lemma frozen_core: "meetup_core s' = meetup_core s \<Longrightarrow> frozen cc s s'"
  unfolding frozen_def by (simp add: meetup_coreD[of s' s])

lemma frozen_frame:
  assumes "registration_frame (cid, i) s s'" and "snd cc \<noteq> i"
  shows "frozen cc s s'"
proof -
  have "cc \<noteq> (cid, i)" using assms(2) by auto
  then show ?thesis using assms(1) unfolding registration_frame_def frozen_def by metis
qed

text \<open>What a frozen ceremony's meetups are computed from.\<close>

lemma registry_at_eq:
  "registry_at r' cc = registry_at r cc \<Longrightarrow>
     rg_registry r' cc = rg_registry r cc \<and> rg_index r' cc = rg_index r cc \<and> registry_has r' cc = registry_has r cc"
  by (auto simp: registry_at_def registry_has_def)

lemma frozen_meetups:
  assumes "frozen cc s s'"
  shows "get_meetup_participants cc k s' = get_meetup_participants cc k s"
    and "get_meetup_index cc a s' = get_meetup_index cc a s"
    and "get_participant_type cc a s' = get_participant_type cc a s"
proof -
  have reg: "rg_registry (registry_of t s') cc = rg_registry (registry_of t s) cc"
    "rg_index (registry_of t s') cc = rg_index (registry_of t s) cc"
    "registry_has (registry_of t s') cc = registry_has (registry_of t s) cc" for t
    using assms registry_at_eq[of "registry_of t s'" cc "registry_of t s"] by (auto simp: frozen_def)
  have asg: "assignments s' cc = assignments s cc" "assignment_counts s' cc = assignment_counts s cc"
    "meetup_count s' cc = meetup_count s cc"
    using assms by (simp_all add: frozen_def assignments_def assignment_counts_def meetup_count_def)
  note regs = reg(1)[of Bootstrapper] reg(1)[of Reputable] reg(1)[of Endorsee] reg(1)[of Newbie]
  note hass = reg(3)[of Bootstrapper] reg(3)[of Reputable] reg(3)[of Endorsee] reg(3)[of Newbie]
  show "get_meetup_participants cc k s' = get_meetup_participants cc k s"
    unfolding get_meetup_participants_def lookup_bootstrappers_reputables_def lookup_participants_def asg
      regs[unfolded registry_of.simps] ..
  show ty: "get_participant_type cc a s' = get_participant_type cc a s"
    using hass by (simp add: get_participant_type_def)
  show "get_meetup_index cc a s' = get_meetup_index cc a s"
    unfolding get_meetup_index_def ty type_slot_def asg reg(2) by simp
qed

section \<open>The change of phase\<close>

lemma purge_internal_registry [simp]:
  "registry_of t (purge_community_ceremony_internal cc s) = registry_purge cc (registry_of t s)"
  by (cases t) (simp_all add: purge_community_ceremony_internal_def ce_deposit_event_def)

lemma purge_internal_ok:
  assumes ok: "ceremonies_ok s"
  shows "ceremonies_ok (purge_community_ceremony_internal cc s)"
proof -
  have has: "registry_has (registry_purge cc (registry_of t s)) cc' a \<longleftrightarrow> cc' \<noteq> cc \<and> registry_has (registry_of t s) cc' a" for t cc' a
    by (rule rg.has_purge[OF ceremonies_okD(1)[OF ok]])
  show ?thesis
    unfolding ceremonies_ok_def purge_internal_registry has
    using rg.purge_invar[OF ceremonies_okD(1)[OF ok]] ceremonies_okD(2)[OF ok] by blast
qed

text \<open>Purging one ceremony leaves the reputations, rewards and meetups of the others.\<close>

lemma purge_internal_other:
  assumes "cc' \<noteq> cc"
  shows "ce_reputation (purge_community_ceremony_internal cc s) cc' = ce_reputation s cc'"
    and "ce_issued_rewards (purge_community_ceremony_internal cc s) cc' = ce_issued_rewards s cc'"
    and "frozen cc' s (purge_community_ceremony_internal cc s)"
proof -
  have "ce_assignments (purge_community_ceremony_internal cc s) cc' = ce_assignments s cc'"
    "ce_assignment_counts (purge_community_ceremony_internal cc s) cc' = ce_assignment_counts s cc'"
    "ce_meetup_count (purge_community_ceremony_internal cc s) cc' = ce_meetup_count s cc'"
    using assms by (simp_all add: purge_community_ceremony_internal_def)
  then show "frozen cc' s (purge_community_ceremony_internal cc s)"
    using assms by (simp add: frozen_def registry_at_def registry_purge_def dm_remove_prefix_def)
  show "ce_reputation (purge_community_ceremony_internal cc s) cc' = ce_reputation s cc'"
    "ce_issued_rewards (purge_community_ceremony_internal cc s) cc' = ce_issued_rewards s cc'"
    using assms by (simp_all add: purge_community_ceremony_internal_def dm_remove_prefix_def)
qed

lemma purge_internal_lifetime [simp]:
  "ce_reputation_lifetime (purge_community_ceremony_internal cc s) = ce_reputation_lifetime s"
  by (simp add: purge_community_ceremony_internal_def)

lemma purge_registry_ok: "ceremonies_ok s \<Longrightarrow> ceremonies_ok (purge_registry cm cindex s)"
  unfolding purge_registry_def by (rule foldl_invariant[of ceremonies_ok]) (rule purge_internal_ok)

lemma update_inactivity_frame:
  "update_inactivity_counters i n cids s = (inactives, s') \<Longrightarrow>
     meetup_core s' = meetup_core s \<and> ce_issued_rewards s' = ce_issued_rewards s \<and> ce_reputation s' = ce_reputation s \<and>
     ce_reputation_lifetime s' = ce_reputation_lifetime s \<and> set inactives \<subseteq> set cids"
proof (induction cids arbitrary: s inactives)
  case (Cons cid cids)
  have core: "meetup_core (s\<lparr>ce_inactivity_counters := x\<rparr>) = meetup_core s" for x
    by (rule meetup_coreI, case_tac t) simp_all
  show ?case
    using Cons.prems Cons.IH[of "ce_deposit_event (InactivityCounterUpdated cid 0)
            (s\<lparr>ce_inactivity_counters := (ce_inactivity_counters s)(cid \<mapsto> 0)\<rparr>)" inactives]
      Cons.IH[of "ce_deposit_event (InactivityCounterUpdated cid (value_query 0 (ce_inactivity_counters s cid) + 1))
            (s\<lparr>ce_inactivity_counters := (ce_inactivity_counters s)(cid \<mapsto> value_query 0 (ce_inactivity_counters s cid) + 1)\<rparr>)"
          inactives]
      Cons.IH[of s "fst (update_inactivity_counters i n cids s)"]
    by (auto simp: Let_def core split: if_splits prod.splits)
qed simp

lemma ceremonies_purge_community_ok:
  "ceremonies_ok (fst w) \<Longrightarrow> ceremonies_ok (fst (ceremonies_purge_community sch cid w))"
proof -
  assume ok: "ceremonies_ok (fst w)"
  obtain s cm b where w: "w = (s, cm, b)" by (cases w)
  let ?s1 = "foldl (\<lambda>s cindex. purge_community_ceremony_internal (cid, cindex) s) s
    [saturating_sub (sc_ceremony_index sch) (ce_reputation_lifetime s)..<sc_ceremony_index sch + 1]"
  have "ceremonies_ok ?s1" using ok w by (intro foldl_invariant[of ceremonies_ok] purge_internal_ok) simp_all
  moreover have "registry_of t (?s1\<lparr>ce_inactivity_counters := x, ce_burned_bootstrapper_tickets := y\<rparr>) = registry_of t ?s1"
    for t x y by (cases t) simp_all
  ultimately show ?thesis
    unfolding w ceremonies_purge_community_def by (auto simp: Let_def intro: ceremonies_ok_cong)
qed

lemma generate_meetup_assignment_cases:
  assumes "generate_meetup_assignment_params c cm cc r s = Some (Inr s', r')"
  obtains
    (too_few) allowance where
      "compute_assignment_allowance c cm cc (cec_meetup_size_target c) s = Some (Inr allowance)"
      "get_number_of_participants allowance < cec_meetup_min_size c" "s' = s"
  | (assigned) allowance n asg where
      "compute_assignment_allowance c cm cc (cec_meetup_size_target c) s = Some (Inr allowance)"
      "checked_ceil_division (get_number_of_participants allowance) (cec_meetup_size_target c) = Some n"
      "cec_meetup_min_size c \<le> get_number_of_participants allowance"
      "generate_assignment c cm cc allowance n r = Some (asg, r')"
      "s' = s\<lparr>ce_assignments := (ce_assignments s)(cc \<mapsto> asg),
        ce_assignment_counts := (ce_assignment_counts s)(cc \<mapsto> allowance),
        ce_meetup_count := (ce_meetup_count s)(cc \<mapsto> n)\<rparr>"
proof -
  obtain res where res: "compute_assignment_allowance c cm cc (cec_meetup_size_target c) s = Some res"
    using assms by (auto simp: generate_meetup_assignment_params_def bind_eq_Some_conv)
  then obtain allowance where allow: "res = Inr allowance"
    using assms by (cases res) (auto simp: generate_meetup_assignment_params_def)
  then obtain n where n: "checked_ceil_division (get_number_of_participants allowance) (cec_meetup_size_target c) = Some n"
    using assms res by (cases "checked_ceil_division (get_number_of_participants allowance) (cec_meetup_size_target c)")
      (auto simp: generate_meetup_assignment_params_def Let_def)
  show ?thesis
  proof (cases "get_number_of_participants allowance < cec_meetup_min_size c")
    case True
    then have "s' = s" using assms res allow n by (simp add: generate_meetup_assignment_params_def)
    with True show ?thesis using res allow by (intro too_few[of allowance]) simp_all
  next
    case False
    then obtain asg where "generate_assignment c cm cc allowance n r = Some (asg, r')"
      "s' = s\<lparr>ce_assignments := (ce_assignments s)(cc \<mapsto> asg),
        ce_assignment_counts := (ce_assignment_counts s)(cc \<mapsto> allowance),
        ce_meetup_count := (ce_meetup_count s)(cc \<mapsto> n)\<rparr>"
      using assms res allow n by (auto simp: generate_meetup_assignment_params_def Let_def bind_eq_Some_conv)
    then show ?thesis using res allow n False by (intro assigned[of allowance n asg]) simp_all
  qed
qed

lemma generate_meetup_assignment_frame:
  assumes "generate_meetup_assignment_params c cm cc r s = Some (Inr s', r')"
  shows "registry_of t s' = registry_of t s" and "ce_issued_rewards s' = ce_issued_rewards s"
    and "ce_reputation s' = ce_reputation s"
proof -
  have reg: "registry_of t (s\<lparr>ce_assignments := x, ce_assignment_counts := y, ce_meetup_count := z\<rparr>) = registry_of t s" for x y z
    by (cases t) simp_all
  have "registry_of t s' = registry_of t s \<and> ce_issued_rewards s' = ce_issued_rewards s \<and> ce_reputation s' = ce_reputation s"
    using assms by (rule generate_meetup_assignment_cases) (simp_all add: reg)
  then show "registry_of t s' = registry_of t s" "ce_issued_rewards s' = ce_issued_rewards s"
    "ce_reputation s' = ce_reputation s" by blast+
qed

lemma generate_all_ok:
  "generate_all_loop c cm i cids r s = Some s' \<Longrightarrow> ceremonies_ok s \<Longrightarrow> ceremonies_ok s'"
proof (induction cids arbitrary: r s)
  case (Cons cid cids)
  obtain res r' where gen: "generate_meetup_assignment_params c cm (cid, i) r s = Some (res, r')"
    and rest: "generate_all_loop c cm i cids r' (case res of Inl e \<Rightarrow> s | Inr s1 \<Rightarrow> s1) = Some s'"
    using Cons.prems(1) by (auto simp: bind_eq_Some_conv)
  have "ceremonies_ok (case res of Inl e \<Rightarrow> s | Inr s1 \<Rightarrow> s1)"
    using Cons.prems(2) gen ceremonies_ok_cong[OF _ generate_meetup_assignment_frame(1)] by (auto split: sum.splits)
  then show ?case by (rule Cons.IH[OF rest])
qed simp

lemma on_phase_change_ok:
  assumes "on_ceremony_phase_change c seed sch phase (s, cm, b) = Some w'" and "ceremonies_ok s"
  shows "ceremonies_ok (fst w')"
proof (cases phase)
  case Registering
  then show ?thesis using assms by (auto simp: on_ceremony_phase_change_def Let_def purge_registry_ok split: if_splits)
next
  case Assigning
  obtain inactives s1 where upd: "update_inactivity_counters (saturating_sub (sc_ceremony_index sch) 1)
      (ce_inactivity_timeout s) (cm_community_identifiers cm) s = (inactives, s1)" by fastforce
  obtain s2 cm2 b2 where purged: "foldl (\<lambda>w cid. ceremonies_purge_community sch cid w) (s1, cm, b) inactives = (s2, cm2, b2)"
    by (cases "foldl (\<lambda>w cid. ceremonies_purge_community sch cid w) (s1, cm, b) inactives")
  have "ceremonies_ok s1" using core_ok[OF _ assms(2)] update_inactivity_frame[OF upd] by blast
  then have "ceremonies_ok (fst (s2, cm2, b2))"
    unfolding purged[symmetric] by (intro foldl_invariant[of "\<lambda>w. ceremonies_ok (fst w)"] ceremonies_purge_community_ok) simp_all
  moreover obtain s3 where "generate_all_loop c cm2 (sc_ceremony_index sch) (cm_community_identifiers cm2) (rng_new seed) s2 = Some s3"
    "w' = (s3, cm2, b2)"
    using assms(1) Assigning upd purged
    by (auto simp: on_ceremony_phase_change_def generate_all_meetup_assignment_params_def)
  ultimately show ?thesis using generate_all_ok by simp
qed (use assms in \<open>auto simp: on_ceremony_phase_change_def\<close>)

end
