(* ===== verification/Meetup_Membership.thy ===== *)
theory Meetup_Membership
  imports Ceremony_Invariants
begin

text \<open>
  The two views of an assignment agree: the pallet computes the meetup of a participant with the
  assignment function (\<open>get_meetup_index\<close>) and the participants of a meetup with its inverse
  (\<open>get_meetup_participants\<close>). The assigned participants of one kind are a list, and both views are
  read off the positions in it.
\<close>

section \<open>The assigned participants\<close>

lemma allowance_cases:
  assumes "compute_assignment_allowance c cm cc target s = Some (Inr al)"
  obtains prime seats limit where "0 < length (get_locations cm (fst cc))"
    "find_prime_below (wrapping_add 64 (registry_count (ce_bootstrapper s) cc) (registry_count (ce_reputable s) cc)) = Some prime"
    "checked_mul 64 (min (length (get_locations cm (fst cc))) prime) target = Some seats"
    "ac_bootstrappers al = registry_count (ce_bootstrapper s) cc"
    "ac_reputables al = min (registry_count (ce_reputable s) cc) (wrapping_sub 64 seats (ac_bootstrappers al))"
    "ac_endorsees al = min (registry_count (ce_endorsee s) cc)
       (wrapping_sub 64 seats (ac_bootstrappers al) - ac_reputables al)"
    "checked_div (wrapping_add 64 (wrapping_add 64 (ac_bootstrappers al) (ac_reputables al)) (ac_endorsees al))
       (cec_newbie_limit_divider c) = Some limit"
    "ac_newbies al = min (min (registry_count (ce_newbie s) cc)
       (wrapping_sub 64 seats (ac_bootstrappers al) - ac_reputables al - ac_endorsees al)) limit"
proof -
  let ?locs = "length (get_locations cm (fst cc))"
  let ?b = "registry_count (ce_bootstrapper s) cc" and ?r = "registry_count (ce_reputable s) cc"
  have locs: "0 < ?locs" using assms by (auto simp: compute_assignment_allowance_def Let_def split: if_splits)
  then obtain prime where prime: "find_prime_below (wrapping_add 64 ?b ?r) = Some prime"
    using assms by (auto simp: compute_assignment_allowance_def Let_def bind_eq_Some_conv)
  have "checked_mul 64 (min ?locs prime) target \<noteq> None"
  proof
    assume "checked_mul 64 (min ?locs prime) target = None"
    then have "compute_assignment_allowance c cm cc target s = Some (Inl CheckedMath)"
      using locs prime by (simp add: compute_assignment_allowance_def)
    with assms show False by simp
  qed
  then obtain seats where seats: "checked_mul 64 (min ?locs prime) target = Some seats" by blast
  have locs_ne: "(?locs = 0) = False" using locs by simp
  define r where "r = min ?r (wrapping_sub 64 seats ?b)"
  define e where "e = min (registry_count (ce_endorsee s) cc) (wrapping_sub 64 seats ?b - r)"
  have "Option.bind (checked_div (wrapping_add 64 (wrapping_add 64 ?b r) e) (cec_newbie_limit_divider c)) (\<lambda>limit.
      Some (Inr \<lparr>ac_bootstrappers = ?b, ac_reputables = r, ac_endorsees = e,
        ac_newbies = min (min (registry_count (ce_newbie s) cc) (wrapping_sub 64 seats ?b - r - e)) limit\<rparr>)) =
    Some (Inr al :: ceremonies_error + AssignmentCount)"
    using assms
    by (simp only: locs_ne compute_assignment_allowance_def Let_def if_False prime seats Option.bind.simps option.case r_def e_def)
  then obtain limit where "checked_div (wrapping_add 64 (wrapping_add 64 ?b r) e) (cec_newbie_limit_divider c) = Some limit"
    "al = \<lparr>ac_bootstrappers = ?b, ac_reputables = r, ac_endorsees = e,
        ac_newbies = min (min (registry_count (ce_newbie s) cc) (wrapping_sub 64 seats ?b - r - e)) limit\<rparr>"
    by (auto simp only: bind_eq_Some_conv option.inject sum.inject)
  then show ?thesis by (intro that[OF locs prime seats, of limit]) (simp_all only: AssignmentCount.simps r_def e_def)
qed

lemma allowance_le:
  assumes "compute_assignment_allowance c cm cc target s = Some (Inr al)"
  shows "ac_bootstrappers al = registry_count (ce_bootstrapper s) cc"
    and "ac_reputables al \<le> registry_count (ce_reputable s) cc"
    and "ac_endorsees al \<le> registry_count (ce_endorsee s) cc"
    and "ac_newbies al \<le> registry_count (ce_newbie s) cc"
proof -
  show "ac_bootstrappers al = registry_count (ce_bootstrapper s) cc" by (rule allowance_cases[OF assms])
  show "ac_reputables al \<le> registry_count (ce_reputable s) cc"
    by (rule allowance_cases[OF assms]) (metis min.cobounded1)
  show "ac_endorsees al \<le> registry_count (ce_endorsee s) cc"
    by (rule allowance_cases[OF assms]) (metis min.cobounded1)
  show "ac_newbies al \<le> registry_count (ce_newbie s) cc"
    by (rule allowance_cases[OF assms]) (metis min.cobounded1 min.coboundedI1)
qed

definition assigned_core :: "ceremonies \<Rightarrow> CommunityCeremony \<Rightarrow> AssignmentCount \<Rightarrow> AccountId list" where
  "assigned_core s cc al = registered (ce_bootstrapper s) cc @ take (ac_reputables al) (registered (ce_reputable s) cc)"

definition assigned_endorsees :: "ceremonies \<Rightarrow> CommunityCeremony \<Rightarrow> AssignmentCount \<Rightarrow> AccountId list" where
  "assigned_endorsees s cc al = take (ac_endorsees al) (registered (ce_endorsee s) cc)"

definition assigned_newbies :: "ceremonies \<Rightarrow> CommunityCeremony \<Rightarrow> AssignmentCount \<Rightarrow> AccountId list" where
  "assigned_newbies s cc al = take (ac_newbies al) (registered (ce_newbie s) cc)"

lemma registry_entry:
  assumes "registry_ok r" and "p < registry_count r cc"
  shows "rg_registry r cc (wrapping_add 64 p 1) = Some (registered r cc ! p)"
proof -
  have "wrapping_add 64 p 1 = p + 1"
    using registry_okD(1)[OF assms(1), of cc] assms(2) by (intro wrapping_add_exact) simp
  then show ?thesis using assms(2) by (simp add: registry_lookup[OF assms(1)])
qed

lemma lookup_members:
  assumes "registry_ok r" and "n \<le> registry_count r cc" and "\<forall>p\<in>set ps. p < n"
  shows "lookup_participants r cc n ps = map (\<lambda>p. take n (registered r cc) ! p) ps"
  using assms(3)
proof (induction ps)
  case Nil
  then show ?case by (simp add: lookup_participants_def)
next
  case (Cons p ps)
  then have "rg_registry r cc (wrapping_add 64 p 1) = Some (registered r cc ! p)"
    using assms(2) by (intro registry_entry[OF assms(1)]) simp
  then show ?case using Cons by (simp add: lookup_participants_def)
qed

lemma lookup_core_members:
  assumes b: "registry_ok (ce_bootstrapper s)" "ac_bootstrappers al = registry_count (ce_bootstrapper s) cc"
    and r: "registry_ok (ce_reputable s)" "ac_reputables al \<le> registry_count (ce_reputable s) cc"
    and small: "ac_bootstrappers al + ac_reputables al < 2 ^ 64"
    and ps: "\<forall>p\<in>set ps. p < ac_bootstrappers al + ac_reputables al"
  shows "lookup_bootstrappers_reputables s cc al ps = map (\<lambda>p. assigned_core s cc al ! p) ps"
  using ps
proof (induction ps)
  case Nil
  then show ?case by (simp add: lookup_bootstrappers_reputables_def)
next
  case (Cons p ps)
  have sum: "wrapping_add 64 (ac_bootstrappers al) (ac_reputables al) = ac_bootstrappers al + ac_reputables al"
    using small by (rule wrapping_add_exact)
  show ?case
  proof (cases "p < ac_bootstrappers al")
    case True
    then have "rg_registry (ce_bootstrapper s) cc (wrapping_add 64 p 1) = Some (registered (ce_bootstrapper s) cc ! p)"
      using b(2) by (intro registry_entry[OF b(1)]) simp
    then show ?thesis using True Cons b(2)
      by (simp add: lookup_bootstrappers_reputables_def assigned_core_def nth_append)
  next
    case False
    let ?q = "p - ac_bootstrappers al"
    have "?q < registry_count (ce_reputable s) cc" "?q < ac_reputables al" using Cons.prems False r(2) by auto
    then have "rg_registry (ce_reputable s) cc (wrapping_add 64 ?q 1) = Some (registered (ce_reputable s) cc ! ?q)"
      by (intro registry_entry[OF r(1)])
    moreover have "wrapping_sub 64 p (ac_bootstrappers al) = ?q" using False by (intro wrapping_sub_exact) simp
    ultimately show ?thesis using False Cons b(2) \<open>?q < ac_reputables al\<close>
      by (simp add: lookup_bootstrappers_reputables_def assigned_core_def nth_append sum[unfolded b(2)])
  qed
qed

section \<open>The assignment function on lists\<close>

text \<open>What the generated parameters of one kind of participant give.\<close>

definition assigns :: "AssignmentParams \<Rightarrow> nat \<Rightarrow> nat \<Rightarrow> bool" where
  "assigns p n np \<longleftrightarrow>
     (\<forall>k<n. \<exists>xs. assignment_fn_inverse k p n np = Some xs \<and> distinct xs \<and>
        set xs = {x. x < np \<and> assignment_fn x p n = Some k}) \<and>
     (\<forall>x<np. \<exists>k<n. assignment_fn x p n = Some k)"

lemma generated_assigns:
  assumes gen: "generate_assignment_function_params hash np n r = Some (p, r')" and "np < 2 ^ 18" and "0 < n" and "n < 2 ^ 63"
  shows "assigns p n np"
proof -
  have v: "valid_params p" and m: "find_prime_below np = Some (ap_m p)"
    using generate_params_valid[OF gen] assms(2) by auto
  have np: "np \<le> 2 * ap_m p" using find_prime_below_half[of np] m assms(2) by auto
  have "\<exists>k<n. assignment_fn x p n = Some k" if "x < np" for x
    using assignment_fn_eq[OF v, of x n] that np assms(3) by auto
  then show ?thesis unfolding assigns_def using assignment_fn_inverse_spec[OF v assms(3,4) np] by blast
qed

lemma generate_assignment_cases:
  assumes "generate_assignment c cm cc al n r = Some (asg, r')"
    and "ac_bootstrappers al + ac_reputables al < 2 ^ 18" and "ac_endorsees al < 2 ^ 18" and "ac_newbies al < 2 ^ 18"
    and "0 < n" and "n < 2 ^ 63"
  shows "assigns (as_bootstrappers_reputables asg) n (ac_bootstrappers al + ac_reputables al)"
    and "assigns (as_endorsees asg) n (ac_endorsees al)" and "assigns (as_newbies asg) n (ac_newbies al)"
proof -
  have "wrapping_add 64 (ac_bootstrappers al) (ac_reputables al) = ac_bootstrappers al + ac_reputables al"
    using assms(2) by (intro wrapping_add_exact) simp
  then obtain p1 r1 p2 r2 p3 r3 p4 where
    "generate_assignment_function_params (cec_hash c) (ac_bootstrappers al + ac_reputables al) n r = Some (p1, r1)"
    "generate_assignment_function_params (cec_hash c) (ac_endorsees al) n r1 = Some (p2, r2)"
    "generate_assignment_function_params (cec_hash c) (ac_newbies al) n r2 = Some (p3, r3)"
    "asg = \<lparr>as_bootstrappers_reputables = p1, as_endorsees = p2, as_newbies = p3, as_locations = p4\<rparr>"
    using assms(1) by (auto simp: generate_assignment_def bind_eq_Some_conv)
  then show "assigns (as_bootstrappers_reputables asg) n (ac_bootstrappers al + ac_reputables al)"
    "assigns (as_endorsees asg) n (ac_endorsees al)" "assigns (as_newbies asg) n (ac_newbies al)"
    using generated_assigns assms(2-6) by auto
qed

text \<open>The members of a meetup among a list of assigned participants.\<close>

definition members_at :: "AccountId list \<Rightarrow> AssignmentParams \<Rightarrow> nat \<Rightarrow> nat \<Rightarrow> AccountId set" where
  "members_at xs p n k = {xs ! i |i. i < length xs \<and> assignment_fn i p n = Some k}"

definition picks :: "nat list \<Rightarrow> AccountId list \<Rightarrow> AssignmentParams \<Rightarrow> nat \<Rightarrow> nat \<Rightarrow> bool" where
  "picks ps xs p n k \<longleftrightarrow>
     assignment_fn_inverse k p n (length xs) = Some ps \<and> (\<forall>i\<in>set ps. i < length xs) \<and>
     set (map (\<lambda>i. xs ! i) ps) = members_at xs p n k \<and> distinct (map (\<lambda>i. xs ! i) ps)"

lemma picksD:
  assumes "picks ps xs p n k"
  shows "assignment_fn_inverse k p n (length xs) = Some ps" and "\<forall>i\<in>set ps. i < length xs"
    and "set (map (\<lambda>i. xs ! i) ps) = members_at xs p n k" and "distinct (map (\<lambda>i. xs ! i) ps)"
  using assms unfolding picks_def by blast+

lemma inverse_picks:
  assumes "assigns p n (length xs)" and "k < n" and "distinct xs"
  obtains ps where "picks ps xs p n k"
proof -
  obtain ps where ps: "assignment_fn_inverse k p n (length xs) = Some ps" "distinct ps"
    "set ps = {x. x < length xs \<and> assignment_fn x p n = Some k}"
    using assms(1,2) unfolding assigns_def by blast
  then have "inj_on (\<lambda>i. xs ! i) (set ps)" using assms(3) by (auto simp: inj_on_def nth_eq_iff_index_eq)
  then have "distinct (map (\<lambda>i. xs ! i) ps)" using ps(2) by (simp add: distinct_map)
  moreover have "set (map (\<lambda>i. xs ! i) ps) = members_at xs p n k" using ps(3) by (auto simp: members_at_def)
  ultimately show ?thesis using ps that unfolding picks_def by auto
qed

lemma members_at_subset: "members_at xs p n k \<subseteq> set xs"
  by (auto simp: members_at_def)

lemma members_at_nth:
  assumes "distinct xs" and "i < length xs"
  shows "xs ! i \<in> members_at xs p n k \<longleftrightarrow> assignment_fn i p n = Some k"
  using assms by (auto simp: members_at_def nth_eq_iff_index_eq)

lemma nth_in_take: "distinct xs \<Longrightarrow> i < length xs \<Longrightarrow> xs ! i \<in> set (take m xs) \<longleftrightarrow> i < m"
  by (auto simp: in_set_conv_nth nth_eq_iff_index_eq)

lemma meetup_index_Some:
  assumes "assigns p n np" and "i < np" and "n < 2 ^ 63"
  shows "meetup_index i p n = Some k \<longleftrightarrow> 1 \<le> k \<and> k \<le> n \<and> assignment_fn i p n = Some (k - 1)"
proof -
  obtain j where j: "j < n" "assignment_fn i p n = Some j" using assms(1,2) unfolding assigns_def by blast
  then have "wrapping_add 64 j 1 = j + 1" using assms(3) by (intro wrapping_add_exact) simp
  then show ?thesis using j by (auto simp: meetup_index_def)
qed

section \<open>Agreement\<close>

text \<open>A state in which the assignment of a ceremony has been generated for its registries.\<close>

definition assigned_state :: "ceremonies \<Rightarrow> CommunityCeremony \<Rightarrow> bool" where
  "assigned_state s cc \<longleftrightarrow>
     (let al = assignment_counts s cc; asg = assignments s cc; n = meetup_count s cc in
      ceremonies_ok s \<and> 0 < n \<and> n < 2 ^ 63 \<and>
      ac_bootstrappers al = registry_count (ce_bootstrapper s) cc \<and>
      ac_reputables al \<le> registry_count (ce_reputable s) cc \<and>
      ac_endorsees al \<le> registry_count (ce_endorsee s) cc \<and>
      ac_newbies al \<le> registry_count (ce_newbie s) cc \<and>
      ac_bootstrappers al + ac_reputables al < 2 ^ 64 \<and>
      assigns (as_bootstrappers_reputables asg) n (ac_bootstrappers al + ac_reputables al) \<and>
      assigns (as_endorsees asg) n (ac_endorsees al) \<and> assigns (as_newbies asg) n (ac_newbies al))"

lemma assigned_stateD:
  assumes "assigned_state s cc"
  shows "ceremonies_ok s" and "0 < meetup_count s cc" and "meetup_count s cc < 2 ^ 63"
    and "ac_bootstrappers (assignment_counts s cc) = registry_count (ce_bootstrapper s) cc"
    and "ac_reputables (assignment_counts s cc) \<le> registry_count (ce_reputable s) cc"
    and "ac_endorsees (assignment_counts s cc) \<le> registry_count (ce_endorsee s) cc"
    and "ac_newbies (assignment_counts s cc) \<le> registry_count (ce_newbie s) cc"
    and "ac_bootstrappers (assignment_counts s cc) + ac_reputables (assignment_counts s cc) < 2 ^ 64"
    and "assigns (as_bootstrappers_reputables (assignments s cc)) (meetup_count s cc)
      (ac_bootstrappers (assignment_counts s cc) + ac_reputables (assignment_counts s cc))"
    and "assigns (as_endorsees (assignments s cc)) (meetup_count s cc) (ac_endorsees (assignment_counts s cc))"
    and "assigns (as_newbies (assignments s cc)) (meetup_count s cc) (ac_newbies (assignment_counts s cc))"
  using assms unfolding assigned_state_def Let_def by blast+

lemma registries_ok:
  assumes "ceremonies_ok s"
  shows "registry_ok (ce_bootstrapper s)" and "registry_ok (ce_reputable s)" and "registry_ok (ce_endorsee s)"
    and "registry_ok (ce_newbie s)"
  using ceremonies_okD(1)[OF assms, of Bootstrapper] ceremonies_okD(1)[OF assms, of Reputable]
    ceremonies_okD(1)[OF assms, of Endorsee] ceremonies_okD(1)[OF assms, of Newbie] by simp_all

definition meetup_members :: "ceremonies \<Rightarrow> CommunityCeremony \<Rightarrow> nat \<Rightarrow> AccountId set" where
  "meetup_members s cc k =
     (let al = assignment_counts s cc; asg = assignments s cc; n = meetup_count s cc in
      members_at (assigned_core s cc al) (as_bootstrappers_reputables asg) n k \<union>
      members_at (assigned_endorsees s cc al) (as_endorsees asg) n k \<union>
      members_at (assigned_newbies s cc al) (as_newbies asg) n k)"

lemma assigned_lists:
  assumes "assigned_state s cc"
  defines "al \<equiv> assignment_counts s cc"
  shows "length (assigned_core s cc al) = ac_bootstrappers al + ac_reputables al"
    and "length (assigned_endorsees s cc al) = ac_endorsees al"
    and "length (assigned_newbies s cc al) = ac_newbies al"
    and "distinct (assigned_core s cc al @ assigned_endorsees s cc al @ assigned_newbies s cc al)"
proof -
  note ok = assigned_stateD(1)[OF assms(1)] and le = assigned_stateD(4-7)[OF assms(1), folded al_def]
  from le show "length (assigned_core s cc al) = ac_bootstrappers al + ac_reputables al"
    "length (assigned_endorsees s cc al) = ac_endorsees al" "length (assigned_newbies s cc al) = ac_newbies al"
    by (simp_all add: assigned_core_def assigned_endorsees_def assigned_newbies_def)
  have dist: "distinct (registered (registry_of t s) cc)" for t
    by (rule registered_distinct[OF ceremonies_okD(1)[OF ok]])
  have disj: "set (registered (registry_of t s) cc) \<inter> set (registered (registry_of t' s) cc) = {}" if "t \<noteq> t'" for t t'
    using that ceremonies_okD(2)[OF ok, of t cc _ t'] registry_has_iff[OF ceremonies_okD(1)[OF ok]] by blast
  note d = dist[of Bootstrapper] dist[of Reputable] dist[of Endorsee] dist[of Newbie]
    disj[of Bootstrapper Reputable] disj[of Bootstrapper Endorsee] disj[of Bootstrapper Newbie]
    disj[of Reputable Endorsee] disj[of Reputable Newbie] disj[of Endorsee Newbie]
  show "distinct (assigned_core s cc al @ assigned_endorsees s cc al @ assigned_newbies s cc al)"
    using d set_take_subset[of "ac_reputables al" "registered (ce_reputable s) cc"]
      set_take_subset[of "ac_endorsees al" "registered (ce_endorsee s) cc"]
      set_take_subset[of "ac_newbies al" "registered (ce_newbie s) cc"]
    by (simp add: assigned_core_def assigned_endorsees_def assigned_newbies_def) blast
qed

lemma participants_spec:
  assumes st: "assigned_state s cc" and k: "1 \<le> k" "k \<le> meetup_count s cc"
  shows "\<exists>ps. get_meetup_participants cc k s = Inr ps \<and> distinct ps \<and> set ps = meetup_members s cc (k - 1)"
proof -
  let ?al = "assignment_counts s cc" and ?asg = "assignments s cc" and ?n = "meetup_count s cc"
  note len = assigned_lists(1-3)[OF st] and dist = assigned_lists(4)[OF st]
  have as: "assigns (as_bootstrappers_reputables ?asg) ?n (length (assigned_core s cc ?al))"
    "assigns (as_endorsees ?asg) ?n (length (assigned_endorsees s cc ?al))"
    "assigns (as_newbies ?asg) ?n (length (assigned_newbies s cc ?al))"
    unfolding len using assigned_stateD(9-11)[OF st] by blast+
  note le = assigned_stateD(4-7)[OF st] and small = assigned_stateD(8)[OF st]
    and reg = registries_ok[OF assigned_stateD(1)[OF st]]
  have j: "k - 1 < ?n" using k by simp
  have d: "distinct (assigned_core s cc ?al)" "distinct (assigned_endorsees s cc ?al)" "distinct (assigned_newbies s cc ?al)"
    using dist by simp_all
  obtain ps1 where "picks ps1 (assigned_core s cc ?al) (as_bootstrappers_reputables ?asg) ?n (k - 1)"
    by (rule inverse_picks[OF as(1) j d(1)])
  note ps1 = picksD[OF this]
  obtain ps2 where "picks ps2 (assigned_endorsees s cc ?al) (as_endorsees ?asg) ?n (k - 1)"
    by (rule inverse_picks[OF as(2) j d(2)])
  note ps2 = picksD[OF this]
  obtain ps3 where "picks ps3 (assigned_newbies s cc ?al) (as_newbies ?asg) ?n (k - 1)"
    by (rule inverse_picks[OF as(3) j d(3)])
  note ps3 = picksD[OF this]
  let ?l = "map (\<lambda>i. assigned_core s cc ?al ! i) ps1 @ map (\<lambda>i. assigned_endorsees s cc ?al ! i) ps2 @
    map (\<lambda>i. assigned_newbies s cc ?al ! i) ps3"
  have "get_meetup_participants cc k s = Inr ?l"
    using ps1(1) ps2(1) ps3(1) k lookup_core_members[OF reg(1) le(1) reg(2) le(2) small, of ps1]
      lookup_members[OF reg(3) le(3), of ps2] lookup_members[OF reg(4) le(4), of ps3] ps1(2) ps2(2) ps3(2) len
    by (simp add: get_meetup_participants_def Let_def wrapping_add_exact[OF small] ok_or_def
        assigned_endorsees_def[symmetric] assigned_newbies_def[symmetric])
  moreover have "distinct ?l"
    using ps1(3,4) ps2(3,4) ps3(3,4) dist members_at_subset unfolding distinct_append set_append by blast
  moreover have "set ?l = meetup_members s cc (k - 1)"
    unfolding set_append ps1(3) ps2(3) ps3(3) by (simp add: meetup_members_def Let_def Un_assoc)
  ultimately show ?thesis by blast
qed

text \<open>The index of a registered account gives its slot.\<close>

lemma type_slot_eq:
  assumes "registry_ok (registry_of t s)" and "i < registry_count (registry_of t s) cc"
  shows "wrapping_sub 64 (value_query 0 (rg_index (registry_of t s) cc (registered (registry_of t s) cc ! i))) 1 = i"
proof -
  have "rg_index (registry_of t s) cc (registered (registry_of t s) cc ! i) = Some (i + 1)"
    using assms(2) by (simp add: index_lookup[OF assms(1)])
  then show ?thesis by (simp add: wrapping_sub_def)
qed

lemma slot_agrees:
  assumes "assigns p n (length xs)" and "n < 2 ^ 63" and "distinct xs" and "i < length xs"
  shows "meetup_index i p n = Some k \<longleftrightarrow> 1 \<le> k \<and> k \<le> n \<and> xs ! i \<in> members_at xs p n (k - 1)"
  using meetup_index_Some[OF assms(1,4,2)] members_at_nth[OF assms(3,4)] by simp

text \<open>In which of the lists the account at a position of a registry is.\<close>

lemma position_in_lists:
  assumes st: "assigned_state s cc" and i: "i < registry_count (registry_of t s) cc"
  defines "a \<equiv> registered (registry_of t s) cc ! i" and "al \<equiv> assignment_counts s cc"
  shows "a \<in> set (assigned_core s cc al) \<longleftrightarrow> t = Bootstrapper \<or> t = Reputable \<and> i < ac_reputables al"
    and "a \<in> set (assigned_endorsees s cc al) \<longleftrightarrow> t = Endorsee \<and> i < ac_endorsees al"
    and "a \<in> set (assigned_newbies s cc al) \<longleftrightarrow> t = Newbie \<and> i < ac_newbies al"
proof -
  note ok = assigned_stateD(1)[OF st]
  have a: "a \<in> set (registered (registry_of t s) cc)" using i by (simp add: a_def)
  have other: "t' = t" if "a \<in> set (registered (registry_of t' s) cc)" for t'
    using that a registry_has_iff[OF ceremonies_okD(1)[OF ok]] ceremonies_okD(2)[OF ok, of t' cc a t] by blast
  have tk: "a \<in> set (take m (registered (registry_of t' s) cc)) \<longleftrightarrow> t' = t \<and> i < m" for t' m
    using nth_in_take[OF registered_distinct[OF ceremonies_okD(1)[OF ok]], of i t cc m] i other[of t']
      in_set_takeD[of a m "registered (registry_of t' s) cc"] by (auto simp: a_def)
  have "a \<in> set (registered (registry_of Bootstrapper s) cc) \<longleftrightarrow> t = Bootstrapper" using a other by blast
  then show "a \<in> set (assigned_core s cc al) \<longleftrightarrow> t = Bootstrapper \<or> t = Reputable \<and> i < ac_reputables al"
    using tk[of "ac_reputables al" Reputable] by (auto simp: assigned_core_def)
  show "a \<in> set (assigned_endorsees s cc al) \<longleftrightarrow> t = Endorsee \<and> i < ac_endorsees al"
    using tk[of "ac_endorsees al" Endorsee] by (auto simp: assigned_endorsees_def)
  show "a \<in> set (assigned_newbies s cc al) \<longleftrightarrow> t = Newbie \<and> i < ac_newbies al"
    using tk[of "ac_newbies al" Newbie] by (auto simp: assigned_newbies_def)
qed

lemma index_spec:
  assumes st: "assigned_state s cc"
  shows "get_meetup_index cc a s = Some k \<longleftrightarrow> 1 \<le> k \<and> k \<le> meetup_count s cc \<and> a \<in> meetup_members s cc (k - 1)"
proof (cases "get_participant_type cc a s")
  case None
  let ?al = "assignment_counts s cc"
  have "\<not> registry_has (registry_of t s) cc a" for t using None participant_type_None registered_types by blast
  then have "a \<notin> set (registered (registry_of t s) cc)" for t
    using registry_has_iff[OF ceremonies_okD(1)[OF assigned_stateD(1)[OF st]]] by blast
  note not = this[of Bootstrapper] this[of Reputable] this[of Endorsee] this[of Newbie]
  have "a \<notin> set (assigned_core s cc ?al)" "a \<notin> set (assigned_endorsees s cc ?al)" "a \<notin> set (assigned_newbies s cc ?al)"
    using not by (auto simp: assigned_core_def assigned_endorsees_def assigned_newbies_def dest: in_set_takeD)
  then have "a \<notin> meetup_members s cc (k - 1)"
    using members_at_subset unfolding meetup_members_def Let_def by blast
  then show ?thesis using None by (simp add: get_meetup_index_def)
next
  case (Some t)
  let ?al = "assignment_counts s cc" and ?asg = "assignments s cc" and ?n = "meetup_count s cc"
  note ok = assigned_stateD(1)[OF st]
  obtain i where i: "i < registry_count (registry_of t s) cc" "a = registered (registry_of t s) cc ! i"
    using participant_type_registered[OF Some] registry_has_iff[OF ceremonies_okD(1)[OF ok]]
    by (metis in_set_conv_nth length_registered)
  note len = assigned_lists(1-3)[OF st] and dist = assigned_lists(4)[OF st]
  note ins = position_in_lists[OF st i(1), folded i(2)]
  have idx: "wrapping_sub 64 (value_query 0 (rg_index (registry_of t s) cc a)) 1 = i"
    unfolding i(2) using i(1) by (rule type_slot_eq[OF ceremonies_okD(1)[OF ok]])
  have as: "assigns (as_bootstrappers_reputables ?asg) ?n (length (assigned_core s cc ?al))"
    "assigns (as_endorsees ?asg) ?n (length (assigned_endorsees s cc ?al))"
    "assigns (as_newbies ?asg) ?n (length (assigned_newbies s cc ?al))"
    unfolding len using assigned_stateD(9-11)[OF st] by blast+
  note agree = slot_agrees[OF as(1) assigned_stateD(3)[OF st]] slot_agrees[OF as(2) assigned_stateD(3)[OF st]]
    slot_agrees[OF as(3) assigned_stateD(3)[OF st]]
  have mem: "a \<in> meetup_members s cc (k - 1) \<longleftrightarrow>
      a \<in> members_at (assigned_core s cc ?al) (as_bootstrappers_reputables ?asg) ?n (k - 1) \<or>
      a \<in> members_at (assigned_endorsees s cc ?al) (as_endorsees ?asg) ?n (k - 1) \<or>
      a \<in> members_at (assigned_newbies s cc ?al) (as_newbies ?asg) ?n (k - 1)"
    by (simp add: meetup_members_def Let_def)
  have no: "a \<notin> set xs \<Longrightarrow> a \<notin> members_at xs p n j" for xs p n j using members_at_subset by blast
  show ?thesis
  proof (cases t)
    case Bootstrapper
    then have "assigned_core s cc ?al ! i = a" "i < length (assigned_core s cc ?al)" "i < ac_bootstrappers ?al"
      using i len(1) assigned_stateD(4)[OF st] by (auto simp: assigned_core_def nth_append)
    then show ?thesis using Some Bootstrapper agree(1)[of i k] dist ins idx no unfolding mem
      by (simp add: get_meetup_index_def type_slot_def Let_def)
  next
    case Reputable
    show ?thesis
    proof (cases "i < ac_reputables ?al")
      case True
      let ?p = "i + ac_bootstrappers ?al"
      have "assigned_core s cc ?al ! ?p = a" "?p < length (assigned_core s cc ?al)"
        using i len(1) assigned_stateD(4)[OF st] True Reputable by (auto simp: assigned_core_def nth_append)
      moreover have "wrapping_add 64 i (ac_bootstrappers ?al) = ?p"
        using assigned_stateD(8)[OF st] True by (intro wrapping_add_exact) simp
      ultimately show ?thesis using Some Reputable True agree(1)[of ?p k] dist ins idx no unfolding mem
        by (simp add: get_meetup_index_def type_slot_def Let_def)
    qed (use Some Reputable ins idx no in \<open>unfold mem, simp add: get_meetup_index_def type_slot_def Let_def\<close>)
  next
    case Endorsee
    show ?thesis
    proof (cases "i < ac_endorsees ?al")
      case True
      then have "assigned_endorsees s cc ?al ! i = a" "i < length (assigned_endorsees s cc ?al)"
        using i len(2) Endorsee by (auto simp: assigned_endorsees_def)
      then show ?thesis using Some Endorsee True agree(2)[of i k] dist ins idx no unfolding mem
        by (simp add: get_meetup_index_def type_slot_def Let_def)
    qed (use Some Endorsee ins idx no in \<open>unfold mem, simp add: get_meetup_index_def type_slot_def Let_def\<close>)
  next
    case Newbie
    show ?thesis
    proof (cases "i < ac_newbies ?al")
      case True
      then have "assigned_newbies s cc ?al ! i = a" "i < length (assigned_newbies s cc ?al)"
        using i len(3) Newbie by (auto simp: assigned_newbies_def)
      then show ?thesis using Some Newbie True agree(3)[of i k] dist ins idx no unfolding mem
        by (simp add: get_meetup_index_def type_slot_def Let_def)
    qed (use Some Newbie ins idx no in \<open>unfold mem, simp add: get_meetup_index_def type_slot_def Let_def\<close>)
  qed
qed

text \<open>Generating the assignment of a ceremony leads to such a state.\<close>

lemma ceil_division_bounds:
  assumes "checked_ceil_division N t = Some n" and "0 < N"
  shows "0 < n" and "n \<le> N"
proof -
  have n: "t \<noteq> 0" "n = (N + t - 1) div t"
    using assms(1) by (auto simp: checked_ceil_division_def arith_ops bind_eq_Some_conv)
  then show "0 < n" using assms(2) by (auto simp: div_greater_zero_iff)
  have "N + t - 1 \<le> N * t"
    using n(1) assms(2) by (cases N; cases t) auto
  then have "(N + t - 1) div t \<le> N * t div t" by (rule div_le_mono)
  then show "n \<le> N" using n by simp
qed

lemma generated_assigned_state:
  assumes ok: "ceremonies_ok s"
    and small: "registry_count (ce_bootstrapper s) cc + registry_count (ce_reputable s) cc +
      registry_count (ce_endorsee s) cc + registry_count (ce_newbie s) cc < 2 ^ 18"
    and al: "compute_assignment_allowance c cm cc target s = Some (Inr al)"
    and n: "checked_ceil_division (get_number_of_participants al) (cec_meetup_size_target c) = Some n"
    and pos: "0 < get_number_of_participants al"
    and asg: "generate_assignment c cm cc al n r = Some (asg, r')"
  shows "assigned_state (s\<lparr>ce_assignments := (ce_assignments s)(cc \<mapsto> asg),
        ce_assignment_counts := (ce_assignment_counts s)(cc \<mapsto> al),
        ce_meetup_count := (ce_meetup_count s)(cc \<mapsto> n)\<rparr>) cc" (is "assigned_state ?s cc")
proof -
  note le = allowance_le[OF al]
  have N: "get_number_of_participants al = ac_bootstrappers al + ac_reputables al + ac_endorsees al + ac_newbies al"
    using le small by (intro number_of_participants_exact) simp
  have "n < 2 ^ 18" using ceil_division_bounds(2)[OF n pos] N le small by linarith
  then have nb: "0 < n" "n < 2 ^ 63" using ceil_division_bounds(1)[OF n pos] by auto
  have "registry_of t ?s = registry_of t s" for t by (cases t) simp_all
  with ok have "ceremonies_ok ?s" by (rule ceremonies_ok_cong)
  moreover have "ac_bootstrappers al + ac_reputables al < 2 ^ 18" "ac_endorsees al < 2 ^ 18" "ac_newbies al < 2 ^ 18"
    using le small by linarith+
  ultimately show ?thesis
    using generate_assignment_cases[OF asg _ _ _ nb] le nb
    by (simp add: assigned_state_def assignment_counts_def assignments_def meetup_count_def)
qed

end
