(* ===== verification/Ceremony_Scenario.thy ===== *)
theory Ceremony_Scenario
  imports Meetup_Membership
begin

text \<open>
  A small ceremony, run through registration, assignment and attestation: the concrete states at which
  the properties of the ceremonies pallet are instantiated.
\<close>

section \<open>The community\<close>

text \<open>
  A community with the bootstrappers 2, 3 and 4 and one location, and a clock that can be put into
  any phase of a ceremony.
\<close>

definition small_config :: "nat ceremonies_config" where
  "small_config =
     \<lparr>cec_balances = demo_config, cec_hash = (\<lambda>_. replicate 8 2), cec_encode = (\<lambda>(a, i). [a, i]),
      cec_verify = (\<lambda>sig m a. sig = a + 100), cec_meetup_size_target = 10, cec_meetup_min_size = 3,
      cec_newbie_limit_divider = 3, cec_max_attestations = 100, cec_moments_per_day = 86400000\<rparr>"

definition small_communities :: communities where
  "small_communities = (communities_genesis 1 83)
     \<lparr>cm_community_identifiers := [demo_cid],
      cm_bootstrappers := Map.empty(demo_cid \<mapsto> [2, 3, 4]),
      cm_locations := (\<lambda>_. [])(demo_cid := [([1, 2, 3, 4, 5], [Location 0 0])])\<rparr>"

definition clock :: "nat \<Rightarrow> CeremonyPhaseType \<Rightarrow> scheduler" where
  "clock index phase = scheduler_genesis index phase [(Registering, 70), (Assigning, 10), (Attesting, 20)]"

definition small_genesis :: ceremonies where
  "small_genesis = ceremonies_genesis 1000 0 0 5 3 2 5 0"

definition run :: "('e + 'a) \<Rightarrow> 'a \<Rightarrow> 'a" where
  "run r s = (case r of Inr s' \<Rightarrow> s' | Inl _ \<Rightarrow> s)"

abbreviation small_cc :: CommunityCeremony where
  "small_cc \<equiv> (demo_cid, 4)"

text \<open>The three bootstrappers register for ceremony 4, are assigned to one meetup, and attest each other.\<close>

fun register_all :: "AccountId list \<Rightarrow> ceremonies \<Rightarrow> ceremonies_error + ceremonies" where
  "register_all [] s = Inr s"
| "register_all (a # as) s =
     bind_res (register_participant small_config (clock 4 Registering) small_communities (balances_genesis 1) a demo_cid None s)
       (register_all as)"

definition three_registered :: ceremonies where
  "three_registered = small_genesis
     \<lparr>ce_bootstrapper := \<lparr>
        rg_registry = dm_insert small_cc 3 4 (dm_insert small_cc 2 3 (dm_insert small_cc 1 2 (\<lambda>_. Map.empty))),
        rg_index = dm_insert small_cc 4 3 (dm_insert small_cc 3 2 (dm_insert small_cc 2 1 (\<lambda>_. Map.empty))),
        rg_count = [small_cc \<mapsto> 3]\<rparr>,
      ce_events := map (ParticipantRegistered demo_cid Bootstrapper) [2, 3, 4]\<rparr>"

definition three_assigned :: ceremonies where
  "three_assigned = three_registered\<lparr>
     ce_assignments := [small_cc \<mapsto>
       \<lparr>as_bootstrappers_reputables = \<lparr>ap_m = 3, ap_s1 = 1, ap_s2 = 1\<rparr>,
        as_endorsees = \<lparr>ap_m = 2, ap_s1 = 1, ap_s2 = 1\<rparr>, as_newbies = \<lparr>ap_m = 2, ap_s1 = 1, ap_s2 = 1\<rparr>,
        as_locations = \<lparr>ap_m = 1, ap_s1 = 0, ap_s2 = 2\<rparr>\<rparr>],
     ce_assignment_counts := [small_cc \<mapsto> default_count\<lparr>ac_bootstrappers := 3\<rparr>],
     ce_meetup_count := [small_cc \<mapsto> 1]\<rparr>"

lemmas scenario_defs = small_config_def small_communities_def communities_genesis_def clock_def
  scheduler_genesis_def small_genesis_def ceremonies_genesis_def three_registered_def three_assigned_def
  default_count_def empty_registry_def

lemma three_registered: "register_all [2, 3, 4] small_genesis = Inr three_registered"
  by (simp add: scenario_defs register_participant_def register_def add_to_registry_def registry_add_def
      is_registering_or_attesting_def registration_cindex_def is_registered_def registry_has_def registry_count_def
      bootstrappers_def checked_add_def ensure_def ok_or_def ce_deposit_event_def dm_insert_def Let_def
      numeral_2_eq_2[symmetric])

lemma register_all_ok: "register_all xs s = Inr s' \<Longrightarrow> ceremonies_ok s \<Longrightarrow> ceremonies_ok s'"
  by (induction xs arbitrary: s) (auto simp: res_simps dest: register_participant_ok(2))

lemma three_registered_ok: "ceremonies_ok three_registered"
  using register_all_ok[OF three_registered] genesis_ceremonies_ok by (simp add: small_genesis_def)

lemma three_counts:
  "registry_count (ce_bootstrapper three_registered) small_cc = 3" "registry_count (ce_reputable three_registered) small_cc = 0"
  "registry_count (ce_endorsee three_registered) small_cc = 0" "registry_count (ce_newbie three_registered) small_cc = 0"
  by (simp_all add: scenario_defs registry_count_def)

lemma three_allowance:
  "compute_assignment_allowance small_config small_communities small_cc 10 three_registered =
     Some (Inr (default_count\<lparr>ac_bootstrappers := 3\<rparr>))"
  by code_simp

text \<open>The random parameters are drawn from a hash that always answers the same bytes.\<close>

definition after_draws :: rng where
  "after_draws = \<lparr>rng_current = replicate 8 2, rng_offset = 3\<rparr>"

lemma three_core_params:
  "generate_assignment_function_params (\<lambda>_. replicate 8 2) 3 1 (rng_new [1]) =
     Some (\<lparr>ap_m = 3, ap_s1 = 1, ap_s2 = 1\<rparr>, after_draws)"
  by code_simp

lemma three_other_params:
  "generate_assignment_function_params (\<lambda>_. replicate 8 2) 0 1 after_draws =
     Some (\<lparr>ap_m = 2, ap_s1 = 1, ap_s2 = 1\<rparr>, after_draws)"
  by code_simp

lemma three_location_params:
  "generate_location_assignment_params (\<lambda>_. replicate 8 2) 1 after_draws =
     Some (\<lparr>ap_m = 1, ap_s1 = 0, ap_s2 = 2\<rparr>, after_draws)"
  by code_simp

lemma three_assignment:
  "generate_assignment small_config small_communities small_cc (default_count\<lparr>ac_bootstrappers := 3\<rparr>) 1 (rng_new [1]) =
     Some (the (ce_assignments three_assigned small_cc), after_draws)"
  using three_core_params three_other_params three_location_params
  by (simp add: generate_assignment_def scenario_defs get_locations_def wrapping_add_exact)

lemma three_generated:
  "generate_meetup_assignment_params small_config small_communities small_cc (rng_new [1]) three_registered =
     Some (Inr three_assigned, after_draws)"
proof -
  have "cec_meetup_size_target small_config = 10" "cec_meetup_min_size small_config = 3" by (simp_all add: small_config_def)
  moreover have "get_number_of_participants (default_count\<lparr>ac_bootstrappers := 3\<rparr>) = 3" "checked_ceil_division 3 10 = Some 1"
    by code_simp+
  moreover have "three_registered\<lparr>ce_assignments := (ce_assignments three_registered)(small_cc \<mapsto> the (ce_assignments three_assigned small_cc)),
      ce_assignment_counts := (ce_assignment_counts three_registered)(small_cc \<mapsto> default_count\<lparr>ac_bootstrappers := 3\<rparr>),
      ce_meetup_count := (ce_meetup_count three_registered)(small_cc \<mapsto> 1)\<rparr> = three_assigned" by (simp add: scenario_defs)
  ultimately show ?thesis using three_allowance three_assignment
    by (simp add: generate_meetup_assignment_params_def)
qed

lemma three_meet: "get_meetup_participants small_cc 1 three_assigned = Inr [4, 2, 3]"
proof -
  have "assignment_fn_inverse 0 \<lparr>ap_m = 3, ap_s1 = 1, ap_s2 = 1\<rparr> 1 3 = Some [2, 0, 1]"
    "assignment_fn_inverse 0 \<lparr>ap_m = 2, ap_s1 = 1, ap_s2 = 1\<rparr> 1 0 = Some []" by code_simp+
  then show ?thesis
    by (simp add: get_meetup_participants_def Let_def meetup_count_def assignments_def assignment_counts_def scenario_defs
      wrapping_add_exact ok_or_def lookup_bootstrappers_reputables_def lookup_participants_def storage_simps)
qed

section \<open>Attestation and reward\<close>

definition three_attested :: ceremonies where
  "three_attested = three_assigned\<lparr>
     ce_participant_count_vote := dm_insert small_cc 2 3 (dm_insert small_cc 3 3 (dm_insert small_cc 4 3 (\<lambda>_. Map.empty))),
     ce_attestation_count := [small_cc \<mapsto> 3],
     ce_attestation_index := dm_insert small_cc 2 1 (dm_insert small_cc 3 2 (dm_insert small_cc 4 3 (\<lambda>_. Map.empty))),
     ce_attestation_registry :=
       dm_insert small_cc 1 [4, 3] (dm_insert small_cc 2 [4, 2] (dm_insert small_cc 3 [2, 3] (\<lambda>_. Map.empty)))\<rparr>"

lemma attested_meet: "get_meetup_participants small_cc 1 three_attested = Inr [4, 2, 3]"
proof -
  have "registry_of t three_attested = registry_of t three_assigned" for t
    by (cases t) (simp_all add: three_attested_def)
  then have "meetup_core three_attested = meetup_core three_assigned"
    by (intro meetup_coreI) (simp_all add: three_attested_def)
  from frozen_meetups(1)[OF frozen_core[OF this]] three_meet show ?thesis by simp
qed

lemma three_ballots:
  "gather_meetup_validation_data small_cc [4, 2, 3] three_attested = ([3, 3, 3], [[1, 2], [0, 2], [0, 1]])"
  by (simp add: gather_meetup_validation_data_def scenario_defs three_attested_def storage_simps List.map_filter_def
      numeral_2_eq_2[symmetric])

lemma three_judgements:
  "meetup_judgements small_cc [4, 2, 3] three_attested =
     Inr \<lparr>pj_legit = [0, 1, 2], pj_excluded = [], pj_early_rewards_possible = True\<rparr>"
proof -
  have "[0..<3] = [0, 1, 2]" by code_simp
  then show ?thesis using triangle_judgements three_ballots by (simp add: meetup_judgements_def numeral_3_eq_3[symmetric])
qed

lemma genesis_solvent:
  "solvent demo_config cid (balances_genesis 1)" "bal demo_config (balances_genesis 1) cid a = 0"
  "issued demo_config (balances_genesis 1) cid = 0"
proof -
  have ok: "ledger_ok (balances_genesis 1)"
    by (simp add: ledger_ok_def genesis_entries_ok) (simp add: balances_genesis_def held_def)
  have "no_demurrage demo_config" by (simp add: no_demurrage_def demo_config_def)
  note zero = no_demurrage_bal[OF this ok]
  have b: "bal demo_config (balances_genesis 1) cid x = 0" for x
    unfolding zero by (simp add: prin_def balances_genesis_def entry_default_def)
  then show "bal demo_config (balances_genesis 1) cid a = 0" .
  show "issued demo_config (balances_genesis 1) cid = 0"
    unfolding zero by (simp add: minted_def balances_genesis_def entry_default_def)
  show "solvent demo_config cid (balances_genesis 1)"
    using demo_config_decays genesis_entries_ok b by (simp add: solvent_def)
qed

lemma three_claimed:
  "claimed_meetup (clock 4 Attesting) a demo_cid (Some 1) s = Inr (4, 1)"
  by (simp add: claimed_meetup_def claim_cindex_def scenario_defs)

text \<open>The reward of that meetup can be claimed before the attesting phase is over.\<close>

lemma three_rewarded:
  "\<exists>s b. claim_rewards small_config (clock 4 Attesting) small_communities 2 demo_cid (Some 1) three_attested (balances_genesis 1) =
     Inr (s, b)"
proof -
  have "issued_rewards three_attested small_cc 1 = None"
    by (simp add: issued_rewards_def three_attested_def scenario_defs)
  then show ?thesis using attested_meet three_judgements three_claimed[of 2 three_attested]
    by (simp add: claim_rewards_eq issue_rewards_def Let_def vec_get_def ok_or_def split: prod.splits)
qed

end
