(* ===== verification/Ceremony_Runs.thy ===== *)
theory Ceremony_Runs
  imports Ceremony_Invariants
begin

text \<open>
  Sequences of calls of the ceremonies pallet and of phase changes: every dispatchable of the pallet, the
  changes of phase as the scheduler announces them, and what other pallets do to the balances meanwhile.
  The pallet logs every ceremony it purges; what a run preserves is stated up to the purges it logs.
\<close>

section \<open>The log of purged ceremonies\<close>

fun purge_of :: "ceremonies_event \<Rightarrow> CommunityCeremony option" where
  "purge_of (CommunityCeremonyHistoryPurged cid cindex) = Some (cid, cindex)"
| "purge_of _ = None"

definition purges :: "ceremonies \<Rightarrow> CommunityCeremony list" where
  "purges s = List.map_filter purge_of (ce_events s)"

definition purge_count :: "CommunityCeremony \<Rightarrow> ceremonies \<Rightarrow> nat" where
  "purge_count cc s = count_list (purges s) cc"

lemma purges_cong: "ce_events s' = ce_events s \<Longrightarrow> purges s' = purges s"
  by (simp add: purges_def)

lemma purges_deposit [simp]:
  "purges (ce_deposit_event e s) = purges s @ (case purge_of e of Some cc \<Rightarrow> [cc] | None \<Rightarrow> [])"
  by (simp add: purges_def ce_deposit_event_def map_filter_def split: option.splits)

lemma events_frame [simp]:
  "ce_events (put_registry t r s) = ce_events s"
  "ce_events (put_reputation cc a rep s) = ce_events s"
  "ce_events (put_issued_rewards cc k res s) = ce_events s"
  by (cases t; simp add: put_reputation_def put_issued_rewards_def)+

lemma purges_frame [simp]:
  "purges (put_registry t r s) = purges s"
  "purges (put_reputation cc a rep s) = purges s"
  "purges (put_issued_rewards cc k res s) = purges s"
  by (simp_all add: purges_def)

lemma purges_update [simp]:
  "purges (s\<lparr>ce_inactivity_timeout := x1\<rparr>) = purges s"
  "purges (s\<lparr>ce_tickets_per_bootstrapper := x2\<rparr>) = purges s"
  "purges (s\<lparr>ce_tickets_per_reputable := x3\<rparr>) = purges s"
  "purges (s\<lparr>ce_reputation_lifetime := x4\<rparr>) = purges s"
  "purges (s\<lparr>ce_meetup_time_offset := x5\<rparr>) = purges s"
  "purges (s\<lparr>ce_time_tolerance := x6\<rparr>) = purges s"
  "purges (s\<lparr>ce_location_tolerance := x7\<rparr>) = purges s"
  "purges (s\<lparr>ce_reputation_count := x8\<rparr>) = purges s"
  "purges (s\<lparr>ce_global_reputation_count := x9\<rparr>) = purges s"
  "purges (s\<lparr>ce_inactivity_counters := x10\<rparr>) = purges s"
  "purges (s\<lparr>ce_participant_count_vote := x11\<rparr>) = purges s"
  "purges (s\<lparr>ce_attestation_registry := x12\<rparr>) = purges s"
  "purges (s\<lparr>ce_attestation_index := x13\<rparr>) = purges s"
  "purges (s\<lparr>ce_attestation_count := x14\<rparr>) = purges s"
  "purges (s\<lparr>ce_burned_bootstrapper_tickets := x15\<rparr>) = purges s"
  by (simp_all add: purges_def)

lemma register_purges: "register c cm b cc a is_reputable s = Inr (t, s') \<Longrightarrow> purges s' = purges s"
  by (elim register_cases) (auto intro: purges_cong)

lemma remove_participant_purges: "remove_participant_from_registry sch cc a s = Inr s' \<Longrightarrow> purges s' = purges s"
  by (elim remove_participant_cases) simp

lemma register_participant_purges:
  assumes "register_participant c sch cm b a cid proof s = Inr s'"
  shows "purges s' = purges s"
proof -
  obtain s1 t s2 where link: "(case proof of Some p \<Rightarrow> link_reputation c cm (cid, registration_cindex sch) a p s | None \<Rightarrow> Inr s) = Inr s1"
    and reg: "register c cm b (cid, registration_cindex sch) a (proof \<noteq> None) s1 = Inr (t, s2)"
    and s': "s' = ce_deposit_event (ParticipantRegistered cid t a) s2"
    using assms by (rule register_participant_cases)
  have "purges s1 = purges s"
  proof (cases "proof")
    case (Some p)
    then have "link_reputation c cm (cid, registration_cindex sch) a p s = Inr s1" using link by simp
    from link_reputation_cases(5)[OF this] show ?thesis by simp
  qed (use link in simp)
  then show ?thesis using register_purges[OF reg] by (simp add: s')
qed

lemma upgrade_registration_purges:
  "upgrade_registration c sch cm b a cid p s = Inr s' \<Longrightarrow> purges s' = purges s"
  by (auto simp: upgrade_registration_def Let_def res_simps split: if_splits
      dest!: remove_participant_purges register_participant_purges)

lemma unregister_participant_purges:
  assumes "unregister_participant sch cm a cid maybe_cc s = Inr s'"
  shows "purges s' = purges s"
proof -
  obtain s1 t where s1: "(if t = Reputable \<or> t = Bootstrapper
      then unlink_reputation (cid, registration_cindex sch) a t maybe_cc s else Inr s) = Inr s1"
    and rem: "remove_participant_from_registry sch (cid, registration_cindex sch) a s1 = Inr s'"
    using assms unfolding unregister_participant_def Let_def by (auto simp only: res_simps)
  have "ce_events s1 = ce_events s"
    using s1 unlink_reputation_cases[of "(cid, registration_cindex sch)" a t maybe_cc s s1] by (auto split: if_splits)
  then have "purges s1 = purges s" by (rule purges_cong)
  then show ?thesis using remove_participant_purges[OF rem] by simp
qed

lemma endorse_newcomer_purges:
  assumes "endorse_newcomer c sch cm b a cid newbie s = Inr s'"
  shows "purges s' = purges s" and "ce_reputation s' = ce_reputation s"
proof -
  let ?cc = "(cid, endorsement_cindex sch)"
  obtain s1 s2 where burn: "burn_newbie_tickets sch cm ?cc a s = Inr s1"
    and s2: "if registry_has (ce_newbie s1) ?cc newbie
     then \<exists>s4 t. remove_participant_from_registry sch ?cc newbie (endorsed_state ?cc newbie s1) = Inr s4 \<and>
          register c cm b ?cc newbie False s4 = Inr (t, s2)
     else s2 = endorsed_state ?cc newbie s1"
    and s': "s' = ce_deposit_event (EndorsedParticipant cid a newbie) s2"
    using assms by (rule endorse_newcomer_cases)
  have "purges (endorsed_state ?cc newbie s1) = purges s" "ce_reputation (endorsed_state ?cc newbie s1) = ce_reputation s"
    using burn_newbie_tickets_cases[OF burn] by (auto simp: endorsed_state_def intro: purges_cong)
  moreover have "purges s2 = purges (endorsed_state ?cc newbie s1) \<and> ce_reputation s2 = ce_reputation (endorsed_state ?cc newbie s1)"
  proof (cases "registry_has (ce_newbie s1) ?cc newbie")
    case True
    then obtain s4 t where "remove_participant_from_registry sch ?cc newbie (endorsed_state ?cc newbie s1) = Inr s4"
      "register c cm b ?cc newbie False s4 = Inr (t, s2)" using s2 by auto
    then show ?thesis using register_purges remove_participant_purges register_ok(3) remove_participant_ok(3) by fastforce
  qed (use s2 in simp)
  ultimately show "purges s' = purges s" "ce_reputation s' = ce_reputation s" unfolding s' by simp_all
qed

lemma attest_attendees_purges: "attest_attendees c sch cm a cid vote atts s = Inr s' \<Longrightarrow> purges s' = purges s"
  by (auto simp: attest_attendees_def gather_meetup_data_def add_attestations_to_registry_def Let_def res_simps
      split: if_splits option.splits intro: purges_cong)

lemma emit_no_rewards_purges: "emit_no_rewards cc k ps ex s = Inr s' \<Longrightarrow> purges s' = purges s"
  by (induction ex arbitrary: s) (auto simp: res_simps)

lemma issue_loop_purges: "issue_loop bc cc reward ps is (s, b, n) = Inr (s', b', n') \<Longrightarrow> purges s' = purges s"
  by (induction "is" arbitrary: s b n) (auto simp: res_simps split: prod.splits if_splits)

lemma claim_rewards_purges:
  assumes "claim_rewards c sch cm a cid maybe s b = Inr (s', b')"
  shows "purges s' = purges s"
  using assms
proof (cases rule: claim_rewards_cases)
  case (paid i k ps pj s1)
  have "purges s' = purges s1" using paid(6)
    by (auto simp: issue_rewards_def res_simps Let_def dest!: issue_loop_purges)
  then show ?thesis using emit_no_rewards_purges[OF paid(5)] by simp
qed simp

lemma setter_purges:
  "set_inactivity_timeout m n s = Inr s' \<Longrightarrow> purges s' = purges s"
  "set_endorsement_tickets_per_bootstrapper m n s = Inr s' \<Longrightarrow> purges s' = purges s"
  "set_endorsement_tickets_per_reputable m n s = Inr s' \<Longrightarrow> purges s' = purges s"
  "set_reputation_lifetime m n s = Inr s' \<Longrightarrow> purges s' = purges s"
  "set_meetup_time_offset m sch z s = Inr s' \<Longrightarrow> purges s' = purges s"
  "set_time_tolerance m n s = Inr s' \<Longrightarrow> purges s' = purges s"
  "set_location_tolerance m n s = Inr s' \<Longrightarrow> purges s' = purges s"
  by (auto simp: res_simps set_inactivity_timeout_def do_set_inactivity_timeout_def
      set_endorsement_tickets_per_bootstrapper_def set_endorsement_tickets_per_reputable_def
      set_reputation_lifetime_def set_meetup_time_offset_def set_time_tolerance_def set_location_tolerance_def
      split: if_splits)

section \<open>Calls\<close>

text \<open>
  The calls of the pallet while the scheduler stands still, each with the communities and balances it finds; other
  pallets may change the balances between the calls.
\<close>

inductive ceremonies_call :: "'sig ceremonies_config \<Rightarrow> scheduler \<Rightarrow> ceremonies \<times> balances \<Rightarrow> ceremonies \<times> balances \<Rightarrow> bool"
  for c sch where
  call_register: "register_participant c sch cm b a cid proof s = Inr s' \<Longrightarrow> ceremonies_call c sch (s, b) (s', b)"
| call_upgrade: "upgrade_registration c sch cm b a cid p s = Inr s' \<Longrightarrow> ceremonies_call c sch (s, b) (s', b)"
| call_unregister: "unregister_participant sch cm a cid maybe_cc s = Inr s' \<Longrightarrow> ceremonies_call c sch (s, b) (s', b)"
| call_attest: "attest_attendees c sch cm a cid vote atts s = Inr s' \<Longrightarrow> ceremonies_call c sch (s, b) (s', b)"
| call_endorse: "endorse_newcomer c sch cm b a cid newbie s = Inr s' \<Longrightarrow> ceremonies_call c sch (s, b) (s', b)"
| call_claim: "claim_rewards c sch cm a cid maybe s b = Inr (s', b') \<Longrightarrow> ceremonies_call c sch (s, b) (s', b')"
| call_inactivity: "set_inactivity_timeout m n s = Inr s' \<Longrightarrow> ceremonies_call c sch (s, b) (s', b)"
| call_per_bootstrapper:
    "set_endorsement_tickets_per_bootstrapper m n s = Inr s' \<Longrightarrow> ceremonies_call c sch (s, b) (s', b)"
| call_per_reputable: "set_endorsement_tickets_per_reputable m n s = Inr s' \<Longrightarrow> ceremonies_call c sch (s, b) (s', b)"
| call_lifetime: "set_reputation_lifetime m n s = Inr s' \<Longrightarrow> ceremonies_call c sch (s, b) (s', b)"
| call_offset: "set_meetup_time_offset m sch z s = Inr s' \<Longrightarrow> ceremonies_call c sch (s, b) (s', b)"
| call_time_tolerance: "set_time_tolerance m n s = Inr s' \<Longrightarrow> ceremonies_call c sch (s, b) (s', b)"
| call_location_tolerance: "set_location_tolerance m n s = Inr s' \<Longrightarrow> ceremonies_call c sch (s, b) (s', b)"
| call_elsewhere: "ceremonies_call c sch (s, b) (s, b')"
| call_purge: "purge_community_ceremony m cc s = Inr s' \<Longrightarrow> ceremonies_call c sch (s, b) (s', b)"

lemma purge_call_iff: "purge_community_ceremony m cc s = Inr s' \<longleftrightarrow> m \<and> s' = purge_community_ceremony_internal cc s"
  by (auto simp: purge_community_ceremony_def res_simps)

lemma ceremonies_call_ok:
  assumes "ceremonies_call c sch sb sb'" and "ceremonies_ok (fst sb)"
  shows "ceremonies_ok (fst sb')"
  using assms
proof cases
  case (call_register cm b a cid "proof" s s')
  then show ?thesis using assms(2) register_participant_ok(2) by auto
next
  case (call_upgrade cm b a cid p s s')
  then show ?thesis using assms(2) upgrade_registration_ok(2) by auto
next
  case (call_unregister cm a cid maybe_cc s s' b)
  then show ?thesis using assms(2) unregister_participant_ok(2) by auto
next
  case (call_attest cm a cid vote atts s s' b)
  then show ?thesis using assms(2) core_ok[OF attest_attendees_frame(1)[OF call_attest(3)]] by simp
next
  case (call_endorse cm b a cid newbie s s')
  then show ?thesis using assms(2) endorse_newcomer_ok(2) by auto
next
  case (call_claim cm a cid maybe s b s' b')
  then show ?thesis using assms(2) core_ok[OF claim_rewards_frame(1)[OF call_claim(3)]] by simp
next
  case (call_purge m cc s s' b)
  then show ?thesis using purge_internal_ok[of s cc] assms(2) by (simp add: purge_call_iff)
qed (use assms(2) core_ok in \<open>auto dest!: setter_frames simp: parameter_frame_def\<close>)

lemma purge_internal_purges [simp]: "purges (purge_community_ceremony_internal cc s) = purges s @ [cc]"
  by (simp add: purge_community_ceremony_internal_def purges_def ce_deposit_event_def map_filter_def)

lemma ceremonies_call_purges:
  assumes "ceremonies_call c sch sb sb'"
  shows "purges (fst sb') = purges (fst sb) \<or> (\<exists>cc. fst sb' = purge_community_ceremony_internal cc (fst sb))"
  using assms
  by cases (auto simp: purge_call_iff dest: register_participant_purges upgrade_registration_purges
      unregister_participant_purges attest_attendees_purges endorse_newcomer_purges claim_rewards_purges setter_purges)

lemma ceremonies_call_count:
  assumes "ceremonies_call c sch sb sb'"
  shows "purge_count cc (fst sb) \<le> purge_count cc (fst sb')"
  using ceremonies_call_purges[OF assms] by (auto simp: purge_count_def)

text \<open>
  The calls of one phase register and endorse for one ceremony; what was assigned for any other
  ceremony stays, unless it is purged.
\<close>

lemma registration_phase:
  "is_registering_or_attesting (sc_phase sch) \<Longrightarrow> registration_cindex sch = endorsement_cindex sch"
  by (cases "sc_phase sch") (simp_all add: registration_cindex_def endorsement_cindex_def is_registering_or_attesting_def)

lemma ceremonies_call_frozen:
  assumes "ceremonies_call c sch sb sb'" and "snd cc \<noteq> endorsement_cindex sch"
    and "purge_count cc (fst sb') = purge_count cc (fst sb)"
  shows "frozen cc (fst sb) (fst sb')"
  using assms(1)
proof cases
  case (call_register cm b a cid "proof" s s')
  then have "is_registering_or_attesting (sc_phase sch)" by (auto elim: register_participant_cases)
  then show ?thesis
    using frozen_frame[OF register_participant_ok(1)[OF call_register(3)], of cc] assms(2) registration_phase[of sch] call_register
    by auto
next
  case (call_upgrade cm b a cid p s s')
  then have "registration_cindex sch = endorsement_cindex sch"
    using upgrade_registration_ok(3)[OF call_upgrade(3)] by (simp add: registration_cindex_def endorsement_cindex_def)
  then show ?thesis
    using frozen_frame[OF upgrade_registration_ok(1)[OF call_upgrade(3)], of cc] assms(2) call_upgrade by auto
next
  case (call_unregister cm a cid maybe_cc s s' b)
  then have "registration_cindex sch = endorsement_cindex sch"
    using unregister_participant_ok(3)[OF call_unregister(3)] by (simp add: registration_cindex_def endorsement_cindex_def)
  then show ?thesis
    using frozen_frame[OF unregister_participant_ok(1)[OF call_unregister(3)], of cc] assms(2) call_unregister by auto
next
  case (call_attest cm a cid vote atts s s' b)
  then show ?thesis using frozen_core[OF attest_attendees_frame(1)[OF call_attest(3)]] by simp
next
  case (call_endorse cm b a cid newbie s s')
  then show ?thesis
    using frozen_frame[OF endorse_newcomer_ok(1)[OF call_endorse(3)], of cc] assms(2) by auto
next
  case (call_claim cm a cid maybe s b s' b')
  then show ?thesis using frozen_core[OF claim_rewards_frame(1)[OF call_claim(3)]] by simp
next
  case (call_purge m cc' s s' b)
  then have "cc \<noteq> cc'" using assms(3) by (simp add: purge_call_iff purge_count_def split: if_splits)
  then show ?thesis using purge_internal_other(3)[of cc cc' s] call_purge by (simp add: purge_call_iff)
qed (auto dest!: setter_frames intro: frozen_core simp: parameter_frame_def)

text \<open>Issued rewards stay issued.\<close>

lemma ceremonies_call_issued:
  assumes "ceremonies_call c sch sb sb'" and "issued_rewards (fst sb) cc k = Some res"
    and "purge_count cc (fst sb') = purge_count cc (fst sb)"
  shows "issued_rewards (fst sb') cc k = Some res"
proof -
  have eq: "issued_rewards s' = issued_rewards s" if "ce_issued_rewards s' = ce_issued_rewards s" for s' s
    using that by (simp add: issued_rewards_def fun_eq_iff)
  have frame: "registration_frame cc' s s' \<Longrightarrow> issued_rewards s' = issued_rewards s" for cc' s s'
    by (rule eq) (simp add: registration_frame_def)
  have par: "parameter_frame s s' \<Longrightarrow> issued_rewards s' = issued_rewards s" for s s'
    by (rule eq) (simp add: parameter_frame_def)
  show ?thesis using assms(1)
  proof cases
    case (call_register cm b a cid "proof" s s')
    then show ?thesis using frame[OF register_participant_ok(1)[OF call_register(3)]] assms(2) by simp
  next
    case (call_upgrade cm b a cid p s s')
    then show ?thesis using frame[OF upgrade_registration_ok(1)[OF call_upgrade(3)]] assms(2) by simp
  next
    case (call_unregister cm a cid maybe_cc s s' b)
    then show ?thesis using frame[OF unregister_participant_ok(1)[OF call_unregister(3)]] assms(2) by simp
  next
    case (call_attest cm a cid vote atts s s' b)
    then show ?thesis using eq[OF attest_attendees_frame(2)[OF call_attest(3)]] assms(2) by simp
  next
    case (call_endorse cm b a cid newbie s s')
    then show ?thesis using frame[OF endorse_newcomer_ok(1)[OF call_endorse(3)]] assms(2) by simp
  next
    case (call_claim cm a cid maybe s b s' b')
    then show ?thesis using claim_rewards_frame(2)[OF call_claim(3)] assms(2) by (cases cc) auto
  next
    case (call_purge m cc' s s' b)
    then have "cc \<noteq> cc'" using assms(3) by (simp add: purge_call_iff purge_count_def split: if_splits)
    then show ?thesis using call_purge assms(2) purge_internal_other(2)[of cc cc' s]
      by (simp add: purge_call_iff issued_rewards_def)
  qed (use assms(2) in \<open>auto dest!: setter_frames par\<close>)
qed

section \<open>Changes of phase\<close>

text \<open>What a clean-up does to reputations and rewards: it deletes those of the ceremonies it purges.\<close>

definition cleaned :: "CommunityCeremony list \<Rightarrow> ceremonies \<Rightarrow> ceremonies \<Rightarrow> bool" where
  "cleaned cs s s' \<longleftrightarrow> purges s' = purges s @ cs \<and> ce_reputation_lifetime s' = ce_reputation_lifetime s \<and>
     (\<forall>cc. ce_reputation s' cc = (if cc \<in> set cs then Map.empty else ce_reputation s cc) \<and>
        ce_issued_rewards s' cc = (if cc \<in> set cs then [] else ce_issued_rewards s cc))"

lemma cleaned_trans: "cleaned cs s s' \<Longrightarrow> cleaned cs' s' s'' \<Longrightarrow> cleaned (cs @ cs') s s''"
  by (auto simp: cleaned_def)

lemma cleaned_none:
  assumes "ce_events s' = ce_events s" and "ce_reputation_lifetime s' = ce_reputation_lifetime s"
    and "ce_reputation s' = ce_reputation s" and "ce_issued_rewards s' = ce_issued_rewards s"
  shows "cleaned [] s s'"
  using assms(2-4) purges_cong[OF assms(1)] by (simp add: cleaned_def)

lemma cleaned_refl: "cleaned [] s s"
  by (rule cleaned_none) simp_all

lemma cleaned_internal: "cleaned [cc] s (purge_community_ceremony_internal cc s)"
  by (auto simp: cleaned_def) (auto simp: purge_community_ceremony_internal_def dm_remove_prefix_def)

lemma cleaned_foldl: "cleaned (map f xs) s (foldl (\<lambda>s x. purge_community_ceremony_internal (f x) s) s xs)"
proof (induction xs arbitrary: s)
  case (Cons x xs)
  show ?case using cleaned_trans[OF cleaned_internal Cons.IH] by simp
qed (simp add: cleaned_refl)

lemma cleaned_counters:
  "update_inactivity_counters i n cids s = (inactives, s') \<Longrightarrow> cleaned [] s s'"
proof -
  assume upd: "update_inactivity_counters i n cids s = (inactives, s')"
  have "purges s' = purges s" using upd
  proof (induction cids arbitrary: s inactives)
    case (Cons cid cids)
    let ?touch = "\<lambda>n. ce_deposit_event (InactivityCounterUpdated cid n)
      (s\<lparr>ce_inactivity_counters := (ce_inactivity_counters s)(cid \<mapsto> n)\<rparr>)"
    consider (touched) m where "update_inactivity_counters i n cids (?touch m) = (inactives, s')"
      | (idle) xs where "update_inactivity_counters i n cids s = (xs, s')"
      using Cons.prems unfolding update_inactivity_counters.simps Let_def
      by (simp only: split: if_splits prod.splits) blast+
    then show ?case
    proof cases
      case (touched m)
      from Cons.IH[OF this] show ?thesis by simp
    next
      case (idle xs)
      from Cons.IH[OF this] show ?thesis .
    qed
  qed simp
  then show ?thesis using update_inactivity_frame[OF upd] by (simp add: cleaned_def)
qed

text \<open>The ceremonies of a community that a purge of the community deletes.\<close>

definition recent_ceremonies :: "scheduler \<Rightarrow> ceremonies \<Rightarrow> CommunityIdentifier \<Rightarrow> CommunityCeremony list" where
  "recent_ceremonies sch s cid =
     map (Pair cid) [saturating_sub (sc_ceremony_index sch) (ce_reputation_lifetime s)..<sc_ceremony_index sch + 1]"

lemma cleaned_community:
  assumes "ceremonies_purge_community sch cid (s, cm, b) = (s', cm', b')"
  shows "cleaned (recent_ceremonies sch s cid) s s'" and "remove_community cid cm b = (cm', b')"
proof -
  let ?s1 = "foldl (\<lambda>s cindex. purge_community_ceremony_internal (cid, cindex) s) s
    [saturating_sub (sc_ceremony_index sch) (ce_reputation_lifetime s)..<sc_ceremony_index sch + 1]"
  have "cleaned (recent_ceremonies sch s cid @ []) s
      (?s1\<lparr>ce_inactivity_counters := x, ce_burned_bootstrapper_tickets := y\<rparr>)" for x y
    unfolding recent_ceremonies_def by (rule cleaned_trans[OF cleaned_foldl cleaned_none]) simp_all
  then show "cleaned (recent_ceremonies sch s cid) s s'"
    using assms by (auto simp: ceremonies_purge_community_def Let_def)
  show "remove_community cid cm b = (cm', b')" using assms by (simp add: ceremonies_purge_community_def Let_def)
qed

lemma recent_ceremonies_cong:
  "cleaned cs s s' \<Longrightarrow> recent_ceremonies sch s' cid = recent_ceremonies sch s cid"
  by (simp add: recent_ceremonies_def cleaned_def)

lemma cleaned_communities:
  assumes "foldl (\<lambda>w cid. ceremonies_purge_community sch cid w) (s, cm, b) cids = (s', cm', b')"
  shows "cleaned (concat (map (recent_ceremonies sch s) cids)) s s'"
  using assms
proof (induction cids arbitrary: s cm b)
  case (Cons cid cids)
  obtain s1 cm1 b1 where one: "ceremonies_purge_community sch cid (s, cm, b) = (s1, cm1, b1)"
    by (cases "ceremonies_purge_community sch cid (s, cm, b)")
  note c = cleaned_community(1)[OF one]
  have "cleaned (concat (map (recent_ceremonies sch s1) cids)) s1 s'" using Cons one by simp
  moreover have "map (recent_ceremonies sch s1) cids = map (recent_ceremonies sch s) cids"
    using recent_ceremonies_cong[OF c] by simp
  ultimately show ?case using cleaned_trans[OF c] by simp
qed (simp add: cleaned_refl)

lemma cleaned_generate: "generate_all_loop c cm i cids r s = Some s' \<Longrightarrow> cleaned [] s s'"
proof (induction cids arbitrary: r s)
  case (Cons cid cids)
  obtain res r' where gen: "generate_meetup_assignment_params c cm (cid, i) r s = Some (res, r')"
    and rest: "generate_all_loop c cm i cids r' (case res of Inl e \<Rightarrow> s | Inr s1 \<Rightarrow> s1) = Some s'"
    using Cons.prems by (auto simp: bind_eq_Some_conv)
  have "cleaned [] s (case res of Inl e \<Rightarrow> s | Inr s1 \<Rightarrow> s1)"
  proof (cases res)
    case (Inr s1)
    then have "generate_meetup_assignment_params c cm (cid, i) r s = Some (Inr s1, r')" using gen by simp
    then have "cleaned [] s s1" by (rule generate_meetup_assignment_cases) (simp_all add: cleaned_refl cleaned_none)
    then show ?thesis using Inr by simp
  qed (simp add: cleaned_refl)
  then show ?case using cleaned_trans[OF _ Cons.IH[OF rest]] by fastforce
qed (simp add: cleaned_refl)

lemma remove_community_identifiers:
  "cm_community_identifiers (fst (remove_community cid cm b)) = filter (\<lambda>x. x \<noteq> cid) (cm_community_identifiers cm)"
proof -
  have intern: "cm_community_identifiers (remove_location_intern cid l g s) = cm_community_identifiers s" for l g s
    by (simp add: remove_location_intern_def insert_locations_def insert_cids_by_geohash_def Let_def split: sum.split)
  have "cm_community_identifiers (fold (\<lambda>l. remove_location_intern cid l g) ls s) = cm_community_identifiers s" for g ls s
    by (induction ls arbitrary: s) (simp_all add: intern)
  then have "cm_community_identifiers (fold (\<lambda>(g, ls). fold (\<lambda>l. remove_location_intern cid l g) ls) xs s) =
      cm_community_identifiers s" for xs s
    by (induction xs arbitrary: s) auto
  then show ?thesis by (simp add: remove_community_def remove_all_locations_def Let_def cm_deposit_event_def)
qed

lemma purged_identifiers:
  "foldl (\<lambda>w cid. ceremonies_purge_community sch cid w) (s, cm, b) cids = (s', cm', b') \<Longrightarrow>
     cm_community_identifiers cm' = filter (\<lambda>x. x \<notin> set cids) (cm_community_identifiers cm)"
proof (induction cids arbitrary: s cm b)
  case (Cons cid cids)
  obtain s1 cm1 b1 where one: "ceremonies_purge_community sch cid (s, cm, b) = (s1, cm1, b1)"
    by (cases "ceremonies_purge_community sch cid (s, cm, b)")
  have "cm_community_identifiers cm1 = filter (\<lambda>x. x \<noteq> cid) (cm_community_identifiers cm)"
    using cleaned_community(2)[OF one] remove_community_identifiers[of cid cm b] by simp
  then show ?case using Cons.IH[of s1 cm1 b1] Cons.prems one by (simp add: conj_commute)
qed simp

text \<open>A community is inactive when its last ceremony issued no rewards and its counter has reached the timeout.\<close>

definition inactive_community :: "scheduler \<Rightarrow> ceremonies \<Rightarrow> CommunityIdentifier \<Rightarrow> bool" where
  "inactive_community sch s cid \<longleftrightarrow>
     ce_issued_rewards s (cid, saturating_sub (sc_ceremony_index sch) 1) = [] \<and>
     ce_inactivity_timeout s \<le> value_query 0 (ce_inactivity_counters s cid)"

lemma inactives_filter:
  assumes "update_inactivity_counters i n cids s = (inactives, s')" and "distinct cids"
  shows "inactives = filter (\<lambda>cid. ce_issued_rewards s (cid, i) = [] \<and> n \<le> value_query 0 (ce_inactivity_counters s cid)) cids"
  using assms
proof (induction cids arbitrary: s inactives)
  case (Cons cid cids)
  let ?idle = "\<lambda>s cid. ce_issued_rewards s (cid, i) = [] \<and> n \<le> value_query 0 (ce_inactivity_counters s cid)"
  let ?touch = "\<lambda>m. ce_deposit_event (InactivityCounterUpdated cid m)
      (s\<lparr>ce_inactivity_counters := (ce_inactivity_counters s)(cid \<mapsto> m)\<rparr>)"
  have same: "filter (?idle (?touch m)) cids = filter (?idle s) cids" for m
    using Cons.prems(2) by (intro filter_cong) (auto simp: ce_deposit_event_def)
  consider (touched) m where "update_inactivity_counters i n cids (?touch m) = (inactives, s')" "\<not> ?idle s cid"
    | (idle) xs where "update_inactivity_counters i n cids s = (xs, s')" "inactives = cid # xs" "?idle s cid"
    using Cons.prems(1) unfolding update_inactivity_counters.simps Let_def
    by (simp only: split: if_splits prod.splits) (metis linorder_not_le Pair_inject)+
  then show ?case
  proof cases
    case (touched m)
    from Cons.IH[OF touched(1)] Cons.prems(2) touched(2) show ?thesis unfolding same by simp
  next
    case (idle xs)
    from Cons.IH[OF idle(1)] Cons.prems(2) idle(2,3) show ?thesis by simp
  qed
qed simp

text \<open>What a change of phase cleans up, and which communities it purges.\<close>

lemma phase_change_cleaned:
  assumes "on_ceremony_phase_change c seed sch ph (s, cm, b) = Some (s', cm', b')"
  obtains (attesting) "ph = Attesting" "s' = s" "cm' = cm"
  | (registering) "ph = Registering" "cm' = cm" "cleaned (if ce_reputation_lifetime s < sc_ceremony_index sch
        then map (\<lambda>cid. (cid, sc_ceremony_index sch - ce_reputation_lifetime s - 1)) (cm_community_identifiers cm) else []) s s'"
  | (assigning) inactives where "ph = Assigning" "cleaned (concat (map (recent_ceremonies sch s) inactives)) s s'"
      "cm_community_identifiers cm' = filter (\<lambda>x. x \<notin> set inactives) (cm_community_identifiers cm)"
      "distinct (cm_community_identifiers cm) \<Longrightarrow> inactives = filter (inactive_community sch s) (cm_community_identifiers cm)"
proof (cases ph)
  case Registering
  have "cleaned (if ce_reputation_lifetime s < sc_ceremony_index sch
        then map (\<lambda>cid. (cid, sc_ceremony_index sch - ce_reputation_lifetime s - 1)) (cm_community_identifiers cm) else []) s s'"
    using assms Registering cleaned_foldl[of "\<lambda>cid. (cid, sc_ceremony_index sch - ce_reputation_lifetime s - 1)"
        "cm_community_identifiers cm" s] cleaned_refl
    by (auto simp: on_ceremony_phase_change_def Let_def purge_registry_def saturating_sub_def split: if_splits)
  then show ?thesis using registering[OF Registering] assms Registering
    by (simp add: on_ceremony_phase_change_def Let_def split: if_splits)
next
  case Assigning
  let ?i = "saturating_sub (sc_ceremony_index sch) 1"
  obtain inactives s1 where upd: "update_inactivity_counters ?i (ce_inactivity_timeout s) (cm_community_identifiers cm) s =
      (inactives, s1)" by fastforce
  obtain s2 cm2 b2 where purged: "foldl (\<lambda>w cid. ceremonies_purge_community sch cid w) (s1, cm, b) inactives = (s2, cm2, b2)"
    by (cases "foldl (\<lambda>w cid. ceremonies_purge_community sch cid w) (s1, cm, b) inactives")
  then have rest: "generate_all_loop c cm2 (sc_ceremony_index sch) (cm_community_identifiers cm2) (rng_new seed) s2 = Some s'" "cm' = cm2"
    using assms Assigning upd by (auto simp: on_ceremony_phase_change_def generate_all_meetup_assignment_params_def)
  note c1 = cleaned_counters[OF upd]
  have "recent_ceremonies sch s1 = recent_ceremonies sch s" using recent_ceremonies_cong[OF c1] by blast
  then have "cleaned (concat (map (recent_ceremonies sch s) inactives)) s s'"
    using cleaned_trans[OF cleaned_trans[OF c1 cleaned_communities[OF purged]] cleaned_generate[OF rest(1)]] by simp
  moreover have "inactives = filter (inactive_community sch s) (cm_community_identifiers cm)" if "distinct (cm_community_identifiers cm)"
    using inactives_filter[OF upd that] by (simp add: inactive_community_def[abs_def])
  ultimately show ?thesis using assigning[OF Assigning] purged_identifiers[OF purged] rest(2) by simp
next
  case Attesting
  then show ?thesis using attesting assms by (auto simp: on_ceremony_phase_change_def)
qed

lemma phase_change_cleans:
  assumes "on_ceremony_phase_change c seed sch ph (s, cm, b) = Some (s', cm', b')"
  shows "\<exists>cs. cleaned cs s s'"
  using assms by (cases rule: phase_change_cleaned) (auto intro: cleaned_refl)

section \<open>Runs\<close>

text \<open>Calls and changes of phase, at scheduler states that satisfy a condition.\<close>

inductive ceremonies_run ::
  "'sig ceremonies_config \<Rightarrow> (scheduler \<Rightarrow> bool) \<Rightarrow> ceremonies \<times> balances \<Rightarrow> ceremonies \<times> balances \<Rightarrow> bool"
  for c :: "'sig ceremonies_config" and P where
  run_call: "P sch \<Longrightarrow> ceremonies_call c sch x y \<Longrightarrow> ceremonies_run c P x y"
| run_phase: "P sch \<Longrightarrow> on_ceremony_phase_change c seed sch ph (s, cm, b) = Some (s', cm', b') \<Longrightarrow>
    ceremonies_run c P (s, b) (s', b')"

lemma cleaned_count: "cleaned cs s s' \<Longrightarrow> purge_count cc s' = purge_count cc s + count_list cs cc"
  by (simp add: cleaned_def purge_count_def)

lemma ceremonies_run_count: "ceremonies_run c P x y \<Longrightarrow> purge_count cc (fst x) \<le> purge_count cc (fst y)"
  by (auto elim!: ceremonies_run.cases dest!: phase_change_cleans cleaned_count[of _ _ _ cc] dest: ceremonies_call_count)

lemma ceremonies_run_issued:
  assumes "ceremonies_run c P x y" and "issued_rewards (fst x) cc k = Some res" and "purge_count cc (fst y) = purge_count cc (fst x)"
  shows "issued_rewards (fst y) cc k = Some res"
  using assms(1)
proof cases
  case (run_call sch)
  then show ?thesis using ceremonies_call_issued assms(2,3) by blast
next
  case (run_phase sch seed ph s cm b s' cm' b')
  obtain cs where cs: "cleaned cs s s'" using phase_change_cleans[OF run_phase(4)] by blast
  then have "cc \<notin> set cs" using cleaned_count[OF cs, of cc] assms(3) run_phase(1,2) by (simp add: count_list_0_iff)
  then have "ce_issued_rewards s' cc = ce_issued_rewards s cc" using cs by (cases cc) (simp add: cleaned_def)
  then show ?thesis using assms(2) run_phase(1,2) by (simp add: issued_rewards_def)
qed

text \<open>Over a whole run, equal counts at the ends mean equal counts at every step.\<close>

lemma runs_count: "(ceremonies_run c P)\<^sup>*\<^sup>* x y \<Longrightarrow> purge_count cc (fst x) \<le> purge_count cc (fst y)"
  by (induction rule: rtranclp_induct) (auto dest: ceremonies_run_count[of _ _ _ _ cc] intro: le_trans)

lemma runs_issued:
  assumes "(ceremonies_run c P)\<^sup>*\<^sup>* x y" and "issued_rewards (fst x) cc k = Some res"
    and "purge_count cc (fst y) = purge_count cc (fst x)"
  shows "issued_rewards (fst y) cc k = Some res"
  using assms(1,3)
proof (induction rule: rtranclp_induct)
  case (step y z)
  have "purge_count cc (fst y) = purge_count cc (fst x)" "purge_count cc (fst z) = purge_count cc (fst y)"
    using runs_count[OF step(1), of cc] ceremonies_run_count[OF step(2), of cc] step(4) by linarith+
  then show ?case using step ceremonies_run_issued by blast
qed (use assms(2) in simp)

lemma calls_frozen:
  assumes "(ceremonies_call c sch)\<^sup>*\<^sup>* x y" and "snd cc \<noteq> endorsement_cindex sch"
    and "purge_count cc (fst y) = purge_count cc (fst x)"
  shows "frozen cc (fst x) (fst y)"
  using assms(1,3)
proof (induction rule: rtranclp_induct)
  case base
  then show ?case by (simp add: frozen_def)
next
  case (step y z)
  have "purge_count cc (fst x) \<le> purge_count cc (fst y)" using step(1)
    by (induction rule: rtranclp_induct) (auto dest: ceremonies_call_count[of _ _ _ _ cc] intro: le_trans)
  then have "purge_count cc (fst y) = purge_count cc (fst x)" "purge_count cc (fst z) = purge_count cc (fst y)"
    using ceremonies_call_count[OF step(2), of cc] step(4) by linarith+
  then show ?case using step ceremonies_call_frozen[OF step(2) assms(2)] frozen_trans by blast
qed

section \<open>Reputations\<close>

text \<open>What a call does to the reputations of an account.\<close>

definition reputations_of :: "ceremonies \<Rightarrow> AccountId \<Rightarrow> CommunityCeremony \<Rightarrow> Reputation option" where
  "reputations_of s a = (\<lambda>cc. ce_reputation s cc a)"

lemma issue_loop_reputations:
  assumes "issue_loop bc cc reward ps is (s, b, n) = Inr (s', b', n')" and "\<And>i. i \<in> set is \<Longrightarrow> vec_get ps i \<noteq> Some a"
  shows "reputations_of s' a = reputations_of s a"
  using assms
proof (induction "is" arbitrary: s b n)
  case (Cons i "is")
  obtain p where p: "vec_get ps i = Some p" "p \<noteq> a" using Cons.prems by (fastforce simp: res_simps)
  obtain res b1 where iss: "issue bc (fst cc) p reward b = (res, b1)" by fastforce
  have "reputations_of (put_reputation cc p VerifiedUnlinked s) a = reputations_of s a"
    using p(2) by (simp add: reputations_of_def fun_eq_iff dm_insert_apply)
  then show ?case using Cons.prems Cons.IH p iss by (auto simp: res_simps split: if_splits)
qed simp

lemma register_reputations:
  assumes "register_participant c sch cm b sender cid proof s = Inr s'" and "a \<noteq> sender"
    and "\<And>p. proof = Some p \<Longrightarrow> attendee_public p \<noteq> a"
  shows "reputations_of s' a = reputations_of s a"
proof -
  obtain s1 t s2 where s1: "(case proof of Some p \<Rightarrow> link_reputation c cm (cid, registration_cindex sch) sender p s | None \<Rightarrow> Inr s) = Inr s1"
    and s2: "register c cm b (cid, registration_cindex sch) sender (proof \<noteq> None) s1 = Inr (t, s2)"
    and s': "s' = ce_deposit_event (ParticipantRegistered cid t sender) s2"
    using assms(1) by (auto simp: register_participant_def Let_def res_simps split: if_splits)
  have "reputations_of s1 a = reputations_of s a"
  proof (cases "proof")
    case (Some p)
    then show ?thesis using s1 link_reputation_cases(5)[of c cm "(cid, registration_cindex sch)" sender p s s1] assms(2) assms(3)[OF Some]
      by (simp add: reputations_of_def fun_eq_iff dm_insert_apply)
  qed (use s1 in simp)
  then show ?thesis using register_ok(3)[OF s2] by (simp add: s' reputations_of_def)
qed

lemma upgrade_reputations:
  assumes "upgrade_registration c sch cm b sender cid p s = Inr s'" and "a \<noteq> sender" and "attendee_public p \<noteq> a"
  shows "reputations_of s' a = reputations_of s a"
proof -
  obtain s1 where s1: "remove_participant_from_registry sch (cid, registration_cindex sch) sender s = Inr s1"
    "register_participant c sch cm b sender cid (Some p) s1 = Inr s'"
    using assms(1) by (auto simp: upgrade_registration_def Let_def res_simps split: if_splits)
  have "reputations_of s1 a = reputations_of s a"
    using remove_participant_ok(3)[OF s1(1)] by (simp add: reputations_of_def)
  then show ?thesis using register_reputations[OF s1(2) assms(2)] assms(3) by simp
qed

lemma claim_reputations:
  assumes "claim_rewards c sch cm sender cid maybe s b = Inr (s', b')" and "claimed_meetup sch sender cid maybe s = Inr (i, k)"
    and "get_meetup_participants (cid, i) k s = Inr ps"
  shows "cc \<noteq> (cid, i) \<or> a \<notin> set ps \<Longrightarrow> ce_reputation s' cc a = ce_reputation s cc a"
  using assms(1)
proof (cases rule: claim_rewards_cases)
  case (paid i' k' ps' pj s1)
  then have same: "i' = i" "k' = k" "ps' = ps" using assms(2,3) by auto
  assume other: "cc \<noteq> (cid, i) \<or> a \<notin> set ps"
  have loop: "ce_reputation t' cc a = ce_reputation t cc a"
    if "issue_loop bc (cid, i) reward ps is (t, d, n) = Inr (t', d', n')" for bc reward "is" t d n t' d' n'
    using that
  proof (induction "is" arbitrary: t d n)
    case (Cons j "is")
    obtain p where p: "vec_get ps j = Some p" using Cons.prems by (fastforce simp: res_simps)
    then have "p \<in> set ps" by (auto simp: vec_get_def split: if_splits)
    then have "ce_reputation (put_reputation (cid, i) p VerifiedUnlinked t) cc a = ce_reputation t cc a"
      using other by (auto simp: dm_insert_apply)
    moreover obtain res d1 where "issue bc cid p reward d = (res, d1)" by fastforce
    ultimately show ?case using Cons p by (auto simp: res_simps split: if_splits)
  qed simp
  from paid(6) show ?thesis unfolding same
  proof (rule issue_rewards_cases)
    fix s2 n assume "issue_loop (cec_balances c) (cid, i) (nominal_income cm (fst (cid, i)) s1) ps (pj_legit pj) (s1, b, 0) = Inr (s2, b', n)"
      "ce_reputation s' = ce_reputation s2"
    then show ?thesis using loop emit_no_rewards_frame[OF paid(5)] by simp
  qed
qed simp

section \<open>Linked attendances\<close>

text \<open>
  How an attendance that is linked for a ceremony becomes free again: the attendee withdraws a registration of its
  own naming it, the rewards of the meetup it comes from are claimed, or its ceremony is purged.
\<close>

definition attendance_freed ::
  "'sig ceremonies_config \<Rightarrow> CommunityCeremony \<Rightarrow> AccountId \<Rightarrow> ceremonies \<times> balances \<Rightarrow> ceremonies \<times> balances \<Rightarrow> bool" where
  "attendance_freed c cc a x y \<longleftrightarrow>
     (\<exists>sch cm cid. unregister_participant sch cm a cid (Some cc) (fst x) = Inr (fst y)) \<or>
     (\<exists>sch cm sender maybe k ps. claim_rewards c sch cm sender (fst cc) maybe (fst x) (snd x) = Inr y \<and>
        claimed_meetup sch sender (fst cc) maybe (fst x) = Inr (snd cc, k) \<and>
        get_meetup_participants cc k (fst x) = Inr ps \<and> a \<in> set ps) \<or>
     purge_count cc (fst y) \<noteq> purge_count cc (fst x)"

definition linked_for :: "nat \<Rightarrow> CommunityCeremony \<Rightarrow> AccountId \<Rightarrow> ceremonies \<Rightarrow> bool" where
  "linked_for i cc a s \<longleftrightarrow> ce_reputation s cc a = Some (VerifiedLinked i)"

lemma linked_cong: "ce_reputation s' = ce_reputation s \<Longrightarrow> linked_for i cc a s' = linked_for i cc a s"
  by (simp add: linked_for_def)

lemma register_keeps_link:
  assumes "register_participant c sch cm b sender cid proof s = Inr s'" and "linked_for (registration_cindex sch) cc a s"
    and "snd cc \<noteq> registration_cindex sch"
  shows "linked_for (registration_cindex sch) cc a s'"
    and "proof = Some p \<Longrightarrow> \<not> ((pa_community_identifier p, pa_ceremony_index p) = cc \<and> attendee_public p = a)"
proof -
  let ?i = "registration_cindex sch"
  obtain s1 t s2 where link: "(case proof of Some p \<Rightarrow> link_reputation c cm (cid, ?i) sender p s | None \<Rightarrow> Inr s) = Inr s1"
    and reg: "register c cm b (cid, ?i) sender (proof \<noteq> None) s1 = Inr (t, s2)"
    and s': "s' = ce_deposit_event (ParticipantRegistered cid t sender) s2"
    using assms(1) by (rule register_participant_cases)
  have p: "\<not> ((pa_community_identifier p, pa_ceremony_index p) = cc \<and> attendee_public p = a) \<and> linked_for ?i cc a s1"
    if "proof = Some p" for p
  proof -
    have l: "link_reputation c cm (cid, ?i) sender p s = Inr s1" using link that by simp
    have other: "\<not> ((pa_community_identifier p, pa_ceremony_index p) = cc \<and> attendee_public p = a)"
      using link_reputation_cases(4)[OF l] assms(2) by (auto simp: participant_reputation_def linked_for_def value_query_def)
    then show ?thesis using link_reputation_cases(5)[OF l] assms(2,3)
      by (auto simp: linked_for_def dm_insert_apply)
  qed
  then show "proof = Some p \<Longrightarrow> \<not> ((pa_community_identifier p, pa_ceremony_index p) = cc \<and> attendee_public p = a)" by blast
  have "linked_for ?i cc a s1" using p link assms(2) by (cases "proof") auto
  then show "linked_for ?i cc a s'" using register_ok(3)[OF reg] by (simp add: s' linked_for_def)
qed

lemma upgrade_keeps_link:
  assumes "upgrade_registration c sch cm b sender cid p s = Inr s'" and "linked_for (registration_cindex sch) cc a s"
    and "snd cc \<noteq> registration_cindex sch"
  shows "linked_for (registration_cindex sch) cc a s'"
    and "\<not> ((pa_community_identifier p, pa_ceremony_index p) = cc \<and> attendee_public p = a)"
proof -
  obtain s1 where s1: "remove_participant_from_registry sch (cid, registration_cindex sch) sender s = Inr s1"
    "register_participant c sch cm b sender cid (Some p) s1 = Inr s'"
    using assms(1) by (auto simp: upgrade_registration_def Let_def res_simps split: if_splits)
  have "linked_for (registration_cindex sch) cc a s1" using linked_cong[OF remove_participant_ok(3)[OF s1(1)]] assms(2) by simp
  from register_keeps_link[OF s1(2) this assms(3)]
  show "linked_for (registration_cindex sch) cc a s'"
    and "\<not> ((pa_community_identifier p, pa_ceremony_index p) = cc \<and> attendee_public p = a)" by blast+
qed

lemma unregister_keeps_link:
  assumes "unregister_participant sch cm sender cid maybe_cc s = Inr s'" and "linked_for (registration_cindex sch) cc a s"
    and "snd cc \<noteq> registration_cindex sch" and "sender = a \<Longrightarrow> maybe_cc \<noteq> Some cc"
  shows "linked_for (registration_cindex sch) cc a s'"
proof -
  obtain s1 t where s1: "(if t = Reputable \<or> t = Bootstrapper
      then unlink_reputation (cid, registration_cindex sch) sender t maybe_cc s else Inr s) = Inr s1"
    and rem: "remove_participant_from_registry sch (cid, registration_cindex sch) sender s1 = Inr s'"
    using assms(1) unfolding unregister_participant_def Let_def by (auto simp only: res_simps)
  have "linked_for (registration_cindex sch) cc a s1"
    using s1 unlink_reputation_cases[of "(cid, registration_cindex sch)" sender t maybe_cc s s1] assms(2-4)
    by (auto simp: linked_for_def dm_insert_apply dm_remove_apply split: if_splits)
  then show ?thesis using linked_cong[OF remove_participant_ok(3)[OF rem]] by simp
qed

lemma call_keeps_link:
  assumes "ceremonies_call c sch x y" and "linked_for (registration_cindex sch) cc a (fst x)"
    and "snd cc \<noteq> registration_cindex sch" and "\<not> attendance_freed c cc a x y"
  shows "linked_for (registration_cindex sch) cc a (fst y)"
  using assms(1)
proof cases
  case (call_register cm b sender cid "proof" s s')
  then show ?thesis using register_keeps_link(1)[OF call_register(3)] assms(2,3) by simp
next
  case (call_upgrade cm b sender cid p s s')
  then show ?thesis using upgrade_keeps_link(1)[OF call_upgrade(3)] assms(2,3) by simp
next
  case (call_unregister cm sender cid maybe_cc s s' b)
  have "maybe_cc \<noteq> Some cc" if "sender = a" using call_unregister assms(4) that by (auto simp: attendance_freed_def)
  then show ?thesis using unregister_keeps_link[OF call_unregister(3)] assms(2,3) call_unregister(1,2) by simp
next
  case (call_claim cm sender cid maybe s b s' b')
  obtain i k ps where claimed: "claimed_meetup sch sender cid maybe s = Inr (i, k)" "get_meetup_participants (cid, i) k s = Inr ps"
    using call_claim(3) by (rule claim_rewards_cases) blast+
  have "cc \<noteq> (cid, i) \<or> a \<notin> set ps" using assms(4) call_claim claimed by (auto simp: attendance_freed_def)
  then show ?thesis using claim_reputations[OF call_claim(3) claimed] assms(2) call_claim(1,2) by (simp add: linked_for_def)
next
  case (call_purge m cc' s s' b)
  then have "cc' \<noteq> cc" using assms(4) by (auto simp: attendance_freed_def purge_call_iff purge_count_def)
  then show ?thesis using call_purge assms(2) purge_internal_other(1)[of cc cc' s] by (simp add: purge_call_iff linked_for_def)
next
  case (call_attest cm sender cid vote atts s s' b)
  then show ?thesis using linked_cong[OF attest_attendees_frame(3)[OF call_attest(3)]] assms(2) by simp
next
  case (call_endorse cm b sender cid newbie s s')
  then show ?thesis using linked_cong[OF endorse_newcomer_purges(2)[OF call_endorse(3)]] assms(2) by simp
qed (use assms(2) in \<open>auto dest!: setter_frames simp: parameter_frame_def linked_for_def\<close>)

lemma run_keeps_link:
  assumes "ceremonies_run c (\<lambda>sch. registration_cindex sch = i) x y" and "linked_for i cc a (fst x)" and "snd cc \<noteq> i"
    and "\<not> attendance_freed c cc a x y"
  shows "linked_for i cc a (fst y)"
  using assms(1)
proof cases
  case (run_call sch)
  then show ?thesis using call_keeps_link assms(2-4) by blast
next
  case (run_phase sch seed ph s cm b s' cm' b')
  obtain cs where cs: "cleaned cs s s'" using phase_change_cleans[OF run_phase(4)] by blast
  then have "cc \<notin> set cs" using cleaned_count[OF cs, of cc] assms(4) run_phase(1,2)
    by (simp add: count_list_0_iff attendance_freed_def)
  then have "ce_reputation s' cc = ce_reputation s cc" using cs by (cases cc) (simp add: cleaned_def)
  then show ?thesis using assms(2) run_phase(1,2) by (simp add: linked_for_def)
qed

lemma runs_keep_link:
  assumes "(\<lambda>x y. ceremonies_run c (\<lambda>sch. registration_cindex sch = i) x y \<and> \<not> attendance_freed c cc a x y)\<^sup>*\<^sup>* x y"
    and "linked_for i cc a (fst x)" and "snd cc \<noteq> i"
  shows "linked_for i cc a (fst y)"
  using assms(1) by (induction rule: rtranclp_induct) (use assms(2,3) run_keeps_link in blast)+

end
