(* ===== verification/Ceremony_Properties.thy ===== *)
theory Ceremony_Properties
  imports Ceremony_Scenario Ceremony_Runs
begin

text \<open>
  The properties of the ceremonies pallet: who meets whom, that rewards are paid once, what
  reputation is good for, and how many participants are admitted. Those about sequences of calls
  and changes of phase rest on the runs of \<open>Ceremony_Runs\<close>, in which the ceremony master may purge.
\<close>

section \<open>Meetups\<close>

text \<open>C14: The two views of an assignment agree. Once the meetups of a ceremony are generated, an account
  is told a meetup exactly if it is among that meetup's participants, every meetup up to the count
  has its list of participants, and nobody is listed twice.\<close>

theorem meetup_membership_agrees:
  assumes "ceremonies_ok s" and "ce_meetup_count s cc = None" and "ce_assignment_counts s cc = None"
    and "registry_count (ce_bootstrapper s) cc + registry_count (ce_reputable s) cc +
      registry_count (ce_endorsee s) cc + registry_count (ce_newbie s) cc < 2 ^ 18"
    and "0 < cec_meetup_min_size c"
    and "generate_meetup_assignment_params c cm cc r s = Some (Inr s', r')"
  shows "(get_meetup_index cc a s' = Some k \<longleftrightarrow> (\<exists>ps. get_meetup_participants cc k s' = Inr ps \<and> a \<in> set ps)) \<and>
    (1 \<le> k \<and> k \<le> meetup_count s' cc \<longleftrightarrow> (\<exists>ps. get_meetup_participants cc k s' = Inr ps \<and> distinct ps))"
  using assms(6)
proof (cases rule: generate_meetup_assignment_cases)
  case (too_few allowance)
  then have "meetup_count s' cc = 0" "assignment_counts s' cc = default_count"
    using assms(2,3) by (simp_all add: meetup_count_def assignment_counts_def)
  then have "get_meetup_participants cc k s' = Inl InvalidMeetupIndex" "get_meetup_index cc a s' = None"
    by (auto simp: get_meetup_participants_def get_meetup_index_def type_slot_def default_count_def Let_def
        split: ParticipantType.splits bind_splits)
  then show ?thesis using \<open>meetup_count s' cc = 0\<close> by simp
next
  case (assigned allowance n asg)
  then have "0 < get_number_of_participants allowance" using assms(5) by linarith
  with assigned have st: "assigned_state s' cc" using generated_assigned_state[OF assms(1,4)] by simp
  show ?thesis
  proof (cases "1 \<le> k \<and> k \<le> meetup_count s' cc")
    case True
    then obtain ps where "get_meetup_participants cc k s' = Inr ps" "distinct ps" "set ps = meetup_members s' cc (k - 1)"
      using participants_spec[OF st, of k] by blast
    then show ?thesis using True index_spec[OF st, of a k] by simp
  next
    case False
    then have "get_meetup_participants cc k s' = Inl InvalidMeetupIndex"
      by (auto simp: get_meetup_participants_def Let_def)
    moreover have "get_meetup_index cc a s' \<noteq> Some k" using False index_spec[OF st, of a k] by blast
    ultimately show ?thesis using False by simp
  qed
qed

theorem meetup_membership_agrees_witness:
  "get_meetup_participants small_cc 1 three_assigned = Inr [4, 2, 3] \<and> get_meetup_index small_cc 2 three_assigned = Some 1"
proof -
  have "ce_meetup_count three_registered small_cc = None" "ce_assignment_counts three_registered small_cc = None"
    "0 < cec_meetup_min_size small_config" by (simp_all add: scenario_defs)
  from meetup_membership_agrees[OF three_registered_ok this(1,2) _ this(3) three_generated, of 2 1] show ?thesis
    unfolding three_counts using three_meet by simp
qed

text \<open>C15: Meetups are not changed under way. In the phases in which a ceremony's attestations and
  rewards are accepted, no sequence of calls changes who meets whom at that ceremony, whoever
  registers, upgrades, unregisters or endorses meanwhile, unless the ceremony master purges that
  very ceremony in between.\<close>

theorem meetups_frozen:
  assumes "(ceremonies_call c sch)\<^sup>*\<^sup>* (s, b) (s', b')" and "claim_cindex sch = Inr i"
    and "0 < sc_ceremony_index sch" and "sc_ceremony_index sch + 1 < 2 ^ 32"
    and "purge_count (cid, i) s' = purge_count (cid, i) s"
  shows "get_meetup_participants (cid, i) k s' = get_meetup_participants (cid, i) k s \<and>
    get_meetup_index (cid, i) a s' = get_meetup_index (cid, i) a s"
proof -
  have "i \<noteq> endorsement_cindex sch"
    using assms(2-4) by (auto simp: claim_cindex_def endorsement_cindex_def saturating_sub_def wrapping_add_exact
        split: CeremonyPhaseType.splits)
  then have "frozen (cid, i) s s'" using calls_frozen[OF assms(1), of "(cid, i)"] assms(5) by simp
  then show ?thesis using frozen_meetups by simp
qed

theorem meetups_frozen_witness:
  "\<exists>s b. claim_rewards small_config (clock 4 Attesting) small_communities 2 demo_cid (Some 1) three_attested (balances_genesis 1) =
     Inr (s, b) \<and> get_meetup_participants small_cc 1 s = Inr [4, 2, 3]"
proof -
  obtain s b where sb: "claim_rewards small_config (clock 4 Attesting) small_communities 2 demo_cid (Some 1) three_attested
      (balances_genesis 1) = Inr (s, b)" using three_rewarded by blast
  have "claim_cindex (clock 4 Attesting) = Inr 4" "0 < sc_ceremony_index (clock 4 Attesting)"
    "sc_ceremony_index (clock 4 Attesting) + 1 < 2 ^ 32" by (simp_all add: claim_cindex_def scenario_defs)
  moreover have "purge_count small_cc s = purge_count small_cc three_attested"
    using claim_rewards_purges[OF sb] by (simp add: purge_count_def)
  ultimately show ?thesis
    using meetups_frozen[OF r_into_rtranclp[where r = "ceremonies_call _ _", OF call_claim[OF sb]], of 4 demo_cid 1] sb attested_meet
    by auto
qed

section \<open>Rewards\<close>

text \<open>C5: Rewards are issued once: after a successful claim for a meetup every further claim for it
  fails, whatever calls are made and however often the phase changes in between, as long as
  its ceremony is not purged: by the ceremony master, with its community, or when its reputations have expired.\<close>

theorem rewards_issued_once:
  assumes "claim_rewards c sch cm a cid maybe s b = Inr (s1, b1)" and "claimed_meetup sch a cid maybe s = Inr (i, k)"
    and "(ceremonies_run c (\<lambda>_. True))\<^sup>*\<^sup>* (s1, b1) (s2, b2)" and "purge_count (cid, i) s2 = purge_count (cid, i) s1"
    and "claimed_meetup sch' a' cid maybe' s2 = Inr (i, k)"
  shows "claim_rewards c sch' cm' a' cid maybe' s2 b2 = Inl RewardsAlreadyIssued"
proof -
  obtain res where "issued_rewards s1 (cid, i) k = Some res"
    using claim_rewards_frame(2)[OF assms(1)] assms(2) by auto
  then have "issued_rewards s2 (cid, i) k = Some res" using runs_issued[OF assms(3), of "(cid, i)" k res] assms(4) by simp
  then show ?thesis by (simp add: claim_rewards_eq assms(5))
qed

theorem rewards_issued_once_witness:
  "\<exists>s b. claim_rewards small_config (clock 4 Attesting) small_communities 2 demo_cid (Some 1) three_attested (balances_genesis 1) =
     Inr (s, b) \<and>
     claim_rewards small_config (clock 4 Attesting) small_communities 3 demo_cid (Some 1) s b = Inl RewardsAlreadyIssued"
proof -
  obtain s b where sb: "claim_rewards small_config (clock 4 Attesting) small_communities 2 demo_cid (Some 1) three_attested
      (balances_genesis 1) = Inr (s, b)" using three_rewarded by blast
  show ?thesis using sb rewards_issued_once[OF sb three_claimed rtranclp.rtrancl_refl refl three_claimed] by blast
qed

text \<open>The payment loop pays and marks the accounts at the given positions, one after the other.\<close>

lemma issue_loop_eq:
  assumes "\<forall>i\<in>set is. i < length ps" and "solvent bc (fst cc) b"
    and "issued bc b (fst cc) + reward * length is < 2 ^ 128" and "n < 2 ^ 128"
  shows "issue_loop bc cc reward ps is (s, b, n) =
    Inr (foldl (\<lambda>s a. put_reputation cc a VerifiedUnlinked s) s (map ((!) ps) is),
      foldl (\<lambda>b a. snd (issue bc (fst cc) a reward b)) b (map ((!) ps) is), wrapping_add 128 n (length is))"
  using assms
proof (induction "is" arbitrary: s b n)
  case Nil
  then show ?case by (simp add: wrapping_add_exact)
next
  case (Cons i "is")
  have small: "issued bc b (fst cc) + reward < 2 ^ 128" using Cons.prems(3) by simp
  note step = iss.issue_success[OF Cons.prems(2) small, of "ps ! i"]
  have "issued bc (snd (issue bc (fst cc) (ps ! i) reward b)) (fst cc) + reward * length is < 2 ^ 128"
    unfolding step(3) using Cons.prems(3) by simp
  moreover have "wrapping_add 128 n 1 < 2 ^ 128"
    "wrapping_add 128 (wrapping_add 128 n 1) (length is) = wrapping_add 128 n (length (i # is))"
    by (simp_all add: wrapping_add_def mod_simps)
  ultimately show ?case using Cons.IH[OF _ step(2)] Cons.prems(1) step(1)
    by (auto simp: vec_get_def ok_or_def split: prod.splits)
qed

text \<open>Paying accounts of one community touches the balances of no other.\<close>

lemma issue_elsewhere:
  assumes "cid' \<noteq> cid"
  shows "bal bc (snd (issue bc cid a n b)) cid' x = bal bc b cid' x" and "issued bc (snd (issue bc cid a n b)) cid' = issued bc b cid'"
proof -
  let ?b = "snd (issue bc cid a n b)"
  have fields: "bl_balance ?b cid' = bl_balance b cid'" "bl_total_issuance ?b cid' = bl_total_issuance b cid'"
    "bl_demurrage_per_block ?b = bl_demurrage_per_block b" "bl_block ?b = bl_block b"
    using assms by (auto simp: issue_def Let_def new_account_def insert_balance_def bl_deposit_event_def dm_insert_apply fun_eq_iff
        split: sum.splits)
  then show "bal bc ?b cid' x = bal bc b cid' x" by (intro balance_entry_cong(2)) simp_all
  show "issued bc ?b cid' = issued bc b cid'" using fields
    by (simp add: issued_def total_issuance_def total_issuance_entry_updated_def pallet_apply_demurrage_def demurrage_def)
qed

lemma issue_each_elsewhere:
  assumes "cid' \<noteq> cid"
  shows "bal bc (foldl (\<lambda>b a. snd (issue bc cid a n b)) b xs) cid' x = bal bc b cid' x \<and>
    issued bc (foldl (\<lambda>b a. snd (issue bc cid a n b)) b xs) cid' = issued bc b cid'"
  by (induction xs arbitrary: b) (simp_all add: issue_elsewhere[OF assms])

text \<open>The counts of reputations.\<close>

abbreviation reputations_in :: "ceremonies \<Rightarrow> CommunityCeremony \<Rightarrow> nat" where
  "reputations_in s cc \<equiv> value_query 0 (ce_reputation_count s cc)"

abbreviation reputations_at :: "ceremonies \<Rightarrow> nat \<Rightarrow> nat" where
  "reputations_at s cindex \<equiv> value_query 0 (ce_global_reputation_count s cindex)"

definition reputation_counts :: "ceremonies \<Rightarrow> (CommunityCeremony \<Rightarrow> nat option) \<times> (nat \<Rightarrow> nat option)" where
  "reputation_counts s = (ce_reputation_count s, ce_global_reputation_count s)"

lemma emit_no_rewards_counts: "emit_no_rewards cc k ps ex s = Inr s' \<Longrightarrow> reputation_counts s' = reputation_counts s"
  by (induction ex arbitrary: s) (auto simp: res_simps reputation_counts_def ce_deposit_event_def)

lemma put_reputations_counts:
  "reputation_counts (foldl (\<lambda>s a. put_reputation cc a r s) s xs) = reputation_counts s"
  by (induction xs arbitrary: s) (auto simp: reputation_counts_def put_reputation_def)

lemma issue_rewards_counts:
  assumes "issue_rewards c cm cc k ps legit s b = Inr (s', b')"
    and "issue_loop (cec_balances c) cc (nominal_income cm (fst cc) s) ps legit (s, b, 0) = Inr (s1, b1, n)"
    and "reputation_counts s1 = reputation_counts s0"
  shows "reputations_in s' cc' = (if cc' = cc then wrapping_add 128 (reputations_in s0 cc) n else reputations_in s0 cc')"
    and "reputations_at s' j = (if j = snd cc then wrapping_add 128 (reputations_at s0 j) n else reputations_at s0 j)"
  using assms
  by (auto simp: issue_rewards_def Let_def reputation_counts_def ce_deposit_event_def put_issued_rewards_def value_query_def)

lemma put_reputations:
  "participant_reputation (foldl (\<lambda>s a. put_reputation cc a r s) s xs) cc' x =
     (if cc' = cc \<and> x \<in> set xs then r else participant_reputation s cc' x)"
  by (induction xs arbitrary: s) (auto simp: participant_reputation_def put_reputation_def storage_simps)

lemma judgements_legit:
  assumes "ballot_ok ps votes att" and "get_participant_judgements ps votes att thr = Inr pj"
  shows "distinct (pj_legit pj)" and "set (pj_legit pj) \<subseteq> set ps"
proof -
  have "distinct ps" using assms(1) by (simp add: ballot_ok_def)
  then have "distinct (pj_legit pj) \<and> set (pj_legit pj) \<subseteq> set ps"
    using judgements_Inr[OF assms, where thesis = "distinct (pj_legit pj) \<and> set (pj_legit pj) \<subseteq> set ps"]
    by (auto simp: voters_for_def)
  then show "distinct (pj_legit pj)" "set (pj_legit pj) \<subseteq> set ps" by blast+
qed

text \<open>C6: A claim pays what it should: when the judgement of a meetup succeeds, the claim credits each
  legitimate participant with exactly one nominal income and marks its attendance as verified, the
  issuance of the community grows by what is paid, and the counts of reputations by the number of legitimate
  participants; the meetup is marked as rewarded. No other balance and no other reputation changes, in no community,
  no other community's issuance, no other meetup's mark and no other count.\<close>

theorem rewards_paid:
  assumes "claim_rewards c sch cm a cid maybe s b = Inr (s', b')" and "claimed_meetup sch a cid maybe s = Inr (i, k)"
    and "get_meetup_participants (cid, i) k s = Inr ps" and "distinct ps"
    and "meetup_judgements (cid, i) ps s = Inr pj"
    and "gather_meetup_validation_data (cid, i) ps s = (votes, atts)" and "ballot_ok [0..<length ps] votes atts"
    and "solvent (cec_balances c) cid b"
    and "issued (cec_balances c) b cid + nominal_income cm cid s * length (pj_legit pj) < 2 ^ 128"
  defines "legit \<equiv> map ((!) ps) (pj_legit pj)"
  shows "bal (cec_balances c) b' cid' x =
      bal (cec_balances c) b cid' x + (if cid' = cid \<and> x \<in> set legit then nominal_income cm cid s else 0) \<and>
    issued (cec_balances c) b' cid' =
      issued (cec_balances c) b cid' + (if cid' = cid then nominal_income cm cid s * length legit else 0) \<and>
    participant_reputation s' cc x =
      (if cc = (cid, i) \<and> x \<in> set legit then VerifiedUnlinked else participant_reputation s cc x) \<and>
    issued_rewards s' cc k' = (if cc = (cid, i) \<and> k' = k then Some Ok else issued_rewards s cc k') \<and>
    reputations_in s' cc = (if cc = (cid, i) then wrapping_add 128 (reputations_in s cc) (length legit) else reputations_in s cc) \<and>
    reputations_at s' j = (if j = i then wrapping_add 128 (reputations_at s j) (length legit) else reputations_at s j)"
  using assms(1)
proof (cases rule: claim_rewards_cases)
  case (ballot_failed i1 k1 ps1 err)
  then show ?thesis using assms(2,3,5) by simp
next
  case (paid i1 k1 ps1 pj1 s1)
  then have same: "i1 = i" "k1 = k" "ps1 = ps" "pj1 = pj" using assms(2,3,5) by auto
  let ?income = "nominal_income cm cid s" and ?bc = "cec_balances c"
  note frame = emit_no_rewards_frame[OF paid(5)]
  have judged: "get_participant_judgements [0..<length ps] votes atts attestation_threshold_fn = Inr pj"
    using assms(5,6) by (simp add: meetup_judgements_def)
  have "distinct (pj_legit pj) \<and> set (pj_legit pj) \<subseteq> set [0..<length ps]"
    using judgements_legit[OF assms(7) judged] by simp
  then have dist: "distinct legit" and inside: "\<forall>j\<in>set (pj_legit pj). j < length ps"
    using assms(4) by (auto simp: legit_def distinct_map intro!: inj_on_nth)
  have income: "nominal_income cm cid s1 = ?income" using frame by (simp add: nominal_income_def)
  let ?s2 = "foldl (\<lambda>s a. put_reputation (cid, i) a VerifiedUnlinked s) s1 legit"
  let ?b2 = "foldl (\<lambda>b a. snd (issue ?bc cid a ?income b)) b legit"
  have "wrapping_add 128 0 (length legit) < 2 ^ 128" by (simp add: wrapping_add_def)
  have eq: "issue_loop ?bc (cid, i) ?income ps (pj_legit pj) (s1, b, 0) = Inr (?s2, ?b2, wrapping_add 128 0 (length legit))"
    using issue_loop_eq[OF inside, of ?bc "(cid, i)" b ?income 0 s1] assms(8,9) by (simp add: legit_def)
  obtain s2 n where loop: "issue_loop ?bc (cid, i) (nominal_income cm (fst (cid, i)) s1) ps (pj_legit pj) (s1, b, 0) = Inr (s2, b', n)"
    and rep: "ce_reputation s' = ce_reputation s2"
    and "\<forall>cc k'. issued_rewards s' cc k' = (if cc = (cid, i) \<and> k' = k then Some Ok else issued_rewards s1 cc k')"
    using paid(6) unfolding same by (rule issue_rewards_cases) blast
  then have marked: "issued_rewards s' cc k' = (if cc = (cid, i) \<and> k' = k then Some Ok else issued_rewards s1 cc k')" by blast
  have s2: "s2 = ?s2" "n = wrapping_add 128 0 (length legit)" and b': "b' = ?b2" using loop eq income by auto
  have "reputation_counts ?s2 = reputation_counts s" using put_reputations_counts emit_no_rewards_counts[OF paid(5)] by simp
  note counts = issue_rewards_counts[OF paid(6)[unfolded same] loop[unfolded s2(1)] this, unfolded s2(2)]
  have "issued ?bc b cid + ?income * length legit < 2 ^ 128" using assms(9) by (simp add: legit_def)
  from iss.issue_each[OF assms(8) this, of x] issue_each_elsewhere[of cid' cid ?bc ?income b legit x] have
    "bal ?bc b' cid' x = bal ?bc b cid' x + (if cid' = cid then ?income * count_list legit x else 0)"
    "issued ?bc b' cid' = issued ?bc b cid' + (if cid' = cid then ?income * length legit else 0)"
    unfolding b' by auto
  moreover have "count_list legit x = (if x \<in> set legit then 1 else 0)"
    using dist by (simp add: distinct_count_atmost_1 count_mset)
  moreover have "participant_reputation s' cc x =
      (if cc = (cid, i) \<and> x \<in> set legit then VerifiedUnlinked else participant_reputation s cc x)"
    using put_reputations[of "(cid, i)" VerifiedUnlinked s1 legit cc x] rep[unfolded s2(1)] frame
    by (simp add: participant_reputation_def)
  moreover have "issued_rewards s1 = issued_rewards s" using frame by (simp add: issued_rewards_def fun_eq_iff)
  moreover have "wrapping_add 128 n (wrapping_add 128 0 m) = wrapping_add 128 n m" for n m
    by (simp add: wrapping_add_def mod_simps)
  ultimately show ?thesis using marked counts by simp
qed

theorem rewards_paid_witness:
  "\<exists>s b. claim_rewards small_config (clock 4 Attesting) small_communities 2 demo_cid (Some 1) three_attested (balances_genesis 1) =
     Inr (s, b) \<and> bal demo_config b demo_cid 3 = 1000 \<and> bal demo_config b demo_cid 5 = 0 \<and>
     issued demo_config b demo_cid = 3000 \<and> participant_reputation s small_cc 3 = VerifiedUnlinked \<and>
     issued_rewards s small_cc 1 = Some Ok \<and> reputations_in s small_cc = 3 \<and> reputations_at s 4 = 3"
proof -
  obtain s b where sb: "claim_rewards small_config (clock 4 Attesting) small_communities 2 demo_cid (Some 1) three_attested
      (balances_genesis 1) = Inr (s, b)" using three_rewarded by blast
  have c: "cec_balances small_config = demo_config" by (simp add: small_config_def)
  have income: "nominal_income small_communities demo_cid three_attested = 1000"
    by (simp add: nominal_income_def three_attested_def scenario_defs)
  have triangle: "ballot_ok [0..<length [4, 2, 3 :: nat]] [3, 3, 3] [[1, 2], [0, 2], [0, 1]]"
    by (simp add: ballot_ok_def small_attestations_def)
  note paid = rewards_paid[OF sb three_claimed attested_meet _ three_judgements three_ballots triangle, unfolded c income,
      OF _ genesis_solvent(1), unfolded genesis_solvent(2,3)]
  have before: "reputations_in three_attested small_cc = 0" "reputations_at three_attested 4 = 0"
    by (simp_all add: three_attested_def scenario_defs)
  show ?thesis using sb before paid[where x = 3 and cid' = demo_cid and cc = small_cc and k' = 1 and j = 4]
      paid[where x = 5 and cid' = demo_cid] by (simp add: wrapping_add_exact)
qed

section \<open>Reputation\<close>

text \<open>C4: An attendance counts once per ceremony: after somebody registered for a ceremony with the proof of an
  attendance, nobody can register for the same ceremony with a proof of the same attendance, in any
  community, and nobody can upgrade a registration with it. This holds over any sequence of calls
  and changes of phase while registrations are for that ceremony, as long as no step frees the attendance:
  its attendee withdrawing a registration of its own and naming it, a claim for the rewards of the meetup it
  comes from, or the purge of its ceremony.\<close>

theorem attendance_used_once:
  assumes "register_participant c sch cm b sender cid (Some p) s = Inr s1"
    and "(\<lambda>x y. ceremonies_run c (\<lambda>sch'. registration_cindex sch' = registration_cindex sch) x y \<and>
      \<not> attendance_freed c (pa_community_identifier p, pa_ceremony_index p) (attendee_public p) x y)\<^sup>*\<^sup>* (s1, b1) (s2, b2)"
    and "attendee_public p' = attendee_public p" and "pa_ceremony_index p' = pa_ceremony_index p"
    and "pa_community_identifier p' = pa_community_identifier p" and "registration_cindex sch' = registration_cindex sch"
  shows "participant_reputation s2 (pa_community_identifier p, pa_ceremony_index p) (attendee_public p) =
      VerifiedLinked (registration_cindex sch) \<and>
    (\<exists>e. register_participant c sch' cm' b' sender' cid' (Some p') s2 = Inl e) \<and>
    (\<exists>e. upgrade_registration c sch' cm' b' sender' cid' p' s2 = Inl e)"
proof -
  let ?i = "registration_cindex sch" and ?at = "(pa_community_identifier p, pa_ceremony_index p)"
  obtain s0 t s3 where link: "link_reputation c cm (cid, ?i) sender p s = Inr s0"
    and reg: "register c cm b (cid, ?i) sender True s0 = Inr (t, s3)" and s1: "s1 = ce_deposit_event (ParticipantRegistered cid t sender) s3"
    using assms(1) by (auto elim: register_participant_cases)
  have earlier: "snd ?at \<noteq> ?i" using link_reputation_cases(2)[OF link] by simp
  have "ce_reputation s1 = ce_reputation s0" using register_ok(3)[OF reg] by (simp add: s1)
  then have "linked_for ?i ?at (attendee_public p) s1"
    using link_reputation_cases(2,5)[OF link] by (auto simp: linked_for_def dm_insert_apply)
  then have linked: "linked_for ?i ?at (attendee_public p) s2" using runs_keep_link[OF assms(2)] earlier by simp
  have "\<nexists>s3. register_participant c sch' cm' b' sender' cid' (Some p') s2 = Inr s3"
    using register_keeps_link(2)[of c sch' cm' b' sender' cid' "Some p'" s2 _ ?at "attendee_public p" p'] linked earlier assms(3-6)
    by auto
  moreover have "\<nexists>s3. upgrade_registration c sch' cm' b' sender' cid' p' s2 = Inr s3"
    using upgrade_keeps_link(2)[of c sch' cm' b' sender' cid' p' s2 _ ?at "attendee_public p"] linked earlier assms(3-6) by auto
  ultimately show ?thesis using linked
    by (simp add: linked_for_def participant_reputation_def value_query_def) (metis sum.exhaust)
qed

definition attended :: "AccountId \<Rightarrow> CommunityIdentifier \<Rightarrow> nat \<Rightarrow> ceremonies \<Rightarrow> ceremonies" where
  "attended a cid i s = put_reputation (cid, i) a VerifiedUnlinked s"

definition proof_for :: "AccountId \<Rightarrow> AccountId \<Rightarrow> nat \<Rightarrow> nat ProofOfAttendance" where
  "proof_for prover attendee i =
     \<lparr>prover_public = prover, pa_ceremony_index = i, pa_community_identifier = demo_cid, attendee_public = attendee,
      attendee_signature = attendee + 100\<rparr>"

theorem attendance_used_once_witness:
  "\<exists>s1 e. register_participant small_config (clock 4 Registering) small_communities demo_balances 7 demo_cid
       (Some (proof_for 7 7 3)) (attended 7 demo_cid 3 small_genesis) = Inr s1 \<and>
     register_participant small_config (clock 4 Registering) small_communities demo_balances 8 demo_cid
       (Some (proof_for 8 7 3)) s1 = Inl e"
proof -
  have "is_ok (register_participant small_config (clock 4 Registering) small_communities demo_balances 7 demo_cid
       (Some (proof_for 7 7 3)) (attended 7 demo_cid 3 small_genesis))" by code_simp
  then obtain s1 where s1: "register_participant small_config (clock 4 Registering) small_communities demo_balances 7 demo_cid
       (Some (proof_for 7 7 3)) (attended 7 demo_cid 3 small_genesis) = Inr s1" by (auto simp: is_ok_def split: sum.splits)
  from attendance_used_once[OF s1 rtranclp.rtrancl_refl, of "proof_for 8 7 3"] s1 show ?thesis by (simp add: proof_for_def)
qed

text \<open>C23: The clean-up at a change of phase deletes no reputation that is still valid, except with its
  whole community: a community is removed exactly if it is registered and inactive when an assigning
  phase starts, and then none of its reputations up to the current ceremony is valid any more; the
  validity of every other reputation is what it was before, in whatever phase.\<close>

theorem cleanup_keeps_valid_reputation:
  assumes "on_ceremony_phase_change c seed sch ph (s, cm, b) = Some (s', cm', b')" and "distinct (cm_community_identifiers cm)"
  defines "inactive \<equiv> \<lambda>cid. ph = Assigning \<and> cid \<in> set (cm_community_identifiers cm) \<and>
      ce_issued_rewards s (cid, sc_ceremony_index sch - 1) = [] \<and>
      ce_inactivity_timeout s \<le> value_query 0 (ce_inactivity_counters s cid)"
  shows "(validate_reputation sch a cid i s' \<longleftrightarrow>
      validate_reputation sch a cid i s \<and> \<not> (inactive cid \<and> i \<le> sc_ceremony_index sch)) \<and>
    (cid \<in> set (cm_community_identifiers cm') \<longleftrightarrow> cid \<in> set (cm_community_identifiers cm) \<and> \<not> inactive cid)"
proof -
  have valid: "validate_reputation sch a cid i s' \<longleftrightarrow> validate_reputation sch a cid i s \<and> (cid, i) \<notin> set cs"
    if "cleaned cs s s'" for cs
    using that by (auto simp: cleaned_def validate_reputation_def participant_reputation_def value_query_def)
  show ?thesis using assms(1)
  proof (cases rule: phase_change_cleaned)
    case attesting
    then show ?thesis by (simp add: inactive_def)
  next
    case registering
    show ?thesis unfolding valid[OF registering(3)] using registering(1,2)
      by (auto simp: inactive_def validate_reputation_def saturating_sub_def split: if_splits)
  next
    case (assigning inactives)
    have cids: "cid \<in> set inactives \<longleftrightarrow> inactive cid"
      using assigning(1,4) assms(2) by (auto simp: inactive_def inactive_community_def saturating_sub_def)
    have "(cid, i) \<in> set (concat (map (recent_ceremonies sch s) inactives)) \<longleftrightarrow>
        inactive cid \<and> saturating_sub (sc_ceremony_index sch) (ce_reputation_lifetime s) \<le> i \<and> i \<le> sc_ceremony_index sch"
      unfolding cids[symmetric] by (fastforce simp: recent_ceremonies_def)
    then show ?thesis unfolding valid[OF assigning(2)] using assigning(3) cids by (auto simp: validate_reputation_def)
  qed
qed

theorem cleanup_keeps_valid_reputation_witness:
  "\<exists>w. on_ceremony_phase_change small_config [1] (clock 10 Registering) Registering
       (attended 7 demo_cid 5 three_registered, small_communities, demo_balances) = Some w \<and>
     validate_reputation (clock 10 Registering) 7 demo_cid 5 (fst w) \<and> demo_cid \<in> set (cm_community_identifiers (fst (snd w)))"
proof -
  obtain s cm b where w: "on_ceremony_phase_change small_config [1] (clock 10 Registering) Registering
       (attended 7 demo_cid 5 three_registered, small_communities, demo_balances) = Some (s, cm, b)"
    by (simp add: on_ceremony_phase_change_def scenario_defs put_reputation_def attended_def)
  have "validate_reputation (clock 10 Registering) 7 demo_cid 5 (attended 7 demo_cid 5 three_registered)"
    by (simp add: validate_reputation_def participant_reputation_def attended_def put_reputation_def scenario_defs
        saturating_sub_def storage_simps)
  moreover have "cm_community_identifiers small_communities = [demo_cid]" by (simp add: scenario_defs)
  ultimately show ?thesis using cleanup_keeps_valid_reputation[OF w, where cid = demo_cid and a = 7 and i = 5] w by auto
qed

lemma register_registers:
  assumes "register c cm b cc a is_reputable s = Inr (t, s')"
  shows "is_registered cc a s'"
proof -
  obtain r s0 where r: "registry_add cc a (registry_of t s) = Some r" "s' = put_registry t r s0"
    using assms by (rule register_cases)
  then have "registry_has (registry_of t s') cc a"
    by (auto simp: registry_add_def bind_eq_Some_conv registry_has_def storage_simps)
  then show ?thesis unfolding registered_types by blast
qed

lemma remove_keeps_others:
  assumes "ceremonies_ok s" and "registry_has (registry_of t s) cc a" and "is_registered cc' b s" and "b \<noteq> a"
  shows "is_registered cc' b (put_registry t (registry_remove cc a (registry_of t s)) s)"
  using assms(3,4) rg.has_remove[OF ceremonies_okD(1)[OF assms(1)] assms(2)] unfolding registered_types
  by (metis registry_of_put)

text \<open>A bootstrapper's attendance can be used twice. A bootstrapper who is registered in its own
  community without a proof can, on unregistering, free an attendance of its own that another
  account is registered with: the attendance is unlinked and can be used again while the
  registration it was used for stands.\<close>

theorem bootstrapper_frees_used_attendance:
  assumes "register_participant c sch cm b sender cid' (Some p) s = Inr s1" and "ceremonies_ok s1"
    and "sc_phase sch = Registering" and "attendee_public p = a" and "sender \<noteq> a"
    and "get_participant_type (cid, sc_ceremony_index sch) a s1 = Some Bootstrapper"
    and "cid \<in> set (cm_community_identifiers cm)"
  shows "\<exists>s2. unregister_participant sch cm a cid (Some (pa_community_identifier p, pa_ceremony_index p)) s1 = Inr s2 \<and>
    participant_reputation s2 (pa_community_identifier p, pa_ceremony_index p) a = VerifiedUnlinked \<and>
    is_registered (cid', sc_ceremony_index sch) sender s2"
proof -
  let ?i = "sc_ceremony_index sch" and ?at = "(pa_community_identifier p, pa_ceremony_index p)"
  have i: "registration_cindex sch = ?i" using assms(3) by (simp add: registration_cindex_def)
  obtain s0 t s2 where link: "link_reputation c cm (cid', ?i) sender p s = Inr s0"
    and reg: "register c cm b (cid', ?i) sender True s0 = Inr (t, s2)"
    and s1: "s1 = ce_deposit_event (ParticipantRegistered cid' t sender) s2"
    using assms(1) i by (auto elim: register_participant_cases)
  note l = link_reputation_cases[OF link]
  have at: "?at \<noteq> (cid', ?i)" "?at \<noteq> (cid, ?i)" using l(2) by auto
  have rep: "ce_reputation s1 = ce_reputation s0" "ce_reputation_lifetime s1 = ce_reputation_lifetime s"
    using register_ok(3,4)[OF reg] l(5) by (simp_all add: s1)
  then have linked: "participant_reputation s1 ?at a = VerifiedLinked ?i"
    using l(5) at(1) assms(4) by (auto simp: participant_reputation_def storage_simps)
  let ?s = "s1\<lparr>ce_reputation := dm_remove (cid, ?i) a (dm_insert ?at a VerifiedUnlinked (ce_reputation s1))\<rparr>"
  let ?s2 = "put_registry Bootstrapper (registry_remove (cid, ?i) a (ce_bootstrapper s1)) ?s"
  have "unlink_reputation (cid, ?i) a Bootstrapper (Some ?at) s1 = Inr ?s"
    using linked l(3) rep(2) by (simp add: unlink_reputation_def ensure_def put_reputation_def)
  moreover have "get_participant_type (cid, ?i) a ?s = Some Bootstrapper"
    using assms(6) by (simp add: get_participant_type_def split: if_splits)
  ultimately have "unregister_participant sch cm a cid (Some ?at) s1 = Inr ?s2"
    using assms(3,6,7) i
    by (simp add: unregister_participant_def ensure_def is_registering_or_attesting_def ok_or_def
        remove_participant_from_registry_def Let_def)
  moreover have "participant_reputation ?s2 ?at a = VerifiedUnlinked"
    using at(2) by (auto simp: participant_reputation_def storage_simps)
  moreover have "is_registered (cid', ?i) sender ?s2"
  proof -
    have same: "registry_of t ?s = registry_of t s1" for t by simp
    have "ceremonies_ok ?s" using assms(2) same by (rule ceremonies_ok_cong)
    moreover have "registry_has (registry_of Bootstrapper ?s) (cid, ?i) a"
      unfolding same by (rule participant_type_registered[OF assms(6)])
    moreover have "is_registered (cid', ?i) sender ?s"
      using register_registers[OF reg] by (simp add: registered_types s1)
    ultimately show ?thesis using remove_keeps_others[of ?s Bootstrapper] assms(5) by simp
  qed
  ultimately show ?thesis by blast
qed

definition second_cid :: CommunityIdentifier where
  "second_cid = CommunityIdentifier [5, 4, 3, 2, 1] [9, 8, 7, 6]"

definition two_communities :: communities where
  "two_communities = small_communities\<lparr>cm_community_identifiers := [demo_cid, second_cid]\<rparr>"

theorem bootstrapper_frees_used_attendance_witness:
  "\<exists>s1 s2. register_participant small_config (clock 4 Registering) two_communities
       (snd (issue demo_config second_cid 1 1000 demo_balances)) 7 second_cid (Some (proof_for 7 2 3))
       (attended 2 demo_cid 3 three_registered) = Inr s1 \<and>
     unregister_participant (clock 4 Registering) two_communities 2 demo_cid (Some (demo_cid, 3)) s1 = Inr s2 \<and>
     participant_reputation s2 (demo_cid, 3) 2 = VerifiedUnlinked \<and> is_registered (second_cid, 4) 7 s2"
proof -
  let ?register = "register_participant small_config (clock 4 Registering) two_communities
       (snd (issue demo_config second_cid 1 1000 demo_balances)) 7 second_cid (Some (proof_for 7 2 3))
       (attended 2 demo_cid 3 three_registered)"
  have "is_ok ?register" by code_simp
  then obtain s1 where s1: "?register = Inr s1" by (auto simp: is_ok_def split: sum.splits)
  have "get_participant_type small_cc 2 (run ?register small_genesis) = Some Bootstrapper" by code_simp
  then have t: "get_participant_type (demo_cid, sc_ceremony_index (clock 4 Registering)) 2 s1 = Some Bootstrapper"
    unfolding s1 run_def sum.case by (simp add: clock_def scheduler_genesis_def)
  have "ceremonies_ok (attended 2 demo_cid 3 three_registered)"
    by (rule ceremonies_ok_cong[OF three_registered_ok]) (simp add: attended_def)
  then have ok: "ceremonies_ok s1" using register_participant_ok(2)[OF s1] by blast
  have "sc_phase (clock 4 Registering) = Registering" "attendee_public (proof_for 7 2 3) = 2" "7 \<noteq> (2 :: nat)"
    "demo_cid \<in> set (cm_community_identifiers two_communities)"
    by (simp_all add: scenario_defs proof_for_def two_communities_def)
  from bootstrapper_frees_used_attendance[OF s1 ok this(1-3) t this(4)] s1 show ?thesis
    by (simp add: proof_for_def scenario_defs)
qed

section \<open>Admission\<close>

text \<open>C32: Seats are not overbooked while the registered bootstrappers fit into the seats of the community's
  locations: then the number of admitted participants is within these seats, newbies are at most the
  configured share of the others, and there are no more meetups than locations. (With more
  bootstrappers than seats a subtraction wraps and the limit is off, see below.)\<close>

theorem allowance_within_capacity:
  assumes "compute_assignment_allowance c cm cc target s = Some (Inr al)"
    and "find_prime_below (registry_count (ce_bootstrapper s) cc + registry_count (ce_reputable s) cc) = Some prime"
    and "registry_count (ce_bootstrapper s) cc + registry_count (ce_reputable s) cc + registry_count (ce_endorsee s) cc < 2 ^ 64"
    and "registry_count (ce_bootstrapper s) cc \<le> min (length (get_locations cm (fst cc))) prime * target"
  defines "admitted \<equiv> ac_bootstrappers al + ac_reputables al + ac_endorsees al + ac_newbies al"
  shows "admitted \<le> min (length (get_locations cm (fst cc))) prime * target \<and>
    ac_newbies al * cec_newbie_limit_divider c \<le> ac_bootstrappers al + ac_reputables al + ac_endorsees al \<and>
    (\<forall>n. checked_ceil_division admitted target = Some n \<longrightarrow> n \<le> length (get_locations cm (fst cc)))"
  using assms(1)
proof (rule allowance_cases)
  fix prime' seats limit
  let ?b = "registry_count (ce_bootstrapper s) cc" and ?r = "registry_count (ce_reputable s) cc"
  let ?cap = "min (length (get_locations cm (fst cc))) prime * target"
  assume p: "find_prime_below (wrapping_add 64 ?b ?r) = Some prime'"
    and seats: "checked_mul 64 (min (length (get_locations cm (fst cc))) prime') target = Some seats"
    and b: "ac_bootstrappers al = ?b"
    and r: "ac_reputables al = min ?r (wrapping_sub 64 seats (ac_bootstrappers al))"
    and e: "ac_endorsees al = min (registry_count (ce_endorsee s) cc)
       (wrapping_sub 64 seats (ac_bootstrappers al) - ac_reputables al)"
    and lim: "checked_div (wrapping_add 64 (wrapping_add 64 (ac_bootstrappers al) (ac_reputables al)) (ac_endorsees al))
       (cec_newbie_limit_divider c) = Some limit"
    and n: "ac_newbies al = min (min (registry_count (ce_newbie s) cc)
       (wrapping_sub 64 seats (ac_bootstrappers al) - ac_reputables al - ac_endorsees al)) limit"
  have "prime' = prime" using p assms(2,3) by (simp add: wrapping_add_exact)
  then have cap: "seats = ?cap" using seats by (simp add: arith_ops)
  then have sub: "wrapping_sub 64 seats (ac_bootstrappers al) = ?cap - ?b" using assms(4) b by (simp add: wrapping_sub_exact)
  have le: "ac_reputables al \<le> ?cap - ?b" "ac_endorsees al \<le> ?cap - ?b - ac_reputables al"
    "ac_newbies al \<le> ?cap - ?b - ac_reputables al - ac_endorsees al" "ac_newbies al \<le> limit"
    "ac_reputables al \<le> ?r" "ac_endorsees al \<le> registry_count (ce_endorsee s) cc"
    using r e n unfolding sub by (metis min.cobounded1 min.cobounded2 min.coboundedI1)+
  have admitted: "admitted \<le> ?cap" unfolding admitted_def b using le(1-3) assms(4) by linarith
  have "limit = (ac_bootstrappers al + ac_reputables al + ac_endorsees al) div cec_newbie_limit_divider c"
    using lim le(5,6) assms(3) b by (auto simp: arith_ops wrapping_add_exact)
  then have "ac_newbies al * cec_newbie_limit_divider c \<le> ac_bootstrappers al + ac_reputables al + ac_endorsees al"
    using le(4) by (metis div_times_less_eq_dividend le_trans mult_le_mono1)
  moreover have "n \<le> length (get_locations cm (fst cc))" if "checked_ceil_division admitted target = Some n" for n
  proof -
    have t: "target \<noteq> 0" "n = (admitted + target - 1) div target"
      using that by (auto simp: checked_ceil_division_def arith_ops bind_eq_Some_conv)
    have "(admitted + target - 1) div target \<le> (?cap + target - 1) div target" using admitted by (intro div_le_mono) simp
    also have "?cap + target - 1 = (target - 1) + ?cap" using t(1) by simp
    also have "\<dots> div target = min (length (get_locations cm (fst cc))) prime"
      using div_mult_self1[OF t(1), of "target - 1"] t(1) by simp
    finally show ?thesis using t(2) by simp
  qed
  ultimately show ?thesis using admitted by blast
qed

theorem allowance_within_capacity_witness:
  "(\<exists>al. compute_assignment_allowance small_config small_communities small_cc 10 three_registered = Some (Inr al) \<and>
     ac_bootstrappers al + ac_reputables al + ac_endorsees al + ac_newbies al \<le> 10) \<and>
   length (get_locations small_communities demo_cid) = 1"
proof -
  have "find_prime_below 3 = Some 3" by code_simp
  moreover have one: "length (get_locations small_communities demo_cid) = 1" by (simp add: get_locations_def scenario_defs)
  ultimately show ?thesis
    using allowance_within_capacity[OF three_allowance, of 3] three_allowance
    unfolding three_counts by (simp add: default_count_def)
qed

text \<open>The admission control fails open: when more bootstrappers are registered than there are seats,
  the subtraction of the seats they take wraps around, and every registered reputable and endorsee
  is admitted, however few seats there are.\<close>

theorem too_many_bootstrappers_lift_capacity:
  assumes "find_prime_below (registry_count (ce_bootstrapper s) cc + registry_count (ce_reputable s) cc) = Some prime"
    and "0 < length (get_locations cm (fst cc))" and "cec_newbie_limit_divider c \<noteq> 0"
    and "min (length (get_locations cm (fst cc))) prime * target < registry_count (ce_bootstrapper s) cc"
    and "registry_count (ce_bootstrapper s) cc + registry_count (ce_reputable s) cc + registry_count (ce_endorsee s) cc < 2 ^ 63"
  shows "\<exists>al. compute_assignment_allowance c cm cc target s = Some (Inr al) \<and>
    ac_reputables al = registry_count (ce_reputable s) cc \<and> ac_endorsees al = registry_count (ce_endorsee s) cc"
proof -
  let ?b = "registry_count (ce_bootstrapper s) cc" and ?r = "registry_count (ce_reputable s) cc"
    and ?e = "registry_count (ce_endorsee s) cc"
  let ?cap = "min (length (get_locations cm (fst cc))) prime * target"
  have "checked_mul 64 (min (length (get_locations cm (fst cc))) prime) target = Some ?cap"
    using assms(4,5) by (simp add: arith_ops)
  moreover have "min ?r (wrapping_sub 64 ?cap ?b) = ?r" "min ?e (wrapping_sub 64 ?cap ?b - ?r) = ?e"
    using assms(4,5) unfolding wrapping_sub_def by simp_all
  ultimately show ?thesis
    using assms(1-3,5) unfolding compute_assignment_allowance_def Let_def
    by (simp add: wrapping_add_exact checked_div_def del: min_less_iff_conj)
qed

theorem too_many_bootstrappers_lift_capacity_witness:
  "(\<exists>al. compute_assignment_allowance small_config small_communities small_cc 2 three_registered = Some (Inr al) \<and>
     ac_reputables al = 0 \<and> ac_endorsees al = 0) \<and> registry_count (ce_bootstrapper three_registered) small_cc = 3"
proof -
  have "find_prime_below 3 = Some 3" by code_simp
  moreover have "length (get_locations small_communities demo_cid) = 1" "cec_newbie_limit_divider small_config \<noteq> 0"
    by (simp_all add: get_locations_def scenario_defs)
  ultimately show ?thesis
    using too_many_bootstrappers_lift_capacity[of three_registered small_cc 3 small_communities small_config 2]
    unfolding three_counts by simp
qed

section \<open>Endorsement\<close>

definition tickets :: "ceremonies \<Rightarrow> (CommunityCeremony \<Rightarrow> AccountId \<Rightarrow> nat option) \<times> (CommunityIdentifier \<Rightarrow> AccountId \<Rightarrow> nat option)" where
  "tickets s = (ce_burned_reputable_tickets s, ce_burned_bootstrapper_tickets s)"

lemma register_tickets: "register c cm b cc a is_reputable s = Inr (t, s') \<Longrightarrow> tickets s' = tickets s"
  by (elim register_cases, cases t) (auto simp: tickets_def)

lemma remove_participant_tickets: "remove_participant_from_registry sch cc a s = Inr s' \<Longrightarrow> tickets s' = tickets s"
  by (elim remove_participant_cases, case_tac t) (auto simp: tickets_def)

text \<open>An endorsement costs exactly one ticket: of the sender's reputable tickets for this ceremony if
  it has reputation and tickets left, otherwise of its bootstrapper tickets; without a ticket, or for
  somebody already endorsed, it is refused. Nobody's other tickets change.\<close>

theorem endorsement_costs_one_ticket:
  assumes "endorse_newcomer c sch cm b sender cid newbie s = Inr s'"
    and "ce_tickets_per_reputable s < 2 ^ 8" and "ce_tickets_per_bootstrapper s < 2 ^ 8"
  defines "cc \<equiv> (cid, endorsement_cindex sch)"
  defines "reputable \<equiv> \<lambda>s. value_query 0 (ce_burned_reputable_tickets s cc sender)"
    and "bootstrapper \<equiv> \<lambda>s. value_query 0 (ce_burned_bootstrapper_tickets s cid sender)"
  shows "is_endorsed newbie cc s = None \<and>
    (has_reputation sch sender cid s \<and> reputable s < ce_tickets_per_reputable s \<and>
       reputable s' = reputable s + 1 \<and> ce_burned_bootstrapper_tickets s' = ce_burned_bootstrapper_tickets s \<or>
     sender \<in> set (bootstrappers cm cid) \<and> bootstrapper s < ce_tickets_per_bootstrapper s \<and>
       bootstrapper s' = bootstrapper s + 1 \<and> ce_burned_reputable_tickets s' = ce_burned_reputable_tickets s)"
proof -
  obtain s1 s2 where new: "is_endorsed newbie cc s = None" and burn: "burn_newbie_tickets sch cm cc sender s = Inr s1"
    and s2: "if registry_has (ce_newbie s1) cc newbie
     then \<exists>s4 t. remove_participant_from_registry sch cc newbie (endorsed_state cc newbie s1) = Inr s4 \<and>
          register c cm b cc newbie False s4 = Inr (t, s2)
     else s2 = endorsed_state cc newbie s1"
    and s': "s' = ce_deposit_event (EndorsedParticipant cid sender newbie) s2"
    using assms(1) unfolding cc_def by (rule endorse_newcomer_cases)
  have "tickets (endorsed_state cc newbie s1) = tickets s1" by (simp add: tickets_def endorsed_state_def)
  then have "tickets s2 = tickets s1"
    using s2 by (auto simp: register_tickets remove_participant_tickets split: if_splits)
  then have "ce_burned_reputable_tickets s2 = ce_burned_reputable_tickets s1"
      "ce_burned_bootstrapper_tickets s2 = ce_burned_bootstrapper_tickets s1" by (simp_all add: tickets_def)
  then show ?thesis
    using burn_newbie_tickets_cases[OF burn] new assms(2,3)
    by (auto simp: s' cc_def reputable_def bootstrapper_def ce_deposit_event_def storage_simps wrapping_add_exact)
qed

theorem endorsement_costs_one_ticket_witness:
  "\<exists>s. endorse_newcomer small_config (clock 4 Registering) small_communities demo_balances 2 demo_cid 9 small_genesis = Inr s \<and>
     value_query 0 (ce_burned_bootstrapper_tickets s demo_cid 2) = 1"
proof -
  have "is_ok (endorse_newcomer small_config (clock 4 Registering) small_communities demo_balances 2 demo_cid 9 small_genesis)"
    by code_simp
  then obtain s where s: "endorse_newcomer small_config (clock 4 Registering) small_communities demo_balances 2 demo_cid 9
      small_genesis = Inr s" by (auto simp: is_ok_def split: sum.splits)
  have "\<not> has_reputation (clock 4 Registering) 2 demo_cid small_genesis" by code_simp
  with endorsement_costs_one_ticket[OF s] s show ?thesis by (simp add: scenario_defs)
qed

text \<open>\<open>EndorseesCount\<close> does not count endorsements: it is set from the number of registered endorsees,
  so after two endorsements of accounts that have not registered it is one.\<close>

theorem endorsees_count_forgets:
  assumes "endorse_newcomer c sch cm b sender cid newbie s = Inr s1"
    and "endorse_newcomer c sch cm b sender' cid newbie' s1 = Inr s2"
  defines "cc \<equiv> (cid, endorsement_cindex sch)"
  assumes "\<not> registry_has (ce_newbie s) cc newbie" and "\<not> registry_has (ce_newbie s) cc newbie'"
    and "registry_count (ce_endorsee s) cc = 0"
  shows "ce_endorsees s2 cc newbie' = Some () \<and> ce_endorsees s2 cc newbie = Some () \<and> newbie \<noteq> newbie' \<and>
    ce_endorsees_count s2 cc = Some 1"
proof -
  have one: "\<exists>s0. ce_endorsee s0 = ce_endorsee s \<and> ce_newbie s0 = ce_newbie s \<and> ce_endorsees s0 = ce_endorsees s \<and>
      is_endorsed newbie cc s = None \<and>
      s' = ce_deposit_event (EndorsedParticipant cid sender newbie) (endorsed_state cc newbie s0)"
    if "endorse_newcomer c sch cm b sender cid newbie s = Inr s'" "\<not> registry_has (ce_newbie s) cc newbie" for s s' sender newbie
    using that(1)
  proof (rule endorse_newcomer_cases)
    fix s0 s3 assume "burn_newbie_tickets sch cm (cid, endorsement_cindex sch) sender s = Inr s0"
      "is_endorsed newbie (cid, endorsement_cindex sch) s = None"
      and s3: "if registry_has (ce_newbie s0) (cid, endorsement_cindex sch) newbie
        then \<exists>s4 t. remove_participant_from_registry sch (cid, endorsement_cindex sch) newbie
             (endorsed_state (cid, endorsement_cindex sch) newbie s0) = Inr s4 \<and>
           register c cm b (cid, endorsement_cindex sch) newbie False s4 = Inr (t, s3)
        else s3 = endorsed_state (cid, endorsement_cindex sch) newbie s0"
      "s' = ce_deposit_event (EndorsedParticipant cid sender newbie) s3"
    moreover from this(1) have "ce_endorsee s0 = ce_endorsee s \<and> ce_newbie s0 = ce_newbie s \<and> ce_endorsees s0 = ce_endorsees s"
      by (auto dest!: burn_newbie_tickets_cases)
    ultimately show ?thesis using that(2) by (auto simp: cc_def)
  qed
  obtain s0 where s0: "ce_endorsee s0 = ce_endorsee s" "ce_newbie s0 = ce_newbie s" "ce_endorsees s0 = ce_endorsees s"
    and s1: "s1 = ce_deposit_event (EndorsedParticipant cid sender newbie) (endorsed_state cc newbie s0)"
    using one[OF assms(1,4)] by blast
  then have s1': "ce_endorsee s1 = ce_endorsee s" "ce_newbie s1 = ce_newbie s"
    "ce_endorsees s1 = dm_insert cc newbie () (ce_endorsees s)"
    by (simp_all add: endorsed_state_def ce_deposit_event_def)
  obtain s3 where s3: "ce_endorsee s3 = ce_endorsee s1" "ce_endorsees s3 = ce_endorsees s1"
    and fresh: "is_endorsed newbie' cc s1 = None"
    and s2: "s2 = ce_deposit_event (EndorsedParticipant cid sender' newbie') (endorsed_state cc newbie' s3)"
    using one[OF assms(2)] assms(5) s1'(2) by auto
  have "newbie \<noteq> newbie'"
  proof
    assume "newbie = newbie'"
    then have "contains (ce_endorsees s1 (fst cc, saturating_sub (snd cc) 0) newbie')"
      by (simp add: s1'(3) storage_simps saturating_sub_def)
    moreover have "0 \<in> set [0..<ce_reputation_lifetime s1 + 1]" by auto
    ultimately show False using fresh unfolding is_endorsed_def option.map_disc_iff find_None_iff by blast
  qed
  then show ?thesis
    using assms(6) by (simp add: s2 endorsed_state_def ce_deposit_event_def s3 s1' storage_simps)
qed

theorem endorsees_count_forgets_witness:
  "\<exists>s1 s2. endorse_newcomer small_config (clock 4 Registering) small_communities demo_balances 2 demo_cid 9 small_genesis = Inr s1 \<and>
     endorse_newcomer small_config (clock 4 Registering) small_communities demo_balances 3 demo_cid 10 s1 = Inr s2 \<and>
     ce_endorsees s2 small_cc 9 = Some () \<and> ce_endorsees s2 small_cc 10 = Some () \<and> ce_endorsees_count s2 small_cc = Some 1"
proof -
  let ?endorse = "\<lambda>a b. endorse_newcomer small_config (clock 4 Registering) small_communities demo_balances a demo_cid b"
  have "is_ok (bind_res (?endorse 2 9 small_genesis) (?endorse 3 10))" by code_simp
  then obtain s1 s2 where s: "?endorse 2 9 small_genesis = Inr s1" "?endorse 3 10 s1 = Inr s2"
    by (cases "?endorse 2 9 small_genesis") (auto simp: is_ok_def split: sum.splits)
  have "endorsement_cindex (clock 4 Registering) = 4" by (simp add: endorsement_cindex_def scenario_defs)
  moreover have "\<not> registry_has (ce_newbie small_genesis) small_cc a" "registry_count (ce_endorsee small_genesis) small_cc = 0" for a
    by (simp_all add: scenario_defs registry_has_def registry_count_def)
  ultimately show ?thesis using endorsees_count_forgets[OF s] s by auto
qed

end
