(* ===== verification/Community_Properties.thy ===== *)
theory Community_Properties
  imports Communities
begin

text \<open>
  The properties of the communities pallet: the invariant over all calls, what a purge leaves
  behind, the minimum distance between locations and where it can be circumvented.
\<close>

section \<open>A small world\<close>

text \<open>
  One bucket for the whole world and distances without trigonometry, to run the operations on.
\<close>

definition flat_config :: communities_config where
  "flat_config =
     \<lparr>cc_max_community_identifiers = 10, cc_max_community_identifiers_per_geohash = 10,
      cc_max_locations_per_geohash = 10, cc_max_bootstrappers = 12,
      cc_try_from_params = (\<lambda>_ _. Some [7, 7, 7, 7, 7]),
      cc_neighbors = (\<lambda>_. Some \<lparr>nb_n = [8], nb_ne = [8], nb_e = [8], nb_se = [8], nb_s = [8], nb_sw = [8],
        nb_w = [8], nb_nw = [8]\<rparr>),
      cc_try_as_coordinates = (\<lambda>_. Some (0, 0, 0, 0)),
      cc_crc32 = take 4, cc_encode = (\<lambda>xs. xs @ [0, 0, 0, 0]),
      cc_mul = (\<lambda>a b. a * b div 2 ^ 64), cc_div = (\<lambda>a b. a * 2 ^ 64 div b), cc_sin = (\<lambda>x. x),
      cc_cos = (\<lambda>_. 2 ^ 64), cc_asin = (\<lambda>x. x), cc_sqrt = Some, cc_powi = (\<lambda>x _. Some \<bar>x\<bar>)\<rparr>"

definition origin :: Location where "origin = Location 0 0"
definition elsewhere :: Location where "elsewhere = Location (2 ^ 64) 0"

abbreviation first_cid :: CommunityIdentifier where
  "first_cid \<equiv> CommunityIdentifier [7, 7, 7, 7, 7] [2, 3, 4, 0]"

abbreviation second_cid :: CommunityIdentifier where
  "second_cid \<equiv> CommunityIdentifier [7, 7, 7, 7, 7] [5, 6, 9, 0]"

definition one_community :: "communities \<times> balances" where
  "one_community = projr (new_community flat_config True origin [2, 3, 4] default_metadata None None
     (communities_genesis 1 83) (balances_genesis 5))"

lemma default_metadata_valid: "metadata_validate default_metadata = Inr ()"
  by code_simp

lemma flat_dateline: "haversine_distance flat_config origin (Location 0 DATELINE_LON) = 20015086"
  by code_simp

lemma flat_distance_zero: "haversine_distance flat_config (Location 0 0) (Location 0 0) = 0"
  by code_simp

lemma flat_trip: "cm_max_speed_mps s = 83 \<Longrightarrow> solar_trip_time flat_config s (Location 0 0) (Location 0 0) = Some 0"
  by (simp add: solar_trip_time_def flat_distance_zero checked_div_def saturating_sub_def Let_def)

lemma flat_distance_far:
  "haversine_distance flat_config (Location 0 0) (Location 18446744073709551616 0) = 111194"
  "haversine_distance flat_config (Location 18446744073709551616 0) (Location 0 0) = 111194"
  "haversine_distance flat_config (Location 18446744073709551616 0) (Location 18446744073709551616 0) = 0"
  by code_simp+

lemma flat_trip_far:
  assumes "cm_max_speed_mps s = 83"
  shows "solar_trip_time flat_config s (Location 0 0) (Location 18446744073709551616 0) = Some 1339"
    "solar_trip_time flat_config s (Location 18446744073709551616 0) (Location 0 0) = Some 1339"
    "solar_trip_time flat_config s (Location 18446744073709551616 0) (Location 18446744073709551616 0) = Some 0"
  using assms flat_distance_far
  by (simp_all add: solar_trip_time_def checked_div_def saturating_sub_def Let_def wrap_i128_def saturated_into_u32_def)

lemma flat_dateline_elsewhere:
  "haversine_distance flat_config (Location 18446744073709551616 0) (Location 18446744073709551616 DATELINE_LON) = 20015086"
  by code_simp

text \<open>A second location is far enough from the origin.\<close>

lemma flat_validate_elsewhere:
  assumes speed: "cm_max_speed_mps s = 83" and solar: "cm_min_solar_trip_time_s s = 1"
    and "cids_by_geohash s [8] = []"
    and "\<And>cid. cid \<in> set (cids_by_geohash s [7, 7, 7, 7, 7]) \<Longrightarrow> locations s cid [7, 7, 7, 7, 7] = [origin]"
  shows "validate_location flat_config s elsewhere = Inr ()"
proof -
  define ls where "ls = concat (map (\<lambda>cid. locations s cid [7, 7, 7, 7, 7]) (cids_by_geohash s [7, 7, 7, 7, 7]))"
  have "get_relevant_neighbor_buckets flat_config s [7, 7, 7, 7, 7] elsewhere = Inr [[8], [8]]"
    using solar
    by (simp add: get_relevant_neighbor_buckets_def flat_config_def[THEN arg_cong[where f = cc_neighbors]]
        flat_config_def[THEN arg_cong[where f = cc_try_as_coordinates]] ok_or_def push_if_near_def elsewhere_def
        wrap_i128_def flat_trip_far[OF speed] Let_def)
  then have near: "get_nearby_locations flat_config s elsewhere = Inr ls"
    using assms(3)
    by (simp add: get_nearby_locations_def flat_config_def[THEN arg_cong[where f = cc_try_from_params]] ok_or_def ls_def)
  have "ensure_all_far flat_config s elsewhere xs = Inr ()" if "set xs \<subseteq> {origin}" for xs
    using that solar by (induction xs) (auto simp: ok_or_def ensure_def elsewhere_def origin_def flat_trip_far[OF speed])
  moreover have "set ls \<subseteq> {origin}" using assms(4) by (auto simp: ls_def)
  ultimately show ?thesis
    using flat_dateline_elsewhere near
    by (simp add: validate_location_def ensure_def is_valid_location_def elsewhere_def MAX_ABS_LATITUDE_def
        DATELINE_LON_def DATELINE_DISTANCE_M_def Let_def)
qed

lemma flat_neighbors:
  assumes "cm_max_speed_mps s = 83"
  shows "get_relevant_neighbor_buckets flat_config s [7, 7, 7, 7, 7] origin =
      Inr (if 0 < cm_min_solar_trip_time_s s then [[8], [8], [8], [8], [8], [8], [8], [8]] else [])"
  by (simp add: get_relevant_neighbor_buckets_def flat_config_def[THEN arg_cong[where f = cc_neighbors]]
      flat_config_def[THEN arg_cong[where f = cc_try_as_coordinates]] ok_or_def push_if_near_def origin_def
      wrap_i128_def flat_trip[OF assms] Let_def)

lemma flat_validate:
  assumes "cm_max_speed_mps s = 83" and "cids_by_geohash s = (\<lambda>_. [])"
  shows "validate_location flat_config s origin = Inr ()"
proof -
  have "get_nearby_locations flat_config s origin = Inr []"
    using assms(2) flat_neighbors[OF assms(1)]
    by (simp add: get_nearby_locations_def flat_config_def[THEN arg_cong[where f = cc_try_from_params]] ok_or_def)
  then show ?thesis
    using flat_dateline
    by (simp add: validate_location_def ensure_def is_valid_location_def origin_def MAX_ABS_LATITUDE_def
        DATELINE_LON_def DATELINE_DISTANCE_M_def Let_def)
qed

text \<open>Registering at the origin of the flat world, when nothing is indexed.\<close>

lemma flat_new_community:
  assumes "cm_max_speed_mps s = 83" and "cids_by_geohash s = (\<lambda>_. [])"
    and "CommunityIdentifier [7, 7, 7, 7, 7] (take 4 (bs @ [0, 0, 0, 0])) \<notin> set (cm_community_identifiers s)"
    and "length (cm_community_identifiers s) < 10" and "length bs = 3"
  defines "cid \<equiv> CommunityIdentifier [7, 7, 7, 7, 7] (take 4 (bs @ [0, 0, 0, 0]))"
  shows "\<exists>s'. new_community flat_config True origin bs default_metadata None None s b = Inr (s', b) \<and>
    cm_community_identifiers s' = cm_community_identifiers s @ [cid] \<and>
    cm_locations s' = (cm_locations s)(cid := bucket_insert [7, 7, 7, 7, 7] [origin] (cm_locations s cid)) \<and>
    cids_by_geohash s' = (cids_by_geohash s)([7, 7, 7, 7, 7] := [cid]) \<and> cm_max_speed_mps s' = 83 \<and>
    cm_min_solar_trip_time_s s' = cm_min_solar_trip_time_s s"
proof -
  have new: "cid \<notin> set (cm_community_identifiers s)" using assms(3) by (simp only: cid_def not_False_eq_True)
  have geo: "cc_try_from_params flat_config x y = Some [7, 7, 7, 7, 7]" for x y by (simp add: flat_config_def)
  have cid: "cid_new (cc_try_from_params flat_config) (cc_crc32 flat_config) (cc_encode flat_config) origin bs = Inr cid"
    by (simp add: cid_new_def geo cid_def) (simp add: flat_config_def)
  have "validate_bootstrappers flat_config bs = Inr ()"
    using assms(5) by (simp add: validate_bootstrappers_def ensure_def flat_config_def)
  moreover have idx: "index_cid flat_config [7, 7, 7, 7, 7] cid s = Inr (insert_cids_by_geohash [7, 7, 7, 7, 7] [cid] s)"
    using assms(2)
    by (simp add: index_cid_def binary_search_def try_insert_def vec_insert_def ok_or_def) (simp add: flat_config_def)
  moreover have "1 \<le> cc_max_locations_per_geohash flat_config" "10 = cc_max_community_identifiers flat_config"
    "length bs \<le> cc_max_bootstrappers flat_config" using assms(5) by (simp_all add: flat_config_def)
  ultimately show ?thesis
    unfolding new_community_def
    using flat_validate[OF assms(1,2)] default_metadata_valid assms(1,4) cid new
    by (simp add: ensure_def map_err_def ok_or_def geo cid_def[symmetric] Let_def)
       (simp add: cm_deposit_event_def insert_locations_def insert_cids_by_geohash_def cids_by_geohash_def fun_eq_iff)
qed

lemma genesis_ok: "communities_ok c (communities_genesis t v)"
  by (simp add: communities_ok_def communities_genesis_def locations_def bucket_get_def cids_by_geohash_def)

lemma genesis_places:
  "cids_by_geohash (communities_genesis t v) = (\<lambda>_. [])" "cm_community_identifiers (communities_genesis t v) = []"
  "cm_max_speed_mps (communities_genesis t v) = v" "cm_locations (communities_genesis t v) = (\<lambda>_. [])"
  "cm_min_solar_trip_time_s (communities_genesis t v) = t"
  by (simp_all add: communities_genesis_def cids_by_geohash_def fun_eq_iff)

lemma one_community_spec:
  obtains s where "one_community = (s, balances_genesis 5)" "fst one_community = s"
    "new_community flat_config True origin [2, 3, 4] default_metadata None None
       (communities_genesis 1 83) (balances_genesis 5) = Inr (s, balances_genesis 5)"
    "cm_community_identifiers s = [first_cid]"
    "cm_locations s = (\<lambda>_. [])(first_cid := [([7, 7, 7, 7, 7], [origin])])"
    "cids_by_geohash s = (\<lambda>_. [])([7, 7, 7, 7, 7] := [first_cid])"
    "cm_max_speed_mps s = 83" "cm_min_solar_trip_time_s s = 1"
proof -
  obtain s where "new_community flat_config True origin [2, 3, 4] default_metadata None None
       (communities_genesis 1 83) (balances_genesis 5) = Inr (s, balances_genesis 5)"
    "cm_community_identifiers s = [first_cid]"
    "cm_locations s = (\<lambda>_. [])(first_cid := [([7, 7, 7, 7, 7], [origin])])"
    "cids_by_geohash s = (\<lambda>_. [])([7, 7, 7, 7, 7] := [first_cid])"
    "cm_max_speed_mps s = 83" "cm_min_solar_trip_time_s s = 1"
    using flat_new_community[of "communities_genesis 1 83" "[2, 3, 4]" "balances_genesis 5"]
    by (auto simp: genesis_places)
  then show thesis using that[of s] unfolding one_community_def by simp
qed

section \<open>Properties\<close>

text \<open>C13: The books of the communities pallet stay consistent under every call: buckets and indices
  are sorted and free of duplicates, every location is stored under its own geohash, the identifiers are
  distinct, only registered communities have locations, and the index lists a community only
  for buckets in which it has a location.\<close>

theorem communities_invariant:
  assumes "(communities_step c)\<^sup>*\<^sup>* (communities_genesis t v, b) sb"
  shows "communities_ok c (fst sb)"
  using assms
proof induction
  case base
  then show ?case by (simp add: genesis_ok)
next
  case (step sb1 sb2)
  then show ?case using communities_step_ok by blast
qed

theorem communities_invariant_witness: "communities_ok flat_config (fst one_community)"
proof (rule one_community_spec)
  fix s assume "one_community = (s, balances_genesis 5)"
    "new_community flat_config True origin [2, 3, 4] default_metadata None None
       (communities_genesis 1 83) (balances_genesis 5) = Inr (s, balances_genesis 5)"
  then have "(communities_step flat_config)\<^sup>*\<^sup>* (communities_genesis 1 83, balances_genesis 5) one_community"
    by (auto intro: step_new)
  then show ?thesis by (rule communities_invariant)
qed

text \<open>C33: Purging a community leaves nothing of it behind, in either pallet: no identifier, no
  location, no index entry in any bucket, no bootstrappers, metadata or income, no balances, issuance
  or demurrage; and it leaves every other community as it was: its registration, locations, index
  entries, bootstrappers, metadata, nominal income, balances, issuance and demurrage.\<close>

theorem purge_erases_community:
  assumes "communities_ok c s" and "purge_community is_master cid s b = Inr (s', b')"
  shows "cid \<notin> set (cm_community_identifiers s') \<and> get_locations s' cid = [] \<and>
    (\<forall>g. cid \<notin> set (cids_by_geohash s' g)) \<and> cm_bootstrappers s' cid = None \<and>
    cm_community_metadata s' cid = None \<and> cm_nominal_income s' cid = None \<and>
    (\<forall>who. bl_balance b' cid who = None) \<and> bl_total_issuance b' cid = None \<and> bl_demurrage_per_block b' cid = None \<and>
    (\<forall>x g. x \<noteq> cid \<longrightarrow> locations s' x g = locations s x g \<and>
       (x \<in> set (cids_by_geohash s' g) \<longleftrightarrow> x \<in> set (cids_by_geohash s g)) \<and>
       cm_bootstrappers s' x = cm_bootstrappers s x \<and> cm_community_metadata s' x = cm_community_metadata s x \<and>
       cm_nominal_income s' x = cm_nominal_income s x \<and> bl_balance b' x = bl_balance b x \<and>
       bl_total_issuance b' x = bl_total_issuance b x \<and> bl_demurrage_per_block b' x = bl_demurrage_per_block b x) \<and>
    cm_community_identifiers s' = filter (\<lambda>x. x \<noteq> cid) (cm_community_identifiers s)"
proof -
  have "remove_community cid s b = (s', b')"
    using assms(2) by (simp add: purge_community_def ensure_def split: if_splits)
  note spec = remove_community_spec[OF assms(1) this]
  show ?thesis
    unfolding get_locations_def spec(4-9)
    by (auto simp: spec(2,3) purge_balances_def dm_remove_prefix_def)
qed

theorem purge_erases_community_witness:
  "\<exists>s' b'. purge_community True first_cid (fst one_community) (balances_genesis 5) = Inr (s', b') \<and>
     get_locations s' first_cid = [] \<and> cids_by_geohash s' [7, 7, 7, 7, 7] = []"
proof (rule one_community_spec)
  fix s assume one: "one_community = (s, balances_genesis 5)"
    "new_community flat_config True origin [2, 3, 4] default_metadata None None
       (communities_genesis 1 83) (balances_genesis 5) = Inr (s, balances_genesis 5)"
    "fst one_community = s"
    and cids: "cids_by_geohash s = (\<lambda>_. [])([7, 7, 7, 7, 7] := [first_cid])"
  obtain s' b' where p: "purge_community True first_cid s (balances_genesis 5) = Inr (s', b')"
    by (cases "remove_community first_cid s (balances_genesis 5)") (auto simp: purge_community_def ensure_def)
  have "communities_ok flat_config s" using new_community_ok(1)[OF genesis_ok one(2)] .
  note post = purge_erases_community[OF this p]
  have "x \<notin> set (cids_by_geohash s' [7, 7, 7, 7, 7])" for x
    using post cids by (cases "x = first_cid") auto
  then have "cids_by_geohash s' [7, 7, 7, 7, 7] = []" by (metis list.set_intros(1) neq_Nil_conv)
  moreover have "fst one_community = s" using one(3) .
  moreover have "get_locations s' first_cid = []" using post by blast
  ultimately show ?thesis using p by blast
qed

text \<open>Meetup locations keep their distance. When the index is complete, a location is added only
  if the solar trip time to every location of every community in its bucket is at least the minimum.\<close>

theorem added_location_keeps_distance:
  assumes "communities_ok c s" and "index_complete s"
    and "add_location c phase is_trustable cid location s = Inr s'"
    and "cc_try_from_params c (lat location) (lon location) = Some g" and "l \<in> set (locations s cid' g)"
  shows "\<exists>t. solar_trip_time c s location l = Some t \<and> cm_min_solar_trip_time_s s \<le> t"
proof -
  have "do_add_location c cid location s = Inr s'"
    using assms(3) by (simp add: add_location_def ensure_def split: if_splits)
  then have "validate_location c s location = Inr ()"
    by (rule do_add_location_cases[OF assms(1)])
  moreover have "cid' \<in> set (cids_by_geohash s g)" using assms(2,5) unfolding index_complete_def by (metis empty_iff list.set(1))
  ultimately show ?thesis using validate_location_far assms(4,5) by blast
qed

lemma one_community_index_complete: "index_complete (fst one_community)"
proof (rule one_community_spec)
  fix s assume "fst one_community = s"
    and new: "new_community flat_config True origin [2, 3, 4] default_metadata None None
       (communities_genesis 1 83) (balances_genesis 5) = Inr (s, balances_genesis 5)"
  moreover have "index_complete (communities_genesis 1 83)"
    by (simp add: index_complete_def locations_def genesis_places bucket_get_def)
  ultimately show ?thesis using new_community_ok(2)[OF genesis_ok new] by simp
qed

lemma one_community_ok: "communities_ok flat_config (fst one_community)"
proof (rule one_community_spec)
  fix s assume "fst one_community = s"
    and new: "new_community flat_config True origin [2, 3, 4] default_metadata None None
       (communities_genesis 1 83) (balances_genesis 5) = Inr (s, balances_genesis 5)"
  then show ?thesis using new_community_ok(1)[OF genesis_ok new] by simp
qed

lemma one_community_add: "\<exists>s'. add_location flat_config Registering True first_cid elsewhere (fst one_community) = Inr s'"
proof (rule one_community_spec)
  fix s assume one: "fst one_community = s"
    and ids: "cm_community_identifiers s = [first_cid]"
    and locs: "cm_locations s = (\<lambda>_. [])(first_cid := [([7, 7, 7, 7, 7], [origin])])"
    and cids: "cids_by_geohash s = (\<lambda>_. [])([7, 7, 7, 7, 7] := [first_cid])"
    and speed: "cm_max_speed_mps s = 83" and solar: "cm_min_solar_trip_time_s s = 1"
  have here: "locations s first_cid [7, 7, 7, 7, 7] = [origin]" by (simp add: locations_def locs bucket_get_def)
  have "validate_location flat_config s elsewhere = Inr ()"
    by (rule flat_validate_elsewhere[OF speed solar]) (auto simp: cids here split: if_splits)
  moreover have "binary_search elsewhere [origin] = Inl 1"
    by (simp add: binary_search_def elsewhere_def origin_def less_Location_def location_key_def)
  moreover have "index_cid flat_config [7, 7, 7, 7, 7] first_cid (insert_locations first_cid [7, 7, 7, 7, 7] ls s) =
      Inr (insert_locations first_cid [7, 7, 7, 7, 7] ls s)" for ls
    using cids by (simp add: index_cid_def binary_search_def)
  ultimately show ?thesis
    using one ids here
    by (simp add: add_location_def do_add_location_def ensure_def ensure_cid_exists_def ok_or_def try_insert_def
        flat_config_def[THEN arg_cong[where f = cc_try_from_params]]
        flat_config_def[THEN arg_cong[where f = cc_max_locations_per_geohash]])
qed

theorem added_location_keeps_distance_witness:
  "\<exists>t. solar_trip_time flat_config (fst one_community) elsewhere origin = Some t \<and>
     cm_min_solar_trip_time_s (fst one_community) \<le> t"
proof -
  obtain s' where add: "add_location flat_config Registering True first_cid elsewhere (fst one_community) = Inr s'"
    using one_community_add by blast
  have "origin \<in> set (locations (fst one_community) first_cid [7, 7, 7, 7, 7])"
    by (rule one_community_spec) (simp add: locations_def bucket_get_def)
  moreover have "cc_try_from_params flat_config (lat elsewhere) (lon elsewhere) = Some [7, 7, 7, 7, 7]"
    by (simp add: flat_config_def)
  ultimately show ?thesis
    using added_location_keeps_distance[OF one_community_ok one_community_index_complete add] by blast
qed

text \<open>The index stays complete as long as nobody removes a location that the community does not
  have: registering, adding, and removing an existing location all keep it.\<close>

theorem index_stays_complete:
  assumes "communities_ok c s" and "index_complete s"
  shows "(new_community c t location bs md dem inc s b = Inr (s', b') \<longrightarrow> index_complete s') \<and>
    (add_location c phase t cid location s = Inr s' \<longrightarrow> index_complete s') \<and>
    (remove_location c phase t cid location s = Inr s' \<longrightarrow>
       (\<forall>g. cc_try_from_params c (lat location) (lon location) = Some g \<longrightarrow> location \<in> set (locations s cid g)) \<longrightarrow>
       index_complete s')"
proof (intro conjI impI)
  show "index_complete s'" if "new_community c t location bs md dem inc s b = Inr (s', b')"
    using new_community_ok(2)[OF assms(1) that assms(2)] .
  show "index_complete s'" if "add_location c phase t cid location s = Inr s'"
    using that do_add_location_ok(2)[OF assms(1)] assms(2) by (simp add: add_location_def ensure_def split: if_splits)
  assume "remove_location c phase t cid location s = Inr s'"
    and here: "\<forall>g. cc_try_from_params c (lat location) (lon location) = Some g \<longrightarrow> location \<in> set (locations s cid g)"
  then obtain g where "cc_try_from_params c (lat location) (lon location) = Some g"
    "s' = cm_deposit_event (LocationRemoved cid location) (remove_location_intern cid location g s)"
    by (auto simp: remove_location_def do_remove_location_def ensure_def ensure_cid_exists_def ok_or_def
        split: if_splits option.splits)
  then show "index_complete s'"
    using remove_location_intern_complete[OF assms] here by (simp add: index_complete_def)
qed

theorem index_stays_complete_witness:
  "\<exists>s'. add_location flat_config Registering True first_cid elsewhere (fst one_community) = Inr s' \<and> index_complete s'"
  using index_stays_complete[OF one_community_ok one_community_index_complete] one_community_add by blast

text \<open>Removing a location that a community does not have hides the ones it does have: the community
  is dropped from the index of the bucket although it still has a location there, and
  afterwards another community can be registered at the very same place, which the minimum
  distance check refuses before.\<close>

theorem removal_of_missing_location_defeats_distance_check:
  "\<exists>s s' s'' b''. one_community = (s, balances_genesis 5) \<and>
     remove_location flat_config Registering True first_cid elsewhere s = Inr s' \<and>
     new_community flat_config True origin [5, 6, 9] default_metadata None None s' (balances_genesis 5) =
       Inr (s'', b'') \<and>
     get_locations s'' first_cid = [origin] \<and> get_locations s'' second_cid = [origin] \<and>
     validate_location flat_config s origin = Inl MinimumDistanceViolationToOtherLocation"
proof (rule one_community_spec)
  fix s assume one: "one_community = (s, balances_genesis 5)"
    and ids: "cm_community_identifiers s = [first_cid]"
    and locs: "cm_locations s = (\<lambda>_. [])(first_cid := [([7, 7, 7, 7, 7], [origin])])"
    and cids: "cids_by_geohash s = (\<lambda>_. [])([7, 7, 7, 7, 7] := [first_cid])"
    and speed: "cm_max_speed_mps s = 83" and solar: "cm_min_solar_trip_time_s s = 1"
    and new: "new_community flat_config True origin [2, 3, 4] default_metadata None None
       (communities_genesis 1 83) (balances_genesis 5) = Inr (s, balances_genesis 5)"
  have ok: "communities_ok flat_config s" using new_community_ok(1)[OF genesis_ok new] .
  note spec = remove_location_intern_spec[OF ok_distinct[OF ok], where cid = first_cid and l = elsewhere
      and g = "[7, 7, 7, 7, 7]"]
  define s1 where "s1 = remove_location_intern first_cid elsewhere [7, 7, 7, 7, 7] s"
  have here: "locations s first_cid [7, 7, 7, 7, 7] = [origin]" by (simp add: locations_def locs bucket_get_def)
  have ne: "elsewhere \<noteq> origin" by (simp add: elsewhere_def origin_def)
  have s1: "cids_by_geohash s1 = (\<lambda>_. [])" "locations s1 first_cid [7, 7, 7, 7, 7] = [origin]"
    using here ne by (auto simp: s1_def spec(1,2) cids fun_eq_iff)
  have locs1: "cm_locations s1 = cm_locations s"
    using here cids by (simp add: s1_def remove_location_intern_def binary_search_def elsewhere_def origin_def
        vec_remove_def Let_def insert_cids_by_geohash_def)
  define s' where "s' = cm_deposit_event (LocationRemoved first_cid elsewhere) s1"
  have rem: "remove_location flat_config Registering True first_cid elsewhere s = Inr s'"
    using ids by (simp add: remove_location_def ensure_def do_remove_location_def ensure_cid_exists_def ok_or_def
        s'_def s1_def flat_config_def)
  have "cm_max_speed_mps s' = 83" "cm_community_identifiers s' = [first_cid]"
    using core_fields[OF spec(7)] speed ids by (simp_all add: s'_def s1_def cm_deposit_event_def)
  then obtain s'' where s'': "new_community flat_config True origin [5, 6, 9] default_metadata None None s' (balances_genesis 5) =
      Inr (s'', balances_genesis 5)"
    "cm_locations s'' = (cm_locations s')(second_cid := bucket_insert [7, 7, 7, 7, 7] [origin] (cm_locations s' second_cid))"
    using flat_new_community[of s' "[5, 6, 9]" "balances_genesis 5"] s1(1) by (auto simp: s'_def)
  have "get_locations s'' first_cid = [origin]" "get_locations s'' second_cid = [origin]"
    using s''(2) locs1 locs by (simp_all add: get_locations_def s'_def cm_deposit_event_def)
  moreover have "validate_location flat_config s origin = Inl MinimumDistanceViolationToOtherLocation"
  proof -
    have "get_nearby_locations flat_config s origin = Inr [origin]"
      using cids here flat_neighbors[OF speed] solar
      by (simp add: get_nearby_locations_def flat_config_def[THEN arg_cong[where f = cc_try_from_params]] ok_or_def)
    then show ?thesis
      using flat_dateline flat_trip[OF speed] solar
      by (simp add: validate_location_def ensure_def is_valid_location_def origin_def MAX_ABS_LATITUDE_def
          DATELINE_LON_def DATELINE_DISTANCE_M_def Let_def ok_or_def)
  qed
  ultimately show ?thesis using one rem s''(1) by blast
qed

end
