(* ===== verification/Bazaar.thy ===== *)
theory Bazaar
  imports Communities
begin

text \<open>
  The bazaar pallet, \<open>bazaar/src/lib.rs\<close> with \<open>primitives/src/bazaar.rs\<close>, and the vouches pallet,
  \<open>vouches/src/lib.rs\<close> with \<open>primitives/src/vouches.rs\<close>: two registries that accounts fill for
  themselves. A \<open>PalletString\<close> is a byte list; its bound of 256 bytes is that of the type and is
  not repeated. The two read-only listings are in Bazaar_Rpc.
\<close>

section \<open>Businesses and offerings\<close>

record BusinessData =
  bd_url :: bytes
  bd_last_oid :: nat

record OfferingData =
  od_url :: bytes

type_synonym BusinessIdentifier = "CommunityIdentifier \<times> AccountId"

datatype bazaar_event =
    BusinessCreated CommunityIdentifier AccountId
  | BusinessUpdated CommunityIdentifier AccountId
  | BusinessDeleted CommunityIdentifier AccountId
  | OfferingCreated CommunityIdentifier AccountId nat
  | OfferingUpdated CommunityIdentifier AccountId nat
  | OfferingDeleted CommunityIdentifier AccountId nat

datatype bazaar_error = NonexistentCommunity | ExistingBusiness | NonexistentBusiness | NonexistentOffering

record bazaar =
  bz_business_registry :: "CommunityIdentifier \<Rightarrow> AccountId \<Rightarrow> BusinessData option"
  bz_offering_registry :: "BusinessIdentifier \<Rightarrow> nat \<Rightarrow> OfferingData option"
  bz_events :: "bazaar_event list"

definition bazaar_genesis :: bazaar where
  "bazaar_genesis = \<lparr>bz_business_registry = (\<lambda>_. Map.empty), bz_offering_registry = (\<lambda>_. Map.empty), bz_events = []\<rparr>"

definition business_default :: BusinessData where
  "business_default = \<lparr>bd_url = [], bd_last_oid = 0\<rparr>"

definition bz_deposit_event :: "bazaar_event \<Rightarrow> bazaar \<Rightarrow> bazaar" where
  "bz_deposit_event e s = s\<lparr>bz_events := bz_events s @ [e]\<rparr>"

definition create_business ::
  "communities \<Rightarrow> AccountId \<Rightarrow> CommunityIdentifier \<Rightarrow> bytes \<Rightarrow> bazaar \<Rightarrow> bazaar_error + bazaar" where
  "create_business cm sender cid url s =
     ensure (cid \<in> set (cm_community_identifiers cm)) NonexistentCommunity (
     ensure (\<not> contains (bz_business_registry s cid sender)) ExistingBusiness (
     Inr (bz_deposit_event (BusinessCreated cid sender)
       (s\<lparr>bz_business_registry :=
            dm_insert cid sender \<lparr>bd_url = url, bd_last_oid = 1\<rparr> (bz_business_registry s)\<rparr>))))"

definition update_business ::
  "AccountId \<Rightarrow> CommunityIdentifier \<Rightarrow> bytes \<Rightarrow> bazaar \<Rightarrow> bazaar_error + bazaar" where
  "update_business sender cid url s =
     ensure (contains (bz_business_registry s cid sender)) NonexistentBusiness (
     let b = value_query business_default (bz_business_registry s cid sender)
     in Inr (bz_deposit_event (BusinessUpdated cid sender)
          (s\<lparr>bz_business_registry := dm_insert cid sender (b\<lparr>bd_url := url\<rparr>) (bz_business_registry s)\<rparr>)))"

definition delete_business :: "AccountId \<Rightarrow> CommunityIdentifier \<Rightarrow> bazaar \<Rightarrow> bazaar_error + bazaar" where
  "delete_business sender cid s =
     ensure (contains (bz_business_registry s cid sender)) NonexistentBusiness (
     Inr (bz_deposit_event (BusinessDeleted cid sender)
       (s\<lparr>bz_business_registry := dm_remove cid sender (bz_business_registry s),
          bz_offering_registry := dm_remove_prefix (cid, sender) (bz_offering_registry s)\<rparr>)))"

definition create_offering ::
  "AccountId \<Rightarrow> CommunityIdentifier \<Rightarrow> bytes \<Rightarrow> bazaar \<Rightarrow> bazaar_error + bazaar" where
  "create_offering sender cid url s =
     ensure (contains (bz_business_registry s cid sender)) NonexistentBusiness (
     let b = value_query business_default (bz_business_registry s cid sender);
         oid = bd_last_oid b
     in Inr (bz_deposit_event (OfferingCreated cid sender oid)
          (s\<lparr>bz_business_registry :=
               dm_insert cid sender (b\<lparr>bd_last_oid := wrapping_add 32 oid 1\<rparr>) (bz_business_registry s),
             bz_offering_registry := dm_insert (cid, sender) oid \<lparr>od_url = url\<rparr> (bz_offering_registry s)\<rparr>)))"

definition update_offering ::
  "AccountId \<Rightarrow> CommunityIdentifier \<Rightarrow> nat \<Rightarrow> bytes \<Rightarrow> bazaar \<Rightarrow> bazaar_error + bazaar" where
  "update_offering sender cid oid url s =
     ensure (contains (bz_offering_registry s (cid, sender) oid)) NonexistentOffering (
     Inr (bz_deposit_event (OfferingUpdated cid sender oid)
       (s\<lparr>bz_offering_registry := dm_insert (cid, sender) oid \<lparr>od_url = url\<rparr> (bz_offering_registry s)\<rparr>)))"

definition delete_offering :: "AccountId \<Rightarrow> CommunityIdentifier \<Rightarrow> nat \<Rightarrow> bazaar \<Rightarrow> bazaar_error + bazaar" where
  "delete_offering sender cid oid s =
     ensure (contains (bz_offering_registry s (cid, sender) oid)) NonexistentOffering (
     Inr (bz_deposit_event (OfferingDeleted cid sender oid)
       (s\<lparr>bz_offering_registry := dm_remove (cid, sender) oid (bz_offering_registry s)\<rparr>)))"

section \<open>Vouches\<close>

datatype PresenceType = Asynchronous | LiveVirtual | LivePhysical

datatype VouchKind =
    UnspecifiedVouch
  | KnownHuman PresenceType
  | EncounteredHuman PresenceType
  | EncounteredObject PresenceType
  | VisitedPlace PresenceType
  | AttendedEvent PresenceType

datatype VouchQuality = UnspecifiedQuality | Badge bytes | Rating nat

record Vouch =
  vo_protected :: bool
  vo_timestamp :: nat
  vo_kind :: VouchKind
  vo_quality :: VouchQuality

datatype vouches_event = VouchedFor AccountId AccountId VouchKind

datatype vouches_error = TooManyVouchesForAttestee

record vouches =
  vo_vouches :: "AccountId \<Rightarrow> AccountId \<Rightarrow> Vouch list option"
  vo_events :: "vouches_event list"

definition vouches_genesis :: vouches where
  "vouches_genesis = \<lparr>vo_vouches = (\<lambda>_. Map.empty), vo_events = []\<rparr>"

definition get_vouches :: "vouches \<Rightarrow> AccountId \<Rightarrow> AccountId \<Rightarrow> Vouch list" where
  "get_vouches s attestee attester = value_query [] (vo_vouches s attestee attester)"

definition vouch_for ::
  "nat \<Rightarrow> nat \<Rightarrow> AccountId \<Rightarrow> AccountId \<Rightarrow> VouchKind \<Rightarrow> VouchQuality \<Rightarrow> vouches \<Rightarrow> vouches_error + vouches" where
  "vouch_for max_vouches now attester attestee vouch_kind quality s =
     (let vouch = \<lparr>vo_protected = False, vo_timestamp = now, vo_kind = vouch_kind, vo_quality = quality\<rparr>;
          vs = get_vouches s attestee attester
      in if max_vouches \<le> length vs then Inl TooManyVouchesForAttestee
         else Inr (s\<lparr>vo_vouches := dm_insert attestee attester (vs @ [vouch]) (vo_vouches s),
                     vo_events := vo_events s @ [VouchedFor attestee attester vouch_kind]\<rparr>))"

section \<open>Invariants\<close>

text \<open>
  The offerings of an account in a community belong to its business, and have identifiers that business
  has given out; \<open>n\<close> bounds how many it can have given out.
\<close>

definition business_ok :: "nat \<Rightarrow> BusinessData option \<Rightarrow> (nat \<Rightarrow> OfferingData option) \<Rightarrow> bool" where
  "business_ok n business offerings \<longleftrightarrow>
     (case business of
        None \<Rightarrow> offerings = Map.empty
      | Some b \<Rightarrow> 1 \<le> bd_last_oid b \<and> bd_last_oid b \<le> n + 1 \<and> (\<forall>oid y. offerings oid = Some y \<longrightarrow> 1 \<le> oid \<and> oid < bd_last_oid b))"

definition bazaar_ok :: "nat \<Rightarrow> bazaar \<Rightarrow> bool" where
  "bazaar_ok n s \<longleftrightarrow> (\<forall>cid a. business_ok n (bz_business_registry s cid a) (bz_offering_registry s (cid, a)))"

inductive bazaar_call :: "bazaar \<Rightarrow> bazaar \<Rightarrow> bool" where
  call_create_business: "create_business cm a cid url s = Inr s' \<Longrightarrow> bazaar_call s s'"
| call_update_business: "update_business a cid url s = Inr s' \<Longrightarrow> bazaar_call s s'"
| call_delete_business: "delete_business a cid s = Inr s' \<Longrightarrow> bazaar_call s s'"
| call_create_offering: "create_offering a cid url s = Inr s' \<Longrightarrow> bazaar_call s s'"
| call_update_offering: "update_offering a cid oid url s = Inr s' \<Longrightarrow> bazaar_call s s'"
| call_delete_offering: "delete_offering a cid oid s = Inr s' \<Longrightarrow> bazaar_call s s'"

lemmas bazaar_defs = create_business_def update_business_def delete_business_def create_offering_def
  update_offering_def delete_offering_def bz_deposit_event_def Let_def

lemma bazaar_okD: "bazaar_ok n s \<Longrightarrow> business_ok n (bz_business_registry s cid a) (bz_offering_registry s (cid, a))"
  by (simp add: bazaar_ok_def)

text \<open>Each call concerns one business; the others stay as they are.\<close>

lemma bazaar_ok_change:
  assumes "bazaar_ok n s" and "business_ok (n + 1) (bz_business_registry s' cid a) (bz_offering_registry s' (cid, a))"
    and "\<And>cid' a'. (cid', a') \<noteq> (cid, a) \<Longrightarrow> bz_business_registry s' cid' a' = bz_business_registry s cid' a' \<and>
      bz_offering_registry s' (cid', a') = bz_offering_registry s (cid', a')"
  shows "bazaar_ok (n + 1) s'"
  unfolding bazaar_ok_def
proof (intro allI)
  fix cid' a'
  show "business_ok (n + 1) (bz_business_registry s' cid' a') (bz_offering_registry s' (cid', a'))"
    using bazaar_okD[OF assms(1), of cid' a'] assms(2,3)
    by (cases "(cid', a') = (cid, a)") (auto simp: business_ok_def split: option.splits)
qed

lemma bazaar_call_ok:
  assumes "bazaar_call s s'" and ok: "bazaar_ok n s" and small: "n + 2 < 2 ^ 32"
  shows "bazaar_ok (n + 1) s'"
  using assms(1)
proof cases
  case (call_create_business cm a cid url)
  then show ?thesis using bazaar_okD[OF ok, of cid a]
    by (intro bazaar_ok_change[OF ok, of s' cid a]) (auto simp: bazaar_defs res_simps business_ok_def dm_insert_def)
next
  case (call_update_business a cid url)
  then show ?thesis using bazaar_okD[OF ok, of cid a]
    by (intro bazaar_ok_change[OF ok, of s' cid a]) (auto simp: bazaar_defs res_simps business_ok_def dm_insert_def)
next
  case (call_delete_business a cid)
  then show ?thesis
    by (intro bazaar_ok_change[OF ok, of s' cid a])
      (auto simp: bazaar_defs res_simps business_ok_def dm_remove_def dm_remove_prefix_def)
next
  case (call_create_offering a cid url)
  then obtain b where b: "bz_business_registry s cid a = Some b" by (auto simp: bazaar_defs res_simps)
  have "wrapping_add 32 (bd_last_oid b) 1 = bd_last_oid b + 1"
    using bazaar_okD[OF ok, of cid a] b small by (intro wrapping_add_exact) (simp add: business_ok_def)
  then show ?thesis using call_create_offering bazaar_okD[OF ok, of cid a] b
    by (intro bazaar_ok_change[OF ok, of s' cid a])
      (auto simp: bazaar_defs res_simps business_ok_def dm_insert_def less_Suc_eq split: if_splits)
next
  case (call_update_offering a cid oid url)
  then show ?thesis using bazaar_okD[OF ok, of cid a]
    by (intro bazaar_ok_change[OF ok, of s' cid a])
      (auto simp: bazaar_defs res_simps business_ok_def dm_insert_def split: option.splits if_splits)
next
  case (call_delete_offering a cid oid)
  then show ?thesis using bazaar_okD[OF ok, of cid a]
    by (intro bazaar_ok_change[OF ok, of s' cid a])
      (auto simp: bazaar_defs res_simps business_ok_def dm_remove_def split: option.splits if_splits)
qed

text \<open>The bound on the number of calls keeps the 32-bit counter of every business from wrapping around.\<close>

lemma bazaar_calls_ok:
  assumes "(bazaar_call ^^ n) bazaar_genesis s" and "n + 1 < 2 ^ 32"
  shows "bazaar_ok n s"
  using assms
proof (induction n arbitrary: s)
  case 0
  then have "s = bazaar_genesis" by simp
  then show ?case by (simp add: bazaar_ok_def business_ok_def bazaar_genesis_def)
next
  case (Suc n)
  then obtain s1 where "(bazaar_call ^^ n) bazaar_genesis s1" "bazaar_call s1 s" by auto
  then show ?case using Suc bazaar_call_ok[of s1 s n] by simp
qed

text \<open>Creating an offering takes a new identifier, so it never overwrites one; deleting a business leaves none of its offerings.\<close>

lemma offering_taken_fresh:
  assumes "(bazaar_call ^^ n) bazaar_genesis s" and "n + 1 < 2 ^ 32" and "create_offering a cid url s = Inr s'"
  shows "\<exists>oid. bz_offering_registry s (cid, a) oid = None \<and>
    bz_offering_registry s' = dm_insert (cid, a) oid \<lparr>od_url = url\<rparr> (bz_offering_registry s)"
proof -
  obtain b where b: "bz_business_registry s cid a = Some b" using assms(3) by (auto simp: bazaar_defs res_simps)
  have "bd_last_oid b \<notin> dom (bz_offering_registry s (cid, a))"
    using bazaar_okD[OF bazaar_calls_ok[OF assms(1,2)], of cid a] b by (auto simp: business_ok_def)
  then show ?thesis using assms(3) b by (auto simp: bazaar_defs res_simps)
qed

lemma vouches_bounded:
  assumes "vouch_for m now a b k q s = Inr s'" and "\<forall>x y. length (get_vouches s x y) \<le> m"
  shows "(\<forall>x y. length (get_vouches s' x y) \<le> m) \<and> (\<forall>x y. \<exists>vs. get_vouches s' x y = get_vouches s x y @ vs)"
  using assms by (auto simp: vouch_for_def get_vouches_def Let_def storage_simps split: if_splits)

text \<open>Offerings are never overwritten and never outlive their business. After any number of calls below the
  range of the 32-bit counters, every stored offering belongs to an existing business and has an
  identifier that the business gave out; a new offering gets an identifier that is not in use.\<close>

theorem offering_fresh:
  assumes "(bazaar_call ^^ n) bazaar_genesis s" and "n + 1 < 2 ^ 32" and "create_offering a cid url s = Inr s'"
  shows "(\<forall>cid' a' oid y. bz_offering_registry s (cid', a') oid = Some y \<longrightarrow>
      (\<exists>b. bz_business_registry s cid' a' = Some b \<and> 1 \<le> oid \<and> oid < bd_last_oid b)) \<and>
    (\<exists>oid. bz_offering_registry s (cid, a) oid = None \<and>
       bz_offering_registry s' = dm_insert (cid, a) oid \<lparr>od_url = url\<rparr> (bz_offering_registry s))"
proof (intro conjI allI impI)
  fix cid' a' oid y assume "bz_offering_registry s (cid', a') oid = Some y"
  then show "\<exists>b. bz_business_registry s cid' a' = Some b \<and> 1 \<le> oid \<and> oid < bd_last_oid b"
    using bazaar_okD[OF bazaar_calls_ok[OF assms(1,2)], of cid' a'] by (auto simp: business_ok_def split: option.splits)
qed (rule offering_taken_fresh[OF assms])

definition one_shop :: "communities \<Rightarrow> bazaar_error + bazaar" where
  "one_shop cm = bind_res (create_business cm 7 demo_cid [65] bazaar_genesis) (create_offering 7 demo_cid [66])"

lemma one_shop:
  assumes "demo_cid \<in> set (cm_community_identifiers cm)"
  obtains s0 s1 where "create_business cm 7 demo_cid [65] bazaar_genesis = Inr s0" "create_offering 7 demo_cid [66] s0 = Inr s1"
    "bz_offering_registry s1 (demo_cid, 7) = [1 \<mapsto> \<lparr>od_url = [66]\<rparr>]" "bz_business_registry s1 demo_cid 7 \<noteq> None"
proof -
  obtain s0 where s0: "create_business cm 7 demo_cid [65] bazaar_genesis = Inr s0"
    "bz_business_registry s0 demo_cid 7 = Some \<lparr>bd_url = [65], bd_last_oid = 1\<rparr>" "bz_offering_registry s0 = (\<lambda>_. Map.empty)"
    using assms by (simp add: bazaar_defs ensure_def contains_def bazaar_genesis_def storage_simps)
  have "contains (bz_business_registry s0 demo_cid 7)" "bd_last_oid (value_query business_default (bz_business_registry s0 demo_cid 7)) = 1"
    unfolding s0(2) by (simp_all add: contains_def value_query_def)
  then have "\<exists>s1. create_offering 7 demo_cid [66] s0 = Inr s1 \<and> bz_business_registry s1 demo_cid 7 \<noteq> None \<and>
    bz_offering_registry s1 = dm_insert (demo_cid, 7) 1 \<lparr>od_url = [66]\<rparr> (bz_offering_registry s0)"
    unfolding create_offering_def ensure_def Let_def bz_deposit_event_def by (simp only: simp_thms if_True) (simp add: storage_simps)
  then obtain s1 where "create_offering 7 demo_cid [66] s0 = Inr s1" "bz_business_registry s1 demo_cid 7 \<noteq> None"
    "bz_offering_registry s1 = dm_insert (demo_cid, 7) 1 \<lparr>od_url = [66]\<rparr> (bz_offering_registry s0)" by blast
  moreover from this(3) have "bz_offering_registry s1 (demo_cid, 7) = [1 \<mapsto> \<lparr>od_url = [66]\<rparr>]"
    unfolding s0(3) by (simp add: dm_insert_def)
  ultimately show thesis using that s0(1) by blast
qed

theorem offering_fresh_witness:
  "\<exists>s s' oid. one_shop ((communities_genesis 1 83)\<lparr>cm_community_identifiers := [demo_cid]\<rparr>) = Inr s \<and>
     create_offering 7 demo_cid [67] s = Inr s' \<and> oid \<noteq> 1 \<and>
     bz_offering_registry s' (demo_cid, 7) = [1 \<mapsto> \<lparr>od_url = [66]\<rparr>, oid \<mapsto> \<lparr>od_url = [67]\<rparr>]"
proof -
  let ?cm = "(communities_genesis 1 83)\<lparr>cm_community_identifiers := [demo_cid]\<rparr>"
  have "demo_cid \<in> set (cm_community_identifiers ?cm)" by simp
  then obtain s0 s1 where s: "create_business ?cm 7 demo_cid [65] bazaar_genesis = Inr s0" "create_offering 7 demo_cid [66] s0 = Inr s1"
    "bz_offering_registry s1 (demo_cid, 7) = [1 \<mapsto> \<lparr>od_url = [66]\<rparr>]" "bz_business_registry s1 demo_cid 7 \<noteq> None"
    by (rule one_shop)
  have "(bazaar_call ^^ 2) bazaar_genesis s1"
    using call_create_business[OF s(1)] call_create_offering[OF s(2)] by (auto simp: numeral_2_eq_2)
  moreover obtain s' where s': "create_offering 7 demo_cid [67] s1 = Inr s'"
    using s(4) by (auto simp: bazaar_defs ensure_def contains_def)
  ultimately obtain oid where oid: "bz_offering_registry s1 (demo_cid, 7) oid = None"
    "bz_offering_registry s' = dm_insert (demo_cid, 7) oid \<lparr>od_url = [67]\<rparr> (bz_offering_registry s1)"
    using offering_fresh[of 2 s1 7 demo_cid "[67]" s'] by auto
  have "oid \<noteq> 1" using oid(1) s(3) by auto
  moreover have "one_shop ?cm = Inr s1" unfolding one_shop_def s(1) bind_res_def using s(2) by simp
  moreover have "bz_offering_registry s' (demo_cid, 7) = [1 \<mapsto> \<lparr>od_url = [66]\<rparr>, oid \<mapsto> \<lparr>od_url = [67]\<rparr>]"
    unfolding oid(2) using s(3) by (simp add: dm_insert_def)
  ultimately show ?thesis using s' by blast
qed

end
