(* ===== verification/Commitments.thy ===== *)
theory Commitments
  imports Meetups
begin

text \<open>
  The reputation commitments pallet, \<open>reputation-commitments/src/lib.rs\<close>: purposes, and the
  commitment of an attendance to a purpose, which is possible once per purpose. Faucets and the
  votes of the democracy pallet are built on it.
\<close>

section \<open>The pallet\<close>

type_synonym commitment_hash = "bytes option"

datatype commitments_event =
    RegisteredCommitmentPurpose nat bytes
  | CommitedReputation CommunityIdentifier nat nat AccountId commitment_hash
  | CommitmentRegistryPurged nat

datatype commitments_error = AlreadyCommitted | NoReputation | PurposeRegistryOverflow | InexistentPurpose

record commitments =
  rc_current_purpose_id :: nat
  rc_purposes :: "nat \<Rightarrow> bytes option"
  rc_commitments :: "CommunityCeremony \<Rightarrow> nat \<times> AccountId \<Rightarrow> commitment_hash option"
  rc_events :: "commitments_event list"

definition commitments_genesis :: commitments where
  "commitments_genesis =
     \<lparr>rc_current_purpose_id = 0, rc_purposes = Map.empty, rc_commitments = (\<lambda>_. Map.empty), rc_events = []\<rparr>"

definition rc_deposit_event :: "commitments_event \<Rightarrow> commitments \<Rightarrow> commitments" where
  "rc_deposit_event e s = s\<lparr>rc_events := rc_events s @ [e]\<rparr>"

definition do_register_purpose :: "bytes \<Rightarrow> commitments \<Rightarrow> commitments_error + (nat \<times> commitments)" where
  "do_register_purpose descriptor s =
     (let current_id = rc_current_purpose_id s in
      bind_res (ok_or (checked_add 64 current_id 1) PurposeRegistryOverflow) (\<lambda>next_id.
      Inr (current_id, rc_deposit_event (RegisteredCommitmentPurpose current_id descriptor)
        (s\<lparr>rc_current_purpose_id := next_id, rc_purposes := (rc_purposes s)(current_id \<mapsto> descriptor)\<rparr>))))"

definition register_purpose :: "bytes \<Rightarrow> commitments \<Rightarrow> commitments_error + commitments" where
  "register_purpose descriptor s = bind_res (do_register_purpose descriptor s) (\<lambda>(_, s'). Inr s')"

definition do_commit_reputation ::
  "ceremonies \<Rightarrow> AccountId \<Rightarrow> CommunityIdentifier \<Rightarrow> nat \<Rightarrow> nat \<Rightarrow> commitment_hash \<Rightarrow> commitments \<Rightarrow>
   commitments_error + commitments" where
  "do_commit_reputation ce account cid cindex purpose hash s =
     ensure (contains (rc_purposes s purpose)) InexistentPurpose (
     ensure (is_verified (participant_reputation ce (cid, cindex) account)) NoReputation (
     ensure (\<not> contains (rc_commitments s (cid, cindex) (purpose, account))) AlreadyCommitted (
     Inr (rc_deposit_event (CommitedReputation cid cindex purpose account hash)
       (s\<lparr>rc_commitments := dm_insert (cid, cindex) (purpose, account) hash (rc_commitments s)\<rparr>)))))"

definition commit_reputation ::
  "ceremonies \<Rightarrow> AccountId \<Rightarrow> CommunityIdentifier \<Rightarrow> nat \<Rightarrow> nat \<Rightarrow> commitment_hash \<Rightarrow> commitments \<Rightarrow>
   commitments_error + commitments" where
  "commit_reputation ce from cid cindex purpose hash s = do_commit_reputation ce from cid cindex purpose hash s"

definition commitments_purge_registry :: "communities \<Rightarrow> nat \<Rightarrow> commitments \<Rightarrow> commitments" where
  "commitments_purge_registry cm cindex s =
     rc_deposit_event (CommitmentRegistryPurged cindex)
       (foldl (\<lambda>s cid. s\<lparr>rc_commitments := dm_remove_prefix (cid, cindex) (rc_commitments s)\<rparr>) s
         (cm_community_identifiers cm))"

definition commitments_on_phase_change ::
  "scheduler \<Rightarrow> communities \<Rightarrow> ceremonies \<Rightarrow> CeremonyPhaseType \<Rightarrow> commitments \<Rightarrow> commitments" where
  "commitments_on_phase_change sch cm ce new_phase s =
     (case new_phase of
        Registering \<Rightarrow>
          (if sc_ceremony_index sch > ce_reputation_lifetime ce
           then commitments_purge_registry cm
             (saturating_sub (saturating_sub (sc_ceremony_index sch) (ce_reputation_lifetime ce)) 1) s
           else s)
      | Assigning \<Rightarrow> s
      | Attesting \<Rightarrow> s)"

section \<open>Lemmas\<close>

text \<open>A purpose that is handed out is new, and all purposes are below the counter.\<close>

definition purposes_ok :: "commitments \<Rightarrow> bool" where
  "purposes_ok s \<longleftrightarrow>
     (\<forall>p. rc_purposes s p \<noteq> None \<longleftrightarrow> p < rc_current_purpose_id s) \<and>
     (\<forall>cc p a. rc_commitments s cc (p, a) \<noteq> None \<longrightarrow> p < rc_current_purpose_id s)"

lemma genesis_purposes_ok: "purposes_ok commitments_genesis"
  by (simp add: purposes_ok_def commitments_genesis_def)

lemma do_register_purpose_cases:
  assumes "do_register_purpose d s = Inr (p, s')"
  shows "p = rc_current_purpose_id s" and "rc_current_purpose_id s' = p + 1"
    and "rc_purposes s' = (rc_purposes s)(p \<mapsto> d)" and "rc_commitments s' = rc_commitments s" and "p + 1 < 2 ^ 64"
  using assms by (auto simp: do_register_purpose_def Let_def res_simps arith_ops rc_deposit_event_def)

lemma do_register_purpose_ok:
  assumes "do_register_purpose d s = Inr (p, s')" and "purposes_ok s"
  shows "purposes_ok s'" and "rc_purposes s p = None" and "rc_commitments s cc (p, a) = None"
proof -
  note c = do_register_purpose_cases[OF assms(1)]
  show "rc_purposes s p = None" "rc_commitments s cc (p, a) = None"
    using assms(2) c(1) unfolding purposes_ok_def by blast+
  show "purposes_ok s'"
    using assms(2) unfolding purposes_ok_def c(2-4) c(1) by (auto simp: less_Suc_eq)
qed

lemma do_commit_reputation_cases:
  assumes "do_commit_reputation ce a cid i p h s = Inr s'"
  shows "rc_purposes s p \<noteq> None" and "is_verified (participant_reputation ce (cid, i) a)"
    and "rc_commitments s (cid, i) (p, a) = None"
    and "rc_commitments s' = dm_insert (cid, i) (p, a) h (rc_commitments s)"
    and "rc_purposes s' = rc_purposes s" and "rc_current_purpose_id s' = rc_current_purpose_id s"
  using assms by (auto simp: do_commit_reputation_def res_simps rc_deposit_event_def)

lemma do_commit_reputation_ok:
  assumes "do_commit_reputation ce a cid i p h s = Inr s'" and "purposes_ok s"
  shows "purposes_ok s'"
proof -
  note c = do_commit_reputation_cases[OF assms(1)]
  have p: "\<And>q. rc_purposes s q \<noteq> None \<longleftrightarrow> q < rc_current_purpose_id s"
    "\<And>cc q b. rc_commitments s cc (q, b) \<noteq> None \<Longrightarrow> q < rc_current_purpose_id s"
    using assms(2) unfolding purposes_ok_def by blast+
  have "q < rc_current_purpose_id s" if "rc_commitments s' cc (q, b) \<noteq> None" for cc q b
    using that p c(1) by (auto simp: c(4) dm_insert_apply split: if_splits)
  then show ?thesis using p(1) unfolding purposes_ok_def c(5,6) by blast
qed

lemma already_committed:
  "rc_commitments s (cid, i) (p, a) \<noteq> None \<Longrightarrow> \<exists>e. do_commit_reputation ce a cid i p h s = Inl e"
  by (auto simp: do_commit_reputation_def ensure_def)

lemma purge_commitments:
  "rc_commitments (commitments_purge_registry cm j s) (cid, i) =
     (if i = j \<and> cid \<in> set (cm_community_identifiers cm) then Map.empty else rc_commitments s (cid, i))"
  "rc_purposes (commitments_purge_registry cm j s) = rc_purposes s"
  "rc_current_purpose_id (commitments_purge_registry cm j s) = rc_current_purpose_id s"
proof -
  have fold: "rc_commitments (foldl (\<lambda>s cid. s\<lparr>rc_commitments := dm_remove_prefix (cid, j) (rc_commitments s)\<rparr>) s cids) (cid, i) =
      (if i = j \<and> cid \<in> set cids then Map.empty else rc_commitments s (cid, i)) \<and>
    rc_purposes (foldl (\<lambda>s cid. s\<lparr>rc_commitments := dm_remove_prefix (cid, j) (rc_commitments s)\<rparr>) s cids) = rc_purposes s \<and>
    rc_current_purpose_id (foldl (\<lambda>s cid. s\<lparr>rc_commitments := dm_remove_prefix (cid, j) (rc_commitments s)\<rparr>) s cids) =
      rc_current_purpose_id s" for cids
    by (induction cids arbitrary: s) (auto simp: dm_remove_prefix_def)
  then show "rc_commitments (commitments_purge_registry cm j s) (cid, i) =
     (if i = j \<and> cid \<in> set (cm_community_identifiers cm) then Map.empty else rc_commitments s (cid, i))"
    "rc_purposes (commitments_purge_registry cm j s) = rc_purposes s"
    "rc_current_purpose_id (commitments_purge_registry cm j s) = rc_current_purpose_id s"
    by (simp_all add: commitments_purge_registry_def rc_deposit_event_def)
qed

text \<open>The calls and the changes of phase, with the other pallets in whatever state.\<close>

inductive commitments_step :: "nat \<Rightarrow> commitments \<Rightarrow> commitments \<Rightarrow> bool" for horizon where
  step_register: "do_register_purpose d s = Inr (p, s') \<Longrightarrow> commitments_step horizon s s'"
| step_commit: "do_commit_reputation ce a cid i p h s = Inr s' \<Longrightarrow> commitments_step horizon s s'"
| step_phase: "sc_ceremony_index sch \<le> horizon + ce_reputation_lifetime ce \<Longrightarrow>
    commitments_step horizon s (commitments_on_phase_change sch cm ce ph s)"

lemma commitments_step_ok:
  assumes "commitments_step horizon s s'" and "purposes_ok s"
  shows "purposes_ok s'"
  using assms(1)
proof cases
  case (step_register d p)
  then show ?thesis using do_register_purpose_ok(1) assms(2) by blast
next
  case (step_commit ce a cid i p h)
  then show ?thesis using do_commit_reputation_ok assms(2) by blast
next
  case (step_phase sch ce cm ph)
  have "purposes_ok (commitments_purge_registry cm j s)" for j
    using assms(2) unfolding purposes_ok_def purge_commitments(2,3)
    by (auto simp: purge_commitments(1) split: if_splits)
  then show ?thesis using assms(2) step_phase(1) by (simp add: commitments_on_phase_change_def split: CeremonyPhaseType.splits)
qed

text \<open>
  As long as the ceremony index has not passed the lifetime of an attendance, a commitment of it stays:
  what was committed for a purpose cannot be committed for it again.
\<close>

lemma commitments_step_keeps:
  assumes "commitments_step horizon s s'" and "horizon \<le> i" and "rc_commitments s (cid, i) (p, a) \<noteq> None"
  shows "rc_commitments s' (cid, i) (p, a) \<noteq> None"
  using assms(1)
proof cases
  case (step_register d q)
  then show ?thesis using do_register_purpose_cases(4) assms(3) by simp
next
  case (step_commit ce b cid' j q h)
  from do_commit_reputation_cases(4)[OF this] show ?thesis using assms(3) by (simp add: dm_insert_apply)
next
  case (step_phase sch ce cm ph)
  then show ?thesis using assms(2,3)
    by (auto simp: commitments_on_phase_change_def purge_commitments saturating_sub_def split: CeremonyPhaseType.splits)
qed

end
