(* ===== verification/Treasuries.thy ===== *)
theory Treasuries
  imports Communities
begin

text \<open>
  The treasuries pallet, \<open>treasuries/src/lib.rs\<close> with \<open>primitives/src/treasuries.rs\<close>: options to swap
  community currency for native tokens or for an asset out of the treasury of a community. The native
  currency, the paymaster for assets and the hashing of account identifiers are code outside the
  repository and parameters here; \<open>lawful_currency\<close> states what the native currency promises.
\<close>

section \<open>The native currency\<close>

datatype ExistenceRequirement = KeepAlive | AllowDeath

text \<open>\<open>'n\<close> is the state of the currency; a failing operation answers \<open>None\<close>.\<close>

record 'n currency =
  cu_minimum_balance :: nat
  cu_free_balance :: "'n \<Rightarrow> AccountId \<Rightarrow> nat"
  cu_transfer :: "AccountId \<Rightarrow> AccountId \<Rightarrow> nat \<Rightarrow> ExistenceRequirement \<Rightarrow> 'n \<Rightarrow> 'n option"
  cu_reserve_named :: "bytes \<Rightarrow> AccountId \<Rightarrow> nat \<Rightarrow> 'n \<Rightarrow> 'n option"
  cu_unreserve_all_named :: "bytes \<Rightarrow> AccountId \<Rightarrow> 'n \<Rightarrow> 'n"

text \<open>
  A transfer that keeps the source alive moves the amount and nothing else, and so does one of the
  whole balance; reserving takes the amount from the free balance of one account.
\<close>

definition moved :: "(AccountId \<Rightarrow> nat) \<Rightarrow> AccountId \<Rightarrow> AccountId \<Rightarrow> nat \<Rightarrow> AccountId \<Rightarrow> nat" where
  "moved funds from to amount x = (let taken = funds x - (if x = from then amount else 0) in taken + (if x = to then amount else 0))"

definition lawful_currency :: "'n currency \<Rightarrow> bool" where
  "lawful_currency cu \<longleftrightarrow>
     (\<forall>from to amount er n n'. cu_transfer cu from to amount er n = Some n' \<longrightarrow>
        er = KeepAlive \<or> amount = cu_free_balance cu n from \<longrightarrow>
        amount \<le> cu_free_balance cu n from \<and> cu_free_balance cu n' = moved (cu_free_balance cu n) from to amount) \<and>
     (\<forall>i who amount n n'. cu_reserve_named cu i who amount n = Some n' \<longrightarrow>
        amount \<le> cu_free_balance cu n who \<and>
        cu_free_balance cu n' = (cu_free_balance cu n)(who := cu_free_balance cu n who - amount)) \<and>
     (\<forall>i who n x. x \<noteq> who \<longrightarrow> cu_free_balance cu (cu_unreserve_all_named cu i who n) x = cu_free_balance cu n x)"

section \<open>The pallet\<close>

record SwapNativeOption =
  sn_cid :: CommunityIdentifier
  sn_native_allowance :: nat
  sn_rate :: "BalanceType option"
  sn_do_burn :: bool
  sn_valid_from :: "nat option"
  sn_valid_until :: "nat option"

record 'k SwapAssetOption =
  sa_cid :: CommunityIdentifier
  sa_asset_id :: 'k
  sa_asset_allowance :: nat
  sa_rate :: "BalanceType option"
  sa_do_burn :: bool
  sa_valid_from :: "nat option"
  sa_valid_until :: "nat option"

datatype 'k treasuries_event =
    SpentNative AccountId AccountId nat
  | SpentAsset AccountId AccountId 'k nat
  | GrantedSwapNativeOption CommunityIdentifier AccountId
  | GrantedSwapAssetOption CommunityIdentifier AccountId 'k

datatype treasuries_error =
    NoValidSwapOption | SwapRateNotDefined | SwapOverflow | InsufficientNativeFunds | InsufficientAllowance
  | PayoutError | BurnOrTransfer balances_error | NativeTransfer

record ('n, 'k) treasuries_config =
  tc_balances :: balances_config
  tc_currency :: "'n currency"
  tc_pay :: "AccountId \<Rightarrow> AccountId \<Rightarrow> 'k \<Rightarrow> nat \<Rightarrow> 'n \<Rightarrow> 'n option"
  tc_pallet_id :: bytes
  tc_encode_cid :: "CommunityIdentifier option \<Rightarrow> bytes"
  tc_hash_account :: "bytes \<Rightarrow> AccountId"

record 'k treasuries =
  tr_swap_native_options :: "CommunityIdentifier \<Rightarrow> AccountId \<Rightarrow> SwapNativeOption option"
  tr_swap_asset_options :: "CommunityIdentifier \<Rightarrow> AccountId \<Rightarrow> 'k SwapAssetOption option"
  tr_events :: "'k treasuries_event list"

definition treasuries_genesis :: "'k treasuries" where
  "treasuries_genesis = \<lparr>tr_swap_native_options = (\<lambda>_. Map.empty), tr_swap_asset_options = (\<lambda>_. Map.empty), tr_events = []\<rparr>"

definition tr_deposit_event :: "'k treasuries_event \<Rightarrow> 'k treasuries \<Rightarrow> 'k treasuries" where
  "tr_deposit_event e s = s\<lparr>tr_events := tr_events s @ [e]\<rparr>"

definition get_community_treasury_account_unchecked ::
  "('n, 'k) treasuries_config \<Rightarrow> CommunityIdentifier option \<Rightarrow> AccountId" where
  "get_community_treasury_account_unchecked c maybecid =
     tc_hash_account c (tc_pallet_id c @ tc_encode_cid c maybecid)"

text \<open>
  Community currency is in \<open>U64F64\<close> bits. The product of a whole number and a rate drops the 64
  fractional bits of the number's own representation.
\<close>

definition cc_amount :: "nat \<Rightarrow> BalanceType \<Rightarrow> treasuries_error + BalanceType" where
  "cc_amount desired_native_amount rate =
     (if desired_native_amount \<ge> 2 ^ 64 then Inl SwapOverflow
      else
        let product = ((desired_native_amount * 2 ^ 64) * rate) div 2 ^ 64
        in if product < 2 ^ 128 then Inr product else Inl SwapOverflow)"

definition do_spend_native ::
  "('n, 'k) treasuries_config \<Rightarrow> CommunityIdentifier option \<Rightarrow> AccountId \<Rightarrow> nat \<Rightarrow> 'k treasuries \<times> 'n \<Rightarrow>
   treasuries_error + ('k treasuries \<times> 'n)" where
  "do_spend_native c maybe_cid beneficiary amount w =
     (let (s, n) = w; treasury = get_community_treasury_account_unchecked c maybe_cid in
      bind_res (ok_or (cu_transfer (tc_currency c) treasury beneficiary amount KeepAlive n) NativeTransfer) (\<lambda>n'.
      Inr (tr_deposit_event (SpentNative treasury beneficiary amount) s, n')))"

definition do_spend_asset ::
  "('n, 'k) treasuries_config \<Rightarrow> CommunityIdentifier option \<Rightarrow> AccountId \<Rightarrow> 'k \<Rightarrow> nat \<Rightarrow> 'k treasuries \<times> 'n \<Rightarrow>
   treasuries_error + ('k treasuries \<times> 'n)" where
  "do_spend_asset c maybe_cid beneficiary asset_id amount w =
     (let (s, n) = w; treasury = get_community_treasury_account_unchecked c maybe_cid in
      bind_res (ok_or (tc_pay c treasury beneficiary asset_id amount n) PayoutError) (\<lambda>n'.
      Inr (tr_deposit_event (SpentAsset treasury beneficiary asset_id amount) s, n')))"

definition do_issue_swap_native_option ::
  "CommunityIdentifier \<Rightarrow> AccountId \<Rightarrow> SwapNativeOption \<Rightarrow> 'k treasuries \<Rightarrow> 'k treasuries" where
  "do_issue_swap_native_option cid who opt s =
     tr_deposit_event (GrantedSwapNativeOption cid who)
       (s\<lparr>tr_swap_native_options := dm_insert cid who opt (tr_swap_native_options s)\<rparr>)"

definition do_issue_swap_asset_option ::
  "CommunityIdentifier \<Rightarrow> AccountId \<Rightarrow> 'k SwapAssetOption \<Rightarrow> 'k treasuries \<Rightarrow> 'k treasuries" where
  "do_issue_swap_asset_option cid who opt s =
     tr_deposit_event (GrantedSwapAssetOption cid who (sa_asset_id opt))
       (s\<lparr>tr_swap_asset_options := dm_insert cid who opt (tr_swap_asset_options s)\<rparr>)"

definition swap_native ::
  "('n, 'k) treasuries_config \<Rightarrow> AccountId \<Rightarrow> CommunityIdentifier \<Rightarrow> nat \<Rightarrow> 'k treasuries \<times> balances \<times> 'n \<Rightarrow>
   treasuries_error + ('k treasuries \<times> balances \<times> 'n)" where
  "swap_native c sender cid desired w =
     (let (s, b, n) = w; treasury = get_community_treasury_account_unchecked c (Some cid) in
      bind_res (ok_or (tr_swap_native_options s cid sender) NoValidSwapOption) (\<lambda>opt.
      ensure (sn_native_allowance opt \<ge> desired) InsufficientAllowance (
      ensure (saturating_sub (cu_free_balance (tc_currency c) n treasury) (cu_minimum_balance (tc_currency c)) \<ge> desired)
        InsufficientNativeFunds (
      bind_res (ok_or (sn_rate opt) SwapRateNotDefined) (\<lambda>rate.
      bind_res (cc_amount desired rate) (\<lambda>amount.
      bind_res (map_err BurnOrTransfer
        (if sn_do_burn opt then burn (tc_balances c) cid sender amount b
         else do_transfer (tc_balances c) cid sender treasury amount b)) (\<lambda>b'.
      let s' = s\<lparr>tr_swap_native_options := dm_insert cid sender
            (opt\<lparr>sn_native_allowance := sn_native_allowance opt - desired\<rparr>) (tr_swap_native_options s)\<rparr>
      in bind_res (do_spend_native c (Some cid) sender desired (s', n)) (\<lambda>(s'', n'). Inr (s'', b', n')))))))))"

definition swap_asset ::
  "('n, 'k) treasuries_config \<Rightarrow> AccountId \<Rightarrow> CommunityIdentifier \<Rightarrow> nat \<Rightarrow> 'k treasuries \<times> balances \<times> 'n \<Rightarrow>
   treasuries_error + ('k treasuries \<times> balances \<times> 'n)" where
  "swap_asset c sender cid desired w =
     (let (s, b, n) = w; treasury = get_community_treasury_account_unchecked c (Some cid) in
      bind_res (ok_or (tr_swap_asset_options s cid sender) NoValidSwapOption) (\<lambda>opt.
      ensure (sa_asset_allowance opt \<ge> desired) InsufficientAllowance (
      bind_res (ok_or (sa_rate opt) SwapRateNotDefined) (\<lambda>rate.
      bind_res (cc_amount desired rate) (\<lambda>amount.
      bind_res (map_err BurnOrTransfer
        (if sa_do_burn opt then burn (tc_balances c) cid sender amount b
         else do_transfer (tc_balances c) cid sender treasury amount b)) (\<lambda>b'.
      let s' = s\<lparr>tr_swap_asset_options := dm_insert cid sender
            (opt\<lparr>sa_asset_allowance := sa_asset_allowance opt - desired\<rparr>) (tr_swap_asset_options s)\<rparr>
      in bind_res (do_spend_asset c (Some cid) sender (sa_asset_id opt) desired (s', n)) (\<lambda>(s'', n').
      Inr (s'', b', n'))))))))"

section \<open>Swaps\<close>

lemma cc_amount_exact: "cc_amount d rate = Inr a \<longleftrightarrow> d < 2 ^ 64 \<and> a = d * rate \<and> d * rate < 2 ^ 128"
proof -
  have "(d * 2 ^ 64 * rate) div 2 ^ 64 = d * rate"
    using nonzero_mult_div_cancel_left[of "2 ^ 64" "d * rate :: nat"] by (simp add: ac_simps)
  then show ?thesis by (auto simp: cc_amount_def Let_def)
qed

lemma swap_native_cases:
  assumes "swap_native c sender cid desired (s, b, n) = Inr (s', b', n')"
  obtains opt rate where "tr_swap_native_options s cid sender = Some opt" "desired \<le> sn_native_allowance opt"
    "sn_rate opt = Some rate" "desired < 2 ^ 64" "desired * rate < 2 ^ 128"
    "if sn_do_burn opt then burn (tc_balances c) cid sender (desired * rate) b = Inr b'
     else do_transfer (tc_balances c) cid sender (get_community_treasury_account_unchecked c (Some cid)) (desired * rate) b = Inr b'"
    "cu_transfer (tc_currency c) (get_community_treasury_account_unchecked c (Some cid)) sender desired KeepAlive n = Some n'"
    "tr_swap_native_options s' = dm_insert cid sender
       (opt\<lparr>sn_native_allowance := sn_native_allowance opt - desired\<rparr>) (tr_swap_native_options s)"
    "tr_swap_asset_options s' = tr_swap_asset_options s"
    "desired \<le> cu_free_balance (tc_currency c) n (get_community_treasury_account_unchecked c (Some cid)) -
       cu_minimum_balance (tc_currency c)"
  using assms
  by (auto simp: swap_native_def Let_def res_simps cc_amount_exact do_spend_native_def tr_deposit_event_def
      saturating_sub_def intro!: that split: if_splits)

text \<open>Swaps of one community, one after the other, each by some account.\<close>

fun swap_all ::
  "('n, 'k) treasuries_config \<Rightarrow> CommunityIdentifier \<Rightarrow> (AccountId \<times> nat) list \<Rightarrow> 'k treasuries \<times> balances \<times> 'n \<Rightarrow>
   treasuries_error + ('k treasuries \<times> balances \<times> 'n)" where
  "swap_all c cid [] w = Inr w"
| "swap_all c cid ((a, d) # calls) w = bind_res (swap_native c a cid d w) (swap_all c cid calls)"

definition allowance :: "'k treasuries \<Rightarrow> CommunityIdentifier \<Rightarrow> AccountId \<Rightarrow> nat" where
  "allowance s cid a = (case tr_swap_native_options s cid a of None \<Rightarrow> 0 | Some opt \<Rightarrow> sn_native_allowance opt)"

definition drawn :: "AccountId \<Rightarrow> (AccountId \<times> nat) list \<Rightarrow> nat" where
  "drawn a calls = (\<Sum>(x, d)\<leftarrow>calls. if x = a then d else 0)"

lemma swap_native_allowance:
  assumes "swap_native c x cid d (s, b, n) = Inr (s', b', n')"
  shows "allowance s' cid a + (if x = a then d else 0) = allowance s cid a"
  using assms by (rule swap_native_cases) (auto simp: allowance_def storage_simps)

lemma swap_native_funds:
  assumes "lawful_currency (tc_currency c)" and "swap_native c x cid d (s, b, n) = Inr (s', b', n')"
    and "x \<noteq> get_community_treasury_account_unchecked c (Some cid)"
  shows "cu_free_balance (tc_currency c) n' (get_community_treasury_account_unchecked c (Some cid)) + d =
      cu_free_balance (tc_currency c) n (get_community_treasury_account_unchecked c (Some cid))"
    and "cu_free_balance (tc_currency c) n' x = cu_free_balance (tc_currency c) n x + d"
proof -
  let ?t = "get_community_treasury_account_unchecked c (Some cid)" and ?f = "cu_free_balance (tc_currency c)"
  have "cu_transfer (tc_currency c) ?t x d KeepAlive n = Some n'" using assms(2) by (rule swap_native_cases)
  then have "d \<le> ?f n ?t" "?f n' = moved (?f n) ?t x d" using assms(1) unfolding lawful_currency_def by blast+
  then show "?f n' ?t + d = ?f n ?t" "?f n' x = ?f n x + d" using assms(3) by (simp_all add: moved_def)
qed

text \<open>C25: Swap options cap what leaves a treasury. Over any sequence of swaps of a community's currency each
  account's remaining allowance falls by exactly what it drew, so nobody draws more than it was
  granted, and the treasury pays out exactly the sum of what was drawn.\<close>

theorem swaps_within_allowance:
  assumes "lawful_currency (tc_currency c)" and "swap_all c cid calls (s, b, n) = Inr (s', b', n')"
    and "get_community_treasury_account_unchecked c (Some cid) \<notin> set (map fst calls)"
  shows "allowance s' cid a + drawn a calls = allowance s cid a \<and>
    cu_free_balance (tc_currency c) n' (get_community_treasury_account_unchecked c (Some cid)) + sum_list (map snd calls) =
      cu_free_balance (tc_currency c) n (get_community_treasury_account_unchecked c (Some cid))"
  using assms(2,3)
proof (induction calls arbitrary: s b n)
  case Nil
  then show ?case by (simp add: drawn_def)
next
  case (Cons call calls)
  obtain x d where call: "call = (x, d)" by (cases call)
  obtain s1 b1 n1 where first: "swap_native c x cid d (s, b, n) = Inr (s1, b1, n1)"
    and rest: "swap_all c cid calls (s1, b1, n1) = Inr (s', b', n')"
    using Cons.prems(1) by (auto simp: call res_simps)
  have x: "x \<noteq> get_community_treasury_account_unchecked c (Some cid)" using Cons.prems(2) call by auto
  have "get_community_treasury_account_unchecked c (Some cid) \<notin> set (map fst calls)" using Cons.prems(2) by simp
  from Cons.IH[OF rest this] show ?case
    using swap_native_allowance[OF first, of a] swap_native_funds(1)[OF assms(1) first x] by (simp add: call drawn_def)
qed

text \<open>A currency to instantiate the interface with: an account is a number, one unit keeps it alive.\<close>

definition simple_currency :: "(AccountId \<Rightarrow> nat) currency" where
  "simple_currency =
     \<lparr>cu_minimum_balance = 1, cu_free_balance = (\<lambda>f. f),
      cu_transfer = (\<lambda>from to amount er f.
        if amount + (if er = KeepAlive then 1 else 0) \<le> f from then Some (moved f from to amount) else None),
      cu_reserve_named = (\<lambda>i who amount f. if amount \<le> f who then Some (f(who := f who - amount)) else None),
      cu_unreserve_all_named = (\<lambda>i who f. f)\<rparr>"

lemma simple_currency_lawful: "lawful_currency simple_currency"
  by (auto simp: lawful_currency_def simple_currency_def split: if_splits)

definition simple_treasury :: "(AccountId \<Rightarrow> nat, unit) treasuries_config" where
  "simple_treasury =
     \<lparr>tc_balances = demo_config, tc_currency = simple_currency, tc_pay = (\<lambda>from to k amount n. Some n),
      tc_pallet_id = [1, 2, 3, 4, 5, 6, 7, 8], tc_encode_cid = (\<lambda>_. []), tc_hash_account = (\<lambda>_. 99)\<rparr>"

definition simple_option :: SwapNativeOption where
  "simple_option = \<lparr>sn_cid = demo_cid, sn_native_allowance = 50, sn_rate = Some 10, sn_do_burn = True,
     sn_valid_from = None, sn_valid_until = Some 0\<rparr>"

definition granted :: "unit treasuries" where
  "granted = do_issue_swap_native_option demo_cid 1 simple_option treasuries_genesis"

lemma simple_swaps:
  "is_ok (swap_all simple_treasury demo_cid [(1, 20), (1, 30)] (granted, demo_balances, \<lambda>x. if x = 99 then 100 else 0))"
  by code_simp

theorem swaps_within_allowance_witness:
  "\<exists>s b n. swap_all simple_treasury demo_cid [(1, 20), (1, 30)] (granted, demo_balances, \<lambda>x. if x = 99 then 100 else 0) =
     Inr (s, b, n) \<and> allowance s demo_cid 1 = 0 \<and> n 99 = 50"
proof -
  have t: "get_community_treasury_account_unchecked simple_treasury (Some demo_cid) = 99" "tc_currency simple_treasury = simple_currency"
    "cu_free_balance simple_currency n = n" for n
    by (simp_all add: get_community_treasury_account_unchecked_def simple_treasury_def simple_currency_def)
  obtain s b n where sbn: "swap_all simple_treasury demo_cid [(1, 20), (1, 30)] (granted, demo_balances, \<lambda>x. if x = 99 then 100 else 0) =
     Inr (s, b, n)" using simple_swaps by (auto simp: is_ok_def split: sum.splits)
  have "allowance granted demo_cid 1 = 50"
    by (simp add: allowance_def granted_def do_issue_swap_native_option_def tr_deposit_event_def simple_option_def storage_simps)
  then show ?thesis
    using swaps_within_allowance[OF _ sbn, of 1, unfolded t, OF simple_currency_lawful] sbn by (simp add: drawn_def)
qed

text \<open>An option does not expire: whether a swap succeeds, and what it moves, does not depend on the first
  and last time of validity that the option carries.\<close>

theorem swap_ignores_validity:
  fixes s :: "'k treasuries" and since until :: "nat option"
  assumes "tr_swap_native_options s cid sender = Some opt"
  defines "s1 \<equiv> (\<lambda>since until. s\<lparr>tr_swap_native_options :=
      dm_insert cid sender (opt\<lparr>sn_valid_from := since, sn_valid_until := until\<rparr>) (tr_swap_native_options s)\<rparr>)"
  shows "bind_res (swap_native c sender cid d (s1 since until, b, n)) (\<lambda>(_, bn). Inr bn) =
    bind_res (swap_native c sender cid d (s, b, n)) (\<lambda>(_, bn). Inr bn)"
  using assms by (simp add: swap_native_def Let_def storage_simps do_spend_native_def bind_res_def ok_or_def ensure_def map_err_def
      split: sum.splits option.splits)

definition expiring :: "nat option \<Rightarrow> unit treasuries" where
  "expiring until = granted\<lparr>tr_swap_native_options := dm_insert demo_cid 1
     (simple_option\<lparr>sn_valid_from := None, sn_valid_until := until\<rparr>) (tr_swap_native_options granted)\<rparr>"

lemma granted_swaps:
  "is_ok (bind_res (swap_native simple_treasury 1 demo_cid 20 (granted, demo_balances, \<lambda>x. if x = 99 then 100 else 0))
     (\<lambda>(_, bn). Inr bn))"
  by code_simp

theorem swap_ignores_validity_witness:
  "is_ok (bind_res (swap_native simple_treasury 1 demo_cid 20 (expiring (Some 0), demo_balances, \<lambda>x. if x = 99 then 100 else 0))
     (\<lambda>(_, bn). Inr bn)) \<and>
   bind_res (swap_native simple_treasury 1 demo_cid 20 (expiring (Some 0), demo_balances, \<lambda>x. if x = 99 then 100 else 0))
     (\<lambda>(_, bn). Inr bn) =
   bind_res (swap_native simple_treasury 1 demo_cid 20 (expiring None, demo_balances, \<lambda>x. if x = 99 then 100 else 0))
     (\<lambda>(_, bn). Inr bn)"
proof -
  have opt: "tr_swap_native_options granted demo_cid 1 = Some simple_option"
    by (simp add: granted_def do_issue_swap_native_option_def tr_deposit_event_def storage_simps)
  show ?thesis
    unfolding expiring_def swap_ignores_validity[OF opt] using granted_swaps by simp
qed

end
