(* ===== verification/Faucets.thy ===== *)
theory Faucets
  imports Commitments Treasuries
begin

text \<open>
  The faucet pallet, \<open>faucet/src/lib.rs\<close> with \<open>primitives/src/faucet.rs\<close>: accounts that drip native
  tokens to whoever commits an attendance to the faucet's purpose. The native currency and the hashing
  of account identifiers are parameters.
\<close>

section \<open>The pallet\<close>

record Faucet =
  fa_name :: bytes
  fa_purpose_id :: nat
  fa_whitelist :: "CommunityIdentifier list option"
  fa_drip_amount :: nat
  fa_creator :: AccountId

datatype faucets_event =
    Dripped AccountId AccountId nat
  | FaucetCreated AccountId bytes
  | ReserveAmountUpdated nat
  | FaucetDissolved AccountId
  | FaucetClosed AccountId

datatype faucets_error =
    FaucetEmpty | InsufficientBalance | FaucetAlreadyExists | InexistentFaucet | PurposeIdCreationFailed
  | CommunityNotInWhitelist | FaucetNotEmpty | NotCreator | InvalidCommunityIdentifierInWhitelist
  | DripAmountTooSmall | FaucetBadOrigin | FaucetCurrency | FaucetCommitments commitments_error

record 'n faucets_config =
  fc_currency :: "'n currency"
  fc_pallet_id :: bytes
  fc_hash_account :: "bytes \<Rightarrow> AccountId"
  fc_reserve_id :: "AccountId \<Rightarrow> bytes"
  fc_pallet_account :: "bytes \<Rightarrow> AccountId"

record faucets =
  fs_faucets :: "AccountId \<Rightarrow> Faucet option"
  fs_reserve_amount :: nat
  fs_events :: "faucets_event list"

definition faucets_genesis :: "nat \<Rightarrow> faucets" where
  "faucets_genesis reserve_amount = \<lparr>fs_faucets = Map.empty, fs_reserve_amount = reserve_amount, fs_events = []\<rparr>"

definition fs_deposit_event :: "faucets_event \<Rightarrow> faucets \<Rightarrow> faucets" where
  "fs_deposit_event e s = s\<lparr>fs_events := fs_events s @ [e]\<rparr>"

definition catch_basin_account_id :: "'n faucets_config \<Rightarrow> AccountId" where
  "catch_basin_account_id c = fc_pallet_account c (fc_pallet_id c)"

definition get_reserve_id :: "'n faucets_config \<Rightarrow> AccountId \<Rightarrow> bytes" where
  "get_reserve_id c faucet_account = fc_reserve_id c faucet_account"

definition create_faucet ::
  "'n faucets_config \<Rightarrow> communities \<Rightarrow> AccountId \<Rightarrow> bytes \<Rightarrow> nat \<Rightarrow> CommunityIdentifier list option \<Rightarrow> nat \<Rightarrow>
   faucets \<times> commitments \<times> 'n \<Rightarrow> faucets_error + (faucets \<times> commitments \<times> 'n)" where
  "create_faucet c cm from name amount whitelist drip_amount w =
     (let (s, rc, n) = w;
          faucet_identifier = fc_pallet_id c @ name;
          faucet_account = fc_hash_account c faucet_identifier
      in
      ensure (case whitelist of Some wl \<Rightarrow> set wl \<subseteq> set (cm_community_identifiers cm) | None \<Rightarrow> True)
        InvalidCommunityIdentifierInWhitelist (
      ensure (drip_amount > cu_minimum_balance (fc_currency c)) DripAmountTooSmall (
      ensure (\<not> contains (fs_faucets s faucet_account)) FaucetAlreadyExists (
      bind_res (ok_or (cu_reserve_named (fc_currency c) (get_reserve_id c faucet_account) from (fs_reserve_amount s) n)
        FaucetCurrency) (\<lambda>n1.
      bind_res (ok_or (cu_transfer (fc_currency c) from faucet_account amount KeepAlive n1) InsufficientBalance) (\<lambda>n2.
      ensure (length faucet_identifier \<le> 128) PurposeIdCreationFailed (
      bind_res (map_err FaucetCommitments (do_register_purpose faucet_identifier rc)) (\<lambda>(purpose_id, rc').
      Inr (fs_deposit_event (FaucetCreated faucet_account name)
             (s\<lparr>fs_faucets := (fs_faucets s)(faucet_account \<mapsto>
                  \<lparr>fa_name = name, fa_purpose_id = purpose_id, fa_whitelist = whitelist,
                   fa_drip_amount = drip_amount, fa_creator = from\<rparr>)\<rparr>),
           rc', n2)))))))))"

definition drip ::
  "'n faucets_config \<Rightarrow> ceremonies \<Rightarrow> AccountId \<Rightarrow> AccountId \<Rightarrow> CommunityIdentifier \<Rightarrow> nat \<Rightarrow>
   faucets \<times> commitments \<times> 'n \<Rightarrow> faucets_error + (faucets \<times> commitments \<times> 'n)" where
  "drip c ce from faucet_account cid cindex w =
     (let (s, rc, n) = w in
      bind_res (ok_or (fs_faucets s faucet_account) InexistentFaucet) (\<lambda>faucet.
      ensure (case fa_whitelist faucet of Some wl \<Rightarrow> cid \<in> set wl | None \<Rightarrow> True) CommunityNotInWhitelist (
      bind_res (map_err FaucetCommitments (do_commit_reputation ce from cid cindex (fa_purpose_id faucet) None rc)) (\<lambda>rc'.
      bind_res (ok_or (cu_transfer (fc_currency c) faucet_account from (fa_drip_amount faucet) KeepAlive n) FaucetEmpty) (\<lambda>n'.
      Inr (fs_deposit_event (Dripped faucet_account from (fa_drip_amount faucet)) s, rc', n'))))))"

text \<open>The steps that dissolving and closing a faucet share: the deposit is freed, the faucet forgotten, and its funds sent on.\<close>

definition retire_faucet ::
  "'n faucets_config \<Rightarrow> Faucet \<Rightarrow> AccountId \<Rightarrow> AccountId \<Rightarrow> faucets \<times> commitments \<times> 'n \<Rightarrow>
   faucets_error + (faucets \<times> commitments \<times> 'n)" where
  "retire_faucet c faucet faucet_account beneficiary w =
     (let (s, rc, n) = w;
          n1 = cu_unreserve_all_named (fc_currency c) (get_reserve_id c faucet_account) (fa_creator faucet) n;
          s1 = s\<lparr>fs_faucets := (fs_faucets s)(faucet_account := None)\<rparr>
      in bind_res (ok_or (cu_transfer (fc_currency c) faucet_account beneficiary
           (cu_free_balance (fc_currency c) n1 faucet_account) AllowDeath n1) FaucetCurrency) (\<lambda>n2.
         Inr (s1, rc, n2)))"

definition dissolve_faucet ::
  "'n faucets_config \<Rightarrow> bool \<Rightarrow> AccountId \<Rightarrow> AccountId \<Rightarrow> faucets \<times> commitments \<times> 'n \<Rightarrow>
   faucets_error + (faucets \<times> commitments \<times> 'n)" where
  "dissolve_faucet c is_root faucet_account beneficiary w =
     ensure is_root FaucetBadOrigin (
     bind_res (ok_or (fs_faucets (fst w) faucet_account) InexistentFaucet) (\<lambda>faucet.
     bind_res (retire_faucet c faucet faucet_account beneficiary w) (\<lambda>(s, rn).
     Inr (fs_deposit_event (FaucetDissolved faucet_account) s, rn))))"

definition close_faucet ::
  "'n faucets_config \<Rightarrow> AccountId \<Rightarrow> AccountId \<Rightarrow> faucets \<times> commitments \<times> 'n \<Rightarrow>
   faucets_error + (faucets \<times> commitments \<times> 'n)" where
  "close_faucet c from faucet_account w =
     bind_res (ok_or (fs_faucets (fst w) faucet_account) InexistentFaucet) (\<lambda>faucet.
     ensure (from = fa_creator faucet) NotCreator (
     ensure (cu_free_balance (fc_currency c) (snd (snd w)) faucet_account < saturating_mul 128 (fa_drip_amount faucet) 2)
       FaucetNotEmpty (
     bind_res (retire_faucet c faucet faucet_account (catch_basin_account_id c) w) (\<lambda>(s, rn).
     Inr (fs_deposit_event (FaucetClosed faucet_account) s, rn)))))"

definition set_reserve_amount :: "bool \<Rightarrow> nat \<Rightarrow> faucets \<Rightarrow> faucets_error + faucets" where
  "set_reserve_amount is_controller reserve_amount s =
     ensure is_controller FaucetBadOrigin (
     Inr (fs_deposit_event (ReserveAmountUpdated reserve_amount) (s\<lparr>fs_reserve_amount := reserve_amount\<rparr>)))"

section \<open>Lemmas\<close>

lemma create_faucet_cases:
  assumes "create_faucet c cm from name amount wl d (s, rc, n) = Inr (s', rc', n')"
  obtains fa p n1 where "fa = fc_hash_account c (fc_pallet_id c @ name)" "fs_faucets s fa = None"
    "do_register_purpose (fc_pallet_id c @ name) rc = Inr (p, rc')"
    "fs_faucets s' = (fs_faucets s)(fa \<mapsto>
       \<lparr>fa_name = name, fa_purpose_id = p, fa_whitelist = wl, fa_drip_amount = d, fa_creator = from\<rparr>)"
    "cu_reserve_named (fc_currency c) (get_reserve_id c fa) from (fs_reserve_amount s) n = Some n1"
    "cu_transfer (fc_currency c) from fa amount KeepAlive n1 = Some n'"
  using assms by (auto simp: create_faucet_def Let_def res_simps fs_deposit_event_def intro: that)

lemma drip_cases:
  assumes "drip c ce from fa cid i (s, rc, n) = Inr (s', rc', n')"
  obtains f where "fs_faucets s fa = Some f" "case fa_whitelist f of Some wl \<Rightarrow> cid \<in> set wl | None \<Rightarrow> True"
    "do_commit_reputation ce from cid i (fa_purpose_id f) None rc = Inr rc'"
    "cu_transfer (fc_currency c) fa from (fa_drip_amount f) KeepAlive n = Some n'"
    "fs_faucets s' = fs_faucets s" "fs_reserve_amount s' = fs_reserve_amount s"
  using assms by (auto simp: drip_def Let_def res_simps fs_deposit_event_def intro: that)

lemma retire_faucet_cases:
  assumes "retire_faucet c f fa ben (s, rc, n) = Inr (s', rc', n')"
  shows "fs_faucets s' = (fs_faucets s)(fa := None)" and "rc' = rc"
  using assms by (auto simp: retire_faucet_def Let_def res_simps)

text \<open>Every faucet has a purpose of its own.\<close>

definition faucets_ok :: "faucets \<Rightarrow> commitments \<Rightarrow> bool" where
  "faucets_ok s rc \<longleftrightarrow> purposes_ok rc \<and>
     (\<forall>fa f. fs_faucets s fa = Some f \<longrightarrow> fa_purpose_id f < rc_current_purpose_id rc) \<and>
     (\<forall>fa f fa' f'. fs_faucets s fa = Some f \<longrightarrow> fs_faucets s fa' = Some f' \<longrightarrow>
        fa_purpose_id f = fa_purpose_id f' \<longrightarrow> fa = fa')"

inductive faucets_step ::
  "'n faucets_config \<Rightarrow> nat \<Rightarrow> faucets \<times> commitments \<Rightarrow> faucets \<times> commitments \<Rightarrow> bool" for c horizon where
  step_create:
    "create_faucet c cm from name amount wl d (s, rc, n) = Inr (s', rc', n') \<Longrightarrow> faucets_step c horizon (s, rc) (s', rc')"
| step_drip: "drip c ce from fa cid i (s, rc, n) = Inr (s', rc', n') \<Longrightarrow> faucets_step c horizon (s, rc) (s', rc')"
| step_dissolve:
    "dissolve_faucet c root fa ben (s, rc, n) = Inr (s', rc', n') \<Longrightarrow> faucets_step c horizon (s, rc) (s', rc')"
| step_close: "close_faucet c from fa (s, rc, n) = Inr (s', rc', n') \<Longrightarrow> faucets_step c horizon (s, rc) (s', rc')"
| step_reserve: "set_reserve_amount m r s = Inr s' \<Longrightarrow> faucets_step c horizon (s, rc) (s', rc)"
| step_commitments: "commitments_step horizon rc rc' \<Longrightarrow> faucets_step c horizon (s, rc) (s, rc')"

text \<open>On the commitments a faucet acts by their calls only.\<close>

lemma faucets_step_commitments:
  assumes "faucets_step c horizon w w'"
  shows "snd w' = snd w \<or> commitments_step horizon (snd w) (snd w')"
  using assms
proof cases
  case (step_create cm who name amount wl d s rc n s' rc' n')
  from step_create(3) show ?thesis
    by (rule create_faucet_cases) (auto simp: step_create(1,2) intro: commitments_step.step_register)
next
  case (step_drip ce who fa cid i s rc n s' rc' n')
  from step_drip(3) show ?thesis
    by (rule drip_cases) (auto simp: step_drip(1,2) intro: commitments_step.step_commit)
next
  case (step_dissolve root fa ben s rc n s' rc' n')
  then show ?thesis by (auto simp: dissolve_faucet_def res_simps dest: retire_faucet_cases)
next
  case (step_close who fa s rc n s' rc' n')
  then show ?thesis by (auto simp: close_faucet_def res_simps dest: retire_faucet_cases)
qed simp_all

lemma faucets_steps_commitments:
  assumes "(faucets_step c horizon)\<^sup>*\<^sup>* w w'"
  shows "(commitments_step horizon)\<^sup>*\<^sup>* (snd w) (snd w')"
  using assms
proof induction
  case (step w1 w2)
  then show ?case using faucets_step_commitments[OF step(2)] by auto
qed simp

lemma faucets_ok_add:
  assumes "faucets_ok s rc" and "do_register_purpose d rc = Inr (p, rc')" and "fa_purpose_id f = p"
    and "fs_faucets s' = (fs_faucets s)(fa \<mapsto> f)"
  shows "faucets_ok s' rc'"
proof -
  note r = do_register_purpose_cases[OF assms(2)]
  have ok: "purposes_ok rc" and less: "\<And>x g. fs_faucets s x = Some g \<Longrightarrow> fa_purpose_id g < p"
    and own: "\<And>x g y h. fs_faucets s x = Some g \<Longrightarrow> fs_faucets s y = Some h \<Longrightarrow> fa_purpose_id g = fa_purpose_id h \<Longrightarrow> x = y"
    using assms(1) r(1) unfolding faucets_ok_def by blast+
  have "fa_purpose_id g < rc_current_purpose_id rc'" if "fs_faucets s' x = Some g" for x g
    using that less[of x g] assms(3) by (auto simp: assms(4) r(2) split: if_splits)
  moreover have "x = y" if "fs_faucets s' x = Some g" "fs_faucets s' y = Some h" "fa_purpose_id g = fa_purpose_id h" for x g y h
    using that less[of x g] less[of y h] own[of x g y h] assms(3) by (auto simp: assms(4) split: if_splits)
  ultimately show ?thesis using do_register_purpose_ok(1)[OF assms(2) ok] unfolding faucets_ok_def by blast
qed

lemma faucets_ok_less:
  assumes "faucets_ok s rc" and "\<And>x f. fs_faucets s' x = Some f \<Longrightarrow> fs_faucets s x = Some f"
    and "purposes_ok rc'" and "rc_current_purpose_id rc \<le> rc_current_purpose_id rc'"
  shows "faucets_ok s' rc'"
  using assms unfolding faucets_ok_def by (meson less_le_trans)

lemma commitments_step_current:
  assumes "commitments_step horizon rc rc'"
  shows "rc_current_purpose_id rc \<le> rc_current_purpose_id rc'"
  using assms
proof cases
  case (step_register d p)
  then show ?thesis using do_register_purpose_cases(1,2)[of d rc p rc'] by simp
next
  case (step_commit ce a cid i p h)
  then show ?thesis using do_commit_reputation_cases(6) by simp
qed (simp add: commitments_on_phase_change_def purge_commitments split: CeremonyPhaseType.splits)

lemma faucets_okD: "faucets_ok s rc \<Longrightarrow> purposes_ok rc"
  by (simp add: faucets_ok_def)

lemma faucets_ok_forget:
  assumes "faucets_ok s rc" and "fs_faucets s' = (fs_faucets s)(fa := None)"
  shows "faucets_ok s' rc"
  by (rule faucets_ok_less[OF assms(1) _ faucets_okD[OF assms(1)]]) (simp_all add: assms(2) split: if_splits)

lemma faucets_step_ok:
  assumes "faucets_step c horizon w w'" and ok: "faucets_ok (fst w) (snd w)"
  shows "faucets_ok (fst w') (snd w')"
  using assms(1)
proof cases
  case (step_create cm who name amount wl d s rc n s' rc' n')
  from step_create(3) show ?thesis
  proof (rule create_faucet_cases)
    fix fa p assume "do_register_purpose (fc_pallet_id c @ name) rc = Inr (p, rc')"
      "fs_faucets s' = (fs_faucets s)(fa \<mapsto>
       \<lparr>fa_name = name, fa_purpose_id = p, fa_whitelist = wl, fa_drip_amount = d, fa_creator = who\<rparr>)"
    from faucets_ok_add[OF _ this(1) _ this(2)] show ?thesis using ok by (simp add: step_create(1,2))
  qed
next
  case (step_drip ce who fa cid i s rc n s' rc' n')
  have com: "commitments_step horizon rc rc'" and same: "fs_faucets s' = fs_faucets s"
    using step_drip(3) by (auto elim!: drip_cases intro: commitments_step.step_commit)
  have "faucets_ok s rc" using ok step_drip(1) by simp
  from faucets_ok_less[where s' = s', OF this _ commitments_step_ok[OF com faucets_okD[OF this]] commitments_step_current[OF com]] same
  show ?thesis by (simp add: step_drip(2))
next
  case (step_dissolve root fa ben s rc n s' rc' n')
  then have "fs_faucets s' = (fs_faucets s)(fa := None)" "rc' = rc"
    by (auto simp: dissolve_faucet_def res_simps fs_deposit_event_def dest: retire_faucet_cases)
  moreover have "faucets_ok s rc" using ok step_dissolve(1) by simp
  ultimately show ?thesis
    using faucets_ok_forget[of s rc s' fa] by (simp add: step_dissolve(2))
next
  case (step_close who fa s rc n s' rc' n')
  then have "fs_faucets s' = (fs_faucets s)(fa := None)" "rc' = rc"
    by (auto simp: close_faucet_def res_simps fs_deposit_event_def dest: retire_faucet_cases)
  moreover have "faucets_ok s rc" using ok step_close(1) by simp
  ultimately show ?thesis
    using faucets_ok_forget[of s rc s' fa] by (simp add: step_close(2))
next
  case (step_reserve m r s s' rc)
  then show ?thesis using ok by (auto simp: set_reserve_amount_def res_simps faucets_ok_def fs_deposit_event_def)
next
  case (step_commitments rc rc' s)
  then have "faucets_ok s rc" using ok by simp
  from faucets_ok_less[where s' = s, OF this _ commitments_step_ok[OF step_commitments(3) faucets_okD[OF this]]
      commitments_step_current[OF step_commitments(3)]]
  show ?thesis by (simp add: step_commitments(2))
qed

lemma commitments_steps_keep:
  assumes "(commitments_step horizon)\<^sup>*\<^sup>* rc rc'" and "horizon \<le> i" and "rc_commitments rc (cid, i) (p, a) \<noteq> None"
  shows "rc_commitments rc' (cid, i) (p, a) \<noteq> None"
  using assms(1,3)
proof induction
  case (step rc1 rc2)
  then show ?case using commitments_step_keeps[OF step(2) assms(2)] by simp
qed simp

section \<open>Properties\<close>

text \<open>C24: One drip per attendance. After a faucet dripped for an attendance, it never drips for that
  attendance again to the same account, whatever faucet calls, commitments and phase changes happen
  in between, as long as the attendance is within its lifetime and the faucet was not dissolved and
  created anew, which gives it a new purpose.\<close>

theorem drip_once_per_attendance:
  assumes "drip c ce from fa cid i (s, rc, n) = Inr (s1, rc1, n1)" and "fs_faucets s fa = Some f"
    and "(faucets_step c horizon)\<^sup>*\<^sup>* (s1, rc1) (s2, rc2)" and "horizon \<le> i"
    and "fs_faucets s2 fa = Some f2" and "fa_purpose_id f2 = fa_purpose_id f"
  shows "\<exists>e. drip c ce' from fa cid i (s2, rc2, n2) = Inl e"
proof -
  have "do_commit_reputation ce from cid i (fa_purpose_id f) None rc = Inr rc1"
    using assms(1,2) by (auto elim!: drip_cases)
  from do_commit_reputation_cases(4)[OF this] have "rc_commitments rc1 (cid, i) (fa_purpose_id f, from) \<noteq> None"
    by (simp add: dm_insert_apply)
  then have "rc_commitments rc2 (cid, i) (fa_purpose_id f, from) \<noteq> None"
    using commitments_steps_keep[of horizon rc1 rc2 i cid] faucets_steps_commitments[OF assms(3)] assms(4) by simp
  then obtain e where "do_commit_reputation ce' from cid i (fa_purpose_id f2) None rc2 = Inl e"
    using already_committed assms(6) by metis
  then show ?thesis using assms(5) by (auto simp: drip_def ensure_def ok_or_def map_err_def)
qed

text \<open>A faucet of 30 units, created by account 1, and an attendance of account 7.\<close>

definition simple_faucets :: "(AccountId \<Rightarrow> nat) faucets_config" where
  "simple_faucets =
     \<lparr>fc_currency = simple_currency, fc_pallet_id = replicate 8 1, fc_hash_account = (\<lambda>_. 50),
      fc_reserve_id = (\<lambda>_. []), fc_pallet_account = (\<lambda>_. 60)\<rparr>"

definition attended_once :: ceremonies where
  "attended_once = put_reputation (demo_cid, 3) 7 VerifiedUnlinked (ceremonies_genesis 1000 0 0 5 3 2 5 0)"

definition faucet_world :: "faucets_error + (faucets \<times> commitments \<times> (AccountId \<Rightarrow> nat))" where
  "faucet_world = create_faucet simple_faucets (communities_genesis 1 83) 1 [7] 30 None 5
     (faucets_genesis 2, commitments_genesis, \<lambda>x. if x = 1 then 100 else 0)"

lemma simple_drip:
  "is_ok (bind_res faucet_world (drip simple_faucets attended_once 7 50 demo_cid 3))"
  by code_simp

lemma simple_dripped:
  obtains s0 rc0 n0 s rc n where "faucet_world = Inr (s0, rc0, n0)"
    "drip simple_faucets attended_once 7 50 demo_cid 3 (s0, rc0, n0) = Inr (s, rc, n)"
proof -
  obtain w where "bind_res faucet_world (drip simple_faucets attended_once 7 50 demo_cid 3) = Inr w"
    using simple_drip unfolding is_ok_def by (auto split: sum.splits)
  then obtain w0 where "faucet_world = Inr w0" "drip simple_faucets attended_once 7 50 demo_cid 3 w0 = Inr w"
    unfolding bind_res_Inr by blast
  then show thesis using that by (cases w0; cases w) auto
qed

theorem drip_once_per_attendance_witness:
  "\<exists>w s rc n e. faucet_world = Inr w \<and> drip simple_faucets attended_once 7 50 demo_cid 3 w = Inr (s, rc, n) \<and>
     drip simple_faucets attended_once 7 50 demo_cid 3 (s, rc, n) = Inl e"
proof -
  obtain s0 rc0 n0 s rc n where w: "faucet_world = Inr (s0, rc0, n0)"
    and dripped: "drip simple_faucets attended_once 7 50 demo_cid 3 (s0, rc0, n0) = Inr (s, rc, n)"
    by (rule simple_dripped)
  obtain f where f: "fs_faucets s0 50 = Some f" "fs_faucets s = fs_faucets s0" using dripped by (rule drip_cases)
  have again: "fs_faucets s 50 = Some f" using f by simp
  note step = drip_once_per_attendance[OF dripped f(1) rtranclp.rtrancl_refl[of "faucets_step simple_faucets 0"] _ again refl]
  show ?thesis using step w dripped by blast
qed

text \<open>Faucets do not share a purpose: in every state reached from an empty pallet, two faucets with the same
  purpose are the same faucet, so an attendance committed for one is not used up for another.\<close>

theorem faucets_have_own_purpose:
  assumes "(faucets_step c horizon)\<^sup>*\<^sup>* (faucets_genesis r, commitments_genesis) (s, rc)"
    and "fs_faucets s fa = Some f" and "fs_faucets s fa' = Some f'" and "fa_purpose_id f = fa_purpose_id f'"
  shows "fa = fa'"
proof -
  have "faucets_ok (fst w) (snd w)" if "(faucets_step c horizon)\<^sup>*\<^sup>* (faucets_genesis r, commitments_genesis) w" for w
    using that
  proof induction
    case base
    then show ?case using genesis_purposes_ok by (simp add: faucets_ok_def faucets_genesis_def)
  next
    case (step w1 w2)
    then show ?case using faucets_step_ok by blast
  qed
  from this[OF assms(1)] show ?thesis using assms(2-4) unfolding faucets_ok_def by auto
qed

theorem faucets_have_own_purpose_witness:
  "\<exists>s rc n f. faucet_world = Inr (s, rc, n) \<and> fs_faucets s 50 = Some f \<and>
     list_all (\<lambda>fa. fs_faucets s fa = Some f \<longrightarrow> fa = 50) [0..<60]"
proof -
  obtain s rc n s1 rc1 n1 where w: "faucet_world = Inr (s, rc, n)"
    and "drip simple_faucets attended_once 7 50 demo_cid 3 (s, rc, n) = Inr (s1, rc1, n1)" by (rule simple_dripped)
  from this(2) obtain f where f: "fs_faucets s 50 = Some f" by (rule drip_cases)
  have "(faucets_step simple_faucets 0)\<^sup>*\<^sup>* (faucets_genesis 2, commitments_genesis) (s, rc)"
    using w unfolding faucet_world_def by (blast intro: faucets_step.step_create)
  from faucets_have_own_purpose[OF this] f have "list_all (\<lambda>fa. fs_faucets s fa = Some f \<longrightarrow> fa = 50) [0..<60]"
    unfolding list_all_iff by blast
  then show ?thesis using w f by blast
qed

end
