(* ===== verification/Democracy.thy ===== *)
theory Democracy
  imports Faucets "HOL-Library.AList"
begin

text \<open>
  The democracy pallet, \<open>democracy/src/lib.rs\<close> with \<open>primitives/src/democracy.rs\<close>: proposals, votes
  with committed attendances, and the enactment of approved proposals when the assigning phase
  starts. The square root of the fixed-point crate and the order in which a storage map is iterated
  are parameters of the configuration.
\<close>

section \<open>Types\<close>

datatype Vote = Aye | Nay

record Tally =
  ta_turnout :: nat
  ta_ayes :: nat

datatype ProposalAccessPolicy = Global | Community CommunityIdentifier

datatype 'k ProposalAction =
    AddLocation CommunityIdentifier Location
  | RemoveLocation CommunityIdentifier Location
  | UpdateCommunityMetadata CommunityIdentifier CommunityMetadata
  | UpdateDemurrage CommunityIdentifier Demurrage
  | UpdateNominalIncome CommunityIdentifier BalanceType
  | SetInactivityTimeout nat
  | Petition "CommunityIdentifier option" bytes
  | SpendNative "CommunityIdentifier option" AccountId nat
  | IssueSwapNativeOption CommunityIdentifier AccountId SwapNativeOption
  | SpendAsset "CommunityIdentifier option" AccountId nat 'k
  | IssueSwapAssetOption CommunityIdentifier AccountId "'k SwapAssetOption"

datatype ProposalActionIdentifier =
    AddLocationId CommunityIdentifier
  | RemoveLocationId CommunityIdentifier
  | UpdateCommunityMetadataId CommunityIdentifier
  | UpdateDemurrageId CommunityIdentifier
  | UpdateNominalIncomeId CommunityIdentifier
  | SetInactivityTimeoutId
  | PetitionId "CommunityIdentifier option"
  | SpendNativeId "CommunityIdentifier option"
  | IssueSwapNativeOptionId CommunityIdentifier
  | SpendAssetId "CommunityIdentifier option"
  | IssueSwapAssetOptionId CommunityIdentifier

definition policy_of :: "CommunityIdentifier option \<Rightarrow> ProposalAccessPolicy" where
  "policy_of maybe_cid = (case maybe_cid of Some cid \<Rightarrow> Community cid | None \<Rightarrow> Global)"

fun get_access_policy :: "'k ProposalAction \<Rightarrow> ProposalAccessPolicy" where
  "get_access_policy (AddLocation cid _) = Community cid"
| "get_access_policy (RemoveLocation cid _) = Community cid"
| "get_access_policy (UpdateCommunityMetadata cid _) = Community cid"
| "get_access_policy (UpdateDemurrage cid _) = Community cid"
| "get_access_policy (UpdateNominalIncome cid _) = Community cid"
| "get_access_policy (SetInactivityTimeout _) = Global"
| "get_access_policy (Petition maybe_cid _) = policy_of maybe_cid"
| "get_access_policy (SpendNative maybe_cid _ _) = policy_of maybe_cid"
| "get_access_policy (IssueSwapNativeOption cid _ _) = Community cid"
| "get_access_policy (SpendAsset maybe_cid _ _ _) = policy_of maybe_cid"
| "get_access_policy (IssueSwapAssetOption cid _ _) = Community cid"

fun get_identifier :: "'k ProposalAction \<Rightarrow> ProposalActionIdentifier" where
  "get_identifier (AddLocation cid _) = AddLocationId cid"
| "get_identifier (RemoveLocation cid _) = RemoveLocationId cid"
| "get_identifier (UpdateCommunityMetadata cid _) = UpdateCommunityMetadataId cid"
| "get_identifier (UpdateDemurrage cid _) = UpdateDemurrageId cid"
| "get_identifier (UpdateNominalIncome cid _) = UpdateNominalIncomeId cid"
| "get_identifier (SetInactivityTimeout _) = SetInactivityTimeoutId"
| "get_identifier (Petition maybe_cid _) = PetitionId maybe_cid"
| "get_identifier (SpendNative maybe_cid _ _) = SpendNativeId maybe_cid"
| "get_identifier (IssueSwapNativeOption cid _ _) = IssueSwapNativeOptionId cid"
| "get_identifier (SpendAsset maybe_cid _ _ _) = SpendAssetId maybe_cid"
| "get_identifier (IssueSwapAssetOption cid _ _) = IssueSwapAssetOptionId cid"

fun supersedes_same_action :: "'k ProposalAction \<Rightarrow> bool" where
  "supersedes_same_action (Petition _ _) = False"
| "supersedes_same_action (SpendNative _ _ _) = False"
| "supersedes_same_action (IssueSwapNativeOption _ _ _) = False"
| "supersedes_same_action (SpendAsset _ _ _ _) = False"
| "supersedes_same_action (IssueSwapAssetOption _ _ _) = False"
| "supersedes_same_action _ = True"

datatype ProposalState = Ongoing | Confirming nat | Approved | SupersededBy nat | Rejected | Enacted

fun can_update :: "ProposalState \<Rightarrow> bool" where
  "can_update (Confirming _) = True"
| "can_update Ongoing = True"
| "can_update _ = False"

fun has_failed :: "ProposalState \<Rightarrow> bool" where
  "has_failed (SupersededBy _) = True"
| "has_failed Rejected = True"
| "has_failed _ = False"

record 'k Proposal =
  pr_start :: nat
  pr_start_cindex :: nat
  pr_action :: "'k ProposalAction"
  pr_state :: ProposalState
  pr_electorate_size :: nat

section \<open>Storage\<close>

datatype enact_error = EnactCommunities communities_error | EnactTreasuries treasuries_error | EnactInexistent

datatype 'k democracy_event =
    ProposalEnacted nat
  | ProposalSubmitted nat "'k ProposalAction"
  | VotePlaced nat Vote nat
  | VoteFailed nat Vote
  | ProposalStateUpdated nat ProposalState
  | EnactmentFailed nat enact_error
  | PetitionApproved "CommunityIdentifier option" bytes

datatype democracy_error =
    ProposalIdOutOfBounds | InexistentProposal | VoteCountOverflow | BoundedVecError
  | ProposalCannotBeUpdated | AQBError | ProposalWaitingForEnactment | DemocracyPurposeIdCreationFailed | MathError
  | DemocracyCommitments commitments_error

record ('n, 'k) democracy_config =
  dc_confirmation_period :: nat
  dc_proposal_lifetime :: nat
  dc_min_turnout :: nat
  dc_sqrt :: "nat \<Rightarrow> nat option"
  dc_iteration :: "ProposalActionIdentifier list \<Rightarrow> ProposalActionIdentifier list"
  dc_communities :: communities_config
  dc_treasuries :: "('n, 'k) treasuries_config"

record 'k democracy =
  de_purpose_ids :: "nat \<Rightarrow> nat option"
  de_proposals :: "nat \<Rightarrow> 'k Proposal option"
  de_proposal_count :: nat
  de_tallies :: "nat \<Rightarrow> Tally option"
  de_last_approved_proposal_for_action :: "ProposalActionIdentifier \<Rightarrow> (nat \<times> nat) option"
  de_enactment_queue :: "(ProposalActionIdentifier \<times> nat list) list"
  de_events :: "'k democracy_event list"

definition democracy_genesis :: "nat \<Rightarrow> 'k democracy" where
  "democracy_genesis proposal_count =
     \<lparr>de_purpose_ids = Map.empty, de_proposals = Map.empty, de_proposal_count = proposal_count,
      de_tallies = Map.empty, de_last_approved_proposal_for_action = Map.empty, de_enactment_queue = [], de_events = []\<rparr>"

definition de_deposit_event :: "'k democracy_event \<Rightarrow> 'k democracy \<Rightarrow> 'k democracy" where
  "de_deposit_event e s = s\<lparr>de_events := de_events s @ [e]\<rparr>"

section \<open>Operations\<close>

subsection \<open>The electorate\<close>

definition ENACTMENT_QUEUE_MAX_PER_TYPE :: nat where
  "ENACTMENT_QUEUE_MAX_PER_TYPE = 128"

definition proposal_lifetime_cycles :: "('n, 'k) democracy_config \<Rightarrow> scheduler \<Rightarrow> democracy_error + nat" where
  "proposal_lifetime_cycles c sch =
     (let cycle_duration = get_cycle_duration sch in
      ok_or (Option.bind (Option.bind (checked_add 64 (dc_proposal_lifetime c) cycle_duration) (\<lambda>r. checked_sub r 1))
        (\<lambda>r. checked_div r cycle_duration)) MathError)"

definition voting_cindexes ::
  "('n, 'k) democracy_config \<Rightarrow> scheduler \<Rightarrow> ceremonies \<Rightarrow> nat \<Rightarrow> democracy_error + nat list" where
  "voting_cindexes c sch ce proposal_start =
     bind_res (proposal_lifetime_cycles c sch) (\<lambda>cycles.
     let proposal_lifetime_cycles = min cycles (2 ^ 32 - 1);
         lower = saturating_add 32 (saturating_sub proposal_start (ce_reputation_lifetime ce)) proposal_lifetime_cycles;
         upper = saturating_sub proposal_start 2
     in Inr [lower..<upper + 1])"

definition community_electorate :: "ceremonies \<Rightarrow> CommunityIdentifier \<Rightarrow> nat list \<Rightarrow> nat" where
  "community_electorate ce cid cindexes =
     foldl (wrapping_add 128) 0 (map (\<lambda>cindex. value_query 0 (ce_reputation_count ce (cid, cindex))) cindexes)"

definition global_electorate :: "ceremonies \<Rightarrow> nat list \<Rightarrow> nat" where
  "global_electorate ce cindexes =
     foldl (wrapping_add 128) 0 (map (\<lambda>cindex. value_query 0 (ce_global_reputation_count ce cindex)) cindexes)"

definition get_electorate ::
  "('n, 'k) democracy_config \<Rightarrow> scheduler \<Rightarrow> ceremonies \<Rightarrow> nat \<Rightarrow> 'k ProposalAction \<Rightarrow> democracy_error + nat" where
  "get_electorate c sch ce start_cindex proposal_action =
     bind_res (voting_cindexes c sch ce start_cindex) (\<lambda>cindexes.
     Inr (case get_access_policy proposal_action of
            Community cid \<Rightarrow> community_electorate ce cid cindexes
          | Global \<Rightarrow> global_electorate ce cindexes))"

subsection \<open>Submitting\<close>

text \<open>The decimal digits of a number as ASCII bytes.\<close>

fun decimal :: "nat \<Rightarrow> bytes" where
  "decimal n = (if n < 10 then [48 + n] else decimal (n div 10) @ [48 + n mod 10])"

declare decimal.simps [simp del]

definition proposal_identifier :: "nat \<Rightarrow> bytes" where
  "proposal_identifier proposal_id = pallet_string ''democracyProposal'' @ decimal proposal_id"

definition submit_proposal ::
  "('n, 'k) democracy_config \<Rightarrow> scheduler \<Rightarrow> ceremonies \<Rightarrow> 'k ProposalAction \<Rightarrow> 'k democracy \<times> commitments \<Rightarrow>
   democracy_error + ('k democracy \<times> commitments)" where
  "submit_proposal c sch ce proposal_action w =
     (let (s, rc) = w in
      ensure (\<not> contains (map_of (de_enactment_queue s) (get_identifier proposal_action))) ProposalWaitingForEnactment (
      let cindex = sc_ceremony_index sch in
      bind_res (ok_or (checked_add 128 (de_proposal_count s) 1) ProposalIdOutOfBounds) (\<lambda>next_proposal_id.
      bind_res (get_electorate c sch ce cindex proposal_action) (\<lambda>electorate_size.
      let proposal = \<lparr>pr_start = ts_now sch, pr_start_cindex = cindex, pr_action = proposal_action,
                      pr_state = Ongoing, pr_electorate_size = electorate_size\<rparr>;
          descriptor = proposal_identifier next_proposal_id
      in
      ensure (length descriptor \<le> 128) DemocracyPurposeIdCreationFailed (
      bind_res (map_err DemocracyCommitments (do_register_purpose descriptor rc)) (\<lambda>(purpose_id, rc').
      Inr (de_deposit_event (ProposalSubmitted next_proposal_id proposal_action)
             (s\<lparr>de_proposals := (de_proposals s)(next_proposal_id \<mapsto> proposal),
                de_purpose_ids := (de_purpose_ids s)(next_proposal_id \<mapsto> purpose_id),
                de_proposal_count := next_proposal_id,
                de_tallies := (de_tallies s)(next_proposal_id \<mapsto> \<lparr>ta_turnout = 0, ta_ayes = 0\<rparr>)\<rparr>),
           rc')))))))"

subsection \<open>Passing\<close>

text \<open>
  \<open>U64F64\<close> values are their 128 bits. A number too large for the 64 integer bits wraps when it is
  converted.
\<close>

definition u64f64_from_num :: "nat \<Rightarrow> nat" where
  "u64f64_from_num n = (n mod 2 ^ 64) * 2 ^ 64"

definition u64f64_checked_mul :: "nat \<Rightarrow> nat \<Rightarrow> nat option" where
  "u64f64_checked_mul a b = (let p = (a * b) div 2 ^ 64 in if p < 2 ^ 128 then Some p else None)"

definition u64f64_checked_div :: "nat \<Rightarrow> nat \<Rightarrow> nat option" where
  "u64f64_checked_div a b =
     (if b = 0 then None else let q = (a * 2 ^ 64) div b in if q < 2 ^ 128 then Some q else None)"

definition positive_turnout_bias :: "('n, 'k) democracy_config \<Rightarrow> nat \<Rightarrow> nat \<Rightarrow> nat \<Rightarrow> bool option" where
  "positive_turnout_bias c e t a =
     Option.bind (dc_sqrt c (u64f64_from_num e)) (\<lambda>sqrt_e.
     Option.bind (dc_sqrt c (u64f64_from_num t)) (\<lambda>sqrt_t.
     Option.bind (u64f64_checked_mul sqrt_e sqrt_t) (\<lambda>product.
     Option.bind (Option.bind (u64f64_checked_div sqrt_e sqrt_t) (\<lambda>r. checked_add 128 r (2 ^ 64))) (\<lambda>divisor.
     Option.bind (u64f64_checked_div product divisor) (\<lambda>approval_threshold.
     Some (u64f64_from_num a > approval_threshold))))))"

definition is_passing :: "('n, 'k) democracy_config \<Rightarrow> nat \<Rightarrow> 'k democracy \<Rightarrow> democracy_error + bool" where
  "is_passing c proposal_id s =
     bind_res (ok_or (de_tallies s proposal_id) InexistentProposal) (\<lambda>tally.
     bind_res (ok_or (de_proposals s proposal_id) InexistentProposal) (\<lambda>proposal.
     let electorate = pr_electorate_size proposal;
         turnout_perthousand = value_query 0 (checked_div (wrapping_mul 128 (ta_turnout tally) 1000) electorate)
     in if turnout_perthousand < dc_min_turnout c then Inr False
        else ok_or (positive_turnout_bias c electorate (ta_turnout tally) (ta_ayes tally)) AQBError))"

text \<open>A queue that is full is left as it is: the failing push only logs.\<close>

definition push_enactment ::
  "ProposalActionIdentifier \<Rightarrow> nat \<Rightarrow> (ProposalActionIdentifier \<times> nat list) list \<Rightarrow>
   (ProposalActionIdentifier \<times> nat list) list" where
  "push_enactment ident proposal_id q =
     (let queue = value_query [] (map_of q ident) in
      if length queue < ENACTMENT_QUEUE_MAX_PER_TYPE then AList.update ident (queue @ [proposal_id]) q else q)"

text \<open>
  The new state of a proposal: \<open>last_approved\<close> is the entry of its action identifier, \<open>passing\<close> the answer of
  \<open>is_passing\<close>.
\<close>

definition cancelled_by_other :: "'k Proposal \<Rightarrow> (nat \<times> nat) option \<Rightarrow> nat option" where
  "cancelled_by_other proposal last_approved =
     (case last_approved of
        Some (approved_at, approved_id) \<Rightarrow>
          if supersedes_same_action (pr_action proposal) \<and> pr_start proposal < approved_at then Some approved_id else None
      | None \<Rightarrow> None)"

definition passing_state ::
  "('n, 'k) democracy_config \<Rightarrow> nat \<Rightarrow> nat \<Rightarrow> bool \<Rightarrow> ProposalState \<Rightarrow> ProposalState" where
  "passing_state c start now passing st =
     (let proposal_too_old = wrapping_sub 64 now start > dc_proposal_lifetime c in
      if passing then
        (case st of
           Confirming since \<Rightarrow>
             if value_query 0 (checked_sub now since) > dc_confirmation_period c then Approved else st
         | _ \<Rightarrow> if proposal_too_old then Rejected else Confirming now)
      else if proposal_too_old then Rejected
      else (case st of Confirming _ \<Rightarrow> Ongoing | _ \<Rightarrow> st))"

definition do_update_proposal_state ::
  "('n, 'k) democracy_config \<Rightarrow> scheduler \<Rightarrow> nat \<Rightarrow> 'k democracy \<Rightarrow> democracy_error + (bool \<times> 'k democracy)" where
  "do_update_proposal_state c sch proposal_id s =
     bind_res (ok_or (de_proposals s proposal_id) InexistentProposal) (\<lambda>proposal.
     ensure (can_update (pr_state proposal)) ProposalCannotBeUpdated (
     let now = ts_now sch;
         ident = get_identifier (pr_action proposal);
         last_approved = de_last_approved_proposal_for_action s ident
     in
     bind_res
       (case cancelled_by_other proposal last_approved of
          Some approved_id \<Rightarrow> Inr (SupersededBy approved_id)
        | None \<Rightarrow> bind_res (is_passing c proposal_id s) (\<lambda>passing.
            Inr (passing_state c (pr_start proposal) now passing (pr_state proposal))))
       (\<lambda>new_state.
     let approved = (new_state = Approved);
         s1 = (if approved
               then s\<lparr>de_enactment_queue := push_enactment ident proposal_id (de_enactment_queue s),
                      de_last_approved_proposal_for_action :=
                        (de_last_approved_proposal_for_action s)(ident \<mapsto> (now, proposal_id))\<rparr>
               else s);
         s2 = s1\<lparr>de_proposals := (de_proposals s1)(proposal_id \<mapsto> proposal\<lparr>pr_state := new_state\<rparr>)\<rparr>;
         s3 = (if pr_state proposal \<noteq> new_state
               then de_deposit_event (ProposalStateUpdated proposal_id new_state) s2 else s2)
     in Inr (approved, s3))))"

definition update_proposal_state ::
  "('n, 'k) democracy_config \<Rightarrow> scheduler \<Rightarrow> nat \<Rightarrow> 'k democracy \<Rightarrow> democracy_error + 'k democracy" where
  "update_proposal_state c sch proposal_id s =
     bind_res (do_update_proposal_state c sch proposal_id s) (\<lambda>(_, s'). Inr s')"

subsection \<open>Voting\<close>

definition eligible_attendance :: "ProposalAccessPolicy \<Rightarrow> nat list \<Rightarrow> CommunityCeremony \<Rightarrow> bool" where
  "eligible_attendance policy cindexes community_ceremony \<longleftrightarrow>
     snd community_ceremony \<in> set cindexes \<and>
     (case policy of Community cid \<Rightarrow> fst community_ceremony = cid | Global \<Rightarrow> True)"

text \<open>The loop skips what is not eligible and what cannot be committed; the vector of the call bounds the count.\<close>

fun commit_reputations ::
  "('n, 'k) democracy_config \<Rightarrow> scheduler \<Rightarrow> ceremonies \<Rightarrow> 'k Proposal \<Rightarrow> nat \<Rightarrow> AccountId \<Rightarrow> CommunityCeremony list \<Rightarrow>
   nat \<Rightarrow> commitments \<Rightarrow> democracy_error + (nat \<times> commitments)" where
  "commit_reputations c sch ce proposal purpose_id account [] n rc = Inr (n, rc)"
| "commit_reputations c sch ce proposal purpose_id account (cc # ccs) n rc =
     bind_res (voting_cindexes c sch ce (pr_start_cindex proposal)) (\<lambda>cindexes.
     if \<not> eligible_attendance (get_access_policy (pr_action proposal)) cindexes cc
     then commit_reputations c sch ce proposal purpose_id account ccs n rc
     else
       (case do_commit_reputation ce account (fst cc) (snd cc) purpose_id None rc of
          Inl _ \<Rightarrow> commit_reputations c sch ce proposal purpose_id account ccs n rc
        | Inr rc' \<Rightarrow> commit_reputations c sch ce proposal purpose_id account ccs (n + 1) rc'))"

definition validate_and_commit_reputations ::
  "('n, 'k) democracy_config \<Rightarrow> scheduler \<Rightarrow> ceremonies \<Rightarrow> nat \<Rightarrow> AccountId \<Rightarrow> CommunityCeremony list \<Rightarrow>
   'k democracy \<Rightarrow> commitments \<Rightarrow> democracy_error + (nat \<times> commitments)" where
  "validate_and_commit_reputations c sch ce proposal_id account reputations s rc =
     bind_res (ok_or (de_proposals s proposal_id) InexistentProposal) (\<lambda>proposal.
     bind_res (ok_or (de_purpose_ids s proposal_id) InexistentProposal) (\<lambda>purpose_id.
     commit_reputations c sch ce proposal purpose_id account reputations 0 rc))"

definition vote ::
  "('n, 'k) democracy_config \<Rightarrow> scheduler \<Rightarrow> ceremonies \<Rightarrow> AccountId \<Rightarrow> nat \<Rightarrow> Vote \<Rightarrow> CommunityCeremony list \<Rightarrow>
   'k democracy \<times> commitments \<Rightarrow> democracy_error + ('k democracy \<times> commitments)" where
  "vote c sch ce sender proposal_id v reputations w =
     (let (s, rc) = w in
      bind_res (ok_or (de_tallies s proposal_id) InexistentProposal) (\<lambda>tally.
      bind_res (do_update_proposal_state c sch proposal_id s) (\<lambda>(_, s1).
      bind_res (validate_and_commit_reputations c sch ce proposal_id sender reputations s1 rc) (\<lambda>(num_votes, rc').
      let ayes = (case v of Aye \<Rightarrow> num_votes | Nay \<Rightarrow> 0) in
      bind_res (ok_or (checked_add 128 (ta_turnout tally) num_votes) VoteCountOverflow) (\<lambda>new_turnout.
      bind_res (ok_or (checked_add 128 (ta_ayes tally) ayes) VoteCountOverflow) (\<lambda>new_ayes.
      let s2 = s1\<lparr>de_tallies := (de_tallies s1)(proposal_id \<mapsto> \<lparr>ta_turnout = new_turnout, ta_ayes = new_ayes\<rparr>)\<rparr> in
      bind_res (do_update_proposal_state c sch proposal_id s2) (\<lambda>(_, s3).
      Inr (de_deposit_event (if num_votes > 0 then VotePlaced proposal_id v num_votes else VoteFailed proposal_id v) s3,
           rc'))))))))"

subsection \<open>Enactment\<close>

text \<open>
  Enactment runs inside the phase change, where no transaction undoes the writes of a failing call: adding
  a location writes the location before the community is put into the index of the geohash, which may
  fail. The other calls write nothing before their last check.
\<close>

definition store_location ::
  "communities_config \<Rightarrow> CommunityIdentifier \<Rightarrow> Location \<Rightarrow> communities \<Rightarrow> communities_error + (GeoHash \<times> communities)" where
  "store_location c cid location s =
     bind_res (ensure_cid_exists s cid) (\<lambda>_.
     bind_res (validate_location c s location) (\<lambda>_.
     bind_res (ok_or (cc_try_from_params c (lat location) (lon location)) InvalidLocationForGeohash) (\<lambda>geo_hash.
     bind_res
       (case binary_search location (locations s cid geo_hash) of
          Inr _ \<Rightarrow> Inr s
        | Inl index \<Rightarrow>
            bind_res (ok_or (try_insert (cc_max_locations_per_geohash c) index location
                               (locations s cid geo_hash)) TooManyLocationsPerGeohash)
              (\<lambda>ls. Inr (insert_locations cid geo_hash ls s)))
       (\<lambda>s1. Inr (geo_hash, s1)))))"

definition do_add_location_in_place ::
  "communities_config \<Rightarrow> CommunityIdentifier \<Rightarrow> Location \<Rightarrow> communities \<Rightarrow> (communities_error + unit) \<times> communities" where
  "do_add_location_in_place c cid location s =
     (case store_location c cid location s of
        Inl e \<Rightarrow> (Inl e, s)
      | Inr (geo_hash, s1) \<Rightarrow>
          (case index_cid c geo_hash cid s1 of
             Inl e \<Rightarrow> (Inl e, s1)
           | Inr s2 \<Rightarrow> (Inr (), cm_deposit_event (LocationAdded cid location) s2)))"

record ('n, 'k) chain =
  ch_communities :: communities
  ch_balances :: balances
  ch_ceremonies :: ceremonies
  ch_treasuries :: "'k treasuries"
  ch_native :: 'n
  ch_democracy :: "'k democracy"

definition lift_communities ::
  "communities_error + communities \<Rightarrow> ('n, 'k) chain \<Rightarrow> (enact_error + unit) \<times> ('n, 'k) chain" where
  "lift_communities r w = (case r of Inl e \<Rightarrow> (Inl (EnactCommunities e), w) | Inr s \<Rightarrow> (Inr (), w\<lparr>ch_communities := s\<rparr>))"

definition lift_treasuries ::
  "treasuries_error + ('k treasuries \<times> 'n) \<Rightarrow> ('n, 'k) chain \<Rightarrow> (enact_error + unit) \<times> ('n, 'k) chain" where
  "lift_treasuries r w =
     (case r of
        Inl e \<Rightarrow> (Inl (EnactTreasuries e), w)
      | Inr (tr, n) \<Rightarrow> (Inr (), w\<lparr>ch_treasuries := tr, ch_native := n\<rparr>))"

fun execute_action ::
  "('n, 'k) democracy_config \<Rightarrow> 'k ProposalAction \<Rightarrow> ('n, 'k) chain \<Rightarrow> (enact_error + unit) \<times> ('n, 'k) chain" where
  "execute_action c (AddLocation cid location) w =
     (case do_add_location_in_place (dc_communities c) cid location (ch_communities w) of
        (Inl e, s) \<Rightarrow> (Inl (EnactCommunities e), w\<lparr>ch_communities := s\<rparr>)
      | (Inr _, s) \<Rightarrow> (Inr (), w\<lparr>ch_communities := s\<rparr>))"
| "execute_action c (RemoveLocation cid location) w =
     lift_communities (do_remove_location (dc_communities c) cid location (ch_communities w)) w"
| "execute_action c (UpdateCommunityMetadata cid metadata) w =
     lift_communities (do_update_community_metadata cid metadata (ch_communities w)) w"
| "execute_action c (UpdateDemurrage cid d) w =
     (case do_update_demurrage cid d (ch_communities w) (ch_balances w) of
        Inl e \<Rightarrow> (Inl (EnactCommunities e), w)
      | Inr (cm, b) \<Rightarrow> (Inr (), w\<lparr>ch_communities := cm, ch_balances := b\<rparr>))"
| "execute_action c (UpdateNominalIncome cid income) w =
     lift_communities (do_update_nominal_income cid income (ch_communities w)) w"
| "execute_action c (SetInactivityTimeout timeout) w =
     (Inr (), w\<lparr>ch_ceremonies := do_set_inactivity_timeout timeout (ch_ceremonies w)\<rparr>)"
| "execute_action c (Petition maybe_cid petition) w =
     (Inr (), w\<lparr>ch_democracy := de_deposit_event (PetitionApproved maybe_cid petition) (ch_democracy w)\<rparr>)"
| "execute_action c (SpendNative maybe_cid beneficiary amount) w =
     lift_treasuries (do_spend_native (dc_treasuries c) maybe_cid beneficiary amount (ch_treasuries w, ch_native w)) w"
| "execute_action c (IssueSwapNativeOption cid owner swap_option) w =
     (Inr (), w\<lparr>ch_treasuries := do_issue_swap_native_option cid owner swap_option (ch_treasuries w)\<rparr>)"
| "execute_action c (SpendAsset maybe_cid beneficiary amount asset_id) w =
     lift_treasuries (do_spend_asset (dc_treasuries c) maybe_cid beneficiary asset_id amount (ch_treasuries w, ch_native w)) w"
| "execute_action c (IssueSwapAssetOption cid owner swap_option) w =
     (Inr (), w\<lparr>ch_treasuries := do_issue_swap_asset_option cid owner swap_option (ch_treasuries w)\<rparr>)"

definition enact_proposal ::
  "('n, 'k) democracy_config \<Rightarrow> nat \<Rightarrow> ('n, 'k) chain \<Rightarrow> (enact_error + unit) \<times> ('n, 'k) chain" where
  "enact_proposal c proposal_id w =
     (case de_proposals (ch_democracy w) proposal_id of
        None \<Rightarrow> (Inl EnactInexistent, w)
      | Some proposal \<Rightarrow>
          (case execute_action c (pr_action proposal) w of
             (Inl e, w1) \<Rightarrow> (Inl e, w1)
           | (Inr _, w1) \<Rightarrow>
               let s = ch_democracy w1;
                   s1 = s\<lparr>de_proposals := (de_proposals s)(proposal_id \<mapsto> proposal\<lparr>pr_state := Enacted\<rparr>)\<rparr>
               in (Inr (), w1\<lparr>ch_democracy := de_deposit_event (ProposalEnacted proposal_id) s1\<rparr>)))"

definition enact_or_report :: "('n, 'k) democracy_config \<Rightarrow> nat \<Rightarrow> ('n, 'k) chain \<Rightarrow> ('n, 'k) chain" where
  "enact_or_report c proposal_id w =
     (case enact_proposal c proposal_id w of
        (Inl e, w1) \<Rightarrow> w1\<lparr>ch_democracy := de_deposit_event (EnactmentFailed proposal_id e) (ch_democracy w1)\<rparr>
      | (Inr _, w1) \<Rightarrow> w1)"

definition enactment_order ::
  "('n, 'k) democracy_config \<Rightarrow> (ProposalActionIdentifier \<times> nat list) list \<Rightarrow> nat list" where
  "enactment_order c q = concat (map (\<lambda>ident. value_query [] (map_of q ident)) (dc_iteration c (map fst q)))"

definition democracy_on_phase_change ::
  "('n, 'k) democracy_config \<Rightarrow> CeremonyPhaseType \<Rightarrow> ('n, 'k) chain \<Rightarrow> ('n, 'k) chain" where
  "democracy_on_phase_change c new_phase w =
     (case new_phase of
        Assigning \<Rightarrow>
          let w1 = fold (enact_or_report c) (enactment_order c (de_enactment_queue (ch_democracy w))) w
          in w1\<lparr>ch_democracy := (ch_democracy w1)\<lparr>de_enactment_queue := []\<rparr>\<rparr>
      | Attesting \<Rightarrow> w
      | Registering \<Rightarrow> w)"

end
