(* ===== verification/Democracy_Invariants.thy ===== *)
theory Democracy_Invariants
  imports Democracy
begin

text \<open>
  What the democracy pallet guarantees: the states a proposal goes through, the conditions of its approval, what a vote
  adds to the tally and the attendances that back it, and the enactment of the queue.
\<close>

section \<open>Updating a proposal\<close>

lemma add_location_in_place:
  "do_add_location c cid location s =
     (case do_add_location_in_place c cid location s of (Inl e, _) \<Rightarrow> Inl e | (Inr _, s') \<Rightarrow> Inr s')"
  by (auto simp: do_add_location_def do_add_location_in_place_def store_location_def bind_res_def split: sum.splits prod.splits)

lemma passing_state_Approved:
  assumes "can_update st"
  shows "passing_state c start now passing st = Approved \<longleftrightarrow>
    passing \<and> (\<exists>since. st = Confirming since \<and> since \<le> now \<and> dc_confirmation_period c < now - since)"
  using assms
  by (cases st) (auto simp: passing_state_def Let_def checked_sub_def value_query_def)

lemma passing_state_old:
  assumes "can_update st" and "dc_proposal_lifetime c < wrapping_sub 64 now start"
    and "\<not> passing \<or> st = Ongoing"
  shows "passing_state c start now passing st = Rejected"
  using assms by (cases st) (auto simp: passing_state_def)

lemma update_cases:
  assumes "do_update_proposal_state c sch pid s = Inr (approved, s')"
  obtains proposal st where "de_proposals s pid = Some proposal" and "can_update (pr_state proposal)"
    and "de_proposals s' = (de_proposals s)(pid \<mapsto> proposal\<lparr>pr_state := st\<rparr>)"
    and "approved \<longleftrightarrow> st = Approved"
    and "de_tallies s' = de_tallies s" and "de_purpose_ids s' = de_purpose_ids s"
    and "de_proposal_count s' = de_proposal_count s"
    and "de_enactment_queue s' = (if st = Approved
      then push_enactment (get_identifier (pr_action proposal)) pid (de_enactment_queue s) else de_enactment_queue s)"
    and "(\<exists>i. cancelled_by_other proposal (de_last_approved_proposal_for_action s (get_identifier (pr_action proposal))) = Some i
        \<and> st = SupersededBy i) \<or>
      (cancelled_by_other proposal (de_last_approved_proposal_for_action s (get_identifier (pr_action proposal))) = None \<and>
       (\<exists>passing. is_passing c pid s = Inr passing \<and> st = passing_state c (pr_start proposal) (ts_now sch) passing (pr_state proposal)))"
proof -
  define cancelled where "cancelled proposal =
    cancelled_by_other proposal (de_last_approved_proposal_for_action s (get_identifier (pr_action proposal)))"
    for proposal :: "'a Proposal"
  obtain proposal st where p: "de_proposals s pid = Some proposal" "can_update (pr_state proposal)"
    and st: "(case cancelled proposal of Some i \<Rightarrow> Inr (SupersededBy i)
      | None \<Rightarrow> bind_res (is_passing c pid s) (\<lambda>passing.
          Inr (passing_state c (pr_start proposal) (ts_now sch) passing (pr_state proposal)))) = Inr st"
    and approved: "approved \<longleftrightarrow> st = Approved"
    and s': "de_proposals s' = (de_proposals s)(pid \<mapsto> proposal\<lparr>pr_state := st\<rparr>)" "de_tallies s' = de_tallies s"
      "de_purpose_ids s' = de_purpose_ids s" "de_proposal_count s' = de_proposal_count s"
      "de_enactment_queue s' = (if st = Approved
        then push_enactment (get_identifier (pr_action proposal)) pid (de_enactment_queue s) else de_enactment_queue s)"
    using assms unfolding do_update_proposal_state_def Let_def bind_res_Inr ensure_Inr ok_or_Inr cancelled_def
    by (auto simp: de_deposit_event_def)
  have cases: "(\<exists>i. cancelled proposal = Some i \<and> st = SupersededBy i) \<or>
    (cancelled proposal = None \<and> (\<exists>passing. is_passing c pid s = Inr passing \<and>
       st = passing_state c (pr_start proposal) (ts_now sch) passing (pr_state proposal)))"
    using st by (auto simp: bind_res_Inr split: option.splits)
  from that[OF p s'(1) approved s'(2-5) cases[unfolded cancelled_def]] show thesis .
qed

text \<open>
  Which states an update leads to: a proposal is approved only out of confirming, when it passes and the confirmation
  period has elapsed; it is confirming only since now or since before, and then the period has not elapsed.
\<close>

lemma passing_state_Confirming:
  assumes "can_update st" and "passing_state c start now passing st = Confirming since"
  shows "since = now \<or> \<not> (since \<le> now \<and> dc_confirmation_period c < now - since)"
  using assms by (cases st) (auto simp: passing_state_def Let_def checked_sub_def value_query_def split: if_splits)

lemma update_states:
  assumes "do_update_proposal_state c sch pid s = Inr (approved, s')" and "de_proposals s pid = Some p"
  obtains st where "de_proposals s' = (de_proposals s)(pid \<mapsto> p\<lparr>pr_state := st\<rparr>)" and "can_update (pr_state p)" and "st \<noteq> Enacted"
    and "st = Approved \<Longrightarrow> \<exists>since. pr_state p = Confirming since \<and> since \<le> ts_now sch \<and>
      dc_confirmation_period c < ts_now sch - since \<and> is_passing c pid s = Inr True"
    and "\<And>since. st = Confirming since \<Longrightarrow> since = ts_now sch \<or> \<not> (since \<le> ts_now sch \<and> dc_confirmation_period c < ts_now sch - since)"
  using assms(1)
proof (rule update_cases)
  fix q st assume q: "de_proposals s pid = Some q" "can_update (pr_state q)"
    "de_proposals s' = (de_proposals s)(pid \<mapsto> q\<lparr>pr_state := st\<rparr>)"
    and st: "(\<exists>j. cancelled_by_other q (de_last_approved_proposal_for_action s (get_identifier (pr_action q))) = Some j
        \<and> st = SupersededBy j) \<or>
      (cancelled_by_other q (de_last_approved_proposal_for_action s (get_identifier (pr_action q))) = None \<and>
       (\<exists>passing. is_passing c pid s = Inr passing \<and> st = passing_state c (pr_start q) (ts_now sch) passing (pr_state q)))"
  have same: "q = p" using q(1) assms(2) by simp
  consider (superseded) j where "st = SupersededBy j"
    | (judged) passing where "is_passing c pid s = Inr passing" "passing_state c (pr_start p) (ts_now sch) passing (pr_state p) = st"
    using st same by auto
  then show thesis
  proof cases
    case superseded
    show thesis by (rule that[OF q(3)[unfolded same] q(2)[unfolded same]]) (use superseded in simp_all)
  next
    case judged
    have "st \<noteq> Enacted" using judged(2) q(2) same by (cases "pr_state p") (auto simp: passing_state_def Let_def split: if_splits)
    moreover have "\<exists>since. pr_state p = Confirming since \<and> since \<le> ts_now sch \<and>
        dc_confirmation_period c < ts_now sch - since \<and> is_passing c pid s = Inr True" if "st = Approved"
      using passing_state_Approved[OF q(2)[unfolded same], of c "pr_start p" "ts_now sch" passing] judged that by auto
    ultimately show thesis
      using passing_state_Confirming[OF q(2)[unfolded same]] judged(2) that[OF q(3)[unfolded same] q(2)[unfolded same]] by blast
  qed
qed

section \<open>The enactment queue\<close>

definition queued :: "(ProposalActionIdentifier \<times> nat list) list \<Rightarrow> nat list" where
  "queued q = concat (map snd q)"

definition queue_full :: "ProposalActionIdentifier \<Rightarrow> 'k democracy \<Rightarrow> bool" where
  "queue_full ident s \<longleftrightarrow> ENACTMENT_QUEUE_MAX_PER_TYPE \<le> length (value_query [] (map_of (de_enactment_queue s) ident))"

lemma queued_update:
  "mset (queued (AList.update k (value_query [] (map_of q k) @ [i]) q)) = add_mset i (mset (queued q))"
  by (induction q) (auto simp: queued_def value_query_def)

lemma push_enactment_queued:
  "mset (queued (push_enactment k i q)) =
     (if length (value_query [] (map_of q k)) < ENACTMENT_QUEUE_MAX_PER_TYPE
      then add_mset i (mset (queued q)) else mset (queued q))"
  "distinct (map fst q) \<Longrightarrow> distinct (map fst (push_enactment k i q))"
  by (simp_all add: push_enactment_def Let_def queued_update distinct_update)

text \<open>What the iteration over a storage map promises: every key once, in some order.\<close>

definition lawful_iteration :: "('n, 'k) democracy_config \<Rightarrow> bool" where
  "lawful_iteration c \<longleftrightarrow> (\<forall>ks. mset (dc_iteration c ks) = mset ks)"

lemma enactment_order_queued:
  assumes "lawful_iteration c" and "distinct (map fst q)"
  shows "mset (enactment_order c q) = mset (queued q)"
proof -
  have sums: "mset (concat (map f ks)) = (\<Sum>k \<in># mset ks. mset (f k))" for f :: "ProposalActionIdentifier \<Rightarrow> nat list" and ks
    by (induction ks) simp_all
  have "mset (concat (map (\<lambda>k. value_query [] (map_of q k)) (dc_iteration c (map fst q)))) =
    mset (concat (map (\<lambda>k. value_query [] (map_of q k)) (map fst q)))"
    using assms(1) unfolding lawful_iteration_def sums by presburger
  also have "map (\<lambda>k. value_query [] (map_of q k)) (map fst q) = map snd q"
    using assms(2) by (auto simp: value_query_def)
  finally show ?thesis by (simp add: enactment_order_def queued_def)
qed

text \<open>An action changes nothing of the democracy pallet but its events.\<close>

definition unlogged :: "'k democracy \<Rightarrow> 'k democracy" where
  "unlogged s = s\<lparr>de_events := []\<rparr>"

lemma unlogged_fields:
  assumes "unlogged s = unlogged s'"
  shows "de_proposals s = de_proposals s'" and "de_tallies s = de_tallies s'" and "de_purpose_ids s = de_purpose_ids s'"
    and "de_proposal_count s = de_proposal_count s'" and "de_enactment_queue s = de_enactment_queue s'"
    and "de_last_approved_proposal_for_action s = de_last_approved_proposal_for_action s'"
  using assms by (cases s; cases s'; simp add: unlogged_def)+

fun enactment_of :: "'k democracy_event \<Rightarrow> nat option" where
  "enactment_of (ProposalEnacted i) = Some i"
| "enactment_of (EnactmentFailed i _) = Some i"
| "enactment_of _ = None"

definition enactments :: "'k democracy \<Rightarrow> nat list" where
  "enactments s = List.map_filter enactment_of (de_events s)"

lemma enactments_deposit [simp]:
  "enactments (de_deposit_event e s) = enactments s @ (case enactment_of e of Some i \<Rightarrow> [i] | None \<Rightarrow> [])"
  by (simp add: enactments_def de_deposit_event_def map_filter_def split: option.splits)

lemma unlogged_deposit [simp]: "unlogged (de_deposit_event e s) = unlogged s"
  by (simp add: unlogged_def de_deposit_event_def)

lemma execute_action_democracy:
  "unlogged (ch_democracy (snd (execute_action c a w))) = unlogged (ch_democracy w)"
  "enactments (ch_democracy (snd (execute_action c a w))) = enactments (ch_democracy w)"
  by (cases a; simp add: lift_communities_def lift_treasuries_def split: sum.splits prod.splits)+

lemma execute_action_events:
  "set (de_events (ch_democracy w)) \<subseteq> set (de_events (ch_democracy (snd (execute_action c a w))))"
  by (cases a; auto simp: lift_communities_def lift_treasuries_def de_deposit_event_def split: sum.splits prod.splits)

text \<open>One enactment: it is logged, and the proposal is enacted or left as it was.\<close>

lemma enact_or_report_cases:
  fixes w :: "('n, 'k) chain" and c :: "('n, 'k) democracy_config" and i :: nat
  defines "w' \<equiv> enact_or_report c i w"
  shows "de_enactment_queue (ch_democracy w') = de_enactment_queue (ch_democracy w)"
    and "de_tallies (ch_democracy w') = de_tallies (ch_democracy w)"
    and "de_purpose_ids (ch_democracy w') = de_purpose_ids (ch_democracy w)"
    and "de_proposal_count (ch_democracy w') = de_proposal_count (ch_democracy w)"
    and "enactments (ch_democracy w') = enactments (ch_democracy w) @ [i]"
    and "set (de_events (ch_democracy w)) \<subseteq> set (de_events (ch_democracy w'))"
    and "(\<exists>p. de_proposals (ch_democracy w) i = Some p \<and> ProposalEnacted i \<in> set (de_events (ch_democracy w')) \<and>
            de_proposals (ch_democracy w') = (de_proposals (ch_democracy w))(i \<mapsto> p\<lparr>pr_state := Enacted\<rparr>)) \<or>
      (\<exists>e. EnactmentFailed i e \<in> set (de_events (ch_democracy w')) \<and>
            de_proposals (ch_democracy w') = de_proposals (ch_democracy w))"
proof -
  consider (missing) "de_proposals (ch_democracy w) i = None"
    "w' = w\<lparr>ch_democracy := de_deposit_event (EnactmentFailed i EnactInexistent) (ch_democracy w)\<rparr>"
  | (failed) p e w1 where "de_proposals (ch_democracy w) i = Some p" "execute_action c (pr_action p) w = (Inl e, w1)"
    "w' = w1\<lparr>ch_democracy := de_deposit_event (EnactmentFailed i e) (ch_democracy w1)\<rparr>"
  | (done_now) p w1 where "de_proposals (ch_democracy w) i = Some p" "execute_action c (pr_action p) w = (Inr (), w1)"
    "w' = w1\<lparr>ch_democracy := de_deposit_event (ProposalEnacted i) ((ch_democracy w1)
        \<lparr>de_proposals := (de_proposals (ch_democracy w1))(i \<mapsto> p\<lparr>pr_state := Enacted\<rparr>)\<rparr>)\<rparr>"
  proof (cases "de_proposals (ch_democracy w) i")
    case None
    then show thesis using missing by (simp add: w'_def enact_or_report_def enact_proposal_def)
  next
    case (Some p)
    obtain r w1 where run: "execute_action c (pr_action p) w = (r, w1)" by (cases "execute_action c (pr_action p) w")
    show thesis
    proof (cases r)
      case (Inl e)
      with run failed[OF Some, of e w1] Some show thesis by (simp add: w'_def enact_or_report_def enact_proposal_def)
    next
      case (Inr u)
      with run done_now[OF Some, of w1] Some show thesis by (simp add: w'_def enact_or_report_def enact_proposal_def Let_def)
    qed
  qed
  note cases = this
  have same: "unlogged (ch_democracy w1) = unlogged (ch_democracy w)" "enactments (ch_democracy w1) = enactments (ch_democracy w)"
    "set (de_events (ch_democracy w)) \<subseteq> set (de_events (ch_democracy w1))"
    if "execute_action c a w = (r, w1)" for a r w1
    using execute_action_democracy[of c a w] execute_action_events[of w c a] that by simp_all
  note fields = same(1)[THEN unlogged_fields(1)] same(1)[THEN unlogged_fields(2)] same(1)[THEN unlogged_fields(3)]
    same(1)[THEN unlogged_fields(4)] same(1)[THEN unlogged_fields(5)]
  have "(de_enactment_queue (ch_democracy w') = de_enactment_queue (ch_democracy w) \<and>
    de_tallies (ch_democracy w') = de_tallies (ch_democracy w) \<and>
    de_purpose_ids (ch_democracy w') = de_purpose_ids (ch_democracy w) \<and>
    de_proposal_count (ch_democracy w') = de_proposal_count (ch_democracy w) \<and>
    enactments (ch_democracy w') = enactments (ch_democracy w) @ [i]) \<and>
    set (de_events (ch_democracy w)) \<subseteq> set (de_events (ch_democracy w')) \<and>
    ((\<exists>p. de_proposals (ch_democracy w) i = Some p \<and> ProposalEnacted i \<in> set (de_events (ch_democracy w')) \<and>
            de_proposals (ch_democracy w') = (de_proposals (ch_democracy w))(i \<mapsto> p\<lparr>pr_state := Enacted\<rparr>)) \<or>
      (\<exists>e. EnactmentFailed i e \<in> set (de_events (ch_democracy w')) \<and>
            de_proposals (ch_democracy w') = de_proposals (ch_democracy w)))"
    (is "?same \<and> ?log \<and> (?enacted \<or> ?failed)")
  proof (cases rule: cases)
    case missing
    have ?failed unfolding missing(2) by (auto simp: de_deposit_event_def)
    moreover have ?same unfolding missing(2) by (simp add: enactments_def de_deposit_event_def map_filter_def)
    moreover have ?log unfolding missing(2) by (auto simp: de_deposit_event_def)
    ultimately show ?thesis by blast
  next
    case (failed p e w1)
    have ?failed unfolding failed(3) using fields(1)[OF failed(2)] by (auto simp: de_deposit_event_def)
    moreover have ?same unfolding failed(3) using fields[OF failed(2)] same(2)[OF failed(2)]
      by (simp add: enactments_def de_deposit_event_def map_filter_def)
    moreover have ?log unfolding failed(3) using same(3)[OF failed(2)] by (auto simp: de_deposit_event_def)
    ultimately show ?thesis by blast
  next
    case (done_now p w1)
    have ?enacted unfolding done_now(3) using fields(1)[OF done_now(2)] done_now(1) by (auto simp: de_deposit_event_def)
    moreover have ?same unfolding done_now(3) using fields[OF done_now(2)] same(2)[OF done_now(2)]
      by (simp add: enactments_def de_deposit_event_def map_filter_def)
    moreover have ?log unfolding done_now(3) using same(3)[OF done_now(2)] by (auto simp: de_deposit_event_def)
    ultimately show ?thesis by blast
  qed
  then show "de_enactment_queue (ch_democracy w') = de_enactment_queue (ch_democracy w)"
    "de_tallies (ch_democracy w') = de_tallies (ch_democracy w)"
    "de_purpose_ids (ch_democracy w') = de_purpose_ids (ch_democracy w)"
    "de_proposal_count (ch_democracy w') = de_proposal_count (ch_democracy w)"
    "enactments (ch_democracy w') = enactments (ch_democracy w) @ [i]"
    "set (de_events (ch_democracy w)) \<subseteq> set (de_events (ch_democracy w'))"
    "(\<exists>p. de_proposals (ch_democracy w) i = Some p \<and> ProposalEnacted i \<in> set (de_events (ch_democracy w')) \<and>
            de_proposals (ch_democracy w') = (de_proposals (ch_democracy w))(i \<mapsto> p\<lparr>pr_state := Enacted\<rparr>)) \<or>
      (\<exists>e. EnactmentFailed i e \<in> set (de_events (ch_democracy w')) \<and>
            de_proposals (ch_democracy w') = de_proposals (ch_democracy w))"
    by blast+
qed

definition settled :: "nat \<Rightarrow> ('n, 'k) chain \<Rightarrow> ('n, 'k) chain \<Rightarrow> bool" where
  "settled i w w' \<longleftrightarrow>
     (\<exists>p. de_proposals (ch_democracy w) i = Some p \<and> ProposalEnacted i \<in> set (de_events (ch_democracy w')) \<and>
        de_proposals (ch_democracy w') i = Some (p\<lparr>pr_state := Enacted\<rparr>)) \<or>
     (\<exists>e. EnactmentFailed i e \<in> set (de_events (ch_democracy w')) \<and>
        de_proposals (ch_democracy w') i = de_proposals (ch_democracy w) i)"

lemma enact_all:
  fixes w :: "('n, 'k) chain" and c :: "('n, 'k) democracy_config" and ps :: "nat list"
  defines "w' \<equiv> fold (enact_or_report c) ps w"
  shows "de_enactment_queue (ch_democracy w') = de_enactment_queue (ch_democracy w)"
    and "de_tallies (ch_democracy w') = de_tallies (ch_democracy w)"
    and "de_purpose_ids (ch_democracy w') = de_purpose_ids (ch_democracy w)"
    and "de_proposal_count (ch_democracy w') = de_proposal_count (ch_democracy w)"
    and "enactments (ch_democracy w') = enactments (ch_democracy w) @ ps"
    and "set (de_events (ch_democracy w)) \<subseteq> set (de_events (ch_democracy w'))"
    and "i \<notin> set ps \<Longrightarrow> de_proposals (ch_democracy w') i = de_proposals (ch_democracy w) i"
    and "distinct ps \<Longrightarrow> i \<in> set ps \<Longrightarrow> settled i w w'"
proof -
  have "de_enactment_queue (ch_democracy (fold (enact_or_report c) ps w)) = de_enactment_queue (ch_democracy w) \<and>
    de_tallies (ch_democracy (fold (enact_or_report c) ps w)) = de_tallies (ch_democracy w) \<and>
    de_purpose_ids (ch_democracy (fold (enact_or_report c) ps w)) = de_purpose_ids (ch_democracy w) \<and>
    de_proposal_count (ch_democracy (fold (enact_or_report c) ps w)) = de_proposal_count (ch_democracy w) \<and>
    enactments (ch_democracy (fold (enact_or_report c) ps w)) = enactments (ch_democracy w) @ ps" for w
    by (induction ps arbitrary: w) (simp_all add: enact_or_report_cases)
  then show "de_enactment_queue (ch_democracy w') = de_enactment_queue (ch_democracy w)"
    "de_tallies (ch_democracy w') = de_tallies (ch_democracy w)"
    "de_purpose_ids (ch_democracy w') = de_purpose_ids (ch_democracy w)"
    "de_proposal_count (ch_democracy w') = de_proposal_count (ch_democracy w)"
    "enactments (ch_democracy w') = enactments (ch_democracy w) @ ps"
    unfolding w'_def by blast+
  have log: "set (de_events (ch_democracy w)) \<subseteq> set (de_events (ch_democracy (fold (enact_or_report c) ps w)))" for ps w
    by (induction ps arbitrary: w) (auto dest: subsetD[OF enact_or_report_cases(6)])
  then show "set (de_events (ch_democracy w)) \<subseteq> set (de_events (ch_democracy w'))" unfolding w'_def .
  have other: "de_proposals (ch_democracy (enact_or_report c j w)) i = de_proposals (ch_democracy w) i" if "i \<noteq> j" for i j w
    using enact_or_report_cases(7)[of w j c] that by auto
  have same: "de_proposals (ch_democracy (fold (enact_or_report c) ps w)) i = de_proposals (ch_democracy w) i"
    if "i \<notin> set ps" for ps w i
    using that by (induction ps arbitrary: w) (simp_all add: other)
  then show "i \<notin> set ps \<Longrightarrow> de_proposals (ch_democracy w') i = de_proposals (ch_democracy w) i" unfolding w'_def .
  show "settled i w w'" if "distinct ps" "i \<in> set ps"
    using that unfolding w'_def
  proof (induction ps arbitrary: w)
    case (Cons j ps)
    let ?w1 = "enact_or_report c j w" and ?w2 = "fold (enact_or_report c) ps (enact_or_report c j w)"
    show ?case
    proof (cases "i = j")
      case True
      have "settled i w ?w1" using enact_or_report_cases(7)[of w i c] unfolding settled_def True by auto
      moreover have "de_proposals (ch_democracy ?w2) i = de_proposals (ch_democracy ?w1) i" using Cons.prems(1) True same by simp
      ultimately have "settled i w ?w2" using log[of ?w1 ps] unfolding settled_def by force
      then show ?thesis by simp
    next
      case False
      then have "settled i ?w1 ?w2" using Cons by simp
      then show ?thesis using other[OF False, of w] unfolding settled_def by simp
    qed
  qed simp
qed

section \<open>Invariant\<close>

definition queue_entry_ok :: "'k democracy \<Rightarrow> nat \<Rightarrow> bool" where
  "queue_entry_ok s i \<longleftrightarrow> (\<exists>p. de_proposals s i = Some p \<and> pr_state p = Approved)"

definition democracy_ok :: "'k democracy \<Rightarrow> bool" where
  "democracy_ok s \<longleftrightarrow>
     (\<forall>i. de_proposals s i \<noteq> None \<longrightarrow> i \<le> de_proposal_count s) \<and>
     distinct (map fst (de_enactment_queue s)) \<and> distinct (queued (de_enactment_queue s)) \<and>
     (\<forall>i \<in> set (queued (de_enactment_queue s)). queue_entry_ok s i)"

lemma genesis_democracy_ok: "democracy_ok (democracy_genesis n)"
  by (simp add: democracy_ok_def democracy_genesis_def queued_def)

lemma submit_cases:
  assumes "submit_proposal c sch ce action (s, rc) = Inr (s', rc')"
  obtains e p where "do_register_purpose (proposal_identifier (de_proposal_count s + 1)) rc = Inr (p, rc')"
    and "get_electorate c sch ce (sc_ceremony_index sch) action = Inr e"
    and "map_of (de_enactment_queue s) (get_identifier action) = None"
    and "de_proposals s' = (de_proposals s)(de_proposal_count s + 1 \<mapsto>
      \<lparr>pr_start = ts_now sch, pr_start_cindex = sc_ceremony_index sch, pr_action = action, pr_state = Ongoing,
       pr_electorate_size = e\<rparr>)"
    and "de_tallies s' = (de_tallies s)(de_proposal_count s + 1 \<mapsto> \<lparr>ta_turnout = 0, ta_ayes = 0\<rparr>)"
    and "de_purpose_ids s' = (de_purpose_ids s)(de_proposal_count s + 1 \<mapsto> p)"
    and "de_proposal_count s' = de_proposal_count s + 1" and "de_enactment_queue s' = de_enactment_queue s"
  using assms
  by (auto simp: submit_proposal_def Let_def res_simps arith_ops de_deposit_event_def contains_def intro!: that)

lemma submit_ok:
  assumes "submit_proposal c sch ce action (s, rc) = Inr (s', rc')" and ok: "democracy_ok s"
  shows "democracy_ok s'"
  using assms(1)
proof (rule submit_cases)
  fix e p assume s': "de_proposals s' = (de_proposals s)(de_proposal_count s + 1 \<mapsto>
      \<lparr>pr_start = ts_now sch, pr_start_cindex = sc_ceremony_index sch, pr_action = action, pr_state = Ongoing,
       pr_electorate_size = e\<rparr>)"
    "de_proposal_count s' = de_proposal_count s + 1" "de_enactment_queue s' = de_enactment_queue s"
  have bound: "\<And>i. de_proposals s i \<noteq> None \<Longrightarrow> i \<le> de_proposal_count s" using ok unfolding democracy_ok_def by blast
  have "queue_entry_ok s' i" if "queue_entry_ok s i" for i
    using that bound[of i] unfolding queue_entry_ok_def s' by auto
  moreover have "i \<le> de_proposal_count s'" if "de_proposals s' i \<noteq> None" for i
    using that bound[of i] unfolding s' by (auto split: if_splits)
  ultimately show ?thesis using ok unfolding democracy_ok_def s'(3) by blast
qed

lemma update_ok:
  assumes "do_update_proposal_state c sch pid s = Inr (approved, s')" and ok: "democracy_ok s"
  shows "democracy_ok s'"
  using assms(1)
proof (rule update_cases)
  fix p st assume p: "de_proposals s pid = Some p" "can_update (pr_state p)"
    and s': "de_proposals s' = (de_proposals s)(pid \<mapsto> p\<lparr>pr_state := st\<rparr>)" "de_proposal_count s' = de_proposal_count s"
      "de_enactment_queue s' = (if st = Approved then push_enactment (get_identifier (pr_action p)) pid (de_enactment_queue s)
         else de_enactment_queue s)"
  have fresh: "pid \<notin> set (queued (de_enactment_queue s))"
    using ok p unfolding democracy_ok_def queue_entry_ok_def by force
  then have keep: "queue_entry_ok s' i" if "i \<in> set (queued (de_enactment_queue s))" for i
    using ok that unfolding democracy_ok_def queue_entry_ok_def s'(1) by auto
  have new: "queue_entry_ok s' pid" if "st = Approved" using that by (simp add: queue_entry_ok_def s'(1))
  let ?q = "push_enactment (get_identifier (pr_action p)) pid (de_enactment_queue s)"
  have "mset (queued ?q) \<subseteq># add_mset pid (mset (queued (de_enactment_queue s)))"
    unfolding push_enactment_queued(1) by simp
  then have push: "set (queued ?q) \<subseteq> insert pid (set (queued (de_enactment_queue s)))" "distinct (queued ?q)"
    using fresh ok unfolding democracy_ok_def
    by (force dest: set_mset_mono, metis distinct.simps(2) mset.simps(2) mset_eq_imp_distinct_iff push_enactment_queued(1))
  have "distinct (map fst ?q)" using ok push_enactment_queued(2) unfolding democracy_ok_def by blast
  moreover have "i \<le> de_proposal_count s'" if "de_proposals s' i \<noteq> None" for i
    using that ok p(1) unfolding democracy_ok_def s'(1,2) by (auto split: if_splits)
  ultimately show ?thesis
    using ok keep new push unfolding democracy_ok_def s'(3) by (cases "st = Approved") auto
qed

section \<open>Votes\<close>

lemma vote_cases:
  assumes "vote c sch ce a pid v reps (s, rc) = Inr (s', rc')"
  obtains t s1 n s2 ap ap' e where "de_tallies s pid = Some t"
    and "do_update_proposal_state c sch pid s = Inr (ap, s1)"
    and "validate_and_commit_reputations c sch ce pid a reps s1 rc = Inr (n, rc')"
    and "ta_turnout t + n < 2 ^ 128"
    and "do_update_proposal_state c sch pid (s1\<lparr>de_tallies := (de_tallies s1)(pid \<mapsto>
      \<lparr>ta_turnout = ta_turnout t + n, ta_ayes = ta_ayes t + (case v of Aye \<Rightarrow> n | Nay \<Rightarrow> 0)\<rparr>)\<rparr>) = Inr (ap', s2)"
    and "s' = de_deposit_event e s2" and "e = (if n > 0 then VotePlaced pid v n else VoteFailed pid v)"
proof -
  from assms obtain t x where t: "de_tallies s pid = Some t" "do_update_proposal_state c sch pid s = Inr x"
    and rest: "(case x of (_, s1) \<Rightarrow>
      bind_res (validate_and_commit_reputations c sch ce pid a reps s1 rc) (\<lambda>(n, rc').
      bind_res (ok_or (checked_add 128 (ta_turnout t) n) VoteCountOverflow) (\<lambda>turnout.
      bind_res (ok_or (checked_add 128 (ta_ayes t) (case v of Aye \<Rightarrow> n | Nay \<Rightarrow> 0)) VoteCountOverflow) (\<lambda>ayes.
      bind_res (do_update_proposal_state c sch pid
        (s1\<lparr>de_tallies := (de_tallies s1)(pid \<mapsto> \<lparr>ta_turnout = turnout, ta_ayes = ayes\<rparr>)\<rparr>)) (\<lambda>(_, s3).
      Inr (de_deposit_event (if n > 0 then VotePlaced pid v n else VoteFailed pid v) s3, rc')))))) = Inr (s', rc')"
    unfolding vote_def Let_def prod.case bind_res_Inr[of "ok_or (de_tallies s pid) InexistentProposal"]
      bind_res_Inr[of "do_update_proposal_state c sch pid s"] ok_or_Inr
    by blast
  obtain ap s1 where x: "x = (ap, s1)" by (cases x)
  from rest obtain y where y: "validate_and_commit_reputations c sch ce pid a reps s1 rc = Inr y"
    "(case y of (n, rc') \<Rightarrow>
      bind_res (ok_or (checked_add 128 (ta_turnout t) n) VoteCountOverflow) (\<lambda>turnout.
      bind_res (ok_or (checked_add 128 (ta_ayes t) (case v of Aye \<Rightarrow> n | Nay \<Rightarrow> 0)) VoteCountOverflow) (\<lambda>ayes.
      bind_res (do_update_proposal_state c sch pid
        (s1\<lparr>de_tallies := (de_tallies s1)(pid \<mapsto> \<lparr>ta_turnout = turnout, ta_ayes = ayes\<rparr>)\<rparr>)) (\<lambda>(_, s3).
      Inr (de_deposit_event (if n > 0 then VotePlaced pid v n else VoteFailed pid v) s3, rc'))))) = Inr (s', rc')"
    unfolding x prod.case bind_res_Inr[of "validate_and_commit_reputations c sch ce pid a reps s1 rc"] by blast
  obtain n rc1 where n: "y = (n, rc1)" by (cases y)
  from y(2) obtain ap' s2 where "ta_turnout t + n < 2 ^ 128"
    "do_update_proposal_state c sch pid (s1\<lparr>de_tallies := (de_tallies s1)(pid \<mapsto>
      \<lparr>ta_turnout = ta_turnout t + n, ta_ayes = ta_ayes t + (case v of Aye \<Rightarrow> n | Nay \<Rightarrow> 0)\<rparr>)\<rparr>) = Inr (ap', s2)"
    "s' = de_deposit_event (if n > 0 then VotePlaced pid v n else VoteFailed pid v) s2" "rc' = rc1"
    unfolding n prod.case bind_res_Inr ok_or_Inr checked_add_Some split_paired_Ex by (elim exE conjE) auto
  with that[of t ap s1 n] t y(1) x n show thesis by blast
qed

lemma democracy_ok_cong:
  assumes "de_proposals s = de_proposals s'" and "de_proposal_count s = de_proposal_count s'"
    and "de_enactment_queue s = de_enactment_queue s'"
  shows "democracy_ok s \<longleftrightarrow> democracy_ok s'"
  using assms by (simp add: democracy_ok_def queue_entry_ok_def)

lemma vote_ok:
  assumes "vote c sch ce a pid v reps (s, rc) = Inr (s', rc')" and "democracy_ok s"
  shows "democracy_ok s'"
  using assms(1)
proof (rule vote_cases)
  fix t s1 n s2 ap ap' e
  assume up: "do_update_proposal_state c sch pid s = Inr (ap, s1)"
    "do_update_proposal_state c sch pid (s1\<lparr>de_tallies := (de_tallies s1)(pid \<mapsto>
      \<lparr>ta_turnout = ta_turnout t + n, ta_ayes = ta_ayes t + (case v of Aye \<Rightarrow> n | Nay \<Rightarrow> 0)\<rparr>)\<rparr>) = Inr (ap', s2)"
    and s': "s' = de_deposit_event e s2"
  have "democracy_ok s1" using update_ok[OF up(1)] assms(2) .
  then have "democracy_ok s2" using update_ok[OF up(2)] by (simp cong: democracy_ok_cong add: democracy_ok_def queue_entry_ok_def)
  then show ?thesis unfolding s' by (simp add: de_deposit_event_def democracy_ok_def queue_entry_ok_def)
qed

lemma enactment_order_ok:
  assumes "lawful_iteration c" and "democracy_ok s"
  shows "distinct (enactment_order c (de_enactment_queue s))"
    and "set (enactment_order c (de_enactment_queue s)) = set (queued (de_enactment_queue s))"
proof -
  have m: "mset (enactment_order c (de_enactment_queue s)) = mset (queued (de_enactment_queue s))"
    using enactment_order_queued assms unfolding democracy_ok_def by blast
  show "distinct (enactment_order c (de_enactment_queue s))"
    using mset_eq_imp_distinct_iff[OF m] assms(2) unfolding democracy_ok_def by blast
  show "set (enactment_order c (de_enactment_queue s)) = set (queued (de_enactment_queue s))"
    by (rule mset_eq_setD[OF m])
qed

lemma assigning_fields:
  fixes w :: "('n, 'k) chain" and c :: "('n, 'k) democracy_config"
  defines "s' \<equiv> ch_democracy (democracy_on_phase_change c Assigning w)"
    and "s1 \<equiv> ch_democracy (fold (enact_or_report c) (enactment_order c (de_enactment_queue (ch_democracy w))) w)"
  shows "de_enactment_queue s' = []" and "de_proposals s' = de_proposals s1" and "de_tallies s' = de_tallies s1"
    and "de_purpose_ids s' = de_purpose_ids s1" and "de_proposal_count s' = de_proposal_count s1"
    and "de_events s' = de_events s1"
  by (simp_all add: s'_def s1_def democracy_on_phase_change_def Let_def)

lemma phase_change_ok:
  assumes "lawful_iteration c" and ok: "democracy_ok (ch_democracy w)"
  shows "democracy_ok (ch_democracy (democracy_on_phase_change c ph w))"
proof (cases ph)
  case Assigning
  let ?w = "fold (enact_or_report c) (enactment_order c (de_enactment_queue (ch_democracy w))) w"
  note order = enactment_order_ok[OF assms]
  have "i \<le> de_proposal_count (ch_democracy ?w)" if "de_proposals (ch_democracy ?w) i \<noteq> None" for i
  proof -
    have "de_proposals (ch_democracy w) i \<noteq> None"
      using that enact_all(7)[where i = i and c = c and w = w] enact_all(8)[OF order(1), where i = i and c = c and w = w] unfolding settled_def by fastforce
    then show ?thesis using ok unfolding enact_all(4) democracy_ok_def by blast
  qed
  then show ?thesis by (simp add: Assigning assigning_fields democracy_ok_def queued_def)
qed (use ok in \<open>simp_all add: democracy_on_phase_change_def\<close>)

section \<open>Steps\<close>

text \<open>The calls of the pallet and the changes of phase, with the rest of the chain in whatever state.\<close>

inductive democracy_step :: "('n, 'k) democracy_config \<Rightarrow> 'k democracy \<Rightarrow> 'k democracy \<Rightarrow> bool"
  for c :: "('n, 'k) democracy_config" where
  step_submit: "submit_proposal c sch ce action (s, rc) = Inr (s', rc') \<Longrightarrow> democracy_step c s s'"
| step_vote: "vote c sch ce a pid v reps (s, rc) = Inr (s', rc') \<Longrightarrow> democracy_step c s s'"
| step_update: "update_proposal_state c sch pid s = Inr s' \<Longrightarrow> democracy_step c s s'"
| step_phase: "s = ch_democracy w \<Longrightarrow> s' = ch_democracy (democracy_on_phase_change c ph w) \<Longrightarrow> democracy_step c s s'"

lemma democracy_step_ok:
  assumes "democracy_step c s s'" and "lawful_iteration c" and "democracy_ok s"
  shows "democracy_ok s'"
  using assms(1)
  by cases (use assms(2,3) submit_ok vote_ok update_ok phase_change_ok in \<open>auto simp: update_proposal_state_def bind_res_Inr\<close>)

lemma democracy_steps_ok:
  assumes "(democracy_step c)\<^sup>*\<^sup>* s s'" and "lawful_iteration c" and "democracy_ok s"
  shows "democracy_ok s'"
  using assms(1) by induction (use assms(2,3) democracy_step_ok in \<open>blast+\<close>)

text \<open>Proposals stay, and change but for their state.\<close>

definition proposal_moves :: "'k democracy \<Rightarrow> 'k democracy \<Rightarrow> nat \<Rightarrow> bool" where
  "proposal_moves s s' i \<longleftrightarrow> (\<forall>p. de_proposals s i = Some p \<longrightarrow>
     (\<exists>st. de_proposals s' i = Some (p\<lparr>pr_state := st\<rparr>)))"

lemma moves_refl: "de_proposals s' i = de_proposals s i \<Longrightarrow> proposal_moves s s' i"
  unfolding proposal_moves_def by (metis Proposal.surjective Proposal.update_convs(4))

lemma moves_other: "de_proposals s' = (de_proposals s)(j \<mapsto> p) \<Longrightarrow> i \<noteq> j \<Longrightarrow> proposal_moves s s' i"
  by (rule moves_refl) simp

lemma moves_trans: "proposal_moves s s' i \<Longrightarrow> proposal_moves s' s'' i \<Longrightarrow> proposal_moves s s'' i"
  unfolding proposal_moves_def by fastforce

lemma update_moves:
  assumes "do_update_proposal_state c sch pid s = Inr (approved, s')"
  shows "proposal_moves s s' i"
  using assms
proof (rule update_cases)
  fix p st assume "de_proposals s pid = Some p" "de_proposals s' = (de_proposals s)(pid \<mapsto> p\<lparr>pr_state := st\<rparr>)"
  then show ?thesis using moves_other[of s' s pid _ i] by (cases "i = pid") (auto simp: proposal_moves_def[of s s' pid])
qed

lemma step_moves:
  assumes "democracy_step c s s'" and law: "lawful_iteration c" and ok: "democracy_ok s"
  shows "proposal_moves s s' i"
  using assms(1)
proof cases
  case (step_submit sch ce action rc rc')
  from this show ?thesis
  proof (rule submit_cases)
    fix e p assume "de_proposals s' = (de_proposals s)(de_proposal_count s + 1 \<mapsto>
      \<lparr>pr_start = ts_now sch, pr_start_cindex = sc_ceremony_index sch, pr_action = action, pr_state = Ongoing,
       pr_electorate_size = e\<rparr>)"
    moreover have "de_proposals s (de_proposal_count s + 1) = None" using ok unfolding democracy_ok_def by fastforce
    ultimately show ?thesis
      using moves_other[of s' s "de_proposal_count s + 1" _ i]
      by (cases "i = de_proposal_count s + 1") (auto simp: proposal_moves_def[of s s' "Suc (de_proposal_count s)"])
  qed
next
  case (step_vote sch ce a pid v reps rc rc')
  from this show ?thesis
  proof (rule vote_cases)
    fix t s1 n s2 ap ap' e
    assume up: "do_update_proposal_state c sch pid s = Inr (ap, s1)"
      "do_update_proposal_state c sch pid (s1\<lparr>de_tallies := (de_tallies s1)(pid \<mapsto>
        \<lparr>ta_turnout = ta_turnout t + n, ta_ayes = ta_ayes t + (case v of Aye \<Rightarrow> n | Nay \<Rightarrow> 0)\<rparr>)\<rparr>) = Inr (ap', s2)"
      and s': "s' = de_deposit_event e s2"
    show ?thesis
      by (rule moves_trans[OF update_moves[OF up(1)] moves_trans[OF _ moves_trans[OF update_moves[OF up(2)]]]])
        (simp_all add: s' moves_refl de_deposit_event_def)
  qed
next
  case (step_update sch pid)
  then show ?thesis using update_moves by (auto simp: update_proposal_state_def bind_res_Inr)
next
  case (step_phase w ph)
  let ?ps = "enactment_order c (de_enactment_queue (ch_democracy w))"
  show ?thesis
  proof (cases "ph = Assigning \<and> i \<in> set ?ps")
    case True
    note order = enactment_order_ok[OF law ok[unfolded step_phase(1)]]
    have "queue_entry_ok s i" using True order(2) ok unfolding democracy_ok_def step_phase(1) by blast
    then obtain p where p: "de_proposals s i = Some p" "pr_state p = Approved" unfolding queue_entry_ok_def by blast
    have same: "de_proposals s' i = de_proposals (ch_democracy (fold (enact_or_report c) ?ps w)) i"
      using True by (simp add: step_phase(2) assigning_fields)
    have "proposal_moves s s' i" if "de_proposals s' i = Some (p\<lparr>pr_state := Enacted\<rparr>)"
      using that p unfolding proposal_moves_def by auto
    then show ?thesis using enact_all(8)[OF order(1), where i = i and c = c and w = w] True p(1) same moves_refl[of s' i s]
      unfolding settled_def step_phase(1) by auto
  next
    case False
    then have "de_proposals s' i = de_proposals s i"
      using enact_all(7)[where i = i and c = c and w = w and ps = ?ps] by (cases ph) (simp_all add: step_phase assigning_fields, simp_all add: democracy_on_phase_change_def)
    then show ?thesis by (rule moves_refl)
  qed
qed

lemma steps_move:
  assumes "(democracy_step c)\<^sup>*\<^sup>* s s'" and "lawful_iteration c" and "democracy_ok s"
  shows "proposal_moves s s' i"
  using assms(1)
proof induction
  case (step s1 s2)
  then show ?case using moves_trans step_moves democracy_steps_ok assms(2,3) by blast
qed (simp add: moves_refl)

text \<open>
  How one step changes the state of a proposal. Approved it becomes by an update only: the two updates in a vote are
  made at the same time, so that a proposal which the first one confirms is not approved by the second.
\<close>

lemma vote_keeps_open:
  assumes "vote c sch ce a pid v reps (s, rc) = Inr (s', rc')"
  obtains p st where "de_proposals s pid = Some p" and "can_update (pr_state p)"
    and "de_proposals s' = (de_proposals s)(pid \<mapsto> p\<lparr>pr_state := st\<rparr>)" and "st \<noteq> Approved" and "st \<noteq> Enacted"
  using assms
proof (rule vote_cases)
  fix t s1 n s2 ap ap' e
  assume up: "do_update_proposal_state c sch pid s = Inr (ap, s1)"
    "do_update_proposal_state c sch pid (s1\<lparr>de_tallies := (de_tallies s1)(pid \<mapsto>
      \<lparr>ta_turnout = ta_turnout t + n, ta_ayes = ta_ayes t + (case v of Aye \<Rightarrow> n | Nay \<Rightarrow> 0)\<rparr>)\<rparr>) = Inr (ap', s2)"
    and s': "s' = de_deposit_event e s2"
  obtain p where p: "de_proposals s pid = Some p" using up(1) by (rule update_cases)
  obtain st1 where st1: "de_proposals s1 = (de_proposals s)(pid \<mapsto> p\<lparr>pr_state := st1\<rparr>)" "can_update (pr_state p)"
    "\<And>since. st1 = Confirming since \<Longrightarrow> since = ts_now sch \<or> \<not> (since \<le> ts_now sch \<and> dc_confirmation_period c < ts_now sch - since)"
    using update_states[OF up(1) p] by blast
  have q: "de_proposals (s1\<lparr>de_tallies := (de_tallies s1)(pid \<mapsto>
      \<lparr>ta_turnout = ta_turnout t + n, ta_ayes = ta_ayes t + (case v of Aye \<Rightarrow> n | Nay \<Rightarrow> 0)\<rparr>)\<rparr>) pid = Some (p\<lparr>pr_state := st1\<rparr>)"
    by (simp add: st1(1))
  obtain st2 where st2: "de_proposals s2 = (de_proposals s1)(pid \<mapsto> p\<lparr>pr_state := st1, pr_state := st2\<rparr>)" "st2 \<noteq> Enacted"
    "st2 = Approved \<Longrightarrow> \<exists>since. st1 = Confirming since \<and> since \<le> ts_now sch \<and> dc_confirmation_period c < ts_now sch - since"
    using update_states[OF up(2) q] by (metis Proposal.select_convs(4) Proposal.surjective Proposal.update_convs(4) democracy.select_convs(2) democracy.surjective democracy.update_convs(4))
  have "st2 \<noteq> Approved" using st1(3) st2(3) by fastforce
  moreover have "de_proposals s' = (de_proposals s)(pid \<mapsto> p\<lparr>pr_state := st2\<rparr>)"
    using st1(1) st2(1) by (simp add: s' de_deposit_event_def)
  ultimately show thesis using that[OF p st1(2)] st2(2) by blast
qed

lemma phase_proposals:
  assumes "lawful_iteration c" and "democracy_ok (ch_democracy w)" and "de_proposals (ch_democracy w) i = Some p"
  shows "de_proposals (ch_democracy (democracy_on_phase_change c ph w)) i = Some p \<or>
    pr_state p = Approved \<and> de_proposals (ch_democracy (democracy_on_phase_change c ph w)) i = Some (p\<lparr>pr_state := Enacted\<rparr>)"
proof (cases ph)
  case Assigning
  let ?s = "ch_democracy w" and ?ps = "enactment_order c (de_enactment_queue (ch_democracy w))"
  note order = enactment_order_ok[OF assms(1,2)]
  show ?thesis
  proof (cases "i \<in> set ?ps")
    case True
    then have "pr_state p = Approved" using order(2) assms(2,3) unfolding democracy_ok_def queue_entry_ok_def by auto
    moreover have "settled i w (fold (enact_or_report c) ?ps w)" using enact_all(8)[OF order(1) True] .
    ultimately show ?thesis using assms(3) by (auto simp: Assigning assigning_fields settled_def)
  next
    case False
    then show ?thesis using enact_all(7)[OF False, of c w] assms(3) by (simp add: Assigning assigning_fields)
  qed
qed (use assms(3) in \<open>simp_all add: democracy_on_phase_change_def\<close>)

lemma step_states:
  assumes "democracy_step c s s'" and law: "lawful_iteration c" and ok: "democracy_ok s" and p: "de_proposals s i = Some p"
  obtains (unchanged) "de_proposals s' i = Some p"
  | (moved) st where "de_proposals s' i = Some (p\<lparr>pr_state := st\<rparr>)" and "can_update (pr_state p)" and "st \<noteq> Approved" and "st \<noteq> Enacted"
  | (approved) sch since where "update_proposal_state c sch i s = Inr s'" and "pr_state p = Confirming since"
      and "since \<le> ts_now sch" and "dc_confirmation_period c < ts_now sch - since" and "is_passing c i s = Inr True"
      and "de_proposals s' i = Some (p\<lparr>pr_state := Approved\<rparr>)"
  | (enacted) "pr_state p = Approved" and "de_proposals s' i = Some (p\<lparr>pr_state := Enacted\<rparr>)"
  using assms(1)
proof cases
  case (step_submit sch ce action rc rc')
  have "i \<le> de_proposal_count s" using ok p unfolding democracy_ok_def by auto
  then have "de_proposals s' i = Some p" using step_submit p by (auto elim!: submit_cases)
  then show thesis by (rule unchanged)
next
  case (step_vote sch ce a pid v reps rc rc')
  from this show thesis
  proof (rule vote_keeps_open)
    fix q st assume "de_proposals s pid = Some q" "can_update (pr_state q)"
      "de_proposals s' = (de_proposals s)(pid \<mapsto> q\<lparr>pr_state := st\<rparr>)" "st \<noteq> Approved" "st \<noteq> Enacted"
    then show thesis using moved[of st] unchanged p by (cases "i = pid") simp_all
  qed
next
  case (step_update sch pid)
  then obtain ap where up: "do_update_proposal_state c sch pid s = Inr (ap, s')" by (auto simp: update_proposal_state_def bind_res_Inr)
  obtain q where q: "de_proposals s pid = Some q" using up by (rule update_cases)
  obtain st where st: "de_proposals s' = (de_proposals s)(pid \<mapsto> q\<lparr>pr_state := st\<rparr>)" "can_update (pr_state q)" "st \<noteq> Enacted"
    "st = Approved \<Longrightarrow> \<exists>since. pr_state q = Confirming since \<and> since \<le> ts_now sch \<and>
      dc_confirmation_period c < ts_now sch - since \<and> is_passing c pid s = Inr True"
    by (rule update_states[OF up q], rule that) (assumption | simp)+
  show thesis
  proof (cases "i = pid")
    case True
    then have q: "q = p" using p q by simp
    show thesis
    proof (cases "st = Approved")
      case True
      from st(4)[OF this] obtain since where "pr_state p = Confirming since" "since \<le> ts_now sch"
        "dc_confirmation_period c < ts_now sch - since" "is_passing c i s = Inr True" unfolding q \<open>i = pid\<close> by blast
      moreover have "de_proposals s' i = Some (p\<lparr>pr_state := Approved\<rparr>)" using st(1) True unfolding q \<open>i = pid\<close> by simp
      ultimately show thesis using approved step_update unfolding \<open>i = pid\<close> by blast
    next
      case False
      have "de_proposals s' i = Some (p\<lparr>pr_state := st\<rparr>)" using st(1) unfolding q \<open>i = pid\<close> by simp
      then show thesis using moved st(2,3) False unfolding q by blast
    qed
  qed (use st(1) p unchanged in simp)
next
  case (step_phase w ph)
  then show thesis using phase_proposals[OF law, of w i p ph] ok p unchanged enacted by auto
qed

text \<open>Over any run a closed proposal stays as it is, and one that ends up approved or enacted has been approved by an update.\<close>

definition approval :: "('n, 'k) democracy_config \<Rightarrow> 'k democracy \<Rightarrow> 'k democracy \<Rightarrow> nat \<Rightarrow> 'k Proposal \<Rightarrow> bool" where
  "approval c s s' i p \<longleftrightarrow> (\<exists>s1 sch since s2. (democracy_step c)\<^sup>*\<^sup>* s s1 \<and>
     de_proposals s1 i = Some (p\<lparr>pr_state := Confirming since\<rparr>) \<and> since \<le> ts_now sch \<and>
     dc_confirmation_period c < ts_now sch - since \<and> is_passing c i s1 = Inr True \<and> update_proposal_state c sch i s1 = Inr s2 \<and>
     de_proposals s2 i = Some (p\<lparr>pr_state := Approved\<rparr>) \<and> (democracy_step c)\<^sup>*\<^sup>* s2 s')"

lemma approval_extend: "approval c s s' i p \<Longrightarrow> democracy_step c s' s'' \<Longrightarrow> approval c s s'' i p"
  unfolding approval_def by (meson rtranclp.rtrancl_into_rtrancl)

lemma steps_states:
  assumes "(democracy_step c)\<^sup>*\<^sup>* s s'" and "lawful_iteration c" and "democracy_ok s" and "de_proposals s i = Some p"
  shows "\<exists>st. de_proposals s' i = Some (p\<lparr>pr_state := st\<rparr>) \<and>
    (pr_state p = Approved \<longrightarrow> st = Approved \<or> st = Enacted) \<and>
    (\<not> can_update (pr_state p) \<and> pr_state p \<noteq> Approved \<longrightarrow> st = pr_state p) \<and>
    (can_update (pr_state p) \<and> (st = Approved \<or> st = Enacted) \<longrightarrow> approval c s s' i p)"
  using assms(1)
proof induction
  case base
  have "p\<lparr>pr_state := pr_state p\<rparr> = p" by simp
  then show ?case using assms(4) by (intro exI[of _ "pr_state p"]) auto
next
  case (step y z)
  then obtain st where st: "de_proposals y i = Some (p\<lparr>pr_state := st\<rparr>)"
    "pr_state p = Approved \<Longrightarrow> st = Approved \<or> st = Enacted"
    "\<not> can_update (pr_state p) \<Longrightarrow> pr_state p \<noteq> Approved \<Longrightarrow> st = pr_state p"
    "can_update (pr_state p) \<Longrightarrow> st = Approved \<or> st = Enacted \<Longrightarrow> approval c s y i p" by blast
  have ok: "democracy_ok y" using democracy_steps_ok[OF step(1) assms(2,3)] .
  show ?case
  proof (cases rule: step_states[OF step(2) assms(2) ok st(1), case_names unchanged moved approved enacted])
    case unchanged
    then show ?thesis using st approval_extend[OF _ step(2)] by (intro exI[of _ st]) auto
  next
    case (moved st')
    then show ?thesis using st(2,3) by (intro exI[of _ st']) auto
  next
    case (approved sch since)
    have "st = Confirming since" using approved(2) by simp
    then have "approval c s z i p" unfolding approval_def using step(1) st(1) approved by fastforce
    then show ?thesis using st(2,3) approved(6) \<open>st = Confirming since\<close>
      by (intro exI[of _ Approved]) (auto, metis can_update.simps(1))
  next
    case enacted
    then have "st = Approved" by simp
    then show ?thesis using st(2-4) enacted(2) approval_extend[OF _ step(2)] by (intro exI[of _ Enacted]) auto
  qed
qed

section \<open>The backing of votes\<close>

definition within_policy :: "'k Proposal \<Rightarrow> CommunityCeremony \<Rightarrow> bool" where
  "within_policy proposal cc \<longleftrightarrow>
     (case get_access_policy (pr_action proposal) of Community cid \<Rightarrow> fst cc = cid | Global \<Rightarrow> True)"

text \<open>
  The attendances an account adds to a proposal when it votes: those it names that are eligible and verified, and that it
  has not committed to the purpose of the proposal before.
\<close>

definition new_votes ::
  "('n, 'k) democracy_config \<Rightarrow> scheduler \<Rightarrow> ceremonies \<Rightarrow> 'k Proposal \<Rightarrow> nat \<Rightarrow> AccountId \<Rightarrow> CommunityCeremony list \<Rightarrow>
   commitments \<Rightarrow> CommunityCeremony set" where
  "new_votes c sch ce proposal p a ccs rc =
     {cc \<in> set ccs. (\<exists>vc. voting_cindexes c sch ce (pr_start_cindex proposal) = Inr vc \<and>
          eligible_attendance (get_access_policy (pr_action proposal)) vc cc) \<and>
        rc_purposes rc p \<noteq> None \<and> is_verified (participant_reputation ce cc a) \<and> rc_commitments rc cc (p, a) = None}"

lemma new_votes_state [simp]: "new_votes c sch ce (proposal\<lparr>pr_state := st\<rparr>) = new_votes c sch ce proposal"
  by (simp add: new_votes_def fun_eq_iff)

lemma do_commit_iff:
  "is_ok (do_commit_reputation ce a (fst cc) (snd cc) p h rc) \<longleftrightarrow>
     rc_purposes rc p \<noteq> None \<and> is_verified (participant_reputation ce cc a) \<and> rc_commitments rc cc (p, a) = None"
  by (simp add: do_commit_reputation_def ensure_def contains_def is_ok_def)

lemma commit_reputations_counts:
  assumes "commit_reputations c sch ce proposal p a ccs n rc = Inr (n', rc')"
  shows "n' = n + card (new_votes c sch ce proposal p a ccs rc) \<and>
    (\<forall>cc k. rc_commitments rc' cc k =
       (if k = (p, a) \<and> cc \<in> new_votes c sch ce proposal p a ccs rc then Some None else rc_commitments rc cc k))"
  using assms
proof (induction ccs arbitrary: n rc)
  case Nil
  then show ?case by (simp add: new_votes_def)
next
  case (Cons cc ccs)
  let ?W = "\<lambda>ccs. new_votes c sch ce proposal p a ccs"
  obtain vc where vc: "voting_cindexes c sch ce (pr_start_cindex proposal) = Inr vc"
    using Cons.prems by (auto simp: bind_res_Inr)
  show ?case
  proof (cases "eligible_attendance (get_access_policy (pr_action proposal)) vc cc \<and>
      is_ok (do_commit_reputation ce a (fst cc) (snd cc) p None rc)")
    case False
    then have "commit_reputations c sch ce proposal p a ccs n rc = Inr (n', rc')"
      using Cons.prems vc by (auto simp: bind_res_def is_ok_def split: if_splits sum.splits)
    moreover have "?W (cc # ccs) rc = ?W ccs rc" using False unfolding do_commit_iff by (auto simp: new_votes_def vc)
    ultimately show ?thesis using Cons.IH by simp
  next
    case True
    then obtain rc1 where rc1: "do_commit_reputation ce a (fst cc) (snd cc) p None rc = Inr rc1"
      by (auto simp: is_ok_def split: sum.splits)
    note k = do_commit_reputation_cases(4,5)[OF rc1]
    have rest: "commit_reputations c sch ce proposal p a ccs (n + 1) rc1 = Inr (n', rc')"
      using Cons.prems vc rc1 True by (simp add: bind_res_def)
    have W: "?W (cc # ccs) rc = insert cc (?W ccs rc1)" "cc \<notin> ?W ccs rc1"
      using True unfolding do_commit_iff by (auto simp: new_votes_def vc k dm_insert_apply)
    have "finite (?W ccs rc1)" by (simp add: new_votes_def)
    then show ?thesis using Cons.IH[OF rest] W by (simp add: k dm_insert_apply)
  qed
qed

lemma commit_reputations_cases:
  assumes "commit_reputations c sch ce proposal p a ccs n rc = Inr (n', rc')"
    and "voting_cindexes c sch ce (pr_start_cindex proposal) = Inr vc"
  shows "(\<exists>W. finite W \<and> n' = n + card W \<and>
      (\<forall>cc \<in> W. rc_commitments rc cc (p, a) = None \<and> rc_commitments rc' cc (p, a) \<noteq> None \<and>
         snd cc \<in> set vc \<and> within_policy proposal cc)) \<and>
    (\<forall>cc k. rc_commitments rc cc k \<noteq> None \<longrightarrow> rc_commitments rc' cc k \<noteq> None)"
  using commit_reputations_counts[OF assms(1)] assms(2)
  by (intro conjI exI[of _ "new_votes c sch ce proposal p a ccs rc"])
     (auto simp: new_votes_def eligible_attendance_def within_policy_def)

text \<open>What a vote does to the tallies and the commitments.\<close>

lemma vote_counts:
  assumes "vote c sch ce a i v reps (s, rc) = Inr (s', rc')"
  obtains proposal p t where "de_proposals s i = Some proposal" and "de_purpose_ids s i = Some p" and "de_tallies s i = Some t"
    and "de_tallies s' = (de_tallies s)(i \<mapsto>
      \<lparr>ta_turnout = ta_turnout t + card (new_votes c sch ce proposal p a reps rc),
       ta_ayes = ta_ayes t + (if v = Aye then card (new_votes c sch ce proposal p a reps rc) else 0)\<rparr>)"
    and "\<And>cc k. rc_commitments rc' cc k =
       (if k = (p, a) \<and> cc \<in> new_votes c sch ce proposal p a reps rc then Some None else rc_commitments rc cc k)"
    and "VotePlaced i v (card (new_votes c sch ce proposal p a reps rc)) = last (de_events s') \<or>
      card (new_votes c sch ce proposal p a reps rc) = 0 \<and> VoteFailed i v = last (de_events s')"
  using assms
proof (rule vote_cases)
  fix t s1 n s2 ap ap' e
  assume t: "de_tallies s i = Some t" and up: "do_update_proposal_state c sch i s = Inr (ap, s1)"
    "do_update_proposal_state c sch i (s1\<lparr>de_tallies := (de_tallies s1)(i \<mapsto>
      \<lparr>ta_turnout = ta_turnout t + n, ta_ayes = ta_ayes t + (case v of Aye \<Rightarrow> n | Nay \<Rightarrow> 0)\<rparr>)\<rparr>) = Inr (ap', s2)"
    and commit: "validate_and_commit_reputations c sch ce i a reps s1 rc = Inr (n, rc')"
    and s': "s' = de_deposit_event e s2" and e: "e = (if n > 0 then VotePlaced i v n else VoteFailed i v)"
  obtain proposal where proposal: "de_proposals s i = Some proposal" using up(1) by (rule update_cases)
  obtain st where st: "de_proposals s1 i = Some (proposal\<lparr>pr_state := st\<rparr>)"
    using update_moves[OF up(1), of i] proposal unfolding proposal_moves_def by blast
  have s1: "de_tallies s1 = de_tallies s" "de_purpose_ids s1 = de_purpose_ids s"
    by (rule update_cases[OF up(1)], assumption)+
  obtain p where p: "de_purpose_ids s i = Some p" "commit_reputations c sch ce (proposal\<lparr>pr_state := st\<rparr>) p a reps 0 rc = Inr (n, rc')"
    using commit s1(2) st unfolding validate_and_commit_reputations_def bind_res_Inr ok_or_Inr by auto
  note counts = commit_reputations_counts[OF p(2), unfolded new_votes_state]
  have tallies: "de_tallies s' = (de_tallies s)(i \<mapsto>
      \<lparr>ta_turnout = ta_turnout t + n, ta_ayes = ta_ayes t + (case v of Aye \<Rightarrow> n | Nay \<Rightarrow> 0)\<rparr>)"
    using s1 by (rule_tac update_cases[OF up(2)]; simp add: s' de_deposit_event_def)
  show thesis
  proof (rule that[OF proposal p(1) t])
    show "de_tallies s' = (de_tallies s)(i \<mapsto>
      \<lparr>ta_turnout = ta_turnout t + card (new_votes c sch ce proposal p a reps rc),
       ta_ayes = ta_ayes t + (if v = Aye then card (new_votes c sch ce proposal p a reps rc) else 0)\<rparr>)"
      unfolding tallies using counts by (cases v) simp_all
    show "rc_commitments rc' cc k =
       (if k = (p, a) \<and> cc \<in> new_votes c sch ce proposal p a reps rc then Some None else rc_commitments rc cc k)" for cc k
      using counts by blast
    show "VotePlaced i v (card (new_votes c sch ce proposal p a reps rc)) = last (de_events s') \<or>
      card (new_votes c sch ce proposal p a reps rc) = 0 \<and> VoteFailed i v = last (de_events s')"
      using counts by (simp add: s' e de_deposit_event_def)
  qed
qed

text \<open>The votes the pallet has logged.\<close>

fun vote_of :: "'k democracy_event \<Rightarrow> (nat \<times> Vote \<times> nat) option" where
  "vote_of (VotePlaced i v n) = Some (i, v, n)"
| "vote_of _ = None"

definition votes_log :: "'k democracy \<Rightarrow> (nat \<times> Vote \<times> nat) list" where
  "votes_log s = List.map_filter vote_of (de_events s)"

definition votes_for :: "nat \<Rightarrow> Vote set \<Rightarrow> 'k democracy \<Rightarrow> nat" where
  "votes_for i vs s = (\<Sum>(j, v, n) \<leftarrow> votes_log s. if j = i \<and> v \<in> vs then n else 0)"

lemma votes_log_cong: "de_events s' = de_events s \<Longrightarrow> votes_log s' = votes_log s"
  by (simp add: votes_log_def)

lemma votes_log_deposit [simp]:
  "votes_log (de_deposit_event e s) = votes_log s @ (case vote_of e of Some x \<Rightarrow> [x] | None \<Rightarrow> [])"
  by (simp add: votes_log_def de_deposit_event_def map_filter_def split: option.splits)

lemma votes_log_update [simp]:
  "votes_log (s\<lparr>de_proposals := x1\<rparr>) = votes_log s" "votes_log (s\<lparr>de_tallies := x2\<rparr>) = votes_log s"
  "votes_log (s\<lparr>de_enactment_queue := x3\<rparr>) = votes_log s"
  "votes_log (s\<lparr>de_last_approved_proposal_for_action := x4\<rparr>) = votes_log s"
  "votes_log (s\<lparr>de_purpose_ids := x5\<rparr>) = votes_log s" "votes_log (s\<lparr>de_proposal_count := x6\<rparr>) = votes_log s"
  by (simp_all add: votes_log_def)

lemma update_votes_log: "do_update_proposal_state c sch pid s = Inr (approved, s') \<Longrightarrow> votes_log s' = votes_log s"
  unfolding do_update_proposal_state_def Let_def bind_res_Inr ensure_Inr ok_or_Inr by (auto split: if_splits)

lemma submit_votes_log: "submit_proposal c sch ce action (s, rc) = Inr (s', rc') \<Longrightarrow> votes_log s' = votes_log s"
  by (auto simp: submit_proposal_def Let_def res_simps)

lemma enact_votes_log: "votes_log (ch_democracy (enact_or_report c i w)) = votes_log (ch_democracy w)"
proof -
  have run: "votes_log (ch_democracy (snd (execute_action c a w))) = votes_log (ch_democracy w)" for a
    by (cases a; simp add: lift_communities_def lift_treasuries_def split: sum.splits prod.splits)
  show ?thesis
  proof (cases "de_proposals (ch_democracy w) i")
    case (Some p)
    then show ?thesis using run[of "pr_action p"]
      by (cases "execute_action c (pr_action p) w"; cases "fst (execute_action c (pr_action p) w)")
         (simp_all add: enact_or_report_def enact_proposal_def Let_def)
  qed (simp add: enact_or_report_def enact_proposal_def)
qed

lemma phase_votes_log: "votes_log (ch_democracy (democracy_on_phase_change c ph w)) = votes_log (ch_democracy w)"
proof -
  have "votes_log (ch_democracy (fold (enact_or_report c) ps w)) = votes_log (ch_democracy w)" for ps w
    by (induction ps arbitrary: w) (simp_all add: enact_votes_log)
  then show ?thesis by (cases ph) (simp_all add: democracy_on_phase_change_def Let_def)
qed

text \<open>The tally of a proposal is the sum of the votes logged for it.\<close>

definition tally_logged :: "'k democracy \<Rightarrow> nat \<Rightarrow> bool" where
  "tally_logged s i \<longleftrightarrow> (de_tallies s i = None \<longrightarrow> (\<forall>vs. votes_for i vs s = 0)) \<and>
     (\<forall>t. de_tallies s i = Some t \<longrightarrow>
        i \<le> de_proposal_count s \<and> ta_turnout t = votes_for i UNIV s \<and> ta_ayes t = votes_for i {Aye} s)"

definition tallies_logged :: "'k democracy \<Rightarrow> bool" where
  "tallies_logged s \<longleftrightarrow> (\<forall>i. tally_logged s i)"

lemma tallies_logged_cong:
  assumes "votes_log s' = votes_log s" and "de_tallies s' = de_tallies s" and "de_proposal_count s' = de_proposal_count s"
  shows "tallies_logged s' = tallies_logged s"
  using assms by (simp add: tallies_logged_def tally_logged_def votes_for_def)

lemma vote_tallies_logged:
  assumes "vote c sch ce a i v reps (s, rc) = Inr (s', rc')" and "tallies_logged s"
  shows "tallies_logged s'"
  using assms(1)
proof (rule vote_cases)
  fix t s1 n s2 ap ap' e
  assume t: "de_tallies s i = Some t" and up: "do_update_proposal_state c sch i s = Inr (ap, s1)"
    "do_update_proposal_state c sch i (s1\<lparr>de_tallies := (de_tallies s1)(i \<mapsto>
      \<lparr>ta_turnout = ta_turnout t + n, ta_ayes = ta_ayes t + (case v of Aye \<Rightarrow> n | Nay \<Rightarrow> 0)\<rparr>)\<rparr>) = Inr (ap', s2)"
    and s': "s' = de_deposit_event e s2" and e: "e = (if n > 0 then VotePlaced i v n else VoteFailed i v)"
  have s1: "de_tallies s1 = de_tallies s" "de_proposal_count s1 = de_proposal_count s"
    by (rule update_cases[OF up(1)], assumption)+
  have s2: "de_tallies s' = (de_tallies s)(i \<mapsto>
      \<lparr>ta_turnout = ta_turnout t + n, ta_ayes = ta_ayes t + (case v of Aye \<Rightarrow> n | Nay \<Rightarrow> 0)\<rparr>)"
    "de_proposal_count s' = de_proposal_count s"
    using s1 by (rule_tac update_cases[OF up(2)]; simp add: s' de_deposit_event_def)+
  have "votes_log s' = votes_log s @ (if n > 0 then [(i, v, n)] else [])"
    using update_votes_log[OF up(1)] update_votes_log[OF up(2)] by (simp add: s' e)
  then have for': "votes_for j vs s' = votes_for j vs s + (if j = i \<and> v \<in> vs then n else 0)" for j vs
    by (simp add: votes_for_def)
  have "tally_logged s' j" for j
    using assms(2)[unfolded tallies_logged_def, rule_format, of j] t
    unfolding tally_logged_def s2 for' by (cases "j = i"; cases v; simp)
  then show ?thesis by (simp add: tallies_logged_def)
qed

lemma democracy_step_logged:
  assumes "democracy_step c s s'" and "tallies_logged s"
  shows "tallies_logged s'"
  using assms(1)
proof cases
  case (step_submit sch ce action rc rc')
  have log: "votes_log s' = votes_log s" using submit_votes_log[OF step_submit] .
  have for': "votes_for j vs s' = votes_for j vs s" for j vs by (simp add: votes_for_def log)
  note old = assms(2)[unfolded tallies_logged_def, rule_format]
  have new: "votes_for (de_proposal_count s + 1) vs s = 0" for vs
    using old[of "de_proposal_count s + 1"] by (cases "de_tallies s (de_proposal_count s + 1)") (simp_all add: tally_logged_def)
  have tallies: "de_tallies s' = (de_tallies s)(de_proposal_count s + 1 \<mapsto> \<lparr>ta_turnout = 0, ta_ayes = 0\<rparr>)"
    "de_proposal_count s' = de_proposal_count s + 1"
    using step_submit by (auto elim: submit_cases)
  have "tally_logged s' j" for j
    using old[of j] new unfolding tally_logged_def for' tallies by (cases "j = de_proposal_count s + 1") auto
  then show ?thesis by (simp add: tallies_logged_def)
next
  case (step_vote sch ce a pid v reps rc rc')
  then show ?thesis using vote_tallies_logged assms(2) by blast
next
  case (step_update sch pid)
  then obtain ap where up: "do_update_proposal_state c sch pid s = Inr (ap, s')" by (auto simp: update_proposal_state_def bind_res_Inr)
  have "de_tallies s' = de_tallies s" "de_proposal_count s' = de_proposal_count s" by (rule update_cases[OF up], assumption)+
  then show ?thesis using tallies_logged_cong[OF update_votes_log[OF up]] assms(2) by simp
next
  case (step_phase w ph)
  have "de_tallies s' = de_tallies s" "de_proposal_count s' = de_proposal_count s"
    by (cases ph; simp add: step_phase assigning_fields enact_all; simp add: democracy_on_phase_change_def)+
  then show ?thesis using tallies_logged_cong[of s' s] phase_votes_log[of c ph w] assms(2) step_phase by simp
qed

lemma genesis_logged: "tallies_logged (democracy_genesis n)"
  by (simp add: tallies_logged_def tally_logged_def democracy_genesis_def votes_for_def votes_log_def)

text \<open>The votes of a proposal: each is an attendance of an account, committed to the purpose of the proposal.\<close>

definition backing :: "nat \<Rightarrow> 'k democracy \<Rightarrow> commitments \<Rightarrow> nat \<Rightarrow> (CommunityCeremony \<times> AccountId) set \<Rightarrow> bool" where
  "backing horizon s rc i V \<longleftrightarrow>
     (\<exists>proposal p. de_proposals s i = Some proposal \<and> de_purpose_ids s i = Some p \<and>
        (\<forall>(cc, a) \<in> V. horizon \<le> snd cc \<and> within_policy proposal cc \<and> rc_commitments rc cc (p, a) \<noteq> None))"

definition tally_backed :: "nat \<Rightarrow> 'k democracy \<Rightarrow> commitments \<Rightarrow> nat \<Rightarrow> bool" where
  "tally_backed horizon s rc i \<longleftrightarrow> (\<forall>t. de_tallies s i = Some t \<longrightarrow> ta_ayes t \<le> ta_turnout t \<and>
     (\<exists>V. finite V \<and> card V = ta_turnout t \<and> backing horizon s rc i V))"

text \<open>
  The calls and phase changes of the democracy and of the commitments pallet. The horizon is the first
  ceremony whose attendances are not purged; the votes are for attendances from there on.
\<close>

inductive votes_step :: "('n, 'k) democracy_config \<Rightarrow> nat \<Rightarrow> 'k democracy \<times> commitments \<Rightarrow> 'k democracy \<times> commitments \<Rightarrow> bool"
  for c :: "('n, 'k) democracy_config" and horizon where
  votes_submit: "submit_proposal c sch ce action w = Inr w' \<Longrightarrow> votes_step c horizon w w'"
| votes_vote: "vote c sch ce a pid v reps (s, rc) = Inr w' \<Longrightarrow>
    (\<And>proposal. de_proposals s pid = Some proposal \<Longrightarrow>
       voting_cindexes c sch ce (pr_start_cindex proposal) = Inr vc) \<Longrightarrow>
    list_all (\<lambda>j. horizon \<le> j) vc \<Longrightarrow> votes_step c horizon (s, rc) w'"
| votes_update: "update_proposal_state c sch pid s = Inr s' \<Longrightarrow> votes_step c horizon (s, rc) (s', rc)"
| votes_phase: "s = ch_democracy w \<Longrightarrow> s' = ch_democracy (democracy_on_phase_change c ph w) \<Longrightarrow>
    votes_step c horizon (s, rc) (s', rc)"
| votes_commitments: "commitments_step horizon rc rc' \<Longrightarrow> votes_step c horizon (s, rc) (s, rc')"

lemma votes_step_democracy:
  assumes "votes_step c horizon w w'"
  shows "fst w = fst w' \<or> democracy_step c (fst w) (fst w')"
  using assms
proof cases
  case (votes_submit sch ce action)
  then have "submit_proposal c sch ce action (fst w, snd w) = Inr (fst w', snd w')" by simp
  then show ?thesis using step_submit by blast
next
  case (votes_vote sch ce a pid v reps s rc vc)
  then have "vote c sch ce a pid v reps (fst w, rc) = Inr (fst w', snd w')" by simp
  then show ?thesis using step_vote by blast
next
  case (votes_phase s v s' ph rc)
  then show ?thesis using step_phase[of s v s' c ph] by simp
qed (auto intro: step_update)

text \<open>A tally stays backed when its proposal only moves and no commitment is lost.\<close>

lemma backing_mono:
  assumes "backing horizon s rc i V" and "proposal_moves s s' i" and "de_purpose_ids s' i = de_purpose_ids s i"
    and "\<And>cc k. horizon \<le> snd cc \<Longrightarrow> rc_commitments rc cc k \<noteq> None \<Longrightarrow> rc_commitments rc' cc k \<noteq> None"
  shows "backing horizon s' rc' i V"
proof -
  from assms(1) obtain pr p where pr: "de_proposals s i = Some pr" "de_purpose_ids s i = Some p"
    "\<forall>(cc, a) \<in> V. horizon \<le> snd cc \<and> within_policy pr cc \<and> rc_commitments rc cc (p, a) \<noteq> None"
    unfolding backing_def by blast
  obtain st where "de_proposals s' i = Some (pr\<lparr>pr_state := st\<rparr>)" using assms(2) pr(1) unfolding proposal_moves_def by blast
  moreover have "within_policy (pr\<lparr>pr_state := st\<rparr>) cc = within_policy pr cc" for cc by (simp add: within_policy_def)
  ultimately show ?thesis using pr(2,3) assms(3,4) unfolding backing_def by fastforce
qed

lemma tally_backed_mono:
  assumes "tally_backed horizon s rc i" and "proposal_moves s s' i" and "de_purpose_ids s' i = de_purpose_ids s i"
    and "de_tallies s' i = de_tallies s i"
    and "\<And>cc k. horizon \<le> snd cc \<Longrightarrow> rc_commitments rc cc k \<noteq> None \<Longrightarrow> rc_commitments rc' cc k \<noteq> None"
  shows "tally_backed horizon s' rc' i"
  using assms(1,4) backing_mono[OF _ assms(2,3,5)] unfolding tally_backed_def by metis

lemma vote_backed:
  assumes vote: "vote c sch ce a pid v reps (s, rc) = Inr (s', rc')" and ok: "democracy_ok s"
    and vc: "\<And>proposal. de_proposals s pid = Some proposal \<Longrightarrow>
       voting_cindexes c sch ce (pr_start_cindex proposal) = Inr vc" "list_all (\<lambda>j. horizon \<le> j) vc"
    and law: "lawful_iteration c" and "tally_backed horizon s rc i"
  shows "tally_backed horizon s' rc' i"
  using vote
proof (rule vote_cases)
  fix t s1 n s2 ap ap' e
  assume t: "de_tallies s pid = Some t" and up: "do_update_proposal_state c sch pid s = Inr (ap, s1)"
    "do_update_proposal_state c sch pid (s1\<lparr>de_tallies := (de_tallies s1)(pid \<mapsto>
      \<lparr>ta_turnout = ta_turnout t + n, ta_ayes = ta_ayes t + (case v of Aye \<Rightarrow> n | Nay \<Rightarrow> 0)\<rparr>)\<rparr>) = Inr (ap', s2)"
    and commit: "validate_and_commit_reputations c sch ce pid a reps s1 rc = Inr (n, rc')"
    and s': "s' = de_deposit_event e s2"
  have moves: "proposal_moves s s' j" for j
    using step_moves[OF step_vote[OF vote] law ok] .
  have s1: "de_tallies s1 = de_tallies s" "de_purpose_ids s1 = de_purpose_ids s"
    by (rule update_cases[OF up(1)], assumption)+
  note moves1 = update_moves[OF up(1), of pid]
  have s2: "de_tallies s' = (de_tallies s)(pid \<mapsto>
      \<lparr>ta_turnout = ta_turnout t + n, ta_ayes = ta_ayes t + (case v of Aye \<Rightarrow> n | Nay \<Rightarrow> 0)\<rparr>)"
    "de_purpose_ids s' = de_purpose_ids s"
    using s1(1,2) by (rule_tac update_cases[OF up(2)]; simp add: s' de_deposit_event_def)+
  obtain pr p where pr: "de_proposals s1 pid = Some pr" "de_purpose_ids s pid = Some p"
    "commit_reputations c sch ce pr p a reps 0 rc = Inr (n, rc')"
    using commit s1(2) unfolding validate_and_commit_reputations_def bind_res_Inr ok_or_Inr by auto
  obtain pr0 where pr0: "de_proposals s pid = Some pr0" using up(1) by (rule update_cases)
  then obtain st where st: "pr = pr0\<lparr>pr_state := st\<rparr>" using moves1 pr(1) unfolding proposal_moves_def by auto
  have "voting_cindexes c sch ce (pr_start_cindex pr) = Inr vc" using vc(1)[OF pr0] st by simp
  from commit_reputations_cases[OF pr(3) this] obtain W where W: "finite W" "n = card W"
    "\<And>cc. cc \<in> W \<Longrightarrow> rc_commitments rc cc (p, a) = None \<and> rc_commitments rc' cc (p, a) \<noteq> None \<and>
       snd cc \<in> set vc \<and> within_policy pr cc"
    and grow: "\<And>cc k. rc_commitments rc cc k \<noteq> None \<Longrightarrow> rc_commitments rc' cc k \<noteq> None"
    by (metis add_0)
  show ?thesis
  proof (cases "i = pid")
    case False
    show ?thesis by (rule tally_backed_mono[OF assms(6) moves]) (use False grow s2 in simp_all)
  next
    case True
    obtain V where V: "finite V" "card V = ta_turnout t" "backing horizon s rc pid V" "ta_ayes t \<le> ta_turnout t"
      using assms(6) t unfolding True tally_backed_def by blast
    have old: "backing horizon s' rc' pid V" by (rule backing_mono[OF V(3) moves]) (use grow s2 in simp_all)
    have disjoint: "V \<inter> (\<lambda>cc. (cc, a)) ` W = {}"
      using V(3) pr(2) W(3) unfolding backing_def by fastforce
    obtain st' where pr': "de_proposals s' pid = Some (pr0\<lparr>pr_state := st'\<rparr>)" using moves[of pid] pr0 unfolding proposal_moves_def by blast
    have policy: "within_policy (pr0\<lparr>pr_state := st'\<rparr>) cc = within_policy pr cc" for cc by (simp add: within_policy_def st)
    have "backing horizon s' rc' pid ((\<lambda>cc. (cc, a)) ` W)"
      unfolding backing_def using pr' pr(2) s2(2) W(3) vc(2) policy by (auto simp: list_all_iff)
    then have "backing horizon s' rc' pid (V \<union> (\<lambda>cc. (cc, a)) ` W)" using old unfolding backing_def by fastforce
    moreover have "card (V \<union> (\<lambda>cc. (cc, a)) ` W) = ta_turnout t + n"
      using disjoint V(1,2) W(1,2) by (simp add: card_Un_disjoint card_image inj_on_def)
    moreover have "finite (V \<union> (\<lambda>cc. (cc, a)) ` W)" using V(1) W(1) by simp
    ultimately show ?thesis using V(4) unfolding True tally_backed_def s2(1) by (auto split: Vote.split)
  qed
qed

lemma votes_step_ok:
  assumes "votes_step c horizon w w'" and law: "lawful_iteration c"
    and ok: "democracy_ok (fst w)" "\<And>i. tally_backed horizon (fst w) (snd w) i"
  shows "democracy_ok (fst w')" and "tally_backed horizon (fst w') (snd w') i"
proof -
  show "democracy_ok (fst w')" using votes_step_democracy[OF assms(1)] democracy_step_ok[OF _ law ok(1)] ok(1) by auto
  show "tally_backed horizon (fst w') (snd w') i"
    using assms(1)
  proof cases
    case (votes_submit sch ce action)
    then have sub: "submit_proposal c sch ce action (fst w, snd w) = Inr (fst w', snd w')" by simp
    from step_moves[OF step_submit[OF this] law ok(1)] have moves: "proposal_moves (fst w) (fst w') i" .
    from sub show ?thesis
    proof (rule submit_cases)
      fix e p assume reg: "do_register_purpose (proposal_identifier (de_proposal_count (fst w) + 1)) (snd w) = Inr (p, snd w')"
        and new: "de_proposals (fst w') = (de_proposals (fst w))(de_proposal_count (fst w) + 1 \<mapsto>
          \<lparr>pr_start = ts_now sch, pr_start_cindex = sc_ceremony_index sch, pr_action = action, pr_state = Ongoing,
           pr_electorate_size = e\<rparr>)"
        "de_tallies (fst w') = (de_tallies (fst w))(de_proposal_count (fst w) + 1 \<mapsto> \<lparr>ta_turnout = 0, ta_ayes = 0\<rparr>)"
        "de_purpose_ids (fst w') = (de_purpose_ids (fst w))(de_proposal_count (fst w) + 1 \<mapsto> p)"
      show ?thesis
      proof (cases "i = de_proposal_count (fst w) + 1")
        case True
        then show ?thesis unfolding tally_backed_def backing_def using new by (auto intro!: exI[of _ "{}"])
      next
        case False
        show ?thesis by (rule tally_backed_mono[OF ok(2) moves]) (use False new do_register_purpose_cases(4)[OF reg] in simp_all)
      qed
    qed
  next
    case (votes_vote sch ce a pid v reps s rc vc)
    then have "vote c sch ce a pid v reps (s, rc) = Inr (fst w', snd w')" by simp
    from vote_backed[OF this _ votes_vote(3,4) law] show ?thesis using ok votes_vote(1) by simp
  next
    case (votes_update sch pid s s' rc)
    then obtain ap where up: "do_update_proposal_state c sch pid s = Inr (ap, s')"
      by (auto simp: update_proposal_state_def bind_res_Inr)
    have "de_tallies s' = de_tallies s" "de_purpose_ids s' = de_purpose_ids s" by (rule update_cases[OF up], assumption)+
    then have "tally_backed horizon s' rc i"
      using tally_backed_mono[OF _ update_moves[OF up]] ok(2)[of i] votes_update(1) by simp
    then show ?thesis using votes_update by simp
  next
    case (votes_phase s v s' ph rc)
    have moves: "proposal_moves s s' i" using step_moves[OF step_phase[OF votes_phase(3,4)] law] ok(1) votes_phase(1) by simp
    have "de_tallies s' = de_tallies s" "de_purpose_ids s' = de_purpose_ids s"
      by (cases ph; simp add: votes_phase assigning_fields enact_all; simp add: democracy_on_phase_change_def)+
    then show ?thesis using tally_backed_mono[OF _ moves] ok(2)[of i] votes_phase(1,2) by simp
  next
    case (votes_commitments rc rc' s)
    show ?thesis unfolding votes_commitments(2) fst_conv snd_conv
    proof (rule tally_backed_mono[of horizon s rc i])
      show "tally_backed horizon s rc i" using ok(2)[of i] votes_commitments(1) by simp
      show "rc_commitments rc' cc k \<noteq> None" if "horizon \<le> snd cc" "rc_commitments rc cc k \<noteq> None" for cc k
        using commitments_step_keeps[OF votes_commitments(3), of "snd cc" "fst cc" "fst k" "snd k"] that by simp
    qed (simp_all add: moves_refl)
  qed
qed

lemma votes_steps_ok:
  assumes "(votes_step c horizon)\<^sup>*\<^sup>* (democracy_genesis n, rc0) w" and "lawful_iteration c"
  shows "democracy_ok (fst w) \<and> (\<forall>i. tally_backed horizon (fst w) (snd w) i) \<and> tallies_logged (fst w)"
  using assms(1)
proof induction
  case base
  have "tally_backed horizon (democracy_genesis n) rc0 i" for i by (simp add: tally_backed_def democracy_genesis_def)
  then show ?case using genesis_democracy_ok genesis_logged by (metis fst_conv snd_conv)
next
  case (step w1 w2)
  have "tallies_logged (fst w2)" using votes_step_democracy[OF step(2)] democracy_step_logged step(3) by fastforce
  then show ?case using votes_step_ok[OF step(2) assms(2)] step(3) by blast
qed

end
