(* ===== verification/Democracy_Properties.thy ===== *)
theory Democracy_Properties
  imports Democracy_Invariants Community_Properties
begin

text \<open>
  The properties of the democracy pallet, each with a concrete run of a small electorate: two accounts
  attended ceremony 3 of one community, a proposal is submitted in ceremony 6.
\<close>

section \<open>A small electorate\<close>

text \<open>The square roots of one and two as \<open>U64F64\<close> bits, rounded down.\<close>

definition small_root :: "nat \<Rightarrow> nat option" where
  "small_root x =
     (if x = 2 ^ 64 then Some (2 ^ 64) else if x = 2 * 2 ^ 64 then Some 26087635650665564424 else if x = 0 then Some 0 else None)"

definition electorate_config :: "(AccountId \<Rightarrow> nat, unit) democracy_config" where
  "electorate_config =
     \<lparr>dc_confirmation_period = 10, dc_proposal_lifetime = 200, dc_min_turnout = 100,
      dc_sqrt = small_root, dc_iteration = rev,
      dc_communities = flat_config, dc_treasuries = simple_treasury\<rparr>"

definition vote_clock :: "nat \<Rightarrow> scheduler" where
  "vote_clock now = (scheduler_genesis 6 Registering [(Registering, 70), (Assigning, 10), (Attesting, 20)])\<lparr>ts_now := now\<rparr>"

definition two_attended :: ceremonies where
  "two_attended = (put_reputation (demo_cid, 3) 8 VerifiedUnlinked (put_reputation (demo_cid, 3) 7 VerifiedUnlinked
     (ceremonies_genesis 1000 0 0 5 3 2 5 0)))\<lparr>ce_reputation_count := [(demo_cid, 3) \<mapsto> 2]\<rparr>"

definition petition_proposal :: "ProposalState \<Rightarrow> unit Proposal" where
  "petition_proposal st = \<lparr>pr_start = 1000, pr_start_cindex = 6, pr_action = Petition (Some demo_cid) [65],
     pr_state = st, pr_electorate_size = 2\<rparr>"

definition petition_submitted :: "unit democracy" where
  "petition_submitted = \<lparr>de_purpose_ids = [1 \<mapsto> 0], de_proposals = [1 \<mapsto> petition_proposal Ongoing],
     de_proposal_count = 1, de_tallies = [1 \<mapsto> \<lparr>ta_turnout = 0, ta_ayes = 0\<rparr>],
     de_last_approved_proposal_for_action = Map.empty, de_enactment_queue = [],
     de_events = [ProposalSubmitted 1 (Petition (Some demo_cid) [65])]\<rparr>"

definition petition_purpose :: commitments where
  "petition_purpose = \<lparr>rc_current_purpose_id = 1, rc_purposes = [0 \<mapsto> proposal_identifier 1],
     rc_commitments = (\<lambda>_. Map.empty), rc_events = [RegisteredCommitmentPurpose 0 (proposal_identifier 1)]\<rparr>"

lemma small_cindexes: "voting_cindexes electorate_config (vote_clock now) two_attended 6 = Inr [3, 4]"
proof -
  have "[3..<5] = [3, 4::nat]" by (simp add: upt_rec)
  then show ?thesis
    by (simp add: voting_cindexes_def proposal_lifetime_cycles_def electorate_config_def vote_clock_def scheduler_genesis_def
        get_cycle_duration_def phase_duration_def two_attended_def put_reputation_def ceremonies_genesis_def
        wrapping_add_def checked_add_def checked_sub_def checked_div_def ok_or_def bind_res_def saturating_add_def
        saturating_sub_def value_query_def Let_def)
qed

lemma small_quota: "positive_turnout_bias electorate_config 2 1 1 = Some True"
  by code_simp

lemma petition_ok:
  "submit_proposal electorate_config (vote_clock 1000) two_attended (Petition (Some demo_cid) [65])
     (democracy_genesis 0, commitments_genesis) = Inr (petition_submitted, petition_purpose)"
proof -
  have "length (proposal_identifier 1) \<le> 128" by (simp add: proposal_identifier_def decimal.simps pallet_string_def)
  moreover have "get_electorate electorate_config (vote_clock 1000) two_attended 6 (Petition (Some demo_cid) [65] :: unit ProposalAction) = Inr 2"
    unfolding get_electorate_def small_cindexes
    by (simp add: policy_of_def community_electorate_def two_attended_def value_query_def wrapping_add_def bind_res_def)
  ultimately show ?thesis
    by (simp add: submit_proposal_def democracy_genesis_def commitments_genesis_def checked_add_def ok_or_def bind_res_def
        ensure_def contains_def do_register_purpose_def map_err_def rc_deposit_event_def de_deposit_event_def
        petition_submitted_def petition_purpose_def petition_proposal_def vote_clock_def scheduler_genesis_def Let_def)
qed

lemmas update_defs = do_update_proposal_state_def cancelled_by_other_def passing_state_def is_passing_def
  checked_sub_def checked_div_def wrapping_mul_def wrapping_sub_def value_query_def ok_or_def bind_res_def
  ensure_def electorate_config_def vote_clock_def scheduler_genesis_def Let_def

text \<open>Account 7 votes at time 1010 with its attendance, twice, and with one that is too old.\<close>

definition petition_voted :: "unit democracy" where
  "petition_voted = petition_submitted\<lparr>de_proposals := [1 \<mapsto> petition_proposal (Confirming 1010)],
     de_tallies := [1 \<mapsto> \<lparr>ta_turnout = 1, ta_ayes = 1\<rparr>],
     de_events := [ProposalSubmitted 1 (Petition (Some demo_cid) [65]), ProposalStateUpdated 1 (Confirming 1010),
       VotePlaced 1 Aye 1]\<rparr>"

definition petition_committed :: commitments where
  "petition_committed = petition_purpose\<lparr>rc_commitments := dm_insert (demo_cid, 3) (0, 7) None (\<lambda>_. Map.empty),
     rc_events := rc_events petition_purpose @ [CommitedReputation demo_cid 3 0 7 None]\<rparr>"

lemma petition_no_vote_yet:
  "do_update_proposal_state electorate_config (vote_clock 1010) 1 petition_submitted = Inr (False, petition_submitted)"
  by (simp add: update_defs petition_submitted_def petition_proposal_def)

lemma petition_confirming:
  "do_update_proposal_state electorate_config (vote_clock 1010) 1
     (petition_submitted\<lparr>de_tallies := [1 \<mapsto> \<lparr>ta_turnout = 1, ta_ayes = 1\<rparr>]\<rparr>) =
   Inr (False, petition_submitted\<lparr>de_tallies := [1 \<mapsto> \<lparr>ta_turnout = 1, ta_ayes = 1\<rparr>],
     de_proposals := [1 \<mapsto> petition_proposal (Confirming 1010)],
     de_events := [ProposalSubmitted 1 (Petition (Some demo_cid) [65]), ProposalStateUpdated 1 (Confirming 1010)]\<rparr>)"
  using small_quota
  by (simp add: update_defs petition_submitted_def petition_proposal_def de_deposit_event_def)

lemma petition_commit:
  "validate_and_commit_reputations electorate_config (vote_clock 1010) two_attended 1 7
     [(demo_cid, 3), (demo_cid, 3), (demo_cid, 2)] petition_submitted petition_purpose = Inr (1, petition_committed)"
proof -
  have "participant_reputation two_attended (demo_cid, 3) 7 = VerifiedUnlinked"
    by (simp add: participant_reputation_def two_attended_def put_reputation_def dm_insert_apply value_query_def)
  then show ?thesis
    by (simp add: validate_and_commit_reputations_def petition_submitted_def petition_proposal_def small_cindexes
        eligible_attendance_def policy_of_def do_commit_reputation_def petition_purpose_def contains_def ok_or_def
        bind_res_def ensure_def dm_insert_apply rc_deposit_event_def petition_committed_def)
qed

lemma petition_vote:
  "vote electorate_config (vote_clock 1010) two_attended 7 1 Aye [(demo_cid, 3), (demo_cid, 3), (demo_cid, 2)]
     (petition_submitted, petition_purpose) = Inr (petition_voted, petition_committed)"
proof -
  have "de_tallies petition_submitted = [1 \<mapsto> \<lparr>ta_turnout = 0, ta_ayes = 0\<rparr>]" by (simp add: petition_submitted_def)
  then show ?thesis
    unfolding vote_def using petition_confirming
    by (simp add: petition_no_vote_yet petition_commit bind_res_def ok_or_def checked_add_def Let_def de_deposit_event_def
        petition_voted_def del: One_nat_def)
qed

text \<open>At time 1021 it has been confirming for longer than 10.\<close>

definition petition_approved :: "unit democracy" where
  "petition_approved = petition_voted\<lparr>de_proposals := [1 \<mapsto> petition_proposal Approved],
     de_last_approved_proposal_for_action := [PetitionId (Some demo_cid) \<mapsto> (1021, 1)],
     de_enactment_queue := [(PetitionId (Some demo_cid), [1])],
     de_events := de_events petition_voted @ [ProposalStateUpdated 1 Approved]\<rparr>"

lemma petition_approval:
  "do_update_proposal_state electorate_config (vote_clock 1021) 1 petition_voted = Inr (True, petition_approved)"
  using small_quota
  by (simp add: update_defs petition_voted_def petition_submitted_def petition_proposal_def petition_approved_def
      push_enactment_def ENACTMENT_QUEUE_MAX_PER_TYPE_def de_deposit_event_def)

lemma small_iteration: "lawful_iteration electorate_config"
  by (simp add: lawful_iteration_def electorate_config_def)

lemma petition_reached:
  "(democracy_step electorate_config)\<^sup>*\<^sup>* (democracy_genesis 0) petition_voted"
  "(democracy_step electorate_config)\<^sup>*\<^sup>* petition_voted petition_approved"
  "(votes_step electorate_config 3)\<^sup>*\<^sup>* (democracy_genesis 0, commitments_genesis) (petition_voted, petition_committed)"
proof -
  have "democracy_step electorate_config (democracy_genesis 0) petition_submitted"
    "democracy_step electorate_config petition_submitted petition_voted"
    using step_submit[OF petition_ok] step_vote[OF petition_vote] .
  then show "(democracy_step electorate_config)\<^sup>*\<^sup>* (democracy_genesis 0) petition_voted" by simp
  show "(democracy_step electorate_config)\<^sup>*\<^sup>* petition_voted petition_approved"
    using step_update[of electorate_config "vote_clock 1021" 1 petition_voted petition_approved] petition_approval
    by (simp add: update_proposal_state_def bind_res_def)
  have "votes_step electorate_config 3 (petition_submitted, petition_purpose) (petition_voted, petition_committed)"
    by (rule votes_vote[OF petition_vote, of "[3, 4]"])
      (auto simp: petition_submitted_def petition_proposal_def small_cindexes)
  then show "(votes_step electorate_config 3)\<^sup>*\<^sup>* (democracy_genesis 0, commitments_genesis) (petition_voted, petition_committed)"
    using votes_submit[OF petition_ok, of 3] by simp
qed

section \<open>Properties\<close>

text \<open>C11: Proposals are never removed and never change but for their state. One that is rejected, superseded or enacted
  stays so; an approved one can only become enacted. One that is open and later found approved or enacted
  was approved in between by an update: at that moment it had been confirming for longer than the confirmation period and
  it was passing. A vote never approves. This holds for every sequence of calls and phase changes, for any
  iteration order of the queue.\<close>

theorem proposal_lifecycle:
  assumes "lawful_iteration c" and "(democracy_step c)\<^sup>*\<^sup>* (democracy_genesis n) s" and "(democracy_step c)\<^sup>*\<^sup>* s s'"
    and "de_proposals s i = Some p"
  shows "\<exists>st. de_proposals s' i = Some (p\<lparr>pr_state := st\<rparr>) \<and>
    (\<not> can_update (pr_state p) \<and> pr_state p \<noteq> Approved \<longrightarrow> st = pr_state p) \<and>
    (pr_state p = Approved \<longrightarrow> st = Approved \<or> st = Enacted) \<and>
    (can_update (pr_state p) \<and> (st = Approved \<or> st = Enacted) \<longrightarrow>
      (\<exists>s1 sch since s2. (democracy_step c)\<^sup>*\<^sup>* s s1 \<and> de_proposals s1 i = Some (p\<lparr>pr_state := Confirming since\<rparr>) \<and>
         since \<le> ts_now sch \<and> dc_confirmation_period c < ts_now sch - since \<and> is_passing c i s1 = Inr True \<and>
         update_proposal_state c sch i s1 = Inr s2 \<and> de_proposals s2 i = Some (p\<lparr>pr_state := Approved\<rparr>) \<and>
         (democracy_step c)\<^sup>*\<^sup>* s2 s'))"
  using steps_states[OF assms(3,1) democracy_steps_ok[OF assms(2,1) genesis_democracy_ok] assms(4)]
  unfolding approval_def by blast

theorem proposal_lifecycle_witness:
  "de_proposals petition_submitted 1 = Some (petition_proposal Ongoing) \<and>
   de_proposals petition_approved 1 = Some (petition_proposal Approved) \<and>
   (\<exists>s1 sch since s2. (democracy_step electorate_config)\<^sup>*\<^sup>* petition_submitted s1 \<and>
      de_proposals s1 1 = Some (petition_proposal (Confirming since)) \<and> 10 < ts_now sch - since \<and>
      update_proposal_state electorate_config sch 1 s1 = Inr s2)"
proof -
  have p: "de_proposals petition_submitted 1 = Some (petition_proposal Ongoing)"
    "de_proposals petition_approved 1 = Some (petition_proposal Approved)"
    by (simp_all add: petition_submitted_def petition_approved_def)
  have submitted: "(democracy_step electorate_config)\<^sup>*\<^sup>* (democracy_genesis 0) petition_submitted"
    using step_submit[OF petition_ok] by blast
  have approved: "(democracy_step electorate_config)\<^sup>*\<^sup>* petition_submitted petition_approved"
    using step_vote[OF petition_vote] petition_reached(2) by (rule converse_rtranclp_into_rtranclp)
  have st: "petition_proposal Ongoing\<lparr>pr_state := st\<rparr> = petition_proposal st" "pr_state (petition_proposal st) = st" for st
    by (simp_all add: petition_proposal_def)
  have period: "dc_confirmation_period electorate_config = 10" by (simp add: electorate_config_def)
  from proposal_lifecycle[OF small_iteration submitted approved p(1), unfolded st period p(2)] show ?thesis
    using p by (auto dest: arg_cong[where f = pr_state] simp: st)
qed

lemma approval_conditions:
  "(\<exists>s'. do_update_proposal_state c sch i s = Inr (True, s')) \<longleftrightarrow>
     (\<exists>p since. de_proposals s i = Some p \<and> pr_state p = Confirming since \<and> since \<le> ts_now sch \<and>
        dc_confirmation_period c < ts_now sch - since \<and>
        cancelled_by_other p (de_last_approved_proposal_for_action s (get_identifier (pr_action p))) = None \<and>
        is_passing c i s = Inr True)"
  (is "?approves \<longleftrightarrow> ?conditions")
proof
  assume ?approves
  then obtain s' where "do_update_proposal_state c sch i s = Inr (True, s')" ..
  then show ?conditions
  proof (rule update_cases)
    fix p st assume p: "de_proposals s i = Some p" "can_update (pr_state p)" and "True \<longleftrightarrow> st = Approved"
      and "(\<exists>j. cancelled_by_other p (de_last_approved_proposal_for_action s (get_identifier (pr_action p))) = Some j
          \<and> st = SupersededBy j) \<or>
        (cancelled_by_other p (de_last_approved_proposal_for_action s (get_identifier (pr_action p))) = None \<and>
         (\<exists>passing. is_passing c i s = Inr passing \<and> st = passing_state c (pr_start p) (ts_now sch) passing (pr_state p)))"
    then obtain passing where "cancelled_by_other p (de_last_approved_proposal_for_action s (get_identifier (pr_action p))) = None"
      "is_passing c i s = Inr passing" "passing_state c (pr_start p) (ts_now sch) passing (pr_state p) = Approved" by auto
    then show ?conditions using p(1) passing_state_Approved[OF p(2), of c "pr_start p" "ts_now sch" passing] by auto
  qed
next
  assume ?conditions
  then obtain p since where p: "de_proposals s i = Some p" "pr_state p = Confirming since"
    "cancelled_by_other p (de_last_approved_proposal_for_action s (get_identifier (pr_action p))) = None"
    "is_passing c i s = Inr True"
    and "since \<le> ts_now sch" "dc_confirmation_period c < ts_now sch - since" by blast
  with p(2) have "passing_state c (pr_start p) (ts_now sch) True (pr_state p) = Approved" "can_update (pr_state p)"
    using passing_state_Approved[of "pr_state p" c "pr_start p" "ts_now sch" True] by auto
  with p show ?approves by (simp add: do_update_proposal_state_def ok_or_def bind_res_def ensure_def Let_def)
qed

text \<open>When an update approves: exactly if the proposal is confirming for longer than the confirmation
  period, no later approval of the same kind has superseded it, and it passes now. Its age does not matter.\<close>

theorem approval_iff:
  "(\<exists>s'. do_update_proposal_state c sch i s = Inr (True, s')) \<longleftrightarrow>
     (\<exists>p since. de_proposals s i = Some p \<and> pr_state p = Confirming since \<and> since \<le> ts_now sch \<and>
        dc_confirmation_period c < ts_now sch - since \<and>
        cancelled_by_other p (de_last_approved_proposal_for_action s (get_identifier (pr_action p))) = None \<and>
        is_passing c i s = Inr True)"
  by (rule approval_conditions)

text \<open>A passing proposal has at least one aye, and the quota of the electorate has turned out.\<close>

theorem passing_needs_quota:
  assumes "is_passing c i s = Inr True"
  shows "\<exists>p t. de_proposals s i = Some p \<and> de_tallies s i = Some t \<and> 0 < ta_ayes t \<and>
    dc_min_turnout c * pr_electorate_size p \<le> 1000 * ta_turnout t"
proof -
  obtain p t where p: "de_proposals s i = Some p" "de_tallies s i = Some t"
    and quota: "dc_min_turnout c \<le> value_query 0 (checked_div (wrapping_mul 128 (ta_turnout t) 1000) (pr_electorate_size p))"
    and bias: "positive_turnout_bias c (pr_electorate_size p) (ta_turnout t) (ta_ayes t) = Some True"
    using assms by (auto simp: is_passing_def bind_res_Inr ok_or_Inr Let_def split: if_splits)
  have "0 < ta_ayes t"
    using bias by (cases "ta_ayes t = 0") (auto simp: positive_turnout_bias_def u64f64_from_num_def bind_eq_Some_conv)
  moreover have "dc_min_turnout c * pr_electorate_size p \<le> 1000 * ta_turnout t"
  proof (cases "pr_electorate_size p = 0")
    case False
    have "dc_min_turnout c * pr_electorate_size p \<le>
        (ta_turnout t * 1000 mod 2 ^ 128) div pr_electorate_size p * pr_electorate_size p"
      using quota False by (simp add: checked_div_def value_query_def wrapping_mul_def)
    also have "\<dots> \<le> ta_turnout t * 1000 mod 2 ^ 128" by simp
    also have "\<dots> \<le> ta_turnout t * 1000" by (rule mod_less_eq_dividend)
    finally show ?thesis by (simp add: mult.commute)
  qed simp
  ultimately show ?thesis using p by blast
qed

theorem passing_needs_quota_witness:
  "\<exists>p t. de_proposals petition_voted 1 = Some p \<and> de_tallies petition_voted 1 = Some t \<and> 0 < ta_ayes t \<and>
    100 * pr_electorate_size p \<le> 1000 * ta_turnout t"
proof -
  have "is_passing electorate_config 1 petition_voted = Inr True"
    using petition_approval approval_conditions[of electorate_config "vote_clock 1021" 1 petition_voted] by blast
  from passing_needs_quota[OF this] show ?thesis by (simp add: electorate_config_def)
qed

text \<open>C40: A vote counts exactly what it should. Among the attendances the voter names, those count that the proposal
  admits (of its community, from the ceremonies it lets vote), that the voter has a verified reputation for and that it
  has not committed to this proposal before; each counts once, however often it is named. Their number is added to the
  turnout, and to the ayes if the vote is aye; they are committed to the purpose of the proposal, and no other
  commitment and no other tally changes.\<close>

theorem vote_counts_attendances:
  assumes "vote c sch ce a i v reps (s, rc) = Inr (s', rc')"
  shows "\<exists>proposal p t W. de_proposals s i = Some proposal \<and> de_purpose_ids s i = Some p \<and> de_tallies s i = Some t \<and>
    W = {cc \<in> set reps. (\<exists>vc. voting_cindexes c sch ce (pr_start_cindex proposal) = Inr vc \<and>
          eligible_attendance (get_access_policy (pr_action proposal)) vc cc) \<and>
        rc_purposes rc p \<noteq> None \<and> is_verified (participant_reputation ce cc a) \<and> rc_commitments rc cc (p, a) = None} \<and>
    de_tallies s' = (de_tallies s)(i \<mapsto>
      \<lparr>ta_turnout = ta_turnout t + card W, ta_ayes = ta_ayes t + (if v = Aye then card W else 0)\<rparr>) \<and>
    (\<forall>cc k. rc_commitments rc' cc k = (if k = (p, a) \<and> cc \<in> W then Some None else rc_commitments rc cc k))"
  using assms
proof (rule vote_counts)
  fix proposal p t
  assume "de_proposals s i = Some proposal" "de_purpose_ids s i = Some p" "de_tallies s i = Some t"
    "de_tallies s' = (de_tallies s)(i \<mapsto>
      \<lparr>ta_turnout = ta_turnout t + card (new_votes c sch ce proposal p a reps rc),
       ta_ayes = ta_ayes t + (if v = Aye then card (new_votes c sch ce proposal p a reps rc) else 0)\<rparr>)"
    "\<And>cc k. rc_commitments rc' cc k =
       (if k = (p, a) \<and> cc \<in> new_votes c sch ce proposal p a reps rc then Some None else rc_commitments rc cc k)"
  then show ?thesis
    by (intro exI[of _ proposal] exI[of _ p] exI[of _ t] exI[of _ "new_votes c sch ce proposal p a reps rc"] conjI allI)
       (simp_all add: new_votes_def)
qed

theorem vote_counts_attendances_witness:
  "\<exists>W. vote electorate_config (vote_clock 1010) two_attended 7 1 Aye [(demo_cid, 3), (demo_cid, 3), (demo_cid, 2)]
       (petition_submitted, petition_purpose) = Inr (petition_voted, petition_committed) \<and>
     W \<subseteq> {(demo_cid, 3 :: nat), (demo_cid, 2)} \<and> card W = 1 \<and>
     de_tallies petition_voted = [1 \<mapsto> \<lparr>ta_turnout = card W, ta_ayes = card W\<rparr>]"
proof -
  have t: "de_tallies petition_submitted = [1 \<mapsto> \<lparr>ta_turnout = 0, ta_ayes = 0\<rparr>]"
    "de_tallies petition_voted = [1 \<mapsto> \<lparr>ta_turnout = 1, ta_ayes = 1\<rparr>]" by (simp_all add: petition_submitted_def petition_voted_def)
  from vote_counts_attendances[OF petition_vote] obtain t0 W where "de_tallies petition_submitted 1 = Some t0"
    "de_tallies petition_voted = (de_tallies petition_submitted)(1 \<mapsto>
      \<lparr>ta_turnout = ta_turnout t0 + card W, ta_ayes = ta_ayes t0 + (if Aye = Aye then card W else 0)\<rparr>)"
    "W \<subseteq> set [(demo_cid, 3), (demo_cid, 3), (demo_cid, 2 :: nat)]"
    by (elim exE conjE) (rule that, assumption, assumption, blast)
  then have W: "W \<subseteq> {(demo_cid, 3), (demo_cid, 2)}" "card W = 1" unfolding t by (auto dest: fun_cong[of _ _ 1])
  then show ?thesis using petition_vote t(2) by (intro exI[of _ W]) (simp del: One_nat_def)
qed

text \<open>C10: The tallies are what was voted. In every reachable state the turnout of a proposal is the sum of the votes
  logged for it and its ayes are the sum of those logged as aye; and there are as many distinct attendances as the
  turnout that are committed to its purpose, of the community the proposal is about, so that no
  attendance is counted twice. The runs are those in which the votes are for attendances from a given ceremony
  (the horizon) on and no commitment from that ceremony on is purged.\<close>

theorem turnout_backed:
  assumes "lawful_iteration c" and "(votes_step c horizon)\<^sup>*\<^sup>* (democracy_genesis n, rc0) (s, rc)"
    and "de_tallies s i = Some t"
  shows "ta_turnout t = (\<Sum>(j, v, n) \<leftarrow> votes_log s. if j = i then n else 0) \<and>
    ta_ayes t = (\<Sum>(j, v, n) \<leftarrow> votes_log s. if j = i \<and> v = Aye then n else 0) \<and>
    (\<exists>V proposal p. finite V \<and> card V = ta_turnout t \<and>
      de_proposals s i = Some proposal \<and> de_purpose_ids s i = Some p \<and>
      (\<forall>(cc, a) \<in> V. horizon \<le> snd cc \<and> within_policy proposal cc \<and> rc_commitments rc cc (p, a) \<noteq> None))"
proof -
  note ok = votes_steps_ok[OF assms(2,1), unfolded fst_conv snd_conv]
  have "ta_turnout t = votes_for i UNIV s \<and> ta_ayes t = votes_for i {Aye} s"
    using ok assms(3) by (simp add: tallies_logged_def tally_logged_def)
  moreover have "\<exists>V proposal p. finite V \<and> card V = ta_turnout t \<and>
      de_proposals s i = Some proposal \<and> de_purpose_ids s i = Some p \<and>
      (\<forall>(cc, a) \<in> V. horizon \<le> snd cc \<and> within_policy proposal cc \<and> rc_commitments rc cc (p, a) \<noteq> None)"
    using ok assms(3) unfolding tally_backed_def backing_def by blast
  ultimately show ?thesis by (simp add: votes_for_def)
qed

theorem turnout_backed_witness:
  "votes_log petition_voted = [(1, Aye, 1)] \<and>
   (\<exists>V p. finite V \<and> card V = 1 \<and> de_purpose_ids petition_voted 1 = Some p \<and>
      (\<forall>(cc, a) \<in> V. rc_commitments petition_committed cc (p, a) \<noteq> None))"
proof -
  have "de_tallies petition_voted 1 = Some \<lparr>ta_turnout = 1, ta_ayes = 1\<rparr>" by (simp add: petition_voted_def)
  note b = turnout_backed[OF small_iteration petition_reached(3) this, unfolded Tally.select_convs]
  have "votes_log petition_voted = [(1, Aye, 1)]" by (simp add: votes_log_def petition_voted_def map_filter_def)
  then show ?thesis using b
  proof (elim conjE exE)
    fix V :: "(CommunityCeremony \<times> AccountId) set" and pr p
    assume "votes_log petition_voted = [(1, Aye, 1)]" "finite V" "card V = 1" "de_purpose_ids petition_voted 1 = Some p"
      and "\<forall>(cc, a) \<in> V. 3 \<le> snd cc \<and> within_policy pr cc \<and> rc_commitments petition_committed cc (p, a) \<noteq> None"
    then show ?thesis by (intro conjI exI[of _ V] exI[of _ p]) auto
  qed
qed

text \<open>C20: When the assigning phase starts, every queued proposal is enacted or its failure reported, each once
  and in the order of the iteration; a proposal is enacted only if it was approved, one that fails keeps
  its state, and the queue is empty afterwards.\<close>

theorem queue_enacted:
  assumes "lawful_iteration c" and "(democracy_step c)\<^sup>*\<^sup>* (democracy_genesis n) (ch_democracy w)"
  defines "w' \<equiv> democracy_on_phase_change c Assigning w"
  shows "de_enactment_queue (ch_democracy w') = [] \<and>
    enactments (ch_democracy w') = enactments (ch_democracy w) @ enactment_order c (de_enactment_queue (ch_democracy w)) \<and>
    mset (enactment_order c (de_enactment_queue (ch_democracy w))) = mset (queued (de_enactment_queue (ch_democracy w))) \<and>
    (\<forall>i \<in> set (queued (de_enactment_queue (ch_democracy w))). \<exists>p. de_proposals (ch_democracy w) i = Some p \<and>
       pr_state p = Approved \<and>
       (de_proposals (ch_democracy w') i = Some (p\<lparr>pr_state := Enacted\<rparr>) \<and>
          ProposalEnacted i \<in> set (de_events (ch_democracy w')) \<or>
        de_proposals (ch_democracy w') i = Some p \<and>
          (\<exists>e. EnactmentFailed i e \<in> set (de_events (ch_democracy w')))))"
proof -
  let ?s = "ch_democracy w" and ?s' = "ch_democracy w'"
  have ok: "democracy_ok ?s" using democracy_steps_ok[OF assms(2,1) genesis_democracy_ok] .
  note order = enactment_order_ok[OF assms(1) ok]
  have "enactments s = enactments s'" if "de_events s = de_events s'" for s s' :: "'b democracy" using that by (simp add: enactments_def)
  then have "enactments ?s' = enactments ?s @ enactment_order c (de_enactment_queue ?s)"
    using assigning_fields(6)[of c w] enact_all(5)[of c _ w] unfolding w'_def by metis
  moreover have "mset (enactment_order c (de_enactment_queue ?s)) = mset (queued (de_enactment_queue ?s))"
    using enactment_order_queued[OF assms(1)] ok unfolding democracy_ok_def by blast
  moreover have "\<exists>p. de_proposals ?s i = Some p \<and> pr_state p = Approved \<and>
      (de_proposals ?s' i = Some (p\<lparr>pr_state := Enacted\<rparr>) \<and> ProposalEnacted i \<in> set (de_events ?s') \<or>
       de_proposals ?s' i = Some p \<and> (\<exists>e. EnactmentFailed i e \<in> set (de_events ?s')))"
    if "i \<in> set (queued (de_enactment_queue ?s))" for i
  proof -
    have "queue_entry_ok ?s i" using ok that by (simp add: democracy_ok_def)
    then obtain p where p: "de_proposals ?s i = Some p" "pr_state p = Approved" unfolding queue_entry_ok_def by auto
    have "settled i w (fold (enact_or_report c) (enactment_order c (de_enactment_queue ?s)) w)"
      using enact_all(8)[OF order(1), where i = i and c = c and w = w] that order(2) by simp
    then have "ProposalEnacted i \<in> set (de_events ?s') \<and> de_proposals ?s' i = Some (p\<lparr>pr_state := Enacted\<rparr>) \<or>
        (\<exists>e. EnactmentFailed i e \<in> set (de_events ?s') \<and> de_proposals ?s' i = Some p)"
      unfolding settled_def w'_def assigning_fields p(1) by simp
    with p show ?thesis by metis
  qed
  moreover have "de_enactment_queue ?s' = []" unfolding w'_def by (rule assigning_fields)
  ultimately show ?thesis by (intro conjI ballI)
qed

definition small_chain :: "unit democracy \<Rightarrow> (AccountId \<Rightarrow> nat, unit) chain" where
  "small_chain s = \<lparr>ch_communities = communities_genesis 1 83, ch_balances = balances_genesis 1,
     ch_ceremonies = two_attended, ch_treasuries = treasuries_genesis, ch_native = (\<lambda>_. 0), ch_democracy = s\<rparr>"

theorem queue_enacted_witness:
  "de_enactment_queue petition_approved = [(PetitionId (Some demo_cid), [1])] \<and>
   de_enactment_queue (ch_democracy (democracy_on_phase_change electorate_config Assigning (small_chain petition_approved))) = [] \<and>
   enactments (ch_democracy (democracy_on_phase_change electorate_config Assigning (small_chain petition_approved))) = [1]"
proof -
  have w: "ch_democracy (small_chain petition_approved) = petition_approved" by (simp add: small_chain_def)
  have q: "de_enactment_queue petition_approved = [(PetitionId (Some demo_cid), [1])]" by (simp add: petition_approved_def)
  have "enactments petition_approved = []"
    by (simp add: enactments_def petition_approved_def petition_voted_def map_filter_def)
  moreover have "enactment_order electorate_config (de_enactment_queue petition_approved) = [1]"
    unfolding q by (simp add: enactment_order_def electorate_config_def value_query_def)
  moreover have "(democracy_step electorate_config)\<^sup>*\<^sup>* (democracy_genesis 0) (ch_democracy (small_chain petition_approved))"
    unfolding w using petition_reached(1,2) by (rule rtranclp_trans)
  ultimately show ?thesis using queue_enacted[OF small_iteration, of 0 "small_chain petition_approved"] q unfolding w by simp
qed

text \<open>A vote on an ongoing proposal that is past its lifetime always fails, so that
  the rejection it computes on the way is not stored.\<close>

theorem late_vote_fails:
  assumes "de_proposals s i = Some p" and "pr_state p = Ongoing"
    and "dc_proposal_lifetime c < wrapping_sub 64 (ts_now sch) (pr_start p)"
  shows "\<exists>e. vote c sch ce a i v reps (s, rc) = Inl e"
proof (cases "vote c sch ce a i v reps (s, rc)")
  case (Inr w')
  then have "vote c sch ce a i v reps (s, rc) = Inr (fst w', snd w')" by simp
  then show ?thesis
  proof (rule vote_cases)
    fix t s1 n s2 ap ap' e
    assume up: "do_update_proposal_state c sch i s = Inr (ap, s1)"
      "do_update_proposal_state c sch i (s1\<lparr>de_tallies := (de_tallies s1)(i \<mapsto>
        \<lparr>ta_turnout = ta_turnout t + n, ta_ayes = ta_ayes t + (case v of Aye \<Rightarrow> n | Nay \<Rightarrow> 0)\<rparr>)\<rparr>) = Inr (ap', s2)"
    from up(1) obtain st where "de_proposals s1 i = Some (p\<lparr>pr_state := st\<rparr>)" "\<not> can_update st"
    proof (rule update_cases)
      fix q st assume q: "de_proposals s i = Some q" "de_proposals s1 = (de_proposals s)(i \<mapsto> q\<lparr>pr_state := st\<rparr>)"
        and "(\<exists>j. cancelled_by_other q (de_last_approved_proposal_for_action s (get_identifier (pr_action q))) = Some j
            \<and> st = SupersededBy j) \<or>
          (cancelled_by_other q (de_last_approved_proposal_for_action s (get_identifier (pr_action q))) = None \<and>
           (\<exists>passing. is_passing c i s = Inr passing \<and> st = passing_state c (pr_start q) (ts_now sch) passing (pr_state q)))"
      then have "\<not> can_update st" using passing_state_old[of "pr_state p" c "ts_now sch" "pr_start p"] assms by auto
      then show thesis using that q assms(1) by simp
    qed
    moreover have "\<exists>q. de_proposals s1 i = Some q \<and> can_update (pr_state q)" using up(2) by (rule update_cases) simp
    ultimately show ?thesis by auto
  qed
qed blast

theorem late_vote_fails_witness:
  "\<exists>e. vote electorate_config (vote_clock 1201) two_attended 7 1 Aye [(demo_cid, 3)] (petition_submitted, petition_purpose) = Inl e"
proof -
  have "de_proposals petition_submitted 1 = Some (petition_proposal Ongoing)" by (simp add: petition_submitted_def)
  moreover have "pr_state (petition_proposal Ongoing) = Ongoing"
    "dc_proposal_lifetime electorate_config < wrapping_sub 64 (ts_now (vote_clock 1201)) (pr_start (petition_proposal Ongoing))"
    by (simp_all add: petition_proposal_def electorate_config_def vote_clock_def wrapping_sub_def)
  ultimately show ?thesis by (rule late_vote_fails)
qed

text \<open>What an approval that did not get into the queue keeps.\<close>

lemma lost_step:
  assumes "democracy_step c s s'" and law: "lawful_iteration c" and ok: "democracy_ok s"
    and p: "de_proposals s i = Some p" "pr_state p = Approved" "i \<notin> set (queued (de_enactment_queue s))"
  shows "de_proposals s' i = Some p" and "i \<notin> set (queued (de_enactment_queue s'))"
proof -
  have update: "de_proposals s2 i = Some p \<and> i \<notin> set (queued (de_enactment_queue s2))"
    if "do_update_proposal_state c sch j s1 = Inr (ap, s2)" and "de_proposals s1 i = Some p"
      and "i \<notin> set (queued (de_enactment_queue s1))" for sch j s1 s2 ap
    using that(1)
  proof (rule update_cases)
    fix q st assume q: "de_proposals s1 j = Some q" "can_update (pr_state q)"
      "de_proposals s2 = (de_proposals s1)(j \<mapsto> q\<lparr>pr_state := st\<rparr>)"
      "de_enactment_queue s2 = (if st = Approved then push_enactment (get_identifier (pr_action q)) j (de_enactment_queue s1)
         else de_enactment_queue s1)"
    have "i \<noteq> j" using q(1,2) that(2) p(2) by auto
    moreover have "set (queued (push_enactment k j (de_enactment_queue s1))) \<subseteq> insert j (set (queued (de_enactment_queue s1)))" for k
      using push_enactment_queued(1)[of k j "de_enactment_queue s1", THEN arg_cong[where f = set_mset]] by (auto split: if_splits)
    ultimately show ?thesis using q(3,4) that(2,3) by (cases "st = Approved") (simp_all, blast)
  qed
  have "de_proposals s' i = Some p \<and> i \<notin> set (queued (de_enactment_queue s'))"
    using assms(1)
  proof cases
    case (step_submit sch ce action rc rc')
    have "i \<le> de_proposal_count s" using ok p(1) unfolding democracy_ok_def by auto
    with step_submit p(1,3) show ?thesis by (auto elim!: submit_cases)
  next
    case (step_vote sch ce a pid v reps rc rc')
    from this show ?thesis
    proof (rule vote_cases)
      fix t s1 n s2 ap ap' e
      assume up: "do_update_proposal_state c sch pid s = Inr (ap, s1)"
        "do_update_proposal_state c sch pid (s1\<lparr>de_tallies := (de_tallies s1)(pid \<mapsto>
          \<lparr>ta_turnout = ta_turnout t + n, ta_ayes = ta_ayes t + (case v of Aye \<Rightarrow> n | Nay \<Rightarrow> 0)\<rparr>)\<rparr>) = Inr (ap', s2)"
        and s': "s' = de_deposit_event e s2"
      show ?thesis using update[OF up(2)] update[OF up(1) p(1,3)] by (simp add: s' de_deposit_event_def)
    qed
  next
    case (step_update sch pid)
    then show ?thesis using update[OF _ p(1,3)] by (auto simp: update_proposal_state_def bind_res_Inr)
  next
    case (step_phase w ph)
    have "i \<notin> set (enactment_order c (de_enactment_queue s))" using enactment_order_ok(2)[OF law ok] p(3) by simp
    then have "de_proposals s' i = de_proposals s i" "de_enactment_queue s' = [] \<or> de_enactment_queue s' = de_enactment_queue s"
      using enact_all(7)[where i = i and c = c and w = w]
      by (cases ph; simp add: step_phase assigning_fields; simp add: democracy_on_phase_change_def)+
    then show ?thesis using p(1,3) by (auto simp: queued_def)
  qed
  then show "de_proposals s' i = Some p" "i \<notin> set (queued (de_enactment_queue s'))" by auto
qed

text \<open>An approval that finds the queue of its kind full is lost: the proposal stays approved for ever, whatever
  calls and phase changes follow, and is never enacted, because an approved proposal cannot be updated
  again and only queued proposals are enacted.\<close>

theorem overflowing_approval_lost:
  assumes "lawful_iteration c" and "democracy_ok s" and "de_proposals s i = Some p"
    and "do_update_proposal_state c sch i s = Inr (True, s')" and "queue_full (get_identifier (pr_action p)) s"
    and "(democracy_step c)\<^sup>*\<^sup>* s' s''"
  shows "de_proposals s'' i = Some (p\<lparr>pr_state := Approved\<rparr>)"
proof -
  have start: "de_proposals s' i = Some (p\<lparr>pr_state := Approved\<rparr>) \<and> i \<notin> set (queued (de_enactment_queue s'))"
    using assms(4)
  proof (rule update_cases)
    fix q st assume q: "de_proposals s i = Some q" "can_update (pr_state q)" "True \<longleftrightarrow> st = Approved"
      "de_proposals s' = (de_proposals s)(i \<mapsto> q\<lparr>pr_state := st\<rparr>)"
      "de_enactment_queue s' = (if st = Approved then push_enactment (get_identifier (pr_action q)) i (de_enactment_queue s)
         else de_enactment_queue s)"
    have "i \<notin> set (queued (de_enactment_queue s))" using assms(2) q(1,2) unfolding democracy_ok_def queue_entry_ok_def by force
    then show ?thesis using q assms(3,5) by (simp add: push_enactment_def queue_full_def)
  qed
  have "democracy_ok s'" using update_ok[OF assms(4,2)] .
  with assms(6) start show ?thesis
  proof (induction rule: converse_rtranclp_induct)
    case (step s1 s2)
    have "de_proposals s2 i = Some (p\<lparr>pr_state := Approved\<rparr>)" "i \<notin> set (queued (de_enactment_queue s2))"
      using lost_step[OF step(1) assms(1) step(5), of i "p\<lparr>pr_state := Approved\<rparr>"] step(4) by simp_all
    then show ?case using step(3) democracy_step_ok[OF step(1) assms(1) step(5)] by blast
  qed simp
qed

text \<open>The queue is full with the proposals 2 to 129 when the petition is approved.\<close>

definition crowded :: "unit democracy" where
  "crowded = petition_voted\<lparr>de_proposal_count := 129,
     de_proposals := (\<lambda>i. if i \<in> {2..129} then Some (petition_proposal Approved) else de_proposals petition_voted i),
     de_enactment_queue := [(PetitionId (Some demo_cid), [2..<130])]\<rparr>"

theorem overflowing_approval_lost_witness:
  "\<exists>s' s''. do_update_proposal_state electorate_config (vote_clock 1021) 1 crowded = Inr (True, s') \<and>
     s'' = ch_democracy (democracy_on_phase_change electorate_config Assigning (small_chain s')) \<and>
     de_proposals s'' 1 = Some ((petition_proposal (Confirming 1010))\<lparr>pr_state := Approved\<rparr>)"
proof -
  have same: "is_passing electorate_config 1 crowded = is_passing electorate_config 1 petition_voted"
    "de_proposals crowded 1 = de_proposals petition_voted 1"
    "de_last_approved_proposal_for_action crowded = de_last_approved_proposal_for_action petition_voted"
    by (simp_all add: is_passing_def crowded_def)
  have "\<exists>s'. do_update_proposal_state electorate_config (vote_clock 1021) 1 petition_voted = Inr (True, s')"
    using petition_approval by blast
  then have "\<exists>s'. do_update_proposal_state electorate_config (vote_clock 1021) 1 crowded = Inr (True, s')"
    unfolding approval_conditions same .
  then obtain s' where s': "do_update_proposal_state electorate_config (vote_clock 1021) 1 crowded = Inr (True, s')" ..
  have p: "de_proposals crowded 1 = Some (petition_proposal (Confirming 1010))"
    unfolding same(2) by (simp add: petition_voted_def)
  have "democracy_ok crowded"
    by (auto simp: democracy_ok_def queue_entry_ok_def crowded_def petition_voted_def queued_def petition_proposal_def)
  moreover have "queue_full (get_identifier (pr_action (petition_proposal (Confirming 1010)))) crowded"
    by (simp add: queue_full_def crowded_def petition_proposal_def value_query_def ENACTMENT_QUEUE_MAX_PER_TYPE_def)
  moreover have "(democracy_step electorate_config)\<^sup>*\<^sup>* s'
      (ch_democracy (democracy_on_phase_change electorate_config Assigning (small_chain s')))"
    by (rule r_into_rtranclp, rule step_phase[OF _ refl]) (simp add: small_chain_def)
  ultimately show ?thesis using overflowing_approval_lost[OF small_iteration _ p s'] s' by blast
qed

text \<open>Where the first part of adding a location can fail.\<close>

lemma validate_location_error:
  "validate_location c s location \<noteq> Inl TooManyCommunityIdentifiersPerGeohash"
proof -
  have far: "ensure_all_far c s location ls \<noteq> Inl TooManyCommunityIdentifiersPerGeohash" for ls
    by (induction ls) (auto simp: bind_res_Inl ok_or_Inl ensure_Inl)
  have near: "push_all_near c s location bs acc \<noteq> Inl TooManyCommunityIdentifiersPerGeohash" for bs acc
    by (induction bs arbitrary: acc) (auto simp: bind_res_Inl push_if_near_def ok_or_Inl)
  show ?thesis using far near
    by (auto simp: validate_location_def get_nearby_locations_def get_relevant_neighbor_buckets_def bind_res_Inl ok_or_Inl
        ensure_Inl Let_def simp del: push_all_near.simps)
qed

lemma store_location_cases:
  assumes "store_location c cid location s = Inr (g, s1)"
  obtains "cid \<in> set (cm_community_identifiers s)" "cc_try_from_params c (lat location) (lon location) = Some g"
    "location \<in> set (locations s1 cid g)" "cids_by_geohash s1 = cids_by_geohash s"
proof -
  have idx: "cids_by_geohash (insert_locations cid g ls s) = cids_by_geohash s" for ls
    by (simp add: insert_locations_def cids_by_geohash_def fun_eq_iff)
  note put = locations_insert
  have pos: "location \<in> set xs" if "position (\<lambda>y. y = location) xs = Some k" for xs k
    using position_Some[OF that] nth_mem by metis
  show thesis
    using assms that
    by (cases "location \<in> set (locations s cid g)")
      (auto simp: store_location_def bind_res_Inr ok_or_Inr ensure_cid_exists_def try_insert_def idx put
        binary_search_def position_None vec_insert_def dest: pos split: if_splits sum.splits option.splits)
qed

text \<open>The enactment of an added location that finds the index of the bucket full leaves the location behind:
  the location is stored for the community, which the index of the bucket does not list. The other
  reasons for a failure leave nothing.\<close>

theorem failed_add_location_leaves_location:
  assumes "de_proposals (ch_democracy w) i = Some p" and "pr_action p = AddLocation cid location"
    and "enact_proposal c i w = (Inl e, w')"
  shows "if e = EnactCommunities TooManyCommunityIdentifiersPerGeohash
    then \<exists>g. cc_try_from_params (dc_communities c) (lat location) (lon location) = Some g \<and>
      location \<in> set (locations (ch_communities w') cid g) \<and> cid \<notin> set (cids_by_geohash (ch_communities w') g)
    else w' = w"
proof -
  let ?c = "dc_communities c" and ?s = "ch_communities w"
  have run: "do_add_location_in_place ?c cid location ?s = (Inl f, ch_communities w') \<and> e = EnactCommunities f \<and>
      w' = w\<lparr>ch_communities := ch_communities w'\<rparr>" if "e = EnactCommunities f" for f
    using assms that by (auto simp: enact_proposal_def Let_def split: prod.splits sum.splits)
  obtain f where f: "e = EnactCommunities f"
    using assms by (auto simp: enact_proposal_def Let_def split: prod.splits sum.splits)
  note run = run[OF f]
  show ?thesis
  proof (cases "store_location ?c cid location ?s")
    case (Inl f')
    then have "f' = f" "ch_communities w' = ?s" using run by (auto simp: do_add_location_in_place_def)
    moreover have "f' \<noteq> TooManyCommunityIdentifiersPerGeohash"
      using Inl validate_location_error[of ?c ?s location]
      by (auto simp: store_location_def bind_res_Inl ok_or_Inl ensure_cid_exists_def binary_search_def split: if_splits option.splits)
    ultimately show ?thesis using run f by simp
  next
    case (Inr gs)
    then obtain g s1 where gs: "store_location ?c cid location ?s = Inr (g, s1)" by (cases gs) auto
    with run have "index_cid ?c g cid s1 = Inl f" and w': "ch_communities w' = s1"
      by (auto simp: do_add_location_in_place_def split: sum.splits)
    then have "f = TooManyCommunityIdentifiersPerGeohash" "cid \<notin> set (cids_by_geohash s1 g)"
      by (auto simp: index_cid_def bind_res_Inl ok_or_Inl binary_search_def position_None split: sum.splits option.splits)
    moreover from gs have "cc_try_from_params ?c (lat location) (lon location) = Some g \<and> location \<in> set (locations s1 cid g)"
      by (rule store_location_cases) simp
    ultimately show ?thesis using f w' by auto
  qed
qed

text \<open>Ten communities meet at the origin, which fills the bucket; another one has no location yet.\<close>

definition ten_cids :: "CommunityIdentifier list" where
  "ten_cids = map (\<lambda>k. CommunityIdentifier [7, 7, 7, 7, 7] [k, 0, 0, 0]) [10, 11, 12, 13, 14, 15, 16, 17, 18, 19]"

definition full_bucket :: communities where
  "full_bucket = (communities_genesis 1 83)\<lparr>cm_community_identifiers := second_cid # ten_cids,
     cm_locations := (\<lambda>cid. if cid \<in> set ten_cids then [([7, 7, 7, 7, 7], [origin])] else []),
     cm_cids_by_geohash := [[7, 7, 7, 7, 7] \<mapsto> ten_cids]\<rparr>"

definition add_elsewhere :: "(AccountId \<Rightarrow> nat, unit) chain" where
  "add_elsewhere = (small_chain (petition_approved\<lparr>de_proposals :=
     [1 \<mapsto> (petition_proposal Approved)\<lparr>pr_action := AddLocation second_cid elsewhere\<rparr>]\<rparr>))
     \<lparr>ch_communities := full_bucket\<rparr>"

lemma add_elsewhere_fails:
  obtains s where "do_add_location_in_place flat_config second_cid elsewhere full_bucket =
     (Inl TooManyCommunityIdentifiersPerGeohash, s)"
proof -
  have cids: "cids_by_geohash full_bucket = (\<lambda>g. if g = [7, 7, 7, 7, 7] then ten_cids else [])"
    by (simp add: full_bucket_def cids_by_geohash_def value_query_def fun_eq_iff)
  have here: "locations full_bucket cid [7, 7, 7, 7, 7] = (if cid \<in> set ten_cids then [origin] else [])" for cid
    by (simp add: full_bucket_def locations_def bucket_get_def value_query_def)
  have new: "second_cid \<notin> set ten_cids" "length ten_cids = 10" by (simp_all add: ten_cids_def)
  have geo: "cc_try_from_params flat_config x y = Some [7, 7, 7, 7, 7]" and limit: "cc_max_community_identifiers_per_geohash flat_config = 10"
    and room: "cc_max_locations_per_geohash flat_config = 10" for x y
    by (simp_all add: flat_config_def)
  have "cm_max_speed_mps full_bucket = 83" "cm_min_solar_trip_time_s full_bucket = 1"
    by (simp_all add: full_bucket_def communities_genesis_def)
  then have "validate_location flat_config full_bucket elsewhere = Inr ()"
    by (rule flat_validate_elsewhere) (simp_all add: cids here)
  moreover have "ensure_cid_exists full_bucket second_cid = Inr ()" by (simp add: ensure_cid_exists_def full_bucket_def)
  moreover have "binary_search elsewhere (locations full_bucket second_cid [7, 7, 7, 7, 7]) = Inl 0"
    using new by (simp add: here binary_search_def)
  ultimately have "store_location flat_config second_cid elsewhere full_bucket =
      Inr ([7, 7, 7, 7, 7], insert_locations second_cid [7, 7, 7, 7, 7] (vec_insert 0 elsewhere []) full_bucket)" (is "_ = Inr (_, ?s)")
    using new by (simp add: store_location_def geo room here try_insert_def ok_or_def bind_res_def)
  moreover have "cids_by_geohash ?s = cids_by_geohash full_bucket" by (simp add: insert_locations_def cids_by_geohash_def fun_eq_iff)
  then have "index_cid flat_config [7, 7, 7, 7, 7] second_cid ?s = Inl TooManyCommunityIdentifiersPerGeohash"
    using new position_None[of "\<lambda>y. y = second_cid" ten_cids]
    by (auto simp: index_cid_def cids binary_search_def limit try_insert_def ok_or_def bind_res_def split: option.splits)
  ultimately show thesis using that by (simp add: do_add_location_in_place_def)
qed

theorem failed_add_location_leaves_location_witness:
  "\<exists>w'. enact_proposal electorate_config 1 add_elsewhere = (Inl (EnactCommunities TooManyCommunityIdentifiersPerGeohash), w') \<and>
     elsewhere \<in> set (locations (ch_communities w') second_cid [7, 7, 7, 7, 7]) \<and>
     second_cid \<notin> set (cids_by_geohash (ch_communities w') [7, 7, 7, 7, 7])"
proof -
  have p: "de_proposals (ch_democracy add_elsewhere) 1 =
      Some ((petition_proposal Approved)\<lparr>pr_action := AddLocation second_cid elsewhere\<rparr>)"
    by (simp add: add_elsewhere_def small_chain_def)
  have c: "ch_communities add_elsewhere = full_bucket" "dc_communities electorate_config = flat_config"
    by (simp_all add: add_elsewhere_def electorate_config_def)
  obtain s where "do_add_location_in_place flat_config second_cid elsewhere full_bucket = (Inl TooManyCommunityIdentifiersPerGeohash, s)"
    by (rule add_elsewhere_fails)
  then have "enact_proposal electorate_config 1 add_elsewhere =
      (Inl (EnactCommunities TooManyCommunityIdentifiersPerGeohash), add_elsewhere\<lparr>ch_communities := s\<rparr>)"
    unfolding enact_proposal_def p by (simp add: c)
  then obtain w' where w': "enact_proposal electorate_config 1 add_elsewhere =
      (Inl (EnactCommunities TooManyCommunityIdentifiersPerGeohash), w')" ..
  have "cc_try_from_params (dc_communities electorate_config) x y = Some [7, 7, 7, 7, 7]" for x y
    by (simp add: c flat_config_def)
  then show ?thesis using failed_add_location_leaves_location[OF p _ w'] w' by simp
qed

end
