(* ===== verification/Reputation_Rings.thy ===== *)
theory Reputation_Rings
  imports Commitments "HOL-Library.AList"
begin

text \<open>
  The reputation rings pallet, \<open>reputation-rings/src/lib.rs\<close>: accounts register a Bandersnatch key,
  and after a ceremony the pallet computes, step by step over several blocks, five nested rings per
  community, the N/5 ring with the keys of those who attended at least N of the last five ceremonies.

  The key map is an association list, and the order in which \<open>BandersnatchKeys::iter()\<close> walks it
  is the parameter \<open>rk_iteration\<close>. Weights are pairs of \<open>u64\<close> components as in Substrate; the
  weights of the calls and of the database are parameters. A panic of the runtime is the constructor
  \<open>RingsPanic\<close> of the error type, which no caller can recover from.
\<close>

section \<open>Weights\<close>

type_synonym Weight = "nat \<times> nat"

definition weight_add :: "Weight \<Rightarrow> Weight \<Rightarrow> Weight" where
  "weight_add v w = (saturating_add 64 (fst v) (fst w), saturating_add 64 (snd v) (snd w))"

definition weight_sub :: "Weight \<Rightarrow> Weight \<Rightarrow> Weight" where
  "weight_sub v w = (saturating_sub (fst v) (fst w), saturating_sub (snd v) (snd w))"

definition weight_max :: "Weight \<Rightarrow> Weight \<Rightarrow> Weight" where
  "weight_max v w = (max (fst v) (fst w), max (snd v) (snd w))"

definition any_lt :: "Weight \<Rightarrow> Weight \<Rightarrow> bool" where
  "any_lt v w = (fst v < fst w \<or> snd v < snd w)"

section \<open>The pallet\<close>

definition MAX_REPUTATION_LEVELS :: nat where
  "MAX_REPUTATION_LEVELS = 5"

definition MIN_RING_SIZE :: nat where
  "MIN_RING_SIZE = 128"

type_synonym BandersnatchPublicKey = bytes

datatype RingComputationPhase = CollectingMembers nat | BuildingRing nat | Done

record RingComputationState =
  rs_community :: CommunityIdentifier
  rs_ceremony_index :: nat
  rs_phase :: RingComputationPhase
  rs_attendance :: "(AccountId \<times> nat) list"

datatype rings_event =
    BandersnatchKeyRegistered AccountId BandersnatchPublicKey
  | RingComputationStarted CommunityIdentifier nat
  | RingPublished CommunityIdentifier nat nat nat nat
  | RingComputationCompleted CommunityIdentifier nat
  | MemberCollectionProgress CommunityIdentifier nat nat
  | AutomaticRingComputationQueued nat nat
  | RingRegistryPurged nat

datatype rings_error =
    ComputationAlreadyInProgress | NoComputationPending | CommunityNotFound | InvalidCeremonyIndex
  | ComputationAlreadyDone | RingTooLarge | RingsWrongPhase | RingsPanic

record rings_config =
  rk_max_ring_size :: nat
  rk_collect_weight :: Weight
  rk_build_weight :: Weight
  rk_db_overhead :: Weight
  rk_iteration :: "AccountId list \<Rightarrow> AccountId list"

record rings =
  rr_bandersnatch_keys :: "(AccountId \<times> BandersnatchPublicKey) list"
  rr_ring_members :: "CommunityCeremony \<Rightarrow> nat \<times> nat \<Rightarrow> BandersnatchPublicKey list option"
  rr_sub_ring_count :: "CommunityCeremony \<Rightarrow> nat \<Rightarrow> nat option"
  rr_pending_ring_computation :: "RingComputationState option"
  rr_pending_communities :: "CommunityIdentifier list"
  rr_pending_ceremony_index :: nat
  rr_events :: "rings_event list"

definition rings_genesis :: rings where
  "rings_genesis =
     \<lparr>rr_bandersnatch_keys = [], rr_ring_members = (\<lambda>_. Map.empty), rr_sub_ring_count = (\<lambda>_. Map.empty),
      rr_pending_ring_computation = None, rr_pending_communities = [], rr_pending_ceremony_index = 0,
      rr_events = []\<rparr>"

definition rr_deposit_event :: "rings_event \<Rightarrow> rings \<Rightarrow> rings" where
  "rr_deposit_event e s = s\<lparr>rr_events := rr_events s @ [e]\<rparr>"

subsection \<open>The steps of the computation\<close>

text \<open>The search of the attendance list for the account, whose count is incremented or which is pushed.\<close>

fun count_attendance :: "AccountId \<Rightarrow> (AccountId \<times> nat) list \<Rightarrow> (AccountId \<times> nat) list" where
  "count_attendance account [] = [(account, 1)]"
| "count_attendance account ((a, n) # entries) =
     (if a = account then (a, saturating_add 8 n 1) # entries
      else (a, n) # count_attendance account entries)"

definition collect_members_step ::
  "rings_config \<Rightarrow> ceremonies \<Rightarrow> RingComputationState \<Rightarrow> nat \<Rightarrow> rings \<Rightarrow> RingComputationState \<times> rings" where
  "collect_members_step c ce state offset s =
     (if MAX_REPUTATION_LEVELS \<le> offset
      then (state\<lparr>rs_attendance := sort_key fst (rs_attendance state),
                  rs_phase := BuildingRing MAX_REPUTATION_LEVELS\<rparr>, s)
      else
        (let cindex = saturating_sub (rs_ceremony_index state) offset;
             progress = MemberCollectionProgress (rs_community state) (rs_ceremony_index state) (offset + 1)
         in if cindex = 0
            then (state\<lparr>rs_phase := CollectingMembers (offset + 1)\<rparr>, rr_deposit_event progress s)
            else
              (state\<lparr>rs_attendance :=
                  foldl (\<lambda>attendance account.
                      if is_verified (participant_reputation ce (rs_community state, cindex) account)
                      then count_attendance account attendance else attendance)
                    (rs_attendance state) (rk_iteration c (map fst (rr_bandersnatch_keys s))),
                rs_phase := CollectingMembers (offset + 1)\<rparr>,
               rr_deposit_event progress s)))"

text \<open>The keys of the accounts with enough attendances that still have one.\<close>

definition ring_candidates :: "RingComputationState \<Rightarrow> nat \<Rightarrow> rings \<Rightarrow> BandersnatchPublicKey list" where
  "ring_candidates state level s =
     List.map_filter (\<lambda>(account, count).
         if level \<le> count then map_of (rr_bandersnatch_keys s) account else None)
       (rs_attendance state)"

definition div_ceil :: "nat \<Rightarrow> nat \<Rightarrow> nat option" where
  "div_ceil a b = (if b = 0 then None else Some (if a mod b \<noteq> 0 then a div b + 1 else a div b))"

text \<open>
  The loop over the sub-rings. The products are taken in a \<open>usize\<close> and wrap; a slice with its ends
  out of order or beyond the list panics. What was inserted before an error stays: the caller
  decides whether it is rolled back.
\<close>

fun publish_sub_rings ::
  "rings_config \<Rightarrow> RingComputationState \<Rightarrow> nat \<Rightarrow> BandersnatchPublicKey list \<Rightarrow> nat \<Rightarrow> nat \<Rightarrow> nat list \<Rightarrow>
   rings \<Rightarrow> (rings_error + unit) \<times> rings" where
  "publish_sub_rings c state level members len num_sub_rings [] s = (Inr (), s)"
| "publish_sub_rings c state level members len num_sub_rings (i # is) s =
     (let start = wrapping_mul usize_bits i len div num_sub_rings;
          end' = wrapping_mul usize_bits (wrapping_add usize_bits i 1) len div num_sub_rings;
          chunk = take (end' - start) (drop start members)
      in if end' < start \<or> length members < end' then (Inl RingsPanic, s)
         else if rk_max_ring_size c < length chunk then (Inl RingTooLarge, s)
         else publish_sub_rings c state level members len num_sub_rings is
           (rr_deposit_event
             (RingPublished (rs_community state) (rs_ceremony_index state) level i (as_unsigned 32 (length chunk)))
             (s\<lparr>rr_ring_members :=
                 dm_insert (rs_community state, rs_ceremony_index state) (level, i) chunk (rr_ring_members s)\<rparr>)))"

definition build_ring_step ::
  "rings_config \<Rightarrow> RingComputationState \<Rightarrow> nat \<Rightarrow> rings \<Rightarrow> (rings_error + RingComputationState) \<times> rings" where
  "build_ring_step c state level s =
     (if level = 0 then (Inr (state\<lparr>rs_phase := Done\<rparr>), s)
      else
        (let members = sort (ring_candidates state level s);
             total = as_unsigned 32 (length members);
             max_ring = rk_max_ring_size c
         in case (if total \<le> max_ring then Some 1 else div_ceil total max_ring) of
              None \<Rightarrow> (Inl RingsPanic, s)
            | Some num_sub_rings \<Rightarrow>
                (case publish_sub_rings c state level members total num_sub_rings [0..<num_sub_rings] s of
                   (Inl e, s') \<Rightarrow> (Inl e, s')
                 | (Inr _, s') \<Rightarrow>
                     (Inr (state\<lparr>rs_phase := (if level = 1 then Done else BuildingRing (level - 1))\<rparr>),
                      s'\<lparr>rr_sub_ring_count :=
                          dm_insert (rs_community state, rs_ceremony_index state) level num_sub_rings
                            (rr_sub_ring_count s')\<rparr>))))"

definition process_computation_step ::
  "rings_config \<Rightarrow> ceremonies \<Rightarrow> RingComputationState \<Rightarrow> rings \<Rightarrow>
   (rings_error + RingComputationState) \<times> rings" where
  "process_computation_step c ce state s =
     (case rs_phase state of
        CollectingMembers next_ceremony_offset \<Rightarrow>
          (case collect_members_step c ce state next_ceremony_offset s of (state', s') \<Rightarrow> (Inr state', s'))
      | BuildingRing current_level \<Rightarrow> build_ring_step c state current_level s
      | Done \<Rightarrow> (Inr state, s))"

subsection \<open>The calls\<close>

definition register_bandersnatch_key :: "AccountId \<Rightarrow> BandersnatchPublicKey \<Rightarrow> rings \<Rightarrow> rings" where
  "register_bandersnatch_key who key s =
     rr_deposit_event (BandersnatchKeyRegistered who key)
       (s\<lparr>rr_bandersnatch_keys := AList.update who key (rr_bandersnatch_keys s)\<rparr>)"

definition fresh_computation :: "CommunityIdentifier \<Rightarrow> nat \<Rightarrow> RingComputationState" where
  "fresh_computation community ceremony_index =
     \<lparr>rs_community = community, rs_ceremony_index = ceremony_index, rs_phase = CollectingMembers 0,
      rs_attendance = []\<rparr>"

definition initiate_rings ::
  "scheduler \<Rightarrow> communities \<Rightarrow> CommunityIdentifier \<Rightarrow> nat \<Rightarrow> rings \<Rightarrow> rings_error + rings" where
  "initiate_rings sch cm community ceremony_index s =
     ensure (sc_phase sch = Assigning) RingsWrongPhase (
     ensure (\<not> contains (rr_pending_ring_computation s)) ComputationAlreadyInProgress (
     ensure (List.member (cm_community_identifiers cm) community) CommunityNotFound (
     ensure (0 < ceremony_index \<and> ceremony_index < sc_ceremony_index sch) InvalidCeremonyIndex (
     Inr (rr_deposit_event (RingComputationStarted community ceremony_index)
       (s\<lparr>rr_pending_ring_computation := Some (fresh_computation community ceremony_index)\<rparr>))))))"

text \<open>An extrinsic that answers an error is rolled back, so the state of the error case is dropped.\<close>

definition continue_ring_computation :: "rings_config \<Rightarrow> ceremonies \<Rightarrow> rings \<Rightarrow> rings_error + rings" where
  "continue_ring_computation c ce s =
     bind_res (ok_or (rr_pending_ring_computation s) NoComputationPending) (\<lambda>state.
     ensure (rs_phase state \<noteq> Done) ComputationAlreadyDone (
     case process_computation_step c ce state s of
       (Inl e, _) \<Rightarrow> Inl e
     | (Inr state', s') \<Rightarrow>
         Inr (if rs_phase state' = Done
              then (rr_deposit_event (RingComputationCompleted (rs_community state') (rs_ceremony_index state')) s')
                     \<lparr>rr_pending_ring_computation := None\<rparr>
              else s'\<lparr>rr_pending_ring_computation := Some state'\<rparr>)))"

subsection \<open>The idle hook\<close>

definition single_step_weight :: "rings_config \<Rightarrow> Weight" where
  "single_step_weight c = weight_max (rk_collect_weight c) (rk_build_weight c)"

datatype idle_outcome = Break | Panicked | Next Weight rings

text \<open>One iteration of the loop: it leaves the loop, panics, or goes on with a cost and a state.\<close>

definition idle_iteration :: "rings_config \<Rightarrow> ceremonies \<Rightarrow> Weight \<Rightarrow> rings \<Rightarrow> idle_outcome" where
  "idle_iteration c ce remaining_weight s =
     (let overhead = rk_db_overhead c; step_budget = weight_add (single_step_weight c) overhead
      in if any_lt remaining_weight step_budget then Break
         else case rr_pending_ring_computation s of
           Some state \<Rightarrow>
             (if rs_phase state = Done
              then Next overhead
                ((rr_deposit_event (RingComputationCompleted (rs_community state) (rs_ceremony_index state)) s)
                   \<lparr>rr_pending_ring_computation := None\<rparr>)
              else case process_computation_step c ce state s of
                (Inr state', s') \<Rightarrow>
                  Next step_budget
                    (if rs_phase state' = Done
                     then (rr_deposit_event (RingComputationCompleted (rs_community state') (rs_ceremony_index state')) s')
                            \<lparr>rr_pending_ring_computation := None\<rparr>
                     else s'\<lparr>rr_pending_ring_computation := Some state'\<rparr>)
              | (Inl e, s') \<Rightarrow>
                  (if e = RingsPanic then Panicked
                   else Next step_budget (s'\<lparr>rr_pending_ring_computation := None\<rparr>)))
         | None \<Rightarrow>
             (case rr_pending_communities s of
                [] \<Rightarrow> Break
              | community # queue \<Rightarrow>
                  (let ceremony_index = rr_pending_ceremony_index s
                   in Next overhead
                     (rr_deposit_event (RingComputationStarted community ceremony_index)
                       (s\<lparr>rr_pending_communities := queue,
                          rr_pending_ring_computation := Some (fresh_computation community ceremony_index)\<rparr>)))))"

text \<open>
  The number of iterations that are left: a computation takes at most eleven steps, and a queued
  community one more to start it.
\<close>

fun steps_left :: "RingComputationPhase \<Rightarrow> nat" where
  "steps_left (CollectingMembers n) = 6 + (5 - n)"
| "steps_left (BuildingRing l) = max 1 l"
| "steps_left Done = 1"

definition idle_work :: "rings \<Rightarrow> nat" where
  "idle_work s =
     (case rr_pending_ring_computation s of None \<Rightarrow> 0 | Some state \<Rightarrow> steps_left (rs_phase state)) +
     12 * length (rr_pending_communities s)"

lemma process_step_decreases:
  assumes "process_computation_step c ce state s = (Inr state', s')" and "rs_phase state \<noteq> Done"
    and "rs_phase state' \<noteq> Done"
  shows "steps_left (rs_phase state') < steps_left (rs_phase state)"
  using assms
  by (cases "rs_phase state")
     (auto simp: process_computation_step_def collect_members_step_def build_ring_step_def MAX_REPUTATION_LEVELS_def
        Let_def split: if_splits option.splits prod.splits sum.splits)

lemma publish_frame:
  assumes "publish_sub_rings c state level members len n is s = (r, s')"
  shows "rr_pending_communities s' = rr_pending_communities s" and "rr_bandersnatch_keys s' = rr_bandersnatch_keys s"
    and "rr_pending_ring_computation s' = rr_pending_ring_computation s" and "rr_sub_ring_count s' = rr_sub_ring_count s"
    and "rr_pending_ceremony_index s' = rr_pending_ceremony_index s"
  using assms
  by (induction c state level members len n "is" s rule: publish_sub_rings.induct)
     (auto simp: Let_def rr_deposit_event_def split: if_splits)

lemma process_step_frame:
  assumes "process_computation_step c ce state s = (r, s')"
  shows "rr_pending_communities s' = rr_pending_communities s" and "rr_bandersnatch_keys s' = rr_bandersnatch_keys s"
    and "rr_pending_ring_computation s' = rr_pending_ring_computation s"
    and "rr_pending_ceremony_index s' = rr_pending_ceremony_index s"
proof -
  have "rr_pending_communities s' = rr_pending_communities s \<and> rr_bandersnatch_keys s' = rr_bandersnatch_keys s \<and>
      rr_pending_ring_computation s' = rr_pending_ring_computation s \<and>
      rr_pending_ceremony_index s' = rr_pending_ceremony_index s"
    using assms
    by (cases "rs_phase state")
       (auto simp: process_computation_step_def collect_members_step_def build_ring_step_def Let_def
          rr_deposit_event_def dest: publish_frame split: if_splits option.splits prod.splits sum.splits)
  then show "rr_pending_communities s' = rr_pending_communities s" "rr_bandersnatch_keys s' = rr_bandersnatch_keys s"
    "rr_pending_ring_computation s' = rr_pending_ring_computation s"
    "rr_pending_ceremony_index s' = rr_pending_ceremony_index s" by simp_all
qed

lemma idle_iteration_works:
  assumes "idle_iteration c ce w s = Next cost s'"
  shows "idle_work s' < idle_work s"
proof (cases "rr_pending_ring_computation s")
  case None
  with assms show ?thesis
    by (auto simp: idle_iteration_def idle_work_def fresh_computation_def rr_deposit_event_def Let_def
        split: if_splits list.splits)
next
  case (Some state)
  show ?thesis
  proof (cases "rs_phase state = Done")
    case True
    with Some assms show ?thesis
      by (auto simp: idle_iteration_def idle_work_def rr_deposit_event_def Let_def split: if_splits)
  next
    case False
    obtain r t where p: "process_computation_step c ce state s = (r, t)" by fastforce
    note frame = process_step_frame[OF p]
    have pos: "0 < steps_left (rs_phase state)" by (cases "rs_phase state") auto
    show ?thesis
      using Some False assms p frame pos process_step_decreases[of c ce state s _ t]
      by (auto simp: idle_iteration_def idle_work_def rr_deposit_event_def Let_def split: if_splits sum.splits)
  qed
qed

text \<open>The loop of the hook, \<open>None\<close> for a panic.\<close>

function idle_loop :: "rings_config \<Rightarrow> ceremonies \<Rightarrow> Weight \<Rightarrow> Weight \<Rightarrow> rings \<Rightarrow> (Weight \<times> rings) option" where
  "idle_loop c ce consumed remaining_weight s =
     (case idle_iteration c ce remaining_weight s of
        Break \<Rightarrow> Some (consumed, s)
      | Panicked \<Rightarrow> None
      | Next cost s' \<Rightarrow> idle_loop c ce (weight_add consumed cost) (weight_sub remaining_weight cost) s')"
  by pat_completeness auto
termination by (relation "measure (\<lambda>(_, _, _, _, s). idle_work s)") (auto intro: idle_iteration_works)

declare idle_loop.simps [simp del]

definition on_idle :: "rings_config \<Rightarrow> ceremonies \<Rightarrow> Weight \<Rightarrow> rings \<Rightarrow> (Weight \<times> rings) option" where
  "on_idle c ce remaining_weight s = idle_loop c ce (0, 0) remaining_weight s"

subsection \<open>Phase changes\<close>

definition purge_community_ceremony_rings :: "CommunityIdentifier \<Rightarrow> nat \<Rightarrow> rings \<Rightarrow> rings" where
  "purge_community_ceremony_rings cid cindex s =
     s\<lparr>rr_ring_members := dm_remove_prefix (cid, cindex) (rr_ring_members s),
       rr_sub_ring_count := dm_remove_prefix (cid, cindex) (rr_sub_ring_count s)\<rparr>"

definition purge_rings :: "communities \<Rightarrow> nat \<Rightarrow> rings \<Rightarrow> rings" where
  "purge_rings cm cindex s =
     rr_deposit_event (RingRegistryPurged cindex)
       (foldl (\<lambda>s cid. purge_community_ceremony_rings cid cindex s) s (cm_community_identifiers cm))"

definition rings_on_phase_change ::
  "scheduler \<Rightarrow> communities \<Rightarrow> ceremonies \<Rightarrow> CeremonyPhaseType \<Rightarrow> rings \<Rightarrow> rings" where
  "rings_on_phase_change sch cm ce new_phase s =
     (case new_phase of
        Assigning \<Rightarrow>
          (let cindex = sc_ceremony_index sch; completed = saturating_sub cindex 1
           in if completed = 0 then s
              else if rr_pending_communities s \<noteq> [] then s
              else let cids = cm_community_identifiers cm
                in rr_deposit_event (AutomaticRingComputationQueued completed (as_unsigned 32 (length cids)))
                     (s\<lparr>rr_pending_communities := cids, rr_pending_ceremony_index := completed\<rparr>))
      | Registering \<Rightarrow>
          (let reputation_lifetime = ce_reputation_lifetime ce; cindex = sc_ceremony_index sch
           in if reputation_lifetime < cindex
              then purge_rings cm (saturating_sub (saturating_sub cindex reputation_lifetime) 1) s
              else s)
      | Attesting \<Rightarrow> s)"

text \<open>
  One step of the pallet: a call, the idle hook of a block, or a phase change. The scheduler, the
  communities and the ceremonies are those of the moment, whatever they are.
\<close>

inductive rings_step :: "rings_config \<Rightarrow> rings \<Rightarrow> rings \<Rightarrow> bool" for c :: rings_config where
  register: "rings_step c s (register_bandersnatch_key who key s)"
| initiate: "initiate_rings sch cm cid cindex s = Inr s' \<Longrightarrow> rings_step c s s'"
| continue: "continue_ring_computation c ce s = Inr s' \<Longrightarrow> rings_step c s s'"
| idle: "on_idle c ce weight s = Some (consumed, s') \<Longrightarrow> rings_step c s s'"
| phase_change: "rings_step c s (rings_on_phase_change sch cm ce new_phase s)"

inductive_cases rings_stepE: "rings_step c s s'"
end
