(* ===== verification/Ring_Computation.thy ===== *)
theory Ring_Computation
  imports Reputation_Rings
begin

text \<open>
  How a ring computation proceeds: the even chunks that the sub-rings of a level are, the attendance
  list after each scan over unchanged records, and the members of a level as the keys of the accounts
  with enough attendances.
\<close>

section \<open>Even chunks\<close>

definition even_chunk :: "nat \<Rightarrow> 'a list \<Rightarrow> nat \<Rightarrow> 'a list" where
  "even_chunk n xs i =
     take ((i + 1) * length xs div n - i * length xs div n) (drop (i * length xs div n) xs)"

lemma chunk_bounds:
  fixes n t i :: nat
  assumes "0 < n" and "t \<le> n * m"
  shows "i * t div n \<le> (i + 1) * t div n" and "(i + 1) * t div n - i * t div n \<le> m"
    and "t div n \<le> (i + 1) * t div n - i * t div n" and "(i + 1) * t div n - i * t div n \<le> t div n + 1"
    and "i < n \<Longrightarrow> (i + 1) * t div n \<le> t"
proof -
  have e: "(i + 1) * t = i * t + t" by simp
  show le: "i * t div n \<le> (i + 1) * t div n" unfolding e by (rule div_le_mono) simp
  have "(i + 1) * t div n \<le> (i * t + n * m) div n" unfolding e using assms(2) by (intro div_le_mono) simp
  also have "\<dots> = i * t div n + m" using assms(1) by simp
  finally show "(i + 1) * t div n - i * t div n \<le> m" by simp
  have lt: "t div n * n \<le> t" "t \<le> n * (t div n + 1)"
    using assms(1) dividend_less_div_times[of n t] by (simp_all add: algebra_simps)
  have "i * t div n + t div n = (i * t + n * (t div n)) div n" using assms(1) by simp
  also have "\<dots> \<le> (i + 1) * t div n" unfolding e using lt(1) by (intro div_le_mono) (simp add: mult.commute)
  finally show "t div n \<le> (i + 1) * t div n - i * t div n" using le by linarith
  have "(i + 1) * t div n \<le> (i * t + n * (t div n + 1)) div n" unfolding e using lt(2) by (intro div_le_mono) simp
  also have "\<dots> = i * t div n + (t div n + 1)" using assms(1) by (simp only: div_mult_self2)
  finally show "(i + 1) * t div n - i * t div n \<le> t div n + 1" by simp
  show "(i + 1) * t div n \<le> t" if "i < n"
  proof -
    have "(i + 1) * t \<le> n * t" using that by (intro mult_le_mono1) simp
    then have "(i + 1) * t div n \<le> n * t div n" by (rule div_le_mono)
    then show ?thesis using assms(1) by simp
  qed
qed

lemma length_even_chunk:
  assumes "0 < n" and "i < n"
  shows "length (even_chunk n xs i) = (i + 1) * length xs div n - i * length xs div n"
  using chunk_bounds(1,5)[of n "length xs" "length xs" i] assms by (simp add: even_chunk_def)

lemma even_chunk_sizes:
  assumes "0 < n" and "i < n"
  shows "length xs div n \<le> length (even_chunk n xs i)" and "length (even_chunk n xs i) \<le> length xs div n + 1"
    and "length xs \<le> n * m \<Longrightarrow> length (even_chunk n xs i) \<le> m"
  unfolding length_even_chunk[OF assms]
  using chunk_bounds(2)[of n "length xs" m i] chunk_bounds(3,4)[of n "length xs" "length xs" i] assms(1) by auto

lemma concat_even_chunks:
  assumes "0 < n"
  shows "concat (map (even_chunk n xs) [0..<n]) = xs"
proof -
  have "concat (map (even_chunk n xs) [0..<k]) = take (k * length xs div n) xs" for k
  proof (induction k)
    case 0
    then show ?case by simp
  next
    case (Suc k)
    have "take (Suc k * length xs div n) xs =
        take (k * length xs div n + (Suc k * length xs div n - k * length xs div n)) xs"
      using chunk_bounds(1)[of n "length xs" "length xs" k] assms by simp
    also have "\<dots> = take (k * length xs div n) xs @ even_chunk n xs k"
      unfolding even_chunk_def take_add by simp
    finally show ?case using Suc by simp
  qed
  from this[of n] assms show ?thesis by simp
qed

section \<open>Building a level\<close>

definition ring_keys :: "rings \<Rightarrow> CommunityCeremony \<Rightarrow> nat \<Rightarrow> BandersnatchPublicKey list" where
  "ring_keys s cc level =
     concat (map (\<lambda>i. value_query [] (rr_ring_members s cc (level, i))) [0..<value_query 0 (rr_sub_ring_count s cc level)])"

lemma publish_sub_rings_ok:
  assumes "0 < n" and "n < 2 ^ 32" and "length ms * n < 2 ^ 32" and "length ms \<le> n * rk_max_ring_size c"
    and "set is \<subseteq> {..<n}"
  shows "\<exists>s'. publish_sub_rings c st l ms (length ms) n is s = (Inr (), s') \<and>
    (\<forall>cc k. rr_ring_members s' cc k =
       (if cc = (rs_community st, rs_ceremony_index st) \<and> fst k = l \<and> snd k \<in> set is
        then Some (even_chunk n ms (snd k)) else rr_ring_members s cc k))"
  using assms(5)
proof (induction "is" arbitrary: s)
  case Nil
  then show ?case by simp
next
  case (Cons i js)
  let ?t = "length ms" and ?cc = "(rs_community st, rs_ceremony_index st)"
  have i: "i < n" using Cons.prems by simp
  have "(i + 1) * ?t \<le> ?t * n" using i by (metis Suc_eq_plus1 Suc_leI mult.commute mult_le_mono1)
  then have w: "wrapping_mul usize_bits i ?t = i * ?t" "wrapping_add usize_bits i 1 = i + 1"
    "wrapping_mul usize_bits (i + 1) ?t = (i + 1) * ?t"
    using assms(2,3) i by (simp_all add: wrapping_mul_def wrapping_add_def)
  define e where "e = rr_deposit_event
      (RingPublished (rs_community st) (rs_ceremony_index st) l i (as_unsigned 32 (length (even_chunk n ms i))))
      (s\<lparr>rr_ring_members := dm_insert ?cc (l, i) (even_chunk n ms i) (rr_ring_members s)\<rparr>)"
  have "publish_sub_rings c st l ms ?t n (i # js) s = publish_sub_rings c st l ms ?t n js e"
    unfolding publish_sub_rings.simps w Let_def e_def
    using chunk_bounds(1,5)[of n ?t ?t i] even_chunk_sizes(3)[OF assms(1) i assms(4)] assms(1) i
    by (simp add: even_chunk_def not_less)
  moreover obtain s' where "publish_sub_rings c st l ms ?t n js e = (Inr (), s')"
    "\<And>cc k. rr_ring_members s' cc k = (if cc = ?cc \<and> fst k = l \<and> snd k \<in> set js
        then Some (even_chunk n ms (snd k)) else rr_ring_members e cc k)"
    using Cons.IH[of e] Cons.prems by auto
  ultimately show ?case
    by (auto simp: e_def rr_deposit_event_def dm_insert_apply)
qed

definition sub_rings_for :: "nat \<Rightarrow> nat \<Rightarrow> nat" where
  "sub_rings_for t m = (if t \<le> m then 1 else if t mod m \<noteq> 0 then t div m + 1 else t div m)"

lemma sub_rings_for:
  assumes "0 < m"
  shows "0 < sub_rings_for t m" and "t \<le> sub_rings_for t m * m" and "sub_rings_for t m \<le> t div m + 1"
    and "(if t \<le> m then Some 1 else div_ceil t m) = Some (sub_rings_for t m)"
proof -
  show "0 < sub_rings_for t m" using assms by (auto simp: sub_rings_for_def div_greater_zero_iff)
  have "t = t div m * m + t mod m" "t mod m < m" using assms by simp_all
  then have "t \<le> t div m * m + m" "t mod m = 0 \<Longrightarrow> t \<le> t div m * m" by linarith+
  then show "t \<le> sub_rings_for t m * m" by (auto simp: sub_rings_for_def add.commute)
  show "sub_rings_for t m \<le> t div m + 1" by (simp add: sub_rings_for_def)
  show "(if t \<le> m then Some 1 else div_ceil t m) = Some (sub_rings_for t m)"
    using assms by (simp add: sub_rings_for_def div_ceil_def)
qed

text \<open>The sizes for which the products of the chunk bounds fit a \<open>usize\<close>.\<close>

definition splittable :: "rings_config \<Rightarrow> nat \<Rightarrow> bool" where
  "splittable c t \<longleftrightarrow> 0 < rk_max_ring_size c \<and> (t + 1) * (t div rk_max_ring_size c + 1) < 2 ^ 32"

lemma splittable_mono:
  assumes "splittable c t" and "u \<le> t"
  shows "splittable c u"
proof -
  have "(u + 1) * (u div rk_max_ring_size c + 1) \<le> (t + 1) * (t div rk_max_ring_size c + 1)"
    using assms(2) by (intro mult_le_mono) (auto intro: div_le_mono)
  then show ?thesis using assms(1) unfolding splittable_def by linarith
qed

lemma build_ring_step_ok:
  fixes st l s c
  defines "ms \<equiv> sort (ring_candidates st l s)" and "cc \<equiv> (rs_community st, rs_ceremony_index st)"
  defines "n \<equiv> sub_rings_for (length ms) (rk_max_ring_size c)"
  assumes "0 < l" and "splittable c (length ms)"
  obtains s' where
    "build_ring_step c st l s = (Inr (st\<lparr>rs_phase := (if l = 1 then Done else BuildingRing (l - 1))\<rparr>), s')"
    "rr_sub_ring_count s' = dm_insert cc l n (rr_sub_ring_count s)"
    "\<And>cc' k. rr_ring_members s' cc' k =
       (if cc' = cc \<and> fst k = l \<and> snd k < n then Some (even_chunk n ms (snd k)) else rr_ring_members s cc' k)"
proof -
  let ?m = "rk_max_ring_size c"
  have m: "0 < ?m" and lt: "(length ms + 1) * (length ms div ?m + 1) < 2 ^ 32"
    using assms(5) by (simp_all add: splittable_def)
  note n = sub_rings_for[OF m, of "length ms", folded n_def]
  have "(length ms + 1) * n \<le> (length ms + 1) * (length ms div ?m + 1)" using n(3) by (rule mult_le_mono2)
  then have pr: "(length ms + 1) * n < 2 ^ 32" using lt by linarith
  have "(length ms + 1) * 1 \<le> (length ms + 1) * n" using n(1) by (intro mult_le_mono2) simp
  moreover have "n \<le> (length ms + 1) * n" "length ms * n \<le> (length ms + 1) * n" by simp_all
  ultimately have b: "n < 2 ^ 32" "length ms * n < 2 ^ 32" "as_unsigned 32 (length ms) = length ms"
    using pr by (simp_all add: as_unsigned_def)
  obtain t where t: "publish_sub_rings c st l ms (length ms) n [0..<n] s = (Inr (), t)"
    "\<And>cc' k. rr_ring_members t cc' k =
       (if cc' = cc \<and> fst k = l \<and> snd k < n then Some (even_chunk n ms (snd k)) else rr_ring_members s cc' k)"
  proof -
    have "set [0..<n] \<subseteq> {..<n}" by auto
    from publish_sub_rings_ok[OF n(1) b(1,2) n(2) this, of st l s, folded cc_def] that show thesis
      by (auto simp del: split_paired_All)
  qed
  define s' where "s' = t\<lparr>rr_sub_ring_count := dm_insert cc l n (rr_sub_ring_count t)\<rparr>"
  have "build_ring_step c st l s = (Inr (st\<lparr>rs_phase := (if l = 1 then Done else BuildingRing (l - 1))\<rparr>), s')"
    using assms(4) t(1) unfolding build_ring_step_def Let_def ms_def[symmetric] b(3) n(4)
    by (simp add: s'_def cc_def)
  then show thesis using that[of s'] t(2) publish_frame(4)[OF t(1)] by (simp add: s'_def)
qed

lemma ring_keys_built:
  assumes "rr_sub_ring_count s cc l = Some n" and "0 < n"
    and "\<And>i. i < n \<Longrightarrow> rr_ring_members s cc (l, i) = Some (even_chunk n ms i)"
  shows "ring_keys s cc l = ms"
proof -
  have "map (\<lambda>i. value_query [] (rr_ring_members s cc (l, i))) [0..<n] = map (even_chunk n ms) [0..<n]"
    using assms(3) by (intro map_cong) auto
  then show ?thesis
    unfolding ring_keys_def assms(1) value_query_simps using concat_even_chunks[OF assms(2), of ms] by (simp only:)
qed

section \<open>Collecting the members\<close>

definition lawful_key_order :: "rings_config \<Rightarrow> bool" where
  "lawful_key_order c \<longleftrightarrow> (\<forall>ks. mset (rk_iteration c ks) = mset ks)"

text \<open>How many of the first \<open>k\<close> of the ceremonies up to \<open>ci\<close>, counted backwards, the account attended.\<close>

definition attended :: "ceremonies \<Rightarrow> CommunityIdentifier \<Rightarrow> nat \<Rightarrow> nat \<Rightarrow> AccountId \<Rightarrow> nat" where
  "attended ce cid ci k a =
     length (filter (\<lambda>j. j < ci \<and> is_verified (participant_reputation ce (cid, ci - j) a)) [0..<k])"

lemma attended_le: "attended ce cid ci k a \<le> k"
  unfolding attended_def by (rule order.trans[OF length_filter_le]) simp

lemma attended_Suc: "attended ce cid ci (Suc k) a = attended ce cid ci k a +
    (if k < ci \<and> is_verified (participant_reputation ce (cid, ci - k) a) then 1 else 0)"
  by (simp add: attended_def)

lemma count_attendance_keys: "set (map fst (count_attendance a att)) = insert a (set (map fst att))"
  by (induction a att rule: count_attendance.induct) auto

lemma count_attendance_distinct: "distinct (map fst att) \<Longrightarrow> distinct (map fst (count_attendance a att))"
proof (induction a att rule: count_attendance.induct)
  case (2 a b n rest)
  then show ?case using count_attendance_keys[of a rest] by auto
qed simp

lemma count_attendance_map_of:
  "map_of (count_attendance a att) = (map_of att)(a \<mapsto> saturating_add 8 (value_query 0 (map_of att a)) 1)"
  by (induction a att rule: count_attendance.induct) (auto simp: saturating_add_def)

lemma count_fold:
  fixes v :: "AccountId \<Rightarrow> bool"
  assumes "distinct as" and "distinct (map fst att)"
  defines "att' \<equiv> foldl (\<lambda>att a. if v a then count_attendance a att else att) att as"
  shows "distinct (map fst att')" and "map_of att' a =
    (if a \<in> set as \<and> v a then Some (saturating_add 8 (value_query 0 (map_of att a)) 1) else map_of att a)"
proof -
  have "distinct (map fst att') \<and> (\<forall>a. map_of att' a =
      (if a \<in> set as \<and> v a then Some (saturating_add 8 (value_query 0 (map_of att a)) 1) else map_of att a))"
    using assms(1,2) unfolding att'_def
  proof (induction "as" arbitrary: att)
    case Nil
    then show ?case by simp
  next
    case (Cons x xs)
    then show ?case using Cons.IH[of "if v x then count_attendance x att else att"]
      by (auto simp: count_attendance_distinct count_attendance_map_of)
  qed
  then show "distinct (map fst att')" "map_of att' a =
    (if a \<in> set as \<and> v a then Some (saturating_add 8 (value_query 0 (map_of att a)) 1) else map_of att a)" by auto
qed

text \<open>What the attendance list is after \<open>k\<close> of the five scans over unchanged records.\<close>

definition collected ::
  "ceremonies \<Rightarrow> (AccountId \<times> BandersnatchPublicKey) list \<Rightarrow> CommunityIdentifier \<Rightarrow> nat \<Rightarrow> nat \<Rightarrow>
   (AccountId \<times> nat) list \<Rightarrow> bool" where
  "collected ce keys cid ci k att \<longleftrightarrow> distinct (map fst att) \<and>
     (\<forall>a. map_of att a = (if a \<in> fst ` set keys \<and> 0 < attended ce cid ci k a then Some (attended ce cid ci k a) else None))"

lemma collected_start: "collected ce keys cid ci 0 []"
  by (simp add: collected_def attended_def)

lemma collected_skip: "collected ce keys cid ci k att \<Longrightarrow> ci \<le> k \<Longrightarrow> collected ce keys cid ci (Suc k) att"
  by (simp add: collected_def attended_Suc)

lemma collected_scan:
  assumes "collected ce keys cid ci k att" and "k < ci" and "k < 5" and "distinct as" and "set as = fst ` set keys"
  shows "collected ce keys cid ci (Suc k)
    (foldl (\<lambda>att a. if is_verified (participant_reputation ce (cid, ci - k) a) then count_attendance a att else att) att as)"
proof -
  have d: "distinct (map fst att)" using assms(1) by (simp add: collected_def)
  have sat: "saturating_add 8 (attended ce cid ci k a) 1 = attended ce cid ci k a + 1" for a
    using attended_le[of ce cid ci k a] assms(3) by (simp add: saturating_add_def)
  have zero: "saturating_add 8 0 1 = 1" by (simp add: saturating_add_def)
  show ?thesis
    using count_fold[OF assms(4) d, where v = "\<lambda>a. is_verified (participant_reputation ce (cid, ci - k) a)"]
      assms(1,2,5) sat zero
    by (auto simp: collected_def attended_Suc)
qed

lemma collected_sort:
  assumes "collected ce keys cid ci k att"
  shows "collected ce keys cid ci k (sort_key fst att)"
proof -
  have "mset (map fst (sort_key fst att)) = mset (map fst att)" by (simp only: mset_map mset_sort)
  then have d: "distinct (map fst (sort_key fst att))"
    using assms unfolding collected_def by (metis mset_eq_imp_distinct_iff)
  moreover have "map_of (sort_key fst att) = map_of att"
    using assms d by (subst map_of_inject_set) (simp_all add: collected_def)
  ultimately show ?thesis using assms by (simp add: collected_def)
qed

text \<open>The keys of the accounts with at least \<open>l\<close> attendances among the last five.\<close>

definition eligible_keys ::
  "ceremonies \<Rightarrow> (AccountId \<times> BandersnatchPublicKey) list \<Rightarrow> CommunityIdentifier \<Rightarrow> nat \<Rightarrow> nat \<Rightarrow>
   BandersnatchPublicKey list" where
  "eligible_keys ce keys cid ci l = map snd (filter (\<lambda>(a, k). l \<le> attended ce cid ci 5 a) keys)"

lemma length_eligible: "length (eligible_keys ce keys cid ci l) \<le> length keys"
  by (simp add: eligible_keys_def)

lemma eligible_nested: "l \<le> m \<Longrightarrow> mset (eligible_keys ce keys cid ci m) \<subseteq># mset (eligible_keys ce keys cid ci l)"
  by (induction keys) (auto simp: eligible_keys_def intro: subset_mset.order_trans)

lemma map_filter_eq_map: "(\<And>x. x \<in> set xs \<Longrightarrow> P x \<Longrightarrow> f x = Some (g x)) \<Longrightarrow> (\<And>x. x \<in> set xs \<Longrightarrow> \<not> P x \<Longrightarrow> f x = None) \<Longrightarrow>
    List.map_filter f xs = map g (filter P xs)"
  by (induction xs) (auto simp: List.map_filter_simps)

lemma ring_candidates_eligible:
  assumes "collected ce (rr_bandersnatch_keys s) (rs_community st) (rs_ceremony_index st) 5 (rs_attendance st)"
    and "distinct (map fst (rr_bandersnatch_keys s))" and "0 < l"
  shows "mset (ring_candidates st l s) =
    mset (eligible_keys ce (rr_bandersnatch_keys s) (rs_community st) (rs_ceremony_index st) l)"
proof -
  let ?ks = "rr_bandersnatch_keys s" and ?att = "rs_attendance st"
  let ?n = "attended ce (rs_community st) (rs_ceremony_index st) 5" and ?g = "\<lambda>a. the (map_of (rr_bandersnatch_keys s) a)"
  have d: "distinct (map fst ?att)" using assms(1) by (simp add: collected_def)
  have att: "map_of ?att a = (if a \<in> fst ` set ?ks \<and> 0 < ?n a then Some (?n a) else None)" for a
    using assms(1) by (simp add: collected_def)
  have mem: "(a, n) \<in> set ?att \<longleftrightarrow> a \<in> fst ` set ?ks \<and> 0 < ?n a \<and> n = ?n a" for a n
    unfolding map_of_eq_Some_iff[OF d, symmetric] att by auto
  have "ring_candidates st l s = map (\<lambda>(a, n). ?g a) (filter (\<lambda>(a, n). l \<le> ?n a) ?att)"
    unfolding ring_candidates_def
    by (rule map_filter_eq_map) (auto simp: mem map_of_eq_None_iff split: prod.splits intro: map_of_SomeD)
  also have "\<dots> = map ?g (filter (\<lambda>a. l \<le> ?n a) (map fst ?att))"
    by (simp add: filter_map comp_def case_prod_unfold)
  finally have c: "ring_candidates st l s = map ?g (filter (\<lambda>a. l \<le> ?n a) (map fst ?att))" .
  have "map snd (filter (\<lambda>(a, k). l \<le> ?n a) ?ks) = map (\<lambda>x. ?g (fst x)) (filter (\<lambda>(a, k). l \<le> ?n a) ?ks)"
    using assms(2) by (intro map_cong) (auto simp: map_of_eq_Some_iff)
  then have e: "eligible_keys ce ?ks (rs_community st) (rs_ceremony_index st) l = map ?g (filter (\<lambda>a. l \<le> ?n a) (map fst ?ks))"
    unfolding eligible_keys_def by (simp add: filter_map comp_def case_prod_unfold)
  have "set (filter (\<lambda>a. l \<le> ?n a) (map fst ?att)) = set (filter (\<lambda>a. l \<le> ?n a) (map fst ?ks))"
    using assms(3) mem by force
  then have "mset (filter (\<lambda>a. l \<le> ?n a) (map fst ?att)) = mset (filter (\<lambda>a. l \<le> ?n a) (map fst ?ks))"
    using d assms(2) by (subst (asm) set_eq_iff_mset_eq_distinct) (auto intro: distinct_filter)
  then show ?thesis unfolding c e mset_map by simp
qed

end
