(* ===== verification/Ring_Runs.thy ===== *)
theory Ring_Runs
  imports Ring_Computation
begin

text \<open>
  Whole runs of the ring computation: eleven steps, taken one call at a time or by the idle hook,
  publish all five levels of a community, and the idle hook drains its queue.
\<close>

section \<open>One step\<close>

text \<open>What a step that does not fail makes of the storage, in the call and in the idle hook alike.\<close>

definition advance :: "rings_config \<Rightarrow> ceremonies \<Rightarrow> rings \<Rightarrow> rings option" where
  "advance c ce s =
     (case rr_pending_ring_computation s of
        None \<Rightarrow> None
      | Some state \<Rightarrow>
          (if rs_phase state = Done then None
           else case process_computation_step c ce state s of
             (Inl e, _) \<Rightarrow> None
           | (Inr state', s') \<Rightarrow>
               Some (if rs_phase state' = Done
                     then (rr_deposit_event (RingComputationCompleted (rs_community state') (rs_ceremony_index state')) s')
                            \<lparr>rr_pending_ring_computation := None\<rparr>
                     else s'\<lparr>rr_pending_ring_computation := Some state'\<rparr>)))"

lemma continue_advance: "advance c ce s = Some s' \<Longrightarrow> continue_ring_computation c ce s = Inr s'"
  by (auto simp: advance_def continue_ring_computation_def ok_or_def ensure_def split: option.splits if_splits prod.splits sum.splits)

lemma idle_advance:
  "advance c ce s = Some s' \<Longrightarrow> \<not> any_lt w (weight_add (single_step_weight c) (rk_db_overhead c)) \<Longrightarrow>
   idle_iteration c ce w s = Next (weight_add (single_step_weight c) (rk_db_overhead c)) s'"
  by (auto simp: advance_def idle_iteration_def Let_def split: option.splits if_splits prod.splits sum.splits)

fun advance_n :: "rings_config \<Rightarrow> ceremonies \<Rightarrow> nat \<Rightarrow> rings \<Rightarrow> rings option" where
  "advance_n c ce 0 s = Some s"
| "advance_n c ce (Suc k) s = (case advance c ce s of None \<Rightarrow> None | Some t \<Rightarrow> advance_n c ce k t)"

lemma advance_n_add:
  "advance_n c ce j s = Some t \<Longrightarrow> advance_n c ce k t = r \<Longrightarrow> advance_n c ce (j + k) s = r"
  by (induction j arbitrary: s) (auto split: option.splits)

definition same_inputs :: "rings \<Rightarrow> rings \<Rightarrow> bool" where
  "same_inputs s s' \<longleftrightarrow> rr_bandersnatch_keys s' = rr_bandersnatch_keys s \<and>
     rr_pending_communities s' = rr_pending_communities s \<and> rr_pending_ceremony_index s' = rr_pending_ceremony_index s"

definition same_rings :: "rings \<Rightarrow> rings \<Rightarrow> bool" where
  "same_rings s s' \<longleftrightarrow> rr_ring_members s' = rr_ring_members s \<and> rr_sub_ring_count s' = rr_sub_ring_count s"

lemma same_refl [simp]: "same_inputs s s" "same_rings s s"
  by (simp_all add: same_inputs_def same_rings_def)

lemma same_trans: "same_inputs s t \<Longrightarrow> same_inputs t u \<Longrightarrow> same_inputs s u" "same_rings s t \<Longrightarrow> same_rings t u \<Longrightarrow> same_rings s u"
  by (simp_all add: same_inputs_def same_rings_def)

text \<open>The pending computation of a community at a phase, with the right attendance list.\<close>

definition computing ::
  "ceremonies \<Rightarrow> CommunityIdentifier \<Rightarrow> nat \<Rightarrow> nat \<Rightarrow> RingComputationPhase \<Rightarrow> rings \<Rightarrow> bool" where
  "computing ce cid ci k ph s \<longleftrightarrow>
     (\<exists>att. rr_pending_ring_computation s =
         Some \<lparr>rs_community = cid, rs_ceremony_index = ci, rs_phase = ph, rs_attendance = att\<rparr> \<and>
       collected ce (rr_bandersnatch_keys s) cid ci k att)"

definition published :: "rings_config \<Rightarrow> rings \<Rightarrow> CommunityCeremony \<Rightarrow> nat \<Rightarrow> BandersnatchPublicKey list \<Rightarrow> bool" where
  "published c s cc l ms \<longleftrightarrow>
     rr_sub_ring_count s cc l = Some (sub_rings_for (length ms) (rk_max_ring_size c)) \<and>
     (\<forall>i < sub_rings_for (length ms) (rk_max_ring_size c).
        rr_ring_members s cc (l, i) = Some (even_chunk (sub_rings_for (length ms) (rk_max_ring_size c)) ms i))"

lemma published_ring_keys: "published c s cc l ms \<Longrightarrow> 0 < rk_max_ring_size c \<Longrightarrow> ring_keys s cc l = ms"
  unfolding published_def by (elim conjE, erule ring_keys_built[OF _ sub_rings_for(1)]) simp_all

lemmas step_defs =
  advance_def process_computation_step_def collect_members_step_def saturating_sub_def rr_deposit_event_def

lemma advance_collect:
  assumes "computing ce cid ci k (CollectingMembers k) s" and "k < 5" and "lawful_key_order c"
    and "distinct (map fst (rr_bandersnatch_keys s))"
  obtains s' where "advance c ce s = Some s'" and "computing ce cid ci (Suc k) (CollectingMembers (Suc k)) s'"
    and "same_inputs s s'" and "same_rings s s'"
proof -
  let ?ks = "rr_bandersnatch_keys s" and ?as = "rk_iteration c (map fst (rr_bandersnatch_keys s))"
  obtain att where p: "rr_pending_ring_computation s =
      Some \<lparr>rs_community = cid, rs_ceremony_index = ci, rs_phase = CollectingMembers k, rs_attendance = att\<rparr>"
    and col: "collected ce ?ks cid ci k att" using assms(1) unfolding computing_def by blast
  have ms: "mset ?as = mset (map fst ?ks)" using assms(3) by (simp add: lawful_key_order_def)
  have "distinct ?as" "set ?as = fst ` set ?ks"
    using mset_eq_imp_distinct_iff[OF ms] mset_eq_setD[OF ms] assms(4) by simp_all
  note scan = collected_scan[OF col _ assms(2) this]
  have five: "\<not> MAX_REPUTATION_LEVELS \<le> k" using assms(2) by (simp add: MAX_REPUTATION_LEVELS_def)
  show thesis
  proof (cases "ci \<le> k")
    case True
    obtain s' where a: "advance c ce s = Some s'"
      using p True five by (simp add: step_defs)
    show thesis by (rule that[OF a]) (insert a p True five collected_skip[OF col True], auto simp: step_defs computing_def same_inputs_def same_rings_def)
  next
    case False
    then have "k < ci" by simp
    obtain s' where a: "advance c ce s = Some s'"
      using p \<open>k < ci\<close> five by (simp add: step_defs)
    show thesis by (rule that[OF a]) (insert a p \<open>k < ci\<close> five scan[OF \<open>k < ci\<close>], auto simp: step_defs computing_def same_inputs_def same_rings_def)
  qed
qed

lemma advance_sort:
  assumes "computing ce cid ci 5 (CollectingMembers 5) s"
  obtains s' where "advance c ce s = Some s'" and "computing ce cid ci 5 (BuildingRing 5) s'"
    and "same_inputs s s'" and "same_rings s s'"
proof -
  obtain att where p: "rr_pending_ring_computation s =
      Some \<lparr>rs_community = cid, rs_ceremony_index = ci, rs_phase = CollectingMembers 5, rs_attendance = att\<rparr>"
    and col: "collected ce (rr_bandersnatch_keys s) cid ci 5 att" using assms(1) unfolding computing_def by blast
  obtain s' where a: "advance c ce s = Some s'" using p by (simp add: step_defs MAX_REPUTATION_LEVELS_def)
  show thesis
    by (rule that[OF a])
       (insert a p collected_sort[OF col], auto simp: step_defs MAX_REPUTATION_LEVELS_def computing_def same_inputs_def same_rings_def)
qed

text \<open>Building a level changes the rings of that level only.\<close>

definition only_level :: "CommunityCeremony \<Rightarrow> nat \<Rightarrow> rings \<Rightarrow> rings \<Rightarrow> bool" where
  "only_level cc l s s' \<longleftrightarrow>
     (\<forall>cc' l' i. (cc', l') \<noteq> (cc, l) \<longrightarrow> rr_ring_members s' cc' (l', i) = rr_ring_members s cc' (l', i) \<and>
        rr_sub_ring_count s' cc' l' = rr_sub_ring_count s cc' l')"

lemma published_elsewhere:
  "only_level cc l s s' \<Longrightarrow> (cc', l') \<noteq> (cc, l) \<Longrightarrow> published c s' cc' l' ms \<longleftrightarrow> published c s cc' l' ms"
  by (simp add: only_level_def published_def del: split_paired_All)

lemma advance_build:
  assumes "computing ce cid ci 5 (BuildingRing l) s" and "0 < l"
    and "distinct (map fst (rr_bandersnatch_keys s))" and "splittable c (length (rr_bandersnatch_keys s))"
  obtains s' where "advance c ce s = Some s'"
    and "if l = 1 then rr_pending_ring_computation s' = None else computing ce cid ci 5 (BuildingRing (l - 1)) s'"
    and "same_inputs s s'" and "only_level (cid, ci) l s s'"
    and "published c s' (cid, ci) l (sort (eligible_keys ce (rr_bandersnatch_keys s) cid ci l))"
proof -
  let ?ks = "rr_bandersnatch_keys s"
  obtain att where p: "rr_pending_ring_computation s =
      Some \<lparr>rs_community = cid, rs_ceremony_index = ci, rs_phase = BuildingRing l, rs_attendance = att\<rparr>" (is "_ = Some ?st")
    and col: "collected ce ?ks cid ci 5 att" using assms(1) unfolding computing_def by blast
  have ms: "mset (ring_candidates ?st l s) = mset (eligible_keys ce ?ks cid ci l)"
    using ring_candidates_eligible[of ce s ?st l] col assms(2,3) by simp
  then have srt: "sort (ring_candidates ?st l s) = sort (eligible_keys ce ?ks cid ci l)" (is "_ = ?ms")
    by (intro properties_for_sort) simp_all
  have len: "length ?ms \<le> length ?ks" using length_eligible[of ce ?ks cid ci l] by simp
  define n where "n = sub_rings_for (length ?ms) (rk_max_ring_size c)"
  obtain t where b: "build_ring_step c ?st l s = (Inr (?st\<lparr>rs_phase := (if l = 1 then Done else BuildingRing (l - 1))\<rparr>), t)"
    "rr_sub_ring_count t = dm_insert (cid, ci) l n (rr_sub_ring_count s)"
    "\<And>cc' k. rr_ring_members t cc' k =
       (if cc' = (cid, ci) \<and> fst k = l \<and> snd k < n then Some (even_chunk n ?ms (snd k)) else rr_ring_members s cc' k)"
    using build_ring_step_ok[OF assms(2), of c ?st s] splittable_mono[OF assms(4) len] unfolding srt n_def by auto
  have pr: "process_computation_step c ce ?st s = build_ring_step c ?st l s" by (simp add: process_computation_step_def)
  note fr = process_step_frame[OF trans[OF pr b(1)]]
  define s' where "s' = (if l = 1
      then (rr_deposit_event (RingComputationCompleted cid ci) t)\<lparr>rr_pending_ring_computation := None\<rparr>
      else t\<lparr>rr_pending_ring_computation := Some (?st\<lparr>rs_phase := BuildingRing (l - 1)\<rparr>)\<rparr>)"
  have s': "rr_ring_members s' = rr_ring_members t" "rr_sub_ring_count s' = rr_sub_ring_count t"
    "rr_bandersnatch_keys s' = ?ks" "same_inputs s s'"
    using fr by (auto simp: s'_def rr_deposit_event_def same_inputs_def)
  show thesis
  proof (rule that)
    show "advance c ce s = Some s'"
      using p b(1) pr by (simp add: advance_def s'_def)
    show "if l = 1 then rr_pending_ring_computation s' = None else computing ce cid ci 5 (BuildingRing (l - 1)) s'"
      using col s'(3) by (simp add: computing_def) (simp add: s'_def)
    show "same_inputs s s'" by (rule s'(4))
    show "only_level (cid, ci) l s s'"
      unfolding only_level_def s'(1,2) b(2) by (auto simp: b(3) dm_insert_apply)
    show "published c s' (cid, ci) l (sort (eligible_keys ce ?ks cid ci l))"
      unfolding published_def s'(1,2) b(2) n_def[symmetric] by (simp add: b(3) dm_insert_apply)
  qed
qed

section \<open>A whole computation\<close>

lemma collect_run:
  assumes "computing ce cid ci 0 (CollectingMembers 0) s" and "lawful_key_order c"
    and "distinct (map fst (rr_bandersnatch_keys s))" and "k \<le> 5"
  shows "\<exists>s'. advance_n c ce k s = Some s' \<and> computing ce cid ci k (CollectingMembers k) s' \<and>
    same_inputs s s' \<and> same_rings s s'"
  using assms(4)
proof (induction k)
  case 0
  then show ?case using assms(1) by simp
next
  case (Suc k)
  then obtain t where t: "advance_n c ce k s = Some t" "computing ce cid ci k (CollectingMembers k) t"
    "same_inputs s t" "same_rings s t" by auto
  have "distinct (map fst (rr_bandersnatch_keys t))" using t(3) assms(3) by (simp add: same_inputs_def)
  then obtain u where u: "advance c ce t = Some u" "computing ce cid ci (Suc k) (CollectingMembers (Suc k)) u"
    "same_inputs t u" "same_rings t u"
    using advance_collect[OF t(2) _ assms(2)] Suc.prems by auto
  have "advance_n c ce (k + 1) s = Some u" by (rule advance_n_add[OF t(1)]) (simp add: u(1))
  then show ?case using u(2) same_trans(1)[OF t(3) u(3)] same_trans(2)[OF t(4) u(4)] by auto
qed

definition other_communities_kept :: "CommunityCeremony \<Rightarrow> rings \<Rightarrow> rings \<Rightarrow> bool" where
  "other_communities_kept cc s s' \<longleftrightarrow>
     (\<forall>cc'. cc' \<noteq> cc \<longrightarrow> rr_ring_members s' cc' = rr_ring_members s cc' \<and> rr_sub_ring_count s' cc' = rr_sub_ring_count s cc')"

lemma only_level_kept: "only_level cc l s s' \<Longrightarrow> other_communities_kept cc s s'"
  unfolding only_level_def other_communities_kept_def by (auto simp del: split_paired_All intro!: ext)

lemma build_run:
  assumes "computing ce cid ci 5 (BuildingRing l) s" and "0 < l"
    and "distinct (map fst (rr_bandersnatch_keys s))" and "splittable c (length (rr_bandersnatch_keys s))"
  shows "\<exists>s'. advance_n c ce l s = Some s' \<and> rr_pending_ring_computation s' = None \<and> same_inputs s s' \<and>
    other_communities_kept (cid, ci) s s' \<and>
    (\<forall>l'. 0 < l' \<and> l' \<le> l \<longrightarrow> published c s' (cid, ci) l' (sort (eligible_keys ce (rr_bandersnatch_keys s) cid ci l'))) \<and>
    (\<forall>l' ms. l < l' \<longrightarrow> published c s (cid, ci) l' ms \<longrightarrow> published c s' (cid, ci) l' ms)"
  using assms
proof (induction l arbitrary: s)
  case 0
  then show ?case by simp
next
  case (Suc l)
  obtain t where t: "advance c ce s = Some t"
    "if Suc l = 1 then rr_pending_ring_computation t = None else computing ce cid ci 5 (BuildingRing (Suc l - 1)) t"
    "same_inputs s t" "only_level (cid, ci) (Suc l) s t"
    "published c t (cid, ci) (Suc l) (sort (eligible_keys ce (rr_bandersnatch_keys s) cid ci (Suc l)))"
    by (rule advance_build[OF Suc.prems])
  have ks: "rr_bandersnatch_keys t = rr_bandersnatch_keys s" using t(3) by (simp add: same_inputs_def)
  note kept = only_level_kept[OF t(4)] and elsewhere = published_elsewhere[OF t(4), of "(cid, ci)"]
  show ?case
  proof (cases "l = 0")
    case True
    then show ?thesis using t kept elsewhere by (intro exI[of _ t]) (auto simp: le_Suc_eq)
  next
    case False
    then obtain u where u: "advance_n c ce l t = Some u" "rr_pending_ring_computation u = None" "same_inputs t u"
      "other_communities_kept (cid, ci) t u"
      "\<And>l'. 0 < l' \<Longrightarrow> l' \<le> l \<Longrightarrow> published c u (cid, ci) l' (sort (eligible_keys ce (rr_bandersnatch_keys s) cid ci l'))"
      "\<And>l' ms. l < l' \<Longrightarrow> published c t (cid, ci) l' ms \<Longrightarrow> published c u (cid, ci) l' ms"
      using Suc.IH[of t] t(2) Suc.prems(3,4) unfolding ks by auto
    show ?thesis
    proof (intro exI[of _ u] conjI allI impI)
      show "advance_n c ce (Suc l) s = Some u" using t(1) u(1) by simp
      show "other_communities_kept (cid, ci) s u" using kept u(4) by (simp add: other_communities_kept_def)
      show "published c u (cid, ci) l' (sort (eligible_keys ce (rr_bandersnatch_keys s) cid ci l'))"
        if "0 < l' \<and> l' \<le> Suc l" for l'
      proof (cases "l' = Suc l")
        case True
        show ?thesis unfolding True by (rule u(6)[OF _ t(5)]) simp
      next
        case False
        then show ?thesis using that u(5)[of l'] by linarith
      qed
      show "published c u (cid, ci) l' ms" if "Suc l < l'" "published c s (cid, ci) l' ms" for l' ms
      proof -
        have "published c t (cid, ci) l' ms" using that elsewhere[of l'] by simp
        then show ?thesis using that(1) u(6)[of l' ms] by simp
      qed
      show "rr_pending_ring_computation u = None" by (rule u(2))
      show "same_inputs s u" by (rule same_trans(1)[OF t(3) u(3)])
    qed
  qed
qed

definition rings_published ::
  "rings_config \<Rightarrow> ceremonies \<Rightarrow> (AccountId \<times> BandersnatchPublicKey) list \<Rightarrow> CommunityCeremony \<Rightarrow> rings \<Rightarrow> bool" where
  "rings_published c ce keys cc s \<longleftrightarrow>
     (\<forall>l. 0 < l \<and> l \<le> 5 \<longrightarrow> published c s cc l (sort (eligible_keys ce keys (fst cc) (snd cc) l)))"

lemma computation_run:
  assumes "rr_pending_ring_computation s = Some (fresh_computation cid ci)" and "lawful_key_order c"
    and "distinct (map fst (rr_bandersnatch_keys s))" and "splittable c (length (rr_bandersnatch_keys s))"
  obtains s' where "advance_n c ce 11 s = Some s'" and "rr_pending_ring_computation s' = None" and "same_inputs s s'"
    and "other_communities_kept (cid, ci) s s'" and "rings_published c ce (rr_bandersnatch_keys s) (cid, ci) s'"
proof -
  have "computing ce cid ci 0 (CollectingMembers 0) s"
    using assms(1) collected_start by (auto simp: computing_def fresh_computation_def)
  then obtain t where t: "advance_n c ce 5 s = Some t" "computing ce cid ci 5 (CollectingMembers 5) t"
    "same_inputs s t" "same_rings s t" using collect_run[OF _ assms(2,3), of ce cid ci 5] by auto
  obtain u where u: "advance c ce t = Some u" "computing ce cid ci 5 (BuildingRing 5) u" "same_inputs t u" "same_rings t u"
    using advance_sort[OF t(2)] by blast
  have su: "same_inputs s u" "same_rings s u" using same_trans t(3,4) u(3,4) by blast+
  then have ks: "rr_bandersnatch_keys u = rr_bandersnatch_keys s" by (simp add: same_inputs_def)
  obtain s' where s': "advance_n c ce 5 u = Some s'" "rr_pending_ring_computation s' = None" "same_inputs u s'"
    "other_communities_kept (cid, ci) u s'"
    "\<forall>l'. 0 < l' \<and> l' \<le> 5 \<longrightarrow> published c s' (cid, ci) l' (sort (eligible_keys ce (rr_bandersnatch_keys s) cid ci l'))"
    using build_run[OF u(2), of c] assms(3,4) unfolding ks by auto
  have "advance_n c ce (5 + (1 + 5)) s = Some s'"
    by (rule advance_n_add[OF t(1)], rule advance_n_add[of _ _ _ _ u]) (simp_all add: u(1) s'(1))
  then have "advance_n c ce 11 s = Some s'" by simp
  then show thesis using that[of s'] s' su same_trans(1)[OF su(1) s'(3)]
    by (simp add: rings_published_def other_communities_kept_def same_rings_def)
qed

end
