(* ===== verification/Ring_Invariants.thy ===== *)
theory Ring_Invariants
  imports Ring_Runs
begin

text \<open>
  The invariants of the reputation rings pallet: the idle hook costs no more than it is given and
  drains its queue when it can afford to, every stored ring is within its bound and every counted
  sub-ring exists, and no step of a computation fails while the products of the split fit a \<open>usize\<close>.
\<close>

section \<open>The idle hook\<close>

definition weights_typed :: "rings_config \<Rightarrow> bool" where
  "weights_typed c \<longleftrightarrow> fst (rk_db_overhead c) < 2 ^ 64 \<and> snd (rk_db_overhead c) < 2 ^ 64"

definition step_budget :: "rings_config \<Rightarrow> Weight" where
  "step_budget c = weight_add (single_step_weight c) (rk_db_overhead c)"

lemma overhead_le_budget:
  "weights_typed c \<Longrightarrow> fst (rk_db_overhead c) \<le> fst (step_budget c) \<and> snd (rk_db_overhead c) \<le> snd (step_budget c)"
  by (simp add: weights_typed_def step_budget_def weight_add_def saturating_add_def)

lemma idle_iteration_cost:
  assumes "idle_iteration c ce w s = Next cost s'" and "weights_typed c"
  shows "fst cost \<le> fst w" and "snd cost \<le> snd w"
proof -
  have "\<not> any_lt w (step_budget c)" "cost = step_budget c \<or> cost = rk_db_overhead c"
    using assms(1) unfolding idle_iteration_def
    by (auto simp: Let_def step_budget_def split: if_splits option.splits prod.splits sum.splits list.splits)
  then show "fst cost \<le> fst w" "snd cost \<le> snd w" using overhead_le_budget[OF assms(2)] by (auto simp: any_lt_def)
qed

lemma idle_loop_budget:
  assumes "idle_loop c ce cons w s = Some (cons', s')" and "weights_typed c"
  shows "fst cons' \<le> fst cons + fst w \<and> snd cons' \<le> snd cons + snd w"
  using assms
proof (induction c ce cons w s rule: idle_loop.induct)
  case (1 c ce cons w s)
  show ?case
  proof (cases "idle_iteration c ce w s")
    case (Next cost t)
    with "1.prems"(1) have l: "idle_loop c ce (weight_add cons cost) (weight_sub w cost) t = Some (cons', s')"
      by (simp add: idle_loop.simps[of c ce cons w s])
    have "fst (weight_add cons cost) \<le> fst cons + fst cost" "snd (weight_add cons cost) \<le> snd cons + snd cost"
      by (simp_all add: weight_add_def saturating_add_le)
    moreover have "fst (weight_sub w cost) = fst w - fst cost" "snd (weight_sub w cost) = snd w - snd cost"
      by (simp_all add: weight_sub_def saturating_sub_def)
    ultimately show ?thesis using "1.IH"[OF Next l "1.prems"(2)] idle_iteration_cost[OF Next "1.prems"(2)] by linarith
  qed (use "1.prems" in \<open>auto simp: idle_loop.simps[of c ce cons w s]\<close>)
qed

definition affords :: "rings_config \<Rightarrow> Weight \<Rightarrow> nat \<Rightarrow> bool" where
  "affords c w k \<longleftrightarrow> k * fst (step_budget c) \<le> fst w \<and> k * snd (step_budget c) \<le> snd w"

lemma affords_Suc:
  assumes "affords c w (Suc k)"
  shows "\<not> any_lt w (step_budget c)" and "affords c (weight_sub w (step_budget c)) k"
  using assms by (auto simp: affords_def any_lt_def weight_sub_def saturating_sub_def)

lemma idle_loop_run:
  assumes "advance_n c ce k s = Some t" and "affords c w (k + j)"
  shows "\<exists>cons' w'. idle_loop c ce cons w s = idle_loop c ce cons' w' t \<and> affords c w' j"
  using assms
proof (induction k arbitrary: cons w s)
  case 0
  then have "s = t" "affords c w j" by simp_all
  then show ?case by blast
next
  case (Suc k)
  then obtain u where u: "advance c ce s = Some u" "advance_n c ce k u = Some t" by (auto split: option.splits)
  have "\<not> any_lt w (step_budget c)" "affords c (weight_sub w (step_budget c)) (k + j)"
    using affords_Suc[of c w "k + j"] Suc.prems(2) by simp_all
  then have "idle_loop c ce cons w s = idle_loop c ce (weight_add cons (step_budget c)) (weight_sub w (step_budget c)) u"
    using idle_advance[OF u(1), of w] by (simp add: idle_loop.simps[of c ce cons w s] step_budget_def)
  then show ?case using Suc.IH[OF u(2) \<open>affords c (weight_sub w _) (k + j)\<close>] by simp
qed

lemma idle_start:
  assumes "rr_pending_ring_computation s = None" and "rr_pending_communities s = cid # queue"
    and "affords c w (Suc k)" and "weights_typed c"
  obtains s' cons' w' where "idle_loop c ce cons w s = idle_loop c ce cons' w' s'" and "affords c w' k"
    and "rr_pending_ring_computation s' = Some (fresh_computation cid (rr_pending_ceremony_index s))"
    and "rr_pending_communities s' = queue" and "rr_bandersnatch_keys s' = rr_bandersnatch_keys s"
    and "rr_pending_ceremony_index s' = rr_pending_ceremony_index s" and "same_rings s s'"
proof -
  define s' where "s' = rr_deposit_event (RingComputationStarted cid (rr_pending_ceremony_index s))
      (s\<lparr>rr_pending_communities := queue,
         rr_pending_ring_computation := Some (fresh_computation cid (rr_pending_ceremony_index s))\<rparr>)"
  have "idle_iteration c ce w s = Next (rk_db_overhead c) s'"
    using affords_Suc(1)[OF assms(3)] assms(1,2) by (simp add: idle_iteration_def step_budget_def Let_def s'_def)
  then have l: "idle_loop c ce cons w s = idle_loop c ce (weight_add cons (rk_db_overhead c)) (weight_sub w (rk_db_overhead c)) s'"
    by (simp add: idle_loop.simps[of c ce cons w s])
  have "affords c (weight_sub w (rk_db_overhead c)) k"
    using assms(3) overhead_le_budget[OF assms(4)] by (auto simp: affords_def weight_sub_def saturating_sub_def)
  with l show thesis by (rule that) (simp_all add: s'_def rr_deposit_event_def same_rings_def)
qed

lemma published_kept:
  "other_communities_kept cc s s' \<Longrightarrow> cc' \<noteq> cc \<Longrightarrow> rings_published c ce ks cc' s \<Longrightarrow> rings_published c ce ks cc' s'"
  by (simp add: other_communities_kept_def rings_published_def published_def del: split_paired_All)

lemma idle_drains:
  assumes "rr_pending_ring_computation s = None" and "affords c w (12 * length (rr_pending_communities s))"
    and "weights_typed c" and "lawful_key_order c" and "distinct (map fst (rr_bandersnatch_keys s))"
    and "splittable c (length (rr_bandersnatch_keys s))"
  shows "\<exists>cons' s'. idle_loop c ce cons w s = Some (cons', s') \<and> rr_pending_communities s' = [] \<and>
    rr_pending_ring_computation s' = None \<and> rr_bandersnatch_keys s' = rr_bandersnatch_keys s \<and>
    (\<forall>cid. cid \<in> set (rr_pending_communities s) \<or>
        rings_published c ce (rr_bandersnatch_keys s) (cid, rr_pending_ceremony_index s) s \<longrightarrow>
      rings_published c ce (rr_bandersnatch_keys s) (cid, rr_pending_ceremony_index s) s')"
  using assms
proof (induction "rr_pending_communities s" arbitrary: s cons w)
  case Nil
  then have "idle_iteration c ce w s = Break" by (simp add: idle_iteration_def Let_def)
  then show ?case using Nil by (simp add: idle_loop.simps[of c ce cons w s])
next
  case (Cons cid queue)
  let ?ks = "rr_bandersnatch_keys s" and ?ci = "rr_pending_ceremony_index s"
  have "affords c w (Suc (11 + 12 * length queue))"
    using Cons.prems(2) unfolding Cons.hyps(2)[symmetric] by (simp add: affords_def)
  then obtain t cons1 w1 where t: "idle_loop c ce cons w s = idle_loop c ce cons1 w1 t" "affords c w1 (11 + 12 * length queue)"
    "rr_pending_ring_computation t = Some (fresh_computation cid ?ci)" "rr_pending_communities t = queue"
    "rr_bandersnatch_keys t = ?ks" "rr_pending_ceremony_index t = ?ci" "same_rings s t"
    using idle_start[OF Cons.prems(1) Cons.hyps(2)[symmetric] _ Cons.prems(3)] by metis
  obtain u where u: "advance_n c ce 11 t = Some u" "rr_pending_ring_computation u = None" "same_inputs t u"
    "other_communities_kept (cid, ?ci) t u" "rings_published c ce ?ks (cid, ?ci) u"
    using computation_run[OF t(3) Cons.prems(4)] Cons.prems(5,6) unfolding t(5) by metis
  obtain cons2 w2 where l: "idle_loop c ce cons1 w1 t = idle_loop c ce cons2 w2 u" "affords c w2 (12 * length queue)"
    using idle_loop_run[OF u(1) t(2)] by blast
  have su: "rr_pending_communities u = queue" "rr_bandersnatch_keys u = ?ks" "rr_pending_ceremony_index u = ?ci"
    using u(3) t(4,5,6) by (simp_all add: same_inputs_def)
  obtain cons' s' where s': "idle_loop c ce cons2 w2 u = Some (cons', s')" "rr_pending_communities s' = []"
    "rr_pending_ring_computation s' = None" "rr_bandersnatch_keys s' = ?ks"
    "\<And>d. d \<in> set queue \<or> rings_published c ce ?ks (d, ?ci) u \<Longrightarrow> rings_published c ce ?ks (d, ?ci) s'"
    using Cons.hyps(1)[of u w2 cons2] u(2) l(2) Cons.prems(3,4,5,6) unfolding su by auto
  have keep: "rings_published c ce ?ks (d, ?ci) u" if "d = cid \<or> rings_published c ce ?ks (d, ?ci) s" for d
  proof (cases "d = cid")
    case False
    then have "rings_published c ce ?ks (d, ?ci) t" using that t(7)
      by (simp add: same_rings_def rings_published_def published_def)
    then show ?thesis using published_kept[OF u(4)] False by blast
  qed (use u(5) in simp)
  show ?case
    unfolding t(1) l(1) s'(1) Cons.hyps(2)[symmetric] using s'(2-4) s'(5) keep by auto
qed

section \<open>The stored rings\<close>

definition state_ok :: "RingComputationState \<Rightarrow> bool" where
  "state_ok st \<longleftrightarrow> distinct (map fst (rs_attendance st)) \<and>
     (case rs_phase st of
        CollectingMembers k \<Rightarrow> k \<le> 5 \<and> (\<forall>a n. map_of (rs_attendance st) a = Some n \<longrightarrow> n \<le> k)
      | BuildingRing l \<Rightarrow> 0 < l \<and> l \<le> 5 \<and> sorted (map fst (rs_attendance st)) \<and>
          (\<forall>a n. map_of (rs_attendance st) a = Some n \<longrightarrow> n \<le> 5)
      | Done \<Rightarrow> False)"

definition stored_ok :: "rings_config \<Rightarrow> rings \<Rightarrow> bool" where
  "stored_ok c s \<longleftrightarrow> distinct (map fst (rr_bandersnatch_keys s)) \<and>
     (\<forall>cc l i r. rr_ring_members s cc (l, i) = Some r \<longrightarrow> length r \<le> rk_max_ring_size c \<and> 0 < l \<and> l \<le> 5) \<and>
     (\<forall>cc l n. rr_sub_ring_count s cc l = Some n \<longrightarrow> 0 < n \<and> (\<forall>i<n. rr_ring_members s cc (l, i) \<noteq> None))"

definition rings_ok :: "rings_config \<Rightarrow> rings \<Rightarrow> bool" where
  "rings_ok c s \<longleftrightarrow> stored_ok c s \<and> (\<forall>st. rr_pending_ring_computation s = Some st \<longrightarrow> state_ok st)"

lemma stored_ok_cong:
  "rr_bandersnatch_keys s' = rr_bandersnatch_keys s \<Longrightarrow> rr_ring_members s' = rr_ring_members s \<Longrightarrow>
   rr_sub_ring_count s' = rr_sub_ring_count s \<Longrightarrow> stored_ok c s' \<longleftrightarrow> stored_ok c s"
  by (simp add: stored_ok_def)

lemma publish_cases:
  assumes "publish_sub_rings c st l ms len n is s = (r, s')"
  shows "rr_ring_members s' cc k = rr_ring_members s cc k \<or>
      (cc = (rs_community st, rs_ceremony_index st) \<and> fst k = l \<and>
       (\<exists>m. rr_ring_members s' cc k = Some m \<and> length m \<le> rk_max_ring_size c))" (is ?A)
    and "r = Inr () \<Longrightarrow> i \<in> set is \<Longrightarrow> rr_ring_members s' (rs_community st, rs_ceremony_index st) (l, i) \<noteq> None"
proof -
  let ?own = "(rs_community st, rs_ceremony_index st)"
  have "(\<forall>cc k. rr_ring_members s' cc k = rr_ring_members s cc k \<or>
      (cc = ?own \<and> fst k = l \<and> (\<exists>m. rr_ring_members s' cc k = Some m \<and> length m \<le> rk_max_ring_size c))) \<and>
    (r = Inr () \<longrightarrow> (\<forall>i \<in> set is. rr_ring_members s' ?own (l, i) \<noteq> None))"
    using assms
  proof (induction "is" arbitrary: s)
    case Nil
    then show ?case by simp
  next
    case (Cons j js)
    define start where "start = wrapping_mul usize_bits j len div n"
    define stop where "stop = wrapping_mul usize_bits (wrapping_add usize_bits j 1) len div n"
    define chunk where "chunk = take (stop - start) (drop start ms)"
    define e where "e = rr_deposit_event
        (RingPublished (rs_community st) (rs_ceremony_index st) l j (as_unsigned 32 (length chunk)))
        (s\<lparr>rr_ring_members := dm_insert ?own (l, j) chunk (rr_ring_members s)\<rparr>)"
    have step: "publish_sub_rings c st l ms len n (j # js) s =
        (if stop < start \<or> length ms < stop then (Inl RingsPanic, s)
         else if rk_max_ring_size c < length chunk then (Inl RingTooLarge, s)
         else publish_sub_rings c st l ms len n js e)"
      by (simp add: start_def stop_def chunk_def e_def Let_def)
    show ?case
    proof (cases "stop < start \<or> length ms < stop \<or> rk_max_ring_size c < length chunk")
      case True
      then show ?thesis using Cons.prems unfolding step by (auto split: if_splits)
    next
      case False
      then have p: "publish_sub_rings c st l ms len n js e = (r, s')" using Cons.prems unfolding step by simp
      have e: "rr_ring_members e cc k = (if cc = ?own \<and> k = (l, j) then Some chunk else rr_ring_members s cc k)" for cc k
        by (simp add: e_def rr_deposit_event_def dm_insert_apply)
      have IH: "\<And>cc k. rr_ring_members s' cc k = rr_ring_members e cc k \<or>
          (cc = ?own \<and> fst k = l \<and> (\<exists>m. rr_ring_members s' cc k = Some m \<and> length m \<le> rk_max_ring_size c))"
        "r = Inr () \<Longrightarrow> \<forall>i \<in> set js. rr_ring_members s' ?own (l, i) \<noteq> None"
        using Cons.IH[OF p] by blast+
      have len: "length chunk \<le> rk_max_ring_size c" using False by simp
      have "rr_ring_members s' cc k = rr_ring_members s cc k \<or>
          (cc = ?own \<and> fst k = l \<and> (\<exists>m. rr_ring_members s' cc k = Some m \<and> length m \<le> rk_max_ring_size c))" for cc k
        using IH(1)[of cc k] len unfolding e by (auto split: if_splits)
      moreover have "rr_ring_members s' ?own (l, j) \<noteq> None"
        using IH(1)[of ?own "(l, j)"] unfolding e by auto
      ultimately show ?thesis using IH(2) by simp
    qed
  qed
  then show ?A and "r = Inr () \<Longrightarrow> i \<in> set is \<Longrightarrow> rr_ring_members s' ?own (l, i) \<noteq> None" by blast+
qed

lemma publish_stored_ok:
  assumes "publish_sub_rings c st l ms len n is s = (r, s')" and "stored_ok c s" and "0 < l" and "l \<le> 5"
  shows "stored_ok c s'"
proof -
  note fr = publish_frame[OF assms(1)] and pc = publish_cases(1)[OF assms(1)]
  have "length m \<le> rk_max_ring_size c \<and> 0 < l' \<and> l' \<le> 5" if "rr_ring_members s' cc (l', i) = Some m" for cc l' i m
  proof -
    have "rr_ring_members s cc (l', i) = Some m \<Longrightarrow> length m \<le> rk_max_ring_size c \<and> 0 < l' \<and> l' \<le> 5"
      using assms(2) unfolding stored_ok_def by blast
    then show ?thesis using pc[of cc "(l', i)"] that assms(3,4) by auto
  qed
  moreover have "rr_ring_members s' cc (l', i) \<noteq> None" if "rr_ring_members s cc (l', i) \<noteq> None" for cc l' i
    using pc[of cc "(l', i)"] that by auto
  ultimately show ?thesis using assms(2) unfolding stored_ok_def fr(2,4) by blast
qed

lemma build_stored_ok:
  assumes "build_ring_step c st l s = (r, s')" and "stored_ok c s" and "0 < l" and "l \<le> 5"
  shows "stored_ok c s'"
proof -
  let ?cc = "(rs_community st, rs_ceremony_index st)" and ?ms = "sort (ring_candidates st l s)"
  let ?t = "as_unsigned 32 (length (sort (ring_candidates st l s)))"
  consider "s' = s" | (pub) n q t where "publish_sub_rings c st l ?ms ?t n [0..<n] s = (q, t)"
      "(if ?t \<le> rk_max_ring_size c then Some 1 else div_ceil ?t (rk_max_ring_size c)) = Some n"
      "s' = (case q of Inl _ \<Rightarrow> t | Inr _ \<Rightarrow> t\<lparr>rr_sub_ring_count := dm_insert ?cc l n (rr_sub_ring_count t)\<rparr>)"
    using assms(1,3) unfolding build_ring_step_def Let_def
    by (auto split: option.splits prod.splits sum.splits)
  then show ?thesis
  proof cases
    case pub
    have t: "stored_ok c t" by (rule publish_stored_ok[OF pub(1) assms(2-4)])
    have n: "0 < n" using pub(2) by (auto simp: div_ceil_def div_greater_zero_iff split: if_splits)
    show ?thesis
    proof (cases q)
      case (Inr u)
      have ex: "rr_ring_members t ?cc (l, i) \<noteq> None" if "i < n" for i
        using publish_cases(2)[OF pub(1), of i] Inr that by simp
      have s': "s' = t\<lparr>rr_sub_ring_count := dm_insert ?cc l n (rr_sub_ring_count t)\<rparr>" using pub(3) Inr by simp
      show ?thesis using t n ex unfolding stored_ok_def s'
        by (auto simp: dm_insert_apply simp del: not_None_eq split: if_splits)
    qed (use pub(3) t in simp)
  qed (use assms(2) in simp)
qed

lemma map_of_bound: "(\<forall>a n. map_of xs a = Some n \<longrightarrow> n \<le> k) \<Longrightarrow> value_query 0 (map_of xs a) \<le> (k :: nat)"
  by (cases "map_of xs a") auto

lemma process_step_ok:
  assumes "process_computation_step c ce st s = (r, s')" and "stored_ok c s" and "state_ok st" and "lawful_key_order c"
  shows "stored_ok c s'" and "r = Inr st' \<Longrightarrow> rs_phase st' \<noteq> Done \<Longrightarrow> state_ok st'"
proof -
  have "stored_ok c s' \<and> (\<forall>st'. r = Inr st' \<longrightarrow> rs_phase st' \<noteq> Done \<longrightarrow> state_ok st')"
  proof (cases "rs_phase st")
    case (CollectingMembers k)
    define as where "as = rk_iteration c (map fst (rr_bandersnatch_keys s))"
    have "mset as = mset (map fst (rr_bandersnatch_keys s))" using assms(4) by (simp add: lawful_key_order_def as_def)
    then have das: "distinct as" using assms(2) mset_eq_imp_distinct_iff unfolding stored_ok_def by blast
    have d: "distinct (map fst (rs_attendance st))" and k: "k \<le> 5"
      and b: "\<forall>a n. map_of (rs_attendance st) a = Some n \<longrightarrow> n \<le> k"
      using assms(3) by (simp_all add: state_ok_def CollectingMembers)
    define att where "att = foldl (\<lambda>att a. if is_verified (participant_reputation ce (rs_community st, rs_ceremony_index st - k) a)
        then count_attendance a att else att) (rs_attendance st) as"
    note cf = count_fold[OF das d, where v = "\<lambda>a. is_verified (participant_reputation ce (rs_community st, rs_ceremony_index st - k) a)", folded att_def]
    have "n \<le> Suc k" if "map_of att a = Some n" for a n
      using that cf(2)[of a] b map_of_bound[OF b, of a] by (fastforce simp: saturating_add_def split: if_splits)
    then have scanned: "state_ok (st\<lparr>rs_attendance := att, rs_phase := CollectingMembers (Suc k)\<rparr>)" if "k < 5"
      using that cf(1) by (simp add: state_ok_def)
    have skipped: "state_ok (st\<lparr>rs_phase := CollectingMembers (Suc k)\<rparr>)" if "k < 5"
      using that d b by (auto simp: state_ok_def intro: le_SucI)
    have same: "mset (map fst (sort_key fst (rs_attendance st))) = mset (map fst (rs_attendance st))"
      by (simp only: mset_map mset_sort)
    have dsort: "distinct (map fst (sort_key fst (rs_attendance st)))" using d mset_eq_imp_distinct_iff[OF same] by simp
    then have "map_of (sort_key fst (rs_attendance st)) = map_of (rs_attendance st)"
      using d by (subst map_of_inject_set) simp_all
    then have sorted: "state_ok (st\<lparr>rs_attendance := sort_key fst (rs_attendance st), rs_phase := BuildingRing 5\<rparr>)"
      using dsort b k by (auto simp: state_ok_def intro: order_trans)
    have "stored_ok c s'"
      using assms(1,2) CollectingMembers stored_ok_cong[of s' s c]
      by (auto simp: process_computation_step_def collect_members_step_def Let_def rr_deposit_event_def split: if_splits)
    moreover have "state_ok st'" if "r = Inr st'" for st'
      using assms(1) CollectingMembers that k scanned skipped sorted
      by (auto simp: process_computation_step_def collect_members_step_def MAX_REPUTATION_LEVELS_def saturating_sub_def Let_def
          att_def as_def split: if_splits)
    ultimately show ?thesis by blast
  next
    case (BuildingRing l)
    then have st: "0 < l" "l \<le> 5" "distinct (map fst (rs_attendance st))" "sorted (map fst (rs_attendance st))"
      "\<forall>a n. map_of (rs_attendance st) a = Some n \<longrightarrow> n \<le> 5" using assms(3) by (simp_all add: state_ok_def)
    have b: "build_ring_step c st l s = (r, s')" using assms(1) BuildingRing by (simp add: process_computation_step_def)
    have "st' = st\<lparr>rs_phase := (if l = 1 then Done else BuildingRing (l - 1))\<rparr>" if "r = Inr st'" for st'
      using b that st(1) by (auto simp: build_ring_step_def Let_def split: option.splits prod.splits sum.splits)
    then show ?thesis using build_stored_ok[OF b assms(2) st(1,2)] st by (auto simp: state_ok_def)
  qed (use assms(3) in \<open>simp add: state_ok_def\<close>)
  then show "stored_ok c s'" "r = Inr st' \<Longrightarrow> rs_phase st' \<noteq> Done \<Longrightarrow> state_ok st'" by auto
qed

lemma finish_ok:
  assumes "process_computation_step c ce st s = (Inr st', t)" and "rings_ok c s" and "lawful_key_order c" and "state_ok st"
  shows "rings_ok c (if rs_phase st' = Done
      then (rr_deposit_event (RingComputationCompleted cid ci) t)\<lparr>rr_pending_ring_computation := None\<rparr>
      else t\<lparr>rr_pending_ring_computation := Some st'\<rparr>)" (is "rings_ok c ?u")
proof -
  have s: "stored_ok c s" using assms(2) by (simp add: rings_ok_def)
  note ok = process_step_ok[OF assms(1) s assms(4,3)]
  have "stored_ok c ?u = stored_ok c t" by (rule stored_ok_cong) (simp_all add: rr_deposit_event_def)
  then show ?thesis using ok by (simp add: rings_ok_def)
qed

lemma continue_ok:
  assumes "continue_ring_computation c ce s = Inr s'" and "rings_ok c s" and "lawful_key_order c"
  shows "rings_ok c s'"
proof -
  obtain st st' t where p: "rr_pending_ring_computation s = Some st" "process_computation_step c ce st s = (Inr st', t)"
    "s' = (if rs_phase st' = Done
      then (rr_deposit_event (RingComputationCompleted (rs_community st') (rs_ceremony_index st')) t)
             \<lparr>rr_pending_ring_computation := None\<rparr>
      else t\<lparr>rr_pending_ring_computation := Some st'\<rparr>)"
  proof -
    obtain st where st: "rr_pending_ring_computation s = Some st" "rs_phase st \<noteq> Done"
      using assms(1) by (auto simp: continue_ring_computation_def res_simps)
    obtain r t where p: "process_computation_step c ce st s = (r, t)" by fastforce
    show thesis using assms(1) st p that[of st _ t]
      by (cases r) (auto simp: continue_ring_computation_def res_simps)
  qed
  then show ?thesis using finish_ok[OF p(2) assms(2,3)] assms(2) by (simp add: rings_ok_def)
qed

lemma idle_iteration_ok:
  assumes "idle_iteration c ce w s = Next cost s'" and "rings_ok c s" and "lawful_key_order c"
  shows "rings_ok c s'" and "rr_bandersnatch_keys s' = rr_bandersnatch_keys s"
proof -
  have s: "stored_ok c s" using assms(2) by (simp add: rings_ok_def)
  have "rings_ok c s' \<and> rr_bandersnatch_keys s' = rr_bandersnatch_keys s"
  proof (cases "rr_pending_ring_computation s")
    case None
    then show ?thesis using assms(1) s
      by (auto simp: idle_iteration_def rings_ok_def stored_ok_def state_ok_def fresh_computation_def rr_deposit_event_def Let_def
          split: if_splits list.splits)
  next
    case (Some st)
    then have st: "state_ok st" "rs_phase st \<noteq> Done" using assms(2) by (auto simp: rings_ok_def state_ok_def split: RingComputationPhase.splits)
    obtain r t where p: "process_computation_step c ce st s = (r, t)" by fastforce
    note fr = process_step_frame[OF p] and ok = process_step_ok(1)[OF p s st(1) assms(3)]
    show ?thesis
    proof (cases r)
      case (Inl e)
      then have "s' = t\<lparr>rr_pending_ring_computation := None\<rparr>" using assms(1) Some st(2) p
        by (auto simp: idle_iteration_def Let_def split: if_splits)
      then show ?thesis using ok fr stored_ok_cong[of s' t c] by (simp add: rings_ok_def)
    next
      case (Inr st')
      have "s' = (if rs_phase st' = Done
          then (rr_deposit_event (RingComputationCompleted (rs_community st') (rs_ceremony_index st')) t)
                 \<lparr>rr_pending_ring_computation := None\<rparr>
          else t\<lparr>rr_pending_ring_computation := Some st'\<rparr>)"
        using assms(1) Some st(2) p Inr by (simp add: idle_iteration_def Let_def split: if_splits)
      then show ?thesis using finish_ok[OF p[unfolded Inr] assms(2,3) st(1)] fr by (simp add: rr_deposit_event_def)
    qed
  qed
  then show "rings_ok c s'" "rr_bandersnatch_keys s' = rr_bandersnatch_keys s" by simp_all
qed

lemma idle_loop_ok:
  assumes "idle_loop c ce cons w s = Some (cons', s')" and "rings_ok c s" and "lawful_key_order c"
  shows "rings_ok c s'"
  using assms
proof (induction c ce cons w s rule: idle_loop.induct)
  case (1 c ce cons w s)
  show ?case
  proof (cases "idle_iteration c ce w s")
    case (Next cost t)
    with "1.prems"(1) have "idle_loop c ce (weight_add cons cost) (weight_sub w cost) t = Some (cons', s')"
      by (simp add: idle_loop.simps[of c ce cons w s])
    then show ?thesis using "1.IH"[OF Next] idle_iteration_ok(1)[OF Next "1.prems"(2,3)] "1.prems"(3) by blast
  qed (use "1.prems" in \<open>auto simp: idle_loop.simps[of c ce cons w s]\<close>)
qed

text \<open>Members of a ring have a key each, so there are at most as many as keys.\<close>

lemma length_map_filter_dom:
  assumes "distinct (map fst xs)" and "\<And>x. f x \<noteq> None \<Longrightarrow> fst x \<in> A" and "finite A"
  shows "length (List.map_filter f xs) \<le> card A"
proof -
  let ?ys = "map fst (filter (\<lambda>x. f x \<noteq> None) xs)"
  have "length (List.map_filter f xs) = length ?ys" by (simp add: List.map_filter_def)
  also have "\<dots> = card (set ?ys)" using assms(1) by (intro distinct_card[symmetric] distinct_map_filter)
  also have "\<dots> \<le> card A" using assms(2,3) by (intro card_mono) auto
  finally show ?thesis .
qed

lemma length_ring_candidates:
  assumes "state_ok st" and "stored_ok c s"
  shows "length (ring_candidates st l s) \<le> length (rr_bandersnatch_keys s)"
proof -
  have "length (ring_candidates st l s) \<le> card (fst ` set (rr_bandersnatch_keys s))"
    unfolding ring_candidates_def
    by (rule length_map_filter_dom)
       (use assms(1) in \<open>auto simp: state_ok_def intro: rev_image_eqI dest!: map_of_SomeD split: if_splits\<close>)
  also have "\<dots> = length (rr_bandersnatch_keys s)"
    using assms(2) distinct_card[of "map fst (rr_bandersnatch_keys s)"] by (simp add: stored_ok_def)
  finally show ?thesis .
qed

lemma process_step_total:
  assumes "state_ok st" and "stored_ok c s" and "splittable c (length (rr_bandersnatch_keys s))"
  shows "\<exists>st' s'. process_computation_step c ce st s = (Inr st', s')"
proof (cases "rs_phase st")
  case (BuildingRing l)
  then have "0 < l" using assms(1) by (simp add: state_ok_def)
  moreover have "splittable c (length (sort (ring_candidates st l s)))"
    using splittable_mono[OF assms(3)] length_ring_candidates[OF assms(1,2)] by simp
  ultimately obtain s' where "build_ring_step c st l s =
      (Inr (st\<lparr>rs_phase := (if l = 1 then Done else BuildingRing (l - 1))\<rparr>), s')"
    by (rule build_ring_step_ok)
  then show ?thesis using BuildingRing by (simp add: process_computation_step_def)
qed (auto simp: process_computation_step_def split: prod.splits)

lemma idle_loop_total:
  assumes "rings_ok c s" and "lawful_key_order c" and "splittable c (length (rr_bandersnatch_keys s))"
  shows "\<exists>cons' s'. idle_loop c ce cons w s = Some (cons', s')"
  using assms
proof (induction c ce cons w s rule: idle_loop.induct)
  case (1 c ce cons w s)
  show ?case
  proof (cases "idle_iteration c ce w s")
    case (Next cost t)
    then show ?thesis
      using "1.IH"[OF Next] idle_iteration_ok[OF Next "1.prems"(1,2)] "1.prems"(2,3)
      by (simp add: idle_loop.simps[of c ce cons w s])
  next
    case Panicked
    then obtain st where "rr_pending_ring_computation s = Some st" "fst (process_computation_step c ce st s) = Inl RingsPanic"
      by (auto simp: idle_iteration_def Let_def split: if_splits option.splits prod.splits sum.splits list.splits)
    moreover have "state_ok st" "stored_ok c s" using "1.prems"(1) \<open>rr_pending_ring_computation s = Some st\<close>
      by (simp_all add: rings_ok_def)
    ultimately show ?thesis using process_step_total[of st c s ce] "1.prems"(3) by auto
  qed (simp add: idle_loop.simps[of c ce cons w s])
qed

lemma rings_on_phase_change_ok:
  assumes "rings_ok c s"
  shows "rings_ok c (rings_on_phase_change sch cm ce ph s)"
proof (cases ph)
  case Registering
  have "rings_ok c (foldl (\<lambda>s cid. purge_community_ceremony_rings cid j s) s cids)" for j cids
    by (rule foldl_invariant[where P = "rings_ok c", OF _ assms])
       (auto simp: rings_ok_def stored_ok_def purge_community_ceremony_rings_def dm_remove_prefix_apply split: if_splits)
  then show ?thesis using assms Registering
    by (auto simp: rings_on_phase_change_def purge_rings_def rings_ok_def stored_ok_def rr_deposit_event_def Let_def)
next
  case Assigning
  then show ?thesis using assms
    by (auto simp: rings_on_phase_change_def rings_ok_def stored_ok_def rr_deposit_event_def Let_def)
qed (use assms in \<open>simp add: rings_on_phase_change_def\<close>)

lemma rings_step_ok:
  assumes "rings_step c s s'" and "rings_ok c s" and "lawful_key_order c"
  shows "rings_ok c s'"
  using assms
proof (cases rule: rings_step.cases)
  case (register who key)
  then show ?thesis using assms(2)
    by (simp add: register_bandersnatch_key_def rings_ok_def stored_ok_def rr_deposit_event_def distinct_update)
next
  case (initiate sch cm cid cindex)
  then show ?thesis using assms(2)
    by (auto simp: initiate_rings_def res_simps rings_ok_def stored_ok_def state_ok_def fresh_computation_def rr_deposit_event_def)
next
  case (continue ce)
  then show ?thesis using continue_ok assms(2,3) by blast
next
  case (idle ce weight consumed)
  then show ?thesis using idle_loop_ok assms(2,3) unfolding on_idle_def by blast
next
  case (phase_change sch cm ce new_phase)
  then show ?thesis using rings_on_phase_change_ok assms(2) by simp
qed

lemma genesis_rings_ok: "rings_ok c rings_genesis"
  by (simp add: rings_ok_def stored_ok_def rings_genesis_def)

lemma rings_reachable_ok:
  assumes "(rings_step c)\<^sup>*\<^sup>* rings_genesis s" and "lawful_key_order c"
  shows "rings_ok c s"
  using assms(1) by (induction rule: rtranclp_induct) (auto intro: genesis_rings_ok rings_step_ok[OF _ _ assms(2)])

end
