(* ===== verification/Ring_Properties.thy ===== *)
theory Ring_Properties
  imports Ring_Invariants
begin

text \<open>
  The properties of the reputation rings pallet: the sub-rings of a level are an even partition of its
  sorted members, a computation publishes exactly the accounts with enough attendances, a phase change
  and an idle block publish the rings of all communities, the hook ends within its weight, what is
  stored is well formed, and what happens when the split overflows.
\<close>

section \<open>A small electorate of keys\<close>

definition small_rings :: rings_config where
  "small_rings = \<lparr>rk_max_ring_size = 2, rk_collect_weight = (10, 0), rk_build_weight = (20, 0),
     rk_db_overhead = (5, 0), rk_iteration = rev\<rparr>"

definition some_attendances :: ceremonies where
  "some_attendances =
     put_reputation (demo_cid, 3) 11 (VerifiedLinked 4) (put_reputation (demo_cid, 4) 11 VerifiedUnlinked
       (put_reputation (demo_cid, 4) 12 VerifiedUnlinked (put_reputation (demo_cid, 4) 13 VerifiedUnlinked
         (put_reputation (demo_cid, 4) 14 UnverifiedReputable (ceremonies_genesis 1000 0 0 5 3 2 5 0)))))"

definition some_keys :: "(AccountId \<times> BandersnatchPublicKey) list" where
  "some_keys = [(11, [9]), (12, [8]), (13, [7]), (14, [6])]"

definition keyed_rings :: rings where
  "keyed_rings = rings_genesis\<lparr>rr_bandersnatch_keys := some_keys\<rparr>"

lemma small_rings_facts:
  "lawful_key_order small_rings" "weights_typed small_rings" "splittable small_rings 4"
  "step_budget small_rings = (25, 0)" "rk_max_ring_size small_rings = 2"
  by (simp_all add: small_rings_def lawful_key_order_def weights_typed_def splittable_def step_budget_def single_step_weight_def
      weight_add_def weight_max_def saturating_add_def)

lemma some_attended:
  "attended some_attendances demo_cid 4 5 11 = 2" "attended some_attendances demo_cid 4 5 12 = 1"
  "attended some_attendances demo_cid 4 5 13 = 1" "attended some_attendances demo_cid 4 5 14 = 0"
  by (simp_all add: attended_def some_attendances_def put_reputation_def participant_reputation_def dm_insert_apply
      ceremonies_genesis_def upt_rec)

lemma some_eligible:
  "sort (eligible_keys some_attendances some_keys demo_cid 4 1) = [[7], [8], [9]]"
  "sort (eligible_keys some_attendances some_keys demo_cid 4 2) = [[9]]"
  "sort (eligible_keys some_attendances some_keys demo_cid 4 3) = []"
  by (simp_all add: eligible_keys_def some_keys_def some_attended del: One_nat_def)

lemma keyed_rings_facts:
  "rr_bandersnatch_keys keyed_rings = some_keys" "length some_keys = 4" "distinct (map fst some_keys)"
  "rr_pending_ring_computation keyed_rings = None" "rr_pending_communities keyed_rings = []"
  by (simp_all add: keyed_rings_def some_keys_def rings_genesis_def)

section \<open>Properties\<close>

fun continue_calls :: "rings_config \<Rightarrow> ceremonies \<Rightarrow> nat \<Rightarrow> rings \<Rightarrow> rings_error + rings" where
  "continue_calls c ce 0 s = Inr s"
| "continue_calls c ce (Suc k) s = bind_res (continue_ring_computation c ce s) (continue_calls c ce k)"

lemma advance_continue_calls: "advance_n c ce k s = Some t \<Longrightarrow> continue_calls c ce k s = Inr t"
  by (induction k arbitrary: s) (auto simp: continue_advance split: option.splits)

lemma rings_published_keys:
  "rings_published c ce ks (cid, ci) s \<Longrightarrow> 0 < rk_max_ring_size c \<Longrightarrow> 0 < l \<Longrightarrow> l \<le> 5 \<Longrightarrow>
   ring_keys s (cid, ci) l = sort (eligible_keys ce ks cid ci l)"
  using published_ring_keys by (auto simp: rings_published_def)

text \<open>The first slice whose bound wraps around is out of order.\<close>

lemma overflowing_publish:
  assumes "length ms \<le> n * rk_max_ring_size c" and "length ms < 2 ^ 31" and "n \<le> length ms + 1" and "2 ^ 32 \<le> n * length ms"
  shows "\<exists>s'. publish_sub_rings c st l ms (length ms) n [0..<n] s = (Inl RingsPanic, s')"
proof -
  let ?t = "length ms"
  have n0: "0 < n" using assms(4) by (cases n) auto
  define i where "i = (LEAST i. 2 ^ 32 \<le> (i + 1) * ?t)"
  have "2 ^ 32 \<le> (n - 1 + 1) * ?t" using assms(4) n0 by simp
  then have i: "2 ^ 32 \<le> (i + 1) * ?t" "i \<le> n - 1" unfolding i_def by (rule LeastI, rule Least_le)
  have small: "(j + 1) * ?t < 2 ^ 32" if "j < i" for j
    using not_less_Least[of j "\<lambda>i. 2 ^ 32 \<le> (i + 1) * ?t"] that unfolding i_def by linarith
  have it: "i * ?t < 2 ^ 32"
  proof (cases i)
    case (Suc j)
    then show ?thesis using small[of j] by simp
  qed simp
  have "\<exists>s'. publish_sub_rings c st l ms ?t n [j..<n] s = (Inl RingsPanic, s')" if "j \<le> i" for j s
    using that
  proof (induction "i - j" arbitrary: j s)
    case 0
    then have j: "j = i" by simp
    have up: "[i..<n] = i # [Suc i..<n]" using i(2) n0 by (simp add: upt_conv_Cons)
    have e: "(i + 1) * ?t = i * ?t + ?t" by simp
    then have lt: "(i + 1) * ?t < 2 * 2 ^ 32" using it assms(2) by simp
    have "wrapping_mul usize_bits (i + 1) ?t = (i + 1) * ?t - 2 ^ 32"
      using i(1) lt unfolding wrapping_mul_def by (subst le_mod_geq) simp_all
    moreover have "(i + 1) * ?t - 2 ^ 32 + n \<le> i * ?t" unfolding e using assms(2,3) i(1) e by simp
    then have "((i + 1) * ?t - 2 ^ 32 + n) div n \<le> i * ?t div n" by (rule div_le_mono)
    then have "((i + 1) * ?t - 2 ^ 32) div n < i * ?t div n"
      using n0 div_add_self2[of n "(i + 1) * ?t - 2 ^ 32"] by linarith
    moreover have "i + 1 < 2 ^ 32" using i(2) assms(2,3) n0 by simp
    then have "wrapping_add usize_bits i 1 = i + 1" by (simp add: wrapping_add_def)
    moreover have "wrapping_mul usize_bits i ?t = i * ?t" using it by (simp add: wrapping_mul_def)
    ultimately show ?case unfolding j up publish_sub_rings.simps Let_def by simp
  next
    case (Suc d)
    then have j: "j < i" "j < n" using i(2) n0 by linarith+
    have up: "[j..<n] = j # [Suc j..<n]" using j(2) by (simp add: upt_conv_Cons)
    have "j * ?t \<le> (j + 1) * ?t" by simp
    then have w: "wrapping_mul usize_bits j ?t = j * ?t" "wrapping_mul usize_bits (j + 1) ?t = (j + 1) * ?t"
      "wrapping_add usize_bits j 1 = j + 1"
      using small[OF j(1)] j i(2) assms(2,3) by (simp_all add: wrapping_mul_def wrapping_add_def)
    have cb: "j * ?t div n \<le> (j + 1) * ?t div n" "(j + 1) * ?t div n \<le> ?t"
      "(j + 1) * ?t div n - j * ?t div n \<le> rk_max_ring_size c"
      using chunk_bounds(1,5)[OF n0, of ?t ?t j] chunk_bounds(2)[OF n0 assms(1), of j] j(2) n0 by simp_all
    then have len: "length (take ((j + 1) * ?t div n - j * ?t div n) (drop (j * ?t div n) ms)) \<le> rk_max_ring_size c" by simp
    have "d = i - Suc j" "Suc j \<le> i" using Suc.hyps(2) j(1) by simp_all
    note IH = Suc.hyps(1)[OF this]
    show ?case unfolding up publish_sub_rings.simps w Let_def using cb len IH by (simp add: not_less)
  qed
  from this[of 0 s] show ?thesis by simp
qed

lemma publish_errors:
  "publish_sub_rings c st l ms len n is s = (Inl e, s') \<Longrightarrow> e = RingsPanic \<or> e = RingTooLarge"
  by (induction c st l ms len n "is" s rule: publish_sub_rings.induct) (auto simp: Let_def split: if_splits)

lemma process_step_errors:
  "process_computation_step c ce st s = (Inl e, s') \<Longrightarrow> e = RingsPanic \<or> e = RingTooLarge"
  by (auto simp: process_computation_step_def build_ring_step_def Let_def dest: publish_errors
      split: RingComputationPhase.splits prod.splits if_splits option.splits sum.splits)

text \<open>C7: A ring computation is complete and exact. Eleven calls of \<open>continue_ring_computation\<close> after it was
  started, over reputations and keys that do not change meanwhile, end it; then the N/5 ring is the sorted list of the keys
  of exactly those accounts that have verified reputation in at least N of the last five ceremonies, whatever the order of
  the key iteration; the rings are nested, and no other community's or ceremony's rings have changed.\<close>

theorem ring_computation_exact:
  assumes "rr_pending_ring_computation s = Some (fresh_computation cid ci)" and "lawful_key_order c"
    and "distinct (map fst (rr_bandersnatch_keys s))" and "splittable c (length (rr_bandersnatch_keys s))"
  shows "\<exists>s'. continue_calls c ce 11 s = Inr s' \<and> rr_pending_ring_computation s' = None \<and>
    (\<forall>l. 0 < l \<and> l \<le> 5 \<longrightarrow> ring_keys s' (cid, ci) l =
       sort (map snd (filter (\<lambda>(a, k). l \<le> attended ce cid ci 5 a) (rr_bandersnatch_keys s)))) \<and>
    (\<forall>l. 0 < l \<and> l < 5 \<longrightarrow> mset (ring_keys s' (cid, ci) (Suc l)) \<subseteq># mset (ring_keys s' (cid, ci) l)) \<and>
    (\<forall>cc. cc \<noteq> (cid, ci) \<longrightarrow> rr_ring_members s' cc = rr_ring_members s cc \<and> rr_sub_ring_count s' cc = rr_sub_ring_count s cc)"
proof -
  obtain s' where s': "advance_n c ce 11 s = Some s'" "rr_pending_ring_computation s' = None"
    "other_communities_kept (cid, ci) s s'" "rings_published c ce (rr_bandersnatch_keys s) (cid, ci) s'"
    using computation_run[OF assms] by blast
  have max: "0 < rk_max_ring_size c" using assms(4) by (simp add: splittable_def)
  note keys = rings_published_keys[OF s'(4) max]
  have "mset (ring_keys s' (cid, ci) (Suc l)) \<subseteq># mset (ring_keys s' (cid, ci) l)" if "0 < l" "l < 5" for l
    using that keys[of l] keys[of "Suc l"] eligible_nested[of l "Suc l" ce "rr_bandersnatch_keys s" cid ci] by simp
  then show ?thesis
    using s'(2,3) keys advance_continue_calls[OF s'(1)] unfolding other_communities_kept_def eligible_keys_def
    by (intro exI[of _ s']) blast
qed

theorem ring_computation_exact_witness:
  "\<exists>s'. continue_calls small_rings some_attendances 11
       (keyed_rings\<lparr>rr_pending_ring_computation := Some (fresh_computation demo_cid 4)\<rparr>) = Inr s' \<and>
     ring_keys s' (demo_cid, 4) 1 = [[7], [8], [9]] \<and> ring_keys s' (demo_cid, 4) 2 = [[9]] \<and>
     ring_keys s' (demo_cid, 4) 3 = []"
proof -
  let ?s = "keyed_rings\<lparr>rr_pending_ring_computation := Some (fresh_computation demo_cid 4)\<rparr>"
  obtain s' where s': "continue_calls small_rings some_attendances 11 ?s = Inr s'"
    "\<And>l. 0 < l \<Longrightarrow> l \<le> 5 \<Longrightarrow> ring_keys s' (demo_cid, 4) l = sort (eligible_keys some_attendances some_keys demo_cid 4 l)"
    using ring_computation_exact[of ?s demo_cid 4 small_rings some_attendances] small_rings_facts keyed_rings_facts
    by (auto simp: eligible_keys_def)
  then show ?thesis using some_eligible by (intro exI[of _ s']) simp
qed

text \<open>C18: The rings are published without anyone's help. When the registering phase ends while no batch is
  queued and no computation is running, the pallet queues all communities for the ceremony just completed, and an idle hook
  that can afford twelve steps per community computes and publishes the exact rings of every one of them, leaving an empty
  queue.\<close>

theorem assigning_publishes_rings:
  assumes "rr_pending_communities s = []" and "rr_pending_ring_computation s = None" and "1 < sc_ceremony_index sch"
    and "affords c w (12 * length (cm_community_identifiers cm))" and "cid \<in> set (cm_community_identifiers cm)"
    and "weights_typed c" and "lawful_key_order c"
    and "distinct (map fst (rr_bandersnatch_keys s))" and "splittable c (length (rr_bandersnatch_keys s))"
  shows "\<exists>used s'. on_idle c ce w (rings_on_phase_change sch cm ce0 Assigning s) = Some (used, s') \<and>
    rr_pending_communities s' = [] \<and> rr_pending_ring_computation s' = None \<and>
    (\<forall>l. 0 < l \<and> l \<le> 5 \<longrightarrow> ring_keys s' (cid, sc_ceremony_index sch - 1) l =
       sort (map snd (filter (\<lambda>(a, k). l \<le> attended ce cid (sc_ceremony_index sch - 1) 5 a) (rr_bandersnatch_keys s))))"
proof -
  let ?q = "rings_on_phase_change sch cm ce0 Assigning s"
  have q: "rr_pending_communities ?q = cm_community_identifiers cm" "rr_pending_ring_computation ?q = None"
    "rr_bandersnatch_keys ?q = rr_bandersnatch_keys s" "rr_pending_ceremony_index ?q = sc_ceremony_index sch - 1"
    using assms(1-3) by (auto simp: rings_on_phase_change_def saturating_sub_def rr_deposit_event_def Let_def)
  obtain used s' where s': "idle_loop c ce (0, 0) w ?q = Some (used, s')" "rr_pending_communities s' = []"
    "rr_pending_ring_computation s' = None"
    "rings_published c ce (rr_bandersnatch_keys s) (cid, sc_ceremony_index sch - 1) s'"
    using idle_drains[of ?q c w ce "(0, 0)"] assms(4-9) unfolding q by blast
  have "0 < rk_max_ring_size c" using assms(9) by (simp add: splittable_def)
  then show ?thesis using s' rings_published_keys[OF s'(4)] unfolding on_idle_def eligible_keys_def by blast
qed

theorem assigning_publishes_rings_witness:
  "\<exists>used s'. on_idle small_rings some_attendances (1000, 1000)
       (rings_on_phase_change (scheduler_genesis 5 Assigning [])
          ((communities_genesis 1 83)\<lparr>cm_community_identifiers := [demo_cid]\<rparr>) some_attendances Assigning keyed_rings) =
         Some (used, s') \<and>
     ring_keys s' (demo_cid, 4) 1 = [[7], [8], [9]] \<and> ring_keys s' (demo_cid, 4) 2 = [[9]]"
proof -
  let ?sch = "scheduler_genesis 5 Assigning []"
  let ?cm = "(communities_genesis 1 83)\<lparr>cm_community_identifiers := [demo_cid]\<rparr>"
  let ?q = "rings_on_phase_change ?sch ?cm some_attendances Assigning keyed_rings"
  have "sc_ceremony_index ?sch = 5" by (simp add: scheduler_genesis_def)
  moreover have "affords small_rings (1000, 1000) (12 * length (cm_community_identifiers ?cm))"
    by (simp add: affords_def small_rings_facts)
  ultimately obtain used s' where s': "on_idle small_rings some_attendances (1000, 1000) ?q = Some (used, s')"
    "\<And>l. 0 < l \<Longrightarrow> l \<le> 5 \<Longrightarrow> ring_keys s' (demo_cid, 4) l = sort (eligible_keys some_attendances some_keys demo_cid 4 l)"
    using assigning_publishes_rings[of keyed_rings ?sch small_rings "(1000, 1000)" ?cm demo_cid some_attendances some_attendances]
      small_rings_facts keyed_rings_facts
    by (auto simp: eligible_keys_def)
  then show ?thesis using some_eligible by (intro exI[of _ used] exI[of _ s']) simp
qed

text \<open>C31: The members of a level are split evenly. Building a level publishes at least one sub-ring; their
  concatenation is the sorted list of the members, none exceeds \<open>MaxRingSize\<close>, and any two differ by at most one member.
  Sub-rings with a higher index, left by an earlier computation for the same ceremony, stay in the storage untouched.\<close>

theorem sub_rings_partition:
  assumes "0 < l" and "splittable c (length (ring_candidates st l s))"
  shows "\<exists>s' n. build_ring_step c st l s =
      (Inr (st\<lparr>rs_phase := (if l = 1 then Done else BuildingRing (l - 1))\<rparr>), s') \<and>
    rr_sub_ring_count s' (rs_community st, rs_ceremony_index st) l = Some n \<and> 0 < n \<and>
    concat (map (\<lambda>i. the (rr_ring_members s' (rs_community st, rs_ceremony_index st) (l, i))) [0..<n]) =
      sort (ring_candidates st l s) \<and>
    (\<forall>i<n. \<exists>r. rr_ring_members s' (rs_community st, rs_ceremony_index st) (l, i) = Some r \<and>
       length r \<le> rk_max_ring_size c \<and> length (ring_candidates st l s) div n \<le> length r \<and>
       length r \<le> length (ring_candidates st l s) div n + 1) \<and>
    (\<forall>i\<ge>n. rr_ring_members s' (rs_community st, rs_ceremony_index st) (l, i) =
       rr_ring_members s (rs_community st, rs_ceremony_index st) (l, i))"
proof -
  let ?cc = "(rs_community st, rs_ceremony_index st)" and ?ms = "sort (ring_candidates st l s)"
  define n where "n = sub_rings_for (length ?ms) (rk_max_ring_size c)"
  have max: "0 < rk_max_ring_size c" using assms(2) by (simp add: splittable_def)
  note n = sub_rings_for(1,2)[OF max, of "length ?ms", folded n_def]
  obtain s' where s': "build_ring_step c st l s = (Inr (st\<lparr>rs_phase := (if l = 1 then Done else BuildingRing (l - 1))\<rparr>), s')"
    "rr_sub_ring_count s' = dm_insert ?cc l n (rr_sub_ring_count s)"
    "\<And>cc' k. rr_ring_members s' cc' k =
       (if cc' = ?cc \<and> fst k = l \<and> snd k < n then Some (even_chunk n ?ms (snd k)) else rr_ring_members s cc' k)"
    using build_ring_step_ok[OF assms(1), of c st s] assms(2) unfolding n_def by auto
  have "map (\<lambda>i. the (rr_ring_members s' ?cc (l, i))) [0..<n] = map (even_chunk n ?ms) [0..<n]"
    by (intro map_cong) (simp_all add: s'(3))
  then have cat: "concat (map (\<lambda>i. the (rr_ring_members s' ?cc (l, i))) [0..<n]) = ?ms"
    using concat_even_chunks[OF n(1)] by metis
  have sizes: "\<exists>r. rr_ring_members s' ?cc (l, i) = Some r \<and> length r \<le> rk_max_ring_size c \<and>
      length (ring_candidates st l s) div n \<le> length r \<and> length r \<le> length (ring_candidates st l s) div n + 1" if "i < n" for i
    using even_chunk_sizes[OF n(1) that, of ?ms] n(2) that by (simp add: s'(3))
  show ?thesis
    by (intro exI[of _ s'] exI[of _ n] conjI allI impI)
       (use s'(1,2) n(1) cat sizes in \<open>simp_all add: s'(3) dm_insert_apply\<close>)
qed

theorem sub_rings_partition_witness:
  "\<exists>s' n. build_ring_step small_rings
       ((fresh_computation demo_cid 4)\<lparr>rs_phase := BuildingRing 1, rs_attendance := [(11, 2), (12, 1), (13, 1)]\<rparr>) 1 keyed_rings =
      (Inr ((fresh_computation demo_cid 4)\<lparr>rs_phase := Done, rs_attendance := [(11, 2), (12, 1), (13, 1)]\<rparr>), s') \<and>
    rr_sub_ring_count s' (demo_cid, 4) 1 = Some n \<and>
    concat (map (\<lambda>i. the (rr_ring_members s' (demo_cid, 4) (1, i))) [0..<n]) = [[7], [8], [9]]"
proof -
  let ?st = "(fresh_computation demo_cid 4)\<lparr>rs_phase := BuildingRing 1, rs_attendance := [(11, 2), (12, 1), (13, 1)]\<rparr>"
  have st: "rs_community ?st = demo_cid" "rs_ceremony_index ?st = 4"
    "?st\<lparr>rs_phase := Done\<rparr> = (fresh_computation demo_cid 4)\<lparr>rs_phase := Done, rs_attendance := [(11, 2), (12, 1), (13, 1)]\<rparr>"
    by (simp_all add: fresh_computation_def)
  have cand: "ring_candidates ?st 1 keyed_rings = [[9], [8], [7]]"
    by (simp add: ring_candidates_def List.map_filter_simps keyed_rings_facts some_keys_def)
  have "splittable small_rings (length (ring_candidates ?st 1 keyed_rings))"
    unfolding cand by (rule splittable_mono[OF small_rings_facts(3)]) simp
  moreover have "sort [[9], [8], [7 :: nat]] = [[7], [8], [9]]" by simp
  ultimately show ?thesis using sub_rings_partition[of 1 small_rings ?st keyed_rings]
    unfolding cand st by (auto simp del: One_nat_def)
qed


definition two_keys :: rings where
  "two_keys = register_bandersnatch_key 12 [8] (register_bandersnatch_key 11 [9] rings_genesis)"

lemma two_keys_facts:
  "(rings_step small_rings)\<^sup>*\<^sup>* rings_genesis two_keys" "rr_bandersnatch_keys two_keys = [(11, [9]), (12, [8])]"
  "rr_pending_ring_computation two_keys = None"
proof -
  show "(rings_step small_rings)\<^sup>*\<^sup>* rings_genesis two_keys"
    unfolding two_keys_def by (meson rings_step.register rtranclp.intros)
qed (simp_all add: two_keys_def register_bandersnatch_key_def rr_deposit_event_def rings_genesis_def)


text \<open>What the pallet stores is well formed after any sequence of calls, blocks and phase changes: a stored
  sub-ring is within \<open>MaxRingSize\<close> and has one of the five levels, a counted sub-ring exists, and a pending computation is
  at a valid step and never \<open>Done\<close>, so that \<open>continue_ring_computation\<close> never answers \<open>ComputationAlreadyDone\<close>.\<close>

theorem rings_well_formed:
  assumes "(rings_step c)\<^sup>*\<^sup>* rings_genesis s" and "lawful_key_order c"
  shows "(rr_ring_members s cc (l, i) = Some r \<longrightarrow> length r \<le> rk_max_ring_size c \<and> 0 < l \<and> l \<le> 5) \<and>
    (rr_sub_ring_count s cc l = Some n \<longrightarrow> 0 < n \<and> (\<forall>i<n. rr_ring_members s cc (l, i) \<noteq> None)) \<and>
    (rr_pending_ring_computation s = Some st \<longrightarrow> rs_phase st \<noteq> Done \<and> distinct (map fst (rs_attendance st)) \<and>
       (\<forall>k. rs_phase st = CollectingMembers k \<longrightarrow> k \<le> 5) \<and> (\<forall>k. rs_phase st = BuildingRing k \<longrightarrow> 0 < k \<and> k \<le> 5)) \<and>
    continue_ring_computation c ce s \<noteq> Inl ComputationAlreadyDone"
proof -
  have ok: "stored_ok c s" "\<And>st. rr_pending_ring_computation s = Some st \<Longrightarrow> state_ok st"
    using rings_reachable_ok[OF assms] by (simp_all add: rings_ok_def)
  have pending: "rs_phase st \<noteq> Done \<and> distinct (map fst (rs_attendance st)) \<and>
      (\<forall>k. rs_phase st = CollectingMembers k \<longrightarrow> k \<le> 5) \<and> (\<forall>k. rs_phase st = BuildingRing k \<longrightarrow> 0 < k \<and> k \<le> 5)"
    if "rr_pending_ring_computation s = Some st" for st
    using ok(2)[OF that] by (auto simp: state_ok_def)
  have "continue_ring_computation c ce s \<noteq> Inl ComputationAlreadyDone"
    using pending by (auto simp: continue_ring_computation_def res_simps dest: process_step_errors split: prod.splits sum.splits)
  then show ?thesis using ok(1) pending unfolding stored_ok_def by blast
qed

lemma continue_calls_reach: "continue_calls c ce k s = Inr t \<Longrightarrow> (rings_step c)\<^sup>*\<^sup>* s t"
  by (induction k arbitrary: s) (auto simp: res_simps intro: converse_rtranclp_into_rtranclp rings_step.continue)

theorem rings_well_formed_witness:
  "\<exists>s. (rings_step small_rings)\<^sup>*\<^sup>* rings_genesis s \<and> rr_sub_ring_count s (demo_cid, 4) 1 = Some 1 \<and>
     rr_ring_members s (demo_cid, 4) (1, 0) \<noteq> None \<and> continue_ring_computation small_rings some_attendances s \<noteq> Inl ComputationAlreadyDone"
proof -
  let ?sch = "scheduler_genesis 5 Assigning []"
  let ?cm = "(communities_genesis 1 83)\<lparr>cm_community_identifiers := [demo_cid]\<rparr>"
  obtain s where init: "initiate_rings ?sch ?cm demo_cid 4 two_keys = Inr s" "rr_bandersnatch_keys s = [(11, [9]), (12, [8])]"
    "rr_pending_ring_computation s = Some (fresh_computation demo_cid 4)"
    using two_keys_facts(2,3) by (auto simp: initiate_rings_def ensure_def scheduler_genesis_def rr_deposit_event_def)
  have "splittable small_rings (length (rr_bandersnatch_keys s))"
    unfolding init(2) by (rule splittable_mono[OF small_rings_facts(3)]) simp
  then obtain t where t: "advance_n small_rings some_attendances 11 s = Some t"
    "rings_published small_rings some_attendances [(11, [9]), (12, [8])] (demo_cid, 4) t"
    using computation_run[OF init(3) small_rings_facts(1), of some_attendances] unfolding init(2) by auto
  have "(rings_step small_rings)\<^sup>*\<^sup>* s t" by (rule continue_calls_reach[OF advance_continue_calls[OF t(1)]])
  then have reach: "(rings_step small_rings)\<^sup>*\<^sup>* rings_genesis t"
    using two_keys_facts(1) rings_step.initiate[OF init(1), of small_rings] by (meson rtranclp.rtrancl_into_rtrancl rtranclp_trans)
  have "length (eligible_keys some_attendances [(11, [9]), (12, [8])] demo_cid 4 1) = 2"
    by (simp add: eligible_keys_def some_attended del: One_nat_def)
  then have "rr_sub_ring_count t (demo_cid, 4) 1 = Some 1"
    using t(2) by (simp add: rings_published_def published_def sub_rings_for_def small_rings_facts)
  with rings_well_formed[OF reach small_rings_facts(1), of "(demo_cid, 4)" 1 0 _ 1 _ some_attendances] reach
  show ?thesis by (intro exI[of _ t]) auto
qed

text \<open>The split overflows for huge levels. The runtime's \<open>usize\<close> has 32 bits, so once the product of the
  number of members and of sub-rings reaches \<open>2 ^ 32\<close>, the bounds of some slice wrap around and are out of order: the
  step panics, and since the idle hook runs it, the hook panics too.\<close>

theorem oversized_split_panics:
  assumes "rr_pending_ring_computation s = Some st" and "rs_phase st = BuildingRing l" and "0 < l"
    and "0 < rk_max_ring_size c" and "length (ring_candidates st l s) < 2 ^ 31"
    and "2 ^ 32 \<le> sub_rings_for (length (ring_candidates st l s)) (rk_max_ring_size c) * length (ring_candidates st l s)"
    and "\<not> any_lt w (step_budget c)"
  shows "continue_ring_computation c ce s = Inl RingsPanic \<and> on_idle c ce w s = None"
proof -
  let ?ms = "sort (ring_candidates st l s)" and ?t = "length (ring_candidates st l s)"
  define n where "n = sub_rings_for ?t (rk_max_ring_size c)"
  note n = sub_rings_for(1,2,4)[OF assms(4), of ?t, folded n_def]
  have "?t div rk_max_ring_size c \<le> ?t" by simp
  then have n_le: "n \<le> ?t + 1" using sub_rings_for(3)[OF assms(4), of ?t] unfolding n_def by linarith
  have "\<exists>s'. publish_sub_rings c st l ?ms ?t n [0..<n] s = (Inl RingsPanic, s')"
    using overflowing_publish[of ?ms n c st l s] n assms(5,6) n_le unfolding n_def[symmetric] by simp
  then obtain s' where pub: "publish_sub_rings c st l ?ms ?t n [0..<n] s = (Inl RingsPanic, s')" by blast
  have "as_unsigned 32 ?t = ?t" using assms(5) by (simp add: as_unsigned_def)
  then have "build_ring_step c st l s = (Inl RingsPanic, s')"
    using assms(3) unfolding build_ring_step_def Let_def length_sort by (simp only: n(3) pub option.case prod.case sum.case) simp
  then have "process_computation_step c ce st s = (Inl RingsPanic, s')"
    using assms(2) by (simp add: process_computation_step_def)
  then show ?thesis using assms(1,2,7)
    by (simp add: continue_ring_computation_def ok_or_def ensure_def on_idle_def idle_loop.simps[of c ce _ w s]
        idle_iteration_def step_budget_def Let_def)
qed

definition huge_level :: rings where
  "huge_level = rings_genesis\<lparr>rr_bandersnatch_keys := map (\<lambda>a. (a, [])) [0..<65536],
     rr_pending_ring_computation := Some ((fresh_computation demo_cid 4)\<lparr>rs_phase := BuildingRing 1,
       rs_attendance := map (\<lambda>a. (a, 1)) [0..<65536]\<rparr>)\<rparr>"

theorem oversized_split_panics_witness:
  "on_idle (small_rings\<lparr>rk_max_ring_size := 1\<rparr>) some_attendances (100, 0) huge_level = None"
proof -
  define N :: nat where "N = 65536"
  let ?c = "small_rings\<lparr>rk_max_ring_size := 1\<rparr>"
  let ?st = "(fresh_computation demo_cid 4)\<lparr>rs_phase := BuildingRing 1, rs_attendance := map (\<lambda>a. (a, 1)) [0..<N]\<rparr>"
  have keys: "rr_bandersnatch_keys huge_level = map (\<lambda>a. (a, [])) [0..<N]" and pend: "rr_pending_ring_computation huge_level = Some ?st"
    by (simp_all add: huge_level_def N_def)
  have "map_of (map (\<lambda>a. (a, [])) [0..<N]) a = Some []" if "a < N" for a
    using that by (simp add: map_of_map_restrict restrict_map_def)
  then have "ring_candidates ?st 1 huge_level = map (\<lambda>_. []) (map (\<lambda>a. (a, 1 :: nat)) [0..<N])"
    unfolding ring_candidates_def keys by (subst map_filter_eq_map[where P = "\<lambda>_. True" and g = "\<lambda>_. []"]) auto
  then have len: "length (ring_candidates ?st 1 huge_level) = N" by simp
  have "step_budget ?c = (25, 0)"
    by (simp add: small_rings_def step_budget_def single_step_weight_def weight_add_def weight_max_def saturating_add_def)
  then have w: "\<not> any_lt (100, 0) (step_budget ?c)" by (simp add: any_lt_def)
  have "sub_rings_for N 1 = N" by (simp add: sub_rings_for_def N_def)
  then show ?thesis
    using oversized_split_panics[OF pend, of 1 ?c "(100, 0)" some_attendances] w unfolding len by (simp add: N_def)
qed

end
