(* ===== verification/Offline_Payment.thy ===== *)
theory Offline_Payment
  imports Treasuries
begin

text \<open>
  The offline payment pallet, \<open>offline-payment/src/lib.rs\<close> with \<open>verifier.rs\<close>: payments that are
  proved offline with a Groth16 proof and settled on chain, in community currency or in native tokens,
  where a nullifier is to prevent that one proof is settled twice.

  The hash, the curve library and the SCALE encoding are parameters. A field element is a natural
  number below the order \<open>oc_modulus\<close> of the scalar field, deserialisation answers \<open>None\<close> for bytes it
  does not accept, and \<open>oc_verify_proof\<close> is \<open>Groth16::verify_proof\<close>, with \<open>None\<close> for its error.
\<close>

section \<open>Bytes\<close>

fun le_value :: "bytes \<Rightarrow> nat" where
  "le_value [] = 0"
| "le_value (b # bs) = b + 256 * le_value bs"

fun to_le_bytes :: "nat \<Rightarrow> nat \<Rightarrow> bytes" where
  "to_le_bytes 0 x = []"
| "to_le_bytes (Suc k) x = x mod 256 # to_le_bytes k (x div 256)"

definition ascii :: "string \<Rightarrow> bytes" where
  "ascii = map of_char"

section \<open>The verifier\<close>

definition NUM_PUBLIC_INPUTS :: nat where
  "NUM_PUBLIC_INPUTS = 5"

record PublicInputs =
  pi_commitment :: nat
  pi_recipient_hash :: nat
  pi_amount :: nat
  pi_asset_hash :: nat
  pi_nullifier :: nat

definition bytes_to_field :: "nat \<Rightarrow> bytes \<Rightarrow> nat" where
  "bytes_to_field modulus bs = le_value bs mod modulus"

definition public_inputs_from_bytes ::
  "nat \<Rightarrow> bytes \<Rightarrow> bytes \<Rightarrow> bytes \<Rightarrow> bytes \<Rightarrow> bytes \<Rightarrow> PublicInputs" where
  "public_inputs_from_bytes modulus commitment recipient_hash amount asset_hash nullifier =
     \<lparr>pi_commitment = bytes_to_field modulus commitment,
      pi_recipient_hash = bytes_to_field modulus recipient_hash,
      pi_amount = bytes_to_field modulus amount,
      pi_asset_hash = bytes_to_field modulus asset_hash,
      pi_nullifier = bytes_to_field modulus nullifier\<rparr>"

definition public_inputs_to_vec :: "PublicInputs \<Rightarrow> nat list" where
  "public_inputs_to_vec p =
     [pi_commitment p, pi_recipient_hash p, pi_amount p, pi_asset_hash p, pi_nullifier p]"

definition amount_to_bytes :: "nat \<Rightarrow> bytes" where
  "amount_to_bytes amount = to_le_bytes 16 amount @ replicate 16 0"

section \<open>The pallet\<close>

record ('n, 'vk, 'p) offline_config =
  oc_balances :: balances_config
  oc_currency :: "'n currency"
  oc_blake2_256 :: "bytes \<Rightarrow> bytes"
  oc_encode_account :: "AccountId \<Rightarrow> bytes"
  oc_encode_cid :: "CommunityIdentifier \<Rightarrow> bytes"
  oc_genesis_hash :: bytes
  oc_modulus :: nat
  oc_vk_from_bytes :: "bytes \<Rightarrow> 'vk option"
  oc_proof_from_bytes :: "bytes \<Rightarrow> 'p option"
  oc_verify_proof :: "'vk \<Rightarrow> 'p \<Rightarrow> nat list \<Rightarrow> bool option"
  oc_max_proof_size :: nat

definition verify_groth16_proof :: "('n, 'vk, 'p) offline_config \<Rightarrow> 'vk \<Rightarrow> 'p \<Rightarrow> PublicInputs \<Rightarrow> bool" where
  "verify_groth16_proof c vk proof public_inputs =
     value_query False (oc_verify_proof c vk proof (public_inputs_to_vec public_inputs))"

definition COMMITMENT_DOMAIN :: bytes where
  "COMMITMENT_DOMAIN = ascii ''encointer-offline-commitment''"

definition NULLIFIER_DOMAIN :: bytes where
  "NULLIFIER_DOMAIN = ascii ''encointer-offline-nullifier''"

definition proof_bytes_from_bytes :: "nat \<Rightarrow> bytes \<Rightarrow> bytes option" where
  "proof_bytes_from_bytes max_proof_size bs = (if length bs \<le> max_proof_size then Some bs else None)"

definition derive_zk_secret :: "('n, 'vk, 'p) offline_config \<Rightarrow> bytes \<Rightarrow> bytes" where
  "derive_zk_secret c seed_bytes = oc_blake2_256 c (seed_bytes @ COMMITMENT_DOMAIN)"

definition hash_recipient :: "('n, 'vk, 'p) offline_config \<Rightarrow> bytes \<Rightarrow> bytes" where
  "hash_recipient c recipient = oc_blake2_256 c recipient"

definition hash_cid :: "('n, 'vk, 'p) offline_config \<Rightarrow> CommunityIdentifier \<Rightarrow> bytes" where
  "hash_cid c cid = oc_blake2_256 c (oc_encode_cid c cid)"

text \<open>A balance is given by its 128 bits.\<close>

definition balance_to_bytes :: "BalanceType \<Rightarrow> bytes" where
  "balance_to_bytes amount = to_le_bytes 16 amount @ replicate 16 0"

definition native_token_cid_hash :: "('n, 'vk, 'p) offline_config \<Rightarrow> bytes" where
  "native_token_cid_hash c = oc_blake2_256 c (ascii ''encointer-native-token'')"

definition native_balance_to_bytes :: "nat \<Rightarrow> bytes" where
  "native_balance_to_bytes amount = amount_to_bytes amount"

datatype offline_event =
    OfflineIdentityRegistered AccountId bytes
  | OfflinePaymentSettled AccountId AccountId CommunityIdentifier BalanceType bytes
  | NativeOfflinePaymentSettled AccountId AccountId nat bytes
  | VerificationKeySet

datatype offline_error =
    AlreadyRegistered | NoOfflineIdentity | NullifierAlreadyUsed | InvalidProof | ProofDeserializationFailed
  | NoVerificationKey | VkDeserializationFailed | AmountMustBePositive | SenderEqualsRecipient | InsufficientBalance
  | OfflineTransfer balances_error | OfflineNativeTransfer | OfflineBadOrigin

record offline =
  of_identities :: "AccountId \<Rightarrow> bytes option"
  of_used_nullifiers :: "bytes \<Rightarrow> unit option"
  of_verification_key :: "bytes option"
  of_events :: "offline_event list"

definition offline_genesis :: offline where
  "offline_genesis =
     \<lparr>of_identities = Map.empty, of_used_nullifiers = Map.empty, of_verification_key = None, of_events = []\<rparr>"

definition of_deposit_event :: "offline_event \<Rightarrow> offline \<Rightarrow> offline" where
  "of_deposit_event e s = s\<lparr>of_events := of_events s @ [e]\<rparr>"

definition register_offline_identity :: "AccountId \<Rightarrow> bytes \<Rightarrow> offline \<Rightarrow> offline_error + offline" where
  "register_offline_identity who commitment s =
     ensure (\<not> contains (of_identities s who)) AlreadyRegistered (
     Inr (of_deposit_event (OfflineIdentityRegistered who commitment)
       (s\<lparr>of_identities := (of_identities s)(who \<mapsto> commitment)\<rparr>)))"

definition chain_asset_hash :: "('n, 'vk, 'p) offline_config \<Rightarrow> bytes \<Rightarrow> bytes" where
  "chain_asset_hash c asset_hash = oc_blake2_256 c (asset_hash @ oc_genesis_hash c)"

definition submit_offline_payment ::
  "('n, 'vk, 'p) offline_config \<Rightarrow> bytes \<Rightarrow> AccountId \<Rightarrow> AccountId \<Rightarrow> BalanceType \<Rightarrow> CommunityIdentifier \<Rightarrow> bytes \<Rightarrow>
   offline \<times> balances \<Rightarrow> offline_error + (offline \<times> balances)" where
  "submit_offline_payment c proof_bytes sender recipient amount cid nullifier w =
     (case w of (s, b) \<Rightarrow>
     ensure (0 < amount) AmountMustBePositive (
     ensure (sender \<noteq> recipient) SenderEqualsRecipient (
     bind_res (ok_or (of_identities s sender) NoOfflineIdentity) (\<lambda>commitment.
     ensure (\<not> contains (of_used_nullifiers s nullifier)) NullifierAlreadyUsed (
     bind_res (map_err OfflineTransfer (balance (oc_balances c) b cid sender)) (\<lambda>available.
     ensure (amount \<le> available) InsufficientBalance (
     bind_res (ok_or (of_verification_key s) NoVerificationKey) (\<lambda>vk_bytes.
     bind_res (ok_or (oc_vk_from_bytes c vk_bytes) VkDeserializationFailed) (\<lambda>vk.
     bind_res (ok_or (oc_proof_from_bytes c proof_bytes) ProofDeserializationFailed) (\<lambda>zk_proof.
     let public_inputs = public_inputs_from_bytes (oc_modulus c) commitment
           (hash_recipient c (oc_encode_account c recipient)) (balance_to_bytes amount)
           (chain_asset_hash c (hash_cid c cid)) nullifier
     in ensure (verify_groth16_proof c vk zk_proof public_inputs) InvalidProof (
        bind_res (map_err OfflineTransfer (do_transfer (oc_balances c) cid sender recipient amount b)) (\<lambda>b'.
        Inr (of_deposit_event (OfflinePaymentSettled sender recipient cid amount nullifier)
               (s\<lparr>of_used_nullifiers := (of_used_nullifiers s)(nullifier \<mapsto> ())\<rparr>), b')))))))))))))"

definition saturated_into_u128 :: "nat \<Rightarrow> nat" where
  "saturated_into_u128 amount = min amount (2 ^ 128 - 1)"

definition submit_native_offline_payment ::
  "('n, 'vk, 'p) offline_config \<Rightarrow> bytes \<Rightarrow> AccountId \<Rightarrow> AccountId \<Rightarrow> nat \<Rightarrow> bytes \<Rightarrow>
   offline \<times> 'n \<Rightarrow> offline_error + (offline \<times> 'n)" where
  "submit_native_offline_payment c proof_bytes sender recipient amount nullifier w =
     (case w of (s, n) \<Rightarrow>
     ensure (amount \<noteq> 0) AmountMustBePositive (
     ensure (sender \<noteq> recipient) SenderEqualsRecipient (
     bind_res (ok_or (of_identities s sender) NoOfflineIdentity) (\<lambda>commitment.
     ensure (\<not> contains (of_used_nullifiers s nullifier)) NullifierAlreadyUsed (
     ensure (amount \<le> cu_free_balance (oc_currency c) n sender) InsufficientBalance (
     bind_res (ok_or (of_verification_key s) NoVerificationKey) (\<lambda>vk_bytes.
     bind_res (ok_or (oc_vk_from_bytes c vk_bytes) VkDeserializationFailed) (\<lambda>vk.
     bind_res (ok_or (oc_proof_from_bytes c proof_bytes) ProofDeserializationFailed) (\<lambda>zk_proof.
     let public_inputs = public_inputs_from_bytes (oc_modulus c) commitment
           (hash_recipient c (oc_encode_account c recipient))
           (native_balance_to_bytes (saturated_into_u128 amount))
           (chain_asset_hash c (native_token_cid_hash c)) nullifier
     in ensure (verify_groth16_proof c vk zk_proof public_inputs) InvalidProof (
        bind_res (ok_or (cu_transfer (oc_currency c) sender recipient amount KeepAlive n) OfflineNativeTransfer) (\<lambda>n'.
        Inr (of_deposit_event (NativeOfflinePaymentSettled sender recipient amount nullifier)
               (s\<lparr>of_used_nullifiers := (of_used_nullifiers s)(nullifier \<mapsto> ())\<rparr>), n'))))))))))))"

text \<open>\<open>is_trusted\<close> is the outcome of \<open>T::TrustedSetupOrigin::ensure_origin\<close>.\<close>

definition set_verification_key ::
  "('n, 'vk, 'p) offline_config \<Rightarrow> bool \<Rightarrow> bytes \<Rightarrow> offline \<Rightarrow> offline_error + offline" where
  "set_verification_key c is_trusted vk s =
     ensure is_trusted OfflineBadOrigin (
     bind_res (ok_or (oc_vk_from_bytes c vk) VkDeserializationFailed) (\<lambda>_.
     Inr (of_deposit_event VerificationKeySet (s\<lparr>of_verification_key := Some vk\<rparr>))))"

text \<open>One call of the pallet, with the balances and the native currency it moves; these may also change by
  what other pallets do.\<close>

inductive offline_step ::
  "('n, 'vk, 'p) offline_config \<Rightarrow> offline \<times> balances \<times> 'n \<Rightarrow> offline \<times> balances \<times> 'n \<Rightarrow> bool" for c where
  step_register: "register_offline_identity who commitment s = Inr s' \<Longrightarrow> offline_step c (s, b, n) (s', b, n)"
| step_settle: "submit_offline_payment c pr sender recipient amount cid nullifier (s, b) = Inr (s', b') \<Longrightarrow>
    offline_step c (s, b, n) (s', b', n)"
| step_settle_native: "submit_native_offline_payment c pr sender recipient amount nullifier (s, n) = Inr (s', n') \<Longrightarrow>
    offline_step c (s, b, n) (s', b, n')"
| step_key: "set_verification_key c is_trusted vk s = Inr s' \<Longrightarrow> offline_step c (s, b, n) (s', b, n)"
| step_elsewhere: "offline_step c (s, b, n) (s, b', n')"

end
