(* ===== verification/Offline_Circuit.thy ===== *)
theory Offline_Circuit
  imports Offline_Payment
begin

text \<open>
  The proving side of the offline payments, \<open>offline-payment/core/src\<close> and the safe part of
  \<open>offline-payment/ffi/src/lib.rs\<close>: the circuit, the prover, and the ceremony that builds its keys.

  The curve library is a parameter: the sponge \<open>pr_poseidon\<close>, Groth16's setup, prover and verifier, the
  canonical serialisation, and the group operations. Its hypotheses are named: \<open>lawful_groth16\<close> is the
  completeness of the proof system for the keys of one circuit, \<open>lawful_curve\<close> the bilinearity of the pairing, \<open>lawful_codec\<close>
  that deserialisation inverts serialisation.
\<close>

section \<open>The circuit\<close>

record PoseidonConfig =
  po_full_rounds :: nat
  po_partial_rounds :: nat
  po_alpha :: nat
  po_ark :: "nat list list"
  po_mds :: "nat list list"
  po_rate :: nat
  po_capacity :: nat

text \<open>\<open>inverse\<close> is the inversion of the field, \<open>None\<close> for zero.\<close>

definition generate_poseidon_parameters ::
  "nat \<Rightarrow> (nat \<Rightarrow> nat option) \<Rightarrow> nat \<Rightarrow> nat \<Rightarrow> nat \<Rightarrow> nat list list \<times> nat list list" where
  "generate_poseidon_parameters modulus inverse_of t full_rounds partial_rounds =
     (map (\<lambda>r. map (\<lambda>i. wrapping_mul 64 (as_unsigned 64 (r * t + i + 1)) 0x517cc1b727220a95 mod modulus) [0..<t])
        [0..<full_rounds + partial_rounds],
      map (\<lambda>i. map (\<lambda>j. value_query (1 mod modulus) (inverse_of (((i + 1) + (t + j + 1)) mod modulus))) [0..<t]) [0..<t])"

definition poseidon_config :: "nat \<Rightarrow> (nat \<Rightarrow> nat option) \<Rightarrow> PoseidonConfig" where
  "poseidon_config modulus inverse_of =
     (let full_rounds = 8; partial_rounds = 57; alpha = 5; rate = 2; capacity = 1;
          (ark, mds) = generate_poseidon_parameters modulus inverse_of (rate + capacity) full_rounds partial_rounds
      in \<lparr>po_full_rounds = full_rounds, po_partial_rounds = partial_rounds, po_alpha = alpha, po_ark = ark, po_mds = mds,
          po_rate = rate, po_capacity = capacity\<rparr>)"

record OfflinePaymentCircuit =
  ci_poseidon_config :: PoseidonConfig
  ci_commitment :: nat
  ci_recipient_hash :: nat
  ci_amount :: nat
  ci_asset_hash :: nat
  ci_nullifier :: nat
  ci_zk_secret :: nat
  ci_nonce :: nat

text \<open>The libraries the proving side calls.\<close>

record ('pk, 'vk, 'p) proving =
  pr_modulus :: nat
  pr_inverse :: "nat \<Rightarrow> nat option"
  pr_poseidon :: "PoseidonConfig \<Rightarrow> nat list \<Rightarrow> nat"
  pr_setup :: "OfflinePaymentCircuit \<Rightarrow> nat \<Rightarrow> ('pk \<times> 'vk) option"
  pr_prove :: "'pk \<Rightarrow> OfflinePaymentCircuit \<Rightarrow> nat \<Rightarrow> 'p option"
  pr_verify_proof :: "'vk \<Rightarrow> 'p \<Rightarrow> nat list \<Rightarrow> bool option"
  pr_pk_to_bytes :: "'pk \<Rightarrow> bytes"
  pr_pk_from_bytes :: "bytes \<Rightarrow> 'pk option"
  pr_vk_to_bytes :: "'vk \<Rightarrow> bytes"
  pr_vk_from_bytes :: "bytes \<Rightarrow> 'vk option"
  pr_proof_to_bytes :: "'p \<Rightarrow> bytes"
  pr_proof_from_bytes :: "bytes \<Rightarrow> 'p option"
  pr_blake2_256 :: "bytes \<Rightarrow> bytes"

text \<open>The sponge absorbs the inputs in order, in the native computation and in the circuit.\<close>

definition poseidon_hash :: "('pk, 'vk, 'p) proving \<Rightarrow> PoseidonConfig \<Rightarrow> nat list \<Rightarrow> nat" where
  "poseidon_hash g cfg inputs = pr_poseidon g cfg inputs"

definition compute_commitment :: "('pk, 'vk, 'p) proving \<Rightarrow> PoseidonConfig \<Rightarrow> nat \<Rightarrow> nat" where
  "compute_commitment g cfg zk_secret = poseidon_hash g cfg [zk_secret]"

definition compute_nullifier :: "('pk, 'vk, 'p) proving \<Rightarrow> PoseidonConfig \<Rightarrow> nat \<Rightarrow> nat \<Rightarrow> nat" where
  "compute_nullifier g cfg zk_secret nonce = poseidon_hash g cfg [zk_secret, nonce]"

definition circuit_new ::
  "('pk, 'vk, 'p) proving \<Rightarrow> PoseidonConfig \<Rightarrow> nat \<Rightarrow> nat \<Rightarrow> nat \<Rightarrow> nat \<Rightarrow> nat \<Rightarrow> OfflinePaymentCircuit" where
  "circuit_new g cfg zk_secret nonce recipient_hash amount asset_hash =
     \<lparr>ci_poseidon_config = cfg, ci_commitment = compute_commitment g cfg zk_secret, ci_recipient_hash = recipient_hash,
      ci_amount = amount, ci_asset_hash = asset_hash, ci_nullifier = compute_nullifier g cfg zk_secret nonce,
      ci_zk_secret = zk_secret, ci_nonce = nonce\<rparr>"

definition public_inputs :: "OfflinePaymentCircuit \<Rightarrow> nat list" where
  "public_inputs circuit =
     [ci_commitment circuit, ci_recipient_hash circuit, ci_amount circuit, ci_asset_hash circuit, ci_nullifier circuit]"

text \<open>The constraints are the pairs of values that \<open>enforce_equal\<close> is called on.\<close>

definition generate_constraints :: "('pk, 'vk, 'p) proving \<Rightarrow> OfflinePaymentCircuit \<Rightarrow> (nat \<times> nat) list" where
  "generate_constraints g circuit =
     (let computed_commitment = pr_poseidon g (ci_poseidon_config circuit) [ci_zk_secret circuit];
          computed_nullifier = pr_poseidon g (ci_poseidon_config circuit) [ci_zk_secret circuit, ci_nonce circuit]
      in [(computed_commitment, ci_commitment circuit), (computed_nullifier, ci_nullifier circuit)])"

definition is_satisfied :: "('pk, 'vk, 'p) proving \<Rightarrow> OfflinePaymentCircuit \<Rightarrow> bool" where
  "is_satisfied g circuit = list_all (\<lambda>(a, b). a = b) (generate_constraints g circuit)"

section \<open>The prover\<close>

definition bytes32_to_field :: "('pk, 'vk, 'p) proving \<Rightarrow> bytes \<Rightarrow> nat" where
  "bytes32_to_field g bs = le_value bs mod pr_modulus g"

definition field_to_bytes32 :: "nat \<Rightarrow> bytes" where
  "field_to_bytes32 f = to_le_bytes 32 f"

text \<open>\<open>TrustedSetup\<close>: the keys for the circuit with ones, from the seed of the random generator, \<open>None\<close> for a
  panic. Without a seed the code takes the nanoseconds of the system time.\<close>

definition setup_circuit :: "('pk, 'vk, 'p) proving \<Rightarrow> OfflinePaymentCircuit" where
  "setup_circuit g = circuit_new g (poseidon_config (pr_modulus g) (pr_inverse g)) 1 1 1 1 1"

definition generate_with_seed :: "('pk, 'vk, 'p) proving \<Rightarrow> nat \<Rightarrow> ('pk \<times> 'vk) option" where
  "generate_with_seed g seed = pr_setup g (setup_circuit g) seed"

definition trusted_setup_generate :: "('pk, 'vk, 'p) proving \<Rightarrow> nat \<Rightarrow> ('pk \<times> 'vk) option" where
  "trusted_setup_generate g nanos = (let seed = as_unsigned 64 nanos in pr_setup g (setup_circuit g) seed)"

definition generate_proof ::
  "('pk, 'vk, 'p) proving \<Rightarrow> nat \<Rightarrow> 'pk \<Rightarrow> nat \<Rightarrow> nat \<Rightarrow> nat \<Rightarrow> nat \<Rightarrow> nat \<Rightarrow> ('p \<times> nat list) option" where
  "generate_proof g nanos proving_key zk_secret nonce recipient_hash amount asset_hash =
     (let circuit = circuit_new g (poseidon_config (pr_modulus g) (pr_inverse g)) zk_secret nonce recipient_hash amount asset_hash
      in map_option (\<lambda>proof. (proof, public_inputs circuit)) (pr_prove g proving_key circuit (as_unsigned 64 nanos)))"

text \<open>The prover's own check asks only whether the verification ran without an error.\<close>

definition verify_proof :: "('pk, 'vk, 'p) proving \<Rightarrow> 'vk \<Rightarrow> 'p \<Rightarrow> nat list \<Rightarrow> bool" where
  "verify_proof g verifying_key proof inputs = (pr_verify_proof g verifying_key proof inputs \<noteq> None)"

definition TEST_SETUP_SEED :: nat where
  "TEST_SETUP_SEED = 0xDEADBEEFCAFEBABE"

definition generate_test_proof ::
  "('pk, 'vk, 'p) proving \<Rightarrow> nat \<Rightarrow> bytes \<Rightarrow> bytes \<Rightarrow> bytes \<Rightarrow> bytes \<Rightarrow> bytes \<Rightarrow> (bytes \<times> bytes \<times> bytes) option" where
  "generate_test_proof g nanos zk_secret nonce recipient_hash amount asset_hash =
     Option.bind (generate_with_seed g TEST_SETUP_SEED) (\<lambda>(pk, vk).
     Option.bind (generate_proof g nanos pk (bytes32_to_field g zk_secret) (bytes32_to_field g nonce)
         (bytes32_to_field g recipient_hash) (bytes32_to_field g amount) (bytes32_to_field g asset_hash))
       (\<lambda>(proof, inputs). Some (pr_proof_to_bytes g proof, field_to_bytes32 (inputs ! 0), field_to_bytes32 (inputs ! 4))))"

subsection \<open>The interface for wallets\<close>

definition ffi_derive_zk_secret :: "('pk, 'vk, 'p) proving \<Rightarrow> bytes \<Rightarrow> bytes" where
  "ffi_derive_zk_secret g seed = pr_blake2_256 g (seed @ COMMITMENT_DOMAIN)"

definition ffi_compute_commitment :: "('pk, 'vk, 'p) proving \<Rightarrow> bytes \<Rightarrow> bytes" where
  "ffi_compute_commitment g zk_secret =
     (let config = poseidon_config (pr_modulus g) (pr_inverse g); secret_field = bytes32_to_field g zk_secret
      in field_to_bytes32 (compute_commitment g config secret_field))"

record ProofOutput =
  po_commitment :: bytes
  po_proof_bytes :: bytes
  po_nullifier :: bytes

datatype ffi_error = ProvingKeyDeserialization | ProofGenerationFailed

definition generate_proof_ffi ::
  "('pk, 'vk, 'p) proving \<Rightarrow> nat \<Rightarrow> bytes \<Rightarrow> bytes \<Rightarrow> bytes \<Rightarrow> bytes \<Rightarrow> bytes \<Rightarrow> bytes \<Rightarrow> ffi_error + ProofOutput" where
  "generate_proof_ffi g nanos pk_bytes zk_secret nonce recipient_hash amount cid_hash =
     bind_res (ok_or (pr_pk_from_bytes g pk_bytes) ProvingKeyDeserialization) (\<lambda>pk.
     bind_res (ok_or (generate_proof g nanos pk (bytes32_to_field g zk_secret) (bytes32_to_field g nonce)
         (bytes32_to_field g recipient_hash) (bytes32_to_field g amount) (bytes32_to_field g cid_hash)) ProofGenerationFailed)
       (\<lambda>(proof, inputs).
     Inr \<lparr>po_commitment = field_to_bytes32 (inputs ! 0), po_proof_bytes = pr_proof_to_bytes g proof,
          po_nullifier = field_to_bytes32 (inputs ! 4)\<rparr>))"

definition verify_proof_ffi ::
  "('pk, 'vk, 'p) proving \<Rightarrow> bytes \<Rightarrow> bytes \<Rightarrow> bytes \<Rightarrow> bytes \<Rightarrow> bytes \<Rightarrow> bytes \<Rightarrow> bytes \<Rightarrow> bool" where
  "verify_proof_ffi g vk_bytes proof_bytes commitment recipient_hash amount cid_hash nullifier =
     (case pr_vk_from_bytes g vk_bytes of None \<Rightarrow> False
      | Some vk \<Rightarrow>
          (case pr_proof_from_bytes g proof_bytes of None \<Rightarrow> False
           | Some proof \<Rightarrow>
               value_query False (pr_verify_proof g vk proof
                 [bytes32_to_field g commitment, bytes32_to_field g recipient_hash, bytes32_to_field g amount,
                  bytes32_to_field g cid_hash, bytes32_to_field g nullifier])))"

definition generate_test_setup :: "('pk, 'vk, 'p) proving \<Rightarrow> nat \<Rightarrow> (bytes \<times> bytes) option" where
  "generate_test_setup g seed =
     map_option (\<lambda>(pk, vk). (pr_pk_to_bytes g pk, pr_vk_to_bytes g vk)) (generate_with_seed g seed)"

section \<open>The key ceremony\<close>

text \<open>The curve operations, and a proving key with the parts that a contribution changes; \<open>'r\<close> is the rest of the key.\<close>

record ('g1, 'g2, 'gt) curve =
  cv_mul1 :: "'g1 \<Rightarrow> nat \<Rightarrow> 'g1"
  cv_mul2 :: "'g2 \<Rightarrow> nat \<Rightarrow> 'g2"
  cv_generator1 :: 'g1
  cv_pairing :: "'g1 \<Rightarrow> 'g2 \<Rightarrow> 'gt"
  cv_inverse :: "nat \<Rightarrow> nat option"
  cv_serialize1 :: "'g1 \<Rightarrow> bytes"
  cv_serialize2 :: "'g2 \<Rightarrow> bytes"
  cv_deserialize1 :: "bytes \<Rightarrow> ('g1 \<times> bytes) option"
  cv_deserialize2 :: "bytes \<Rightarrow> ('g2 \<times> bytes) option"

record ('g1, 'g2, 'r) ProvingKey =
  pk_vk_delta_g2 :: 'g2
  pk_delta_g1 :: 'g1
  pk_h_query :: "'g1 list"
  pk_l_query :: "'g1 list"
  pk_rest :: 'r

record ('g1, 'g2) ContributionReceipt =
  cr_d_g1 :: 'g1
  cr_old_delta_g2 :: 'g2
  cr_new_delta_g2 :: 'g2

definition receipt_to_bytes :: "('g1, 'g2, 'gt) curve \<Rightarrow> ('g1, 'g2) ContributionReceipt \<Rightarrow> bytes" where
  "receipt_to_bytes cv r =
     cv_serialize1 cv (cr_d_g1 r) @ cv_serialize2 cv (cr_old_delta_g2 r) @ cv_serialize2 cv (cr_new_delta_g2 r)"

definition receipt_from_bytes :: "('g1, 'g2, 'gt) curve \<Rightarrow> bytes \<Rightarrow> ('g1, 'g2) ContributionReceipt option" where
  "receipt_from_bytes cv bs =
     Option.bind (cv_deserialize1 cv bs) (\<lambda>(d_g1, cursor).
     Option.bind (cv_deserialize2 cv cursor) (\<lambda>(old_delta_g2, cursor).
     Option.bind (cv_deserialize2 cv cursor) (\<lambda>(new_delta_g2, cursor).
     Some \<lparr>cr_d_g1 = d_g1, cr_old_delta_g2 = old_delta_g2, cr_new_delta_g2 = new_delta_g2\<rparr>)))"

text \<open>\<open>None\<close> is the panic for a scalar without inverse.\<close>

definition ceremony_contribute_with_scalar ::
  "('g1, 'g2, 'gt) curve \<Rightarrow> ('g1, 'g2, 'r) ProvingKey \<Rightarrow> nat \<Rightarrow>
   (('g1, 'g2, 'r) ProvingKey \<times> ('g1, 'g2) ContributionReceipt) option" where
  "ceremony_contribute_with_scalar cv pk d =
     Option.bind (cv_inverse cv d) (\<lambda>d_inv.
     let old_delta_g2 = pk_vk_delta_g2 pk;
         new_delta_g2 = cv_mul2 cv (pk_vk_delta_g2 pk) d;
         pk' = pk\<lparr>pk_vk_delta_g2 := new_delta_g2,
                  pk_delta_g1 := cv_mul1 cv (pk_delta_g1 pk) d,
                  pk_h_query := map (\<lambda>h. cv_mul1 cv h d_inv) (pk_h_query pk),
                  pk_l_query := map (\<lambda>l. cv_mul1 cv l d_inv) (pk_l_query pk)\<rparr>;
         d_g1 = cv_mul1 cv (cv_generator1 cv) d
     in Some (pk', \<lparr>cr_d_g1 = d_g1, cr_old_delta_g2 = old_delta_g2, cr_new_delta_g2 = new_delta_g2\<rparr>))"

text \<open>\<open>sample\<close> is the first scalar of the random generator with the given seed.\<close>

definition entropy_seed :: "nat \<Rightarrow> nat" where
  "entropy_seed nanos = as_unsigned 64 nanos"

definition ceremony_contribute ::
  "('g1, 'g2, 'gt) curve \<Rightarrow> (nat \<Rightarrow> nat) \<Rightarrow> nat \<Rightarrow> ('g1, 'g2, 'r) ProvingKey \<Rightarrow>
   (('g1, 'g2, 'r) ProvingKey \<times> ('g1, 'g2) ContributionReceipt) option" where
  "ceremony_contribute cv sample nanos pk = ceremony_contribute_with_scalar cv pk (sample (entropy_seed nanos))"

definition dummy_circuit :: "('pk, 'vk, 'p) proving \<Rightarrow> OfflinePaymentCircuit" where
  "dummy_circuit g = circuit_new g (poseidon_config (pr_modulus g) (pr_inverse g)) 1 1 1 1 1"

definition ceremony_init_with_seed :: "('pk, 'vk, 'p) proving \<Rightarrow> nat \<Rightarrow> 'pk option" where
  "ceremony_init_with_seed g seed = map_option fst (pr_setup g (dummy_circuit g) seed)"

definition ceremony_init :: "('pk, 'vk, 'p) proving \<Rightarrow> nat \<Rightarrow> 'pk option" where
  "ceremony_init g nanos = map_option fst (pr_setup g (dummy_circuit g) (entropy_seed nanos))"

definition verify_contribution :: "('g1, 'g2, 'gt) curve \<Rightarrow> ('g1, 'g2) ContributionReceipt \<Rightarrow> bool" where
  "verify_contribution cv receipt =
     (cv_pairing cv (cr_d_g1 receipt) (cr_old_delta_g2 receipt) =
      cv_pairing cv (cv_generator1 cv) (cr_new_delta_g2 receipt))"

text \<open>The functional test of a finished key: a proof for fixed inputs is generated and checked. \<open>vk_of\<close> is the
  verifying key inside the proving key.\<close>

definition verify_ceremony_pk :: "('pk, 'vk, 'p) proving \<Rightarrow> nat \<Rightarrow> ('pk \<Rightarrow> 'vk) \<Rightarrow> 'pk \<Rightarrow> bool" where
  "verify_ceremony_pk g nanos vk_of pk =
     (let zk_secret = bytes32_to_field g (replicate 32 1);
          nonce = bytes32_to_field g (replicate 32 2);
          recipient_hash = bytes32_to_field g (replicate 32 3);
          amount = bytes32_to_field g (replicate 32 4);
          asset_hash = bytes32_to_field g (replicate 32 5)
      in case generate_proof g nanos pk zk_secret nonce recipient_hash amount asset_hash of
           None \<Rightarrow> False
         | Some (proof, inputs) \<Rightarrow> verify_proof g (vk_of pk) proof inputs)"

section \<open>Hypotheses about the libraries\<close>

definition lawful_curve :: "nat \<Rightarrow> ('g1, 'g2, 'gt) curve \<Rightarrow> bool" where
  "lawful_curve r cv \<longleftrightarrow>
     (\<forall>P Q a. cv_pairing cv (cv_mul1 cv P a) Q = cv_pairing cv P (cv_mul2 cv Q a)) \<and>
     (\<forall>P a b. cv_mul1 cv (cv_mul1 cv P a) b = cv_mul1 cv P (a * b mod r)) \<and>
     (\<forall>P. cv_mul1 cv P (1 mod r) = P) \<and>
     (\<forall>d e. cv_inverse cv d = Some e \<longrightarrow> d * e mod r = 1 mod r)"

definition lawful_codec :: "('g1, 'g2, 'gt) curve \<Rightarrow> bool" where
  "lawful_codec cv \<longleftrightarrow>
     (\<forall>P rest. cv_deserialize1 cv (cv_serialize1 cv P @ rest) = Some (P, rest)) \<and>
     (\<forall>Q rest. cv_deserialize2 cv (cv_serialize2 cv Q @ rest) = Some (Q, rest))"

text \<open>Completeness of Groth16 for a pair of keys. Keys are for one circuit, here the payment circuit with the Poseidon
  configuration \<open>cfg\<close> the keys were set up for; only the values assigned to it vary. Whenever these are elements of the
  field that satisfy its constraints, the prover returns a proof for every randomness, the proof verifies against
  the public inputs, and it survives its compressed serialisation. Of other circuits nothing is asked.\<close>

definition lawful_groth16 :: "('pk, 'vk, 'p) proving \<Rightarrow> PoseidonConfig \<Rightarrow> 'pk \<Rightarrow> 'vk \<Rightarrow> bool" where
  "lawful_groth16 g cfg pk vk \<longleftrightarrow>
     (\<forall>circuit seed. ci_poseidon_config circuit = cfg \<and> is_satisfied g circuit \<and>
        (\<forall>x \<in> set (public_inputs circuit @ [ci_zk_secret circuit, ci_nonce circuit]). x < pr_modulus g) \<longrightarrow>
        (\<exists>proof. pr_prove g pk circuit seed = Some proof \<and> pr_verify_proof g vk proof (public_inputs circuit) = Some True \<and>
           pr_proof_from_bytes g (pr_proof_to_bytes g proof) = Some proof))"

end
