(* ===== verification/Offline_Properties.thy ===== *)
theory Offline_Properties
  imports Offline_Circuit
begin

text \<open>
  What the offline payments guarantee: a nullifier is settled at most once, a settlement needs a proof for
  exactly its amount and an honest one always settles; that a nullifier has several encodings, each of which
  settles; and what the key ceremony preserves and fails to check.
\<close>

section \<open>Bytes and field elements\<close>

lemma le_value_to_le_bytes: "le_value (to_le_bytes k x) = x mod 256 ^ k"
  by (induction k arbitrary: x) (simp_all add: mod_mult2_eq)

lemma length_to_le_bytes [simp]: "length (to_le_bytes k x) = k"
  by (induction k arbitrary: x) simp_all

lemma to_le_bytes_bytes: "\<forall>b \<in> set (to_le_bytes k x). b < 256"
  by (induction k arbitrary: x) auto

lemma to_le_bytes_le_value: "\<forall>b \<in> set bs. b < 256 \<Longrightarrow> to_le_bytes (length bs) (le_value bs) = bs"
  by (induction bs) auto

lemma le_value_less: "\<forall>b \<in> set bs. b < 256 \<Longrightarrow> le_value bs < 256 ^ length bs"
proof (induction bs)
  case (Cons b bs)
  then have "le_value bs + 1 \<le> 256 ^ length bs" "b < 256" by auto
  then have "256 * (le_value bs + 1) \<le> 256 * 256 ^ length bs" by (intro mult_le_mono2)
  then show ?case using \<open>b < 256\<close> by simp
qed simp

lemma le_value_append: "le_value (xs @ ys) = le_value xs + 256 ^ length xs * le_value ys"
  by (induction xs) (simp_all add: algebra_simps)

lemma le_value_zeros [simp]: "le_value (replicate k 0) = 0"
  by (induction k) simp_all

lemma amount_field:
  assumes "amount < 2 ^ 128" and "2 ^ 128 \<le> modulus"
  shows "bytes_to_field modulus (balance_to_bytes amount) = amount"
    and "bytes_to_field modulus (amount_to_bytes amount) = amount"
proof -
  have "(256 :: nat) ^ 16 = 2 ^ 128" by simp
  then show "bytes_to_field modulus (balance_to_bytes amount) = amount"
    "bytes_to_field modulus (amount_to_bytes amount) = amount"
    using assms by (simp_all add: bytes_to_field_def balance_to_bytes_def amount_to_bytes_def le_value_append le_value_to_le_bytes)
qed

lemma field_bytes_field: "x < modulus \<Longrightarrow> modulus \<le> 2 ^ 256 \<Longrightarrow> bytes_to_field modulus (field_to_bytes32 x) = x"
proof -
  assume "x < modulus" "modulus \<le> 2 ^ 256"
  moreover have "(256 :: nat) ^ 32 = 2 ^ 256" by simp
  ultimately show "bytes_to_field modulus (field_to_bytes32 x) = x"
    by (simp only: bytes_to_field_def field_to_bytes32_def le_value_to_le_bytes) simp
qed

section \<open>Settlements\<close>

lemma not_Some_unit [simp]: "x \<noteq> Some () \<longleftrightarrow> x = None"
  by (cases x) auto

lemma settlement_cases:
  assumes "submit_offline_payment c pb sender recipient amount cid nu (s, b) = Inr (s', b')"
  obtains commitment vk_bytes vk zk_proof available where
    "0 < amount" "sender \<noteq> recipient" "of_identities s sender = Some commitment" "of_used_nullifiers s nu = None"
    "balance (oc_balances c) b cid sender = Inr available" "amount \<le> available"
    "of_verification_key s = Some vk_bytes" "oc_vk_from_bytes c vk_bytes = Some vk" "oc_proof_from_bytes c pb = Some zk_proof"
    "verify_groth16_proof c vk zk_proof (public_inputs_from_bytes (oc_modulus c) commitment
       (hash_recipient c (oc_encode_account c recipient)) (balance_to_bytes amount) (chain_asset_hash c (hash_cid c cid)) nu)"
    "do_transfer (oc_balances c) cid sender recipient amount b = Inr b'"
    "s' = of_deposit_event (OfflinePaymentSettled sender recipient cid amount nu)
       (s\<lparr>of_used_nullifiers := (of_used_nullifiers s)(nu \<mapsto> ())\<rparr>)"
  using assms by (auto simp: submit_offline_payment_def Let_def res_simps)

lemma native_settlement_cases:
  assumes "submit_native_offline_payment c pb sender recipient amount nu (s, n) = Inr (s', n')"
  shows "of_used_nullifiers s nu = None"
    and "s' = of_deposit_event (NativeOfflinePaymentSettled sender recipient amount nu)
       (s\<lparr>of_used_nullifiers := (of_used_nullifiers s)(nu \<mapsto> ())\<rparr>)"
  using assms by (auto simp: submit_native_offline_payment_def Let_def res_simps)

text \<open>The nullifiers of the settlements among the events.\<close>

fun settled_nullifiers :: "offline_event list \<Rightarrow> bytes list" where
  "settled_nullifiers [] = []"
| "settled_nullifiers (OfflinePaymentSettled sender recipient cid amount nu # es) = nu # settled_nullifiers es"
| "settled_nullifiers (NativeOfflinePaymentSettled sender recipient amount nu # es) = nu # settled_nullifiers es"
| "settled_nullifiers (_ # es) = settled_nullifiers es"

lemma settled_append [simp]: "settled_nullifiers (es @ fs) = settled_nullifiers es @ settled_nullifiers fs"
  by (induction es rule: settled_nullifiers.induct) simp_all

definition nullifiers_ok :: "offline \<Rightarrow> bool" where
  "nullifiers_ok s \<longleftrightarrow> distinct (settled_nullifiers (of_events s)) \<and>
     (\<forall>nu. of_used_nullifiers s nu \<noteq> None \<longleftrightarrow> nu \<in> set (settled_nullifiers (of_events s)))"

lemma settle_nullifiers_ok:
  assumes "nullifiers_ok s" and "of_used_nullifiers s nu = None" and "settled_nullifiers [e] = [nu]"
  shows "nullifiers_ok (of_deposit_event e (s\<lparr>of_used_nullifiers := (of_used_nullifiers s)(nu \<mapsto> ())\<rparr>))"
proof -
  have "nu \<notin> set (settled_nullifiers (of_events s))" using assms(1,2) unfolding nullifiers_ok_def by metis
  then show ?thesis using assms(1,3) by (auto simp: nullifiers_ok_def of_deposit_event_def simp del: settled_nullifiers.simps)
qed

lemma offline_step_ok:
  assumes "offline_step c w w'" and "nullifiers_ok (fst w)"
  shows "nullifiers_ok (fst w') \<and> (\<forall>nu. of_used_nullifiers (fst w) nu \<noteq> None \<longrightarrow> of_used_nullifiers (fst w') nu \<noteq> None) \<and>
    (\<forall>who cm. of_identities (fst w) who = Some cm \<longrightarrow> of_identities (fst w') who = Some cm)"
  using assms
proof cases
  case (step_settle pr sender recipient amount cid nullifier s b s' b' n)
  then show ?thesis using assms(2) settle_nullifiers_ok
    by (elim settlement_cases) (auto simp: of_deposit_event_def)
next
  case (step_settle_native pr sender recipient amount nullifier s n s' n' b)
  note sc = native_settlement_cases[OF step_settle_native(3)]
  show ?thesis using step_settle_native(1,2) assms(2) settle_nullifiers_ok[OF _ sc(1)] sc(2)
    by (auto simp: of_deposit_event_def)
qed (auto simp: register_offline_identity_def set_verification_key_def res_simps nullifiers_ok_def of_deposit_event_def)

lemma offline_steps_ok:
  assumes "(offline_step c)\<^sup>*\<^sup>* w w'" and "nullifiers_ok (fst w)"
  shows "nullifiers_ok (fst w') \<and> (\<forall>nu. of_used_nullifiers (fst w) nu \<noteq> None \<longrightarrow> of_used_nullifiers (fst w') nu \<noteq> None) \<and>
    (\<forall>who cm. of_identities (fst w) who = Some cm \<longrightarrow> of_identities (fst w') who = Some cm)"
  using assms
proof (induction rule: rtranclp_induct)
  case (step y z)
  then show ?case using offline_step_ok[OF step(2)] by blast
qed simp

section \<open>A proof system and a payment to instantiate the interfaces with\<close>

definition bn254_order :: nat where
  "bn254_order = 21888242871839275222246405745257275088548364400416034343698204186575808495617"

text \<open>A proof is the list of the public inputs of a satisfied circuit, and the sponge is a sum.\<close>

definition toy_proving :: "(unit, unit, nat list) proving" where
  "toy_proving =
     \<lparr>pr_modulus = bn254_order, pr_inverse = (\<lambda>_. None), pr_poseidon = (\<lambda>_ xs. (sum_list xs + 7) mod bn254_order),
      pr_setup = (\<lambda>_ _. Some ((), ())), pr_prove = (\<lambda>_ circuit _. Some (public_inputs circuit)),
      pr_verify_proof = (\<lambda>_ p inputs. Some (p = inputs)),
      pr_pk_to_bytes = (\<lambda>_. []), pr_pk_from_bytes = (\<lambda>_. Some ()), pr_vk_to_bytes = (\<lambda>_. []),
      pr_vk_from_bytes = (\<lambda>_. Some ()), pr_proof_to_bytes = (\<lambda>p. p), pr_proof_from_bytes = Some, pr_blake2_256 = (\<lambda>b. b)\<rparr>"

definition toy_offline :: "(AccountId \<Rightarrow> nat, unit, nat list) offline_config" where
  "toy_offline =
     \<lparr>oc_balances = demo_config, oc_currency = simple_currency, oc_blake2_256 = (\<lambda>b. take 4 b), oc_encode_account = (\<lambda>a. [a mod 256]),
      oc_encode_cid = (\<lambda>cid. cid_geohash cid), oc_genesis_hash = [], oc_modulus = bn254_order, oc_vk_from_bytes = (\<lambda>_. Some ()),
      oc_proof_from_bytes = Some, oc_verify_proof = (\<lambda>_ p inputs. Some (p = inputs)), oc_max_proof_size = 256\<rparr>"

lemma toy_lawful: "lawful_groth16 toy_proving cfg () ()"
  by (simp add: lawful_groth16_def toy_proving_def)

definition some_identity :: offline where
  "some_identity = offline_genesis\<lparr>of_identities := [1 \<mapsto> to_le_bytes 32 5], of_verification_key := Some []\<rparr>"

definition some_proof :: bytes where
  "some_proof = public_inputs_to_vec (public_inputs_from_bytes bn254_order (to_le_bytes 32 5) [2]
     (balance_to_bytes 400) [1, 2, 3, 4] (to_le_bytes 32 9))"

definition paid_once :: "offline_error + (offline \<times> balances)" where
  "paid_once =
     bind_res (register_offline_identity 1 (to_le_bytes 32 5) offline_genesis) (\<lambda>s0.
     bind_res (set_verification_key toy_offline True [] s0) (\<lambda>s1.
     submit_offline_payment toy_offline some_proof 1 2 400 demo_cid (to_le_bytes 32 9) (s1, demo_balances)))"

lemma paid_once_ok: "is_ok paid_once"
  by code_simp

lemma some_payment:
  "is_ok (submit_offline_payment toy_offline some_proof 1 2 400 demo_cid (to_le_bytes 32 9) (some_identity, demo_balances))"
  by code_simp

section \<open>Properties\<close>

text \<open>C8: A nullifier settles at most once. From the empty pallet on, over any calls and whatever else happens to
  the balances, no two settlements, in community currency or in native tokens, carry the same nullifier, a nullifier is
  marked as used exactly when it was settled, and submitting it again is refused; and an account keeps the identity it has
  registered.\<close>

theorem nullifier_settles_once:
  assumes "(offline_step c)\<^sup>*\<^sup>* (offline_genesis, b0, n0) (s, b, n)"
  shows "distinct (settled_nullifiers (of_events s)) \<and>
    (of_used_nullifiers s nu \<noteq> None \<longleftrightarrow> nu \<in> set (settled_nullifiers (of_events s))) \<and>
    (nu \<in> set (settled_nullifiers (of_events s)) \<longrightarrow>
       (\<forall>pr sender recipient amount cid w. submit_offline_payment c pr sender recipient amount cid nu (s, b) \<noteq> Inr w) \<and>
       (\<forall>pr sender recipient amount w. submit_native_offline_payment c pr sender recipient amount nu (s, n) \<noteq> Inr w)) \<and>
    (\<forall>s' b' n'. (offline_step c)\<^sup>*\<^sup>* (s, b, n) (s', b', n') \<longrightarrow>
       (\<forall>who cm. of_identities s who = Some cm \<longrightarrow> of_identities s' who = Some cm))"
proof -
  have "nullifiers_ok (fst (offline_genesis, b0, n0))" by (simp add: nullifiers_ok_def offline_genesis_def)
  from offline_steps_ok[OF assms this] have ok: "nullifiers_ok s" by simp
  have no_cc: "submit_offline_payment c pr sender recipient amount cid nu (s, b) \<noteq> Inr w"
    if "of_used_nullifiers s nu \<noteq> None" for pr sender recipient amount cid w
    using that by (cases w) (auto elim: settlement_cases)
  have no_native: "submit_native_offline_payment c pr sender recipient amount nu (s, n) \<noteq> Inr w"
    if "of_used_nullifiers s nu \<noteq> None" for pr sender recipient amount w
    using that by (cases w) (auto dest: native_settlement_cases(1))
  show ?thesis
    using ok no_cc no_native offline_steps_ok[of c "(s, b, n)"] unfolding nullifiers_ok_def by (auto simp del: not_None_eq)
qed

theorem nullifier_settles_once_witness:
  "\<exists>s b. (offline_step toy_offline)\<^sup>*\<^sup>* (offline_genesis, demo_balances, \<lambda>_. 0) (s, b, \<lambda>_. 0) \<and>
     of_used_nullifiers s (to_le_bytes 32 9) \<noteq> None \<and>
     submit_offline_payment toy_offline some_proof 1 2 400 demo_cid (to_le_bytes 32 9) (s, b) \<noteq> Inr (s, b)"
proof -
  let ?n = "\<lambda>_ :: AccountId. 0 :: nat" and ?nu = "to_le_bytes 32 9"
  obtain w where "paid_once = Inr w" using paid_once_ok by (auto simp: is_ok_def split: sum.splits)
  moreover obtain s b where "w = (s, b)" by (cases w)
  ultimately obtain s0 s1 where st: "register_offline_identity 1 (to_le_bytes 32 5) offline_genesis = Inr s0"
    "set_verification_key toy_offline True [] s0 = Inr s1"
    "submit_offline_payment toy_offline some_proof 1 2 400 demo_cid ?nu (s1, demo_balances) = Inr (s, b)"
    by (auto simp: paid_once_def bind_res_Inr)
  have "(offline_step toy_offline)\<^sup>*\<^sup>* (offline_genesis, demo_balances, ?n) (s1, demo_balances, ?n)"
    using step_register[OF st(1), of toy_offline demo_balances ?n] step_key[OF st(2), of demo_balances ?n]
    by (meson converse_rtranclp_into_rtranclp rtranclp.rtrancl_refl)
  then have reach: "(offline_step toy_offline)\<^sup>*\<^sup>* (offline_genesis, demo_balances, ?n) (s, b, ?n)"
    using step_settle[OF st(3), of ?n] by (rule rtranclp.rtrancl_into_rtrancl)
  have used: "of_used_nullifiers s ?nu \<noteq> None" using st(3) by (auto elim!: settlement_cases simp: of_deposit_event_def)
  then show ?thesis using nullifier_settles_once[OF reach, of ?nu] reach by blast
qed

text \<open>C16: A settlement needs a proof for exactly this payment. If an offline payment settles, the sender had
  registered a commitment, the nullifier was fresh, and the proof verifies under the stored key for that commitment, the
  hash of the recipient, the amount itself, the hash of the community bound to this chain, and the nullifier; the balances
  change by one transfer of that amount, the nullifier is recorded, and identities and key stay.\<close>

theorem settlement_needs_proof:
  assumes "submit_offline_payment c pb sender recipient amount cid nu (s, b) = Inr (s', b')"
    and "amount < 2 ^ 128" and "2 ^ 128 \<le> oc_modulus c"
  shows "\<exists>commitment vk_bytes vk pf. of_identities s sender = Some commitment \<and> of_verification_key s = Some vk_bytes \<and>
    oc_vk_from_bytes c vk_bytes = Some vk \<and> oc_proof_from_bytes c pb = Some pf \<and>
    oc_verify_proof c vk pf
      [bytes_to_field (oc_modulus c) commitment,
       bytes_to_field (oc_modulus c) (hash_recipient c (oc_encode_account c recipient)), amount,
       bytes_to_field (oc_modulus c) (chain_asset_hash c (hash_cid c cid)), bytes_to_field (oc_modulus c) nu] = Some True \<and>
    of_used_nullifiers s nu = None \<and> of_used_nullifiers s' = (of_used_nullifiers s)(nu \<mapsto> ()) \<and>
    do_transfer (oc_balances c) cid sender recipient amount b = Inr b' \<and>
    of_identities s' = of_identities s \<and> of_verification_key s' = of_verification_key s"
  using assms(1)
proof (rule settlement_cases)
  fix commitment vk_bytes vk zk_proof available
  assume a: "of_identities s sender = Some commitment" "of_used_nullifiers s nu = None" "of_verification_key s = Some vk_bytes"
    "oc_vk_from_bytes c vk_bytes = Some vk" "oc_proof_from_bytes c pb = Some zk_proof"
    "do_transfer (oc_balances c) cid sender recipient amount b = Inr b'"
    and v: "verify_groth16_proof c vk zk_proof (public_inputs_from_bytes (oc_modulus c) commitment
       (hash_recipient c (oc_encode_account c recipient)) (balance_to_bytes amount) (chain_asset_hash c (hash_cid c cid)) nu)"
    and s': "s' = of_deposit_event (OfflinePaymentSettled sender recipient cid amount nu)
       (s\<lparr>of_used_nullifiers := (of_used_nullifiers s)(nu \<mapsto> ())\<rparr>)"
  have "oc_verify_proof c vk zk_proof
      [bytes_to_field (oc_modulus c) commitment,
       bytes_to_field (oc_modulus c) (hash_recipient c (oc_encode_account c recipient)), amount,
       bytes_to_field (oc_modulus c) (chain_asset_hash c (hash_cid c cid)), bytes_to_field (oc_modulus c) nu] = Some True"
    using v amount_field(1)[OF assms(2,3)]
    by (auto simp: verify_groth16_proof_def public_inputs_from_bytes_def public_inputs_to_vec_def value_query_def split: option.splits)
  then show ?thesis using a s' by (simp add: of_deposit_event_def)
qed

theorem settlement_needs_proof_witness:
  "\<exists>s b. submit_offline_payment toy_offline some_proof 1 2 400 demo_cid (to_le_bytes 32 9) (some_identity, demo_balances) = Inr (s, b) \<and>
     do_transfer demo_config demo_cid 1 2 400 demo_balances = Inr b"
proof -
  obtain w where w: "submit_offline_payment toy_offline some_proof 1 2 400 demo_cid (to_le_bytes 32 9) (some_identity, demo_balances) = Inr w"
    using some_payment by (auto simp: is_ok_def split: sum.splits)
  obtain s b where sb: "w = (s, b)" by (cases w)
  have "2 ^ 128 \<le> oc_modulus toy_offline" "oc_balances toy_offline = demo_config" by (simp_all add: toy_offline_def bn254_order_def)
  then show ?thesis using settlement_needs_proof[OF w[unfolded sb]] w sb by auto
qed

text \<open>C36: A nullifier does not prevent replay. The pallet stores a nullifier by its 32 bytes but verifies the
  proof for its value modulo the order of the field, so the bytes of the value plus the order are a second, unused
  nullifier for the same proof: after any settlement, the same proof settles again under it, as long as the sender can
  pay, without a new secret, nonce or signature.\<close>

theorem nullifier_replay:
  fixes nu
  defines "nu' \<equiv> \<lambda>modulus. to_le_bytes 32 (le_value nu + modulus)"
  assumes "submit_offline_payment c pb sender recipient amount cid nu (s, b) = Inr (s1, b1)"
    and "0 < oc_modulus c" and "le_value nu + oc_modulus c < 2 ^ 256"
    and "of_used_nullifiers s (nu' (oc_modulus c)) = None"
    and "balance (oc_balances c) b1 cid sender = Inr available" and "amount \<le> available"
    and "do_transfer (oc_balances c) cid sender recipient amount b1 = Inr b2"
  shows "\<exists>s2. submit_offline_payment c pb sender recipient amount cid (nu' (oc_modulus c)) (s1, b1) = Inr (s2, b2) \<and>
    nu' (oc_modulus c) \<noteq> nu"
  using assms(2)
proof (rule settlement_cases)
  fix commitment vk_bytes vk zk_proof available'
  let ?r = "oc_modulus c" and ?nu = "nu' (oc_modulus c)"
  assume a: "0 < amount" "sender \<noteq> recipient" "of_identities s sender = Some commitment" "of_verification_key s = Some vk_bytes"
    "oc_vk_from_bytes c vk_bytes = Some vk" "oc_proof_from_bytes c pb = Some zk_proof"
    and v: "verify_groth16_proof c vk zk_proof (public_inputs_from_bytes ?r commitment
       (hash_recipient c (oc_encode_account c recipient)) (balance_to_bytes amount) (chain_asset_hash c (hash_cid c cid)) nu)"
    and s1: "s1 = of_deposit_event (OfflinePaymentSettled sender recipient cid amount nu)
       (s\<lparr>of_used_nullifiers := (of_used_nullifiers s)(nu \<mapsto> ())\<rparr>)"
  have "(256 :: nat) ^ 32 = 2 ^ 256" by simp
  then have val: "le_value ?nu = le_value nu + ?r"
    using assms(4) unfolding nu'_def le_value_to_le_bytes by (simp only: mod_less)
  then have diff: "?nu \<noteq> nu" using assms(3) by auto
  have "bytes_to_field ?r ?nu = bytes_to_field ?r nu" by (simp add: bytes_to_field_def val)
  then have "public_inputs_from_bytes ?r commitment (hash_recipient c (oc_encode_account c recipient)) (balance_to_bytes amount)
      (chain_asset_hash c (hash_cid c cid)) ?nu = public_inputs_from_bytes ?r commitment
      (hash_recipient c (oc_encode_account c recipient)) (balance_to_bytes amount) (chain_asset_hash c (hash_cid c cid)) nu"
    by (simp add: public_inputs_from_bytes_def)
  then show ?thesis using a v s1 diff assms(5-8)
    by (simp add: submit_offline_payment_def Let_def ensure_def ok_or_def map_err_def of_deposit_event_def)
qed

lemma some_replay:
  "case submit_offline_payment toy_offline some_proof 1 2 400 demo_cid (to_le_bytes 32 9) (some_identity, demo_balances) of
     Inl e \<Rightarrow> False
   | Inr (s, b) \<Rightarrow> balance demo_config b demo_cid 1 = Inr 600 \<and> is_ok (do_transfer demo_config demo_cid 1 2 400 b)"
  by code_simp

theorem nullifier_replay_witness:
  "\<exists>s b s' b'. submit_offline_payment toy_offline some_proof 1 2 400 demo_cid (to_le_bytes 32 9) (some_identity, demo_balances) = Inr (s, b) \<and>
     submit_offline_payment toy_offline some_proof 1 2 400 demo_cid (to_le_bytes 32 (9 + bn254_order)) (s, b) = Inr (s', b')"
proof -
  obtain w where "submit_offline_payment toy_offline some_proof 1 2 400 demo_cid (to_le_bytes 32 9) (some_identity, demo_balances) = Inr w"
    using some_payment by (auto simp: is_ok_def split: sum.splits)
  moreover obtain s b where "w = (s, b)" by (cases w)
  ultimately have first: "submit_offline_payment toy_offline some_proof 1 2 400 demo_cid (to_le_bytes 32 9) (some_identity, demo_balances) = Inr (s, b)"
    by simp
  then have second: "balance demo_config b demo_cid 1 = Inr 600" "is_ok (do_transfer demo_config demo_cid 1 2 400 b)"
    using some_replay by simp_all
  obtain b2 where b2: "do_transfer demo_config demo_cid 1 2 400 b = Inr b2" using second(2) by (auto simp: is_ok_def split: sum.splits)
  have c: "oc_modulus toy_offline = bn254_order" "oc_balances toy_offline = demo_config" by (simp_all add: toy_offline_def)
  have nine: "le_value (to_le_bytes 32 9) = 9" by (simp add: le_value_to_le_bytes)
  have "0 < bn254_order" "9 + bn254_order < 2 ^ 256" by (simp_all add: bn254_order_def)
  moreover have "of_used_nullifiers some_identity nu = None" for nu by (simp add: some_identity_def offline_genesis_def)
  ultimately have "\<exists>s2. submit_offline_payment toy_offline some_proof 1 2 400 demo_cid (to_le_bytes 32 (9 + bn254_order)) (s, b) = Inr (s2, b2)"
    using nullifier_replay[OF first, unfolded c nine, OF _ _ _ second(1) _ b2] by auto
  then show ?thesis using first by blast
qed

text \<open>C27: An honest payment settles. If the wallet's prover and the chain use the same proof system with keys that are
  complete for the payment circuit with the code's Poseidon configuration, the commitment the wallet computed from its secret is registered, and the proof is made for the recipient, the amount
  and the chain-bound asset as the pallet hashes them, then proof generation succeeds, and the payment settles with the
  returned proof and nullifier unless that nullifier was used or the transfer itself fails.\<close>

theorem honest_payment_settles:
  assumes "oc_modulus c = pr_modulus g" and "oc_verify_proof c = pr_verify_proof g" and "oc_proof_from_bytes c = pr_proof_from_bytes g"
    and "pr_modulus g \<le> 2 ^ 256" and "\<forall>cfg xs. pr_poseidon g cfg xs < pr_modulus g"
    and "lawful_groth16 g (poseidon_config (pr_modulus g) (pr_inverse g)) pk vk"
    and "pr_pk_from_bytes g pk_bytes = Some pk" and "of_verification_key s = Some vk_bytes" and "oc_vk_from_bytes c vk_bytes = Some vk"
    and "of_identities s sender = Some (ffi_compute_commitment g zk_secret)"
    and "0 < amount" and "sender \<noteq> recipient" and "balance (oc_balances c) b cid sender = Inr available" and "amount \<le> available"
    and "do_transfer (oc_balances c) cid sender recipient amount b = Inr b'"
  shows "\<exists>out. generate_proof_ffi g nanos pk_bytes zk_secret nonce (hash_recipient c (oc_encode_account c recipient))
      (balance_to_bytes amount) (chain_asset_hash c (hash_cid c cid)) = Inr out \<and>
    po_commitment out = ffi_compute_commitment g zk_secret \<and>
    (of_used_nullifiers s (po_nullifier out) = None \<longrightarrow>
      (\<exists>s'. submit_offline_payment c (po_proof_bytes out) sender recipient amount cid (po_nullifier out) (s, b) = Inr (s', b')))"
proof -
  let ?f = "bytes32_to_field g" and ?cfg = "poseidon_config (pr_modulus g) (pr_inverse g)"
  let ?rh = "hash_recipient c (oc_encode_account c recipient)" and ?ah = "chain_asset_hash c (hash_cid c cid)"
  define circuit where "circuit = circuit_new g ?cfg (?f zk_secret) (?f nonce) (?f ?rh) (?f (balance_to_bytes amount)) (?f ?ah)"
  have "0 < pr_modulus g" using assms(5) by (metis gr_zeroI not_less0)
  then have "ci_poseidon_config circuit = ?cfg" "is_satisfied g circuit"
    "\<forall>x \<in> set (public_inputs circuit @ [ci_zk_secret circuit, ci_nonce circuit]). x < pr_modulus g"
    using assms(5) by (simp_all add: is_satisfied_def generate_constraints_def circuit_def circuit_new_def compute_commitment_def
        compute_nullifier_def poseidon_hash_def public_inputs_def bytes32_to_field_def)
  then obtain pf where pf: "pr_prove g pk circuit (as_unsigned 64 nanos) = Some pf"
    "pr_verify_proof g vk pf (public_inputs circuit) = Some True" "pr_proof_from_bytes g (pr_proof_to_bytes g pf) = Some pf"
    using assms(6) unfolding lawful_groth16_def by blast
  define out where "out = \<lparr>po_commitment = field_to_bytes32 (ci_commitment circuit), po_proof_bytes = pr_proof_to_bytes g pf,
      po_nullifier = field_to_bytes32 (ci_nullifier circuit)\<rparr>"
  have gen: "generate_proof_ffi g nanos pk_bytes zk_secret nonce ?rh (balance_to_bytes amount) ?ah = Inr out"
    using assms(7) pf(1) by (simp add: generate_proof_ffi_def generate_proof_def Let_def circuit_def[symmetric] ok_or_def
        out_def public_inputs_def)
  have com: "po_commitment out = ffi_compute_commitment g zk_secret"
    by (simp add: out_def circuit_def circuit_new_def ffi_compute_commitment_def Let_def)
  have "ci_commitment circuit < pr_modulus g" "ci_nullifier circuit < pr_modulus g"
    using assms(5) by (simp_all add: circuit_def circuit_new_def compute_commitment_def compute_nullifier_def poseidon_hash_def)
  then have decoded: "bytes_to_field (pr_modulus g) (po_commitment out) = ci_commitment circuit"
    "bytes_to_field (pr_modulus g) (po_nullifier out) = ci_nullifier circuit"
    using field_bytes_field[OF _ assms(4)] by (simp_all add: out_def)
  have "public_inputs_to_vec (public_inputs_from_bytes (pr_modulus g) (ffi_compute_commitment g zk_secret) ?rh (balance_to_bytes amount) ?ah
      (po_nullifier out)) = public_inputs circuit"
    using decoded unfolding com[symmetric]
    by (simp add: public_inputs_to_vec_def public_inputs_from_bytes_def public_inputs_def circuit_def circuit_new_def
        bytes32_to_field_def bytes_to_field_def)
  then have "verify_groth16_proof c vk pf (public_inputs_from_bytes (oc_modulus c) (ffi_compute_commitment g zk_secret) ?rh
      (balance_to_bytes amount) ?ah (po_nullifier out))"
    using pf(2) assms(1,2) by (simp add: verify_groth16_proof_def)
  then have "\<exists>s'. submit_offline_payment c (po_proof_bytes out) sender recipient amount cid (po_nullifier out) (s, b) = Inr (s', b')"
    if "of_used_nullifiers s (po_nullifier out) = None"
    using that assms(3,8-15) pf(3)
    by (simp add: submit_offline_payment_def Let_def ensure_def ok_or_def map_err_def out_def)
  then show ?thesis using gen com by (intro exI[of _ out]) simp
qed

definition honest_identity :: offline where
  "honest_identity = offline_genesis\<lparr>of_identities := [1 \<mapsto> ffi_compute_commitment toy_proving [5]], of_verification_key := Some []\<rparr>"

theorem honest_payment_settles_witness:
  "\<exists>out s b. generate_proof_ffi toy_proving 0 [] [5] [3] (hash_recipient toy_offline (oc_encode_account toy_offline 2))
       (balance_to_bytes 400) (chain_asset_hash toy_offline (hash_cid toy_offline demo_cid)) = Inr out \<and>
     submit_offline_payment toy_offline (po_proof_bytes out) 1 2 400 demo_cid (po_nullifier out) (honest_identity, demo_balances) = Inr (s, b)"
proof -
  have "balance demo_config demo_balances demo_cid 1 = Inr 1000" "is_ok (do_transfer demo_config demo_cid 1 2 400 demo_balances)"
    by code_simp+
  then obtain b where b: "balance demo_config demo_balances demo_cid 1 = Inr 1000" "do_transfer demo_config demo_cid 1 2 400 demo_balances = Inr b"
    by (auto simp: is_ok_def split: sum.splits)
  have used: "of_used_nullifiers honest_identity nu = None" for nu by (simp add: honest_identity_def offline_genesis_def)
  have c: "oc_balances toy_offline = demo_config" "oc_modulus toy_offline = pr_modulus toy_proving"
    "oc_verify_proof toy_offline = pr_verify_proof toy_proving" "oc_proof_from_bytes toy_offline = pr_proof_from_bytes toy_proving"
    "pr_modulus toy_proving \<le> 2 ^ 256" "\<forall>cfg xs. pr_poseidon toy_proving cfg xs < pr_modulus toy_proving"
    "pr_pk_from_bytes toy_proving [] = Some ()" "oc_vk_from_bytes toy_offline [] = Some ()"
    "of_verification_key honest_identity = Some []" "of_identities honest_identity 1 = Some (ffi_compute_commitment toy_proving [5])"
    by (simp_all add: toy_offline_def toy_proving_def bn254_order_def honest_identity_def)
  show ?thesis
    using honest_payment_settles[OF c(2-6) toy_lawful c(7) c(9) c(8) c(10), of 400 2 demo_balances demo_cid 1000 b 0 "[3]", unfolded c(1)] b used
    by auto
qed

text \<open>Only canonical bytes survive the field. Converting a field element to 32 bytes and back is the identity, but
  32 bytes come back from the field unchanged exactly if their value is below the order; the pallet does not make this
  check for a nullifier.\<close>

theorem field_bytes_roundtrip:
  assumes "0 < pr_modulus g" and "pr_modulus g \<le> 2 ^ 256"
  shows "(x < pr_modulus g \<longrightarrow> bytes32_to_field g (field_to_bytes32 x) = x) \<and>
    (length bs = 32 \<and> (\<forall>b \<in> set bs. b < 256) \<longrightarrow>
       (field_to_bytes32 (bytes32_to_field g bs) = bs \<longleftrightarrow> le_value bs < pr_modulus g))"
proof (intro conjI impI)
  show "bytes32_to_field g (field_to_bytes32 x) = x" if "x < pr_modulus g"
    using field_bytes_field[OF that assms(2)] by (simp add: bytes32_to_field_def bytes_to_field_def)
  assume bs: "length bs = 32 \<and> (\<forall>b \<in> set bs. b < 256)"
  have p: "(256 :: nat) ^ 32 = 2 ^ 256" by simp
  have "le_value bs mod pr_modulus g < 256 ^ 32" unfolding p using assms by (metis mod_less_divisor order_less_le_trans)
  then have v: "le_value (field_to_bytes32 (bytes32_to_field g bs)) = le_value bs mod pr_modulus g"
    unfolding field_to_bytes32_def bytes32_to_field_def le_value_to_le_bytes by (rule mod_less)
  show "field_to_bytes32 (bytes32_to_field g bs) = bs \<longleftrightarrow> le_value bs < pr_modulus g"
  proof
    assume "field_to_bytes32 (bytes32_to_field g bs) = bs"
    then have "le_value bs = le_value bs mod pr_modulus g" using v by simp
    then show "le_value bs < pr_modulus g" using mod_less_divisor[OF assms(1), of "le_value bs"] by simp
  next
    assume "le_value bs < pr_modulus g"
    then show "field_to_bytes32 (bytes32_to_field g bs) = bs"
      using bs to_le_bytes_le_value[of bs] by (simp add: field_to_bytes32_def bytes32_to_field_def)
  qed
qed

theorem field_bytes_roundtrip_witness:
  "bytes32_to_field toy_proving (field_to_bytes32 9) = 9 \<and>
   field_to_bytes32 (bytes32_to_field toy_proving (to_le_bytes 32 (9 + bn254_order))) \<noteq> to_le_bytes 32 (9 + bn254_order)"
proof -
  have m: "0 < pr_modulus toy_proving" "pr_modulus toy_proving \<le> 2 ^ 256" "pr_modulus toy_proving = bn254_order"
    by (simp_all add: toy_proving_def bn254_order_def)
  have "(256 :: nat) ^ 32 = 2 ^ 256" by simp
  then have "le_value (to_le_bytes 32 (9 + bn254_order)) = 9 + bn254_order"
    unfolding le_value_to_le_bytes by (simp add: bn254_order_def)
  moreover have "9 < bn254_order" by (simp add: bn254_order_def)
  ultimately show ?thesis
    using field_bytes_roundtrip[OF m(1,2), of 9 "to_le_bytes 32 (9 + bn254_order)"] to_le_bytes_bytes m(3) by auto
qed

text \<open>C37: A contribution to the key ceremony is sound, for every scalar it samples but zero, for which it panics. Its
  receipt verifies and links the key before with the key after, survives serialisation, and the contribution keeps what the verifier pairs: every element of the two queries,
  paired with the new delta, is what it was with the old one.\<close>

theorem contribution_preserves_key:
  assumes "lawful_curve r cv" and "lawful_codec cv" and "ceremony_contribute_with_scalar cv pk d = Some (pk', receipt)"
  shows "verify_contribution cv receipt \<and> cr_old_delta_g2 receipt = pk_vk_delta_g2 pk \<and> cr_new_delta_g2 receipt = pk_vk_delta_g2 pk' \<and>
    receipt_from_bytes cv (receipt_to_bytes cv receipt) = Some receipt \<and> pk_rest pk' = pk_rest pk \<and>
    map (\<lambda>h. cv_pairing cv h (pk_vk_delta_g2 pk')) (pk_h_query pk') = map (\<lambda>h. cv_pairing cv h (pk_vk_delta_g2 pk)) (pk_h_query pk) \<and>
    map (\<lambda>l. cv_pairing cv l (pk_vk_delta_g2 pk')) (pk_l_query pk') = map (\<lambda>l. cv_pairing cv l (pk_vk_delta_g2 pk)) (pk_l_query pk)"
proof -
  obtain e where e: "cv_inverse cv d = Some e"
    and pk': "pk' = pk\<lparr>pk_vk_delta_g2 := cv_mul2 cv (pk_vk_delta_g2 pk) d, pk_delta_g1 := cv_mul1 cv (pk_delta_g1 pk) d,
        pk_h_query := map (\<lambda>h. cv_mul1 cv h e) (pk_h_query pk), pk_l_query := map (\<lambda>l. cv_mul1 cv l e) (pk_l_query pk)\<rparr>"
    and receipt: "receipt = \<lparr>cr_d_g1 = cv_mul1 cv (cv_generator1 cv) d, cr_old_delta_g2 = pk_vk_delta_g2 pk,
        cr_new_delta_g2 = cv_mul2 cv (pk_vk_delta_g2 pk) d\<rparr>"
    using assms(3) by (auto simp: ceremony_contribute_with_scalar_def bind_eq_Some_conv Let_def)
  have bil: "\<And>P Q a. cv_pairing cv (cv_mul1 cv P a) Q = cv_pairing cv P (cv_mul2 cv Q a)"
    and mul: "\<And>P a b. cv_mul1 cv (cv_mul1 cv P a) b = cv_mul1 cv P (a * b mod r)" "\<And>P. cv_mul1 cv P (1 mod r) = P"
    and one: "d * e mod r = 1 mod r"
    using assms(1) e unfolding lawful_curve_def by blast+
  have "cv_mul1 cv (cv_mul1 cv P e) d = P" for P using one unfolding mul(1) by (simp only: mult.commute[of e d] mul(2))
  then have pair: "cv_pairing cv (cv_mul1 cv P e) (cv_mul2 cv Q d) = cv_pairing cv P Q" for P Q
    unfolding bil[symmetric] by simp
  have des: "cv_deserialize1 cv (cv_serialize1 cv P @ rest) = Some (P, rest)" "cv_deserialize2 cv (cv_serialize2 cv Q @ rest) = Some (Q, rest)"
    "cv_deserialize2 cv (cv_serialize2 cv Q) = Some (Q, [])" for P Q rest
    using assms(2) unfolding lawful_codec_def by (blast, blast, metis append_Nil2)
  have "verify_contribution cv receipt" by (simp add: verify_contribution_def receipt bil)
  moreover have "receipt_from_bytes cv (receipt_to_bytes cv receipt) = Some receipt"
    by (simp add: receipt_from_bytes_def receipt_to_bytes_def receipt des)
  ultimately show ?thesis by (simp add: pk' receipt pair comp_def)
qed

text \<open>The field with two elements, and its own pairing.\<close>

definition toy_curve :: "(bool, bool, bool) curve" where
  "toy_curve = \<lparr>cv_mul1 = (\<lambda>P a. P \<and> odd a), cv_mul2 = (\<lambda>Q a. Q \<and> odd a), cv_generator1 = True, cv_pairing = (\<and>),
     cv_inverse = (\<lambda>d. if odd d then Some 1 else None),
     cv_serialize1 = (\<lambda>P. [of_bool P]), cv_serialize2 = (\<lambda>P. [of_bool P]),
     cv_deserialize1 = (\<lambda>bs. case bs of [] \<Rightarrow> None | b # r \<Rightarrow> Some (b = 1, r)),
     cv_deserialize2 = (\<lambda>bs. case bs of [] \<Rightarrow> None | b # r \<Rightarrow> Some (b = 1, r))\<rparr>"

lemma toy_curve_lawful: "lawful_curve 2 toy_curve" "lawful_codec toy_curve"
  by (auto simp: lawful_curve_def lawful_codec_def toy_curve_def mod2_eq_if split: if_splits)

theorem contribution_preserves_key_witness:
  "\<exists>pk' receipt. ceremony_contribute_with_scalar toy_curve
       \<lparr>pk_vk_delta_g2 = True, pk_delta_g1 = True, pk_h_query = [True, False], pk_l_query = [True], pk_rest = ()\<rparr> 3 = Some (pk', receipt) \<and>
     verify_contribution toy_curve receipt \<and> receipt_from_bytes toy_curve (receipt_to_bytes toy_curve receipt) = Some receipt"
proof -
  let ?pk = "\<lparr>pk_vk_delta_g2 = True, pk_delta_g1 = True, pk_h_query = [True, False], pk_l_query = [True], pk_rest = ()\<rparr>"
  obtain pk' receipt where "ceremony_contribute_with_scalar toy_curve ?pk 3 = Some (pk', receipt)"
    by (auto simp: ceremony_contribute_with_scalar_def toy_curve_def Let_def)
  then show ?thesis using contribution_preserves_key[OF toy_curve_lawful] by blast
qed

text \<open>The functional test of a ceremony key cannot fail on an invalid proof. The prover's check asks whether the
  verification ended without an error, so a key whose proofs are all invalid passes the test, although the pallet rejects
  its proofs.\<close>

theorem ceremony_check_accepts_invalid:
  assumes "generate_proof g nanos pk (bytes32_to_field g (replicate 32 1)) (bytes32_to_field g (replicate 32 2))
      (bytes32_to_field g (replicate 32 3)) (bytes32_to_field g (replicate 32 4)) (bytes32_to_field g (replicate 32 5)) = Some (pf, inputs)"
    and "pr_verify_proof g (vk_of pk) pf inputs = Some False" and "oc_verify_proof c = pr_verify_proof g"
    and "public_inputs_to_vec claimed = inputs"
  shows "verify_ceremony_pk g nanos vk_of pk \<and> \<not> verify_groth16_proof c (vk_of pk) pf claimed"
  using assms by (simp add: verify_ceremony_pk_def verify_proof_def verify_groth16_proof_def Let_def)

definition broken_proving :: "(unit, unit, nat list) proving" where
  "broken_proving = toy_proving\<lparr>pr_verify_proof := \<lambda>_ _ _. Some False\<rparr>"

theorem ceremony_check_accepts_invalid_witness: "verify_ceremony_pk broken_proving 0 (\<lambda>_. ()) ()"
proof -
  let ?g = broken_proving and ?c = "toy_offline\<lparr>oc_verify_proof := \<lambda>_ _ _. Some False\<rparr>"
  let ?p = "\<lambda>inputs. \<lparr>pi_commitment = inputs ! 0, pi_recipient_hash = inputs ! 1, pi_amount = inputs ! 2, pi_asset_hash = inputs ! 3,
    pi_nullifier = inputs ! 4\<rparr>"
  obtain pf inputs where gen: "generate_proof ?g 0 () (bytes32_to_field ?g (replicate 32 1)) (bytes32_to_field ?g (replicate 32 2))
      (bytes32_to_field ?g (replicate 32 3)) (bytes32_to_field ?g (replicate 32 4)) (bytes32_to_field ?g (replicate 32 5)) = Some (pf, inputs)"
    "length inputs = 5"
    by (simp add: generate_proof_def broken_proving_def toy_proving_def public_inputs_def Let_def)
  have "public_inputs_to_vec (?p inputs) = inputs"
    by (rule nth_equalityI) (use gen(2) in \<open>auto simp: public_inputs_to_vec_def less_Suc_eq numeral_eq_Suc\<close>)
  moreover have "pr_verify_proof ?g () pf inputs = Some False" "oc_verify_proof ?c = pr_verify_proof ?g"
    by (simp_all add: broken_proving_def)
  ultimately show ?thesis using ceremony_check_accepts_invalid[OF gen(1), where vk_of = "\<lambda>_. ()" and c = ?c] by blast
qed

end
