(* ===== verification/Chain.thy ===== *)
theory Chain
  imports Ceremony_Scenario Ceremony_Runs Democracy_Properties Ring_Invariants
begin

text \<open>
  The pallets together: the scheduler drives a list of listeners, in whatever order the runtime
  configures \<open>T::OnCeremonyPhaseChange\<close> (\<open>scheduler/src/lib.rs\<close> implements the trait for tuples), and
  between the blocks the calls of the pallets change the state they share. Tracked are the ceremonies, communities,
  commitments, rings and democracy pallets with all their calls; the other pallets reach this
  state only by registering purposes, committing attendances and moving balances, which are steps here.
\<close>

section \<open>The composed state\<close>

datatype phase_listener = CeremoniesListener | CommitmentsListener | RingsListener | DemocracyListener

record ('n, 'k) runtime =
  rt_ceremonies :: ceremonies
  rt_communities :: communities
  rt_balances :: balances
  rt_commitments :: commitments
  rt_rings :: rings
  rt_treasuries :: "'k treasuries"
  rt_native :: 'n
  rt_democracy :: "'k democracy"

text \<open>The part of the state that the enactment of proposals works on.\<close>

definition enactment_view :: "('n, 'k) runtime \<Rightarrow> ('n, 'k) chain" where
  "enactment_view w = \<lparr>ch_communities = rt_communities w, ch_balances = rt_balances w, ch_ceremonies = rt_ceremonies w,
     ch_treasuries = rt_treasuries w, ch_native = rt_native w, ch_democracy = rt_democracy w\<rparr>"

definition with_view :: "('n, 'k) chain \<Rightarrow> ('n, 'k) runtime \<Rightarrow> ('n, 'k) runtime" where
  "with_view v w = w\<lparr>rt_ceremonies := ch_ceremonies v, rt_communities := ch_communities v, rt_balances := ch_balances v,
     rt_treasuries := ch_treasuries v, rt_native := ch_native v, rt_democracy := ch_democracy v\<rparr>"

definition inform ::
  "'sig ceremonies_config \<Rightarrow> ('n, 'k) democracy_config \<Rightarrow> bytes \<Rightarrow> scheduler \<Rightarrow> CeremonyPhaseType \<Rightarrow> phase_listener \<Rightarrow>
   ('n, 'k) runtime \<Rightarrow> ('n, 'k) runtime option" where
  "inform c dc seed sch new_phase listener w =
     (case listener of
        CeremoniesListener \<Rightarrow>
          map_option (\<lambda>(s, cm, b). w\<lparr>rt_ceremonies := s, rt_communities := cm, rt_balances := b\<rparr>)
            (on_ceremony_phase_change c seed sch new_phase (rt_ceremonies w, rt_communities w, rt_balances w))
      | CommitmentsListener \<Rightarrow>
          Some (w\<lparr>rt_commitments :=
            commitments_on_phase_change sch (rt_communities w) (rt_ceremonies w) new_phase (rt_commitments w)\<rparr>)
      | RingsListener \<Rightarrow>
          Some (w\<lparr>rt_rings := rings_on_phase_change sch (rt_communities w) (rt_ceremonies w) new_phase (rt_rings w)\<rparr>)
      | DemocracyListener \<Rightarrow> Some (with_view (democracy_on_phase_change dc new_phase (enactment_view w)) w))"

text \<open>The implementation for tuples informs one after the other.\<close>

fun inform_all ::
  "'sig ceremonies_config \<Rightarrow> ('n, 'k) democracy_config \<Rightarrow> bytes \<Rightarrow> scheduler \<Rightarrow> CeremonyPhaseType \<Rightarrow> phase_listener list \<Rightarrow>
   ('n, 'k) runtime \<Rightarrow> ('n, 'k) runtime option" where
  "inform_all c dc seed sch new_phase [] w = Some w"
| "inform_all c dc seed sch new_phase (l # ls) w =
     Option.bind (inform c dc seed sch new_phase l w) (inform_all c dc seed sch new_phase ls)"

definition runtime_handler ::
  "'sig ceremonies_config \<Rightarrow> ('n, 'k) democracy_config \<Rightarrow> bytes \<Rightarrow> phase_listener list \<Rightarrow> ('n, 'k) runtime option phase_handler" where
  "runtime_handler c dc seed ls sch new_phase w = Option.bind w (inform_all c dc seed sch new_phase ls)"

text \<open>
  One step of the chain: a block, a phase change by the ceremony master, a call to set the schedule, a call of
  one of the tracked pallets on the state of the others, or a call of another pallet: these register purposes and commit
  attendances as the faucet does, or move balances and the funds of the treasuries, in whatever way. A handler that
  does not return produces no block.
\<close>

inductive chain_step ::
  "'sig ceremonies_config \<Rightarrow> ('n, 'k) democracy_config \<Rightarrow> rings_config \<Rightarrow> phase_listener list \<Rightarrow> nat \<Rightarrow>
   scheduler \<times> ('n, 'k) runtime \<Rightarrow> scheduler \<times> ('n, 'k) runtime \<Rightarrow> bool"
  for c :: "'sig ceremonies_config" and dc :: "('n, 'k) democracy_config" and rk ls day where
  chain_block: "ts_now sch \<le> now \<Longrightarrow> set_timestamp (runtime_handler c dc seed ls) day now sch (Some w) = (sch', Some w') \<Longrightarrow>
    chain_step c dc rk ls day (sch, w) (sch', w')"
| chain_next_phase: "next_phase (runtime_handler c dc seed ls) m sch (Some w) = Inr (sch', Some w') \<Longrightarrow>
    chain_step c dc rk ls day (sch, w) (sch', w')"
| chain_push: "push_by_one_day day m sch = Inr sch' \<Longrightarrow> chain_step c dc rk ls day (sch, w) (sch', w)"
| chain_duration: "set_phase_duration m ph d sch = Inr sch' \<Longrightarrow> chain_step c dc rk ls day (sch, w) (sch', w)"
| chain_next_timestamp: "set_next_phase_timestamp m t sch = Inr sch' \<Longrightarrow> chain_step c dc rk ls day (sch, w) (sch', w)"
| chain_ceremonies: "ceremonies_call c sch (rt_ceremonies w, rt_balances w) (s, b) \<Longrightarrow>
    chain_step c dc rk ls day (sch, w) (sch, w\<lparr>rt_ceremonies := s, rt_balances := b\<rparr>)"
| chain_communities: "communities_step (dc_communities dc) (rt_communities w, rt_balances w) (cm, b) \<Longrightarrow>
    chain_step c dc rk ls day (sch, w) (sch, w\<lparr>rt_communities := cm, rt_balances := b\<rparr>)"
| chain_purpose: "do_register_purpose d (rt_commitments w) = Inr (p, rc) \<Longrightarrow>
    chain_step c dc rk ls day (sch, w) (sch, w\<lparr>rt_commitments := rc\<rparr>)"
| chain_commit: "do_commit_reputation (rt_ceremonies w) who cid cindex purpose hash (rt_commitments w) = Inr rc \<Longrightarrow>
    chain_step c dc rk ls day (sch, w) (sch, w\<lparr>rt_commitments := rc\<rparr>)"
| chain_key: "chain_step c dc rk ls day (sch, w) (sch, w\<lparr>rt_rings := register_bandersnatch_key who key (rt_rings w)\<rparr>)"
| chain_initiate: "initiate_rings sch (rt_communities w) cid cindex (rt_rings w) = Inr r \<Longrightarrow>
    chain_step c dc rk ls day (sch, w) (sch, w\<lparr>rt_rings := r\<rparr>)"
| chain_continue: "continue_ring_computation rk (rt_ceremonies w) (rt_rings w) = Inr r \<Longrightarrow>
    chain_step c dc rk ls day (sch, w) (sch, w\<lparr>rt_rings := r\<rparr>)"
| chain_idle: "on_idle rk (rt_ceremonies w) weight (rt_rings w) = Some (used, r) \<Longrightarrow>
    chain_step c dc rk ls day (sch, w) (sch, w\<lparr>rt_rings := r\<rparr>)"
| chain_submit: "submit_proposal dc sch (rt_ceremonies w) action (rt_democracy w, rt_commitments w) = Inr (s, rc) \<Longrightarrow>
    chain_step c dc rk ls day (sch, w) (sch, w\<lparr>rt_democracy := s, rt_commitments := rc\<rparr>)"
| chain_vote: "vote dc sch (rt_ceremonies w) who i v reps (rt_democracy w, rt_commitments w) = Inr (s, rc) \<Longrightarrow>
    chain_step c dc rk ls day (sch, w) (sch, w\<lparr>rt_democracy := s, rt_commitments := rc\<rparr>)"
| chain_update: "update_proposal_state dc sch i (rt_democracy w) = Inr s \<Longrightarrow>
    chain_step c dc rk ls day (sch, w) (sch, w\<lparr>rt_democracy := s\<rparr>)"
| chain_elsewhere: "chain_step c dc rk ls day (sch, w) (sch, w\<lparr>rt_balances := b, rt_treasuries := tr, rt_native := n\<rparr>)"

section \<open>The invariant of the pallets together\<close>

definition runtime_ok :: "('n, 'k) democracy_config \<Rightarrow> rings_config \<Rightarrow> ('n, 'k) runtime \<Rightarrow> bool" where
  "runtime_ok dc rk w \<longleftrightarrow> ceremonies_ok (rt_ceremonies w) \<and> communities_ok (dc_communities dc) (rt_communities w) \<and>
     purposes_ok (rt_commitments w) \<and> rings_ok rk (rt_rings w) \<and> democracy_ok (rt_democracy w)"

text \<open>
  Enactment. The actions on communities are those of the calls, but for the addition of a location, which may stop half
  way: the location is stored and its community not yet in the index of the geohash.
\<close>

lemma store_location_ok:
  assumes "communities_ok cc s" and "store_location cc cid location s = Inr (g, s1)"
  shows "communities_ok cc s1" and "location \<in> set (locations s1 cid g)"
proof -
  have g: "cc_try_from_params cc (lat location) (lon location) = Some g" and cid: "cid \<in> set (cm_community_identifiers s)"
    and here: "location \<in> set (locations s1 cid g)"
    using assms(2) by (rule store_location_cases, simp)+
  have old: "sorted_wrt (<) (locations s cid g)"
    "\<forall>l\<in>set (locations s cid g). cc_try_from_params cc (lat l) (lon l) = Some g"
    using assms(1) by (auto simp: communities_ok_def)
  have "s1 = s \<or> location \<notin> set (locations s cid g) \<and> s1 = insert_locations cid g (insort location (locations s cid g)) s"
  proof (cases "location \<in> set (locations s cid g)")
    case True
    then obtain i where "binary_search location (locations s cid g) = Inr i" by (rule binary_search_present)
    then show ?thesis using assms(2) g by (auto simp: store_location_def bind_res_Inr ok_or_Inr)
  next
    case False
    then obtain i where "binary_search location (locations s cid g) = Inl i"
      "vec_insert i location (locations s cid g) = insort location (locations s cid g)"
      by (rule binary_search_absent)
    then show ?thesis using assms(2) g False by (auto simp: store_location_def bind_res_Inr ok_or_Inr try_insert_def split: if_splits)
  qed
  then show "communities_ok cc s1"
    using assms(1) insert_locations_ok[OF assms(1) cid strict_sorted_insort[OF old(1)]] old(2) g
    by (auto simp: set_insort_key insort_is_Cons)
  show "location \<in> set (locations s1 cid g)" by (rule here)
qed

lemma add_location_in_place_ok:
  assumes "communities_ok cc s"
  shows "communities_ok cc (snd (do_add_location_in_place cc cid location s))"
proof (cases "store_location cc cid location s")
  case (Inr gs)
  obtain g s1 where gs: "gs = (g, s1)" by (cases gs)
  note stored = store_location_ok[OF assms Inr[unfolded gs]]
  then have "locations s1 cid g \<noteq> []" by auto
  then have "communities_ok cc s2" if "index_cid cc g cid s1 = Inr s2" for s2
    using index_cid_ok[OF stored(1) that] by blast
  then show ?thesis using Inr stored(1) by (auto simp: do_add_location_in_place_def gs deposit_ok split: sum.splits)
qed (simp add: do_add_location_in_place_def assms)

lemma enactment_communities_ok:
  assumes "communities_ok cc s"
  shows "do_remove_location cc cid l s = Inr s' \<Longrightarrow> communities_ok cc s'"
    and "do_update_community_metadata cid md s = Inr s' \<Longrightarrow> communities_ok cc s'"
    and "do_update_demurrage cid d s b = Inr (s', b') \<Longrightarrow> communities_ok cc s'"
    and "do_update_nominal_income cid i s = Inr s' \<Longrightarrow> communities_ok cc s'"
proof -
  have step: "communities_ok cc s'" if "communities_step cc (s, b) (s', b')" for s' b'
    using communities_step_ok[OF that] assms by simp
  show "do_remove_location cc cid l s = Inr s' \<Longrightarrow> communities_ok cc s'"
    using step step_remove[of cc Registering True cid l s s' b] by (simp add: remove_location_def ensure_def)
  show "do_update_community_metadata cid md s = Inr s' \<Longrightarrow> communities_ok cc s'"
    using step step_metadata[of True cid md s s' cc b] by (simp add: update_community_metadata_def ensure_def)
  show "do_update_demurrage cid d s b = Inr (s', b') \<Longrightarrow> communities_ok cc s'"
    using step step_demurrage[of True cid d s b "(s', b')" cc] by (simp add: update_demurrage_def ensure_def)
  show "do_update_nominal_income cid i s = Inr s' \<Longrightarrow> communities_ok cc s'"
    using step step_income[of True cid i s s' cc b] by (simp add: update_nominal_income_def ensure_def)
qed

lemma execute_action_ok:
  assumes "communities_ok (dc_communities dc) (ch_communities v)" and "ceremonies_ok (ch_ceremonies v)"
  shows "communities_ok (dc_communities dc) (ch_communities (snd (execute_action dc a v)))"
    and "ceremonies_ok (ch_ceremonies (snd (execute_action dc a v)))"
proof -
  have timeout: "ceremonies_ok (do_set_inactivity_timeout n s)" if "ceremonies_ok s" for n s
  proof -
    have "set_inactivity_timeout True n s = Inr (do_set_inactivity_timeout n s)"
      by (simp add: set_inactivity_timeout_def ensure_def)
    from ceremonies_call_ok[OF call_inactivity[OF this]] that show ?thesis by simp
  qed
  have "communities_ok (dc_communities dc) (ch_communities (snd (execute_action dc a v))) \<and>
    ceremonies_ok (ch_ceremonies (snd (execute_action dc a v)))"
  proof (cases a)
    case (AddLocation cid l)
    then show ?thesis using assms add_location_in_place_ok[OF assms(1), of cid l]
      by (cases "do_add_location_in_place (dc_communities dc) cid l (ch_communities v)"; cases "fst (do_add_location_in_place (dc_communities dc) cid l (ch_communities v))")
         simp_all
  qed (use assms timeout enactment_communities_ok[OF assms(1)] in
      \<open>auto simp: lift_communities_def lift_treasuries_def split: sum.splits prod.splits\<close>)
  then show "communities_ok (dc_communities dc) (ch_communities (snd (execute_action dc a v)))"
    "ceremonies_ok (ch_ceremonies (snd (execute_action dc a v)))" by blast+
qed

lemma enact_or_report_ok:
  assumes "communities_ok (dc_communities dc) (ch_communities v)" and "ceremonies_ok (ch_ceremonies v)"
  shows "communities_ok (dc_communities dc) (ch_communities (enact_or_report dc i v)) \<and> ceremonies_ok (ch_ceremonies (enact_or_report dc i v))"
proof (cases "de_proposals (ch_democracy v) i")
  case (Some p)
  then show ?thesis using execute_action_ok[OF assms, of "pr_action p"]
    by (cases "execute_action dc (pr_action p) v"; cases "fst (execute_action dc (pr_action p) v)")
       (simp_all add: enact_or_report_def enact_proposal_def Let_def)
qed (simp add: enact_or_report_def enact_proposal_def assms)

lemma enactment_ok:
  assumes "communities_ok (dc_communities dc) (ch_communities v)" and "ceremonies_ok (ch_ceremonies v)"
  shows "communities_ok (dc_communities dc) (ch_communities (democracy_on_phase_change dc ph v)) \<and>
    ceremonies_ok (ch_ceremonies (democracy_on_phase_change dc ph v))"
proof -
  have "communities_ok (dc_communities dc) (ch_communities (fold (enact_or_report dc) ps v)) \<and>
      ceremonies_ok (ch_ceremonies (fold (enact_or_report dc) ps v))" for ps
    using assms by (induction ps arbitrary: v) (simp_all add: enact_or_report_ok)
  then show ?thesis using assms by (cases ph) (simp_all add: democracy_on_phase_change_def Let_def)
qed

lemma purge_community_communities_ok:
  "communities_ok cc (fst (snd w)) \<Longrightarrow> communities_ok cc (fst (snd (ceremonies_purge_community sch cid w)))"
proof -
  assume ok: "communities_ok cc (fst (snd w))"
  obtain s cm b where w: "w = (s, cm, b)" by (cases w)
  obtain cm' b' where r: "remove_community cid cm b = (cm', b')" by fastforce
  have "communities_ok cc cm'" using remove_community_spec(1)[OF _ r] ok w by simp
  then show ?thesis by (simp add: w r ceremonies_purge_community_def Let_def)
qed

lemma on_phase_change_communities_ok:
  assumes "on_ceremony_phase_change c seed sch ph (s, cm, b) = Some (s', cm', b')" and "communities_ok cc cm"
  shows "communities_ok cc cm'"
proof (cases ph)
  case Assigning
  obtain inactives s1 where upd: "update_inactivity_counters (saturating_sub (sc_ceremony_index sch) 1)
      (ce_inactivity_timeout s) (cm_community_identifiers cm) s = (inactives, s1)" by fastforce
  let ?f = "foldl (\<lambda>w cid. ceremonies_purge_community sch cid w) (s1, cm, b) inactives"
  have "communities_ok cc (fst (snd ?f))"
    by (rule foldl_invariant[of "\<lambda>w. communities_ok cc (fst (snd w))"])
       (use purge_community_communities_ok assms(2) in simp_all)
  then show ?thesis using assms(1) Assigning upd
    by (auto simp: on_ceremony_phase_change_def split: prod.splits)
qed (use assms in \<open>auto simp: on_ceremony_phase_change_def Let_def split: if_splits\<close>)

lemma commitments_phase_change_ok: "purposes_ok s \<Longrightarrow> purposes_ok (commitments_on_phase_change sch cm ce ph s)"
  using commitments_step_ok[OF commitments_step.step_phase[of sch "sc_ceremony_index sch" ce s cm ph]] by simp

lemma inform_ok:
  assumes "inform c dc seed sch ph l w = Some w'" and "runtime_ok dc rk w" and "lawful_iteration dc"
  shows "runtime_ok dc rk w'"
proof (cases l)
  case CeremoniesListener
  then obtain s cm b where r: "on_ceremony_phase_change c seed sch ph (rt_ceremonies w, rt_communities w, rt_balances w) = Some (s, cm, b)"
    "w' = w\<lparr>rt_ceremonies := s, rt_communities := cm, rt_balances := b\<rparr>" using assms(1) by (auto simp: inform_def)
  then show ?thesis using on_phase_change_ok[OF r(1)] on_phase_change_communities_ok[OF r(1)] assms(2)
    by (simp add: runtime_ok_def)
next
  case DemocracyListener
  then have w': "w' = with_view (democracy_on_phase_change dc ph (enactment_view w)) w" using assms(1) by (simp add: inform_def)
  have "democracy_ok (ch_democracy (democracy_on_phase_change dc ph (enactment_view w)))"
    using phase_change_ok[OF assms(3), of "enactment_view w" ph] assms(2) by (simp add: runtime_ok_def enactment_view_def)
  then show ?thesis using enactment_ok[of dc "enactment_view w" ph] assms(2)
    by (simp add: w' runtime_ok_def with_view_def enactment_view_def)
qed (use assms commitments_phase_change_ok rings_on_phase_change_ok in \<open>auto simp: inform_def runtime_ok_def\<close>)

lemma inform_all_ok:
  "inform_all c dc seed sch ph ls w = Some w' \<Longrightarrow> runtime_ok dc rk w \<Longrightarrow> lawful_iteration dc \<Longrightarrow> runtime_ok dc rk w'"
  by (induction ls arbitrary: w) (auto simp: bind_eq_Some_conv dest: inform_ok)

lemma progress_phase_runtime_ok:
  assumes "progress_phase (runtime_handler c dc seed ls) sch (Some w) = (r, sch', Some w')" and "runtime_ok dc rk w" and "lawful_iteration dc"
  shows "runtime_ok dc rk w'"
  using assms inform_all_ok
  by (cases rule: progress_phase_cases[of sch "runtime_handler c dc seed ls" "Some w"])
     (auto simp: runtime_handler_def prod_eq_iff split: if_splits)

lemma set_timestamp_runtime_ok:
  assumes "set_timestamp (runtime_handler c dc seed ls) day now sch (Some w) = (sch', Some w')" and "runtime_ok dc rk w" and "lawful_iteration dc"
  shows "runtime_ok dc rk w'"
proof -
  obtain r s1 v where p: "progress_phase (runtime_handler c dc seed ls) (sch\<lparr>ts_now := now\<rparr>) (Some w) = (r, s1, v)"
    by (cases "progress_phase (runtime_handler c dc seed ls) (sch\<lparr>ts_now := now\<rparr>) (Some w)")
  then show ?thesis using assms progress_phase_runtime_ok[of c dc seed ls "sch\<lparr>ts_now := now\<rparr>" w r s1 w' rk]
    by (auto simp: set_timestamp_def scheduler_on_timestamp_set_def Let_def split: if_splits sum.splits)
qed

lemma next_phase_runtime_ok:
  assumes "next_phase (runtime_handler c dc seed ls) m sch (Some w) = Inr (sch', Some w')" and "runtime_ok dc rk w" and "lawful_iteration dc"
  shows "runtime_ok dc rk w'"
proof -
  obtain r s1 v where p: "progress_phase (runtime_handler c dc seed ls) sch (Some w) = (r, s1, v)"
    by (cases "progress_phase (runtime_handler c dc seed ls) sch (Some w)")
  then show ?thesis using assms progress_phase_runtime_ok[of c dc seed ls sch w r s1 w' rk]
    by (auto simp: next_phase_def res_simps split: sum.splits)
qed

lemma vote_purposes_ok:
  assumes "vote dc sch ce a i v reps (s, rc) = Inr (s', rc')" and "purposes_ok rc"
  shows "purposes_ok rc'"
proof -
  have loop: "commit_reputations dc sch ce proposal p a ccs n rc = Inr (n', rc') \<Longrightarrow> purposes_ok rc \<Longrightarrow> purposes_ok rc'" for proposal p ccs n n' rc
    by (induction ccs arbitrary: n rc) (auto simp: bind_res_Inr dest: do_commit_reputation_ok split: if_splits sum.splits)
  from assms(1) show ?thesis
  proof (rule vote_cases)
    fix n s1 assume "validate_and_commit_reputations dc sch ce i a reps s1 rc = Inr (n, rc')"
    then show ?thesis using loop assms(2) by (auto simp: validate_and_commit_reputations_def bind_res_Inr)
  qed
qed

lemma chain_step_ok:
  assumes "chain_step c dc rk ls day (sch, w) (sch', w')" and "runtime_ok dc rk w" and "lawful_key_order rk" and "lawful_iteration dc"
  shows "runtime_ok dc rk w'"
  using assms(1)
proof cases
  case (chain_block now seed)
  then show ?thesis using set_timestamp_runtime_ok assms(2,4) by blast
next
  case (chain_next_phase seed m)
  then show ?thesis using next_phase_runtime_ok assms(2,4) by blast
next
  case (chain_ceremonies s b)
  then show ?thesis using ceremonies_call_ok[OF chain_ceremonies(3)] assms(2) by (simp add: runtime_ok_def)
next
  case (chain_communities cm b)
  then show ?thesis using communities_step_ok[OF chain_communities(3)] assms(2) by (simp add: runtime_ok_def)
next
  case (chain_purpose d p rc)
  then show ?thesis using do_register_purpose_ok(1) assms(2) by (simp add: runtime_ok_def)
next
  case (chain_commit who cid cindex purpose hash rc)
  then show ?thesis using do_commit_reputation_ok assms(2) by (simp add: runtime_ok_def)
next
  case (chain_key who key)
  then show ?thesis using rings_step_ok[OF rings_step.register _ assms(3)] assms(2) by (simp add: runtime_ok_def)
next
  case (chain_initiate cid cindex r)
  then show ?thesis using rings_step_ok[OF rings_step.initiate[OF chain_initiate(3)] _ assms(3)] assms(2) by (simp add: runtime_ok_def)
next
  case (chain_continue r)
  then show ?thesis using rings_step_ok[OF rings_step.continue[OF chain_continue(3)] _ assms(3)] assms(2) by (simp add: runtime_ok_def)
next
  case (chain_idle weight used r)
  then show ?thesis using rings_step_ok[OF rings_step.idle[OF chain_idle(3)] _ assms(3)] assms(2) by (simp add: runtime_ok_def)
next
  case (chain_submit action s rc)
  then obtain d p where "do_register_purpose d (rt_commitments w) = Inr (p, rc)" by (auto elim: submit_cases)
  then show ?thesis using do_register_purpose_ok(1) submit_ok[OF chain_submit(3)] assms(2) chain_submit(2) by (simp add: runtime_ok_def)
next
  case (chain_vote who i v reps s rc)
  then show ?thesis using vote_purposes_ok[OF chain_vote(3)] vote_ok[OF chain_vote(3)] assms(2) by (simp add: runtime_ok_def)
next
  case (chain_update i s)
  then show ?thesis using update_ok assms(2) by (auto simp: update_proposal_state_def bind_res_Inr runtime_ok_def)
qed (use assms(2) in \<open>simp_all add: runtime_ok_def\<close>)

lemma chain_steps_ok:
  assumes "(chain_step c dc rk ls day)\<^sup>*\<^sup>* x y" and "runtime_ok dc rk (snd x)" and "lawful_key_order rk" and "lawful_iteration dc"
  shows "runtime_ok dc rk (snd y)"
  using assms(1,2)
proof (induction rule: rtranclp_induct)
  case (step y z)
  then show ?case using chain_step_ok[of c dc rk ls day "fst y" "snd y" "fst z" "snd z"] assms(3,4) by simp
qed simp

definition runtime_genesis :: "ceremonies \<Rightarrow> communities \<Rightarrow> balances \<Rightarrow> 'n \<Rightarrow> nat \<Rightarrow> ('n, 'k) runtime" where
  "runtime_genesis s cm b funds proposal_count =
     \<lparr>rt_ceremonies = s, rt_communities = cm, rt_balances = b, rt_commitments = commitments_genesis, rt_rings = rings_genesis,
      rt_treasuries = treasuries_genesis, rt_native = funds, rt_democracy = democracy_genesis proposal_count\<rparr>"

section \<open>Forgetting a ceremony\<close>

text \<open>What a listener removes of an old ceremony of a community at the start of a cycle.\<close>

definition forgotten :: "phase_listener \<Rightarrow> CommunityCeremony \<Rightarrow> ('n, 'k) runtime \<Rightarrow> bool" where
  "forgotten l cc w \<longleftrightarrow>
     (case l of
        CeremoniesListener \<Rightarrow> ce_reputation (rt_ceremonies w) cc = Map.empty
      | CommitmentsListener \<Rightarrow> rc_commitments (rt_commitments w) cc = Map.empty
      | RingsListener \<Rightarrow> rr_ring_members (rt_rings w) cc = Map.empty \<and> rr_sub_ring_count (rt_rings w) cc = Map.empty
      | DemocracyListener \<Rightarrow> True)"

lemma purge_internal_reputation:
  "ce_reputation (purge_community_ceremony_internal cc s) = dm_remove_prefix cc (ce_reputation s)"
  "ce_reputation_lifetime (purge_community_ceremony_internal cc s) = ce_reputation_lifetime s"
  by (simp_all add: purge_community_ceremony_internal_def ce_deposit_event_def)

lemma purge_registry_reputation:
  "ce_reputation_lifetime (purge_registry cm j s) = ce_reputation_lifetime s"
  "ce_reputation (purge_registry cm j s) (cid, i) =
     (if i = j \<and> cid \<in> set (cm_community_identifiers cm) then Map.empty else ce_reputation s (cid, i))"
proof -
  have "ce_reputation_lifetime (foldl (\<lambda>s cid. purge_community_ceremony_internal (cid, j) s) s cids) = ce_reputation_lifetime s \<and>
    ce_reputation (foldl (\<lambda>s cid. purge_community_ceremony_internal (cid, j) s) s cids) (cid, i) =
      (if i = j \<and> cid \<in> set cids then Map.empty else ce_reputation s (cid, i))" for cids
    by (induction cids arbitrary: s) (auto simp: purge_internal_reputation dm_remove_prefix_def)
  then show "ce_reputation_lifetime (purge_registry cm j s) = ce_reputation_lifetime s"
    "ce_reputation (purge_registry cm j s) (cid, i) =
     (if i = j \<and> cid \<in> set (cm_community_identifiers cm) then Map.empty else ce_reputation s (cid, i))"
    by (simp_all add: purge_registry_def)
qed

lemma purge_rings_members:
  "rr_ring_members (purge_rings cm j s) (cid, i) =
     (if i = j \<and> cid \<in> set (cm_community_identifiers cm) then Map.empty else rr_ring_members s (cid, i))"
  "rr_sub_ring_count (purge_rings cm j s) (cid, i) =
     (if i = j \<and> cid \<in> set (cm_community_identifiers cm) then Map.empty else rr_sub_ring_count s (cid, i))"
proof -
  have "rr_ring_members (foldl (\<lambda>s cid. purge_community_ceremony_rings cid j s) s cids) (cid, i) =
      (if i = j \<and> cid \<in> set cids then Map.empty else rr_ring_members s (cid, i)) \<and>
    rr_sub_ring_count (foldl (\<lambda>s cid. purge_community_ceremony_rings cid j s) s cids) (cid, i) =
      (if i = j \<and> cid \<in> set cids then Map.empty else rr_sub_ring_count s (cid, i))" for cids
    by (induction cids arbitrary: s) (auto simp: purge_community_ceremony_rings_def dm_remove_prefix_def)
  then show "rr_ring_members (purge_rings cm j s) (cid, i) =
     (if i = j \<and> cid \<in> set (cm_community_identifiers cm) then Map.empty else rr_ring_members s (cid, i))"
    "rr_sub_ring_count (purge_rings cm j s) (cid, i) =
     (if i = j \<and> cid \<in> set (cm_community_identifiers cm) then Map.empty else rr_sub_ring_count s (cid, i))"
    by (simp_all add: purge_rings_def rr_deposit_event_def)
qed

lemma inform_forgets:
  assumes "inform c dc seed sch Registering l w = Some w'" and "ce_reputation_lifetime (rt_ceremonies w) < sc_ceremony_index sch"
    and "cid \<in> set (cm_community_identifiers (rt_communities w))"
    and "j = sc_ceremony_index sch - ce_reputation_lifetime (rt_ceremonies w) - 1"
  shows "rt_communities w' = rt_communities w" and "ce_reputation_lifetime (rt_ceremonies w') = ce_reputation_lifetime (rt_ceremonies w)"
    and "forgotten l (cid, j) w'" and "forgotten l' (cid, j) w \<Longrightarrow> forgotten l' (cid, j) w'"
proof -
  have r: "rt_communities w' = rt_communities w \<and> ce_reputation_lifetime (rt_ceremonies w') = ce_reputation_lifetime (rt_ceremonies w) \<and>
    forgotten l (cid, j) w' \<and> (forgotten l' (cid, j) w \<longrightarrow> forgotten l' (cid, j) w')"
    using assms
    by (cases l; cases l')
       (auto simp: inform_def forgotten_def democracy_on_phase_change_def with_view_def enactment_view_def on_ceremony_phase_change_def commitments_on_phase_change_def rings_on_phase_change_def
          saturating_sub_def purge_registry_reputation purge_rings_members purge_commitments Let_def)
  then show "rt_communities w' = rt_communities w" "ce_reputation_lifetime (rt_ceremonies w') = ce_reputation_lifetime (rt_ceremonies w)"
    "forgotten l (cid, j) w'" "forgotten l' (cid, j) w \<Longrightarrow> forgotten l' (cid, j) w'" by blast+
qed

lemma inform_all_forgets:
  assumes "inform_all c dc seed sch Registering ls w = Some w'"
    and "ce_reputation_lifetime (rt_ceremonies w) < sc_ceremony_index sch"
    and "cid \<in> set (cm_community_identifiers (rt_communities w))"
    and "j = sc_ceremony_index sch - ce_reputation_lifetime (rt_ceremonies w) - 1"
    and "l \<in> set ls \<or> forgotten l (cid, j) w"
  shows "forgotten l (cid, j) w'"
  using assms
proof (induction ls arbitrary: w)
  case (Cons k ks)
  then obtain v where v: "inform c dc seed sch Registering k w = Some v" "inform_all c dc seed sch Registering ks v = Some w'"
    by (auto simp: bind_eq_Some_conv)
  note f = inform_forgets[OF v(1) Cons.prems(2-4)]
  show ?case by (rule Cons.IH[OF v(2)]) (use Cons.prems f in auto)
qed simp

definition plain_rings :: rings_config where
  "plain_rings = \<lparr>rk_max_ring_size = 255, rk_collect_weight = (10, 0), rk_build_weight = (20, 0),
     rk_db_overhead = (5, 0), rk_iteration = (\<lambda>ks. ks)\<rparr>"

section \<open>Properties\<close>

text \<open>C3: The pallets keep their invariants together. From genesis on, through any sequence of blocks, phase changes
  and calls of the pallets (the purge of a ceremony by its master and the enactment of proposals in the phase change included), and for every order
  in which the runtime informs the pallets of a new phase: every participant is in one
  registry only, the community books are consistent, commitments refer to registered purposes, the stored rings and
  the pending computation are well formed, and what is queued for enactment is approved and queued once. This
  holds also after an enactment that failed half way through adding a location.\<close>

theorem chain_invariant:
  assumes "(chain_step c dc rk ls day)\<^sup>*\<^sup>*
      (sch0, runtime_genesis (ceremonies_genesis reward lt tt it tb tr lifetime offset) (communities_genesis t v) b0 funds n) (sch, w)"
    and "lawful_key_order rk" and "lawful_iteration dc"
  shows "ceremonies_ok (rt_ceremonies w) \<and> communities_ok (dc_communities dc) (rt_communities w) \<and> purposes_ok (rt_commitments w) \<and>
    rings_ok rk (rt_rings w) \<and> democracy_ok (rt_democracy w)"
proof -
  have "runtime_ok dc rk (runtime_genesis (ceremonies_genesis reward lt tt it tb tr lifetime offset) (communities_genesis t v) b0 funds n)"
    by (simp add: runtime_ok_def runtime_genesis_def genesis_ceremonies_ok genesis_ok genesis_purposes_ok genesis_rings_ok genesis_democracy_ok)
  then show ?thesis using chain_steps_ok[OF assms(1) _ assms(2,3)] by (simp add: runtime_ok_def)
qed

theorem chain_invariant_witness:
  "\<exists>w. (chain_step small_config electorate_config plain_rings [RingsListener, DemocracyListener, CeremoniesListener, CommitmentsListener] 86400000)\<^sup>*\<^sup>*
       (clock 4 Registering, runtime_genesis small_genesis (communities_genesis 1 83) (balances_genesis 5) (\<lambda>_. 0) 0) (clock 4 Registering, w) \<and>
     rt_communities w = fst one_community \<and> communities_ok flat_config (rt_communities w) \<and> rings_ok plain_rings (rt_rings w)"
proof (rule one_community_spec)
  fix s assume same: "fst one_community = s" and one: "one_community = (s, balances_genesis 5)"
    "new_community flat_config True origin [2, 3, 4] default_metadata None None
       (communities_genesis 1 83) (balances_genesis 5) = Inr (s, balances_genesis 5)"
  let ?g = "runtime_genesis small_genesis (communities_genesis 1 83) (balances_genesis 5) (\<lambda>_. 0) 0 :: (AccountId \<Rightarrow> nat, unit) runtime"
  let ?w = "?g\<lparr>rt_communities := s, rt_balances := balances_genesis 5\<rparr>"
  let ?w' = "?w\<lparr>rt_rings := register_bandersnatch_key 11 [9] (rt_rings ?w)\<rparr>"
  let ?step = "chain_step small_config electorate_config plain_rings [RingsListener, DemocracyListener, CeremoniesListener, CommitmentsListener] 86400000"
  have flat: "dc_communities electorate_config = flat_config" by (simp add: electorate_config_def)
  have "communities_step (dc_communities electorate_config) (rt_communities ?g, rt_balances ?g) (s, balances_genesis 5)"
    using step_new[OF one(2)] by (simp add: runtime_genesis_def flat)
  then have "?step (clock 4 Registering, ?g) (clock 4 Registering, ?w)" by (rule chain_communities)
  moreover have "?step (clock 4 Registering, ?w) (clock 4 Registering, ?w')" by (rule chain_key)
  ultimately have reach: "?step\<^sup>*\<^sup>* (clock 4 Registering, ?g) (clock 4 Registering, ?w')"
    by (meson converse_rtranclp_into_rtranclp rtranclp.rtrancl_refl)
  have "lawful_key_order plain_rings" by (simp add: lawful_key_order_def plain_rings_def)
  from chain_invariant[OF reach[unfolded small_genesis_def] this small_iteration, folded small_genesis_def, unfolded flat] have "communities_ok flat_config (rt_communities ?w')" "rings_ok plain_rings (rt_rings ?w')"
    by blast+
  moreover have "rt_communities ?w' = fst one_community" unfolding same by simp
  ultimately show ?thesis using reach by blast
qed

text \<open>C35: The pallets forget a ceremony in the same block. When a registering phase begins, in whatever order the
  runtime informs the listeners, the ceremony that leaves the reputation lifetime loses its reputations, its commitments
  and its published rings in every registered community.\<close>

theorem pallets_forget_together:
  assumes "inform_all c dc seed sch Registering ls w = Some w'"
    and "{CeremoniesListener, CommitmentsListener, RingsListener} \<subseteq> set ls"
    and "ce_reputation_lifetime (rt_ceremonies w) < sc_ceremony_index sch"
    and "cid \<in> set (cm_community_identifiers (rt_communities w))"
    and "j = sc_ceremony_index sch - ce_reputation_lifetime (rt_ceremonies w) - 1"
  shows "ce_reputation (rt_ceremonies w') (cid, j) = Map.empty \<and> rc_commitments (rt_commitments w') (cid, j) = Map.empty \<and>
    rr_ring_members (rt_rings w') (cid, j) = Map.empty \<and> rr_sub_ring_count (rt_rings w') (cid, j) = Map.empty"
proof -
  have "forgotten l (cid, j) w'" if "l \<in> set ls" for l
    using inform_all_forgets[OF assms(1,3,4,5)] that by blast
  then have "forgotten CeremoniesListener (cid, j) w'" "forgotten CommitmentsListener (cid, j) w'" "forgotten RingsListener (cid, j) w'"
    using assms(2) by simp_all
  then show ?thesis by (simp add: forgotten_def)
qed

definition attended_runtime :: "(AccountId \<Rightarrow> nat, unit) runtime" where
  "attended_runtime = runtime_genesis (put_reputation small_cc 11 VerifiedUnlinked small_genesis) small_communities (balances_genesis 1) (\<lambda>_. 0) 0"

theorem pallets_forget_together_witness:
  "ce_reputation (rt_ceremonies attended_runtime) small_cc 11 = Some VerifiedUnlinked \<and>
   (\<exists>w. inform_all small_config electorate_config [1] (clock 10 Registering) Registering [RingsListener, CeremoniesListener, DemocracyListener, CommitmentsListener]
       attended_runtime = Some w \<and> ce_reputation (rt_ceremonies w) small_cc = Map.empty \<and> rc_commitments (rt_commitments w) small_cc = Map.empty)"
proof -
  let ?ls = "[RingsListener, CeremoniesListener, DemocracyListener, CommitmentsListener]" and ?w = attended_runtime
  have w: "ce_reputation (rt_ceremonies ?w) small_cc 11 = Some VerifiedUnlinked" "ce_reputation_lifetime (rt_ceremonies ?w) = 5"
    "demo_cid \<in> set (cm_community_identifiers (rt_communities ?w))" "sc_ceremony_index (clock 10 Registering) = 10"
    by (simp_all add: attended_runtime_def runtime_genesis_def put_reputation_def dm_insert_apply small_genesis_def ceremonies_genesis_def
        small_communities_def clock_def scheduler_genesis_def)
  obtain w' where w': "inform_all small_config electorate_config [1] (clock 10 Registering) Registering ?ls ?w = Some w'"
    using w(2,4) by (simp add: inform_def on_ceremony_phase_change_def democracy_on_phase_change_def with_view_def enactment_view_def Let_def)
  have "{CeremoniesListener, CommitmentsListener, RingsListener} \<subseteq> set ?ls" by auto
  then have "ce_reputation (rt_ceremonies w') small_cc = Map.empty \<and> rc_commitments (rt_commitments w') small_cc = Map.empty"
    using pallets_forget_together[OF w' _ _ w(3), of 4] w(2,4) by simp
  then show ?thesis using w(1) w' by blast
qed

end
