(* ===== verification/Fee_Conversion.thy ===== *)
theory Fee_Conversion
  imports Meetups
begin

text \<open>
  Transaction fees in community currency, \<open>balances-tx-payment/src/balance_conversion.rs\<close>: the fee in
  native tokens is converted with the nominal income of the community and a factor set by governance.
\<close>

section \<open>Definitions\<close>

definition ONE_MICRO_KSM :: nat where
  "ONE_MICRO_KSM = 1000000"

definition ONE_KSM :: nat where
  "ONE_KSM = 1000000 * ONE_MICRO_KSM"

definition ONE_KILO_KSM :: nat where
  "ONE_KILO_KSM = 1000 * ONE_KSM"

text \<open>The division is by a constant, so the \<open>expect\<close> of the source cannot panic.\<close>

definition apply_fee_conversion_factor :: "nat \<Rightarrow> nat \<Rightarrow> nat \<Rightarrow> nat option" where
  "apply_fee_conversion_factor amount reward fee_conversion_factor =
     checked_div (saturating_mul 128 (saturating_mul 128 amount reward) fee_conversion_factor) ONE_KILO_KSM"

definition to_asset_balance ::
  "communities \<Rightarrow> ceremonies \<Rightarrow> balances \<Rightarrow> nat \<Rightarrow> CommunityIdentifier \<Rightarrow> nat option" where
  "to_asset_balance cm s b amount cid =
     (let fee_conversion_factor = bl_fee_conversion_factor b;
          reward = fungible (nominal_income cm cid s)
      in apply_fee_conversion_factor amount reward fee_conversion_factor)"

section \<open>The fee\<close>

lemma saturating_products:
  "saturating_mul w (saturating_mul w a b) c = min (a * b * c) (2 ^ w - 1)"
proof (cases "c = 0 \<or> a * b \<le> 2 ^ w - 1")
  case False
  let ?m = "2 ^ w - 1 :: nat"
  have "?m * 1 \<le> a * b * c" using False by (intro mult_le_mono) simp_all
  moreover have "?m * 1 \<le> ?m * c" using False by (intro mult_le_mono) simp_all
  ultimately show ?thesis using False by (simp add: saturating_mul_def min_absorb2)
qed (auto simp: saturating_mul_def min_absorb1)

text \<open>A fee is exact or capped. The conversion of a fee never panics; it is the product of the fee, the nominal
  income and the factor, divided by a thousand KSM and rounded down, unless the product leaves 128 bits: then it is
  the largest fee there is, less than 340283 community units.\<close>

theorem fee_exact_or_capped:
  "to_asset_balance cm s b amount cid =
     Some (min (amount * fungible (nominal_income cm cid s) * bl_fee_conversion_factor b) (2 ^ 128 - 1) div 10 ^ 15) \<and>
   (\<forall>fee. to_asset_balance cm s b amount cid = Some fee \<longrightarrow> fee < 340283 * ONE_ENCOINTER_BALANCE_UNIT)"
proof -
  let ?p = "amount * fungible (nominal_income cm cid s) * bl_fee_conversion_factor b"
  have fee: "to_asset_balance cm s b amount cid = Some (min ?p (2 ^ 128 - 1) div 10 ^ 15)"
    by (simp add: to_asset_balance_def apply_fee_conversion_factor_def saturating_products checked_div_def Let_def
        ONE_KILO_KSM_def ONE_KSM_def ONE_MICRO_KSM_def)
  have "min ?p (2 ^ 128 - 1) div 10 ^ 15 \<le> (2 ^ 128 - 1) div 10 ^ 15" by (intro div_le_mono) simp
  also have "\<dots> < 340283 * 10 ^ 18" by simp
  finally have "min ?p (2 ^ 128 - 1) div 10 ^ 15 < 340283 * ONE_ENCOINTER_BALANCE_UNIT"
    by (simp add: ONE_ENCOINTER_BALANCE_UNIT_def)
  then show ?thesis using fee by simp
qed

theorem fee_exact_or_capped_witness:
  "to_asset_balance (communities_genesis 1 83) ((ceremonies_genesis (5 * 2 ^ 64) 0 0 5 3 2 5 0)) (balances_genesis 100000)
     1000000000 demo_cid = Some 500000000000000000"
proof -
  have "nominal_income (communities_genesis 1 83) demo_cid (ceremonies_genesis (5 * 2 ^ 64) 0 0 5 3 2 5 0) = 5 * 2 ^ 64"
    by (simp add: nominal_income_def communities_genesis_def ceremonies_genesis_def)
  moreover have "fungible (5 * 2 ^ 64) = 5 * 10 ^ 18"
    by (simp add: fungible_def ONE_ENCOINTER_BALANCE_UNIT_def as_unsigned_def wrapping_mul_def wrapping_add_def saturating_mul_def)
  ultimately show ?thesis
    using fee_exact_or_capped[of "communities_genesis 1 83" "ceremonies_genesis (5 * 2 ^ 64) 0 0 5 3 2 5 0" "balances_genesis 100000"
        1000000000 demo_cid] by (simp add: balances_genesis_def)
qed

section \<open>The fee details that a node answers\<close>

text \<open>
  \<open>query_asset_fee_details\<close> of \<open>balances-tx-payment/rpc/src/lib.rs\<close>: the parts of the inclusion fee that the
  transaction payment pallet computes, \<open>fee_details\<close>, are converted one by one.
\<close>

record InclusionFee =
  if_base_fee :: nat
  if_len_fee :: nat
  if_adjusted_weight_fee :: nat

record FeeDetails =
  fd_inclusion_fee :: "InclusionFee option"
  fd_tip :: nat

definition query_asset_fee_details ::
  "communities \<Rightarrow> ceremonies \<Rightarrow> balances \<Rightarrow> CommunityIdentifier \<Rightarrow> FeeDetails \<Rightarrow> FeeDetails option" where
  "query_asset_fee_details cm s b cid fee_details =
     (case fd_inclusion_fee fee_details of
        None \<Rightarrow> Some \<lparr>fd_inclusion_fee = None, fd_tip = 0\<rparr>
      | Some inclusion_fee \<Rightarrow>
          Option.bind (to_asset_balance cm s b (if_base_fee inclusion_fee) cid) (\<lambda>base_fee.
          Option.bind (to_asset_balance cm s b (if_len_fee inclusion_fee) cid) (\<lambda>len_fee.
          Option.bind (to_asset_balance cm s b (if_adjusted_weight_fee inclusion_fee) cid) (\<lambda>adjusted_weight_fee.
          Some \<lparr>fd_inclusion_fee = Some \<lparr>if_base_fee = base_fee, if_len_fee = len_fee,
                  if_adjusted_weight_fee = adjusted_weight_fee\<rparr>, fd_tip = 0\<rparr>))))"

text \<open>Rounding each part down, the parts answered sum up to at most the conversion of the whole fee, and to less than three
  of the smallest units below it, as long as nothing is capped.\<close>

lemma fee_parts_round_down:
  assumes "(x + y + z) * fungible (nominal_income cm cid s) * bl_fee_conversion_factor b < 2 ^ 128"
  obtains x' y' z' w where "query_asset_fee_details cm s b cid
        \<lparr>fd_inclusion_fee = Some \<lparr>if_base_fee = x, if_len_fee = y, if_adjusted_weight_fee = z\<rparr>, fd_tip = tip\<rparr> =
      Some \<lparr>fd_inclusion_fee = Some \<lparr>if_base_fee = x', if_len_fee = y', if_adjusted_weight_fee = z'\<rparr>, fd_tip = 0\<rparr>"
    and "to_asset_balance cm s b (x + y + z) cid = Some w" and "x' + y' + z' \<le> w" and "w < x' + y' + z' + 3"
proof -
  let ?f = "fungible (nominal_income cm cid s) * bl_fee_conversion_factor b"
  have conv: "to_asset_balance cm s b a cid = Some (min (a * ?f) (2 ^ 128 - 1) div 10 ^ 15)" for a
    by (simp add: to_asset_balance_def apply_fee_conversion_factor_def saturating_products checked_div_def Let_def
        ONE_KILO_KSM_def ONE_KSM_def ONE_MICRO_KSM_def mult.assoc)
  have uncapped: "to_asset_balance cm s b a cid = Some (a * ?f div 10 ^ 15)" if "a \<in> {x, y, z, x + y + z}" for a
  proof -
    have "a * ?f \<le> (x + y + z) * ?f" using that by (intro mult_right_mono) auto
    also have "\<dots> < 2 ^ 128" using assms by (simp only: mult.assoc)
    finally have "a * ?f \<le> 2 ^ 128 - 1" by linarith
    then show ?thesis unfolding conv by (simp only: min_absorb1)
  qed
  have sum: "(x + y + z) * ?f = x * ?f + y * ?f + z * ?f" by (simp add: algebra_simps)
  have parts: "k div 10 ^ 15 + l div 10 ^ 15 + m div 10 ^ 15 \<le> (k + l + m) div 10 ^ 15"
    "(k + l + m) div 10 ^ 15 < k div 10 ^ 15 + l div 10 ^ 15 + m div 10 ^ 15 + 3" for k l m :: nat by simp_all
  show thesis
  proof (rule that)
    show "query_asset_fee_details cm s b cid
        \<lparr>fd_inclusion_fee = Some \<lparr>if_base_fee = x, if_len_fee = y, if_adjusted_weight_fee = z\<rparr>, fd_tip = tip\<rparr> =
      Some \<lparr>fd_inclusion_fee = Some \<lparr>if_base_fee = x * ?f div 10 ^ 15, if_len_fee = y * ?f div 10 ^ 15,
        if_adjusted_weight_fee = z * ?f div 10 ^ 15\<rparr>, fd_tip = 0\<rparr>"
      using uncapped[of x] uncapped[of y] uncapped[of z] by (simp add: query_asset_fee_details_def)
    show "to_asset_balance cm s b (x + y + z) cid = Some ((x * ?f + y * ?f + z * ?f) div 10 ^ 15)"
      using uncapped[of "x + y + z"] unfolding sum by simp
  qed (rule parts)+
qed

end
