(* ===== verification/Migrations.thy ===== *)
theory Migrations
  imports Democracy_Invariants Reputation_Rings
begin

text \<open>
  The storage migrations: \<open>communities/src/migrations.rs\<close>, \<open>ceremonies/src/migrations.rs\<close> and
  \<open>democracy/src/migrations.rs\<close>, with the checks before and after an upgrade that a trial run of the runtime makes.

  The storage of an earlier release is kept in association lists, in the order in which the map is iterated. A
  value that the upgrade does not touch has the same bytes before and after, but is read through the bounded type
  afterwards: a vector that exceeds its bound is not decoded, and the iteration skips it. What a migration
  translates moves from the old list to the map of the current release. \<open>rw\<close> is \<open>T::DbWeight::reads_writes\<close>.
\<close>

type_synonym db_weight = "nat \<Rightarrow> nat \<Rightarrow> Weight"

datatype upgrade_error =
    UnsupportedVersion | TooManyCids | TooManyCidsPerGeohash | TooManyLocations | TooManyBootstrappers
  | TooManyAttestations | UpgradePanic

text \<open>Decoding a bounded vector, and the iteration over a map that skips what is not decoded.\<close>

definition decode_bounded :: "nat \<Rightarrow> 'a list \<Rightarrow> 'a list option" where
  "decode_bounded bound xs = (if length xs \<le> bound then Some xs else None)"

definition iter_bounded :: "nat \<Rightarrow> ('k \<times> 'a list) list \<Rightarrow> ('k \<times> 'a list) list" where
  "iter_bounded bound m = List.map_filter (\<lambda>(k, v). map_option (Pair k) (decode_bounded bound v)) m"

text \<open>
  The two ways of counting the elements: the check before the upgrade adds \<open>u32\<close> counts and refuses a vector
  beyond the bound, the check after it adds \<open>usize\<close> lengths and casts the sum.
\<close>

fun count_within :: "nat \<Rightarrow> 'e \<Rightarrow> ('k \<times> 'a list) list \<Rightarrow> nat \<Rightarrow> 'e + nat" where
  "count_within bound e [] acc = Inr acc"
| "count_within bound e ((k, v) # m) acc =
     (let n = as_unsigned 32 (length v)
      in ensure (n \<le> bound) e (count_within bound e m (wrapping_add 32 acc n)))"

definition count_elements :: "('k \<times> 'a list) list \<Rightarrow> nat" where
  "count_elements m = as_unsigned 32 (foldl (\<lambda>acc x. wrapping_add usize_bits acc (length (snd x))) 0 m)"

section \<open>Communities\<close>

record UnboundedCommunityMetadata =
  um_name :: bytes
  um_symbol :: bytes
  um_assets :: bytes
  um_theme :: "bytes option"
  um_url :: "bytes option"

record CommunityMetadataV1 =
  v1_name :: bytes
  v1_symbol :: bytes
  v1_assets :: bytes
  v1_theme :: "bytes option"
  v1_url :: "bytes option"

definition PALLET_STRING_BOUND :: nat where
  "PALLET_STRING_BOUND = 256"

definition truncate_from :: "bytes \<Rightarrow> bytes" where
  "truncate_from bs = take PALLET_STRING_BOUND bs"

definition unbounded_metadata_default :: UnboundedCommunityMetadata where
  "unbounded_metadata_default =
     \<lparr>um_name = pallet_string ''Default'', um_symbol = pallet_string ''DEF'',
      um_assets = pallet_string ''Defau1tCidThat1s46Characters1nLength1111111111'',
      um_theme = None, um_url = Some (pallet_string ''DefaultUrl'')\<rparr>"

definition migrate_v0_to_v2 :: "UnboundedCommunityMetadata \<Rightarrow> CommunityMetadata" where
  "migrate_v0_to_v2 m =
     \<lparr>md_name = truncate_from (um_name m), md_symbol = truncate_from (um_symbol m),
      md_assets = truncate_from (um_assets m), md_theme = map_option truncate_from (um_theme m),
      md_url = map_option truncate_from (um_url m), md_announcement_signer = None, md_rules = LoCo\<rparr>"

definition migrate_v1_to_v2 :: "CommunityMetadataV1 \<Rightarrow> CommunityMetadata" where
  "migrate_v1_to_v2 m =
     \<lparr>md_name = v1_name m, md_symbol = v1_symbol m, md_assets = v1_assets m, md_theme = v1_theme m,
      md_url = v1_url m, md_announcement_signer = None, md_rules = LoCo\<rparr>"

text \<open>Both old formats have the same bytes; the bounded one refuses strings beyond 256 bytes.\<close>

definition within_bounds :: "UnboundedCommunityMetadata \<Rightarrow> bool" where
  "within_bounds m \<longleftrightarrow>
     length (um_name m) \<le> PALLET_STRING_BOUND \<and> length (um_symbol m) \<le> PALLET_STRING_BOUND \<and>
     length (um_assets m) \<le> PALLET_STRING_BOUND \<and>
     (case um_theme m of None \<Rightarrow> True | Some t \<Rightarrow> length t \<le> PALLET_STRING_BOUND) \<and>
     (case um_url m of None \<Rightarrow> True | Some u \<Rightarrow> length u \<le> PALLET_STRING_BOUND)"

definition decode_v1 :: "UnboundedCommunityMetadata \<Rightarrow> CommunityMetadataV1 option" where
  "decode_v1 m =
     (if within_bounds m
      then Some \<lparr>v1_name = um_name m, v1_symbol = um_symbol m, v1_assets = um_assets m, v1_theme = um_theme m,
                 v1_url = um_url m\<rparr>
      else None)"

record stored_communities =
  st_version :: nat
  st_community_identifiers :: "CommunityIdentifier list"
  st_cids_by_geohash :: "(GeoHash \<times> CommunityIdentifier list) list"
  st_locations :: "((CommunityIdentifier \<times> GeoHash) \<times> Location list) list"
  st_bootstrappers :: "(CommunityIdentifier \<times> AccountId list) list"
  st_old_metadata :: "(CommunityIdentifier \<times> UnboundedCommunityMetadata) list"
  st_metadata :: "(CommunityIdentifier \<times> CommunityMetadata) list"

definition communities_pre_upgrade ::
  "communities_config \<Rightarrow> stored_communities \<Rightarrow> upgrade_error + (nat \<times> nat \<times> nat \<times> nat \<times> nat)" where
  "communities_pre_upgrade c s =
     ensure (st_version s < 2) UnsupportedVersion (
     let cid_count = as_unsigned 32 (length (st_community_identifiers s)) in
     ensure (cid_count \<le> cc_max_community_identifiers c) TooManyCids (
     let cmeta_count = as_unsigned 32 (length (st_old_metadata s)) in
     bind_res (count_within (cc_max_community_identifiers_per_geohash c) TooManyCidsPerGeohash (st_cids_by_geohash s) 0)
       (\<lambda>cids_by_geohash_count.
     bind_res (count_within (cc_max_locations_per_geohash c) TooManyLocations (st_locations s) 0)
       (\<lambda>locations_by_geohash_count.
     bind_res (count_within (cc_max_bootstrappers c) TooManyBootstrappers (st_bootstrappers s) 0)
       (\<lambda>bootstrappers_count.
     Inr (cid_count, cmeta_count, cids_by_geohash_count, locations_by_geohash_count, bootstrappers_count))))))"

text \<open>\<open>translate\<close>: an entry that is decoded is replaced, one that is not stays as it is.\<close>

definition translate_metadata ::
  "(UnboundedCommunityMetadata \<Rightarrow> CommunityMetadata option) \<Rightarrow> stored_communities \<Rightarrow> stored_communities" where
  "translate_metadata f s =
     s\<lparr>st_metadata := st_metadata s @ List.map_filter (\<lambda>(k, m). map_option (Pair k) (f m)) (st_old_metadata s),
       st_old_metadata := filter (\<lambda>(k, m). f m = None) (st_old_metadata s)\<rparr>"

definition communities_on_runtime_upgrade ::
  "db_weight \<Rightarrow> stored_communities \<Rightarrow> Weight \<times> stored_communities" where
  "communities_on_runtime_upgrade rw s =
     (if 2 \<le> st_version s then (rw 1 0, s)
      else
        (let s1 = (if st_version s = 0 then translate_metadata (\<lambda>m. Some (migrate_v0_to_v2 m)) s
                   else if st_version s = 1 then translate_metadata (\<lambda>m. map_option migrate_v1_to_v2 (decode_v1 m)) s
                   else s);
             translated = length (st_old_metadata s) - length (st_old_metadata s1)
         in (rw translated (translated + 1), s1\<lparr>st_version := 2\<rparr>)))"

text \<open>The checks after the upgrade read the storage through the types of the current release.\<close>

definition communities_post_upgrade ::
  "communities_config \<Rightarrow> nat \<times> nat \<times> nat \<times> nat \<times> nat \<Rightarrow> stored_communities \<Rightarrow> bool" where
  "communities_post_upgrade c state s =
     (case state of (old_cids, old_cmeta, old_cids_by_geohash, old_locations, old_bootstrappers) \<Rightarrow>
        st_version s = 2 \<and>
        old_cids = as_unsigned 32 (length
          (value_query [] (decode_bounded (cc_max_community_identifiers c) (st_community_identifiers s)))) \<and>
        old_cmeta = as_unsigned 32 (length (st_metadata s)) \<and>
        old_cids_by_geohash =
          count_elements (iter_bounded (cc_max_community_identifiers_per_geohash c) (st_cids_by_geohash s)) \<and>
        old_locations = count_elements (iter_bounded (cc_max_locations_per_geohash c) (st_locations s)) \<and>
        old_bootstrappers = count_elements (iter_bounded (cc_max_bootstrappers c) (st_bootstrappers s)))"

section \<open>Ceremonies\<close>

datatype v1_reputation = UnverifiedV1 | UnverifiedReputableV1 | VerifiedUnlinkedV1 | VerifiedLinkedV1

fun migrate_reputation :: "v1_reputation \<Rightarrow> nat \<Rightarrow> Reputation" where
  "migrate_reputation UnverifiedReputableV1 linked_cindex = UnverifiedReputable"
| "migrate_reputation VerifiedLinkedV1 linked_cindex = VerifiedLinked linked_cindex"
| "migrate_reputation VerifiedUnlinkedV1 linked_cindex = VerifiedUnlinked"
| "migrate_reputation UnverifiedV1 linked_cindex = Unverified"

record stored_ceremonies =
  so_version :: nat
  so_attestations :: "((CommunityCeremony \<times> nat) \<times> AccountId list) list"
  so_old_reputation :: "((CommunityCeremony \<times> AccountId) \<times> v1_reputation) list"
  so_reputation :: "((CommunityCeremony \<times> AccountId) \<times> Reputation) list"

definition ceremonies_v1_pre_upgrade :: "'sig ceremonies_config \<Rightarrow> stored_ceremonies \<Rightarrow> upgrade_error + nat" where
  "ceremonies_v1_pre_upgrade c s =
     ensure (so_version s = 0) UpgradePanic
       (count_within (cec_max_attestations c) TooManyAttestations (so_attestations s) 0)"

text \<open>No data is translated: a vector and a bounded vector have the same bytes.\<close>

definition ceremonies_v1_on_runtime_upgrade :: "db_weight \<Rightarrow> stored_ceremonies \<Rightarrow> Weight \<times> stored_ceremonies" where
  "ceremonies_v1_on_runtime_upgrade rw s =
     (let weight = rw 1 0
      in if so_version s \<noteq> 0 then (weight, s) else (weight_add weight (rw 1 2), s\<lparr>so_version := 1\<rparr>))"

definition ceremonies_v1_post_upgrade :: "'sig ceremonies_config \<Rightarrow> nat \<Rightarrow> stored_ceremonies \<Rightarrow> bool" where
  "ceremonies_v1_post_upgrade c old_attestation_count s \<longleftrightarrow>
     so_version s = 1 \<and>
     old_attestation_count = count_elements (iter_bounded (cec_max_attestations c) (so_attestations s))"

definition ceremonies_v2_pre_upgrade :: "stored_ceremonies \<Rightarrow> upgrade_error + nat" where
  "ceremonies_v2_pre_upgrade s =
     ensure (so_version s = 1) UpgradePanic (Inr (as_unsigned 32 (length (so_old_reputation s))))"

definition ceremonies_v2_on_runtime_upgrade ::
  "db_weight \<Rightarrow> scheduler \<Rightarrow> stored_ceremonies \<Rightarrow> Weight \<times> stored_ceremonies" where
  "ceremonies_v2_on_runtime_upgrade rw sch s =
     (let weight = rw 1 0
      in if so_version s \<noteq> 1 then (weight, s)
         else
           (let cindex = sc_ceremony_index sch;
                linked_cindex = (case sc_phase sch of Attesting \<Rightarrow> wrapping_add 32 cindex 1 | _ \<Rightarrow> cindex);
                translated = length (so_old_reputation s)
            in (rw translated (translated + 1),
                s\<lparr>so_reputation := so_reputation s @
                     map (\<lambda>(k, rep). (k, migrate_reputation rep linked_cindex)) (so_old_reputation s),
                  so_old_reputation := [], so_version := 2\<rparr>)))"

definition ceremonies_v2_post_upgrade :: "nat \<Rightarrow> stored_ceremonies \<Rightarrow> bool" where
  "ceremonies_v2_post_upgrade old_reputation_count s \<longleftrightarrow>
     so_version s = 2 \<and> old_reputation_count = as_unsigned 32 (length (so_reputation s))"

section \<open>Democracy\<close>

record 'k stored_democracy =
  sd_version :: nat
  sd_cancelled_at :: "(ProposalActionIdentifier \<times> nat) list"
  sd_old_enactment_queue :: "(ProposalActionIdentifier \<times> nat) list"
  sd_democracy :: "'k democracy"

text \<open>\<open>ids\<close> is the order in which the proposals are iterated.\<close>

definition democracy_v1_on_runtime_upgrade ::
  "db_weight \<Rightarrow> nat list \<Rightarrow> 'k stored_democracy \<Rightarrow> Weight \<times> 'k stored_democracy" where
  "democracy_v1_on_runtime_upgrade rw ids s =
     (if 1 \<le> sd_version s then (rw 1 0, s)
      else
        (let purged_keys = length (sd_cancelled_at s) + length ids + length (sd_old_enactment_queue s) +
               length (de_enactment_queue (sd_democracy s))
         in (rw purged_keys (purged_keys + 1),
             s\<lparr>sd_cancelled_at := [], sd_old_enactment_queue := [],
               sd_democracy := (sd_democracy s)\<lparr>de_proposals := Map.empty, de_enactment_queue := []\<rparr>,
               sd_version := 1\<rparr>)))"

definition democracy_v1_post_upgrade :: "'k stored_democracy \<Rightarrow> bool" where
  "democracy_v1_post_upgrade s \<longleftrightarrow> sd_version s = 1"

definition democracy_v2_pre_upgrade :: "'k stored_democracy \<Rightarrow> nat" where
  "democracy_v2_pre_upgrade s = as_unsigned 32 (length (sd_old_enactment_queue s))"

definition approved_unqueued :: "'k democracy \<Rightarrow> nat list \<Rightarrow> nat \<Rightarrow> bool" where
  "approved_unqueued d queued_ids i =
     (case de_proposals d i of None \<Rightarrow> False
      | Some proposal \<Rightarrow> pr_state proposal = Approved \<and> \<not> List.member queued_ids i)"

definition reinsert_approved :: "nat list \<Rightarrow> nat \<Rightarrow> 'k democracy \<Rightarrow> 'k democracy" where
  "reinsert_approved queued_ids proposal_id d =
     (case de_proposals d proposal_id of None \<Rightarrow> d
      | Some proposal \<Rightarrow>
          (if pr_state proposal = Approved \<and> \<not> List.member queued_ids proposal_id
           then d\<lparr>de_enactment_queue :=
                  push_enactment (get_identifier (pr_action proposal)) proposal_id (de_enactment_queue d)\<rparr>
           else d))"

definition democracy_v2_on_runtime_upgrade ::
  "db_weight \<Rightarrow> nat list \<Rightarrow> 'k stored_democracy \<Rightarrow> Weight \<times> 'k stored_democracy" where
  "democracy_v2_on_runtime_upgrade rw ids s =
     (if sd_version s \<noteq> 1 then (rw 1 0, s)
      else
        (let old_entries = sd_old_enactment_queue s;
             d = sd_democracy s;
             d1 = d\<lparr>de_enactment_queue := fold (\<lambda>(action_id, proposal_id). AList.update action_id [proposal_id]) old_entries []\<rparr>;
             queued_ids = map snd old_entries;
             d2 = fold (reinsert_approved queued_ids) ids d1;
             reads = 1 + length old_entries + length ids;
             writes = length old_entries + length old_entries + length (filter (approved_unqueued d queued_ids) ids) + 1
         in (rw reads writes, s\<lparr>sd_old_enactment_queue := [], sd_democracy := d2, sd_version := 2\<rparr>)))"

definition democracy_v2_post_upgrade :: "nat list \<Rightarrow> 'k stored_democracy \<Rightarrow> bool" where
  "democracy_v2_post_upgrade ids s \<longleftrightarrow>
     sd_version s = 2 \<and>
     list_all (\<lambda>i. case de_proposals (sd_democracy s) i of None \<Rightarrow> True
       | Some proposal \<Rightarrow> pr_state proposal = Approved \<longrightarrow>
           List.member (concat (map snd (de_enactment_queue (sd_democracy s)))) i) ids"

section \<open>Counting\<close>

text \<open>Lengths of vectors fit a \<open>usize\<close>.\<close>

definition vectors_typed :: "('k \<times> 'a list) list \<Rightarrow> bool" where
  "vectors_typed m \<longleftrightarrow> (\<forall>(k, v) \<in> set m. length v < 2 ^ 32)"

lemma count_within_sum:
  assumes "count_within bound e m acc = Inr n" and "vectors_typed m" and "acc < 2 ^ 32"
  shows "(\<forall>(k, v) \<in> set m. length v \<le> bound) \<and> n = (acc + (\<Sum>(k, v)\<leftarrow>m. length v)) mod 2 ^ 32"
  using assms
proof (induction bound e m acc rule: count_within.induct)
  case (2 bound e k v m acc)
  have v: "as_unsigned 32 (length v) = length v" using 2(3) by (simp add: vectors_typed_def as_unsigned_def)
  then have le: "length v \<le> bound" and c: "count_within bound e m (wrapping_add 32 acc (length v)) = Inr n"
    using 2(2) by (simp_all add: Let_def ensure_Inr)
  have "vectors_typed m" using 2(3) by (simp add: vectors_typed_def)
  then have "(\<forall>(k, v) \<in> set m. length v \<le> bound) \<and>
      n = (wrapping_add 32 acc (length v) + (\<Sum>(k, v)\<leftarrow>m. length v)) mod 2 ^ 32"
    using 2(1)[OF refl] v le c by (simp add: wrapping_add_def)
  then show ?case using le by (simp add: wrapping_add_def mod_simps add.assoc)
qed simp

lemma count_elements_sum: "count_elements m = (\<Sum>(k, v)\<leftarrow>m. length v) mod 2 ^ 32"
proof -
  have "foldl (\<lambda>acc x. wrapping_add usize_bits acc (length (snd x))) a m mod 2 ^ 32 = (a + (\<Sum>(k, v)\<leftarrow>m. length v)) mod 2 ^ 32" for a
    by (induction m arbitrary: a) (auto simp: wrapping_add_def mod_simps add.assoc)
  from this[of 0] show ?thesis by (simp add: count_elements_def as_unsigned_def)
qed

lemma iter_bounded_all:
  assumes "\<forall>(k, v) \<in> set m. length v \<le> bound"
  shows "iter_bounded bound m = m"
  using assms by (induction m) (auto simp: iter_bounded_def decode_bounded_def List.map_filter_def)

text \<open>The two checks agree, and what is read afterwards is what was stored.\<close>

lemma count_checks_agree:
  assumes "count_within bound e m 0 = Inr n" and "vectors_typed m"
  shows "iter_bounded bound m = m" and "count_elements (iter_bounded bound m) = n"
  using count_within_sum[OF assms] iter_bounded_all[of m bound] by (simp_all add: count_elements_sum)

end
