(* ===== verification/Migration_Properties.thy ===== *)
theory Migration_Properties
  imports Migrations Ceremony_Scenario Community_Properties Democracy_Properties
begin

text \<open>
  The properties of the storage migrations: the checks before an upgrade imply those after it and
  nothing is lost, an attendance used before the upgrade stays used, and approvals that the old
  enactment queue had lost are queued again.
\<close>

section \<open>Communities\<close>

lemma translate_fields:
  "st_version (translate_metadata f s) = st_version s"
  "st_community_identifiers (translate_metadata f s) = st_community_identifiers s"
  "st_cids_by_geohash (translate_metadata f s) = st_cids_by_geohash s"
  "st_locations (translate_metadata f s) = st_locations s"
  "st_bootstrappers (translate_metadata f s) = st_bootstrappers s"
  by (simp_all add: translate_metadata_def)

lemma truncate_within: "length bs \<le> PALLET_STRING_BOUND \<Longrightarrow> truncate_from bs = bs"
  by (simp add: truncate_from_def)

lemma truncate_option_within:
  "(case o' of None \<Rightarrow> True | Some t \<Rightarrow> length t \<le> PALLET_STRING_BOUND) \<Longrightarrow> map_option truncate_from o' = o'"
  by (cases o') (simp_all add: truncate_within)

lemma map_filter_Some: "List.map_filter (\<lambda>(k, m). Some (k, g m)) xs = map (\<lambda>(k, m). (k, g m)) xs"
  by (induction xs) (auto simp: List.map_filter_def)

text \<open>Metadata within the bounds is kept, whichever version it is migrated from.\<close>

definition kept :: "UnboundedCommunityMetadata \<Rightarrow> CommunityMetadata" where
  "kept m = \<lparr>md_name = um_name m, md_symbol = um_symbol m, md_assets = um_assets m, md_theme = um_theme m,
     md_url = um_url m, md_announcement_signer = None, md_rules = LoCo\<rparr>"

lemma migrate_kept:
  assumes "within_bounds m"
  shows "migrate_v0_to_v2 m = kept m" and "map_option migrate_v1_to_v2 (decode_v1 m) = Some (kept m)"
  using assms
  by (auto simp: within_bounds_def migrate_v0_to_v2_def migrate_v1_to_v2_def decode_v1_def kept_def truncate_within
      truncate_option_within)

lemma map_filter_Some_all:
  assumes "\<forall>(k, m) \<in> set xs. f m = Some (g m)"
  shows "List.map_filter (\<lambda>(k, m). map_option (Pair k) (f m)) xs = map (\<lambda>(k, m). (k, g m)) xs"
    and "filter (\<lambda>(k, m). f m = None) xs = []"
  using assms by (induction xs) (auto simp: List.map_filter_def)

lemma upgrade_translates:
  assumes "st_version s < 2" and "st_metadata s = []" and "st_version s = 1 \<longrightarrow> (\<forall>(k, m) \<in> set (st_old_metadata s). within_bounds m)"
  obtains g where "snd (communities_on_runtime_upgrade rw s) =
      s\<lparr>st_metadata := map (\<lambda>(k, m). (k, g m)) (st_old_metadata s), st_old_metadata := [], st_version := 2\<rparr>"
    and "\<And>m. within_bounds m \<Longrightarrow> g m = kept m"
proof -
  consider "st_version s = 0" | "st_version s = 1" using assms(1) by linarith
  then show thesis
  proof cases
    case 1
    show ?thesis
      by (rule that[of migrate_v0_to_v2])
         (simp_all add: communities_on_runtime_upgrade_def translate_metadata_def 1 assms(2) migrate_kept
            map_filter_Some Let_def)
  next
    case 2
    have "\<forall>(k, m) \<in> set (st_old_metadata s). map_option migrate_v1_to_v2 (decode_v1 m) = Some (kept m)"
      using assms(3) 2 migrate_kept(2) by auto
    note t = map_filter_Some_all[OF this]
    show ?thesis
      by (rule that[of kept]) (simp_all add: communities_on_runtime_upgrade_def translate_metadata_def 2 assms(2) t(1) t(2)[simplified] Let_def)
  qed
qed

text \<open>C34: An upgrade of the communities that passes the check before it is complete and loses nothing. Then the
  check after it passes, every old entry of the metadata is translated, the vectors read through the bounded types are
  those stored before, metadata within the bounds keeps all its fields, and running the migration again changes
  nothing. From version 1 this needs the metadata to be within its bounds, which the check does not ask.\<close>

theorem communities_upgrade_complete:
  assumes "communities_pre_upgrade c s = Inr counts" and "st_metadata s = []" and "distinct (map fst (st_old_metadata s))"
    and "st_version s = 1 \<longrightarrow> (\<forall>(k, m) \<in> set (st_old_metadata s). within_bounds m)"
    and "length (st_community_identifiers s) < 2 ^ 32" and "vectors_typed (st_cids_by_geohash s)"
    and "vectors_typed (st_locations s)" and "vectors_typed (st_bootstrappers s)"
    and "communities_on_runtime_upgrade rw s = (weight, s')"
  shows "communities_post_upgrade c counts s' \<and> st_old_metadata s' = [] \<and>
    decode_bounded (cc_max_community_identifiers c) (st_community_identifiers s') = Some (st_community_identifiers s) \<and>
    iter_bounded (cc_max_community_identifiers_per_geohash c) (st_cids_by_geohash s') = st_cids_by_geohash s \<and>
    iter_bounded (cc_max_locations_per_geohash c) (st_locations s') = st_locations s \<and>
    iter_bounded (cc_max_bootstrappers c) (st_bootstrappers s') = st_bootstrappers s \<and>
    (\<forall>cid m. map_of (st_old_metadata s) cid = Some m \<and> within_bounds m \<longrightarrow> map_of (st_metadata s') cid = Some (kept m)) \<and>
    communities_on_runtime_upgrade rw s' = (rw 1 0, s')"
proof -
  obtain n1 n2 n3 where v: "st_version s < 2" and len: "as_unsigned 32 (length (st_community_identifiers s)) \<le> cc_max_community_identifiers c"
    and n: "count_within (cc_max_community_identifiers_per_geohash c) TooManyCidsPerGeohash (st_cids_by_geohash s) 0 = Inr n1"
      "count_within (cc_max_locations_per_geohash c) TooManyLocations (st_locations s) 0 = Inr n2"
      "count_within (cc_max_bootstrappers c) TooManyBootstrappers (st_bootstrappers s) 0 = Inr n3"
    and counts: "counts = (as_unsigned 32 (length (st_community_identifiers s)), as_unsigned 32 (length (st_old_metadata s)), n1, n2, n3)"
    using assms(1) by (auto simp: communities_pre_upgrade_def Let_def res_simps)
  have len': "length (st_community_identifiers s) \<le> cc_max_community_identifiers c"
    using len assms(5) by (simp add: as_unsigned_def)
  obtain g where s': "s' = s\<lparr>st_metadata := map (\<lambda>(k, m). (k, g m)) (st_old_metadata s), st_old_metadata := [], st_version := 2\<rparr>"
    and g: "\<And>m. within_bounds m \<Longrightarrow> g m = kept m"
    using upgrade_translates[OF v assms(2,4), of rw] unfolding assms(9) by (metis snd_conv)
  note reads = count_checks_agree[OF n(1) assms(6)] count_checks_agree[OF n(2) assms(7)] count_checks_agree[OF n(3) assms(8)]
  have "map_of (st_metadata s') cid = map_option g (map_of (st_old_metadata s) cid)" for cid
    by (simp add: s' map_of_map)
  moreover have "communities_post_upgrade c counts s'"
    using reads len' by (simp add: communities_post_upgrade_def counts s' decode_bounded_def)
  ultimately show ?thesis
    using reads len' g by (simp add: s' decode_bounded_def communities_on_runtime_upgrade_def)
qed

text \<open>A community of version 1 with two bootstrappers and one location.\<close>

definition old_metadata :: UnboundedCommunityMetadata where
  "old_metadata = unbounded_metadata_default\<lparr>um_symbol := pallet_string ''OLD''\<rparr>"

definition old_communities :: stored_communities where
  "old_communities =
     \<lparr>st_version = 1, st_community_identifiers = [demo_cid], st_cids_by_geohash = [([1, 2, 3, 4, 5], [demo_cid])],
      st_locations = [((demo_cid, [1, 2, 3, 4, 5]), [Location 0 0])], st_bootstrappers = [(demo_cid, [2, 3])],
      st_old_metadata = [(demo_cid, old_metadata)], st_metadata = []\<rparr>"

lemma old_metadata_within: "within_bounds old_metadata"
  by code_simp

theorem communities_upgrade_complete_witness:
  "\<exists>counts weight s'. communities_pre_upgrade flat_config old_communities = Inr counts \<and>
     communities_on_runtime_upgrade (\<lambda>r w. (r, w)) old_communities = (weight, s') \<and>
     communities_post_upgrade flat_config counts s' \<and> map_of (st_metadata s') demo_cid = Some (kept old_metadata)"
proof -
  have "communities_pre_upgrade flat_config old_communities = Inr (1, 1, 1, 1, 2)" by code_simp
  moreover obtain weight s' where "communities_on_runtime_upgrade (\<lambda>r w. (r, w)) old_communities = (weight, s')" by fastforce
  moreover have "vectors_typed (st_cids_by_geohash old_communities)" "vectors_typed (st_locations old_communities)"
    "vectors_typed (st_bootstrappers old_communities)"
    by (simp_all add: vectors_typed_def old_communities_def)
  ultimately show ?thesis
    using communities_upgrade_complete[of flat_config old_communities "(1, 1, 1, 1, 2)" "\<lambda>r w. (r, w)" weight s'] old_metadata_within
    by (simp add: old_communities_def)
qed

text \<open>What the check does not ask: metadata of version 1 beyond the bounds is not translated, and the check after
  the upgrade fails.\<close>

lemma oversized_metadata_not_translated:
  assumes "communities_pre_upgrade c s = Inr counts" and "st_version s = 1" and "st_metadata s = []"
    and "\<not> within_bounds m" and "(cid, m) \<in> set (st_old_metadata s)" and "length (st_old_metadata s) < 2 ^ 32"
    and "communities_on_runtime_upgrade rw s = (weight, s')"
  shows "(cid, m) \<in> set (st_old_metadata s')" and "\<not> communities_post_upgrade c counts s'"
proof -
  let ?f = "\<lambda>m. map_option migrate_v1_to_v2 (decode_v1 m)"
  have s': "s' = (translate_metadata ?f s)\<lparr>st_version := 2\<rparr>"
    using assms(2,7) by (simp add: communities_on_runtime_upgrade_def Let_def)
  have "?f m = None" using assms(4) by (simp add: decode_v1_def)
  then show old: "(cid, m) \<in> set (st_old_metadata s')" using assms(5) by (simp add: s' translate_metadata_def)
  have "length (List.map_filter (\<lambda>(k, m). map_option (Pair k) (?f m)) xs) + length (filter (\<lambda>(k, m). ?f m = None) xs) = length xs" for xs
    by (induction xs) (auto simp: List.map_filter_def decode_v1_def)
  then have "length (st_metadata s') + length (st_old_metadata s') = length (st_old_metadata s)"
    by (simp add: s' translate_metadata_def assms(3) del: map_option_is_None)
  moreover have "0 < length (st_old_metadata s')" using old by (cases "st_old_metadata s'") auto
  ultimately have "length (st_metadata s') < length (st_old_metadata s)" by linarith
  then have "as_unsigned 32 (length (st_metadata s')) \<noteq> as_unsigned 32 (length (st_old_metadata s))"
    using assms(6) by (simp add: as_unsigned_def)
  moreover have "fst (snd counts) = as_unsigned 32 (length (st_old_metadata s))"
    using assms(1) by (auto simp: communities_pre_upgrade_def Let_def res_simps)
  ultimately show "\<not> communities_post_upgrade c counts s'" by (auto simp: communities_post_upgrade_def)
qed

section \<open>Ceremonies\<close>

lemma linked_cindex: "(case sc_phase sch of Attesting \<Rightarrow> wrapping_add 32 (sc_ceremony_index sch) 1 | _ \<Rightarrow> sc_ceremony_index sch) =
    registration_cindex sch"
  by (simp add: registration_cindex_def split: CeremonyPhaseType.split)

text \<open>C22: An attendance that was used before the upgrade stays used. Whenever the migration to version 2 runs, every
  reputation is translated and verified ones stay verified; an attendance that was linked before cannot be used for
  another registration of the current cycle, whoever registers and in whichever of its phases, an unlinked one can, and
  in every other cycle both can. The count checked after the upgrade is the one before, and the migration runs only once.\<close>

theorem migrated_attendance_used_once:
  assumes "ceremonies_v2_pre_upgrade s = Inr n" and "so_reputation s = []" and "distinct (map fst (so_old_reputation s))"
    and "ceremonies_v2_on_runtime_upgrade rw sch s = (weight, s')"
    and "\<And>cc a. ce_reputation ce cc a = map_of (so_reputation s') (cc, a)"
    and "map_of (so_old_reputation s) ((cid, i), a) = Some rep"
  shows "ceremonies_v2_post_upgrade n s' \<and> so_old_reputation s' = [] \<and> ceremonies_v2_on_runtime_upgrade rw sch s' = (rw 1 0, s') \<and>
    (is_verified (participant_reputation ce (cid, i) a) \<longleftrightarrow> rep = VerifiedUnlinkedV1 \<or> rep = VerifiedLinkedV1) \<and>
    (\<forall>cindex. is_verified_and_unlinked_for_cindex (participant_reputation ce (cid, i) a) cindex \<longleftrightarrow>
       rep = VerifiedUnlinkedV1 \<or> rep = VerifiedLinkedV1 \<and> cindex \<noteq> registration_cindex sch) \<and>
    (\<forall>c cm b sch' sender cid' p. rep = VerifiedLinkedV1 \<and> registration_cindex sch' = registration_cindex sch \<and>
       pa_community_identifier p = cid \<and> pa_ceremony_index p = i \<and> attendee_public p = a \<longrightarrow>
       (\<exists>e. register_participant c sch' cm b sender cid' (Some p) ce = Inl e))"
proof -
  have v: "so_version s = 1" and n: "n = as_unsigned 32 (length (so_old_reputation s))"
    using assms(1) by (auto simp: ceremonies_v2_pre_upgrade_def res_simps)
  have s': "s' = s\<lparr>so_reputation := map (\<lambda>(k, rep). (k, migrate_reputation rep (registration_cindex sch))) (so_old_reputation s),
      so_old_reputation := [], so_version := 2\<rparr>"
    using assms(4) by (simp add: ceremonies_v2_on_runtime_upgrade_def v assms(2) linked_cindex Let_def)
  have rep: "participant_reputation ce (cid, i) a = migrate_reputation rep (registration_cindex sch)"
    by (simp add: participant_reputation_def assms(5,6) s' map_of_map)
  have "is_verified (participant_reputation ce (cid, i) a) \<longleftrightarrow> rep = VerifiedUnlinkedV1 \<or> rep = VerifiedLinkedV1"
    unfolding rep by (cases rep) simp_all
  moreover have unlinked: "is_verified_and_unlinked_for_cindex (participant_reputation ce (cid, i) a) cindex \<longleftrightarrow>
      rep = VerifiedUnlinkedV1 \<or> rep = VerifiedLinkedV1 \<and> cindex \<noteq> registration_cindex sch" for cindex
    unfolding rep by (cases rep) auto
  moreover have "\<exists>e. register_participant c sch' cm b sender cid' (Some p) ce = Inl e"
    if "rep = VerifiedLinkedV1" "registration_cindex sch' = registration_cindex sch" "pa_community_identifier p = cid"
      "pa_ceremony_index p = i" "attendee_public p = a" for c sch' cm b sender cid' and p :: "'a ProofOfAttendance"
  proof -
    have "\<exists>e. link_reputation c cm (cid', registration_cindex sch') sender p ce = Inl e"
      using that unlinked[of "registration_cindex sch"] by (auto simp: link_reputation_def ensure_def)
    then show ?thesis by (auto simp: register_participant_def ensure_def Let_def)
  qed
  ultimately show ?thesis
    by (auto simp: ceremonies_v2_post_upgrade_def ceremonies_v2_on_runtime_upgrade_def n s')
qed

text \<open>A cycle of version 1 in which one attendance has been used and another has not.\<close>

definition old_ceremonies :: stored_ceremonies where
  "old_ceremonies =
     \<lparr>so_version = 1, so_attestations = [],
      so_old_reputation = [((small_cc, 7), VerifiedLinkedV1), ((small_cc, 8), VerifiedUnlinkedV1)], so_reputation = []\<rparr>"

theorem migrated_attendance_used_once_witness:
  "\<exists>weight s' e. ceremonies_v2_on_runtime_upgrade (\<lambda>r w. (r, w)) (clock 5 Registering) old_ceremonies = (weight, s') \<and>
     register_participant small_config (clock 5 Registering) small_communities (balances_genesis 1) 7 demo_cid
       (Some \<lparr>prover_public = 7, pa_ceremony_index = snd small_cc, pa_community_identifier = fst small_cc, attendee_public = 7,
          attendee_signature = 107\<rparr>)
       (small_genesis\<lparr>ce_reputation := \<lambda>cc a. map_of (so_reputation s') (cc, a)\<rparr>) = Inl e"
proof -
  obtain weight s' where run: "ceremonies_v2_on_runtime_upgrade (\<lambda>r w. (r, w)) (clock 5 Registering) old_ceremonies = (weight, s')"
    by fastforce
  have "ceremonies_v2_pre_upgrade old_ceremonies = Inr 2"
    by (simp add: ceremonies_v2_pre_upgrade_def old_ceremonies_def as_unsigned_def ensure_def)
  moreover have "so_reputation old_ceremonies = []" "distinct (map fst (so_old_reputation old_ceremonies))"
    "map_of (so_old_reputation old_ceremonies) ((fst small_cc, snd small_cc), 7) = Some VerifiedLinkedV1"
    by (simp_all add: old_ceremonies_def)
  ultimately have "\<forall>c cm b sch' sender cid' (p :: nat ProofOfAttendance).
      VerifiedLinkedV1 = VerifiedLinkedV1 \<and> registration_cindex sch' = registration_cindex (clock 5 Registering) \<and>
      pa_community_identifier p = fst small_cc \<and> pa_ceremony_index p = snd small_cc \<and> attendee_public p = 7 \<longrightarrow>
      (\<exists>e. register_participant c sch' cm b sender cid' (Some p)
         (small_genesis\<lparr>ce_reputation := \<lambda>cc a. map_of (so_reputation s') (cc, a)\<rparr>) = Inl e)"
    using migrated_attendance_used_once[OF _ _ _ run, of 2 "small_genesis\<lparr>ce_reputation := \<lambda>cc a. map_of (so_reputation s') (cc, a)\<rparr>"
      "fst small_cc" "snd small_cc" 7 VerifiedLinkedV1] by fastforce
  from this[rule_format, of "clock 5 Registering" "\<lparr>prover_public = 7, pa_ceremony_index = snd small_cc, pa_community_identifier = fst small_cc,
      attendee_public = 7, attendee_signature = 107\<rparr>"]
  show ?thesis using run by auto
qed

section \<open>Democracy\<close>

lemma fresh_updates:
  assumes "distinct (map fst old)" and "set (map fst old) \<inter> set (map fst q) = {}"
  shows "fold (\<lambda>(k, i). AList.update k [i]) old q = q @ map (\<lambda>(k, i). (k, [i])) old"
  using assms
proof (induction old arbitrary: q)
  case (Cons x old)
  obtain k i where x: "x = (k, i)" by force
  have "AList.update k v q = q @ [(k, v)]" if "k \<notin> set (map fst q)" for v :: "'b list" and q :: "('a \<times> 'b list) list"
    using that by (induction q) auto
  then have "AList.update k [i] q = q @ [(k, [i])]" using Cons.prems(2) x by auto
  then show ?case using Cons.IH[of "q @ [(k, [i])]"] Cons.prems x by auto
qed simp

lemma singleton_queue:
  "map_of (map (\<lambda>(k, i). (k, [i])) old) k = map_option (\<lambda>i. [i]) (map_of old k)"
  "queued (map (\<lambda>(k, i). (k, [i])) old) = map snd old"
  "map fst (map (\<lambda>(k, i). (k, [i])) old) = map fst old"
  by (induction old) (auto simp: queued_def)

text \<open>Pushing proposals that all fit.\<close>

definition fits :: "(nat \<Rightarrow> ProposalActionIdentifier) \<Rightarrow> nat list \<Rightarrow> (ProposalActionIdentifier \<times> nat list) list \<Rightarrow> bool" where
  "fits f xs q \<longleftrightarrow>
     (\<forall>k. length (value_query [] (map_of q k)) + length (filter (\<lambda>i. f i = k) xs) \<le> ENACTMENT_QUEUE_MAX_PER_TYPE)"

lemma fits_push:
  assumes "fits f (x # xs) q"
  shows "length (value_query [] (map_of q (f x))) < ENACTMENT_QUEUE_MAX_PER_TYPE"
    and "value_query [] (map_of (push_enactment (f x) x q) k) = value_query [] (map_of q k) @ filter (\<lambda>i. f i = k) [x]"
    and "fits f xs (push_enactment (f x) x q)"
proof -
  have fit: "length (value_query [] (map_of q k)) + length (filter (\<lambda>i. f i = k) (x # xs)) \<le> ENACTMENT_QUEUE_MAX_PER_TYPE" for k
    using assms unfolding fits_def by blast
  show room: "length (value_query [] (map_of q (f x))) < ENACTMENT_QUEUE_MAX_PER_TYPE" using fit[of "f x"] by simp
  have q': "value_query [] (map_of (push_enactment (f x) x q) k) = value_query [] (map_of q k) @ filter (\<lambda>i. f i = k) [x]" for k
    using room by (simp add: push_enactment_def Let_def update_conv')
  then show "value_query [] (map_of (push_enactment (f x) x q) k) = value_query [] (map_of q k) @ filter (\<lambda>i. f i = k) [x]" .
  show "fits f xs (push_enactment (f x) x q)" unfolding fits_def q'
  proof
    fix k show "length (value_query [] (map_of q k) @ filter (\<lambda>i. f i = k) [x]) + length (filter (\<lambda>i. f i = k) xs)
        \<le> ENACTMENT_QUEUE_MAX_PER_TYPE" using fit[of k] by (cases "f x = k") simp_all
  qed
qed

lemma push_all:
  assumes "fits f xs q" and "distinct (map fst q)"
  defines "q' \<equiv> fold (\<lambda>i. push_enactment (f i) i) xs q"
  shows "(\<forall>k. value_query [] (map_of q' k) = value_query [] (map_of q k) @ filter (\<lambda>i. f i = k) xs) \<and>
    mset (queued q') = mset (queued q) + mset xs \<and> distinct (map fst q')"
  using assms(1,2) unfolding q'_def
proof (induction xs arbitrary: q)
  case (Cons x xs)
  note p = fits_push[OF Cons.prems(1)]
  from Cons.IH[OF p(3) push_enactment_queued(2)[OF Cons.prems(2)]]
  show ?case using p(1) by (auto simp: p(2) push_enactment_queued(1))
qed simp

text \<open>The second step of the migration pushes the approved proposals that are not queued, in the order of the iteration.\<close>

definition action_of :: "'k democracy \<Rightarrow> nat \<Rightarrow> ProposalActionIdentifier" where
  "action_of d i = get_identifier (pr_action (the (de_proposals d i)))"

lemma reinsert_all:
  "fold (reinsert_approved qs) ids d =
     d\<lparr>de_enactment_queue := fold (\<lambda>i. push_enactment (action_of d i) i) (filter (approved_unqueued d qs) ids) (de_enactment_queue d)\<rparr>"
proof (induction ids arbitrary: d)
  case (Cons i ids)
  let ?d = "reinsert_approved qs i d"
  have same: "de_proposals ?d = de_proposals d" by (simp add: reinsert_approved_def split: option.splits)
  then have "approved_unqueued ?d qs = approved_unqueued d qs" "action_of ?d = action_of d"
    by (auto simp: fun_eq_iff approved_unqueued_def action_of_def)
  then show ?case using Cons.IH[of ?d]
    by (auto simp: reinsert_approved_def approved_unqueued_def action_of_def split: option.splits)
qed simp

text \<open>The queue of version 1 holds approved proposals under the identifiers of their actions.\<close>

definition old_queue_ok :: "'k stored_democracy \<Rightarrow> bool" where
  "old_queue_ok s \<longleftrightarrow>
     distinct (map fst (sd_old_enactment_queue s)) \<and> distinct (map snd (sd_old_enactment_queue s)) \<and>
     (\<forall>(k, i) \<in> set (sd_old_enactment_queue s). \<exists>p. de_proposals (sd_democracy s) i = Some p \<and> pr_state p = Approved \<and>
        get_identifier (pr_action p) = k)"

lemma old_queue_of_action:
  assumes "old_queue_ok s"
  shows "(case map_of (sd_old_enactment_queue s) k of None \<Rightarrow> [] | Some i \<Rightarrow> [i]) =
    filter (\<lambda>i. action_of (sd_democracy s) i = k) (map snd (sd_old_enactment_queue s))"
proof -
  have "(case map_of old k of None \<Rightarrow> [] | Some i \<Rightarrow> [i]) = filter (\<lambda>i. f i = k) (map snd old)"
    if "distinct (map fst old)" "\<forall>(k, i) \<in> set old. f i = k" for old :: "(ProposalActionIdentifier \<times> nat) list" and f
    using that
  proof (induction old)
    case (Cons x old)
    have "map_of old (fst x) = None" using Cons.prems(1) by (simp add: map_of_eq_None_iff)
    then show ?case using Cons by (cases x) (auto split: option.splits)
  qed simp
  from this[of "sd_old_enactment_queue s" "action_of (sd_democracy s)"] show ?thesis
     using assms by (force simp: old_queue_ok_def action_of_def)
qed

definition approved_ids :: "'k democracy \<Rightarrow> nat list \<Rightarrow> nat list" where
  "approved_ids d ids = filter (approved_unqueued d []) ids"

lemma approved_ids_iff:
  "i \<in> set (approved_ids d ids) \<longleftrightarrow> i \<in> set ids \<and> (\<exists>p. de_proposals d i = Some p \<and> pr_state p = Approved)"
  by (auto simp: approved_ids_def approved_unqueued_def split: option.splits)

lemma old_and_unqueued:
  assumes "old_queue_ok s" and "distinct ids" and "set ids = {i. de_proposals (sd_democracy s) i \<noteq> None}"
  defines "qs \<equiv> map snd (sd_old_enactment_queue s)"
  shows "mset qs + mset (filter (approved_unqueued (sd_democracy s) qs) ids) = mset (approved_ids (sd_democracy s) ids)"
proof (rule multiset_eqI)
  fix i
  let ?d = "sd_democracy s" and ?f = "filter (approved_unqueued (sd_democracy s) qs) ids"
  have q: "\<exists>p. de_proposals ?d i = Some p \<and> pr_state p = Approved" if "i \<in> set qs"
    using that assms(1) unfolding qs_def old_queue_ok_def by force
  have "distinct qs" "distinct ?f" "distinct (approved_ids ?d ids)"
    using assms(1,2) by (simp_all add: qs_def old_queue_ok_def approved_ids_def)
  moreover have "count (mset xs) i = of_bool (i \<in> set xs)" if "distinct xs" for xs :: "nat list"
    using that by (simp add: distinct_count_atmost_1)
  ultimately have c: "count (mset qs) i = of_bool (i \<in> set qs)" "count (mset ?f) i = of_bool (i \<in> set ?f)"
    "count (mset (approved_ids ?d ids)) i = of_bool (i \<in> set (approved_ids ?d ids))" by blast+
  have "i \<in> set ?f \<longleftrightarrow> i \<in> set ids \<and> (\<exists>p. de_proposals ?d i = Some p \<and> pr_state p = Approved) \<and> i \<notin> set qs"
    by (auto simp: approved_unqueued_def split: option.splits)
  then show "count (mset qs + mset ?f) i = count (mset (approved_ids ?d ids)) i"
    unfolding count_union c approved_ids_iff using q assms(3) by auto
qed

text \<open>C12: The migration repairs the enactment queue. In the old format an approval overwrote the queued one of
  the same action; if no action has more than 128 approved proposals, then after the migration every approved proposal
  is queued exactly once, under the identifier of its action: the one that was queued first, then those that were lost, in the
  order in which the proposals are iterated, which need not be that of their approval. Proposals are unchanged, the
  invariant of the pallet holds, the check after the upgrade passes, and the migration runs only once.\<close>

theorem lost_approvals_requeued:
  assumes "sd_version s = 1" and "old_queue_ok s" and "distinct ids" and "set ids = {i. de_proposals (sd_democracy s) i \<noteq> None}"
    and "\<And>i. de_proposals (sd_democracy s) i \<noteq> None \<Longrightarrow> i \<le> de_proposal_count (sd_democracy s)"
    and "\<And>k. length (filter (\<lambda>i. action_of (sd_democracy s) i = k) (approved_ids (sd_democracy s) ids)) \<le> ENACTMENT_QUEUE_MAX_PER_TYPE"
    and "democracy_v2_on_runtime_upgrade rw ids s = (weight, s')"
  shows "mset (queued (de_enactment_queue (sd_democracy s'))) = mset (approved_ids (sd_democracy s) ids) \<and>
    (\<forall>k. value_query [] (map_of (de_enactment_queue (sd_democracy s')) k) =
       (case map_of (sd_old_enactment_queue s) k of None \<Rightarrow> [] | Some i \<Rightarrow> [i]) @
       filter (\<lambda>i. action_of (sd_democracy s) i = k \<and> i \<notin> set (map snd (sd_old_enactment_queue s))) (approved_ids (sd_democracy s) ids)) \<and>
    de_proposals (sd_democracy s') = de_proposals (sd_democracy s) \<and> democracy_ok (sd_democracy s') \<and>
    democracy_v2_post_upgrade ids s' \<and> democracy_v2_on_runtime_upgrade rw ids s' = (rw 1 0, s')"
proof -
  let ?d = "sd_democracy s" and ?old = "sd_old_enactment_queue s"
  define qs where "qs = map snd ?old"
  define lost where "lost = filter (approved_unqueued ?d qs) ids"
  define q1 where "q1 = map (\<lambda>(k, i). (k, [i])) ?old"
  define q2 where "q2 = fold (\<lambda>i. push_enactment (action_of ?d i) i) lost q1"
  have old: "distinct (map fst ?old)" using assms(2) by (simp add: old_queue_ok_def)
  have s': "s' = s\<lparr>sd_old_enactment_queue := [], sd_democracy := ?d\<lparr>de_enactment_queue := q2\<rparr>, sd_version := 2\<rparr>"
    using assms(7) fresh_updates[OF old, of "[]"]
    by (simp add: democracy_v2_on_runtime_upgrade_def assms(1) Let_def reinsert_all q2_def q1_def lost_def qs_def
        approved_unqueued_def[abs_def] action_of_def[abs_def])
  have all: "mset qs + mset lost = mset (approved_ids ?d ids)"
    using old_and_unqueued[OF assms(2-4)] unfolding lost_def qs_def .
  have q1: "value_query [] (map_of q1 k) = filter (\<lambda>i. action_of ?d i = k) qs" for k
    using old_queue_of_action[OF assms(2), of k] by (simp add: q1_def qs_def singleton_queue split: option.splits)
  have "length (filter P qs) + length (filter P lost) = length (filter P (approved_ids ?d ids))" for P
    using arg_cong[OF all, of "\<lambda>m. size (filter_mset P m)"] by (simp flip: mset_filter)
  then have "fits (action_of ?d) lost q1" using assms(6) by (simp add: fits_def q1)
  moreover have q1': "distinct (map fst q1)" "queued q1 = qs" unfolding q1_def singleton_queue qs_def using old by simp_all
  ultimately have q2: "\<forall>k. value_query [] (map_of q2 k) = value_query [] (map_of q1 k) @ filter (\<lambda>i. action_of ?d i = k) lost"
    "mset (queued q2) = mset (approved_ids ?d ids)" "distinct (map fst q2)"
    using push_all[of "action_of ?d" lost q1] all unfolding q2_def[symmetric] by auto
  have "distinct (queued q2)" using q2(2) assms(3) by (metis approved_ids_def distinct_filter mset_eq_imp_distinct_iff)
  moreover have set: "set (queued q2) = set (approved_ids ?d ids)" using q2(2) by (rule mset_eq_setD)
  ultimately have "democracy_ok (sd_democracy s')"
    using assms(5) q2(3) by (simp add: s' democracy_ok_def queue_entry_ok_def approved_ids_iff)
  moreover have "democracy_v2_post_upgrade ids s'"
    using set by (auto simp: democracy_v2_post_upgrade_def s' list_all_iff queued_def approved_ids_iff split: option.splits)
  moreover have "filter (\<lambda>i. action_of ?d i = k) lost =
      filter (\<lambda>i. action_of ?d i = k \<and> i \<notin> set (map snd ?old)) (approved_ids ?d ids)" for k
    by (auto simp: lost_def approved_ids_def qs_def approved_unqueued_def intro!: filter_cong split: option.splits)
  ultimately show ?thesis
    using q2 old_queue_of_action[OF assms(2)]
    by (simp add: s' democracy_v2_on_runtime_upgrade_def q1 qs_def)
qed

text \<open>Two approved proposals for the inactivity timeout: the approval of the second had overwritten the first in the queue.\<close>

definition timeout_proposal :: "nat \<Rightarrow> unit Proposal" where
  "timeout_proposal timeout =
     \<lparr>pr_start = 0, pr_start_cindex = 6, pr_action = SetInactivityTimeout timeout, pr_state = Approved, pr_electorate_size = 2\<rparr>"

definition two_timeouts :: "unit stored_democracy" where
  "two_timeouts =
     \<lparr>sd_version = 1, sd_cancelled_at = [], sd_old_enactment_queue = [(SetInactivityTimeoutId, 2)],
      sd_democracy = (democracy_genesis 2)\<lparr>de_proposals := [1 \<mapsto> timeout_proposal 11, 2 \<mapsto> timeout_proposal 22],
        de_last_approved_proposal_for_action := [SetInactivityTimeoutId \<mapsto> (50, 2)]\<rparr>\<rparr>"

theorem lost_approvals_requeued_witness:
  "\<exists>weight s'. democracy_v2_on_runtime_upgrade (\<lambda>r w. (r, w)) [1, 2] two_timeouts = (weight, s') \<and>
     value_query [] (map_of (de_enactment_queue (sd_democracy s')) SetInactivityTimeoutId) = [2, 1] \<and>
     democracy_ok (sd_democracy s') \<and> democracy_v2_post_upgrade [1, 2] s'"
proof -
  let ?d = "sd_democracy two_timeouts"
  obtain weight s' where run: "democracy_v2_on_runtime_upgrade (\<lambda>r w. (r, w)) [1, 2] two_timeouts = (weight, s')" by fastforce
  have p: "de_proposals ?d = [1 \<mapsto> timeout_proposal 11, 2 \<mapsto> timeout_proposal 22]" by (simp add: two_timeouts_def)
  have a: "approved_ids ?d [1, 2] = [1, 2]" by (simp add: approved_ids_def approved_unqueued_def p timeout_proposal_def)
  have act: "action_of ?d 1 = SetInactivityTimeoutId" "action_of ?d 2 = SetInactivityTimeoutId"
    by (simp_all add: action_of_def p timeout_proposal_def)
  have "old_queue_ok two_timeouts" by (simp add: old_queue_ok_def p) (simp add: two_timeouts_def timeout_proposal_def)
  moreover have "set [1, 2 :: nat] = {i. de_proposals ?d i \<noteq> None}" by (auto simp: p)
  moreover have "i \<le> de_proposal_count ?d" if "de_proposals ?d i \<noteq> None" for i
    using that unfolding p by (auto simp: two_timeouts_def democracy_genesis_def split: if_splits)
  moreover have "length (filter (\<lambda>i. action_of ?d i = k) (approved_ids ?d [1, 2])) \<le> ENACTMENT_QUEUE_MAX_PER_TYPE" for k
    unfolding a by (simp add: ENACTMENT_QUEUE_MAX_PER_TYPE_def)
  moreover have "sd_version two_timeouts = 1" by (simp add: two_timeouts_def)
  ultimately have "(\<forall>k. value_query [] (map_of (de_enactment_queue (sd_democracy s')) k) =
       (case map_of (sd_old_enactment_queue two_timeouts) k of None \<Rightarrow> [] | Some i \<Rightarrow> [i]) @
       filter (\<lambda>i. action_of ?d i = k \<and> i \<notin> set (map snd (sd_old_enactment_queue two_timeouts))) (approved_ids ?d [1, 2])) \<and>
     democracy_ok (sd_democracy s') \<and> democracy_v2_post_upgrade [1, 2] s'"
    using lost_approvals_requeued[of two_timeouts "[1, 2]" "\<lambda>r w. (r, w)" weight s'] run by simp
  moreover have "sd_old_enactment_queue two_timeouts = [(SetInactivityTimeoutId, 2)]" by (simp add: two_timeouts_def)
  ultimately show ?thesis using run act a by auto
qed

text \<open>The order matters: the approval that had been overwritten is enacted after the one that had replaced it, so the
  timeout ends as the value of the earlier approval.\<close>

lemma requeued_approval_overrides:
  "ce_inactivity_timeout (ch_ceremonies (democracy_on_phase_change electorate_config Assigning
     (small_chain (sd_democracy (snd (democracy_v2_on_runtime_upgrade (\<lambda>r w. (r, w)) [1, 2] two_timeouts)))))) = 11"
  by code_simp

end
