(* ===== verification/Rpc_Cache.thy ===== *)
theory Rpc_Cache
  imports Community_Properties
begin

text \<open>
  The cache of the communities in the node, \<open>communities/rpc/src/lib.rs\<close>: the pallet writes the names of the
  communities and a dirty bit to the offchain index, and the node answers queries from copies that it refreshes when
  the bit is set.

  The offchain storage is a record of typed cells, so that nothing stored fails to decode; the index of a call that
  fails is discarded with the call. \<open>view\<close> is the state at the block a query asks for, which a client may choose.
\<close>

section \<open>The offchain storage\<close>

record offchain =
  oi_dirty :: "bool option"
  oi_names :: "CommunityIdentifier \<Rightarrow> bytes option"
  oi_cids :: "CidName list option"
  oi_locations :: "CommunityIdentifier \<Rightarrow> Location list option"

definition offchain_empty :: offchain where
  "offchain_empty = \<lparr>oi_dirty = None, oi_names = Map.empty, oi_cids = None, oi_locations = Map.empty\<rparr>"

text \<open>What the pallet writes.\<close>

definition mark_dirty :: "offchain \<Rightarrow> offchain" where
  "mark_dirty oi = oi\<lparr>oi_dirty := Some True\<rparr>"

definition index_metadata :: "CommunityIdentifier \<Rightarrow> CommunityMetadata \<Rightarrow> offchain \<Rightarrow> offchain" where
  "index_metadata cid md oi = mark_dirty (oi\<lparr>oi_names := (oi_names oi)(cid \<mapsto> md_name md)\<rparr>)"

definition index_new_community ::
  "communities_config \<Rightarrow> Location \<Rightarrow> AccountId list \<Rightarrow> CommunityMetadata \<Rightarrow> offchain \<Rightarrow> offchain" where
  "index_new_community c location bs md oi =
     (case cid_new (cc_try_from_params c) (cc_crc32 c) (cc_encode c) location bs of
        Inl _ \<Rightarrow> oi
      | Inr cid \<Rightarrow> index_metadata cid md oi)"

text \<open>A purge marks the cache once for every location it removes.\<close>

definition index_purge :: "CommunityIdentifier \<Rightarrow> communities \<Rightarrow> offchain \<Rightarrow> offchain" where
  "index_purge cid s oi = fold (\<lambda>_. mark_dirty) (get_locations s cid) oi"

section \<open>The node\<close>

datatype rpc_error = OffchainIndexingDisabled | OffchainStorageNotFound

definition cache_dirty :: "offchain \<Rightarrow> bool" where
  "cache_dirty oi = (case oi_dirty oi of Some d \<Rightarrow> d | None \<Rightarrow> True)"

definition refresh_cache :: "communities \<Rightarrow> offchain \<Rightarrow> offchain" where
  "refresh_cache view oi =
     (let cids = cm_community_identifiers view;
          cid_names = List.map_filter (\<lambda>cid. map_option (\<lambda>name. \<lparr>cn_cid = cid, cn_name = name\<rparr>) (oi_names oi cid)) cids;
          oi1 = oi\<lparr>oi_cids := Some cid_names\<rparr>;
          oi2 = foldl (\<lambda>oi cid. oi\<lparr>oi_locations := (oi_locations oi)(cid \<mapsto> get_locations view cid)\<rparr>) oi1 cids
      in oi2\<lparr>oi_dirty := Some False\<rparr>)"

definition communities_get_all ::
  "bool \<Rightarrow> communities \<Rightarrow> offchain \<Rightarrow> (rpc_error + CidName list) \<times> offchain" where
  "communities_get_all offchain_indexing view oi =
     (if \<not> offchain_indexing then (Inl OffchainIndexingDisabled, oi)
      else
        (let oi' = (if cache_dirty oi then refresh_cache view oi else oi)
         in (ok_or (oi_cids oi') OffchainStorageNotFound, oi')))"

definition communities_get_locations ::
  "bool \<Rightarrow> communities \<Rightarrow> CommunityIdentifier \<Rightarrow> offchain \<Rightarrow> (rpc_error + Location list) \<times> offchain" where
  "communities_get_locations offchain_indexing view cid oi =
     (if \<not> offchain_indexing then (Inl OffchainIndexingDisabled, oi)
      else
        (let oi' = (if cache_dirty oi then refresh_cache view oi else oi)
         in (ok_or (oi_locations oi' cid) OffchainStorageNotFound, oi')))"

text \<open>
  A call of the pallet with what it indexes, or a query at the best block. A purge marks the cache only if the community
  has a location left; the removal of an inactive community by the ceremonies pallet has the effect of a purge.
\<close>

inductive node_step ::
  "communities_config \<Rightarrow> (communities \<times> balances) \<times> offchain \<Rightarrow> (communities \<times> balances) \<times> offchain \<Rightarrow> bool"
  for c :: communities_config where
  node_new: "new_community c t location bs md dem inc s b = Inr sb \<Longrightarrow>
    node_step c ((s, b), oi) (sb, index_new_community c location bs md oi)"
| node_add: "add_location c ph t cid location s = Inr s' \<Longrightarrow> node_step c ((s, b), oi) ((s', b), mark_dirty oi)"
| node_remove: "remove_location c ph m cid location s = Inr s' \<Longrightarrow> node_step c ((s, b), oi) ((s', b), mark_dirty oi)"
| node_metadata: "update_community_metadata m cid md s = Inr s' \<Longrightarrow> node_step c ((s, b), oi) ((s', b), index_metadata cid md oi)"
| node_demurrage: "update_demurrage m cid d s b = Inr sb \<Longrightarrow> node_step c ((s, b), oi) (sb, oi)"
| node_income: "update_nominal_income m cid i s = Inr s' \<Longrightarrow> node_step c ((s, b), oi) ((s', b), oi)"
| node_solar: "set_min_solar_trip_time_s m t s = Inr s' \<Longrightarrow> node_step c ((s, b), oi) ((s', b), oi)"
| node_speed: "set_max_speed_mps m v s = Inr s' \<Longrightarrow> node_step c ((s, b), oi) ((s', b), oi)"
| node_purge: "purge_community m cid s b = Inr sb \<Longrightarrow> node_step c ((s, b), oi) (sb, index_purge cid s oi)"
| node_get_all: "communities_get_all ix s oi = (answer, oi') \<Longrightarrow> node_step c ((s, b), oi) ((s, b), oi')"
| node_get_locations: "communities_get_locations ix s cid oi = (locs, oi') \<Longrightarrow> node_step c ((s, b), oi) ((s, b), oi')"

definition unmarked_purge :: "(communities \<times> balances) \<times> offchain \<Rightarrow> (communities \<times> balances) \<times> offchain \<Rightarrow> bool" where
  "unmarked_purge x y \<longleftrightarrow> (\<exists>m cid. cid \<in> set (cm_community_identifiers (fst (fst x))) \<and>
     get_locations (fst (fst x)) cid = [] \<and> purge_community m cid (fst (fst x)) (snd (fst x)) = Inr (fst y))"

section \<open>Coherence\<close>

definition names_indexed :: "communities \<Rightarrow> offchain \<Rightarrow> bool" where
  "names_indexed s oi \<longleftrightarrow>
     (\<forall>cid \<in> set (cm_community_identifiers s). \<exists>md. cm_community_metadata s cid = Some md \<and> oi_names oi cid = Some (md_name md))"

definition current_names :: "communities \<Rightarrow> CidName list" where
  "current_names s =
     map (\<lambda>cid. \<lparr>cn_cid = cid, cn_name = md_name (value_query default_metadata (cm_community_metadata s cid))\<rparr>)
       (cm_community_identifiers s)"

text \<open>A clean cache has the registered communities right; it may list purged ones besides.\<close>

definition cache_fresh :: "communities \<Rightarrow> offchain \<Rightarrow> bool" where
  "cache_fresh s oi \<longleftrightarrow>
     (\<exists>names. oi_cids oi = Some names \<and>
        filter (\<lambda>cn. cn_cid cn \<in> set (cm_community_identifiers s)) names = current_names s) \<and>
     (\<forall>cid \<in> set (cm_community_identifiers s). oi_locations oi cid = Some (get_locations s cid))"

definition coherent :: "communities \<Rightarrow> offchain \<Rightarrow> bool" where
  "coherent s oi \<longleftrightarrow> names_indexed s oi \<and> (cache_dirty oi \<or> cache_fresh s oi)"

definition exact :: "communities \<Rightarrow> offchain \<Rightarrow> bool" where
  "exact s oi \<longleftrightarrow> cache_dirty oi \<or> oi_cids oi = Some (current_names s)"

lemma current_names_registered:
  "filter (\<lambda>cn. cn_cid cn \<in> set (cm_community_identifiers s)) (current_names s) = current_names s"
  by (auto simp: current_names_def filter_id_conv)

lemma refresh_locations:
  "oi_locations (foldl (\<lambda>oi cid. oi\<lparr>oi_locations := (oi_locations oi)(cid \<mapsto> f cid)\<rparr>) oi cids) cid =
     (if cid \<in> set cids then Some (f cid) else oi_locations oi cid)"
  "oi_cids (foldl (\<lambda>oi cid. oi\<lparr>oi_locations := (oi_locations oi)(cid \<mapsto> f cid)\<rparr>) oi cids) = oi_cids oi"
  "oi_names (foldl (\<lambda>oi cid. oi\<lparr>oi_locations := (oi_locations oi)(cid \<mapsto> f cid)\<rparr>) oi cids) = oi_names oi"
  by (induction cids arbitrary: oi) auto

lemma refresh_fields:
  "oi_names (refresh_cache view oi) = oi_names oi"
  "oi_dirty (refresh_cache view oi) = Some False"
  "oi_cids (refresh_cache view oi) = Some (List.map_filter
     (\<lambda>cid. map_option (\<lambda>name. \<lparr>cn_cid = cid, cn_name = name\<rparr>) (oi_names oi cid)) (cm_community_identifiers view))"
  "oi_locations (refresh_cache view oi) cid =
     (if cid \<in> set (cm_community_identifiers view) then Some (get_locations view cid) else oi_locations oi cid)"
  by (simp_all add: refresh_cache_def Let_def refresh_locations)

lemma refresh_fresh:
  assumes "names_indexed s oi"
  shows "cache_fresh s (refresh_cache s oi)" and "names_indexed s (refresh_cache s oi)"
    and "oi_cids (refresh_cache s oi) = Some (current_names s)"
proof -
  have "List.map_filter (\<lambda>cid. map_option (\<lambda>name. \<lparr>cn_cid = cid, cn_name = name\<rparr>) (oi_names oi cid)) cids =
      map (\<lambda>cid. \<lparr>cn_cid = cid, cn_name = md_name (value_query default_metadata (cm_community_metadata s cid))\<rparr>) cids"
    if "set cids \<subseteq> set (cm_community_identifiers s)" for cids
    using that assms by (induction cids) (auto simp: List.map_filter_def names_indexed_def)
  then show names: "oi_cids (refresh_cache s oi) = Some (current_names s)" by (simp add: refresh_fields current_names_def)
  then show "cache_fresh s (refresh_cache s oi)" by (simp add: cache_fresh_def current_names_registered refresh_fields(4))
  show "names_indexed s (refresh_cache s oi)" using assms by (simp add: names_indexed_def refresh_fields)
qed

lemma query_coherent:
  assumes "coherent s oi"
  defines "oi' \<equiv> (if cache_dirty oi then refresh_cache s oi else oi)"
  shows "coherent s oi' \<and> cache_fresh s oi' \<and> (exact s oi \<longrightarrow> oi_cids oi' = Some (current_names s))"
  using assms refresh_fresh[of s oi] by (auto simp: coherent_def exact_def)

text \<open>What a call has to leave alone for the cache to stay valid without a mark.\<close>

lemma coherent_cong:
  assumes "cm_community_identifiers s' = cm_community_identifiers s" and "cm_community_metadata s' = cm_community_metadata s"
    and "cm_locations s' = cm_locations s"
  shows "coherent s' oi = coherent s oi" and "exact s' oi = exact s oi"
  using assms by (simp_all add: coherent_def exact_def names_indexed_def cache_fresh_def current_names_def get_locations_def)

lemma coherent_dirty:
  assumes "names_indexed s oi" and "oi_dirty oi = Some True"
  shows "coherent s oi" and "exact s oi"
  using assms by (simp_all add: coherent_def exact_def cache_dirty_def)

lemma index_cid_fields:
  assumes "index_cid c g cid s = Inr s'"
  shows "cm_community_identifiers s' = cm_community_identifiers s" and "cm_community_metadata s' = cm_community_metadata s"
  using assms by (auto simp: index_cid_def insert_cids_by_geohash_def res_simps split: sum.splits)

lemma add_location_fields:
  assumes "communities_ok c s" and "add_location c ph t cid location s = Inr s'"
  shows "cm_community_identifiers s' = cm_community_identifiers s \<and> cm_community_metadata s' = cm_community_metadata s"
proof -
  have "do_add_location c cid location s = Inr s'" using assms(2) by (simp add: add_location_def res_simps)
  from do_add_location_cases[OF assms(1) this] obtain g s1 s2 where "index_cid c g cid s1 = Inr s2"
    "s' = cm_deposit_event (LocationAdded cid location) s2"
    "s1 = (if location \<in> set (locations s cid g) then s
      else insert_locations cid g (insort location (locations s cid g)) s)" by blast
  then show ?thesis by (simp add: cm_deposit_event_def insert_locations_def index_cid_fields)
qed

lemma remove_location_fields:
  assumes "remove_location c ph m cid location s = Inr s'"
  shows "cm_community_identifiers s' = cm_community_identifiers s \<and> cm_community_metadata s' = cm_community_metadata s"
proof -
  have "cm_community_identifiers (remove_location_intern cid location g s) = cm_community_identifiers s \<and>
      cm_community_metadata (remove_location_intern cid location g s) = cm_community_metadata s" for g
    by (simp add: remove_location_intern_def insert_locations_def insert_cids_by_geohash_def Let_def split: sum.split)
  then show ?thesis
    using assms by (auto simp: remove_location_def do_remove_location_def res_simps cm_deposit_event_def)
qed

lemma new_community_fields:
  assumes "new_community c t location bs md dem inc s b = Inr (s', b')"
  obtains cid where "cid_new (cc_try_from_params c) (cc_crc32 c) (cc_encode c) location bs = Inr cid"
    and "cid \<notin> set (cm_community_identifiers s)" and "cm_community_identifiers s' = cm_community_identifiers s @ [cid]"
    and "cm_community_metadata s' = (cm_community_metadata s)(cid \<mapsto> md)"
proof -
  have "\<exists>cid g s1. cid_new (cc_try_from_params c) (cc_crc32 c) (cc_encode c) location bs = Inr cid \<and>
      cid \<notin> set (cm_community_identifiers s) \<and> index_cid c g cid s = Inr s1 \<and>
      cm_community_identifiers s' = cm_community_identifiers s1 @ [cid] \<and>
      cm_community_metadata s' = (cm_community_metadata s1)(cid \<mapsto> md)"
    using assms
    by (cases inc) (auto simp: new_community_def res_simps insert_locations_def cm_deposit_event_def Let_def, blast+)
  then show thesis using that index_cid_fields by metis
qed

lemma update_fields:
  "update_demurrage m cid d s b = Inr (s', b') \<Longrightarrow> cm_community_metadata s' = cm_community_metadata s"
  "update_nominal_income m cid i s = Inr s' \<Longrightarrow> cm_community_metadata s' = cm_community_metadata s"
  "set_min_solar_trip_time_s m t s = Inr s' \<Longrightarrow> cm_community_metadata s' = cm_community_metadata s"
  "set_max_speed_mps m v s = Inr s' \<Longrightarrow> cm_community_metadata s' = cm_community_metadata s"
  by (auto simp: update_demurrage_def do_update_demurrage_def update_nominal_income_def do_update_nominal_income_def
      set_min_solar_trip_time_s_def set_max_speed_mps_def res_simps cm_deposit_event_def)

lemma names_marked: "names_indexed s (mark_dirty oi) = names_indexed s oi"
  by (simp add: names_indexed_def mark_dirty_def)

lemma purge_marks:
  assumes "get_locations s cid \<noteq> []"
  shows "index_purge cid s oi = mark_dirty oi"
proof -
  have "fold (\<lambda>_. mark_dirty) (x # xs) oi = mark_dirty oi" for x :: Location and xs and oi
    by (induction xs arbitrary: oi) (simp_all add: mark_dirty_def)
  then show ?thesis using assms by (cases "get_locations s cid") (simp_all add: index_purge_def)
qed

lemma remove_community_keeps_locations:
  assumes "remove_community cid s b = (s', b')" and "x \<noteq> cid"
  shows "cm_locations s' x = cm_locations s x"
proof -
  have intern: "cm_locations (remove_location_intern cid l g s) x = cm_locations s x" for l g s
    using assms(2) by (simp add: remove_location_intern_def insert_locations_def insert_cids_by_geohash_def Let_def split: sum.split)
  have "cm_locations (fold (\<lambda>l. remove_location_intern cid l g) ls s) x = cm_locations s x" for g ls s
    by (induction ls arbitrary: s) (simp_all add: intern)
  then have "cm_locations (fold (\<lambda>(g, ls). fold (\<lambda>l. remove_location_intern cid l g) ls) xs s) x = cm_locations s x" for xs s
    by (induction xs arbitrary: s) auto
  then show ?thesis using assms by (auto simp: remove_community_def remove_all_locations_def Let_def cm_deposit_event_def)
qed

text \<open>A purge removes the name of the community from the current names and leaves the other communities as they are.\<close>

lemma purge_names:
  assumes "communities_ok c s" and "purge_community m cid s b = Inr (s', b')"
  shows "cm_community_identifiers s' = filter (\<lambda>x. x \<noteq> cid) (cm_community_identifiers s)"
    and "cm_community_metadata s' = (cm_community_metadata s)(cid := None)"
    and "current_names s' = filter (\<lambda>cn. cn_cid cn \<noteq> cid) (current_names s)"
    and "x \<noteq> cid \<Longrightarrow> get_locations s' x = get_locations s x"
proof -
  have res: "remove_community cid s b = (s', b')" using assms(2) by (simp add: purge_community_def res_simps)
  note spec = remove_community_spec(4,6)[OF assms(1) res]
  show "cm_community_identifiers s' = filter (\<lambda>x. x \<noteq> cid) (cm_community_identifiers s)"
    "cm_community_metadata s' = (cm_community_metadata s)(cid := None)" by (rule spec)+
  show "current_names s' = filter (\<lambda>cn. cn_cid cn \<noteq> cid) (current_names s)"
    by (auto simp: current_names_def spec filter_map comp_def intro!: map_cong)
  show "get_locations s' x = get_locations s x" if "x \<noteq> cid"
    using remove_community_keeps_locations[OF res that] by (simp add: get_locations_def)
qed

lemma purge_coherent:
  assumes "communities_ok c s" and "purge_community m cid s b = Inr (s', b')" and "coherent s oi"
  shows "coherent s' (index_purge cid s oi)"
    and "exact s oi \<Longrightarrow> cid \<in> set (cm_community_identifiers s) \<Longrightarrow> get_locations s cid \<noteq> [] \<Longrightarrow> exact s' (index_purge cid s oi)"
    and "exact s oi \<Longrightarrow> cid \<notin> set (cm_community_identifiers s) \<Longrightarrow> exact s' (index_purge cid s oi)"
proof -
  note purged = purge_names[OF assms(1,2)]
  have names: "names_indexed s' oi" using assms(3) purged(1,2) by (auto simp: coherent_def names_indexed_def)
  have marked: "coherent s' (index_purge cid s oi)" "exact s' (index_purge cid s oi)" if "get_locations s cid \<noteq> []"
    using that coherent_dirty[of s' "mark_dirty oi", unfolded names_marked, OF names]
    by (simp_all add: purge_marks) (simp_all add: mark_dirty_def)
  then show "exact s oi \<Longrightarrow> cid \<in> set (cm_community_identifiers s) \<Longrightarrow> get_locations s cid \<noteq> [] \<Longrightarrow> exact s' (index_purge cid s oi)" by blast
  have same: "current_names s' = current_names s" if "cid \<notin> set (cm_community_identifiers s)"
    using that unfolding purged(3) by (auto simp: current_names_def filter_id_conv)
  have clean: "index_purge cid s oi = oi" if "get_locations s cid = []" using that by (simp add: index_purge_def)
  show "exact s' (index_purge cid s oi)" if "exact s oi" "cid \<notin> set (cm_community_identifiers s)"
    using that marked(2) clean same by (cases "get_locations s cid = []") (auto simp: exact_def)
  show "coherent s' (index_purge cid s oi)"
  proof (cases "get_locations s cid = []")
    case True
    have "cache_fresh s' oi" if fresh: "cache_fresh s oi"
    proof -
      obtain ns where ns: "oi_cids oi = Some ns" "filter (\<lambda>cn. cn_cid cn \<in> set (cm_community_identifiers s)) ns = current_names s"
        using fresh unfolding cache_fresh_def by blast
      have "filter (\<lambda>cn. cn_cid cn \<in> set (cm_community_identifiers s')) ns = current_names s'"
        unfolding purged(3) ns(2)[symmetric] purged(1) by (simp add: conj_commute)
      then show ?thesis using fresh ns(1) purged(1,4) by (auto simp: cache_fresh_def)
    qed
    then show ?thesis using assms(3) names clean[OF True] by (auto simp: coherent_def)
  qed (rule marked(1))
qed

lemma node_step_communities:
  "node_step c (sb, oi) (sb', oi') \<Longrightarrow> sb' = sb \<or> communities_step c sb sb'"
  by (auto elim!: node_step.cases intro: communities_step.intros)

lemma node_step_coherent:
  assumes "node_step c (sb, oi) (sb', oi')" and "communities_ok c (fst sb)" and "coherent (fst sb) oi"
  shows "coherent (fst sb') oi' \<and> (exact (fst sb) oi \<and> \<not> unmarked_purge (sb, oi) (sb', oi') \<longrightarrow> exact (fst sb') oi')"
proof -
  have dirty: ?thesis if "names_indexed (fst sb') oi'" "oi_dirty oi' = Some True"
    using coherent_dirty[OF that] by blast
  have same: ?thesis if "oi' = oi" "cm_community_identifiers (fst sb') = cm_community_identifiers (fst sb)"
      "cm_community_metadata (fst sb') = cm_community_metadata (fst sb)" "cm_locations (fst sb') = cm_locations (fst sb)"
    using coherent_cong[OF that(2-4), of oi] assms(3) that(1) by simp
  have indexed: "names_indexed (fst sb) oi" using assms(3) by (simp add: coherent_def)
  show ?thesis
    using assms(1)
  proof cases
    case (node_new t location bs md dem inc s b)
    obtain s' b' where sb': "sb' = (s', b')" by fastforce
    from new_community_fields[OF node_new(3)[unfolded sb']] obtain cid where
      cid: "cid_new (cc_try_from_params c) (cc_crc32 c) (cc_encode c) location bs = Inr cid"
      "cm_community_identifiers s' = cm_community_identifiers s @ [cid]"
      "cm_community_metadata s' = (cm_community_metadata s)(cid \<mapsto> md)" by blast
    show ?thesis using indexed node_new(1)
      by (intro dirty)
         (auto simp: sb' node_new(2) names_indexed_def index_new_community_def index_metadata_def mark_dirty_def cid)
  next
    case (node_add ph t cid location s s' b)
    then show ?thesis using indexed add_location_fields[OF _ node_add(4)] assms(2)
      by (intro dirty) (auto simp: names_indexed_def mark_dirty_def)
  next
    case (node_remove ph m cid location s s' b)
    then show ?thesis using indexed remove_location_fields[OF node_remove(4)]
      by (intro dirty) (auto simp: names_indexed_def mark_dirty_def)
  next
    case (node_metadata m cid md s s' b)
    then have "cm_community_identifiers s' = cm_community_identifiers s"
      "cm_community_metadata s' = (cm_community_metadata s)(cid \<mapsto> md)"
      by (auto simp: update_community_metadata_def do_update_community_metadata_def res_simps cm_deposit_event_def)
    then show ?thesis using indexed node_metadata
      by (intro dirty) (auto simp: names_indexed_def index_metadata_def mark_dirty_def)
  next
    case (node_purge m cid s b)
    obtain s' b' where sb': "sb' = (s', b')" by fastforce
    have "purge_community m cid s b = (Inr (s', b'))" using node_purge(3) sb' by simp
    note p = purge_coherent[OF _ this, of c oi]
    have "unmarked_purge (sb, oi) (sb', oi')" if "cid \<in> set (cm_community_identifiers s)" "get_locations s cid = []"
      using that node_purge(1,3) by (auto simp: unmarked_purge_def)
    then show ?thesis using p assms(2,3) node_purge(1,2) sb' by auto
  next
    case (node_demurrage m cid d s b)
    obtain s' b' where sb': "sb' = (s', b')" by fastforce
    show ?thesis using node_demurrage updates_same_places(2) update_fields(1) sb' by (intro same) (auto simp: same_places_def)
  next
    case (node_income m cid i s s' b)
    then show ?thesis using updates_same_places(3) update_fields(2) by (intro same) (auto simp: same_places_def)
  next
    case (node_solar m t s s' b)
    then show ?thesis using updates_same_places(4) update_fields(3) by (intro same) (auto simp: same_places_def)
  next
    case (node_speed m v s s' b)
    then show ?thesis using updates_same_places(5) update_fields(4) by (intro same) (auto simp: same_places_def)
  next
    case (node_get_all ix s answer b)
    then show ?thesis using assms(3) query_coherent[of s oi]
      by (auto simp: communities_get_all_def Let_def exact_def split: if_splits)
  next
    case (node_get_locations ix s cid locs b)
    then show ?thesis using assms(3) query_coherent[of s oi]
      by (auto simp: communities_get_locations_def Let_def exact_def split: if_splits)
  qed
qed

lemma genesis_coherent: "coherent (communities_genesis t v) offchain_empty" "exact (communities_genesis t v) offchain_empty"
  by (simp_all add: coherent_def exact_def names_indexed_def communities_genesis_def cache_dirty_def offchain_empty_def)

lemma node_steps_coherent:
  assumes "(node_step c)\<^sup>*\<^sup>* ((communities_genesis t v, b0), offchain_empty) x"
  shows "communities_ok c (fst (fst x)) \<and> coherent (fst (fst x)) (snd x)"
  using assms
proof induction
  case base
  then show ?case using genesis_coherent genesis_ok by simp
next
  case (step x y)
  then show ?case
    using node_step_communities[of c "fst x" "snd x" "fst y" "snd y"] node_step_coherent[of c "fst x" "snd x" "fst y" "snd y"]
      communities_step_ok[of c "fst x" "fst y"] by auto
qed

lemma marked_steps_exact:
  assumes "(\<lambda>x y. node_step c x y \<and> \<not> unmarked_purge x y)\<^sup>*\<^sup>* ((communities_genesis t v, b0), offchain_empty) x"
  shows "(node_step c)\<^sup>*\<^sup>* ((communities_genesis t v, b0), offchain_empty) x \<and> exact (fst (fst x)) (snd x)"
  using assms
proof induction
  case base
  then show ?case using genesis_coherent by simp
next
  case (step x y)
  then have run: "(node_step c)\<^sup>*\<^sup>* ((communities_genesis t v, b0), offchain_empty) x" and
    "exact (fst (fst x)) (snd x)" "node_step c x y" "\<not> unmarked_purge x y" by blast+
  then show ?case using node_steps_coherent[OF run] node_step_coherent[of c "fst x" "snd x" "fst y" "snd y"]
    by (auto intro: rtranclp.rtrancl_into_rtrancl)
qed

text \<open>C17: The node answers from its cache what the chain holds. From genesis on, through any sequence of calls of the
  communities pallet and queries at the best block, the list of communities it answers has the registered
  communities with their current names, in order, and the locations it answers for a registered community are the
  stored ones, whether the cache was refreshed for the query or not. Besides them the list has at most communities
  that were purged; it has none of these if no community was purged after all its locations had been removed.\<close>

theorem rpc_answers_current:
  assumes "(node_step c)\<^sup>*\<^sup>* ((communities_genesis t v, b0), offchain_empty) ((s, b), oi)"
  shows "(\<exists>names. fst (communities_get_all True s oi) = Inr names \<and>
      filter (\<lambda>cn. cn_cid cn \<in> set (cm_community_identifiers s)) names = current_names s \<and>
      ((\<lambda>x y. node_step c x y \<and> \<not> unmarked_purge x y)\<^sup>*\<^sup>* ((communities_genesis t v, b0), offchain_empty) ((s, b), oi) \<longrightarrow>
        names = current_names s)) \<and>
    (\<forall>cid \<in> set (cm_community_identifiers s). fst (communities_get_locations True s cid oi) = Inr (get_locations s cid))"
proof -
  have "coherent s oi" using node_steps_coherent[OF assms] by simp
  moreover have "exact s oi"
    if "(\<lambda>x y. node_step c x y \<and> \<not> unmarked_purge x y)\<^sup>*\<^sup>* ((communities_genesis t v, b0), offchain_empty) ((s, b), oi)"
    using marked_steps_exact[OF that] by simp
  ultimately show ?thesis using query_coherent[of s oi]
    by (auto simp: communities_get_all_def communities_get_locations_def Let_def cache_fresh_def ok_or_def)
qed

theorem rpc_answers_current_witness:
  "\<exists>oi. fst (communities_get_all True (fst one_community) oi) = Inr [\<lparr>cn_cid = first_cid, cn_name = md_name default_metadata\<rparr>] \<and>
     fst (communities_get_locations True (fst one_community) first_cid oi) = Inr [origin]"
proof (rule one_community_spec)
  fix s
  let ?oi = "index_new_community flat_config origin [2, 3, 4] default_metadata offchain_empty"
  assume one: "fst one_community = s" "cm_community_identifiers s = [first_cid]"
    "cm_locations s = (\<lambda>_. [])(first_cid := [([7, 7, 7, 7, 7], [origin])])"
    and new: "new_community flat_config True origin [2, 3, 4] default_metadata None None (communities_genesis 1 83) (balances_genesis 5)
      = Inr (s, balances_genesis 5)"
  obtain cid where cid: "cm_community_identifiers s = cm_community_identifiers (communities_genesis 1 83) @ [cid]"
    "cm_community_metadata s = (cm_community_metadata (communities_genesis 1 83))(cid \<mapsto> default_metadata)"
    by (rule new_community_fields[OF new])
  have "cid = first_cid" using cid(1) one(2) by (simp add: communities_genesis_def)
  then have "cm_community_metadata s first_cid = Some default_metadata" using cid(2) by simp
  then have "current_names s = [\<lparr>cn_cid = first_cid, cn_name = md_name default_metadata\<rparr>]"
    by (simp add: current_names_def one(2))
  moreover have run: "(node_step flat_config)\<^sup>*\<^sup>* ((communities_genesis 1 83, balances_genesis 5), offchain_empty) ((s, balances_genesis 5), ?oi)"
    using node_new[OF new, of offchain_empty] by blast
  moreover have "\<not> unmarked_purge ((communities_genesis 1 83, balances_genesis 5), offchain_empty) ((s, balances_genesis 5), ?oi)"
    by (simp add: unmarked_purge_def communities_genesis_def)
  then have "(\<lambda>x y. node_step flat_config x y \<and> \<not> unmarked_purge x y)\<^sup>*\<^sup>*
      ((communities_genesis 1 83, balances_genesis 5), offchain_empty) ((s, balances_genesis 5), ?oi)"
    using node_new[OF new, of offchain_empty] by blast
  moreover have "get_locations s first_cid = [origin]" by (simp add: get_locations_def one(3))
  ultimately show ?thesis
    using rpc_answers_current[OF run] one(2) unfolding one(1) by (intro exI[of _ ?oi]) auto
qed

section \<open>Where the cache is wrong\<close>

text \<open>One query at an old block poisons the cache for everybody. If the cache is dirty when a client asks at some
  block, the node stores the state of that block and clears the mark, so every later query, at the best block or any other,
  is answered from that state until a call marks the cache again.\<close>

theorem old_block_poisons_cache:
  assumes "cache_dirty oi" and "communities_get_all True old oi = (answer, oi')"
  shows "communities_get_all True s oi' = (answer, oi') \<and>
    (\<forall>cid \<in> set (cm_community_identifiers old). communities_get_locations True s cid oi' = (Inr (get_locations old cid), oi'))"
proof -
  have oi': "oi' = refresh_cache old oi" and answer: "answer = ok_or (oi_cids oi') OffchainStorageNotFound"
    using assms by (auto simp: communities_get_all_def Let_def)
  have clean: "\<not> cache_dirty oi'" by (simp add: oi' cache_dirty_def refresh_fields)
  then show ?thesis
    using answer
    by (simp add: communities_get_all_def communities_get_locations_def Let_def) (simp add: oi' refresh_fields ok_or_def)
qed

theorem old_block_poisons_cache_witness:
  "\<exists>oi'. communities_get_all True (communities_genesis 1 83) offchain_empty = (Inr [], oi') \<and>
     communities_get_all True (fst one_community) oi' = (Inr [], oi')"
proof -
  obtain answer oi' where query: "communities_get_all True (communities_genesis 1 83) offchain_empty = (answer, oi')" by fastforce
  moreover have "answer = Inr []"
    using query by (auto simp: communities_get_all_def cache_dirty_def offchain_empty_def refresh_cache_def Let_def ok_or_def
        communities_genesis_def List.map_filter_def)
  moreover have "cache_dirty offchain_empty" by (simp add: cache_dirty_def offchain_empty_def)
  ultimately show ?thesis using old_block_poisons_cache[of offchain_empty "communities_genesis 1 83"] by blast
qed

text \<open>A purge of a community whose locations were all removed before does not mark the cache, and a purged
  community keeps its locations in the cache even after a refresh.\<close>

lemma purge_without_locations_unmarked: "get_locations s cid = [] \<Longrightarrow> index_purge cid s oi = oi"
  by (simp add: index_purge_def)

lemma purged_locations_stay:
  assumes "cid \<notin> set (cm_community_identifiers view)"
  shows "fst (communities_get_locations True view cid oi) = ok_or (oi_locations oi cid) OffchainStorageNotFound"
  using assms by (simp add: communities_get_locations_def Let_def refresh_fields)

end
