(* ===== verification/Reputation_Cache.thy ===== *)
theory Reputation_Cache
  imports Ceremony_Scenario Ceremony_Runs Rpc_Cache
begin

text \<open>
  The cache of reputations in the node, \<open>ceremonies/rpc/src/lib.rs\<close>: per account the node keeps the last answer
  with the phase and index it was computed for, and a dirty bit that the ceremonies pallet sets in the offchain index.

  \<open>ParticipantReputation::iter()\<close> visits the stored entries in the order of the hashes of their keys:
  \<open>order\<close> lists the keys in that order, and those that are stored are visited.
\<close>

section \<open>Answers and cache\<close>

definition get_reputations ::
  "(CommunityCeremony \<times> AccountId) list \<Rightarrow> ceremonies \<Rightarrow> AccountId \<Rightarrow> (nat \<times> CommunityReputation) list" where
  "get_reputations order s account =
     List.map_filter (\<lambda>(cc, a).
         if a = account
         then map_option (\<lambda>r. (snd cc, \<lparr>cr_community_identifier = fst cc, cr_reputation = r\<rparr>)) (ce_reputation s cc a)
         else None) order"

record ReputationCacheValue =
  rv_ceremony_info :: CeremonyInfo
  rv_reputation :: "(nat \<times> CommunityReputation) list"

record reputation_cache =
  rp_dirty :: "AccountId \<Rightarrow> bool option"
  rp_value :: "AccountId \<Rightarrow> ReputationCacheValue option"

definition reputation_cache_empty :: reputation_cache where
  "reputation_cache_empty = \<lparr>rp_dirty = Map.empty, rp_value = Map.empty\<rparr>"

text \<open>What the pallet writes: at a registration, when an attendance is freed, and for every paid participant.\<close>

definition mark_reputation :: "AccountId \<Rightarrow> reputation_cache \<Rightarrow> reputation_cache" where
  "mark_reputation account rc = rc\<lparr>rp_dirty := (rp_dirty rc)(account \<mapsto> True)\<rparr>"

definition index_unregister ::
  "CommunityCeremony \<Rightarrow> AccountId \<Rightarrow> CommunityCeremony option \<Rightarrow> ceremonies \<Rightarrow> reputation_cache \<Rightarrow> reputation_cache" where
  "index_unregister registration sender maybe_cc s rc =
     (case get_participant_type registration sender s of
        None \<Rightarrow> rc
      | Some t \<Rightarrow> if (t = Reputable \<or> t = Bootstrapper) \<and> maybe_cc \<noteq> None then mark_reputation sender rc else rc)"

definition index_rewards :: "AccountId list \<Rightarrow> nat list \<Rightarrow> reputation_cache \<Rightarrow> reputation_cache" where
  "index_rewards participants indices rc =
     fold (\<lambda>i rc. case vec_get participants i of None \<Rightarrow> rc | Some a \<Rightarrow> mark_reputation a rc) indices rc"

definition index_claim ::
  "scheduler \<Rightarrow> AccountId \<Rightarrow> CommunityIdentifier \<Rightarrow> nat option \<Rightarrow> ceremonies \<Rightarrow> reputation_cache \<Rightarrow> reputation_cache" where
  "index_claim sch sender cid maybe s rc =
     (case claimed_meetup sch sender cid maybe s of
        Inl _ \<Rightarrow> rc
      | Inr (cindex, k) \<Rightarrow>
          (case get_meetup_participants (cid, cindex) k s of
             Inl _ \<Rightarrow> rc
           | Inr participants \<Rightarrow>
               (case meetup_judgements (cid, cindex) participants s of
                  Inl _ \<Rightarrow> rc
                | Inr judgements \<Rightarrow> index_rewards participants (pj_legit judgements) rc)))"

text \<open>The node.\<close>

definition reputation_cache_dirty :: "AccountId \<Rightarrow> reputation_cache \<Rightarrow> bool" where
  "reputation_cache_dirty account rc = (case rp_dirty rc account of Some d \<Rightarrow> d | None \<Rightarrow> True)"

definition refresh_reputation_cache ::
  "(CommunityCeremony \<times> AccountId) list \<Rightarrow> ceremonies \<Rightarrow> AccountId \<Rightarrow> CeremonyInfo \<Rightarrow> reputation_cache \<Rightarrow>
   ReputationCacheValue \<times> reputation_cache" where
  "refresh_reputation_cache order view account ceremony_info rc =
     (let reputation_cache_value = \<lparr>rv_ceremony_info = ceremony_info, rv_reputation = get_reputations order view account\<rparr>
      in (reputation_cache_value,
          rc\<lparr>rp_value := (rp_value rc)(account \<mapsto> reputation_cache_value), rp_dirty := (rp_dirty rc)(account \<mapsto> False)\<rparr>))"

definition rpc_get_reputations ::
  "(CommunityCeremony \<times> AccountId) list \<Rightarrow> bool \<Rightarrow> scheduler \<Rightarrow> ceremonies \<Rightarrow> AccountId \<Rightarrow> reputation_cache \<Rightarrow>
   (rpc_error + (nat \<times> CommunityReputation) list) \<times> reputation_cache" where
  "rpc_get_reputations order offchain_indexing sch view account rc =
     (if \<not> offchain_indexing then (Inl OffchainIndexingDisabled, rc)
      else
        (let ceremony_info = get_ceremony_info sch;
             refreshed = (let (v, rc') = refresh_reputation_cache order view account ceremony_info rc in (Inr (rv_reputation v), rc'))
         in if reputation_cache_dirty account rc then refreshed
            else
              (case rp_value rc account of
                 Some v \<Rightarrow> if ceremony_info = rv_ceremony_info v then (Inr (rv_reputation v), rc) else refreshed
               | None \<Rightarrow> refreshed)))"

section \<open>Coherence\<close>

lemma get_reputations_cong:
  "reputations_of s' a = reputations_of s a \<Longrightarrow> get_reputations order s' a = get_reputations order s a"
  unfolding get_reputations_def reputations_of_def fun_eq_iff
  by (rule arg_cong[where f = "\<lambda>f. List.map_filter f order"]) (auto simp: fun_eq_iff)

text \<open>
  One step of the chain with what it indexes: a call of the ceremonies pallet, a step of the scheduler (a block, with
  the change of phase it may bring, or a call of the ceremony master), a movement of balances, or a query at the best block.
\<close>

inductive reputation_step ::
  "'sig ceremonies_config \<Rightarrow> (CommunityCeremony \<times> AccountId) list \<Rightarrow> nat \<Rightarrow>
   scheduler \<times> (ceremonies \<times> balances) \<times> reputation_cache \<Rightarrow> scheduler \<times> (ceremonies \<times> balances) \<times> reputation_cache \<Rightarrow> bool"
  for c :: "'sig ceremonies_config" and order day where
  rep_register: "register_participant c sch cm b sender cid proof s = Inr s' \<Longrightarrow>
    reputation_step c order day (sch, (s, b), rc) (sch, (s', b), mark_reputation sender rc)"
| rep_upgrade: "upgrade_registration c sch cm b sender cid p s = Inr s' \<Longrightarrow>
    reputation_step c order day (sch, (s, b), rc) (sch, (s', b), mark_reputation sender rc)"
| rep_unregister: "unregister_participant sch cm sender cid maybe_cc s = Inr s' \<Longrightarrow>
    reputation_step c order day (sch, (s, b), rc) (sch, (s', b), index_unregister (cid, registration_cindex sch) sender maybe_cc s rc)"
| rep_claim: "claim_rewards c sch cm sender cid maybe s b = Inr (s', b') \<Longrightarrow>
    reputation_step c order day (sch, (s, b), rc) (sch, (s', b'), index_claim sch sender cid maybe s rc)"
| rep_attest: "attest_attendees c sch cm sender cid vote atts s = Inr s' \<Longrightarrow>
    reputation_step c order day (sch, (s, b), rc) (sch, (s', b), rc)"
| rep_endorse: "endorse_newcomer c sch cm b sender cid newbie s = Inr s' \<Longrightarrow>
    reputation_step c order day (sch, (s, b), rc) (sch, (s', b), rc)"
| rep_purge: "purge_community_ceremony m cc s = Inr s' \<Longrightarrow> reputation_step c order day (sch, (s, b), rc) (sch, (s', b), rc)"
| rep_inactivity: "set_inactivity_timeout m n s = Inr s' \<Longrightarrow> reputation_step c order day (sch, (s, b), rc) (sch, (s', b), rc)"
| rep_per_bootstrapper: "set_endorsement_tickets_per_bootstrapper m n s = Inr s' \<Longrightarrow>
    reputation_step c order day (sch, (s, b), rc) (sch, (s', b), rc)"
| rep_per_reputable: "set_endorsement_tickets_per_reputable m n s = Inr s' \<Longrightarrow>
    reputation_step c order day (sch, (s, b), rc) (sch, (s', b), rc)"
| rep_lifetime: "set_reputation_lifetime m n s = Inr s' \<Longrightarrow> reputation_step c order day (sch, (s, b), rc) (sch, (s', b), rc)"
| rep_offset: "set_meetup_time_offset m sch z s = Inr s' \<Longrightarrow> reputation_step c order day (sch, (s, b), rc) (sch, (s', b), rc)"
| rep_time_tolerance: "set_time_tolerance m n s = Inr s' \<Longrightarrow> reputation_step c order day (sch, (s, b), rc) (sch, (s', b), rc)"
| rep_location_tolerance: "set_location_tolerance m n s = Inr s' \<Longrightarrow>
    reputation_step c order day (sch, (s, b), rc) (sch, (s', b), rc)"
| rep_elsewhere: "reputation_step c order day (sch, (s, b), rc) (sch, (s, b'), rc)"
| rep_scheduler: "scheduler_step (ceremony_phase_handler c seed) day (sch, Some (s, cm, b)) (sch', Some (s', cm', b')) \<Longrightarrow>
    reputation_step c order day (sch, (s, b), rc) (sch', (s', b'), rc)"
| rep_query: "rpc_get_reputations order ix sch s a rc = (answer, rc') \<Longrightarrow>
    reputation_step c order day (sch, (s, b), rc) (sch, (s, b), rc')"

text \<open>
  The calls that change the reputations of an account without marking its cache: another account uses its attendance,
  or the ceremony master purges a ceremony it has a reputation of.
\<close>

definition unmarked ::
  "'sig ceremonies_config \<Rightarrow> AccountId \<Rightarrow> scheduler \<times> (ceremonies \<times> balances) \<times> reputation_cache \<Rightarrow>
   scheduler \<times> (ceremonies \<times> balances) \<times> reputation_cache \<Rightarrow> bool" where
  "unmarked c a x y \<longleftrightarrow> (case (x, y) of ((sch, (s, b), rc), (sch', (s', b'), rc')) \<Rightarrow>
     (\<exists>cm sender cid p. sender \<noteq> a \<and> attendee_public p = a \<and>
        (register_participant c sch cm b sender cid (Some p) s = Inr s' \<or> upgrade_registration c sch cm b sender cid p s = Inr s')) \<or>
     (\<exists>m cc. ce_reputation s cc a \<noteq> None \<and> purge_community_ceremony m cc s = Inr s'))"

text \<open>
  The cached answers of an account are for phases that have begun, and the one for the current phase is right unless it
  is marked. A change of phase makes the cached answers ones of the past.
\<close>

definition info_count :: "CeremonyInfo \<Rightarrow> nat" where
  "info_count i = 3 * ci_ceremony_index i + phase_ord (ci_ceremony_phase i)"

lemma info_count_current: "info_count (get_ceremony_info sch) = phase_count sch"
  by (simp add: info_count_def phase_count_def get_ceremony_info_def)

definition reputation_coherent ::
  "(CommunityCeremony \<times> AccountId) list \<Rightarrow> AccountId \<Rightarrow> scheduler \<times> (ceremonies \<times> balances) \<times> reputation_cache \<Rightarrow> bool" where
  "reputation_coherent order a w \<longleftrightarrow>
     (case w of (sch, (s, b), rc) \<Rightarrow> \<forall>v. rp_value rc a = Some v \<longrightarrow> info_count (rv_ceremony_info v) \<le> phase_count sch \<and>
        (\<not> reputation_cache_dirty a rc \<and> info_count (rv_ceremony_info v) = phase_count sch \<longrightarrow>
           rv_reputation v = get_reputations order s a))"

text \<open>A step that keeps the cached values and marks the account if its reputations change.\<close>

lemma marked_coherent:
  assumes "reputation_coherent order a (sch, (s, b), rc)" and "rp_value rc' = rp_value rc"
    and "reputation_cache_dirty a rc' \<or> (\<not> reputation_cache_dirty a rc \<and> reputations_of s' a = reputations_of s a)"
  shows "reputation_coherent order a (sch, (s', b'), rc')"
  using assms get_reputations_cong[of s' a s order] by (auto simp: reputation_coherent_def)

lemma quiet_coherent:
  assumes "reputation_coherent order a (sch, (s, b), rc)" and "reputations_of s' a = reputations_of s a"
  shows "reputation_coherent order a (sch, (s', b'), rc)"
  using marked_coherent[OF assms(1) refl, of s'] assms(2) by blast

lemma same_reputations: "ce_reputation s' = ce_reputation s \<Longrightarrow> reputations_of s' a = reputations_of s a"
  by (simp add: reputations_of_def)

lemma setter_coherent:
  "reputation_coherent order a (sch, (s, b), rc) \<Longrightarrow> parameter_frame s s' \<Longrightarrow> reputation_coherent order a (sch, (s', b), rc)"
  by (erule quiet_coherent, rule same_reputations) (simp add: parameter_frame_def)

lemma mark_dirty_iff:
  "reputation_cache_dirty a (mark_reputation b rc) \<longleftrightarrow> a = b \<or> reputation_cache_dirty a rc"
  "rp_value (mark_reputation b rc) = rp_value rc"
  by (auto simp: reputation_cache_dirty_def mark_reputation_def)

lemma index_rewards_dirty:
  "reputation_cache_dirty a (index_rewards ps is rc) \<longleftrightarrow> (\<exists>i \<in> set is. vec_get ps i = Some a) \<or> reputation_cache_dirty a rc"
  "rp_value (index_rewards ps is rc) = rp_value rc"
  by (induction "is" arbitrary: rc) (auto simp: index_rewards_def mark_dirty_iff split: option.splits)

lemma claim_marks:
  assumes "claim_rewards c sch cm sender cid maybe s b = Inr (s', b')"
  shows "reputation_cache_dirty a (index_claim sch sender cid maybe s rc) \<or>
      (\<not> reputation_cache_dirty a rc \<and> reputations_of s' a = reputations_of s a)"
    and "rp_value (index_claim sch sender cid maybe s rc) = rp_value rc"
proof -
  show "rp_value (index_claim sch sender cid maybe s rc) = rp_value rc"
    by (auto simp: index_claim_def index_rewards_dirty split: sum.splits)
  show "reputation_cache_dirty a (index_claim sch sender cid maybe s rc) \<or>
      (\<not> reputation_cache_dirty a rc \<and> reputations_of s' a = reputations_of s a)"
    using assms
  proof (cases rule: claim_rewards_cases)
    case (ballot_failed cindex k ps err)
    then show ?thesis by (auto simp: index_claim_def reputations_of_def)
  next
    case (paid cindex k ps pj s1)
    have idx: "index_claim sch sender cid maybe s rc = index_rewards ps (pj_legit pj) rc"
      using paid(1,3,4) by (simp add: index_claim_def)
    from paid(6) show ?thesis
    proof (rule issue_rewards_cases)
      fix s2 n assume loop: "issue_loop (cec_balances c) (cid, cindex) (nominal_income cm (fst (cid, cindex)) s1) ps (pj_legit pj) (s1, b, 0) =
          Inr (s2, b', n)" and rep: "ce_reputation s' = ce_reputation s2"
      have "reputations_of s1 a = reputations_of s a" using emit_no_rewards_frame[OF paid(5)] by (simp add: reputations_of_def)
      then show ?thesis using issue_loop_reputations[OF loop, of a] rep unfolding idx index_rewards_dirty
        by (auto simp: reputations_of_def)
    qed
  qed
qed

text \<open>A step of the scheduler leaves the pallets alone or begins a phase, and phases are not begun twice.\<close>

lemma saturating_below: "saturating_add 32 i 1 < 2 ^ 32 - 1 \<Longrightarrow> saturating_add 32 i 1 = i + 1"
  by (simp add: saturating_add_def)

lemma progress_phase_counts:
  assumes "progress_phase f s w = (r, s', w')" and "sc_ceremony_index s' < 2 ^ 32 - 1"
  shows "phase_count s < phase_count s' \<or> phase_count s = phase_count s' \<and> w' = w"
proof (cases rule: progress_phase_cases[of s f w])
  case failed
  then show ?thesis using assms saturating_below[of "sc_ceremony_index s"] by (auto simp: phase_count_def split: if_splits)
next
  case (changed s1)
  then show ?thesis using assms saturating_below[of "sc_ceremony_index s"] by (cases "sc_phase s") (auto simp: phase_count_def)
qed

lemma scheduler_step_counts:
  assumes "scheduler_step f day (s, w) (s', w')" and "sc_ceremony_index s' < 2 ^ 32 - 1"
  shows "phase_count s < phase_count s' \<or> phase_count s = phase_count s' \<and> w' = w"
  using assms(1)
proof cases
  case (timestamp now)
  obtain r s1 w1 where p: "progress_phase f (s\<lparr>ts_now := now\<rparr>) w = (r, s1, w1)" by (cases "progress_phase f (s\<lparr>ts_now := now\<rparr>) w")
  have same: "phase_count (s\<lparr>ts_now := now\<rparr>) = phase_count s" by (simp add: phase_count_def)
  have resync: "phase_count s2 = phase_count s1" if "resync_and_set_next_phase_timestamp t s1 = Inr s2" for t s1 s2
    using resync_frame(1,2)[OF that] by (simp add: phase_count_def)
  show ?thesis using timestamp(1) p progress_phase_counts[OF p] assms(2) unfolding same
    by (auto simp: set_timestamp_def scheduler_on_timestamp_set_def Let_def split: if_splits sum.splits dest!: resync)
       (auto simp: phase_count_def)
next
  case (manual m)
  obtain r s1 w1 where p: "progress_phase f s w = (r, s1, w1)" by (cases "progress_phase f s w")
  then show ?thesis using manual progress_phase_counts[OF p] assms(2) by (auto simp: next_phase_def res_simps split: sum.splits)
qed (auto simp: push_by_one_day_def set_phase_duration_def set_next_phase_timestamp_def res_simps phase_count_def)

lemma scheduler_coherent:
  assumes "reputation_coherent order a (sch, (s, b), rc)"
    and "phase_count sch < phase_count sch' \<or> phase_count sch = phase_count sch' \<and> s' = s"
  shows "reputation_coherent order a (sch', (s', b'), rc)"
  using assms by (fastforce simp: reputation_coherent_def)

lemma unregister_reputations:
  assumes "unregister_participant sch cm sender cid maybe_cc s = Inr s'"
    and "a \<noteq> sender \<or> \<not> reputation_cache_dirty a (index_unregister (cid, registration_cindex sch) sender maybe_cc s rc)"
  shows "reputations_of s' a = reputations_of s a"
proof -
  let ?cc = "(cid, registration_cindex sch)"
  obtain s1 t where t: "get_participant_type ?cc sender s = Some t"
    and s1: "(if t = Reputable \<or> t = Bootstrapper then unlink_reputation ?cc sender t maybe_cc s else Inr s) = Inr s1"
    and rem: "remove_participant_from_registry sch ?cc sender s1 = Inr s'"
    using assms(1) unfolding unregister_participant_def Let_def by (auto simp only: res_simps)
  have "s1 = s \<or> a \<noteq> sender \<and> (\<exists>cc. s1 = s\<lparr>ce_reputation := dm_remove ?cc sender (dm_insert cc sender VerifiedUnlinked (ce_reputation s))\<rparr>)"
    using s1 t assms(2) unlink_reputation_cases[of ?cc sender t maybe_cc s s1]
    by (auto simp: index_unregister_def mark_dirty_iff split: if_splits)
  then show ?thesis using remove_participant_ok(3)[OF rem] by (auto simp: reputations_of_def fun_eq_iff dm_insert_apply dm_remove_apply)
qed

lemma refresh_coherent:
  assumes "reputation_coherent order a (sch, (s, b), rc)"
  shows "reputation_coherent order a (sch, (s, b), snd (refresh_reputation_cache order s x (get_ceremony_info sch) rc))"
  using assms
  by (cases "a = x") (auto simp: reputation_coherent_def refresh_reputation_cache_def reputation_cache_dirty_def Let_def info_count_current)

lemma query_cache:
  assumes "rpc_get_reputations order ix sch s a rc = (answer, rc')"
  shows "rc' = rc \<or> rc' = snd (refresh_reputation_cache order s a (get_ceremony_info sch) rc)"
  using assms by (auto simp: rpc_get_reputations_def Let_def split: if_splits option.splits prod.splits)

lemma query_caches:
  assumes "rpc_get_reputations order True sch s a rc = (answer, rc')"
  obtains v where "rp_value rc' a = Some v" "rv_ceremony_info v = get_ceremony_info sch" "\<not> reputation_cache_dirty a rc'"
    "answer = Inr (rv_reputation v)"
proof (cases "reputation_cache_dirty a rc \<or> (\<forall>v. rp_value rc a = Some v \<longrightarrow> rv_ceremony_info v \<noteq> get_ceremony_info sch)")
  case True
  then have "answer = Inr (get_reputations order s a)"
    "rc' = snd (refresh_reputation_cache order s a (get_ceremony_info sch) rc)"
    using assms by (auto simp: rpc_get_reputations_def refresh_reputation_cache_def Let_def split: if_splits option.splits)
  then show thesis
    by (intro that[of "\<lparr>rv_ceremony_info = get_ceremony_info sch, rv_reputation = get_reputations order s a\<rparr>"])
       (simp_all add: refresh_reputation_cache_def reputation_cache_dirty_def Let_def)
next
  case False
  then obtain v where "rp_value rc a = Some v" "rv_ceremony_info v = get_ceremony_info sch" "\<not> reputation_cache_dirty a rc" by blast
  then show thesis using assms by (intro that[of v]) (auto simp: rpc_get_reputations_def Let_def)
qed

lemma reputation_step_coherent:
  assumes "reputation_step c order day w w'" and "\<not> unmarked c a w w'" and "reputation_coherent order a w"
    and "sc_ceremony_index (fst w') < 2 ^ 32 - 1"
  shows "reputation_coherent order a w'"
  using assms(1)
proof cases
  case (rep_register sch cm b sender cid "proof" s s' rc)
  have "attendee_public p \<noteq> a" if "a \<noteq> sender" "proof = Some p" for p
  proof
    assume "attendee_public p = a"
    with rep_register(3)[unfolded that(2)] that(1) have "unmarked c a (sch, (s, b), rc) (sch, (s', b), mark_reputation sender rc)"
      unfolding unmarked_def prod.case
      by (intro disjI1 exI[of _ cm] exI[of _ sender] exI[of _ cid] exI[of _ p] conjI) simp_all
    then show False using assms(2) rep_register(1,2) by simp
  qed
  then have "reputations_of s' a = reputations_of s a" if "a \<noteq> sender"
    using register_reputations[OF rep_register(3) that] that by blast
  then show ?thesis using assms(3) marked_coherent[of order a sch s b rc "mark_reputation sender rc" s' b] rep_register(1,2)
    by (cases "a = sender") (auto simp: mark_dirty_iff)
next
  case (rep_upgrade sch cm b sender cid p s s' rc)
  have "reputations_of s' a = reputations_of s a" if "a \<noteq> sender"
  proof (rule upgrade_reputations[OF rep_upgrade(3) that])
    show "attendee_public p \<noteq> a"
    proof
      assume "attendee_public p = a"
      with rep_upgrade(3) that have "unmarked c a (sch, (s, b), rc) (sch, (s', b), mark_reputation sender rc)"
        unfolding unmarked_def prod.case
        by (intro disjI1 exI[of _ cm] exI[of _ sender] exI[of _ cid] exI[of _ p] conjI disjI2) simp_all
      then show False using assms(2) rep_upgrade(1,2) by simp
    qed
  qed
  then show ?thesis using assms(3) marked_coherent[of order a sch s b rc "mark_reputation sender rc" s' b] rep_upgrade(1,2)
    by (cases "a = sender") (auto simp: mark_dirty_iff)
next
  case (rep_unregister sch cm sender cid maybe_cc s s' b rc)
  let ?rc = "index_unregister (cid, registration_cindex sch) sender maybe_cc s rc"
  have idx: "rp_value ?rc = rp_value rc" "reputation_cache_dirty a rc \<Longrightarrow> reputation_cache_dirty a ?rc"
    by (auto simp: index_unregister_def mark_dirty_iff split: option.splits)
  then have "reputation_cache_dirty a ?rc \<or> (\<not> reputation_cache_dirty a rc \<and> reputations_of s' a = reputations_of s a)"
    using unregister_reputations[OF rep_unregister(3), of a rc] by blast
  then show ?thesis using assms(3) marked_coherent[of order a sch s b rc ?rc s' b] rep_unregister(1,2) idx(1) by simp
next
  case (rep_claim sch cm sender cid maybe s b s' b' rc)
  show ?thesis using marked_coherent[OF _ claim_marks(2,1)[OF rep_claim(3)]] assms(3) rep_claim(1,2) by simp
next
  case (rep_attest sch cm sender cid vote atts s s' b rc)
  then show ?thesis using quiet_coherent same_reputations[OF attest_attendees_frame(3)] assms(3) by blast
next
  case (rep_endorse sch cm b sender cid newbie s s' rc)
  then show ?thesis using quiet_coherent same_reputations[OF endorse_newcomer_purges(2)] assms(3) by blast
next
  case (rep_purge m cc s s' sch b rc)
  have "ce_reputation s cc a = None"
  proof (rule ccontr)
    assume "ce_reputation s cc a \<noteq> None"
    with rep_purge(3) have "unmarked c a (sch, (s, b), rc) (sch, (s', b), rc)" unfolding unmarked_def prod.case
      by (intro disjI2 exI[of _ m] exI[of _ cc] conjI)
    then show False using assms(2) rep_purge(1,2) by simp
  qed
  moreover have "s' = purge_community_ceremony_internal cc s" using rep_purge(3) by (simp add: purge_call_iff)
  ultimately have "reputations_of s' a = reputations_of s a"
    by (simp add: reputations_of_def fun_eq_iff purge_community_ceremony_internal_def ce_deposit_event_def dm_remove_prefix_def)
  then show ?thesis using quiet_coherent rep_purge(1,2) assms(3) by blast
next
  case (rep_scheduler seed sch s cm b sch' s' cm' b' rc)
  have "phase_count sch < phase_count sch' \<or> phase_count sch = phase_count sch' \<and> s' = s"
    using scheduler_step_counts[OF rep_scheduler(3)] assms(4) rep_scheduler(2) by auto
  from scheduler_coherent[OF _ this, of order a b rc b'] show ?thesis using assms(3) rep_scheduler(1,2) by simp
next
  case (rep_query ix sch s x rc answer rc' b)
  then show ?thesis using assms(3) query_cache[OF rep_query(3)] refresh_coherent by auto
next
  case (rep_elsewhere sch s b rc b')
  then show ?thesis using quiet_coherent[of order a sch s b rc s] assms(3) by blast
qed (use assms(3) in \<open>simp_all add: setter_coherent setter_frames\<close>)

lemma reputation_step_index:
  assumes "reputation_step c order day w w'" and "sc_ceremony_index (fst w) < 2 ^ 32"
  shows "sc_ceremony_index (fst w) \<le> sc_ceremony_index (fst w') \<and> sc_ceremony_index (fst w') < 2 ^ 32"
  using assms(1)
proof cases
  case (rep_scheduler seed sch s cm b sch' s' cm' b' rc)
  then show ?thesis using scheduler_step_index[OF rep_scheduler(3)] assms(2) by simp
qed (use assms(2) in simp_all)

text \<open>C26: The reputations that the node answers are current. After any sequence of calls of the ceremonies pallet, blocks,
  changes of phase and queries, a query for an account answers its stored reputations, whether from the cache or not,
  provided that no other account registered or upgraded with an attendance of this account and no ceremony was purged
  of which it had a reputation; these change the reputations without marking the cache.\<close>

theorem reputation_answers_current:
  assumes "(\<lambda>x y. reputation_step c order day x y \<and> \<not> unmarked c account x y)\<^sup>*\<^sup>*
      (sch0, (s0, b0), reputation_cache_empty) (sch, (s, b), rc)"
    and "sc_ceremony_index sch0 < 2 ^ 32" and "sc_ceremony_index sch < 2 ^ 32 - 1"
  shows "fst (rpc_get_reputations order True sch s account rc) = Inr (get_reputations order s account)"
proof -
  have "sc_ceremony_index (fst w) < 2 ^ 32 \<and> (sc_ceremony_index (fst w) < 2 ^ 32 - 1 \<longrightarrow> reputation_coherent order account w)"
    if "(\<lambda>x y. reputation_step c order day x y \<and> \<not> unmarked c account x y)\<^sup>*\<^sup>* (sch0, (s0, b0), reputation_cache_empty) w" for w
    using that
  proof induction
    case base
    show ?case using assms(2) by (simp add: reputation_coherent_def reputation_cache_empty_def)
  next
    case (step w w')
    then have s: "reputation_step c order day w w'" "\<not> unmarked c account w w'" by blast+
    show ?case using reputation_step_index[OF s(1)] reputation_step_coherent[OF s] step(3) by auto
  qed
  from this[OF assms(1)] assms(3) have "reputation_coherent order account (sch, (s, b), rc)" by simp
  then show ?thesis
    by (auto simp: rpc_get_reputations_def refresh_reputation_cache_def Let_def reputation_coherent_def info_count_current[symmetric]
        split: option.splits)
qed

text \<open>Where it is not: a registration with the attendance of another account marks the cache of the sender only.\<close>

text \<open>C38: A used attendance is still reported as free. If an account registers with the attendance of another account, the
  cached answer for the other account stays in use for the rest of the phase, although the attendance is now linked.\<close>

theorem used_attendance_still_reported:
  assumes "register_participant c sch cm b sender cid (Some p) s = Inr s'" and "attendee_public p \<noteq> sender"
    and "rpc_get_reputations order True sch s (attendee_public p) rc = (answer, rc')"
  shows "fst (rpc_get_reputations order True sch s' (attendee_public p) (mark_reputation sender rc')) = answer \<and>
    participant_reputation s' (pa_community_identifier p, pa_ceremony_index p) (attendee_public p) =
      VerifiedLinked (registration_cindex sch)"
proof
  obtain s1 t s2 where s1: "link_reputation c cm (cid, registration_cindex sch) sender p s = Inr s1"
    and s2: "register c cm b (cid, registration_cindex sch) sender True s1 = Inr (t, s2)"
    and s': "s' = ce_deposit_event (ParticipantRegistered cid t sender) s2"
    using assms(1) by (auto simp: register_participant_def Let_def res_simps split: if_splits)
  have "ce_reputation s' (pa_community_identifier p, pa_ceremony_index p) (attendee_public p) = Some (VerifiedLinked (registration_cindex sch))"
    using link_reputation_cases(5)[OF s1] register_ok(3)[OF s2] assms(2) by (simp add: s' dm_insert_apply)
  then show "participant_reputation s' (pa_community_identifier p, pa_ceremony_index p) (attendee_public p) =
      VerifiedLinked (registration_cindex sch)" by (simp add: participant_reputation_def)
  obtain v where "rp_value rc' (attendee_public p) = Some v" "rv_ceremony_info v = get_ceremony_info sch"
    "\<not> reputation_cache_dirty (attendee_public p) rc'" "answer = Inr (rv_reputation v)"
    using assms(3) by (rule query_caches)
  then show "fst (rpc_get_reputations order True sch s' (attendee_public p) (mark_reputation sender rc')) = answer"
    using assms(2) by (simp add: rpc_get_reputations_def Let_def mark_dirty_iff)
qed

text \<open>Account 7 attended ceremony 3; account 8 registers with that attendance in ceremony 4.\<close>

definition seven_attended :: ceremonies where
  "seven_attended = put_reputation (demo_cid, 3) 7 VerifiedUnlinked small_genesis"

definition seven_for_eight :: "nat ProofOfAttendance" where
  "seven_for_eight = \<lparr>prover_public = 8, pa_ceremony_index = 3, pa_community_identifier = demo_cid, attendee_public = 7,
     attendee_signature = 107\<rparr>"

theorem reputation_answers_current_witness:
  "fst (rpc_get_reputations [((demo_cid, 3), 7)] True (clock 4 Registering) seven_attended 7 reputation_cache_empty) =
     Inr [(3, \<lparr>cr_community_identifier = demo_cid, cr_reputation = VerifiedUnlinked\<rparr>)]"
proof -
  have "get_reputations [((demo_cid, 3), 7)] seven_attended 7 = [(3, \<lparr>cr_community_identifier = demo_cid, cr_reputation = VerifiedUnlinked\<rparr>)]"
    by (simp add: get_reputations_def seven_attended_def List.map_filter_def dm_insert_apply)
  then show ?thesis
    using reputation_answers_current[OF rtranclp.rtrancl_refl[where r = "\<lambda>x y. reputation_step small_config [((demo_cid, 3), 7)] 86400000 x y \<and>
        \<not> unmarked small_config 7 x y" and a = "(clock 4 Registering, (seven_attended, demo_balances), reputation_cache_empty)"]]
    by (simp add: clock_def scheduler_genesis_def)
qed

theorem used_attendance_still_reported_witness:
  "\<exists>s' answer rc'. register_participant small_config (clock 4 Registering) small_communities demo_balances 8 demo_cid
       (Some seven_for_eight) seven_attended = Inr s' \<and>
     rpc_get_reputations [((demo_cid, 3), 7)] True (clock 4 Registering) seven_attended 7 reputation_cache_empty = (answer, rc') \<and>
     fst (rpc_get_reputations [((demo_cid, 3), 7)] True (clock 4 Registering) s' 7 (mark_reputation 8 rc')) = answer"
proof -
  have "is_ok (register_participant small_config (clock 4 Registering) small_communities demo_balances 8 demo_cid
       (Some seven_for_eight) seven_attended)" by code_simp
  then obtain s' where s': "register_participant small_config (clock 4 Registering) small_communities demo_balances 8 demo_cid
       (Some seven_for_eight) seven_attended = Inr s'" by (auto simp: is_ok_def split: sum.splits)
  obtain answer rc' where query: "rpc_get_reputations [((demo_cid, 3), 7)] True (clock 4 Registering) seven_attended
      (attendee_public seven_for_eight) reputation_cache_empty = (answer, rc')" by fastforce
  have "attendee_public seven_for_eight \<noteq> 8" by (simp add: seven_for_eight_def)
  from used_attendance_still_reported[OF s' this query] s' query show ?thesis by (auto simp: seven_for_eight_def)
qed

end
