(* ===== verification/Bazaar_Rpc.thy ===== *)
theory Bazaar_Rpc
  imports Bazaar
begin

text \<open>
  The listings of the bazaar: \<open>get_businesses\<close> and \<open>get_offerings\<close> of \<open>bazaar/src/lib.rs\<close>, and the queries of the node
  built on them, \<open>bazaar/rpc/src/lib.rs\<close>. The iterations visit the stored keys in the order of their hashes; \<open>accounts\<close> and
  \<open>oids\<close> list the keys in that order.
\<close>

definition get_businesses :: "AccountId list \<Rightarrow> bazaar \<Rightarrow> CommunityIdentifier \<Rightarrow> (AccountId \<times> BusinessData) list" where
  "get_businesses accounts s cid = List.map_filter (\<lambda>a. map_option (Pair a) (bz_business_registry s cid a)) accounts"

definition get_offerings :: "nat list \<Rightarrow> bazaar \<Rightarrow> BusinessIdentifier \<Rightarrow> OfferingData list" where
  "get_offerings oids s bid = List.map_filter (bz_offering_registry s bid) oids"

record Business =
  bu_controller :: AccountId
  bu_business_data :: BusinessData

definition rpc_get_businesses :: "AccountId list \<Rightarrow> bazaar \<Rightarrow> CommunityIdentifier \<Rightarrow> Business list" where
  "rpc_get_businesses accounts s cid =
     map (\<lambda>(controller, bd). \<lparr>bu_controller = controller, bu_business_data = bd\<rparr>) (get_businesses accounts s cid)"

definition rpc_get_offerings :: "AccountId list \<Rightarrow> nat list \<Rightarrow> bazaar \<Rightarrow> CommunityIdentifier \<Rightarrow> OfferingData list" where
  "rpc_get_offerings accounts oids s cid =
     concat (map (\<lambda>bid. get_offerings oids s (cid, fst bid)) (get_businesses accounts s cid))"

definition rpc_get_offerings_for_business :: "nat list \<Rightarrow> bazaar \<Rightarrow> BusinessIdentifier \<Rightarrow> OfferingData list" where
  "rpc_get_offerings_for_business oids s bid = get_offerings oids s bid"

text \<open>The keys that are stored, each once.\<close>

definition lists_keys :: "AccountId list \<Rightarrow> nat list \<Rightarrow> bazaar \<Rightarrow> CommunityIdentifier \<Rightarrow> bool" where
  "lists_keys accounts oids s cid \<longleftrightarrow>
     distinct accounts \<and> distinct oids \<and> dom (bz_business_registry s cid) \<subseteq> set accounts \<and>
     (\<forall>a. dom (bz_offering_registry s (cid, a)) \<subseteq> set oids)"

lemma set_map_filter: "set (List.map_filter f xs) = {y. \<exists>x \<in> set xs. f x = Some y}"
  by (induction xs) (auto simp: List.map_filter_def split: option.splits)

lemma get_businesses_iff:
  "dom (bz_business_registry s cid) \<subseteq> set accounts \<Longrightarrow>
     (a, bd) \<in> set (get_businesses accounts s cid) \<longleftrightarrow> bz_business_registry s cid a = Some bd"
  by (auto simp: get_businesses_def set_map_filter)

text \<open>The bazaar of a community is listed completely. After any number of calls below the range of the 32-bit counters the
  businesses listed for a community are those stored, each account once, and its offerings are the offerings of the
  listed businesses: although only those of listed businesses are collected, none that is stored is missing.\<close>

theorem offerings_listed:
  assumes "(bazaar_call ^^ n) bazaar_genesis s" and "n + 1 < 2 ^ 32" and "lists_keys accounts oids s cid"
  shows "set (rpc_get_offerings accounts oids s cid) = {y. \<exists>a oid. bz_offering_registry s (cid, a) oid = Some y} \<and>
    (\<forall>y. y \<in> set (rpc_get_businesses accounts s cid) \<longleftrightarrow> bz_business_registry s cid (bu_controller y) = Some (bu_business_data y)) \<and>
    distinct (map bu_controller (rpc_get_businesses accounts s cid))"
proof -
  have keys: "distinct accounts" "dom (bz_business_registry s cid) \<subseteq> set accounts" "\<And>a. dom (bz_offering_registry s (cid, a)) \<subseteq> set oids"
    using assms(3) by (auto simp: lists_keys_def)
  have owner: "\<exists>bd. bz_business_registry s cid a = Some bd" if "bz_offering_registry s (cid, a) oid = Some y" for a oid y
    using bazaar_okD[OF bazaar_calls_ok[OF assms(1,2)], of cid a] that by (auto simp: business_ok_def split: option.splits)
  have "y \<in> set (get_offerings oids s (cid, a)) \<longleftrightarrow> (\<exists>oid. bz_offering_registry s (cid, a) oid = Some y)" for a y
    using keys(3)[of a] by (auto simp: get_offerings_def set_map_filter)
  moreover have "y \<in> set (rpc_get_offerings accounts oids s cid) \<longleftrightarrow>
      (\<exists>a bd. (a, bd) \<in> set (get_businesses accounts s cid) \<and> y \<in> set (get_offerings oids s (cid, a)))" for y
    by (force simp: rpc_get_offerings_def)
  ultimately have "y \<in> set (rpc_get_offerings accounts oids s cid) \<longleftrightarrow> (\<exists>a oid. bz_offering_registry s (cid, a) oid = Some y)" for y
    using owner get_businesses_iff[OF keys(2)] by metis
  then have "set (rpc_get_offerings accounts oids s cid) = {y. \<exists>a oid. bz_offering_registry s (cid, a) oid = Some y}" by blast
  moreover have "y \<in> set (rpc_get_businesses accounts s cid) \<longleftrightarrow> bz_business_registry s cid (bu_controller y) = Some (bu_business_data y)" for y
    using get_businesses_iff[OF keys(2)] by (cases y) (force simp: rpc_get_businesses_def)
  moreover have "map bu_controller (rpc_get_businesses accounts s cid) = filter (\<lambda>a. bz_business_registry s cid a \<noteq> None) accounts"
    unfolding rpc_get_businesses_def get_businesses_def
    by (induction accounts) (auto simp: List.map_filter_def split: option.splits)
  ultimately show ?thesis using keys(1) by simp
qed

theorem offerings_listed_witness:
  "\<exists>s. one_shop ((communities_genesis 1 83)\<lparr>cm_community_identifiers := [demo_cid]\<rparr>) = Inr s \<and>
     set (rpc_get_offerings [7] [1] s demo_cid) = {\<lparr>od_url = [66]\<rparr>}"
proof -
  let ?cm = "(communities_genesis 1 83)\<lparr>cm_community_identifiers := [demo_cid]\<rparr>"
  have "demo_cid \<in> set (cm_community_identifiers ?cm)" by simp
  then obtain s0 s1 where s: "create_business ?cm 7 demo_cid [65] bazaar_genesis = Inr s0" "create_offering 7 demo_cid [66] s0 = Inr s1"
    "bz_offering_registry s1 (demo_cid, 7) = [1 \<mapsto> \<lparr>od_url = [66]\<rparr>]" "bz_business_registry s1 demo_cid 7 \<noteq> None"
    by (rule one_shop)
  have "(bazaar_call ^^ 2) bazaar_genesis s1"
    using call_create_business[OF s(1)] call_create_offering[OF s(2)] by (auto simp: numeral_2_eq_2)
  moreover have others: "bz_business_registry s1 demo_cid a = None" "bz_offering_registry s1 (demo_cid, a) = Map.empty" if "a \<noteq> 7" for a
    using s(1,2) that by (auto simp: bazaar_defs res_simps dm_insert_def bazaar_genesis_def fun_eq_iff)
  have offer: "bz_offering_registry s1 (demo_cid, a) oid = Some y \<longleftrightarrow> a = 7 \<and> oid = 1 \<and> y = \<lparr>od_url = [66]\<rparr>" for a oid y
    using others(2)[of a] s(3) by (cases "a = 7") auto
  have "a = 7" if "bz_business_registry s1 demo_cid a = Some y" for a y using that others(1)[of a] by auto
  then have "lists_keys [7] [1] s1 demo_cid" using offer unfolding lists_keys_def by auto
  ultimately have "set (rpc_get_offerings [7] [1] s1 demo_cid) = {y. \<exists>a oid. bz_offering_registry s1 (demo_cid, a) oid = Some y}"
    using offerings_listed[of 2 s1 "[7]" "[1]" demo_cid] by simp
  then have "set (rpc_get_offerings [7] [1] s1 demo_cid) = {\<lparr>od_url = [66]\<rparr>}" unfolding offer by simp
  moreover have "one_shop ?cm = Inr s1" unfolding one_shop_def s(1) bind_res_def using s(2) by simp
  ultimately show ?thesis by blast
qed

end
