(* ===== verification/Spec2Isabelle.thy ===== *)
theory Spec2Isabelle
  imports Ceremony_Properties Community_Properties Bazaar Democracy_Properties Ring_Properties Offline_Properties
    Chain Fee_Conversion Migration_Properties Reputation_Cache Bazaar_Rpc
begin

text \<open>
  The Encointer pallets, verified.

  Encointer is a set of Substrate pallets for local currencies. Communities register meetup locations; in a
  cycle of three phases their members register for a ceremony, are assigned to meetups at random, and attest
  each other's presence. Whoever is judged present earns a basic income in the currency of the community and
  reputation, which other pallets take as a proof of personhood: to vote, to draw from a faucet, to be a member
  of an anonymous ring. This development models the pallets of the repository as HOL functions on records of
  their storage and proves what makes them correct.

  HOW THE PARTS INTERACT. The scheduler advances the phase with the time of the blocks and informs its
  listeners: at the phase Assigning the ceremonies pallet draws the meetups, the rings pallet queues the
  computation of the rings of the ceremony before, and democracy enacts its queue; at Registering old reputations,
  commitments and rings are purged. Ceremonies read the communities (locations, bootstrappers, nominal income), issue
  income into the balances, and judge meetups with the meetup validation library. Faucets and democracy commit
  reputations through the commitments pallet, which reads the ceremonies; treasuries and offline payments move
  balances and native tokens; fees are converted with the nominal income.

  THE THEORIES, in the order of their imports. Names are those of the source, suffixed or prefixed only where two
  pallets use the same one (\<open>purge_registry\<close> of ceremonies, \<open>commitments_purge_registry\<close>).
  \<^item> Prelude: Rust's integer arithmetic with the width written out (\<open>checked_add\<close>, \<open>saturating_mul\<close>,
    \<open>wrapping_add\<close>), results (\<open>bind_res\<close>, \<open>ensure\<close>, \<open>ok_or\<close>), Substrate's maps and double maps, and the
    lemma collections shared below.
  \<^item> Rng: \<open>primitives/core/src/random_number_generator.rs\<close> and \<open>random_permutation.rs\<close>. The locale \<open>random_source\<close>
    states what a client may rely on, and is interpreted on \<open>pick_usize\<close>.
  \<^item> Assignment_Math, Prime_Chain, Assignment: \<open>ceremonies/assignment/src\<close>, primes, modular inverses, the assignment
    function and its inverse, meetup locations and times.
  \<^item> Meetup_Validation: \<open>ceremonies/meetup-validation/src/lib.rs\<close>, who voted, who attested whom, who is legitimate.
  \<^item> Scheduler: \<open>scheduler/src/lib.rs\<close> with \<open>primitives/src/scheduler.rs\<close>.
  \<^item> Community_Types, Communities, Community_Properties: \<open>primitives/src/communities.rs\<close>, \<open>common.rs\<close>,
    \<open>bs58_verify.rs\<close> and \<open>communities/src/lib.rs\<close>, with the index of the locations by geohash.
  \<^item> Balances: \<open>primitives/src/balances.rs\<close>, \<open>balances/src/lib.rs\<close> and \<open>impl_fungibles.rs\<close>; the locale \<open>issuer\<close> is
    the contract under which income is issued.
  \<^item> Ceremony_Types, Registry, Ceremonies, Meetups: \<open>primitives/src/ceremonies.rs\<close>, \<open>ceremonies/src/storage_helper.rs\<close>
    and \<open>ceremonies/src/lib.rs\<close>, in the order of the phases; the locale \<open>indexed_registry\<close> abstracts the three maps of a
    registry to a list of members. Meetup_Membership, Ceremony_Invariants and Ceremony_Scenario hold
    their lemmas and a concrete run. Ceremony_Runs has all calls of the pallet as one step relation, the purge of a ceremony
    by its master included, runs of calls and phase changes, and what they keep up to the purges the pallet
    logs; Ceremony_Properties states the properties.
  \<^item> Commitments, Treasuries, Faucets, Democracy, Democracy_Invariants, Democracy_Properties: the pallets of the same
    name with their types in \<open>primitives/src\<close>. Bazaar: the bazaar and the vouches pallet.
  \<^item> Reputation_Rings: \<open>reputation-rings/src/lib.rs\<close>. Ring_Computation, Ring_Runs and Ring_Invariants follow a
    computation through its eleven steps, in single calls and in the idle hook; Ring_Properties states the results.
  \<^item> Offline_Payment: \<open>offline-payment/src/lib.rs\<close> and \<open>verifier.rs\<close>. Offline_Circuit: the proving side,
    \<open>offline-payment/core/src\<close> and the safe functions of \<open>offline-payment/ffi/src/lib.rs\<close>. Offline_Properties: both
    sides together.
  \<^item> Fee_Conversion: \<open>balances-tx-payment/src/balance_conversion.rs\<close> and the fee query of its rpc crate.
  \<^item> Migrations, Migration_Properties: the \<open>migrations.rs\<close> of communities, ceremonies and democracy, with the checks
    before and after the upgrade.
  \<^item> Rpc_Cache, Reputation_Cache, Bazaar_Rpc: the answers of a node. What the pallets write to the offchain index, the
    caches that \<open>communities/rpc/src/lib.rs\<close> and \<open>ceremonies/rpc/src/lib.rs\<close> refresh from it when its dirty bit is set
    (and, for reputations, when the ceremony or phase changed), with the calls that change what they answer without
    setting it; and the listings of the bazaar with \<open>bazaar/rpc/src/lib.rs\<close>.
  \<^item> Chain: scheduler, ceremonies, communities, balances, commitments, rings and democracy as one runtime, with their
    calls, the changes of phase and the enactment of proposals, for every order of the listeners. The other pallets take part
    as steps that register purposes, commit attendances, or change balances and the funds of treasuries arbitrarily.

  HOW STATE AND CODE CORRESPOND. The storage of a pallet is a record with a field per storage item; a map is a
  function to options (\<open>ValueQuery\<close> is \<open>value_query\<close> with the default) and an association list where the code iterates over
  it. A call is a function to \<open>error + state\<close> with the checks in the order of the code; an error drops the new state,
  as the transaction of a dispatchable does. Hooks have no transaction, so their models keep what was written before
  an error. A panic is an error constructor, or \<open>None\<close> where nothing else can fail. Calls of an origin are given as the
  account or the outcome of the check. Sequences of calls, blocks and phase changes are inductive step relations
  with a rule for every operation, and the invariants are proved by rule induction over them. Where an operation
  takes a guarantee back (the purge of a ceremony, an attendance that is withdrawn), the property names it as a
  hypothesis on the run and does not leave it out of the relation.

  WHAT THE LEMMAS SHOW. Each pallet has cases or frame lemmas that describe the state after every operation, an
  invariant that all operations preserve, and properties that rest on both: arithmetic (the assignment of
  participants is a bijection between participants and seats, the search for primes ends), money (balances are
  backed by the issuance, transfers and swaps move what they say, rewards are paid once), personhood (an
  attendance registers once, drips once, and a vote counts exactly the attendances that are new to the proposal), control
  (a proposal is approved only by an update that finds it confirmed and passing), and liveness (complete meetups
  succeed, rings are published, approved proposals are enacted). Some properties state what goes wrong: a case the code does not handle, with a
  concrete run.

  PARAMETERS AND HYPOTHESES. Code outside the repository is an argument of the definitions, gathered in the
  configuration record of the pallet: the hash function, signatures and SCALE encoding; \<open>exp\<close> and \<open>sqrt\<close> of the fixed
  point crate, trigonometry and geohashes; the native currency (\<open>lawful_currency\<close>) and the paymaster; the iteration order
  of storage maps (\<open>lawful_iteration\<close>, \<open>lawful_key_order\<close>: a permutation of the keys); weights of calls and of the
  database; Groth16, the curve and its serialisation (\<open>lawful_groth16\<close>: the two keys of the payment
  circuit are complete for the values that satisfy it, \<open>lawful_curve\<close>: bilinear, \<open>lawful_codec\<close>: decoding inverts encoding). Each hypothesis has a witness with a concrete
  instance.

  BOUNDS AND FUEL. Unsigned integers are natural numbers with the width at each operation that can leave it;
  \<open>usize\<close> has 32 bits, as in the runtime's WebAssembly. Signed and fixed-point numbers are the integers of their bits. No
  definition uses fuel: recursion is structural or has a measure (the idle hook: twelve steps per queued community
  and at most eleven for the current one), and the loops that need not end, the rejection sampling of Rng, the search for
  primes and for coprimes, are partial functions whose result is an option; that they end is proved where the
  properties need it. \<open>splittable\<close> is the bound below which the split of a ring does not overflow.

  NOT MODELLED. Declarations of runtime interfaces, and the rpc crates and queries that only forward a call to
  them: they keep no state. In the modelled rpc crates the failures of the interface itself and of decoding a stored
  value are left out. Weights and benchmarks are generated or set up measurements. The C wrappers of the wallet
  interface convert pointers around the safe functions that are modelled. Mocks, tests, test utilities and logging.
\<close>

end
